(* ===== verification/Prelude.thy ===== *)
theory Prelude
  imports Main "HOL-Library.List_Lexorder" "HOL-Library.Char_ord"
begin

text \<open>
  Shared vocabulary of the development: Go's error results as sums, the association
  of first matches in table scans, the chunking of a slice, and the collections of
  simplification and split rules the component theories use.

  A Go \<open>string\<close> and a Go \<open>[]byte\<close> are byte sequences; both are modelled by
  HOL's \<open>string\<close> (a list of 8-bit characters), so \<open>len(s)\<close> is \<open>length s\<close>
  and Go's ordering of strings is the lexicographic order of the bytes.
\<close>

named_theorems result_simps \<open>rewriting of error results\<close>
named_theorems fable_splits \<open>case splits of result, option and pair matches\<close>

section \<open>Error results\<close>

text \<open>
  A Go function that returns \<open>(T, error)\<close> is a function into \<open>'e + 'a\<close>.
  \<open>bindE\<close> is the early return on error.
\<close>

definition bindE :: "'e + 'a \<Rightarrow> ('a \<Rightarrow> 'e + 'b) \<Rightarrow> 'e + 'b" where
  "bindE m f = (case m of Inl e \<Rightarrow> Inl e | Inr x \<Rightarrow> f x)"

definition mapErr :: "('e \<Rightarrow> 'f) \<Rightarrow> 'e + 'a \<Rightarrow> 'f + 'a" where
  "mapErr g m = (case m of Inl e \<Rightarrow> Inl (g e) | Inr x \<Rightarrow> Inr x)"

definition guardE :: "'e \<Rightarrow> bool \<Rightarrow> 'e + unit" where
  "guardE e ok = (if ok then Inr () else Inl e)"

lemma bindE_simps [simp, result_simps]:
  "bindE (Inl e) f = Inl e"
  "bindE (Inr x) f = f x"
  by (simp_all add: bindE_def)

lemma bindE_eq_Inr [result_simps]: "bindE m f = Inr y \<longleftrightarrow> (\<exists>x. m = Inr x \<and> f x = Inr y)"
  by (cases m) auto

lemma bindE_eq_Inl [result_simps]:
  "bindE m f = Inl e \<longleftrightarrow> m = Inl e \<or> (\<exists>x. m = Inr x \<and> f x = Inl e)"
  by (cases m) auto

lemma mapErr_simps [simp, result_simps]:
  "mapErr g (Inl e) = Inl (g e)"
  "mapErr g (Inr x) = Inr x"
  by (simp_all add: mapErr_def)

lemma mapErr_eq_Inr [simp, result_simps]: "mapErr g m = Inr y \<longleftrightarrow> m = Inr y"
  by (cases m) auto

lemma mapErr_eq_Inl [result_simps]: "mapErr g m = Inl f \<longleftrightarrow> (\<exists>e. m = Inl e \<and> f = g e)"
  by (cases m) auto

lemma guardE_simps [simp, result_simps]:
  "guardE e ok = Inr u \<longleftrightarrow> ok"
  "guardE e ok = Inl e' \<longleftrightarrow> \<not> ok \<and> e' = e"
  by (auto simp: guardE_def)

lemmas result_splits [fable_splits] = sum.splits option.splits prod.splits if_splits

section \<open>Lists\<close>

text \<open>
  \<open>index_of c xs\<close> is the position of the first \<open>c\<close>; it inverts indexing on
  lists without repetition.
\<close>

fun index_of :: "'a \<Rightarrow> 'a list \<Rightarrow> nat option" where
  "index_of c [] = None"
| "index_of c (x # xs) = (if c = x then Some 0 else map_option Suc (index_of c xs))"

lemma index_of_SomeD: "index_of c xs = Some i \<Longrightarrow> i < length xs \<and> xs ! i = c"
  by (induction xs arbitrary: i) (auto split: if_splits)

lemma index_of_None_iff: "index_of c xs = None \<longleftrightarrow> c \<notin> set xs"
  by (induction xs) auto

lemma index_of_nth: "distinct xs \<Longrightarrow> i < length xs \<Longrightarrow> index_of (xs ! i) xs = Some i"
proof (induction xs arbitrary: i)
  case Nil
  then show ?case by simp
next
  case (Cons x xs)
  then show ?case by (cases i) auto
qed

lemma find_SomeD: "List.find P xs = Some x \<Longrightarrow> x \<in> set xs \<and> P x"
  by (auto simp: find_Some_iff)

lemma find_None_iff_ball: "List.find P xs = None \<longleftrightarrow> (\<forall>x \<in> set xs. \<not> P x)"
  by (auto simp: find_None_iff)

text \<open>
  \<open>slice xs lo hi\<close> is Go's \<open>xs[lo:hi]\<close> with \<open>hi\<close> clipped to the length.
  \<open>chunks n xs\<close> are the slices of \<open>n\<close> elements a chunking loop visits.
\<close>

definition slice :: "'a list \<Rightarrow> nat \<Rightarrow> nat \<Rightarrow> 'a list" where
  "slice xs lo hi = take (hi - lo) (drop lo xs)"

definition chunk_count :: "nat \<Rightarrow> nat \<Rightarrow> nat" where
  "chunk_count n len = (len + (n - 1)) div n"

lemma set_slice_subset: "set (slice xs lo hi) \<subseteq> set xs"
  by (auto simp: slice_def dest!: in_set_takeD in_set_dropD)

lemma sorted_slice: "sorted_wrt R xs \<Longrightarrow> sorted_wrt R (slice xs lo hi)"
  by (simp add: slice_def sorted_wrt_take sorted_wrt_drop)

lemma concat_chunks:
  "concat (map (\<lambda>i. slice xs (i * n) (Suc i * n)) [0..<k]) = take (k * n) xs"
proof (induction k)
  case 0
  then show ?case by simp
next
  case (Suc k)
  have "take (k * n) xs @ slice xs (k * n) (Suc k * n) = take (Suc k * n) xs"
    by (simp add: slice_def take_add [symmetric] add.commute)
  with Suc show ?case by simp
qed

lemma chunk_count_covers: "0 < n \<Longrightarrow> len \<le> chunk_count n len * n"
proof -
  assume "0 < n"
  then have "len + (n - 1) < ((len + (n - 1)) div n + 1) * n"
    by (metis add.commute dividend_less_times_div mult.commute mult_Suc_right plus_1_eq_Suc)
  then have "len + (n - 1) < (len + (n - 1)) div n * n + n"
    by (simp add: algebra_simps)
  with \<open>0 < n\<close> show ?thesis by (simp add: chunk_count_def)
qed

lemma chunks_cover:
  "0 < n \<Longrightarrow>
   concat (map (\<lambda>i. slice xs (i * n) (Suc i * n)) [0..<chunk_count n (length xs)]) = xs"
  by (simp only: concat_chunks take_all_iff chunk_count_covers)

lemma chunk_index_in_range:
  assumes "0 < n" and "i < chunk_count n len"
  shows "i * n < len"
proof -
  from assms(2) have "Suc i \<le> (len + (n - 1)) div n" by (simp add: chunk_count_def)
  then have "Suc i * n \<le> (len + (n - 1)) div n * n" by (rule mult_le_mono1)
  also have "\<dots> \<le> len + (n - 1)" by simp
  finally show ?thesis using assms(1) by simp
qed

text \<open>
  First occurrences: the loop with a \<open>seen\<close> map that keeps an element the first
  time only.
\<close>

fun first_occurrences :: "'a list \<Rightarrow> 'a list \<Rightarrow> 'a list" where
  "first_occurrences seen [] = []"
| "first_occurrences seen (x # xs) =
     (if x \<in> set seen then first_occurrences seen xs
      else x # first_occurrences (x # seen) xs)"

lemma set_first_occurrences: "set (first_occurrences seen xs) = set xs - set seen"
  by (induction xs arbitrary: seen) auto

lemma distinct_first_occurrences: "distinct (first_occurrences seen xs)"
  by (induction xs arbitrary: seen) (auto simp: set_first_occurrences)

text \<open>
  Duplicate detection with a \<open>seen\<close> map: every element passes \<open>P\<close> and none was
  seen before.
\<close>

fun all_fresh :: "('a \<Rightarrow> bool) \<Rightarrow> 'a list \<Rightarrow> 'a list \<Rightarrow> bool" where
  "all_fresh P seen [] = True"
| "all_fresh P seen (x # xs) = (P x \<and> x \<notin> set seen \<and> all_fresh P (x # seen) xs)"

lemma all_fresh_iff:
  "all_fresh P seen xs \<longleftrightarrow> (\<forall>x \<in> set xs. P x) \<and> distinct xs \<and> set xs \<inter> set seen = {}"
  by (induction xs arbitrary: seen) auto

text \<open>Strictly increasing lists, the form of a sorted recipient snapshot.\<close>

abbreviation strict_sorted :: "'a::linorder list \<Rightarrow> bool" where
  "strict_sorted \<equiv> sorted_wrt (<)"

lemma strict_sorted_imp_distinct: "strict_sorted xs \<Longrightarrow> distinct xs"
  by (simp add: strict_sorted_iff)

lemma strict_sorted_unique:
  "strict_sorted xs \<Longrightarrow> strict_sorted ys \<Longrightarrow> set xs = set ys \<Longrightarrow> xs = ys"
  by (simp add: strict_sorted_equal)

end
