(* ===== verification/GoText.thy ===== *)
theory GoText
  imports Prelude
begin

text \<open>
  The text functions of the Go standard library that the program calls, on byte strings:
  UTF-8 validity and rune counting (\<open>unicode/utf8\<close>), decimal formatting and parsing
  (\<open>strconv\<close>), white-space trimming and prefixes (\<open>strings\<close>), and unpadded URL-safe
  base64 (\<open>encoding/base64.RawURLEncoding\<close>).

  A Go loop \<open>for _, r := range s\<close> visits runes. Every rune of a multi-byte or malformed
  sequence is at least 128, and every byte of such a sequence is at least 128, so a loop
  that rejects each rune outside an ASCII range is the same test on the bytes.
\<close>

abbreviation code :: "char \<Rightarrow> nat" where
  "code c \<equiv> of_char c"

definition all_bytes :: "nat \<Rightarrow> nat \<Rightarrow> string \<Rightarrow> bool" where
  "all_bytes lo hi s = list_all (\<lambda>c. lo \<le> code c \<and> code c \<le> hi) s"

definition has_prefix :: "string \<Rightarrow> string \<Rightarrow> bool" where
  "has_prefix s p = (take (length p) s = p)"

definition trim_prefix :: "string \<Rightarrow> string \<Rightarrow> string" where
  "trim_prefix s p = (if has_prefix s p then drop (length p) s else s)"

definition contains_any :: "string \<Rightarrow> string \<Rightarrow> bool" where
  "contains_any s cs = list_ex (\<lambda>c. c \<in> set cs) s"

lemma has_prefix_append [simp]: "has_prefix (p @ s) p"
  by (simp add: has_prefix_def)

lemma trim_prefix_append [simp]: "trim_prefix (p @ s) p = s"
  by (simp add: trim_prefix_def)

lemma has_prefixE: "has_prefix s p \<Longrightarrow> s = p @ trim_prefix s p"
  by (metis append_take_drop_id has_prefix_def trim_prefix_def)

section \<open>UTF-8\<close>

text \<open>
  The number of bytes of the first rune of a non-empty string, 0 when the first bytes are
  no well-formed encoding (Go then consumes one byte as U+FFFD): overlong forms, surrogates
  and values above U+10FFFF are malformed.
\<close>

definition cont :: "nat \<Rightarrow> bool" where
  "cont n = (128 \<le> n \<and> n \<le> 191)"

definition second_ok :: "nat \<Rightarrow> nat \<Rightarrow> bool" where
  "second_ok a b =
     (if a = 224 then 160 \<le> b \<and> b \<le> 191
      else if a = 237 then 128 \<le> b \<and> b \<le> 159
      else if a = 240 then 144 \<le> b \<and> b \<le> 191
      else if a = 244 then 128 \<le> b \<and> b \<le> 143
      else cont b)"

definition rune_width :: "nat list \<Rightarrow> nat" where
  "rune_width s =
     (case s of [] \<Rightarrow> 0
      | a # r \<Rightarrow>
        if a < 128 then 1
        else if 194 \<le> a \<and> a \<le> 223 then
          (case r of b # _ \<Rightarrow> if cont b then 2 else 0 | _ \<Rightarrow> 0)
        else if 224 \<le> a \<and> a \<le> 239 then
          (case r of b # c # _ \<Rightarrow> if second_ok a b \<and> cont c then 3 else 0 | _ \<Rightarrow> 0)
        else if 240 \<le> a \<and> a \<le> 244 then
          (case r of b # c # d # _ \<Rightarrow> if second_ok a b \<and> cont c \<and> cont d then 4 else 0 | _ \<Rightarrow> 0)
        else 0)"

function utf8_valid_codes :: "nat list \<Rightarrow> bool" where
  "utf8_valid_codes s =
     (if s = [] then True
      else if rune_width s = 0 then False
      else utf8_valid_codes (drop (rune_width s) s))"
  by pat_completeness auto
termination
  by (relation "measure length") auto

declare utf8_valid_codes.simps [simp del]

function rune_count_codes :: "nat list \<Rightarrow> nat" where
  "rune_count_codes s =
     (if s = [] then 0 else 1 + rune_count_codes (drop (max 1 (rune_width s)) s))"
  by pat_completeness auto
termination
  by (relation "measure length") auto

declare rune_count_codes.simps [simp del]

definition utf8_valid :: "string \<Rightarrow> bool" where
  "utf8_valid s = utf8_valid_codes (map code s)"

definition rune_count :: "string \<Rightarrow> nat" where
  "rune_count s = rune_count_codes (map code s)"

lemma rune_width_ascii [simp]: "a < 128 \<Longrightarrow> rune_width (a # r) = 1"
  by (simp add: rune_width_def)

lemma utf8_valid_Nil [simp]: "utf8_valid []"
  by (simp add: utf8_valid_def utf8_valid_codes.simps)

lemma utf8_valid_Cons_ascii [simp]: "code c < 128 \<Longrightarrow> utf8_valid (c # s) = utf8_valid s"
  by (simp add: utf8_valid_def utf8_valid_codes.simps [of "code c # map code s"])

lemma utf8_valid_ascii: "list_all (\<lambda>c. code c < 128) s \<Longrightarrow> utf8_valid s"
  by (induction s) auto

lemma utf8_valid_append_ascii: "list_all (\<lambda>c. code c < 128) s \<Longrightarrow> utf8_valid (s @ t) = utf8_valid t"
  by (induction s) auto

lemma rune_count_codes_le: "rune_count_codes s \<le> length s"
proof (induction s rule: rune_count_codes.induct)
  case (1 s)
  show ?case
  proof (cases "s = []")
    case True
    then show ?thesis by (simp add: rune_count_codes.simps)
  next
    case False
    with 1 have "rune_count_codes (drop (max 1 (rune_width s)) s) \<le> length s - max 1 (rune_width s)"
      by simp
    moreover have "0 < length s" using False by simp
    ultimately have "1 + rune_count_codes (drop (max 1 (rune_width s)) s) \<le> length s"
      by linarith
    with False show ?thesis by (simp add: rune_count_codes.simps [of s])
  qed
qed

lemma rune_count_le: "rune_count s \<le> length s"
  using rune_count_codes_le [of "map code s"] by (simp add: rune_count_def)

section \<open>Decimal numbers\<close>

definition digit_char :: "nat \<Rightarrow> char" where
  "digit_char d = char_of (48 + d)"

definition digit_val :: "char \<Rightarrow> nat option" where
  "digit_val c = (if 48 \<le> code c \<and> code c \<le> 57 then Some (code c - 48) else None)"

fun format_nat :: "nat \<Rightarrow> string" where
  "format_nat n =
     (if n < 10 then [digit_char n] else format_nat (n div 10) @ [digit_char (n mod 10)])"

declare format_nat.simps [simp del]

definition format_int :: "int \<Rightarrow> string" where
  "format_int i = (if i < 0 then CHR ''-'' # format_nat (nat (- i)) else format_nat (nat i))"

fun parse_digits :: "nat \<Rightarrow> string \<Rightarrow> nat option" where
  "parse_digits acc [] = Some acc"
| "parse_digits acc (c # s) =
     (case digit_val c of None \<Rightarrow> None | Some d \<Rightarrow> parse_digits (acc * 10 + d) s)"

definition parse_nat :: "string \<Rightarrow> nat option" where
  "parse_nat s = (if s = [] then None else parse_digits 0 s)"

text \<open>\<open>strconv.ParseUint(s, 10, bits)\<close>: no sign is accepted.\<close>

definition parse_uint :: "nat \<Rightarrow> string \<Rightarrow> nat option" where
  "parse_uint bits s =
     (case parse_nat s of None \<Rightarrow> None | Some n \<Rightarrow> if int n < 2 ^ bits then Some n else None)"

text \<open>\<open>strconv.ParseInt(s, 10, 64)\<close> and \<open>strconv.Atoi\<close>: one optional sign.\<close>

definition parse_int64 :: "string \<Rightarrow> int option" where
  "parse_int64 s =
     (case s of
        [] \<Rightarrow> None
      | c # r \<Rightarrow>
        (case parse_nat (if c = CHR ''-'' \<or> c = CHR ''+'' then r else s) of
           None \<Rightarrow> None
         | Some n \<Rightarrow>
           if c = CHR ''-'' then (if int n \<le> 2 ^ 63 then Some (- int n) else None)
           else if int n < 2 ^ 63 then Some (int n) else None))"

lemma code_digit_char: "d < 10 \<Longrightarrow> code (digit_char d) = 48 + d"
  by (simp add: digit_char_def)

lemma digit_val_digit_char [simp]: "d < 10 \<Longrightarrow> digit_val (digit_char d) = Some d"
  by (simp add: digit_val_def code_digit_char)

lemma parse_digits_append:
  "parse_digits acc (s @ t) = (case parse_digits acc s of None \<Rightarrow> None | Some a \<Rightarrow> parse_digits a t)"
  by (induction s arbitrary: acc) (auto split: option.split)

lemma format_nat_neq_Nil [simp]: "format_nat n \<noteq> []"
  by (subst format_nat.simps) simp

lemma parse_digits_format_nat: "parse_digits 0 (format_nat n) = Some n"
proof (induction n rule: format_nat.induct)
  case (1 n)
  then show ?case
    by (cases "n < 10") (simp_all add: format_nat.simps [of n] parse_digits_append)
qed

lemma parse_nat_format_nat [simp]: "parse_nat (format_nat n) = Some n"
  by (simp add: parse_nat_def parse_digits_format_nat)

lemma format_nat_digits: "list_all (\<lambda>c. 48 \<le> code c \<and> code c \<le> 57) (format_nat n)"
proof (induction n rule: format_nat.induct)
  case (1 n)
  then show ?case
    by (cases "n < 10") (simp_all add: format_nat.simps [of n] code_digit_char)
qed

lemma hd_format_nat_digit: "48 \<le> code (hd (format_nat n)) \<and> code (hd (format_nat n)) \<le> 57"
  using format_nat_digits [of n] by (cases "format_nat n") auto

lemma parse_int64_format_int:
  assumes "0 \<le> i" and "i < 2 ^ 63"
  shows "parse_int64 (format_int i) = Some i"
proof -
  obtain c r where cr: "format_nat (nat i) = c # r"
    by (cases "format_nat (nat i)") auto
  from hd_format_nat_digit [of "nat i"] cr have "48 \<le> code c" by simp
  then have "c \<noteq> CHR ''-''" and "c \<noteq> CHR ''+''" by auto
  moreover from assms have "nat i < 2 ^ 63" by (simp add: nat_less_iff)
  moreover have "parse_nat (c # r) = Some (nat i)"
    using parse_nat_format_nat [of "nat i"] cr by simp
  ultimately show ?thesis using assms cr
    by (simp add: parse_int64_def format_int_def)
qed

lemma format_nat_inject: "format_nat m = format_nat n \<longleftrightarrow> m = n"
  by (metis option.inject parse_nat_format_nat)

section \<open>White space\<close>

text \<open>The encodings of the runes \<open>unicode.IsSpace\<close> accepts.\<close>

definition space_runes :: "nat list list" where
  "space_runes =
     [[9], [10], [11], [12], [13], [32], [194, 133], [194, 160], [225, 154, 128]]
     @ map (\<lambda>b. [226, 128, b]) [128..<139]
     @ [[226, 128, 168], [226, 128, 169], [226, 128, 175], [226, 129, 159], [227, 128, 128]]"

definition lead_space :: "string \<Rightarrow> nat" where
  "lead_space s =
     (case List.find (\<lambda>r. take (length r) (map code s) = r) space_runes of
        None \<Rightarrow> 0 | Some r \<Rightarrow> length r)"

function trim_left :: "string \<Rightarrow> string" where
  "trim_left s = (if s = [] \<or> lead_space s = 0 then s else trim_left (drop (lead_space s) s))"
  by pat_completeness auto
termination
  by (relation "measure length") auto

declare trim_left.simps [simp del]

text \<open>
  Trimming on the right drops suffixes; an encoding ends the string exactly when its
  reverse starts the reversed string.
\<close>

definition trail_space :: "string \<Rightarrow> nat" where
  "trail_space s =
     (case List.find (\<lambda>r. take (length r) (map code s) = rev r) space_runes of
        None \<Rightarrow> 0 | Some r \<Rightarrow> length r)"

function trim_right_rev :: "string \<Rightarrow> string" where
  "trim_right_rev s =
     (if s = [] \<or> trail_space s = 0 then s else trim_right_rev (drop (trail_space s) s))"
  by pat_completeness auto
termination
  by (relation "measure length") auto

declare trim_right_rev.simps [simp del]

definition trim_space :: "string \<Rightarrow> string" where
  "trim_space s = rev (trim_right_rev (rev (trim_left s)))"

lemma length_trim_left: "length (trim_left s) \<le> length s"
proof (induction s rule: trim_left.induct)
  case (1 s)
  then show ?case by (subst trim_left.simps) (simp, linarith)
qed

lemma length_trim_right_rev: "length (trim_right_rev s) \<le> length s"
proof (induction s rule: trim_right_rev.induct)
  case (1 s)
  then show ?case by (subst trim_right_rev.simps) (simp, linarith)
qed

lemma length_trim_space: "length (trim_space s) \<le> length s"
  using length_trim_left [of s] length_trim_right_rev [of "rev (trim_left s)"]
  by (simp add: trim_space_def)

end
