(* ===== verification/Base64.thy ===== *)
theory Base64
  imports GoText
begin

text \<open>
  \<open>base64.RawURLEncoding\<close>: the URL-safe alphabet without padding. Decoding skips carriage
  returns and line feeds, rejects any other character outside the alphabet and a final
  group of one character, and ignores the unused low bits of a final group, as the
  standard library's decoder does outside its strict mode. The program therefore compares
  the re-encoding with its input; \<open>b64_canonical_iff\<close> characterises the inputs that pass.
\<close>

definition b64_alphabet :: string where
  "b64_alphabet = ''ABCDEFGHIJKLMNOPQRSTUVWXYZabcdefghijklmnopqrstuvwxyz0123456789-_''"

definition b64_char :: "nat \<Rightarrow> char" where
  "b64_char v = b64_alphabet ! v"

definition b64_val :: "char \<Rightarrow> nat option" where
  "b64_val c = index_of c b64_alphabet"

fun enc_bytes :: "nat list \<Rightarrow> nat list" where
  "enc_bytes [] = []"
| "enc_bytes [x] = [x div 4, x mod 4 * 16]"
| "enc_bytes [x, y] = [x div 4, x mod 4 * 16 + y div 16, y mod 16 * 4]"
| "enc_bytes (x # y # z # r) =
     x div 4 # (x mod 4 * 16 + y div 16) # (y mod 16 * 4 + z div 64) # z mod 64 # enc_bytes r"

fun dec_sextets :: "nat list \<Rightarrow> nat list option" where
  "dec_sextets [] = Some []"
| "dec_sextets [a] = None"
| "dec_sextets [a, b] = Some [a * 4 + b div 16]"
| "dec_sextets [a, b, c] = Some [a * 4 + b div 16, b mod 16 * 16 + c div 4]"
| "dec_sextets (a # b # c # d # r) =
     map_option (\<lambda>bs. (a * 4 + b div 16) # (b mod 16 * 16 + c div 4) # (c mod 4 * 64 + d) # bs)
       (dec_sextets r)"

definition b64_encode :: "string \<Rightarrow> string" where
  "b64_encode s = map b64_char (enc_bytes (map code s))"

definition b64_decode :: "string \<Rightarrow> string option" where
  "b64_decode t =
     (case those (map b64_val (filter (\<lambda>c. code c \<noteq> 10 \<and> code c \<noteq> 13) t)) of
        None \<Rightarrow> None
      | Some vs \<Rightarrow> map_option (map char_of) (dec_sextets vs))"

section \<open>The alphabet\<close>

lemma distinct_alphabet: "distinct b64_alphabet"
  by (simp add: b64_alphabet_def)

lemma length_alphabet: "length b64_alphabet = 64"
  by (simp add: b64_alphabet_def)

lemma b64_val_char [simp]: "v < 64 \<Longrightarrow> b64_val (b64_char v) = Some v"
  by (simp add: b64_val_def b64_char_def index_of_nth distinct_alphabet length_alphabet)

lemma b64_val_SomeD: "b64_val c = Some v \<Longrightarrow> v < 64 \<and> b64_char v = c"
  using index_of_SomeD [of c b64_alphabet v]
  by (simp add: b64_val_def b64_char_def length_alphabet)

lemma b64_val_eq_Some: "b64_val c = Some v \<longleftrightarrow> v < 64 \<and> c = b64_char v"
  using b64_val_SomeD by auto

lemma b64_val_None_iff: "b64_val c = None \<longleftrightarrow> c \<notin> set b64_alphabet"
  by (simp add: b64_val_def index_of_None_iff)

lemma alphabet_not_newline: "c \<in> set b64_alphabet \<Longrightarrow> code c \<noteq> 10 \<and> code c \<noteq> 13"
  unfolding b64_alphabet_def by auto

lemma b64_char_in_alphabet [simp]: "v < 64 \<Longrightarrow> b64_char v \<in> set b64_alphabet"
  by (simp add: b64_char_def length_alphabet)

lemma b64_char_inject: "v < 64 \<Longrightarrow> w < 64 \<Longrightarrow> b64_char v = b64_char w \<longleftrightarrow> v = w"
  by (metis b64_val_char option.inject)

section \<open>Groups\<close>

abbreviation below :: "nat \<Rightarrow> nat list \<Rightarrow> bool" where
  "below n xs \<equiv> list_all (\<lambda>x. x < n) xs"

lemma enc_bytes_below: "below 256 bs \<Longrightarrow> below 64 (enc_bytes bs)"
  by (induction bs rule: enc_bytes.induct) auto

lemma dec_enc_bytes: "below 256 bs \<Longrightarrow> dec_sextets (enc_bytes bs) = Some bs"
  by (induction bs rule: enc_bytes.induct) auto

lemma dec_sextets_below: "below 64 vs \<Longrightarrow> dec_sextets vs = Some bs \<Longrightarrow> below 256 bs"
  by (induction vs arbitrary: bs rule: dec_sextets.induct) auto

lemma dec_sextets_length:
  "dec_sextets vs = Some bs \<Longrightarrow> length bs = 3 * length vs div 4 \<and> length vs mod 4 \<noteq> 1"
  by (induction vs arbitrary: bs rule: dec_sextets.induct) auto

lemma dec_sextets_None_iff: "dec_sextets vs = None \<longleftrightarrow> length vs mod 4 = 1"
  by (induction vs rule: dec_sextets.induct) auto

text \<open>A decoded sequence re-encodes to itself exactly when its unused bits are zero.\<close>

definition zero_tail :: "nat list \<Rightarrow> bool" where
  "zero_tail vs =
     ((length vs mod 4 = 2 \<longrightarrow> last vs mod 16 = 0) \<and> (length vs mod 4 = 3 \<longrightarrow> last vs mod 4 = 0))"

lemma zero_tail_4: "zero_tail (a # b # c # d # r) = zero_tail r"
proof (cases "r = []")
  case True
  then show ?thesis by (simp add: zero_tail_def)
next
  case False
  have "length (a # b # c # d # r) mod 4 = (4 + length r) mod 4" by simp
  also have "\<dots> = length r mod 4" by (rule mod_add_self1)
  finally show ?thesis using False by (simp only: zero_tail_def last.simps if_False list.simps)
qed

lemma enc_dec_sextets:
  "below 64 vs \<Longrightarrow> dec_sextets vs = Some bs \<Longrightarrow> enc_bytes bs = vs \<longleftrightarrow> zero_tail vs"
proof (induction vs arbitrary: bs rule: dec_sextets.induct)
  case (3 a b)
  then show ?case by (auto simp: zero_tail_def) presburger
next
  case (4 a b c)
  then show ?case by (auto simp: zero_tail_def) presburger+
next
  case (5 a b c d r)
  then obtain bs' where bs': "dec_sextets r = Some bs'"
    and bs: "bs = (a * 4 + b div 16) # (b mod 16 * 16 + c div 4) # (c mod 4 * 64 + d) # bs'"
    by auto
  have "enc_bytes bs' = r \<longleftrightarrow> zero_tail r" using 5 bs' by simp
  then show ?case using 5(2) unfolding bs zero_tail_4 by (auto; presburger)
qed (auto simp: zero_tail_def)

section \<open>Round trip and canonical texts\<close>

lemma below_codes: "below 256 (map code s)"
  by (auto simp: list_all_iff)

lemma filter_alphabet: "set t \<subseteq> set b64_alphabet \<Longrightarrow> filter (\<lambda>c. code c \<noteq> 10 \<and> code c \<noteq> 13) t = t"
  using alphabet_not_newline by (auto intro!: filter_True)

lemma those_vals: "below 64 vs \<Longrightarrow> those (map b64_val (map b64_char vs)) = Some vs"
  by (induction vs) auto

lemma those_map_SomeD: "those (map b64_val t) = Some vs \<Longrightarrow> t = map b64_char vs \<and> below 64 vs"
  by (induction t arbitrary: vs) (auto simp: b64_val_eq_Some split: option.splits)

lemma set_encode: "set (b64_encode s) \<subseteq> set b64_alphabet"
  using enc_bytes_below [OF below_codes [of s]] by (auto simp: b64_encode_def list_all_iff)

lemma decode_sextet_text:
  "below 64 vs \<Longrightarrow> b64_decode (map b64_char vs) = map_option (map char_of) (dec_sextets vs)"
proof -
  assume vs: "below 64 vs"
  then have "set (map b64_char vs) \<subseteq> set b64_alphabet" by (auto simp: list_all_iff)
  with vs show ?thesis
    by (simp add: b64_decode_def filter_alphabet those_vals del: map_map)
qed

theorem b64_roundtrip: "b64_decode (b64_encode s) = Some s"
proof -
  have vs: "below 64 (enc_bytes (map code s))" by (rule enc_bytes_below [OF below_codes])
  have "b64_decode (b64_encode s) = map_option (map char_of) (Some (map code s))"
    by (simp only: b64_encode_def decode_sextet_text [OF vs] dec_enc_bytes [OF below_codes])
  then show ?thesis by (simp add: comp_def)
qed

lemma b64_encode_inject: "b64_encode s = b64_encode t \<longleftrightarrow> s = t"
  by (metis b64_roundtrip option.inject)

text \<open>
  \<open>canonical n t\<close> is the check \<open>err == nil && len(raw) >= n && EncodeToString(raw) == t\<close>.
\<close>

definition canonical :: "nat \<Rightarrow> string \<Rightarrow> bool" where
  "canonical n t =
     (case b64_decode t of None \<Rightarrow> False | Some raw \<Rightarrow> n \<le> length raw \<and> b64_encode raw = t)"

lemma encode_decoded_iff:
  assumes vs: "below 64 vs" and dec: "dec_sextets vs = Some bs"
  shows "b64_encode (map char_of bs) = map b64_char vs \<longleftrightarrow> zero_tail vs"
proof -
  have bs: "below 256 bs" by (rule dec_sextets_below [OF vs dec])
  then have codes: "map code (map (char_of :: nat \<Rightarrow> char) bs) = bs"
    by (induction bs) (auto simp: of_char_of)
  have enc: "below 64 (enc_bytes bs)" by (rule enc_bytes_below [OF bs])
  have "map b64_char (enc_bytes bs) = map b64_char vs \<longleftrightarrow> enc_bytes bs = vs"
    using enc vs by (metis option.inject those_vals)
  with codes enc_dec_sextets [OF vs dec] show ?thesis by (simp add: b64_encode_def)
qed

lemma b64_canonical_iff:
  "canonical n t \<longleftrightarrow>
     (\<exists>vs. t = map b64_char vs \<and> below 64 vs \<and> length vs mod 4 \<noteq> 1 \<and>
           n \<le> 3 * length vs div 4 \<and> zero_tail vs)"
proof
  assume c: "canonical n t"
  then obtain raw where raw: "b64_decode t = Some raw" "n \<le> length raw" "b64_encode raw = t"
    by (auto simp: canonical_def split: option.splits)
  define vs where "vs = enc_bytes (map code raw)"
  have vs: "below 64 vs" unfolding vs_def by (rule enc_bytes_below [OF below_codes])
  have t: "t = map b64_char vs" using raw(3) by (simp add: b64_encode_def vs_def)
  have dec: "dec_sextets vs = Some (map code raw)"
    unfolding vs_def by (rule dec_enc_bytes [OF below_codes])
  from enc_dec_sextets [OF vs dec] have "zero_tail vs" by (simp add: vs_def)
  with vs t dec_sextets_length [OF dec] raw(2)
  show "\<exists>vs. t = map b64_char vs \<and> below 64 vs \<and> length vs mod 4 \<noteq> 1 \<and>
           n \<le> 3 * length vs div 4 \<and> zero_tail vs" by auto
next
  assume "\<exists>vs. t = map b64_char vs \<and> below 64 vs \<and> length vs mod 4 \<noteq> 1 \<and>
           n \<le> 3 * length vs div 4 \<and> zero_tail vs"
  then obtain vs where vs: "t = map b64_char vs" "below 64 vs" "length vs mod 4 \<noteq> 1"
    "n \<le> 3 * length vs div 4" "zero_tail vs" by blast
  from vs(3) obtain bs where bs: "dec_sextets vs = Some bs"
    using dec_sextets_None_iff by (cases "dec_sextets vs") auto
  from encode_decoded_iff [OF vs(2) bs] vs(5) dec_sextets_length [OF bs] vs
  show "canonical n t" by (simp add: canonical_def decode_sextet_text bs del: map_map)
qed

lemma canonical_alphabet: "canonical n t \<Longrightarrow> set t \<subseteq> set b64_alphabet"
  by (auto simp: b64_canonical_iff list_all_iff)

section \<open>Standard base64\<close>

text \<open>\<open>base64.StdEncoding\<close>: the padded form over \<open>+\<close> and \<open>/\<close>, and its strict decoder.\<close>

definition to_std :: "char \<Rightarrow> char" where
  "to_std c = (if c = CHR ''-'' then CHR ''+'' else if c = CHR ''_'' then CHR ''/'' else c)"

definition from_std :: "char \<Rightarrow> char option" where
  "from_std c =
     (if c = CHR ''+'' then Some (CHR ''-'') else if c = CHR ''/'' then Some (CHR ''_'')
      else if c = CHR ''-'' \<or> c = CHR ''_'' then None else Some c)"

definition std_pad :: "nat \<Rightarrow> nat" where
  "std_pad n = (4 - n mod 4) mod 4"

definition std_encode :: "string \<Rightarrow> string" where
  "std_encode s = (let b = map to_std (b64_encode s) in b @ replicate (std_pad (length b)) (CHR ''=''))"

definition std_decode :: "string \<Rightarrow> string option" where
  "std_decode t =
     (let u = filter (\<lambda>c. code c \<noteq> 10 \<and> code c \<noteq> 13) t;
          b = rev (dropWhile (\<lambda>c. c = CHR ''='') (rev u)) in
      if length u \<noteq> length b + std_pad (length b) then None
      else case those (map from_std b) of
             None \<Rightarrow> None
           | Some x \<Rightarrow>
             (case those (map b64_val x) of
                None \<Rightarrow> None
              | Some vs \<Rightarrow> if zero_tail vs then map_option (map char_of) (dec_sextets vs) else None))"

text \<open>\<open>DecodeString\<close> of \<open>StdEncoding\<close> itself does not look at the unused bits of the last character.\<close>

definition std_decode_lax :: "string \<Rightarrow> string option" where
  "std_decode_lax t =
     (let u = filter (\<lambda>c. code c \<noteq> 10 \<and> code c \<noteq> 13) t;
          b = rev (dropWhile (\<lambda>c. c = CHR ''='') (rev u)) in
      if length u \<noteq> length b + std_pad (length b) then None
      else case those (map from_std b) of
             None \<Rightarrow> None
           | Some x \<Rightarrow>
             (case those (map b64_val x) of
                None \<Rightarrow> None
              | Some vs \<Rightarrow> map_option (map char_of) (dec_sextets vs)))"

end
