(* ===== verification/Contract.thy ===== *)
theory Contract
  imports Base64
begin

text \<open>
  The data that crosses component boundaries: the protobuf messages of \<open>api/proto/fable/v1\<close>
  as the generated Go structs hold them, and the JSON transfer objects of \<open>internal/dto/im\<close>.
  A pointer field that may be nil is an \<open>option\<close>. A protobuf enum is an int32 in Go; every
  place that reads one treats the values it does not name alike, so the \<open>UNSPECIFIED\<close>
  constructor stands for all of them.

  Third-party functions the program calls are fields of the record \<open>lib\<close>, which every
  definition that needs one takes as its first argument: \<open>uuid.Validate\<close>, the canonical
  text of \<open>uuid.Parse\<close>, \<open>timestamppb\<close>'s \<open>CheckValid\<close>, and the SHA-256 digest. The
  hypotheses theorems make about them are the predicates \<open>uuid_documented\<close> and
  \<open>ts_documented\<close> below.
\<close>

section \<open>Time\<close>

text \<open>
  A \<open>time.Time\<close> is an instant in nanoseconds since the Unix epoch with the offset of its
  zone in seconds; the zero time is the start of year 1, UTC. A protobuf timestamp keeps seconds and nanoseconds.
\<close>

datatype gotime = GoTime (t_ns: int) (t_off: int)

definition ns_per_s :: int where "ns_per_s = 1000000000"

definition ns_per_ms :: int where "ns_per_ms = 1000000"

definition zero_ns :: int where "zero_ns = - 62135596800 * ns_per_s"

definition is_zero_time :: "gotime \<Rightarrow> bool" where
  "is_zero_time t = (t_ns t = zero_ns)"

record timestamp =
  ts_seconds :: int
  ts_nanos :: int

definition ts_new :: "int \<Rightarrow> timestamp" where
  "ts_new ns = \<lparr>ts_seconds = ns div ns_per_s, ts_nanos = ns mod ns_per_s\<rparr>"

definition as_time :: "timestamp \<Rightarrow> int" where
  "as_time t = ts_seconds t * ns_per_s + ts_nanos t"

lemma as_time_ts_new [simp]: "as_time (ts_new ns) = ns"
  by (simp add: as_time_def ts_new_def)

definition unix_milli :: "int \<Rightarrow> int" where
  "unix_milli ms = ms * ns_per_ms"

section \<open>Third-party functions\<close>

record lib =
  uuid_validate :: "string \<Rightarrow> bool"
  uuid_canonical :: "string \<Rightarrow> string option"
  ts_check :: "timestamp \<Rightarrow> bool"
  sha256 :: "string \<Rightarrow> string"

definition nil_uuid :: string where
  "nil_uuid = ''00000000-0000-0000-0000-000000000000''"

definition hex_char :: "char \<Rightarrow> bool" where
  "hex_char c =
     (48 \<le> code c \<and> code c \<le> 57 \<or> 65 \<le> code c \<and> code c \<le> 70 \<or> 97 \<le> code c \<and> code c \<le> 102)"

text \<open>The 36-character text form of a UUID: hexadecimal digits with four hyphens.\<close>

definition uuid_form :: "string \<Rightarrow> bool" where
  "uuid_form s =
     (length s = 36 \<and>
      (\<forall>i \<in> set [0..<36]. if i \<in> {8, 13, 18, 23} then s ! i = CHR ''-'' else hex_char (s ! i)))"

text \<open>
  What the documentation of \<open>google/uuid\<close> says of 36-character arguments of \<open>Validate\<close>: they are
  valid when they have the form \<open>xxxxxxxx-xxxx-xxxx-xxxx-xxxxxxxxxxxx\<close>.
\<close>

definition uuid_documented :: "lib \<Rightarrow> bool" where
  "uuid_documented L = (\<forall>s. length s = 36 \<longrightarrow> uuid_validate L s = uuid_form s)"

text \<open>
  \<open>CheckValid\<close> accepts the instants from year 1 to year 9999 with nanoseconds in range.
\<close>

definition ts_documented :: "lib \<Rightarrow> bool" where
  "ts_documented L =
     (\<forall>t. ts_check L t =
        (- 62135596800 \<le> ts_seconds t \<and> ts_seconds t \<le> 253402300799 \<and>
         0 \<le> ts_nanos t \<and> ts_nanos t < ns_per_s))"

text \<open>A concrete instance, used where a theorem is applied to concrete input.\<close>

definition doc_lib :: lib where
  "doc_lib =
     \<lparr>uuid_validate = uuid_form,
      uuid_canonical = (\<lambda>s. if uuid_form s then Some s else None),
      ts_check = (\<lambda>t. - 62135596800 \<le> ts_seconds t \<and> ts_seconds t \<le> 253402300799 \<and>
                       0 \<le> ts_nanos t \<and> ts_nanos t < ns_per_s),
      sha256 = id\<rparr>"

lemma doc_lib_documented [simp]: "uuid_documented doc_lib" "ts_documented doc_lib"
  by (simp_all add: uuid_documented_def ts_documented_def doc_lib_def)

section \<open>Enumerations\<close>

datatype receive_type = RECEIVE_TYPE_UNSPECIFIED | RECEIVE_TYPE_USER | RECEIVE_TYPE_GROUP

datatype message_type = MESSAGE_TYPE_UNSPECIFIED | MESSAGE_TYPE_TEXT

datatype message_origin =
  MESSAGE_ORIGIN_UNSPECIFIED | MESSAGE_ORIGIN_USER | MESSAGE_ORIGIN_AI

datatype dispatch_state =
  DISPATCH_STATE_UNSPECIFIED | DISPATCH_STATE_QUEUED | DISPATCH_STATE_NOT_QUEUED |
  DISPATCH_STATE_UNKNOWN

datatype delete_outcome = OUTCOME_UNSPECIFIED | DELETED | NOT_CURRENT | NOT_FOUND

datatype offline_reason =
  OFFLINE_REASON_UNSPECIFIED | OFFLINE_REASON_NO_ROUTE | OFFLINE_REASON_LEASE_EXPIRED |
  OFFLINE_REASON_INSTANCE_EXPIRED

datatype missing_reason =
  MISSING_REASON_UNSPECIFIED | MISSING_REASON_NOT_REGISTERED | MISSING_REASON_LEASE_EXPIRED

datatype delivery_outcome =
  DELIVERY_UNSPECIFIED | DELIVERY_ENQUEUED | DELIVERY_DUPLICATE | DELIVERY_NOT_FOUND |
  DELIVERY_STALE | DELIVERY_QUEUE_FULL | DELIVERY_DRAINING

datatype kick_reason =
  KICK_REASON_UNSPECIFIED | KICK_REASON_REPLACED | KICK_REASON_AUTH_EXPIRED | KICK_REASON_SHUTDOWN

datatype error_reason =
  REASON_UNSPECIFIED | REASON_INVALID_ARGUMENT | REASON_IDEMPOTENCY_CONFLICT |
  REASON_UNAUTHENTICATED | REASON_PERMISSION_DENIED | REASON_SUPERSEDED |
  REASON_LEASE_EXPIRED | REASON_INSTANCE_NOT_REGISTERED | REASON_DEPENDENCY_UNAVAILABLE |
  REASON_RESOURCE_EXHAUSTED | REASON_DRAINING

datatype retry_directive =
  RETRY_UNSPECIFIED | RETRY_DO_NOT_RETRY | RETRY_SAME_REQUEST | RETRY_RECONNECT |
  RETRY_REAUTHENTICATE | RETRY_REFRESH_ROUTE

text \<open>The gRPC status codes the program distinguishes; \<open>OtherCode\<close> is any further one.\<close>

datatype rpc_code =
  Canceled | InvalidArgument | DeadlineExceeded | NotFound | AlreadyExists | PermissionDenied |
  FailedPrecondition | Unimplemented | Unavailable | Unauthenticated | OtherCode

record error_detail =
  ed_reason :: error_reason
  ed_retry :: retry_directive
  ed_request :: string

text \<open>A gRPC error status: its code and the \<open>ErrorDetail\<close> entries of its details.\<close>

record rpc_status =
  st_code :: rpc_code
  st_details :: "error_detail list"

datatype ctx_err = CtxCanceled | CtxDeadlineExceeded

section \<open>Identities, leases and messages\<close>

record comet_id =
  ci_instance :: string
  ci_boot :: string

record conn_id =
  cn_user :: string
  cn_instance :: string
  cn_connection :: string
  cn_token :: string

record route_lease =
  rl_identity :: "conn_id option"
  rl_auth :: "timestamp option"
  rl_deadline :: "timestamp option"

record comet_lease =
  cl_identity :: "comet_id option"
  cl_address :: string
  cl_draining :: bool
  cl_deadline :: "timestamp option"

record destination =
  d_type :: receive_type
  d_id :: string

record message_view =
  mv_id :: string
  mv_conversation :: string
  mv_session :: string
  mv_sender :: string
  mv_dest :: "destination option"
  mv_type :: message_type
  mv_content :: string
  mv_origin :: message_origin
  mv_created :: "timestamp option"
  mv_position :: nat

datatype route_state = NoRouteState | RouteState "route_lease option" | OfflineState offline_reason

record route_result =
  rr_user :: string
  rr_state :: route_state

datatype comet_state = NoCometState | LeaseState "comet_lease option" | MissingState missing_reason

record comet_resolution =
  cr_instance :: string
  cr_state :: comet_state

record delivery_result =
  dr_target :: "conn_id option"
  dr_outcome :: delivery_outcome

record send_result =
  sr_client :: string
  sr_stored :: bool
  sr_message :: message_view
  sr_dispatch :: dispatch_state
  sr_replayed :: bool

text \<open>\<open>im.Message\<close>, the public view, and \<open>im.PushTask\<close>. A slice whose nil is told from its
  empty value is an \<open>option\<close>.\<close>

record im_message =
  im_id :: string
  im_conversation :: string
  im_session :: string
  im_send :: string
  im_receive :: string
  im_receive_type :: string
  im_type :: string
  im_content :: string
  im_origin :: string
  im_created :: gotime
  im_position :: string

record push_task =
  pt_version :: nat
  pt_kind :: string
  pt_task_id :: string
  pt_message :: im_message
  pt_recipients :: "string list"
  pt_targets :: "conn_id list option"
  pt_index :: nat
  pt_count :: nat
  pt_request :: string
  pt_pending :: "string list option"
  pt_run :: string

text \<open>
  \<open>publicMessage\<close> (the same function in the logic, messagestore and comet packages). The view
  comes from storage or passed validation, so destination and creation time are present.
\<close>

definition public_message :: "message_view \<Rightarrow> im_message" where
  "public_message m =
     \<lparr>im_id = mv_id m, im_conversation = mv_conversation m, im_session = mv_session m,
      im_send = mv_sender m, im_receive = d_id (the (mv_dest m)),
      im_receive_type =
        (if d_type (the (mv_dest m)) = RECEIVE_TYPE_GROUP then ''group'' else ''user''),
      im_type = ''text'', im_content = mv_content m,
      im_origin = (if mv_origin m = MESSAGE_ORIGIN_AI then ''ai'' else ''user''),
      im_created = GoTime (as_time (the (mv_created m))) 0,
      im_position = format_nat (mv_position m)\<rparr>"

text \<open>\<open>sameConnection\<close>, \<open>sameTarget\<close> and \<open>sameComet\<close>: nil never matches.\<close>

definition same_connection :: "conn_id option \<Rightarrow> conn_id option \<Rightarrow> bool" where
  "same_connection a b =
     (case (a, b) of
        (Some x, Some y) \<Rightarrow>
          cn_user x = cn_user y \<and> cn_instance x = cn_instance y \<and>
          cn_connection x = cn_connection y \<and> cn_token x = cn_token y
      | _ \<Rightarrow> False)"

definition same_comet :: "comet_id option \<Rightarrow> comet_id option \<Rightarrow> bool" where
  "same_comet a b =
     (case (a, b) of
        (Some x, Some y) \<Rightarrow> ci_instance x = ci_instance y \<and> ci_boot x = ci_boot y
      | _ \<Rightarrow> False)"

lemma same_connection_eq [simp]:
  "same_connection (Some x) (Some y) \<longleftrightarrow> x = (y :: conn_id)"
  by (cases x; cases y) (simp add: same_connection_def)

lemma same_connection_None [simp]:
  "\<not> same_connection None b" "\<not> same_connection a None"
  by (simp_all add: same_connection_def split: option.split)

lemma same_comet_eq [simp]: "same_comet (Some x) (Some y) \<longleftrightarrow> x = (y :: comet_id)"
  by (cases x; cases y) (simp add: same_comet_def)

lemma same_comet_None [simp]: "\<not> same_comet None b" "\<not> same_comet a None"
  by (simp_all add: same_comet_def split: option.split)

end
