(* ===== verification/Json.thy ===== *)
theory Json
  imports Contract
begin

text \<open>
  \<open>encoding/json\<close> as the program uses it: the grammar of a JSON text with a value tree that keeps the
  raw text of strings and numbers, the decoding of string bodies (escapes, surrogate pairs, replacement
  of what is not UTF-8), the encoding \<open>Marshal\<close> produces, and the matching of object keys with struct
  fields (exact, then case-folded).
\<close>

section \<open>Value trees\<close>

datatype json =
    JNull
  | JBool bool
  | JNum string
  | JStr string
  | JArr "json list"
  | JObj "(string \<times> json) list"

definition quote_char :: char where "quote_char = char_of (34::nat)"

definition backslash :: char where "backslash = char_of (92::nat)"

section \<open>Lexing\<close>

definition json_space :: "char \<Rightarrow> bool" where
  "json_space c = (code c = 32 \<or> code c = 9 \<or> code c = 10 \<or> code c = 13)"

definition skip_ws :: "string \<Rightarrow> string" where
  "skip_ws s = dropWhile json_space s"

definition hex_val :: "char \<Rightarrow> nat" where
  "hex_val c = (if code c \<le> 57 then code c - 48 else if code c \<le> 70 then code c - 55 else code c - 87)"

definition short_escape :: "char \<Rightarrow> bool" where
  "short_escape c = (c \<in> set [quote_char, backslash, CHR ''/'', CHR ''b'', CHR ''f'', CHR ''n'', CHR ''r'', CHR ''t''])"

text \<open>The body of a string up to its closing quote.\<close>

definition lex_cons :: "string \<Rightarrow> (string \<times> string) option \<Rightarrow> (string \<times> string) option" where
  "lex_cons p r = map_option (\<lambda>(b, t). (p @ b, t)) r"

fun lex_str :: "string \<Rightarrow> (string \<times> string) option" where
  "lex_str [] = None"
| "lex_str (c # s) =
     (if c = quote_char then Some ([], s)
      else if c = backslash then
        (case s of
           [] \<Rightarrow> None
         | e # r \<Rightarrow>
           if short_escape e then lex_cons [c, e] (lex_str r)
           else if e = CHR ''u'' then
             (case r of
                h1 # h2 # h3 # h4 # t \<Rightarrow>
                  if hex_char h1 \<and> hex_char h2 \<and> hex_char h3 \<and> hex_char h4
                  then lex_cons [c, e, h1, h2, h3, h4] (lex_str t) else None
              | _ \<Rightarrow> None)
           else None)
      else if code c < 32 then None
      else lex_cons [c] (lex_str s))"

definition is_digit :: "char \<Rightarrow> bool" where
  "is_digit c = (48 \<le> code c \<and> code c \<le> 57)"

text \<open>A number literal: sign, integer part without leading zero, fraction, exponent.\<close>

definition lex_digits :: "string \<Rightarrow> (string \<times> string) option" where
  "lex_digits s = (let d = takeWhile is_digit s in if d = [] then None else Some (d, drop (length d) s))"

definition lex_int :: "string \<Rightarrow> (string \<times> string) option" where
  "lex_int s =
     (case s of
        [] \<Rightarrow> None
      | c # r \<Rightarrow> if c = CHR ''0'' then Some ([c], r) else lex_digits s)"

definition lex_frac :: "string \<Rightarrow> (string \<times> string) option" where
  "lex_frac s =
     (case s of
        c # r \<Rightarrow> if c = CHR ''.'' then map_option (\<lambda>(d, t). (c # d, t)) (lex_digits r) else Some ([], s)
      | [] \<Rightarrow> Some ([], s))"

definition lex_exp :: "string \<Rightarrow> (string \<times> string) option" where
  "lex_exp s =
     (case s of
        c # r \<Rightarrow>
          if c = CHR ''e'' \<or> c = CHR ''E'' then
            (case r of
               g # u \<Rightarrow>
                 if g = CHR ''+'' \<or> g = CHR ''-''
                 then map_option (\<lambda>(d, t). (c # g # d, t)) (lex_digits u)
                 else map_option (\<lambda>(d, t). (c # d, t)) (lex_digits r)
             | [] \<Rightarrow> None)
          else Some ([], s)
      | [] \<Rightarrow> Some ([], s))"

definition lex_num :: "string \<Rightarrow> (string \<times> string) option" where
  "lex_num s =
     (let (sign, s1) = (case s of c # r \<Rightarrow> if c = CHR ''-'' then ([c], r) else ([], s) | [] \<Rightarrow> ([], s)) in
      case lex_int s1 of None \<Rightarrow> None
      | Some (i, s2) \<Rightarrow>
        case lex_frac s2 of None \<Rightarrow> None
        | Some (f, s3) \<Rightarrow>
          case lex_exp s3 of None \<Rightarrow> None
          | Some (e, s4) \<Rightarrow> Some (sign @ i @ f @ e, s4))"

section \<open>Parsing\<close>

text \<open>
  The first argument bounds the number of calls, the second is the nesting depth, which Go limits
  to 10000.
\<close>

definition max_nesting :: nat where "max_nesting = 10000"

fun parse_value :: "nat \<Rightarrow> nat \<Rightarrow> string \<Rightarrow> (json \<times> string) option"
and parse_elems :: "nat \<Rightarrow> nat \<Rightarrow> string \<Rightarrow> (json list \<times> string) option"
and parse_members :: "nat \<Rightarrow> nat \<Rightarrow> string \<Rightarrow> ((string \<times> json) list \<times> string) option" where
  "parse_value 0 d s = None"
| "parse_value (Suc f) d s =
     (case skip_ws s of
        [] \<Rightarrow> None
      | c # r \<Rightarrow>
        if c = CHR ''{'' then
          (if max_nesting \<le> d then None
           else if skip_ws r \<noteq> [] \<and> hd (skip_ws r) = CHR ''}'' then Some (JObj [], tl (skip_ws r))
           else map_option (\<lambda>(ms, t). (JObj ms, t)) (parse_members f (Suc d) r))
        else if c = CHR ''['' then
          (if max_nesting \<le> d then None
           else if skip_ws r \<noteq> [] \<and> hd (skip_ws r) = CHR '']'' then Some (JArr [], tl (skip_ws r))
           else map_option (\<lambda>(vs, t). (JArr vs, t)) (parse_elems f (Suc d) r))
        else if c = quote_char then map_option (\<lambda>(b, t). (JStr b, t)) (lex_str r)
        else if has_prefix (c # r) ''true'' then Some (JBool True, drop 3 r)
        else if has_prefix (c # r) ''false'' then Some (JBool False, drop 4 r)
        else if has_prefix (c # r) ''null'' then Some (JNull, drop 3 r)
        else map_option (\<lambda>(n, t). (JNum n, t)) (lex_num (c # r)))"
| "parse_elems 0 d s = None"
| "parse_elems (Suc f) d s =
     (case parse_value f d s of
        None \<Rightarrow> None
      | Some (v, t) \<Rightarrow>
        (case skip_ws t of
           [] \<Rightarrow> None
         | c # r \<Rightarrow>
           if c = CHR '']'' then Some ([v], r)
           else if c = CHR '','' then map_option (\<lambda>(vs, u). (v # vs, u)) (parse_elems f d r)
           else None))"
| "parse_members 0 d s = None"
| "parse_members (Suc f) d s =
     (case skip_ws s of
        [] \<Rightarrow> None
      | q # r \<Rightarrow>
        if q \<noteq> quote_char then None
        else case lex_str r of
          None \<Rightarrow> None
        | Some (k, t) \<Rightarrow>
          (case skip_ws t of
             [] \<Rightarrow> None
           | c # u \<Rightarrow>
             if c \<noteq> CHR '':'' then None
             else case parse_value f d u of
               None \<Rightarrow> None
             | Some (v, w) \<Rightarrow>
               (case skip_ws w of
                  [] \<Rightarrow> None
                | e # x \<Rightarrow>
                  if e = CHR ''}'' then Some ([(k, v)], x)
                  else if e = CHR '','' then map_option (\<lambda>(ms, y). ((k, v) # ms, y)) (parse_members f d x)
                  else None)))"

text \<open>The first value of a text, and a text that holds exactly one value (\<open>json.Valid\<close>, \<open>Unmarshal\<close>).\<close>

definition json_first :: "string \<Rightarrow> (json \<times> string) option" where
  "json_first s = parse_value (Suc (length s)) 0 s"

definition json_text :: "string \<Rightarrow> json option" where
  "json_text s = (case json_first s of Some (v, t) \<Rightarrow> if skip_ws t = [] then Some v else None | None \<Rightarrow> None)"

section \<open>String bodies\<close>

definition utf8_encode :: "nat \<Rightarrow> string" where
  "utf8_encode n =
     map char_of
       (if n < 128 then [n]
        else if n < 2048 then [192 + n div 64, 128 + n mod 64]
        else if n < 65536 then [224 + n div 4096, 128 + n div 64 mod 64, 128 + n mod 64]
        else [240 + n div 262144, 128 + n div 4096 mod 64, 128 + n div 64 mod 64, 128 + n mod 64])"

definition replacement :: string where "replacement = utf8_encode 65533"

definition surrogate :: "nat \<Rightarrow> bool" where
  "surrogate n = (55296 \<le> n \<and> n < 57344)"

definition hex4 :: "char \<Rightarrow> char \<Rightarrow> char \<Rightarrow> char \<Rightarrow> nat" where
  "hex4 a b c d = hex_val a * 4096 + hex_val b * 256 + hex_val c * 16 + hex_val d"

text \<open>\<open>getu4\<close>: the value of an escape at the start of the text.\<close>

definition get_u4 :: "string \<Rightarrow> nat option" where
  "get_u4 s =
     (case s of
        b # u # h1 # h2 # h3 # h4 # _ \<Rightarrow>
          if b = backslash \<and> u = CHR ''u'' \<and> hex_char h1 \<and> hex_char h2 \<and> hex_char h3 \<and> hex_char h4
          then Some (hex4 h1 h2 h3 h4) else None
      | _ \<Rightarrow> None)"

definition unescape :: "char \<Rightarrow> char" where
  "unescape e =
     (if e = CHR ''b'' then char_of (8::nat) else if e = CHR ''f'' then char_of (12::nat)
      else if e = CHR ''n'' then char_of (10::nat) else if e = CHR ''r'' then char_of (13::nat)
      else if e = CHR ''t'' then char_of (9::nat) else e)"

text \<open>One step of \<open>unquote\<close>: the bytes produced and the number of bytes consumed.\<close>

definition unquote_step :: "string \<Rightarrow> string \<times> nat" where
  "unquote_step s =
     (if hd s = backslash then
        (case get_u4 s of
           Some n \<Rightarrow>
             if surrogate n then
               (case get_u4 (drop 6 s) of
                  Some m \<Rightarrow>
                    if n < 56320 \<and> 56320 \<le> m \<and> m < 57344
                    then (utf8_encode (65536 + (n - 55296) * 1024 + (m - 56320)), 12)
                    else (replacement, 6)
                | None \<Rightarrow> (replacement, 6))
             else (utf8_encode n, 6)
         | None \<Rightarrow> (case s of _ # e # _ \<Rightarrow> ([unescape e], 2) | _ \<Rightarrow> (s, 1)))
      else if code (hd s) < 128 then ([hd s], 1)
      else
        let w = rune_width (map code s) in
        if w = 0 then (replacement, 1) else (take w s, w))"

function unquote :: "string \<Rightarrow> string" where
  "unquote s =
     (if s = [] then [] else fst (unquote_step s) @ unquote (drop (max 1 (snd (unquote_step s))) s))"
  by pat_completeness auto
termination
  by (relation "measure length") auto

declare unquote.simps [simp del]

section \<open>Encoding\<close>

definition hex_digit :: "nat \<Rightarrow> char" where
  "hex_digit n = (if n < 10 then char_of (48 + n) else char_of (87 + n))"

definition escape_ascii :: "char \<Rightarrow> string" where
  "escape_ascii c =
     (let n = code c in
      if c = quote_char \<or> c = backslash then [backslash, c]
      else if n = 8 then [backslash, CHR ''b''] else if n = 12 then [backslash, CHR ''f'']
      else if n = 10 then [backslash, CHR ''n''] else if n = 13 then [backslash, CHR ''r'']
      else if n = 9 then [backslash, CHR ''t'']
      else if n < 32 \<or> c \<in> set ''<>&''
      then [backslash, CHR ''u'', CHR ''0'', CHR ''0'', hex_digit (n div 16), hex_digit (n mod 16)]
      else [c])"

definition line_sep :: "nat \<Rightarrow> nat list" where
  "line_sep n = [226, 128, 168 + n]"

definition quote_step :: "string \<Rightarrow> string \<times> nat" where
  "quote_step s =
     (if code (hd s) < 128 then (escape_ascii (hd s), 1)
      else
        let w = rune_width (map code s) in
        if w = 0 then (backslash # ''ufffd'', 1)
        else if map code (take w s) = line_sep 0 then (backslash # ''u2028'', w)
        else if map code (take w s) = line_sep 1 then (backslash # ''u2029'', w)
        else (take w s, w))"

function quote_body :: "string \<Rightarrow> string" where
  "quote_body s =
     (if s = [] then [] else fst (quote_step s) @ quote_body (drop (max 1 (snd (quote_step s))) s))"
  by pat_completeness auto
termination
  by (relation "measure length") auto

declare quote_body.simps [simp del]

definition json_string :: "string \<Rightarrow> json" where
  "json_string s = JStr (quote_body s)"

fun join_comma :: "string list \<Rightarrow> string" where
  "join_comma [] = []"
| "join_comma [x] = x"
| "join_comma (x # y # zs) = x @ CHR '','' # join_comma (y # zs)"

fun json_print :: "json \<Rightarrow> string" where
  "json_print JNull = ''null''"
| "json_print (JBool b) = (if b then ''true'' else ''false'')"
| "json_print (JNum n) = n"
| "json_print (JStr b) = quote_char # b @ [quote_char]"
| "json_print (JArr vs) = CHR ''['' # join_comma (map json_print vs) @ [CHR '']'']"
| "json_print (JObj ms) =
     CHR ''{'' # join_comma (map (\<lambda>(k, v). quote_char # k @ quote_char # CHR '':'' # json_print v) ms) @ [CHR ''}'']"

section \<open>Struct fields\<close>

text \<open>
  \<open>foldName\<close> maps every rune to the smallest rune it is case-equivalent to. The field names are
  ASCII, so only the runes that fold to ASCII matter: the letters, the long s (U+017F) and the Kelvin
  sign (U+212A). Other runes are kept, which matches no field name.
\<close>

fun fold_name :: "string \<Rightarrow> string" where
  "fold_name [] = []"
| "fold_name (a # s) =
     (if 97 \<le> code a \<and> code a \<le> 122 then char_of (code a - 32) # fold_name s
      else case s of
             b # r \<Rightarrow>
               if code a = 197 \<and> code b = 191 then CHR ''S'' # fold_name r
               else (case r of
                       c # t \<Rightarrow>
                         if code a = 226 \<and> code b = 132 \<and> code c = 170 then CHR ''K'' # fold_name t
                         else a # fold_name s
                     | [] \<Rightarrow> a # fold_name s)
           | [] \<Rightarrow> [a])"

definition find_field :: "(string \<times> 'f) list \<Rightarrow> string \<Rightarrow> 'f option" where
  "find_field fs k =
     (case map_of fs k of
        Some f \<Rightarrow> Some f
      | None \<Rightarrow> map_option snd (List.find (\<lambda>(n, _). fold_name n = fold_name k) fs))"

text \<open>Decoding an object into a struct with \<open>DisallowUnknownFields\<close>; \<open>null\<close> leaves a value as it is.\<close>

fun decode_members ::
  "(string \<times> (json \<Rightarrow> 'r \<Rightarrow> 'r option)) list \<Rightarrow> (string \<times> json) list \<Rightarrow> 'r \<Rightarrow> 'r option" where
  "decode_members fs [] r = Some r"
| "decode_members fs ((k, v) # ms) r =
     (case find_field fs (unquote k) of
        None \<Rightarrow> None
      | Some f \<Rightarrow> (case f v r of None \<Rightarrow> None | Some r' \<Rightarrow> decode_members fs ms r'))"

definition decode_struct ::
  "(string \<times> (json \<Rightarrow> 'r \<Rightarrow> 'r option)) list \<Rightarrow> json \<Rightarrow> 'r \<Rightarrow> 'r option" where
  "decode_struct fs v r =
     (case v of JNull \<Rightarrow> Some r | JObj ms \<Rightarrow> decode_members fs ms r | _ \<Rightarrow> None)"

definition decode_string :: "json \<Rightarrow> string \<Rightarrow> string option" where
  "decode_string v old = (case v of JNull \<Rightarrow> Some old | JStr b \<Rightarrow> Some (unquote b) | _ \<Rightarrow> None)"

definition decode_uint :: "nat \<Rightarrow> json \<Rightarrow> nat \<Rightarrow> nat option" where
  "decode_uint bits v old = (case v of JNull \<Rightarrow> Some old | JNum n \<Rightarrow> parse_uint bits n | _ \<Rightarrow> None)"

text \<open>
  Decoding an array into a slice reuses the elements the slice already has; \<open>null\<close> makes it nil.
\<close>

fun decode_elems :: "(json \<Rightarrow> 'a \<Rightarrow> 'a option) \<Rightarrow> 'a \<Rightarrow> json list \<Rightarrow> 'a list \<Rightarrow> 'a list option" where
  "decode_elems f zero [] old = Some []"
| "decode_elems f zero (v # vs) old =
     (case f v (case old of [] \<Rightarrow> zero | x # _ \<Rightarrow> x) of
        None \<Rightarrow> None
      | Some y \<Rightarrow> map_option ((#) y) (decode_elems f zero vs (tl old)))"

definition decode_slice :: "(json \<Rightarrow> 'a \<Rightarrow> 'a option) \<Rightarrow> 'a \<Rightarrow> json \<Rightarrow> 'a list option \<Rightarrow> 'a list option option" where
  "decode_slice f zero v old =
     (case v of
        JNull \<Rightarrow> Some None
      | JArr vs \<Rightarrow> map_option Some (decode_elems f zero vs (case old of None \<Rightarrow> [] | Some xs \<Rightarrow> xs))
      | _ \<Rightarrow> None)"

section \<open>What the encoder writes, the lexer reads\<close>

definition lexes :: "string \<Rightarrow> bool" where
  "lexes b = (\<forall>rest. lex_str (b @ quote_char # rest) = Some (b, rest))"

definition plain :: "char \<Rightarrow> bool" where
  "plain c = (c \<noteq> quote_char \<and> c \<noteq> backslash \<and> 32 \<le> code c)"

lemma quote_neq_backslash [simp]: "quote_char \<noteq> backslash" "backslash \<noteq> quote_char"
  by (simp_all add: quote_char_def backslash_def)

lemma special_chars [simp]:
  "quote_char \<noteq> CHR ''u''" "quote_char \<noteq> CHR ''b''" "quote_char \<noteq> CHR ''f''" "quote_char \<noteq> CHR ''n''"
  "quote_char \<noteq> CHR ''r''" "quote_char \<noteq> CHR ''t''" "backslash \<noteq> CHR ''u''" "backslash \<noteq> CHR ''b''"
  "CHR ''n'' \<noteq> quote_char" "CHR ''t'' \<noteq> quote_char" "CHR ''f'' \<noteq> quote_char"
  "backslash \<noteq> CHR ''f''" "backslash \<noteq> CHR ''n''" "backslash \<noteq> CHR ''r''" "backslash \<noteq> CHR ''t''"
  by code_simp+

lemma lexes_Nil [simp]: "lexes []"
  by (simp add: lexes_def)

lemma lexes_plain: "list_all plain p \<Longrightarrow> lexes b \<Longrightarrow> lexes (p @ b)"
  by (induction p) (auto simp: lexes_def plain_def lex_cons_def)

lemma lexes_short: "short_escape e \<Longrightarrow> lexes b \<Longrightarrow> lexes (backslash # e # b)"
  by (simp add: lexes_def lex_cons_def)

lemma lexes_u: "hex_char h1 \<Longrightarrow> hex_char h2 \<Longrightarrow> hex_char h3 \<Longrightarrow> hex_char h4 \<Longrightarrow> lexes b \<Longrightarrow>
   lexes (backslash # CHR ''u'' # h1 # h2 # h3 # h4 # b)"
proof -
  have "\<not> short_escape (CHR ''u'')" by code_simp
  then show "hex_char h1 \<Longrightarrow> hex_char h2 \<Longrightarrow> hex_char h3 \<Longrightarrow> hex_char h4 \<Longrightarrow> lexes b \<Longrightarrow>
   lexes (backslash # CHR ''u'' # h1 # h2 # h3 # h4 # b)"
    by (simp add: lexes_def lex_cons_def)
qed

lemma hex_digit_char [simp]: "n < 16 \<Longrightarrow> hex_char (hex_digit n)" "n < 16 \<Longrightarrow> hex_val (hex_digit n) = n"
  by (auto simp: hex_digit_def hex_char_def hex_val_def)

lemma zero_hex [simp]: "hex_char (CHR ''0'')" "hex_val (CHR ''0'') = 0"
  by (simp_all add: hex_char_def hex_val_def)

lemma escape_ascii_cases:
  assumes "code c < 128"
  obtains "plain c" "escape_ascii c = [c]"
  | e where "short_escape e" "unescape e = c" "e \<noteq> CHR ''u''" "escape_ascii c = [backslash, e]"
  | "escape_ascii c = [backslash, CHR ''u'', CHR ''0'', CHR ''0'', hex_digit (code c div 16), hex_digit (code c mod 16)]"
proof -
  have c: "c = char_of (code c)" by simp
  consider "c = quote_char \<or> c = backslash" | "code c \<in> {8, 12, 10, 13, 9}"
    | "c \<noteq> quote_char" "c \<noteq> backslash" "code c \<notin> {8, 12, 10, 13, 9}" "code c < 32 \<or> c \<in> set ''<>&''"
    | "c \<noteq> quote_char" "c \<noteq> backslash" "code c \<notin> {8, 12, 10, 13, 9}" "32 \<le> code c" "c \<notin> set ''<>&''"
    by fastforce
  then show thesis
  proof cases
    case 1
    then have "escape_ascii c = [backslash, c]" by (simp add: escape_ascii_def Let_def)
    moreover have "short_escape c" "unescape c = c" using 1 by (auto simp: short_escape_def unescape_def)
    moreover have "c \<noteq> CHR ''u''" using 1 special_chars(1,7) by metis
    ultimately show thesis using that(2) by blast
  next
    case 2
    then have "c = char_of (8::nat) \<or> c = char_of (12::nat) \<or> c = char_of (10::nat) \<or> c = char_of (13::nat) \<or> c = char_of (9::nat)"
      using c by (metis empty_iff insert_iff)
    then show thesis
      using that(2) [of "CHR ''b''"] that(2) [of "CHR ''f''"] that(2) [of "CHR ''n''"] that(2) [of "CHR ''r''"] that(2) [of "CHR ''t''"]
      by (auto simp: escape_ascii_def short_escape_def unescape_def quote_char_def backslash_def)
  next
    case 3
    then show thesis using that(3) by (auto simp: escape_ascii_def Let_def)
  next
    case 4
    then show thesis using that(1) by (auto simp: escape_ascii_def Let_def plain_def)
  qed
qed

lemma rune_width_high:
  assumes "s \<noteq> []" and "128 \<le> hd s" and "rune_width s = w" and "0 < w"
  shows "w \<le> length s" and "\<forall>n \<in> set (take w s). 128 \<le> n" and "rune_width (take w s @ t) = w" and "1 < w"
proof -
  obtain a r where s: "s = a # r" using assms(1) by (cases s) auto
  have a: "\<not> a < 128" using assms(2) s by simp
  consider b r' where "r = b # r'" "w = 2" "194 \<le> a" "a \<le> 223" "cont b"
    | b c r' where "r = b # c # r'" "w = 3" "224 \<le> a" "a \<le> 239" "second_ok a b" "cont c"
    | b c d r' where "r = b # c # d # r'" "w = 4" "240 \<le> a" "a \<le> 244" "second_ok a b" "cont c" "cont d"
    using assms(3,4) a unfolding s by (auto simp: rune_width_def split: if_splits list.splits)
  then have "w \<le> length s \<and> (\<forall>n \<in> set (take w s). 128 \<le> n) \<and> rune_width (take w s @ t) = w \<and> 1 < w"
    by cases (auto simp: s rune_width_def second_ok_def cont_def split: if_splits)
  then show "w \<le> length s" "\<forall>n \<in> set (take w s). 128 \<le> n" "rune_width (take w s @ t) = w" "1 < w" by auto
qed

lemma high_plain: "128 \<le> code c \<Longrightarrow> plain c"
  by (auto simp: plain_def quote_char_def backslash_def)

lemma quote_step_lexes:
  assumes "s \<noteq> []" and "lexes b"
  shows "lexes (fst (quote_step s) @ b)"
proof (cases "code (hd s) < 128")
  case True
  then show ?thesis
  proof (cases rule: escape_ascii_cases)
    case 1
    then show ?thesis using True assms(2) lexes_plain [of "[hd s]" b] by (simp add: quote_step_def)
  next
    case (2 e)
    then show ?thesis using True assms(2) lexes_short by (simp add: quote_step_def)
  next
    case 3
    have "code (hd s) div 16 < 16" using True by linarith
    then show ?thesis using 3 True assms(2) lexes_u [of "CHR ''0''" "CHR ''0''"] by (simp add: quote_step_def)
  qed
next
  case False
  let ?w = "rune_width (map code s)"
  have "list_all plain (take ?w s)" if "0 < ?w"
    using rune_width_high(2) [of "map code s" ?w] that assms(1) False
    by (auto simp: list_all_iff hd_map take_map intro!: high_plain)
  moreover have "hex_char (CHR ''f'')" "hex_char (CHR ''d'')" "hex_char (CHR ''2'')" "hex_char (CHR ''8'')" "hex_char (CHR ''9'')"
    by (simp_all add: hex_char_def)
  ultimately show ?thesis using False assms(2) lexes_u [of _ _ _ _ b] lexes_plain [of "take ?w s" b]
    by (auto simp: quote_step_def Let_def)
qed

lemma quote_body_lexes: "lexes (quote_body s)"
proof (induction s rule: quote_body.induct)
  case (1 s)
  show ?case
  proof (cases "s = []")
    case True
    then show ?thesis by (simp add: quote_body.simps)
  next
    case False
    with 1 show ?thesis by (simp add: quote_body.simps [of s] quote_step_lexes)
  qed
qed


section \<open>Decoding inverts encoding\<close>

lemma unquote_cons_step:
  "s \<noteq> [] \<Longrightarrow> unquote_step s = (x, n) \<Longrightarrow> 0 < n \<Longrightarrow> unquote s = x @ unquote (drop n s)"
  by (subst unquote.simps) (simp add: max_def)

lemma take_map_code: "map code (take n s) = ns \<Longrightarrow> take n s = map char_of ns"
  by (auto simp: comp_def)

lemma unquote_escape:
  assumes "code c < 128"
  shows "unquote (escape_ascii c @ b) = c # unquote b"
  using assms
proof (cases rule: escape_ascii_cases)
  case 1
  then show ?thesis using assms unquote_cons_step [of "c # b" "[c]" 1] by (simp add: unquote_step_def plain_def)
next
  case (2 e)
  have "get_u4 (backslash # e # b) = None" using 2(3) by (auto simp: get_u4_def split: list.split)
  then show ?thesis using 2 unquote_cons_step [of "backslash # e # b" "[c]" 2] by (simp add: unquote_step_def)
next
  case 3
  let ?h = "hex_digit (code c div 16)" and ?l = "hex_digit (code c mod 16)"
  let ?s = "backslash # CHR ''u'' # CHR ''0'' # CHR ''0'' # ?h # ?l # b"
  have d: "code c div 16 < 16" using assms by linarith
  have "get_u4 ?s = Some (code c)" using d by (simp add: get_u4_def hex4_def)
  moreover have "\<not> surrogate (code c)" "utf8_encode (code c) = [c]" using assms by (simp_all add: surrogate_def utf8_encode_def)
  ultimately have "unquote_step ?s = ([c], 6)" by (simp add: unquote_step_def)
  then show ?thesis using 3 unquote_cons_step [of ?s "[c]" 6] by simp
qed

lemma unquote_line_sep:
  assumes "e = backslash # ''u2028'' \<and> ns = line_sep 0 \<or> e = backslash # ''u2029'' \<and> ns = line_sep 1"
  shows "unquote (e @ b) = map char_of ns @ unquote b"
proof -
  have hx: "hex_char (CHR ''2'')" "hex_char (CHR ''8'')" "hex_char (CHR ''9'')" by (simp_all add: hex_char_def)
  from assms show ?thesis
  proof
    assume a: "e = backslash # ''u2028'' \<and> ns = line_sep 0"
    have "get_u4 (e @ b) = Some 8232" using a hx by (simp add: get_u4_def hex4_def hex_val_def)
    then have "unquote_step (e @ b) = (map char_of ns, 6)" using a
      by (simp add: unquote_step_def surrogate_def utf8_encode_def line_sep_def)
    then show ?thesis using a unquote_cons_step [of "e @ b" "map char_of ns" 6] by simp
  next
    assume a: "e = backslash # ''u2029'' \<and> ns = line_sep 1"
    have "get_u4 (e @ b) = Some 8233" using a hx by (simp add: get_u4_def hex4_def hex_val_def)
    then have "unquote_step (e @ b) = (map char_of ns, 6)" using a
      by (simp add: unquote_step_def surrogate_def utf8_encode_def line_sep_def)
    then show ?thesis using a unquote_cons_step [of "e @ b" "map char_of ns" 6] by simp
  qed
qed

lemma unquote_rune:
  assumes "s \<noteq> []" and "\<not> code (hd s) < 128" and "rune_width (map code s) = w" and "0 < w"
  shows "unquote (take w s @ b) = take w s @ unquote b"
proof -
  note h = rune_width_high [of "map code s" w, OF _ _ assms(3,4)]
  have hd: "hd (take w s @ b) = hd s" using assms(1,4) by (cases s; cases w) auto
  have "hd s \<noteq> backslash" using high_plain [of "hd s"] assms(2) by (auto simp: plain_def)
  moreover have "rune_width (map code (take w s @ b)) = w" using h(3) assms(1,2) by (simp add: hd_map take_map)
  moreover have "length (take w s) = w" using h(1) assms(1,2) by (simp add: hd_map)
  ultimately have "unquote_step (take w s @ b) = (take w s, w)" using assms(2,4) hd by (simp add: unquote_step_def Let_def)
  then show ?thesis using assms(1,4) \<open>length (take w s) = w\<close> unquote_cons_step [of "take w s @ b" "take w s" w]
    by (cases s) auto
qed

lemma quote_step_unquote:
  assumes "s \<noteq> []" and "rune_width (map code s) \<noteq> 0"
  shows "snd (quote_step s) = rune_width (map code s) \<and> unquote (fst (quote_step s) @ b) = take (rune_width (map code s)) s @ unquote b"
proof (cases "code (hd s) < 128")
  case True
  then obtain c r where s: "s = c # r" "code c < 128" using assms(1) by (cases s) auto
  then show ?thesis by (simp add: quote_step_def unquote_escape)
next
  case False
  let ?w = "rune_width (map code s)"
  show ?thesis
  proof (cases "map code (take ?w s) = line_sep 0 \<or> map code (take ?w s) = line_sep 1")
    case True
    have "line_sep 0 \<noteq> line_sep 1" by (simp add: line_sep_def)
    with True have e: "fst (quote_step s) = backslash # ''u2028'' \<and> map code (take ?w s) = line_sep 0 \<or>
        fst (quote_step s) = backslash # ''u2029'' \<and> map code (take ?w s) = line_sep 1" "snd (quote_step s) = ?w"
      using False assms(2) by (auto simp: quote_step_def Let_def)
    show ?thesis using e(2) unquote_line_sep [OF e(1)] take_map_code [OF refl, of ?w s] by simp
  next
    case other: False
    then have "quote_step s = (take ?w s, ?w)" using False assms(2) by (simp add: quote_step_def Let_def)
    then show ?thesis using unquote_rune [OF assms(1) False refl] assms(2) by simp
  qed
qed

lemma unquote_quote_body: "utf8_valid s \<Longrightarrow> unquote (quote_body s) = s"
proof (induction s rule: quote_body.induct)
  case (1 s)
  show ?case
  proof (cases "s = []")
    case True
    then show ?thesis by (simp add: quote_body.simps unquote.simps)
  next
    case False
    let ?w = "rune_width (map code s)"
    have w: "?w \<noteq> 0" "utf8_valid (drop ?w s)"
      using "1.prems" False utf8_valid_codes.simps [of "map code s"] by (auto simp: utf8_valid_def drop_map split: if_splits)
    note q = quote_step_unquote [OF False w(1)]
    have "unquote (quote_body (drop ?w s)) = drop ?w s"
      using "1.IH" [OF False] q w by (simp add: max_def)
    then show ?thesis using q False w(1) by (simp add: quote_body.simps [of s] max_def)
  qed
qed

lemma unquote_ascii: "list_all (\<lambda>c. plain c \<and> code c < 128) k \<Longrightarrow> unquote k = k"
proof (induction k)
  case Nil
  then show ?case by (simp add: unquote.simps)
next
  case (Cons c k)
  then show ?case using unquote_cons_step [of "c # k" "[c]" 1] by (simp add: unquote_step_def plain_def)
qed

section \<open>Parsing inverts printing\<close>

text \<open>
  Trees the printer writes so that they read back: string bodies and keys lex, numbers are decimal,
  and the nesting fits.
\<close>

fun tree_ok :: "nat \<Rightarrow> json \<Rightarrow> bool" where
  "tree_ok d JNull = True"
| "tree_ok d (JBool b) = True"
| "tree_ok d (JNum n) = (\<exists>k. n = format_nat k)"
| "tree_ok d (JStr b) = lexes b"
| "tree_ok d (JArr vs) = (d < max_nesting \<and> list_all (tree_ok (Suc d)) vs)"
| "tree_ok d (JObj ms) = (d < max_nesting \<and> list_all (\<lambda>(k, v). lexes k \<and> tree_ok (Suc d) v) ms)"

definition ends_token :: "string \<Rightarrow> bool" where
  "ends_token s = (case s of [] \<Rightarrow> True | c # _ \<Rightarrow> c \<in> set '',]}'')"

lemma skip_ws_simps [simp]: "skip_ws [] = []" "\<not> json_space c \<Longrightarrow> skip_ws (c # s) = c # s"
  by (simp_all add: skip_ws_def)

lemma not_space [simp]:
  "\<not> json_space (CHR ''{'')" "\<not> json_space (CHR ''['')" "\<not> json_space (CHR ''}'')" "\<not> json_space (CHR '']'')"
  "\<not> json_space (CHR '','')" "\<not> json_space (CHR '':'')" "\<not> json_space quote_char"
  "\<not> json_space (CHR ''t'')" "\<not> json_space (CHR ''f'')" "\<not> json_space (CHR ''n'')"
  by (simp_all add: json_space_def quote_char_def)

lemma takeWhile_digits: "list_all is_digit d \<Longrightarrow> ends_token r \<Longrightarrow> takeWhile is_digit (d @ r) = d"
  by (induction d) (auto simp: ends_token_def is_digit_def split: list.splits)

lemma zero_text: "format_nat 0 = ''0''"
  by code_simp

lemma format_nat_no_zero: "hd (format_nat k) = CHR ''0'' \<Longrightarrow> format_nat k = ''0''"
proof (induction k rule: format_nat.induct)
  case (1 k)
  show ?case
  proof (cases "k < 10")
    case True
    then have "hd (format_nat k) = digit_char k" by (simp add: format_nat.simps [of k])
    with "1.prems" True have "code (digit_char k) = code (CHR ''0'')" by simp
    then have "k = 0" using True by (simp add: code_digit_char)
    then show ?thesis using zero_text by simp
  next
    case False
    have "hd (format_nat k) = hd (format_nat (k div 10))" using False by (subst format_nat.simps) simp
    with "1.prems" "1.IH" False have "format_nat (k div 10) = ''0''" by simp
    moreover have "''0'' = format_nat 0" using zero_text by simp
    ultimately have "k div 10 = 0" using format_nat_inject by metis
    then show ?thesis using False by simp
  qed
qed

lemma lex_num_format:
  assumes "ends_token r"
  shows "lex_num (format_nat k @ r) = Some (format_nat k, r)"
proof -
  obtain c s where cs: "format_nat k = c # s" by (cases "format_nat k") auto
  have dig: "list_all is_digit (format_nat k)" using format_nat_digits [of k] by (simp add: list_all_iff is_digit_def)
  then have c: "48 \<le> code c" "code c \<le> 57" using cs by (simp_all add: is_digit_def)
  then have minus: "c \<noteq> CHR ''-''" by auto
  have "lex_int (format_nat k @ r) = Some (format_nat k, r)"
  proof (cases "c = CHR ''0''")
    case True
    then have "format_nat k = ''0''" using format_nat_no_zero [of k] cs by simp
    then show ?thesis by (simp add: lex_int_def)
  next
    case False
    then show ?thesis using takeWhile_digits [OF dig assms] cs by (simp add: lex_int_def lex_digits_def Let_def)
  qed
  moreover have "lex_frac r = Some ([], r)" "lex_exp r = Some ([], r)"
    using assms by (auto simp: lex_frac_def lex_exp_def ends_token_def split: list.splits)
  ultimately show ?thesis using minus cs by (simp add: lex_num_def)
qed


lemma delim_neq [simp]: "quote_char \<noteq> CHR ''{''" "quote_char \<noteq> CHR ''[''" "quote_char \<noteq> CHR ''}''" "quote_char \<noteq> CHR '']''"
  "quote_char \<noteq> CHR '',''"
  by code_simp+

lemma json_print_start:
  assumes "tree_ok d v"
  shows "\<exists>c s. json_print v = c # s \<and> \<not> json_space c \<and> c \<notin> set '',]}''"
proof (cases v)
  case (JNum n)
  then obtain k where k: "n = format_nat k" using assms by auto
  obtain c s where "format_nat k = c # s" by (cases "format_nat k") auto
  then show ?thesis using hd_format_nat_digit [of k] k JNum by (auto simp: json_space_def)
qed auto

text \<open>How many calls reading a tree back takes.\<close>

fun tree_calls :: "json \<Rightarrow> nat" where
  "tree_calls (JArr vs) = Suc (sum_list (map (\<lambda>v. Suc (tree_calls v)) vs))"
| "tree_calls (JObj ms) = Suc (sum_list (map (\<lambda>(k, v). Suc (tree_calls v)) ms))"
| "tree_calls _ = 1"

abbreviation member_text :: "string \<times> json \<Rightarrow> string" where
  "member_text \<equiv> \<lambda>(k, v). quote_char # k @ quote_char # CHR '':'' # json_print v"

definition reads_back :: "json \<Rightarrow> bool" where
  "reads_back v =
     (\<forall>d f r. tree_ok d v \<longrightarrow> tree_calls v \<le> f \<longrightarrow> ends_token r \<longrightarrow> parse_value f d (json_print v @ r) = Some (v, r))"

lemma ends_token_delims [simp]: "ends_token (CHR '','' # s)" "ends_token (CHR '']'' # s)" "ends_token (CHR ''}'' # s)" "ends_token []"
  by (simp_all add: ends_token_def)

lemma parse_elems_print:
  assumes "\<And>v. v \<in> set vs \<Longrightarrow> reads_back v" and "vs \<noteq> []" and "list_all (tree_ok d) vs"
    and "sum_list (map (\<lambda>v. Suc (tree_calls v)) vs) \<le> f"
  shows "parse_elems f d (join_comma (map json_print vs) @ CHR '']'' # r) = Some (vs, r)"
  using assms
proof (induction vs arbitrary: f)
  case Nil
  then show ?case by simp
next
  case (Cons v vs)
  obtain g where f: "f = Suc g" using Cons.prems(4) by (cases f) auto
  have v: "reads_back v" "tree_ok d v" "tree_calls v \<le> g" using Cons.prems f by auto
  show ?case
  proof (cases "vs = []")
    case True
    then show ?thesis using v by (simp add: f reads_back_def)
  next
    case False
    then obtain w ws where vs: "vs = w # ws" by (cases vs) auto
    have "parse_elems g d (join_comma (map json_print vs) @ CHR '']'' # r) = Some (vs, r)"
      using Cons.prems f False by (intro Cons.IH) auto
    then show ?thesis using v by (simp add: f vs reads_back_def)
  qed
qed

lemma parse_members_print:
  assumes "\<And>k v. (k, v) \<in> set ms \<Longrightarrow> reads_back v" and "ms \<noteq> []" and "list_all (\<lambda>(k, v). lexes k \<and> tree_ok d v) ms"
    and "sum_list (map (\<lambda>(k, v). Suc (tree_calls v)) ms) \<le> f"
  shows "parse_members f d (join_comma (map member_text ms) @ CHR ''}'' # r) = Some (ms, r)"
  using assms
proof (induction ms arbitrary: f)
  case Nil
  then show ?case by simp
next
  case (Cons m ms)
  obtain k v where m: "m = (k, v)" by fastforce
  obtain g where f: "f = Suc g" using Cons.prems(4) m by (cases f) auto
  have v: "reads_back v" "tree_ok d v" "tree_calls v \<le> g" "lexes k" using Cons.prems f m by auto
  show ?case
  proof (cases "ms = []")
    case True
    then show ?thesis using v by (simp add: f m reads_back_def lexes_def)
  next
    case False
    then obtain w ws where ms: "ms = w # ws" by (cases ms) auto
    have "parse_members g d (join_comma (map member_text ms) @ CHR ''}'' # r) = Some (ms, r)"
      using Cons.prems f False by (intro Cons.IH) auto
    then show ?thesis using v by (simp add: f m ms reads_back_def lexes_def)
  qed
qed

lemma join_comma_start:
  assumes "xs \<noteq> []" and "hd xs = c # s"
  shows "\<exists>t. join_comma xs @ r = c # t"
  using assms by (cases xs rule: join_comma.cases) auto

lemma print_reads_back: "reads_back v"
proof (induction v)
  case JNull
  show ?case by (auto simp: reads_back_def has_prefix_def Suc_le_eq gr0_conv_Suc)
next
  case (JBool b)
  show ?case by (auto simp: reads_back_def has_prefix_def Suc_le_eq gr0_conv_Suc)
next
  case (JNum n)
  show ?case unfolding reads_back_def
  proof (intro allI impI)
    fix d f r
    assume a: "tree_ok d (JNum n)" "tree_calls (JNum n) \<le> f" "ends_token r"
    then obtain k g where k: "n = format_nat k" "f = Suc g" by (cases f) auto
    obtain c s where cs: "format_nat k @ r = c # s" "48 \<le> code c" "code c \<le> 57"
      using hd_format_nat_digit [of k] by (cases "format_nat k") auto
    then have "\<not> json_space c" "c \<noteq> quote_char" "c \<notin> set ''{[tfn''"
      by (auto simp: json_space_def quote_char_def)
    then show "parse_value f d (json_print (JNum n) @ r) = Some (JNum n, r)"
      using cs(1) lex_num_format [OF a(3), of k] by (simp add: k has_prefix_def)
  qed
next
  case (JStr b)
  show ?case by (auto simp: reads_back_def lexes_def Suc_le_eq gr0_conv_Suc)
next
  case (JArr vs)
  show ?case unfolding reads_back_def
  proof (intro allI impI)
    fix d f r
    assume a: "tree_ok d (JArr vs)" "tree_calls (JArr vs) \<le> f" "ends_token r"
    then obtain g where f: "f = Suc g" by (cases f) auto
    show "parse_value f d (json_print (JArr vs) @ r) = Some (JArr vs, r)"
    proof (cases "vs = []")
      case True
      then show ?thesis using a(1) f by simp
    next
      case False
      then obtain v ws where vs: "vs = v # ws" by (cases vs) auto
      have "parse_elems g (Suc d) (join_comma (map json_print vs) @ CHR '']'' # r) = Some (vs, r)"
        using JArr a f False by (intro parse_elems_print) auto
      moreover obtain c t where "join_comma (map json_print vs) @ CHR '']'' # r = c # t" "\<not> json_space c" "c \<noteq> CHR '']''"
        using json_print_start [of "Suc d" v] join_comma_start [of "map json_print vs"] a(1) vs by fastforce
      ultimately show ?thesis using a(1) f by simp
    qed
  qed
next
  case (JObj ms)
  show ?case unfolding reads_back_def
  proof (intro allI impI)
    fix d f r
    assume a: "tree_ok d (JObj ms)" "tree_calls (JObj ms) \<le> f" "ends_token r"
    then obtain g where f: "f = Suc g" by (cases f) auto
    show "parse_value f d (json_print (JObj ms) @ r) = Some (JObj ms, r)"
    proof (cases "ms = []")
      case True
      then show ?thesis using a(1) f by simp
    next
      case False
      have "parse_members g (Suc d) (join_comma (map member_text ms) @ CHR ''}'' # r) = Some (ms, r)"
        using JObj a f False by (intro parse_members_print) auto
      moreover obtain t where "join_comma (map member_text ms) @ CHR ''}'' # r = quote_char # t"
        using join_comma_start [of "map member_text ms"] False by (cases ms) (fastforce split: prod.splits)+
      ultimately show ?thesis using a(1) f by simp
    qed
  qed
qed

lemma length_join_comma: "xs \<noteq> [] \<Longrightarrow> Suc (length (join_comma xs)) = sum_list (map (\<lambda>x. Suc (length x)) xs)"
  by (induction xs rule: join_comma.induct) auto

lemma tree_calls_le: "tree_ok d v \<Longrightarrow> tree_calls v \<le> length (json_print v)"
proof (induction v arbitrary: d)
  case (JArr vs)
  have "sum_list (map (\<lambda>v. Suc (tree_calls v)) vs) \<le> sum_list (map (\<lambda>v. Suc (length (json_print v))) vs)"
    using JArr by (intro sum_list_mono) (auto simp: list_all_iff)
  then show ?case using length_join_comma [of "map json_print vs"] by (cases "vs = []") (simp_all add: comp_def)
next
  case (JObj ms)
  have "sum_list (map (\<lambda>(k, v). Suc (tree_calls v)) ms) \<le> sum_list (map (\<lambda>m. Suc (length (member_text m))) ms)"
    using JObj by (intro sum_list_mono) (fastforce simp: list_all_iff split: prod.splits)
  then show ?case using length_join_comma [of "map member_text ms"] by (cases "ms = []") (simp_all add: comp_def)
qed (auto simp: Suc_le_eq)

lemma json_text_print: "tree_ok 0 v \<Longrightarrow> json_text (json_print v) = Some v"
proof -
  assume ok: "tree_ok 0 v"
  have "parse_value (Suc (length (json_print v))) 0 (json_print v @ []) = Some (v, [])"
    using print_reads_back [of v] tree_calls_le [OF ok] ok unfolding reads_back_def by (metis ends_token_delims(4) le_SucI)
  then show ?thesis by (simp add: json_text_def json_first_def del: parse_value.simps)
qed

end
