(* ===== verification/GoTime.thy ===== *)
theory GoTime
  imports Contract
begin

text \<open>
  \<open>time.Time\<close> in JSON: \<open>MarshalJSON\<close> writes RFC 3339 with the nanoseconds it needs, \<open>UnmarshalJSON\<close>
  reads it back (the hour may have one digit, the fraction may start with a comma, as \<open>time.Parse\<close>
  allows). Dates are proleptic Gregorian; days are counted from the first day of year 1.
\<close>

section \<open>The calendar\<close>

definition leap :: "int \<Rightarrow> bool" where
  "leap y = (y mod 4 = 0 \<and> (y mod 100 \<noteq> 0 \<or> y mod 400 = 0))"

definition month_days :: "bool \<Rightarrow> nat list" where
  "month_days l = [31, if l then 29 else 28, 31, 30, 31, 30, 31, 31, 30, 31, 30, 31]"

text \<open>Days before the year with index \<open>i\<close> (year \<open>i + 1\<close>).\<close>

definition year_start :: "int \<Rightarrow> int" where
  "year_start i = 365 * i + i div 4 - i div 100 + i div 400"

definition year_index :: "int \<Rightarrow> int" where
  "year_index n =
     (let e = (400 * n) div 146097 in
      if year_start (e + 1) \<le> n then e + 1 else if year_start e \<le> n then e else e - 1)"

fun locate :: "nat list \<Rightarrow> nat \<Rightarrow> nat \<times> nat" where
  "locate [] n = (0, n)"
| "locate (l # ls) n = (if n < l then (0, n) else let (m, d) = locate ls (n - l) in (Suc m, d))"

text \<open>Year, month and day of a day number, and back.\<close>

definition civil :: "int \<Rightarrow> int \<times> nat \<times> nat" where
  "civil n =
     (let i = year_index n; (m, d) = locate (month_days (leap (i + 1))) (nat (n - year_start i))
      in (i + 1, Suc m, Suc d))"

definition day_number :: "int \<Rightarrow> nat \<Rightarrow> nat \<Rightarrow> int" where
  "day_number y m d = year_start (y - 1) + int (sum_list (take (m - 1) (month_days (leap y))) + (d - 1))"

lemma year_start_bounds: "146097 * i - 700 \<le> 400 * year_start i \<and> 400 * year_start i \<le> 146097 * i + 400"
proof -
  have "4 * (i div 4) \<le> i \<and> i \<le> 4 * (i div 4) + 3" "100 * (i div 100) \<le> i \<and> i \<le> 100 * (i div 100) + 99"
    "400 * (i div 400) \<le> i \<and> i \<le> 400 * (i div 400) + 399"
    by (auto simp: minus_mod_eq_mult_div [symmetric])
  then show ?thesis by (auto simp: year_start_def)
qed

lemma year_length: "year_start (i + 1) = year_start i + (if leap (i + 1) then 366 else 365)"
proof -
  have s: "(i + 1) div k = i div k + (if (i + 1) mod k = 0 then 1 else 0)" if "0 < k" for k :: int
  proof (cases "(i + 1) mod k = 0")
    case True
    then obtain q where q: "i + 1 = k * q" by auto
    have "i div k = q - 1"
    proof (rule int_div_pos_eq)
      show "i = k * (q - 1) + (k - 1)" using q by (simp add: algebra_simps)
    qed (use that in auto)
    moreover have "(i + 1) div k = q" using q that by simp
    ultimately show ?thesis using True by simp
  next
    case False
    have "0 < (i + 1) mod k" using False that by (simp add: order_less_le)
    have "i div k = (i + 1) div k"
    proof (rule int_div_pos_eq)
      show "i = k * ((i + 1) div k) + ((i + 1) mod k - 1)" using mult_div_mod_eq [of k "i + 1"] by linarith
      show "0 \<le> (i + 1) mod k - 1" using \<open>0 < (i + 1) mod k\<close> by simp
      have "(i + 1) mod k < k" using that by simp
      then show "(i + 1) mod k - 1 < k" by linarith
    qed
    then show ?thesis using False by simp
  qed
  define A B C where "A = ((i + 1) mod 4 = 0)" and "B = ((i + 1) mod 100 = 0)" and "C = ((i + 1) mod 400 = 0)"
  have "(i + 1) mod 400 mod 100 = (i + 1) mod 100" "(i + 1) mod 100 mod 4 = (i + 1) mod 4"
    by (simp_all add: mod_mod_cancel)
  then have imp: "C \<longrightarrow> B" "B \<longrightarrow> A" unfolding A_def B_def C_def by auto
  have "(i + 1) div 4 = i div 4 + (if A then 1 else 0)" "(i + 1) div 100 = i div 100 + (if B then 1 else 0)"
    "(i + 1) div 400 = i div 400 + (if C then 1 else 0)" unfolding A_def B_def C_def by (rule s; simp)+
  then have "year_start (i + 1) = year_start i + 365 + (if A then 1 else 0) - (if B then 1 else 0) + (if C then 1 else 0)"
    unfolding year_start_def by simp
  moreover have "leap (i + 1) = (A \<and> (\<not> B \<or> C))" unfolding leap_def A_def B_def C_def by simp
  ultimately show ?thesis using imp by (cases A; cases B; cases C) simp_all
qed

lemma year_index_bounds: "year_start (year_index n) \<le> n \<and> n < year_start (year_index n + 1)"
proof -
  define e where "e = (400 * n) div 146097"
  have "146097 * e \<le> 400 * n \<and> 400 * n < 146097 * e + 146097"
    unfolding e_def by (auto simp: minus_mod_eq_mult_div [symmetric])
  moreover note year_start_bounds [of "e - 1"] year_start_bounds [of "e + 2"]
  ultimately have "year_start (e - 1) \<le> n" "n < year_start (e + 1 + 1)" by (simp_all add: algebra_simps)
  then show ?thesis by (auto simp: year_index_def e_def [symmetric] Let_def)
qed

lemma locate_sound:
  "n < sum_list ls \<Longrightarrow> locate ls n = (m, d) \<Longrightarrow> m < length ls \<and> d < ls ! m \<and> sum_list (take m ls) + d = n"
proof (induction ls arbitrary: n m)
  case Nil
  then show ?case by simp
next
  case (Cons l ls)
  show ?case
  proof (cases "n < l")
    case True
    then show ?thesis using Cons.prems by auto
  next
    case False
    then obtain k where k: "locate ls (n - l) = (k, d)" "m = Suc k" using Cons.prems(2) by (auto split: prod.splits)
    have "n - l < sum_list ls" using Cons.prems(1) False by simp
    from Cons.IH [OF this k(1)] show ?thesis using k(2) False by auto
  qed
qed

lemma month_days_sum: "sum_list (month_days l) = (if l then 366 else 365)" "length (month_days l) = 12"
  by (simp_all add: month_days_def)

lemma civil_sound:
  assumes "civil n = (y, m, d)"
  shows "1 \<le> m \<and> m \<le> 12 \<and> 1 \<le> d \<and> d \<le> month_days (leap y) ! (m - 1) \<and> day_number y m d = n"
proof -
  let ?i = "year_index n"
  obtain k e where l: "locate (month_days (leap (?i + 1))) (nat (n - year_start ?i)) = (k, e)"
    by (cases "locate (month_days (leap (?i + 1))) (nat (n - year_start ?i))")
  have y: "y = ?i + 1" "m = Suc k" "d = Suc e" using assms l by (auto simp: civil_def Let_def)
  have b: "0 \<le> n - year_start ?i" "nat (n - year_start ?i) < sum_list (month_days (leap (?i + 1)))"
    using year_index_bounds [of n] year_length [of ?i] by (auto simp: month_days_sum split: if_splits)
  from locate_sound [OF b(2) l] show ?thesis using b(1) y by (auto simp: day_number_def month_days_sum)
qed

section \<open>Writing\<close>

definition pad2 :: "nat \<Rightarrow> string" where
  "pad2 n = [digit_char (n div 10), digit_char (n mod 10)]"

definition pad4 :: "nat \<Rightarrow> string" where
  "pad4 n = pad2 (n div 100) @ pad2 (n mod 100)"

fun pad :: "nat \<Rightarrow> nat \<Rightarrow> string" where
  "pad 0 n = []"
| "pad (Suc k) n = pad k (n div 10) @ [digit_char (n mod 10)]"

definition strip_zeros :: "string \<Rightarrow> string" where
  "strip_zeros s = rev (dropWhile (\<lambda>c. c = CHR ''0'') (rev s))"

definition format_fraction :: "nat \<Rightarrow> string" where
  "format_fraction n = (if n = 0 then [] else CHR ''.'' # strip_zeros (pad 9 n))"

definition epoch_day :: int where "epoch_day = 719162"

text \<open>\<open>MarshalJSON\<close> of an instant in UTC; years outside 0 to 9999 are an error.\<close>

definition format_time :: "int \<Rightarrow> string option" where
  "format_time ns =
     (let secs = ns div ns_per_s; frac = nat (ns mod ns_per_s);
          day = secs div 86400; sod = nat (secs mod 86400);
          (y, m, d) = civil (day + epoch_day) in
      if y < 0 \<or> 9999 < y then None
      else Some (pad4 (nat y) @ CHR ''-'' # pad2 m @ CHR ''-'' # pad2 d @ CHR ''T'' #
                 pad2 (sod div 3600) @ CHR '':'' # pad2 (sod div 60 mod 60) @ CHR '':'' # pad2 (sod mod 60) @
                 format_fraction frac @ ''Z''))"

text \<open>The same in the zone of the value; a zone hour outside 0 to 23 is an error.\<close>

definition format_gotime :: "gotime \<Rightarrow> string option" where
  "format_gotime t =
     (if t_off t = 0 then format_time (t_ns t)
      else
        let z = nat (abs (t_off t) div 60) in
        case format_time (t_ns t + t_off t * ns_per_s) of
          None \<Rightarrow> None
        | Some s \<Rightarrow>
          if 24 \<le> z div 60 then None
          else Some (butlast s @ (if t_off t < 0 then CHR ''-'' else CHR ''+'') # pad2 (z div 60) @ CHR '':'' # pad2 (z mod 60)))"

lemma format_gotime_utc: "t_off t = 0 \<Longrightarrow> format_gotime t = format_time (t_ns t)"
  by (simp add: format_gotime_def)

section \<open>Reading\<close>

text \<open>\<open>getnum\<close>: one or two digits; \<open>fixed\<close> requires two.\<close>

definition get_num :: "bool \<Rightarrow> string \<Rightarrow> (nat \<times> string) option" where
  "get_num fixed s =
     (case s of
        [] \<Rightarrow> None
      | a # r \<Rightarrow>
        (case digit_val a of
           None \<Rightarrow> None
         | Some x \<Rightarrow>
           (case r of
              b # t \<Rightarrow>
                (case digit_val b of
                   Some y \<Rightarrow> Some (10 * x + y, t)
                 | None \<Rightarrow> if fixed then None else Some (x, r))
            | [] \<Rightarrow> if fixed then None else Some (x, r))))"

definition expect :: "char \<Rightarrow> string \<Rightarrow> string option" where
  "expect c s = (case s of x # r \<Rightarrow> if x = c then Some r else None | [] \<Rightarrow> None)"

definition is_dec :: "char \<Rightarrow> bool" where
  "is_dec c = (digit_val c \<noteq> None)"

text \<open>The fraction: up to nine digits count.\<close>

definition read_fraction :: "string \<Rightarrow> nat \<times> string" where
  "read_fraction s =
     (case s of
        c # d # r \<Rightarrow>
          if (c = CHR ''.'' \<or> c = CHR '','') \<and> is_dec d then
            let ds = takeWhile is_dec (d # r); used = take 9 ds
            in (the (parse_digits 0 used) * 10 ^ (9 - length used), drop (length ds) (d # r))
          else (0, s)
      | _ \<Rightarrow> (0, s))"

definition read_zone :: "string \<Rightarrow> int option" where
  "read_zone s =
     (case s of
        [] \<Rightarrow> None
      | c # r \<Rightarrow>
        if c = CHR ''Z'' then (if r = [] then Some 0 else None)
        else if length s \<noteq> 6 \<or> s ! 3 \<noteq> CHR '':'' then None
        else case (get_num True (take 2 r), get_num True (drop 4 s)) of
               (Some (h, _), Some (m, _)) \<Rightarrow>
                 if 24 < h \<or> 60 < m then None
                 else if c = CHR ''+'' then Some (int ((h * 60 + m) * 60))
                 else if c = CHR ''-'' then Some (- int ((h * 60 + m) * 60))
                 else None
             | _ \<Rightarrow> None)"

definition read_year :: "string \<Rightarrow> (nat \<times> string) option" where
  "read_year s =
     (case get_num True s of None \<Rightarrow> None
      | Some (a, r) \<Rightarrow> (case get_num True r of None \<Rightarrow> None | Some (b, t) \<Rightarrow> Some (100 * a + b, t)))"

definition bind_num :: "(nat \<times> string) option \<Rightarrow> (nat \<Rightarrow> string \<Rightarrow> 'a option) \<Rightarrow> 'a option" where
  "bind_num m f = (case m of None \<Rightarrow> None | Some (n, s) \<Rightarrow> f n s)"

definition bind_text :: "string option \<Rightarrow> (string \<Rightarrow> 'a option) \<Rightarrow> 'a option" where
  "bind_text m f = (case m of None \<Rightarrow> None | Some s \<Rightarrow> f s)"

definition parse_time :: "string \<Rightarrow> gotime option" where
  "parse_time s =
     bind_num (read_year s) (\<lambda>y s. bind_text (expect (CHR ''-'') s) (\<lambda>s.
     bind_num (get_num True s) (\<lambda>m s. bind_text (expect (CHR ''-'') s) (\<lambda>s.
     bind_num (get_num True s) (\<lambda>d s. bind_text (expect (CHR ''T'') s) (\<lambda>s.
     bind_num (get_num False s) (\<lambda>h s. bind_text (expect (CHR '':'') s) (\<lambda>s.
     bind_num (get_num True s) (\<lambda>mi s. bind_text (expect (CHR '':'') s) (\<lambda>s.
     bind_num (get_num True s) (\<lambda>se s.
       let (frac, t) = read_fraction s in
       if m = 0 \<or> 12 < m \<or> 24 \<le> h \<or> 60 \<le> mi \<or> 60 \<le> se then None
       else if d = 0 \<or> month_days (leap (int y)) ! (m - 1) < d then None
       else case read_zone t of
              None \<Rightarrow> None
            | Some off \<Rightarrow>
              Some (GoTime (((day_number (int y) m d - epoch_day) * 86400 + int (h * 3600 + mi * 60 + se) - off)
                            * ns_per_s + int frac) off))))))))))))"

section \<open>Round trip\<close>

lemma bind_simps [simp]: "bind_num (Some (n, s)) f = f n s" "bind_text (Some s) g = g s"
  by (simp_all add: bind_num_def bind_text_def)

lemma expect_Cons [simp]: "expect c (c # s) = Some s"
  by (simp add: expect_def)

lemma get_num_pad2 [simp]: "n < 100 \<Longrightarrow> get_num fixed (pad2 n @ s) = Some (n, s)"
  by (simp add: get_num_def pad2_def)

lemma read_year_pad4 [simp]: "n < 10000 \<Longrightarrow> read_year (pad4 n @ s) = Some (n, s)"
  by (simp add: read_year_def pad4_def less_mult_imp_div_less)

lemma parse_digits_pad: "n < 10 ^ k \<Longrightarrow> parse_digits a (pad k n) = Some (a * 10 ^ k + n)"
proof (induction k arbitrary: n)
  case 0
  then show ?case by simp
next
  case (Suc k)
  have "n div 10 < 10 ^ k" using Suc.prems by (simp add: less_mult_imp_div_less mult.commute)
  then show ?case using Suc.IH by (simp add: parse_digits_append algebra_simps)
qed

lemma pad_digits: "list_all is_dec (pad k n)" and length_pad [simp]: "length (pad k n) = k"
  by (induction k arbitrary: n) (auto simp: is_dec_def)

lemma parse_digits_zeros: "parse_digits a (replicate j (CHR ''0'')) = Some (a * 10 ^ j)"
  by (induction j arbitrary: a) (auto simp: digit_val_def algebra_simps)

lemma strip_zeros_split: "\<exists>j. s = strip_zeros s @ replicate j (CHR ''0'')"
proof -
  have t: "takeWhile (\<lambda>c. c = CHR ''0'') xs = replicate (length (takeWhile (\<lambda>c. c = CHR ''0'') xs)) (CHR ''0'')" for xs
    by (induction xs) auto
  have "rev s = takeWhile (\<lambda>c. c = CHR ''0'') (rev s) @ dropWhile (\<lambda>c. c = CHR ''0'') (rev s)" by simp
  then have "s = strip_zeros s @ rev (takeWhile (\<lambda>c. c = CHR ''0'') (rev s))"
    unfolding strip_zeros_def by (metis rev_append rev_rev_ident)
  then show ?thesis using t [of "rev s"] by (metis rev_replicate)
qed

lemma read_fraction_format:
  assumes "n < 10 ^ 9"
  shows "read_fraction (format_fraction n @ ''Z'') = (n, ''Z'')"
proof (cases "n = 0")
  case True
  then show ?thesis by (simp add: format_fraction_def read_fraction_def)
next
  case False
  let ?s = "strip_zeros (pad 9 n)"
  obtain j where j: "pad 9 n = ?s @ replicate j (CHR ''0'')" using strip_zeros_split by blast
  have p: "parse_digits 0 (pad 9 n) = Some n" using parse_digits_pad [OF assms, of 0] by simp
  have digits: "list_all is_dec ?s" using pad_digits [of 9 n] j by (metis list_all_append)
  have len: "length ?s + j = 9" using j by (metis length_append length_pad length_replicate)
  have "parse_digits 0 (?s @ replicate j (CHR ''0'')) = Some n" using p by (subst j [symmetric])
  then obtain a where a: "parse_digits 0 ?s = Some a" "a * 10 ^ j = n"
    by (auto simp: parse_digits_append parse_digits_zeros split: option.splits)
  have "?s \<noteq> []" using a False by auto
  then obtain d r where dr: "?s = d # r" by (cases ?s) auto
  have tw: "takeWhile is_dec (d # (r @ ''Z'')) = d # r"
    using digits unfolding dr append_Cons [symmetric] by (subst takeWhile_append2) (auto simp: list_all_iff is_dec_def digit_val_def split: if_splits)
  have l: "take 9 (d # r) = d # r" "9 - length (d # r) = j" "drop (length (d # r)) (d # (r @ ''Z'')) = ''Z''" "is_dec d"
    using len digits dr by auto
  have "read_fraction (CHR ''.'' # d # (r @ ''Z'')) = (the (parse_digits 0 (d # r)) * 10 ^ j, ''Z'')"
    using l(4) by (simp only: read_fraction_def list.case Let_def tw l simp_thms if_True)
  moreover have "format_fraction n @ ''Z'' = CHR ''.'' # d # (r @ ''Z'')" using False dr by (simp add: format_fraction_def)
  ultimately show ?thesis using a dr by (simp del: parse_digits.simps)
qed

text \<open>An instant of the years 0 to 9999 reads back as written, with offset zero.\<close>

lemma parse_time_fields:
  assumes "y < 10000" and "1 \<le> m" and "m \<le> 12" and "1 \<le> d" and "d \<le> month_days (leap (int y)) ! (m - 1)" and "d < 100"
    and "h < 24" and "mi < 60" and "se < 60" and "frac < 10 ^ 9"
  shows "parse_time (pad4 y @ CHR ''-'' # pad2 m @ CHR ''-'' # pad2 d @ CHR ''T'' # pad2 h @ CHR '':'' # pad2 mi @ CHR '':'' #
           pad2 se @ format_fraction frac @ ''Z'') =
         Some (GoTime (((day_number (int y) m d - epoch_day) * 86400 + int (h * 3600 + mi * 60 + se)) * ns_per_s + int frac) 0)"
proof -
  have "read_zone ''Z'' = Some 0" by (simp add: read_zone_def)
  then show ?thesis using assms by (simp add: parse_time_def read_fraction_format)
qed

lemma month_days_le: "i < 12 \<Longrightarrow> month_days l ! i \<le> 31"
proof -
  assume "i < 12"
  then have "month_days l ! i \<in> set (month_days l)" by (simp add: month_days_sum)
  then show ?thesis by (auto simp: month_days_def split: if_splits)
qed

lemma parse_format_time:
  assumes "format_time ns = Some s"
  shows "parse_time s = Some (GoTime ns 0)"
proof -
  define secs where "secs = ns div ns_per_s"
  define frac where "frac = nat (ns mod ns_per_s)"
  define sod where "sod = nat (secs mod 86400)"
  define h mi se where "h = sod div 3600" and "mi = sod div 60 mod 60" and "se = sod mod 60"
  obtain y m d where c: "civil (secs div 86400 + epoch_day) = (y, m, d)" by (cases "civil (secs div 86400 + epoch_day)")
  note cs = civil_sound [OF c]
  have y: "0 \<le> y" "y \<le> 9999" and s: "s = pad4 (nat y) @ CHR ''-'' # pad2 m @ CHR ''-'' # pad2 d @ CHR ''T'' #
                 pad2 h @ CHR '':'' # pad2 mi @ CHR '':'' # pad2 se @ format_fraction frac @ ''Z''"
    using assms c by (auto simp: format_time_def secs_def frac_def sod_def h_def mi_def se_def Let_def split: if_splits)
  have sod: "sod < 86400" unfolding sod_def by (simp add: nat_less_iff)
  have frac: "frac < 10 ^ 9" "int frac = ns mod ns_per_s" unfolding frac_def by (simp_all add: nat_less_iff ns_per_s_def)
  have b: "h < 24" "mi < 60" "se < 60" using sod by (auto simp: h_def mi_def se_def)
  have "sod div 3600 = sod div 60 div 60" by (simp add: div_mult2_eq [symmetric])
  moreover note div_mult_mod_eq [of sod 60] div_mult_mod_eq [of "sod div 60" 60]
  ultimately have "h * 3600 + mi * 60 + se = sod" unfolding h_def mi_def se_def by linarith
  moreover have "int sod = secs mod 86400" unfolding sod_def by simp
  ultimately have t: "(secs div 86400 * 86400 + int (h * 3600 + mi * 60 + se)) * ns_per_s + int frac = ns"
    using frac(2) unfolding secs_def by (simp add: ns_per_s_def)
  have "m - 1 < 12" using cs by auto
  then have d: "d < 100" using cs month_days_le [of "m - 1" "leap y"] by linarith
  have ny: "nat y < 10000" "int (nat y) = y" using y by simp_all
  have dn: "day_number y m d - epoch_day = secs div 86400" using cs by simp
  have md: "1 \<le> m" "m \<le> 12" "1 \<le> d" "d \<le> month_days (leap (int (nat y))) ! (m - 1)" using cs ny(2) by auto
  show ?thesis
    using parse_time_fields [OF ny(1) md d b frac(1), unfolded ny(2) dn t] unfolding s .
qed

end
