(* ===== verification/Validation.thy ===== *)
theory Validation
  imports Contract
begin

text \<open>
  The input checks every component applies at its boundary: \<open>internal/comet/validation.go\<close>,
  the validators of \<open>internal/logic/service.go\<close>, \<open>internal/logic/routing/store.go\<close>,
  \<open>internal/logic/messagestore/validation.go\<close> and \<open>internal/job/task.go\<close>. The packages
  repeat \<open>validUUID\<close>, \<open>validID\<close>, \<open>validInstance\<close> and the connection check with the same
  body; each is defined once here.
\<close>

section \<open>Identifiers\<close>

definition valid_uuid :: "lib \<Rightarrow> string \<Rightarrow> bool" where
  "valid_uuid L s = (length s = 36 \<and> s \<noteq> nil_uuid \<and> uuid_validate L s)"

definition valid_id :: "lib \<Rightarrow> string \<Rightarrow> char \<Rightarrow> bool" where
  "valid_id L s p = (length s = 37 \<and> hd s = p \<and> valid_uuid L (tl s))"

definition instance_char :: "char \<Rightarrow> bool" where
  "instance_char c =
     (97 \<le> code c \<and> code c \<le> 122 \<or> 48 \<le> code c \<and> code c \<le> 57 \<or> c = CHR ''-'')"

definition valid_instance :: "string \<Rightarrow> bool" where
  "valid_instance s = (length s \<noteq> 0 \<and> length s \<le> 64 \<and> list_all instance_char s)"

definition valid_comet :: "lib \<Rightarrow> comet_id option \<Rightarrow> bool" where
  "valid_comet L i =
     (case i of None \<Rightarrow> False
      | Some cid \<Rightarrow> valid_instance (ci_instance cid) \<and> valid_uuid L (ci_boot cid))"

definition valid_connection :: "lib \<Rightarrow> conn_id option \<Rightarrow> bool" where
  "valid_connection L i =
     (case i of None \<Rightarrow> False
      | Some cid \<Rightarrow>
          valid_id L (cn_user cid) (CHR ''U'') \<and> valid_instance (cn_instance cid) \<and>
          valid_uuid L (cn_connection cid) \<and> length (cn_token cid) \<le> 128 \<and>
          canonical 16 (cn_token cid))"

definition valid_token :: "string \<Rightarrow> bool" where
  "valid_token s = (32 \<le> length s \<and> length s \<le> 256 \<and> all_bytes 33 126 s)"

definition valid_request_id :: "string \<Rightarrow> bool" where
  "valid_request_id s = (length s \<le> 128 \<and> all_bytes 32 126 s)"

definition printable :: "string \<Rightarrow> nat \<Rightarrow> bool" where
  "printable s mx = (length s \<noteq> 0 \<and> length s \<le> mx \<and> all_bytes 32 126 s)"

definition max_content :: nat where "max_content = 16 * 1024"

definition valid_text :: "string \<Rightarrow> bool" where
  "valid_text s = (s \<noteq> [] \<and> length s \<le> max_content \<and> utf8_valid s)"

lemma valid_id_prefix: "valid_id L s p \<Longrightarrow> s = p # tl s"
  by (cases s) (auto simp: valid_id_def)

lemma valid_id_neq: "valid_id L s p \<Longrightarrow> valid_id L t q \<Longrightarrow> p \<noteq> q \<Longrightarrow> s \<noteq> t"
  by (auto simp: valid_id_def)

lemma valid_id_unique_prefix: "valid_id L s p \<Longrightarrow> valid_id L s q \<Longrightarrow> p = q"
  by (auto simp: valid_id_def)

section \<open>Addresses\<close>

text \<open>\<open>net.SplitHostPort\<close>.\<close>

definition last_index :: "char \<Rightarrow> string \<Rightarrow> nat option" where
  "last_index c s = map_option (\<lambda>i. length s - 1 - i) (index_of c (rev s))"

definition split_host_port :: "string \<Rightarrow> (string \<times> string) option" where
  "split_host_port s =
     (case last_index (CHR '':'') s of
        None \<Rightarrow> None
      | Some i \<Rightarrow>
        (if s \<noteq> [] \<and> hd s = CHR ''['' then
           (case index_of (CHR '']'') s of
              None \<Rightarrow> None
            | Some e \<Rightarrow>
              if e + 1 = length s then None
              else if e + 1 \<noteq> i then None
              else if CHR ''['' \<in> set (drop 1 s) \<or> CHR '']'' \<in> set (drop (e + 1) s) then None
              else Some (take (e - 1) (drop 1 s), drop (i + 1) s))
         else if CHR '':'' \<in> set (take i s) then None
         else if CHR ''['' \<in> set s \<or> CHR '']'' \<in> set s then None
         else Some (take i s, drop (i + 1) s)))"

text \<open>\<open>routing.validAddress\<close>, which requires the canonical decimal port.\<close>

definition valid_address :: "string \<Rightarrow> bool" where
  "valid_address a =
     (if length a > 512 \<or> contains_any a (''/@?#'' @ [char_of (13::nat), char_of (10::nat), char_of (9::nat), CHR '' '']) then False
      else case split_host_port a of
             None \<Rightarrow> False
           | Some (host, port) \<Rightarrow>
             host \<noteq> [] \<and>
             (case parse_int64 port of None \<Rightarrow> False
              | Some n \<Rightarrow> 0 < n \<and> n \<le> 65535 \<and> format_int n = port))"

text \<open>\<open>job.validAddress\<close> and \<open>comet.instanceAddress\<close>, which accept any decimal port.\<close>

definition dial_address :: "string \<Rightarrow> bool" where
  "dial_address a =
     (case split_host_port a of
        None \<Rightarrow> False
      | Some (host, port) \<Rightarrow>
        (case parse_int64 port of None \<Rightarrow> False | Some n \<Rightarrow> 0 < n \<and> n \<le> 65535) \<and> host \<noteq> [] \<and>
        \<not> contains_any host
            (''/@?# '' @ [char_of (9::nat), char_of (13::nat), char_of (10::nat), char_of (92::nat)]))"

section \<open>Comet: connection, message and delivery checks\<close>

text \<open>The errors of the comet package; \<open>invalid(field)\<close> wraps \<open>ErrInvalid\<close>.\<close>

datatype comet_error = ErrClosed | ErrInvalid string | ErrDraining | ErrCtx ctx_err

definition validate_comet :: "lib \<Rightarrow> comet_id option \<Rightarrow> comet_error + unit" where
  "validate_comet L i =
     (case i of
        None \<Rightarrow> Inl (ErrInvalid ''comet identity'')
      | Some cid \<Rightarrow>
        if \<not> valid_uuid L (ci_boot cid) \<or> length (ci_instance cid) = 0 \<or> length (ci_instance cid) > 64
        then Inl (ErrInvalid ''comet identity'')
        else guardE (ErrInvalid ''instance_id'') (list_all instance_char (ci_instance cid)))"

definition validate_connection :: "lib \<Rightarrow> conn_id option \<Rightarrow> string \<Rightarrow> comet_error + unit" where
  "validate_connection L i inst =
     (case i of
        None \<Rightarrow> Inl (ErrInvalid ''connection identity'')
      | Some cid \<Rightarrow>
        if \<not> valid_id L (cn_user cid) (CHR ''U'') \<or> cn_instance cid \<noteq> inst \<or>
           \<not> valid_uuid L (cn_connection cid) \<or> length (cn_token cid) > 128
        then Inl (ErrInvalid ''connection identity'')
        else guardE (ErrInvalid ''route_token'') (canonical 16 (cn_token cid)))"

definition max_int64 :: nat where "max_int64 = 2 ^ 63 - 1"

definition validate_message :: "lib \<Rightarrow> message_view option \<Rightarrow> comet_error + unit" where
  "validate_message L mo =
     (case mo of
        None \<Rightarrow> Inl (ErrInvalid ''message identity'')
      | Some m \<Rightarrow>
        if \<not> valid_id L (mv_id m) (CHR ''M'') \<or> \<not> valid_id L (mv_sender m) (CHR ''U'') \<or> mv_dest m = None
        then Inl (ErrInvalid ''message identity'')
        else if mv_type m \<noteq> MESSAGE_TYPE_TEXT \<or> mv_content m = [] \<or>
                length (mv_content m) > max_content \<or> \<not> utf8_valid (mv_content m)
        then Inl (ErrInvalid ''message content'')
        else if mv_origin m \<noteq> MESSAGE_ORIGIN_USER \<and> mv_origin m \<noteq> MESSAGE_ORIGIN_AI
        then Inl (ErrInvalid ''message origin'')
        else if (case mv_created m of None \<Rightarrow> True
                 | Some t \<Rightarrow> \<not> ts_check L t \<or> as_time t = zero_ns) \<or>
                mv_position m = 0 \<or> mv_position m > max_int64
        then Inl (ErrInvalid ''message time or position'')
        else case d_type (the (mv_dest m)) of
               RECEIVE_TYPE_USER \<Rightarrow>
                 guardE (ErrInvalid ''direct destination'')
                   (valid_id L (mv_session m) (CHR ''S'') \<and>
                    valid_id L (d_id (the (mv_dest m))) (CHR ''U'') \<and>
                    mv_sender m \<noteq> d_id (the (mv_dest m)) \<and>
                    mv_conversation m = ''direct:'' @ mv_session m)
             | RECEIVE_TYPE_GROUP \<Rightarrow>
                 guardE (ErrInvalid ''group destination'')
                   (valid_id L (mv_session m) (CHR ''G'') \<and>
                    mv_session m = d_id (the (mv_dest m)) \<and>
                    mv_conversation m = ''group:'' @ mv_session m)
             | RECEIVE_TYPE_UNSPECIFIED \<Rightarrow> Inl (ErrInvalid ''receive_type''))"

text \<open>The loop over the targets with its \<open>seen\<close> map of full identities.\<close>

fun check_targets :: "lib \<Rightarrow> string \<Rightarrow> conn_id list \<Rightarrow> conn_id option list \<Rightarrow> comet_error + unit" where
  "check_targets L inst seen [] = Inr ()"
| "check_targets L inst seen (i # is) =
     bindE (validate_connection L i inst)
       (\<lambda>_. if the i \<in> set seen then Inl (ErrInvalid ''duplicate target'')
            else check_targets L inst (the i # seen) is)"

definition task_prefix :: "string \<Rightarrow> string" where
  "task_prefix mid = ''push:v1:'' @ mid @ '':''"

definition validate_delivery ::
  "lib \<Rightarrow> string \<Rightarrow> message_view option \<Rightarrow> conn_id option list \<Rightarrow> string \<Rightarrow> comet_error + unit" where
  "validate_delivery L task m targets inst =
     bindE (validate_message L m) (\<lambda>_.
       let prefix = task_prefix (mv_id (the m)) in
       if \<not> has_prefix task prefix then Inl (ErrInvalid ''task_id'')
       else
         let chunk = trim_prefix task prefix in
         if (case parse_uint 32 chunk of None \<Rightarrow> True | Some n \<Rightarrow> format_nat n \<noteq> chunk)
         then Inl (ErrInvalid ''chunk index'')
         else if length targets = 0 \<or> length targets > 100 then Inl (ErrInvalid ''target count'')
         else check_targets L inst [] targets)"

lemma validate_connection_iff:
  "validate_connection L i inst = Inr u \<longleftrightarrow>
     (\<exists>cid. i = Some cid \<and> valid_id L (cn_user cid) (CHR ''U'') \<and> cn_instance cid = inst \<and>
           valid_uuid L (cn_connection cid) \<and> length (cn_token cid) \<le> 128 \<and> canonical 16 (cn_token cid))"
  by (auto simp: validate_connection_def split: option.splits if_splits)

lemma validate_comet_iff: "validate_comet L i = Inr u \<longleftrightarrow> valid_comet L i"
  by (auto simp: validate_comet_def valid_comet_def valid_instance_def split: option.splits if_splits)

lemma check_targets_iff:
  "check_targets L inst seen ts = Inr u \<longleftrightarrow>
     (\<forall>t \<in> set ts. validate_connection L t inst = Inr ()) \<and>
     distinct (map the ts) \<and> set (map the ts) \<inter> set seen = {}"
  by (induction ts arbitrary: seen) (auto simp: bindE_eq_Inr)

lemma parse_uint_format: "n < 2 ^ bits \<Longrightarrow> parse_uint bits (format_nat n) = Some n"
  by (simp add: parse_uint_def)

lemma parse_uint_SomeD: "parse_uint bits s = Some n \<Longrightarrow> n < 2 ^ bits"
  by (auto simp: parse_uint_def split: option.splits if_splits)

text \<open>What an accepted delivery promises the hub.\<close>

lemma validate_delivery_iff:
  "validate_delivery L task m targets inst = Inr u \<longleftrightarrow>
     validate_message L m = Inr () \<and>
     (\<exists>n < 2 ^ 32. task = task_prefix (mv_id (the m)) @ format_nat n) \<and>
     0 < length targets \<and> length targets \<le> 100 \<and>
     (\<forall>t \<in> set targets. validate_connection L t inst = Inr ()) \<and> distinct (map the targets)"
  (is "?l = ?r")
proof
  assume ?l
  then show ?r
    by (auto simp: validate_delivery_def bindE_eq_Inr Let_def check_targets_iff
        split: if_splits option.splits
        dest!: parse_uint_SomeD has_prefixE)
next
  assume ?r
  then show ?l
    by (auto simp: validate_delivery_def bindE_eq_Inr Let_def check_targets_iff parse_uint_format)
qed

end
