(* ===== verification/Samples.thy ===== *)
theory Samples
  imports Validation
begin

text \<open>
  Concrete identities on which the development's theorems are applied: UUIDs, users, a group, two
  Comet processes, connections and a message, all accepted by the validators under \<open>doc_lib\<close>.
\<close>

definition uuid_a :: string where "uuid_a = ''11111111-1111-4111-8111-111111111111''"

definition uuid_b :: string where "uuid_b = ''22222222-2222-4222-8222-222222222222''"

definition uuid_c :: string where "uuid_c = ''33333333-3333-4333-8333-333333333333''"

definition user_a :: string where "user_a = ''U'' @ uuid_a"

definition user_b :: string where "user_b = ''U'' @ uuid_b"

definition token_a :: string where "token_a = ''AAAAAAAAAAAAAAAAAAAAAA''"

definition token_b :: string where "token_b = ''BBBBBBBBBBBBBBBBBBBBBA''"

definition comet_a :: comet_id where "comet_a = \<lparr>ci_instance = ''comet-1'', ci_boot = uuid_a\<rparr>"

definition conn_a :: conn_id where
  "conn_a = \<lparr>cn_user = user_a, cn_instance = ''comet-1'', cn_connection = uuid_a, cn_token = token_a\<rparr>"

definition conn_b :: conn_id where
  "conn_b = \<lparr>cn_user = user_a, cn_instance = ''comet-1'', cn_connection = uuid_b, cn_token = token_b\<rparr>"

definition conn_c :: conn_id where
  "conn_c = \<lparr>cn_user = user_b, cn_instance = ''comet-1'', cn_connection = uuid_c, cn_token = token_a\<rparr>"

lemma samples_valid [simp]:
  "valid_uuid doc_lib uuid_a" "valid_uuid doc_lib uuid_b" "valid_uuid doc_lib uuid_c"
  "valid_id doc_lib user_a (CHR ''U'')" "valid_id doc_lib user_b (CHR ''U'')"
  "valid_comet doc_lib (Some comet_a)"
  "valid_connection doc_lib (Some conn_a)" "valid_connection doc_lib (Some conn_b)"
  "valid_connection doc_lib (Some conn_c)"
  by code_simp+

lemma samples_distinct [simp]:
  "user_a \<noteq> user_b" "user_b \<noteq> user_a" "conn_a \<noteq> conn_b" "conn_b \<noteq> conn_a" "uuid_a \<noteq> uuid_b" "uuid_b \<noteq> uuid_a"
  by (simp_all add: user_a_def user_b_def conn_a_def conn_b_def uuid_a_def uuid_b_def)

end
