(* ===== verification/JobTask.thy ===== *)
theory JobTask
  imports Json GoTime Samples
begin

text \<open>
  \<open>internal/job/task.go\<close>: the decoding of a push task with all its checks, and the encoding Logic
  publishes (\<open>json.Marshal\<close> of \<open>im.PushTask\<close> in \<open>internal/logic/dispatch.go\<close>).
\<close>

section \<open>Escapes and keys\<close>

text \<open>\<open>validUnicodeEscapes\<close>: every escape is complete and surrogates come in pairs.\<close>

definition hex4_of :: "char \<Rightarrow> char \<Rightarrow> char \<Rightarrow> char \<Rightarrow> nat option" where
  "hex4_of a b c d = (if hex_char a \<and> hex_char b \<and> hex_char c \<and> hex_char d then Some (hex4 a b c d) else None)"

fun valid_escapes :: "string \<Rightarrow> bool" where
  "valid_escapes [] = True"
| "valid_escapes (c # s) =
     (if c \<noteq> backslash then valid_escapes s
      else case s of
             [] \<Rightarrow> False
           | e # r \<Rightarrow>
             if e \<noteq> CHR ''u'' then valid_escapes r
             else (case r of
                     h1 # h2 # h3 # h4 # t \<Rightarrow>
                       (case hex4_of h1 h2 h3 h4 of
                          None \<Rightarrow> False
                        | Some n \<Rightarrow>
                          if 56320 \<le> n \<and> n \<le> 57343 then False
                          else if 55296 \<le> n \<and> n \<le> 56319 then
                            (case t of
                               b # u # l1 # l2 # l3 # l4 # w \<Rightarrow>
                                 if b \<noteq> backslash \<or> u \<noteq> CHR ''u'' then False
                                 else (case hex4_of l1 l2 l3 l4 of
                                         None \<Rightarrow> False
                                       | Some m \<Rightarrow>
                                         if m < 56320 \<or> 57343 < m then False else valid_escapes w)
                             | _ \<Rightarrow> False)
                          else valid_escapes t)
                   | _ \<Rightarrow> False))"

text \<open>
  The comparison of a key with its lower-case form. A key that \<open>Decode\<close> accepts afterwards consists
  of ASCII, the long s and the Kelvin sign, so the upper-case characters that matter are the ASCII
  letters and the Kelvin sign; the long s is lower case.
\<close>

fun has_kelvin :: "nat list \<Rightarrow> bool" where
  "has_kelvin [] = False"
| "has_kelvin (a # s) = (take 3 (a # s) = [226, 132, 170] \<or> has_kelvin s)"

definition lower_key :: "string \<Rightarrow> bool" where
  "lower_key k = (list_all (\<lambda>c. \<not> (65 \<le> code c \<and> code c \<le> 90)) k \<and> \<not> has_kelvin (map code k))"

text \<open>\<open>checkJSON\<close> on the value tree.\<close>

fun check_json :: "nat \<Rightarrow> json \<Rightarrow> bool" where
  "check_json d (JArr vs) = (d \<le> 16 \<and> list_all (check_json (Suc d)) vs)"
| "check_json d (JObj ms) =
     (d \<le> 16 \<and> distinct (map (\<lambda>(k, v). unquote k) ms) \<and>
      list_all (\<lambda>(k, v). lower_key (unquote k) \<and> check_json (Suc d) v) ms)"
| "check_json d _ = (d \<le> 16)"

text \<open>\<open>requiredObject\<close>: the members by exact key, with the required ones present and not null.\<close>

definition member :: "string \<Rightarrow> json \<Rightarrow> json option" where
  "member k v = (case v of JObj ms \<Rightarrow> map_of (map (\<lambda>(k, v). (unquote k, v)) ms) k | _ \<Rightarrow> None)"

definition required_object :: "json \<Rightarrow> string list \<Rightarrow> bool" where
  "required_object v ks =
     ((case v of JObj _ \<Rightarrow> True | _ \<Rightarrow> False) \<and>
      list_all (\<lambda>k. case member k v of None \<Rightarrow> False | Some x \<Rightarrow> x \<noteq> JNull) ks)"

section \<open>Struct decoding\<close>

definition decode_time :: "json \<Rightarrow> gotime \<Rightarrow> gotime option" where
  "decode_time v old = (case v of JNull \<Rightarrow> Some old | JStr b \<Rightarrow> parse_time b | _ \<Rightarrow> None)"

definition zero_message :: im_message where
  "zero_message = \<lparr>im_id = [], im_conversation = [], im_session = [], im_send = [], im_receive = [],
     im_receive_type = [], im_type = [], im_content = [], im_origin = [], im_created = GoTime zero_ns 0,
     im_position = []\<rparr>"

definition message_fields :: "(string \<times> (json \<Rightarrow> im_message \<Rightarrow> im_message option)) list" where
  "message_fields =
     [(''message_id'', \<lambda>v m. map_option (\<lambda>s. m\<lparr>im_id := s\<rparr>) (decode_string v (im_id m))),
      (''conversation_id'', \<lambda>v m. map_option (\<lambda>s. m\<lparr>im_conversation := s\<rparr>) (decode_string v (im_conversation m))),
      (''session_id'', \<lambda>v m. map_option (\<lambda>s. m\<lparr>im_session := s\<rparr>) (decode_string v (im_session m))),
      (''send_id'', \<lambda>v m. map_option (\<lambda>s. m\<lparr>im_send := s\<rparr>) (decode_string v (im_send m))),
      (''receive_id'', \<lambda>v m. map_option (\<lambda>s. m\<lparr>im_receive := s\<rparr>) (decode_string v (im_receive m))),
      (''receive_type'', \<lambda>v m. map_option (\<lambda>s. m\<lparr>im_receive_type := s\<rparr>) (decode_string v (im_receive_type m))),
      (''type'', \<lambda>v m. map_option (\<lambda>s. m\<lparr>im_type := s\<rparr>) (decode_string v (im_type m))),
      (''content'', \<lambda>v m. map_option (\<lambda>s. m\<lparr>im_content := s\<rparr>) (decode_string v (im_content m))),
      (''origin'', \<lambda>v m. map_option (\<lambda>s. m\<lparr>im_origin := s\<rparr>) (decode_string v (im_origin m))),
      (''created_at'', \<lambda>v m. map_option (\<lambda>t. m\<lparr>im_created := t\<rparr>) (decode_time v (im_created m))),
      (''position'', \<lambda>v m. map_option (\<lambda>s. m\<lparr>im_position := s\<rparr>) (decode_string v (im_position m)))]"

definition zero_conn :: conn_id where
  "zero_conn = \<lparr>cn_user = [], cn_instance = [], cn_connection = [], cn_token = []\<rparr>"

definition conn_fields :: "(string \<times> (json \<Rightarrow> conn_id \<Rightarrow> conn_id option)) list" where
  "conn_fields =
     [(''user_id'', \<lambda>v c. map_option (\<lambda>s. c\<lparr>cn_user := s\<rparr>) (decode_string v (cn_user c))),
      (''instance_id'', \<lambda>v c. map_option (\<lambda>s. c\<lparr>cn_instance := s\<rparr>) (decode_string v (cn_instance c))),
      (''connection_id'', \<lambda>v c. map_option (\<lambda>s. c\<lparr>cn_connection := s\<rparr>) (decode_string v (cn_connection c))),
      (''route_token'', \<lambda>v c. map_option (\<lambda>s. c\<lparr>cn_token := s\<rparr>) (decode_string v (cn_token c)))]"

definition zero_task :: push_task where
  "zero_task = \<lparr>pt_version = 0, pt_kind = [], pt_task_id = [], pt_message = zero_message,
     pt_recipients = [], pt_targets = None, pt_index = 0, pt_count = 0, pt_request = [],
     pt_pending = None, pt_run = []\<rparr>"

definition nil_list :: "'a list option \<Rightarrow> 'a list" where
  "nil_list o' = (case o' of None \<Rightarrow> [] | Some xs \<Rightarrow> xs)"

definition task_fields :: "(string \<times> (json \<Rightarrow> push_task \<Rightarrow> push_task option)) list" where
  "task_fields =
     [(''schema_version'', \<lambda>v t. map_option (\<lambda>n. t\<lparr>pt_version := n\<rparr>) (decode_uint 32 v (pt_version t))),
      (''kind'', \<lambda>v t. map_option (\<lambda>s. t\<lparr>pt_kind := s\<rparr>) (decode_string v (pt_kind t))),
      (''task_id'', \<lambda>v t. map_option (\<lambda>s. t\<lparr>pt_task_id := s\<rparr>) (decode_string v (pt_task_id t))),
      (''message'', \<lambda>v t. map_option (\<lambda>m. t\<lparr>pt_message := m\<rparr>) (decode_struct message_fields v (pt_message t))),
      (''recipients'', \<lambda>v t. map_option (\<lambda>r. t\<lparr>pt_recipients := nil_list r\<rparr>)
                              (decode_slice decode_string [] v (Some (pt_recipients t)))),
      (''targets'', \<lambda>v t. map_option (\<lambda>r. t\<lparr>pt_targets := r\<rparr>)
                           (decode_slice (decode_struct conn_fields) zero_conn v (pt_targets t))),
      (''chunk_index'', \<lambda>v t. map_option (\<lambda>n. t\<lparr>pt_index := n\<rparr>) (decode_uint 32 v (pt_index t))),
      (''chunk_count'', \<lambda>v t. map_option (\<lambda>n. t\<lparr>pt_count := n\<rparr>) (decode_uint 32 v (pt_count t))),
      (''request_id'', \<lambda>v t. map_option (\<lambda>s. t\<lparr>pt_request := s\<rparr>) (decode_string v (pt_request t))),
      (''pending_recipients'', \<lambda>v t. map_option (\<lambda>r. t\<lparr>pt_pending := r\<rparr>)
                                      (decode_slice decode_string [] v (pt_pending t))),
      (''replay_run_id'', \<lambda>v t. map_option (\<lambda>s. t\<lparr>pt_run := s\<rparr>) (decode_string v (pt_run t)))]"

section \<open>The message of a task\<close>

text \<open>\<open>messageView\<close>.\<close>

definition message_view_of :: "lib \<Rightarrow> im_message \<Rightarrow> message_view option" where
  "message_view_of L m =
     (let position = parse_int64 (im_position m) in
      if \<not> valid_id L (im_id m) (CHR ''M'') \<or> \<not> valid_id L (im_send m) (CHR ''U'') \<or>
         (case position of None \<Rightarrow> True | Some p \<Rightarrow> p \<le> 0 \<or> format_int p \<noteq> im_position m) \<or>
         is_zero_time (im_created m) \<or> t_off (im_created m) \<noteq> 0 \<or> \<not> ts_check L (ts_new (t_ns (im_created m)))
      then None
      else if im_type m \<noteq> ''text'' \<or> \<not> valid_text (im_content m) then None
      else if im_origin m \<noteq> ''user'' \<and> im_origin m \<noteq> ''ai'' then None
      else
        let origin = (if im_origin m = ''ai'' then MESSAGE_ORIGIN_AI else MESSAGE_ORIGIN_USER);
            view = (\<lambda>receive.
              \<lparr>mv_id = im_id m, mv_conversation = im_conversation m, mv_session = im_session m,
               mv_sender = im_send m, mv_dest = Some \<lparr>d_type = receive, d_id = im_receive m\<rparr>,
               mv_type = MESSAGE_TYPE_TEXT, mv_content = im_content m, mv_origin = origin,
               mv_created = Some (ts_new (t_ns (im_created m))), mv_position = nat (the position)\<rparr>)
        in
        if im_receive_type m = ''user'' then
          (if \<not> valid_id L (im_session m) (CHR ''S'') \<or> \<not> valid_id L (im_receive m) (CHR ''U'') \<or>
              im_send m = im_receive m \<or> im_conversation m \<noteq> ''direct:'' @ im_session m
           then None else Some (view RECEIVE_TYPE_USER))
        else if im_receive_type m = ''group'' then
          (if \<not> valid_id L (im_session m) (CHR ''G'') \<or> im_session m \<noteq> im_receive m \<or>
              im_conversation m \<noteq> ''group:'' @ im_session m
           then None else Some (view RECEIVE_TYPE_GROUP))
        else None)"

section \<open>Decoding a task\<close>

definition max_payload :: nat where "max_payload = 256 * 1024"

definition task_identity :: "push_task \<Rightarrow> bool" where
  "task_identity t =
     (pt_version t = 1 \<and> pt_kind t = ''message_push'' \<and> pt_count t \<noteq> 0 \<and> pt_index t < pt_count t \<and>
      pt_task_id t = ''push:v1:'' @ im_id (pt_message t) @ '':'' @ format_nat (pt_index t))"

text \<open>The loop over the recipients; \<open>prev\<close> is the one before.\<close>

fun check_recipients :: "lib \<Rightarrow> im_message \<Rightarrow> string option \<Rightarrow> string list \<Rightarrow> bool" where
  "check_recipients L m prev [] = True"
| "check_recipients L m prev (i # is) =
     (valid_id L i (CHR ''U'') \<and> (case prev of None \<Rightarrow> True | Some p \<Rightarrow> p < i) \<and>
      (im_receive_type m = ''user'' \<longrightarrow> i = im_send m \<or> i = im_receive m) \<and>
      check_recipients L m (Some i) is)"

fun check_hints :: "lib \<Rightarrow> string list \<Rightarrow> string list \<Rightarrow> conn_id list \<Rightarrow> bool" where
  "check_hints L recipients seen [] = True"
| "check_hints L recipients seen (h # hs) =
     (cn_user h \<in> set recipients \<and> cn_user h \<notin> set seen \<and> valid_connection L (Some h) \<and>
      check_hints L recipients (cn_user h # seen) hs)"

definition check_replay :: "json \<Rightarrow> push_task \<Rightarrow> bool" where
  "check_replay v t =
     (let subset = (member ''pending_recipients'' v \<noteq> None); run = (member ''replay_run_id'' v \<noteq> None) in
      subset = run \<and> (subset \<longrightarrow> nil_list (pt_pending t) \<noteq> [] \<and> printable (pt_run t) 128) \<and>
      all_fresh (\<lambda>i. i \<in> set (pt_recipients t)) [] (nil_list (pt_pending t)))"

definition required_task :: "string list" where
  "required_task = [''schema_version'', ''kind'', ''task_id'', ''message'', ''recipients'', ''targets'',
                    ''chunk_index'', ''chunk_count'']"

definition required_message :: "string list" where
  "required_message = [''message_id'', ''conversation_id'', ''session_id'', ''send_id'', ''receive_id'',
                       ''receive_type'', ''type'', ''content'', ''origin'', ''created_at'', ''position'']"

definition check_task :: "lib \<Rightarrow> json \<Rightarrow> push_task \<Rightarrow> bool" where
  "check_task L v t =
     (required_object v required_task \<and> required_object (the (member ''message'' v)) required_message \<and>
      task_identity t \<and> message_view_of L (pt_message t) \<noteq> None \<and>
      1 \<le> length (pt_recipients t) \<and> length (pt_recipients t) \<le> 100 \<and> pt_targets t \<noteq> None \<and>
      check_recipients L (pt_message t) None (pt_recipients t) \<and>
      check_hints L (pt_recipients t) [] (the (pt_targets t)) \<and>
      (case member ''request_id'' v of None \<Rightarrow> True | Some x \<Rightarrow> x \<noteq> JNull \<and> printable (pt_request t) 128) \<and>
      check_replay v t)"

definition decode_task :: "lib \<Rightarrow> string \<Rightarrow> push_task option" where
  "decode_task L raw =
     (if max_payload < length raw \<or> \<not> utf8_valid raw \<or> \<not> valid_escapes raw then None
      else case json_text raw of
             None \<Rightarrow> None
           | Some v \<Rightarrow>
             if \<not> check_json 0 v then None
             else case decode_struct task_fields v zero_task of
                    None \<Rightarrow> None
                  | Some t \<Rightarrow> if check_task L v t then Some t else None)"

section \<open>Encoding a task\<close>


definition number_json :: "nat \<Rightarrow> json" where
  "number_json n = JNum (format_nat n)"

definition message_json :: "im_message \<Rightarrow> json option" where
  "message_json m =
     (case format_gotime (im_created m) of
        None \<Rightarrow> None
      | Some created \<Rightarrow> Some (JObj
          [(''message_id'', json_string (im_id m)), (''conversation_id'', json_string (im_conversation m)),
           (''session_id'', json_string (im_session m)), (''send_id'', json_string (im_send m)),
           (''receive_id'', json_string (im_receive m)), (''receive_type'', json_string (im_receive_type m)),
           (''type'', json_string (im_type m)), (''content'', json_string (im_content m)),
           (''origin'', json_string (im_origin m)), (''created_at'', JStr created),
           (''position'', json_string (im_position m))]))"

definition conn_json :: "conn_id \<Rightarrow> json" where
  "conn_json c = JObj
     [(''user_id'', json_string (cn_user c)), (''instance_id'', json_string (cn_instance c)),
      (''connection_id'', json_string (cn_connection c)), (''route_token'', json_string (cn_token c))]"

text \<open>Members with \<open>omitempty\<close> are left out when empty.\<close>

definition task_json :: "push_task \<Rightarrow> json option" where
  "task_json t =
     (case message_json (pt_message t) of
        None \<Rightarrow> None
      | Some m \<Rightarrow> Some (JObj
          ([(''schema_version'', number_json (pt_version t)), (''kind'', json_string (pt_kind t)),
            (''task_id'', json_string (pt_task_id t)), (''message'', m),
            (''recipients'', JArr (map json_string (pt_recipients t))),
            (''targets'', case pt_targets t of None \<Rightarrow> JNull | Some hs \<Rightarrow> JArr (map conn_json hs)),
            (''chunk_index'', number_json (pt_index t)), (''chunk_count'', number_json (pt_count t))] @
           (if pt_request t = [] then [] else [(''request_id'', json_string (pt_request t))]) @
           (if nil_list (pt_pending t) = [] then []
            else [(''pending_recipients'', JArr (map json_string (nil_list (pt_pending t))))]) @
           (if pt_run t = [] then [] else [(''replay_run_id'', json_string (pt_run t))]))))"

text \<open>\<open>json.Marshal(task)\<close>.\<close>

definition marshal_task :: "push_task \<Rightarrow> string option" where
  "marshal_task t = map_option json_print (task_json t)"

end
