(* ===== verification/TaskCodec.thy ===== *)
theory TaskCodec
  imports JobTask
begin

text \<open>
  What \<open>DecodeTask\<close> promises of a task it accepts, and the round trip with the publisher: every valid
  task is encoded to a text that \<open>DecodeTask\<close> reads back.
\<close>

section \<open>What an accepted task promises\<close>

definition task_core :: "lib \<Rightarrow> push_task \<Rightarrow> bool" where
  "task_core L t =
     (task_identity t \<and> message_view_of L (pt_message t) \<noteq> None \<and>
      1 \<le> length (pt_recipients t) \<and> length (pt_recipients t) \<le> 100 \<and> pt_targets t \<noteq> None \<and>
      check_recipients L (pt_message t) None (pt_recipients t) \<and>
      check_hints L (pt_recipients t) [] (the (pt_targets t)) \<and>
      all_fresh (\<lambda>i. i \<in> set (pt_recipients t)) [] (nil_list (pt_pending t)))"

lemma decode_task_Some:
  assumes "decode_task L raw = Some t"
  obtains v where "json_text raw = Some v" "check_json 0 v" "decode_struct task_fields v zero_task = Some t"
    "check_task L v t" "length raw \<le> max_payload" "utf8_valid raw" "valid_escapes raw"
  using assms by (auto simp: decode_task_def split: if_splits option.splits)

lemma check_task_core: "check_task L v t \<Longrightarrow> task_core L t"
  by (simp add: check_task_def task_core_def check_replay_def Let_def)

lemma check_recipients_iff:
  "check_recipients L m prev is \<longleftrightarrow>
     (\<forall>i \<in> set is. valid_id L i (CHR ''U'') \<and> (im_receive_type m = ''user'' \<longrightarrow> i = im_send m \<or> i = im_receive m)) \<and>
     strict_sorted (case prev of None \<Rightarrow> is | Some p \<Rightarrow> p # is)"
proof (induction "is" arbitrary: prev)
  case Nil
  then show ?case by (simp split: option.split)
next
  case (Cons i "is")
  show ?case
  proof (cases prev)
    case None
    then show ?thesis using Cons by auto
  next
    case (Some p)
    then show ?thesis using Cons by auto
  qed
qed

lemma check_hints_iff:
  "check_hints L rs seen hs \<longleftrightarrow>
     (\<forall>h \<in> set hs. cn_user h \<in> set rs \<and> valid_connection L (Some h)) \<and>
     distinct (map cn_user hs) \<and> set (map cn_user hs) \<inter> set seen = {}"
  by (induction hs arbitrary: seen) auto

lemma decode_uint_bound: "decode_uint b v old = Some n \<Longrightarrow> old < 2 ^ b \<Longrightarrow> n < 2 ^ b"
  by (auto simp: decode_uint_def dest: parse_uint_SomeD split: json.splits)

definition task_small :: "push_task \<Rightarrow> bool" where
  "task_small t = (pt_index t < 2 ^ 32 \<and> pt_count t < 2 ^ 32)"

lemma map_of_fields: "find_field fs k = Some f \<Longrightarrow> \<exists>n. (n, f) \<in> set fs"
  by (auto simp: find_field_def dest: map_of_SomeD find_SomeD split: option.splits)

lemma task_fields_small:
  assumes "(n, f) \<in> set task_fields" and "f v t = Some t'" and "task_small t"
  shows "task_small t'"
  using assms by (auto simp: task_fields_def task_small_def dest!: decode_uint_bound)

lemma decode_members_small:
  "decode_members task_fields ms t = Some t' \<Longrightarrow> task_small t \<Longrightarrow> task_small t'"
proof (induction ms arbitrary: t)
  case Nil
  then show ?case by simp
next
  case (Cons m ms)
  obtain k v where m: "m = (k, v)" by fastforce
  from Cons.prems(1) obtain f t1 where f: "find_field task_fields (unquote k) = Some f" "f v t = Some t1"
    "decode_members task_fields ms t1 = Some t'"
    unfolding m by (auto split: option.splits)
  obtain n where "(n, f) \<in> set task_fields" using map_of_fields [OF f(1)] by blast
  then have "task_small t1" using task_fields_small f(2) Cons.prems(2) by blast
  then show ?case using Cons.IH f(3) by blast
qed

lemma decode_struct_small: "decode_struct task_fields v zero_task = Some t \<Longrightarrow> task_small t"
proof -
  have "task_small zero_task" by (simp add: task_small_def zero_task_def)
  then show "decode_struct task_fields v zero_task = Some t \<Longrightarrow> task_small t"
    by (auto simp: decode_struct_def dest: decode_members_small split: json.splits)
qed

text \<open>C11. Whatever input \<open>DecodeTask\<close> accepts, the task has the identity of its chunk, a message with a
  public view, between 1 and 100 strictly increasing recipients (only the two parties of a direct message),
  at most one valid route hint per recipient, and a replay subset of the recipients without repetition.\<close>

theorem decoded_tasks_sound:
  assumes "decode_task L raw = Some t"
  shows "\<exists>hs m. pt_version t = 1 \<and> pt_kind t = ''message_push'' \<and> pt_index t < pt_count t \<and> pt_count t < 2 ^ 32 \<and>
           pt_task_id t = task_prefix (im_id (pt_message t)) @ format_nat (pt_index t) \<and>
           message_view_of L (pt_message t) = Some m \<and> pt_targets t = Some hs \<and>
           strict_sorted (pt_recipients t) \<and> 1 \<le> length (pt_recipients t) \<and> length (pt_recipients t) \<le> 100 \<and>
           (\<forall>i \<in> set (pt_recipients t). valid_id L i (CHR ''U'')) \<and>
           (im_receive_type (pt_message t) = ''user'' \<longrightarrow>
              set (pt_recipients t) \<subseteq> {im_send (pt_message t), im_receive (pt_message t)}) \<and>
           distinct (map cn_user hs) \<and> set (map cn_user hs) \<subseteq> set (pt_recipients t) \<and>
           (\<forall>h \<in> set hs. valid_connection L (Some h)) \<and>
           distinct (nil_list (pt_pending t)) \<and> set (nil_list (pt_pending t)) \<subseteq> set (pt_recipients t)"
proof -
  obtain v where v: "decode_struct task_fields v zero_task = Some t" "check_task L v t"
    using assms by (rule decode_task_Some)
  have c: "task_core L t" by (rule check_task_core [OF v(2)])
  have s: "task_small t" by (rule decode_struct_small [OF v(1)])
  from c obtain m where m: "message_view_of L (pt_message t) = Some m" by (auto simp: task_core_def)
  from c obtain hs where hs: "pt_targets t = Some hs" by (auto simp: task_core_def)
  have r: "check_recipients L (pt_message t) None (pt_recipients t)" "check_hints L (pt_recipients t) [] hs"
    "all_fresh (\<lambda>i. i \<in> set (pt_recipients t)) [] (nil_list (pt_pending t))" "task_identity t"
    using c hs by (simp_all add: task_core_def)
  have "length (pt_recipients t) \<noteq> 0 \<and> length (pt_recipients t) \<le> 100" using c by (auto simp: task_core_def)
  then show ?thesis
    using m hs r s by (intro exI [of _ hs] exI [of _ m])
      (auto simp: check_recipients_iff check_hints_iff all_fresh_iff task_identity_def task_small_def task_prefix_def Suc_le_eq)
qed

section \<open>Printed text passes the raw checks\<close>

text \<open>A text that neither check of the raw bytes looks past: whatever follows decides.\<close>

definition neutral :: "string \<Rightarrow> bool" where
  "neutral s = (\<forall>r. utf8_valid (s @ r) = utf8_valid r \<and> valid_escapes (s @ r) = valid_escapes r)"

lemma neutral_Nil [simp, intro]: "neutral []"
  by (simp add: neutral_def)

lemma neutral_append [intro]: "neutral s \<Longrightarrow> neutral t \<Longrightarrow> neutral (s @ t)"
  by (simp add: neutral_def)

lemma neutral_checks: "neutral s \<Longrightarrow> utf8_valid s \<and> valid_escapes s"
  unfolding neutral_def using utf8_valid_Nil by (metis append_Nil2 valid_escapes.simps(1))

definition text_char :: "char \<Rightarrow> bool" where
  "text_char c = (code c < 128 \<and> c \<noteq> backslash)"

lemma neutral_Cons: "text_char c \<Longrightarrow> neutral s \<Longrightarrow> neutral (c # s)"
  by (simp add: neutral_def text_char_def)

lemma neutral_text: "list_all text_char s \<Longrightarrow> neutral s"
  by (induction s) (auto intro: neutral_Cons)

lemma text_chars [simp]: "text_char quote_char" "text_char (CHR '','')" "text_char (CHR '':'')"
  "text_char (CHR ''{'')" "text_char (CHR ''}'')" "text_char (CHR ''['')" "text_char (CHR '']'')"
  by code_simp+

lemma neutral_u:
  assumes "hex_char a" "hex_char b" "hex_char c" "hex_char d" "hex4 a b c d < 55296 \<or> 57343 < hex4 a b c d"
  shows "neutral [backslash, CHR ''u'', a, b, c, d]"
proof -
  have "code x < 128" if "hex_char x" for x using that by (auto simp: hex_char_def)
  moreover have "code backslash < 128" "code (CHR ''u'') < 128" by code_simp+
  moreover have "valid_escapes (backslash # CHR ''u'' # a # b # c # d # r) = valid_escapes r" for r
  proof -
    have "hex4_of a b c d = Some (hex4 a b c d)" using assms by (simp add: hex4_of_def)
    then show ?thesis using assms(5) by (subst valid_escapes.simps) auto
  qed
  ultimately show ?thesis using assms(1-4) by (simp add: neutral_def del: valid_escapes.simps)
qed

lemma neutral_short:
  assumes "short_escape e" "e \<noteq> CHR ''u''"
  shows "neutral [backslash, e]"
proof -
  have "code e < 128" using assms(1) by (auto simp: short_escape_def quote_char_def backslash_def)
  moreover have "code backslash < 128" by code_simp
  moreover have "valid_escapes (backslash # e # r) = valid_escapes r" for r
    using assms(2) by (subst valid_escapes.simps) simp
  ultimately show ?thesis by (simp add: neutral_def del: valid_escapes.simps)
qed

lemma valid_escapes_high: "\<forall>c \<in> set s. c \<noteq> backslash \<Longrightarrow> valid_escapes (s @ r) = valid_escapes r"
  by (induction s) auto

lemma utf8_valid_rune:
  assumes "s \<noteq> []" and "rune_width (map code s) = length s" and that: "128 \<le> code (hd s)"
  shows "utf8_valid (s @ r) = utf8_valid r"
proof -
  have "0 < length s" using assms(1) by simp
  then have "rune_width (map code s @ map code r) = length s"
    using rune_width_high(3) [of "map code s" "length s" "map code r"] assms that by (simp add: hd_map)
  then show ?thesis using assms(1) unfolding utf8_valid_def by (subst utf8_valid_codes.simps) simp
qed

lemma neutral_breaks: "neutral (backslash # ''ufffd'')" "neutral (backslash # ''u2028'')" "neutral (backslash # ''u2029'')"
proof -
  have h: "hex_char (CHR ''f'')" "hex_char (CHR ''d'')" "hex_char (CHR ''2'')" "hex_char (CHR ''0'')"
    "hex_char (CHR ''8'')" "hex_char (CHR ''9'')"
    by (simp_all add: hex_char_def)
  have n: "57343 < hex4 (CHR ''f'') (CHR ''f'') (CHR ''f'') (CHR ''d'')"
    "hex4 (CHR ''2'') (CHR ''0'') (CHR ''2'') (CHR ''8'') < 55296" "hex4 (CHR ''2'') (CHR ''0'') (CHR ''2'') (CHR ''9'') < 55296"
    by (simp_all add: hex4_def hex_val_def)
  show "neutral (backslash # ''ufffd'')" by (rule neutral_u [OF h(1,1,1,2) disjI2 [OF n(1)]])
  show "neutral (backslash # ''u2028'')" by (rule neutral_u [OF h(3,4,3,5) disjI1 [OF n(2)]])
  show "neutral (backslash # ''u2029'')" by (rule neutral_u [OF h(3,4,3,6) disjI1 [OF n(3)]])
qed

lemma quote_step_neutral:
  assumes "s \<noteq> []"
  shows "neutral (fst (quote_step s))"
proof (cases "code (hd s) < 128")
  case True
  then show ?thesis
  proof (cases rule: escape_ascii_cases)
    case 1
    then show ?thesis using True neutral_text [of "[hd s]"] by (simp add: quote_step_def text_char_def plain_def)
  next
    case (2 e)
    then show ?thesis using True neutral_short by (simp add: quote_step_def)
  next
    case 3
    have h: "code (hd s) div 16 < 16" using True by linarith
    have "hex4 (CHR ''0'') (CHR ''0'') (hex_digit (code (hd s) div 16)) (hex_digit (code (hd s) mod 16)) < 55296"
      using h by (simp add: hex4_def)
    then show ?thesis using 3 True h neutral_u [of "CHR ''0''" "CHR ''0''"] by (simp add: quote_step_def)
  qed
next
  case False
  let ?w = "rune_width (map code s)"
  have "neutral (take ?w s)" if w: "0 < ?w"
  proof -
    note h = rune_width_high [of "map code s" ?w, OF _ _ refl w]
    have hd: "hd (map code s) = code (hd s)" using assms by (simp add: hd_map)
    have len: "length (take ?w s) = ?w" using h(1) False assms hd by simp
    have high: "\<forall>c \<in> set (take ?w s). 128 \<le> code c" using h(2) False assms hd by (auto simp: take_map)
    then have "\<forall>c \<in> set (take ?w s). c \<noteq> backslash" using high_plain by (auto simp: plain_def)
    then have "valid_escapes (take ?w s @ r) = valid_escapes r" for r by (rule valid_escapes_high)
    moreover have "utf8_valid (take ?w s @ r) = utf8_valid r" for r
    proof (rule utf8_valid_rune)
      show "take ?w s \<noteq> []" using w assms by (simp del: take_eq_Nil2 add: take_eq_Nil)
      show "rune_width (map code (take ?w s)) = length (take ?w s)" using h(3) [of "[]"] False assms hd len by (simp add: take_map)
      show "128 \<le> code (hd (take ?w s))" using w assms False by (simp add: hd_take)
    qed
    ultimately show ?thesis unfolding neutral_def by blast
  qed
  moreover note neutral_breaks
  ultimately show ?thesis using False by (auto simp: quote_step_def Let_def)
qed

lemma quote_body_neutral: "neutral (quote_body s)"
proof (induction s rule: quote_body.induct)
  case (1 s)
  show ?case
  proof (cases "s = []")
    case True
    then show ?thesis by (subst quote_body.simps) simp
  next
    case False
    then show ?thesis using 1 quote_step_neutral [OF False] by (subst quote_body.simps) auto
  qed
qed

text \<open>Trees whose keys and string bodies are neutral, and whose numbers are decimal.\<close>

fun tree_neutral :: "json \<Rightarrow> bool" where
  "tree_neutral (JNum n) = (\<exists>k. n = format_nat k)"
| "tree_neutral (JStr b) = neutral b"
| "tree_neutral (JArr vs) = list_all tree_neutral vs"
| "tree_neutral (JObj ms) = list_all (\<lambda>(k, v). neutral k \<and> tree_neutral v) ms"
| "tree_neutral _ = True"

lemma neutral_join: "list_all neutral xs \<Longrightarrow> neutral (join_comma xs)"
  by (induction xs rule: join_comma.induct) (auto intro!: neutral_append neutral_Cons)

lemma neutral_format_nat: "neutral (format_nat k)"
proof (rule neutral_text)
  have "text_char c" if "48 \<le> code c" "code c \<le> 57" for c
    using that by (auto simp: text_char_def backslash_def)
  then show "list_all text_char (format_nat k)" using format_nat_digits [of k] by (auto simp: list_all_iff)
qed

lemma neutral_quoted: "neutral b \<Longrightarrow> neutral s \<Longrightarrow> neutral (quote_char # b @ quote_char # s)"
  by (intro neutral_Cons neutral_append) simp_all

lemma json_print_neutral: "tree_neutral v \<Longrightarrow> neutral (json_print v)"
proof (induction v)
  case JNull
  have "list_all text_char ''null''" by code_simp
  then show ?case by (simp add: neutral_text)
next
  case (JBool b)
  have "list_all text_char ''true''" "list_all text_char ''false''" by code_simp+
  then show ?case by (simp add: neutral_text)
next
  case (JNum n)
  then show ?case using neutral_format_nat by auto
next
  case (JStr b)
  then show ?case by (auto intro!: neutral_quoted)
next
  case (JArr vs)
  then show ?case by (auto intro!: neutral_Cons neutral_append neutral_join simp: list_all_iff)
next
  case (JObj ms)
  have "neutral (quote_char # k @ quote_char # CHR '':'' # json_print v)" if "(k, v) \<in> set ms" for k v
  proof -
    have "neutral k" "tree_neutral v" using JObj.prems that by (auto simp: list_all_iff)
    moreover have "neutral (json_print v)" using JObj.IH [OF that] calculation(2) by simp
    ultimately show ?thesis by (intro neutral_quoted neutral_Cons) simp_all
  qed
  then have "list_all neutral (map member_text ms)" by (auto simp: list_all_iff)
  then show ?case by (auto intro!: neutral_Cons neutral_append neutral_join)
qed

section \<open>Valid tasks\<close>

text \<open>Strings the encoder writes as they are.\<close>

definition bare :: "char \<Rightarrow> bool" where
  "bare c = (32 \<le> code c \<and> code c < 127 \<and> code c \<notin> {34, 38, 60, 62, 92})"

lemma bare_plain: "bare c \<Longrightarrow> plain c \<and> code c < 128 \<and> c \<notin> set ''<>&'' \<and> c \<noteq> quote_char \<and> c \<noteq> backslash"
  by (auto simp: bare_def plain_def quote_char_def backslash_def)

lemma quote_body_bare: "list_all bare s \<Longrightarrow> quote_body s = s"
proof (induction s)
  case Nil
  then show ?case by (subst quote_body.simps) simp
next
  case (Cons c s)
  then have c: "bare c" by simp
  then have "32 \<le> code c" "code c < 128" "c \<noteq> quote_char" "c \<noteq> backslash" "c \<notin> set ''<>&''"
    using bare_plain [OF c] by (simp_all add: bare_def)
  then have "quote_step (c # s) = ([c], 1)" by (simp add: quote_step_def escape_ascii_def Let_def)
  then show ?case using Cons by (subst quote_body.simps) simp
qed

lemma bare_ascii: "list_all bare s \<Longrightarrow> utf8_valid s"
  by (rule utf8_valid_ascii) (auto simp: list_all_iff bare_def)

lemma bareI [intro]: "48 \<le> code c \<and> code c \<le> 57 \<Longrightarrow> bare c" "65 \<le> code c \<and> code c \<le> 90 \<Longrightarrow> bare c"
  "97 \<le> code c \<and> code c \<le> 122 \<Longrightarrow> bare c"
  by (auto simp: bare_def)

lemma bare_marks [simp]: "bare (CHR ''-'')" "bare (CHR '':'')" "bare (CHR ''_'')"
  by code_simp+

lemma bare_hex: "hex_char c \<Longrightarrow> bare c"
  by (auto simp: hex_char_def)

lemma bare_uuid:
  assumes "uuid_documented L" "valid_uuid L s"
  shows "list_all bare s"
proof -
  have u: "uuid_form s" using assms by (auto simp: valid_uuid_def uuid_documented_def)
  then have "length s = 36" by (simp add: uuid_form_def)
  moreover have "bare (s ! i)" if "i < 36" for i
  proof -
    have "i \<in> set [0..<36]" using that by simp
    then have "if i \<in> {8, 13, 18, 23} then s ! i = CHR ''-'' else hex_char (s ! i)"
      using u unfolding uuid_form_def by blast
    then show ?thesis using bare_hex bare_marks(1) by (metis (full_types))
  qed
  ultimately show ?thesis by (simp add: list_all_length)
qed

lemma bare_id:
  assumes "uuid_documented L" "valid_id L s p" "bare p"
  shows "list_all bare s"
proof -
  have "s = p # tl s" using valid_id_prefix [OF assms(2)] .
  moreover have "list_all bare (tl s)" using bare_uuid [OF assms(1)] assms(2) by (simp add: valid_id_def)
  ultimately show ?thesis using assms(3) by (metis list.pred_inject(2))
qed

lemma bare_prefixes [simp]: "bare (CHR ''U'')" "bare (CHR ''M'')" "bare (CHR ''S'')" "bare (CHR ''G'')"
  by code_simp+

lemma bare_instance: "valid_instance s \<Longrightarrow> list_all bare s"
  by (auto simp: valid_instance_def list_all_iff instance_char_def)

lemma bare_token:
  assumes "canonical n s"
  shows "list_all bare s"
proof -
  have "list_all bare b64_alphabet" by code_simp
  then show ?thesis using canonical_alphabet [OF assms] by (auto simp: list_all_iff)
qed

lemma bare_format_nat: "list_all bare (format_nat n)"
  using format_nat_digits [of n] by (auto simp: list_all_iff)

lemma bare_format_int: "list_all bare (format_int i)"
  using bare_format_nat by (simp add: format_int_def)

lemma length_format_nat: "n < 10 ^ k \<Longrightarrow> 0 < k \<Longrightarrow> length (format_nat n) \<le> k"
proof (induction k arbitrary: n)
  case 0
  then show ?case by simp
next
  case (Suc k)
  show ?case
  proof (cases "n < 10")
    case True
    then show ?thesis by (simp add: format_nat.simps [of n])
  next
    case False
    then have "0 < k" using Suc.prems by (cases k) auto
    moreover have "n div 10 < 10 ^ k" using Suc.prems by (simp add: less_mult_imp_div_less)
    ultimately show ?thesis using Suc.IH [of "n div 10"] False by (subst format_nat.simps) simp
  qed
qed

lemma length_quote_step: "s \<noteq> [] \<Longrightarrow> length (fst (quote_step s)) \<le> 6 * max 1 (snd (quote_step s))"
  by (auto simp: quote_step_def escape_ascii_def Let_def)

lemma snd_quote_step_le: "s \<noteq> [] \<Longrightarrow> max 1 (snd (quote_step s)) \<le> length s"
proof -
  assume s: "s \<noteq> []"
  have "rune_width (map code s) \<le> length s" if "\<not> code (hd s) < 128" "0 < rune_width (map code s)"
    using rune_width_high(1) [of "map code s" "rune_width (map code s)"] that s by (simp add: hd_map)
  moreover have "1 \<le> length s" using s by (simp add: Suc_le_eq)
  ultimately show ?thesis by (auto simp: quote_step_def Let_def max_def)
qed

lemma length_quote_body: "length (quote_body s) \<le> 6 * length s"
proof (induction s rule: quote_body.induct)
  case (1 s)
  show ?case
  proof (cases "s = []")
    case True
    then show ?thesis by (subst quote_body.simps) simp
  next
    case False
    let ?n = "max 1 (snd (quote_step s))"
    have "length (quote_body (drop ?n s)) \<le> 6 * (length s - ?n)" using 1 [OF False] by simp
    moreover have "length (fst (quote_step s)) \<le> 6 * ?n" "?n \<le> length s"
      using length_quote_step [OF False] snd_quote_step_le [OF False] by auto
    moreover have "length (quote_body s) = length (fst (quote_step s)) + length (quote_body (drop ?n s))"
      using False by (subst quote_body.simps) simp
    ultimately show ?thesis by linarith
  qed
qed

lemma civil_year_range:
  assumes "0 \<le> n" "n \<le> 3652058" "civil n = (y, m, d)"
  shows "1 \<le> y \<and> y \<le> 9999"
proof -
  let ?i = "year_index n"
  have y: "y = ?i + 1" using assms(3) by (simp add: civil_def Let_def split: prod.splits)
  have b: "year_start ?i \<le> n" "n < year_start (?i + 1)" "146097 * ?i - 700 \<le> 400 * year_start ?i"
    "400 * year_start (?i + 1) \<le> 146097 * (?i + 1) + 400"
    using year_index_bounds [of n] year_start_bounds [of ?i] year_start_bounds [of "?i + 1"] by auto
  have "?i \<noteq> - 1"
  proof
    assume "?i = - 1"
    then have "n < 0" using b(2) by (simp add: year_start_def)
    then show False using assms(1) by simp
  qed
  moreover have "0 < 400 * year_start (?i + 1)" using b(2) assms(1) by simp
  then have "0 < 146097 * (?i + 1) + 400" using b(4) by simp
  then have "- 1 \<le> ?i" by simp
  moreover have "?i \<le> 9998" using b assms(2) by linarith
  ultimately show ?thesis using y by linarith
qed

lemma bare_digit: "bare (digit_char (n mod 10))"
  using code_digit_char [of "n mod 10"] by (intro bareI(1)) simp

lemma bare_pad2: "n < 100 \<Longrightarrow> list_all bare (pad2 n)"
  using bare_digit [of "n div 10"] bare_digit [of n] by (simp add: pad2_def less_mult_imp_div_less)

lemma format_time_text:
  assumes c: "civil (ns div ns_per_s div 86400 + epoch_day) = (y, m, d)" and y: "0 \<le> y" "y \<le> 9999"
  shows "\<exists>s. format_time ns = Some s \<and> length s \<le> 64 \<and> list_all bare s"
proof -
  have f: "length (format_fraction n) \<le> 10" for n
  proof -
    have "length (strip_zeros (pad 9 n)) \<le> length (pad 9 n)"
      unfolding strip_zeros_def length_rev by (metis length_dropWhile_le length_rev)
    then show ?thesis by (simp add: format_fraction_def)
  qed
  have marks: "bare (CHR ''.'')" "bare (CHR ''T'')" "bare (CHR ''Z'')" by code_simp+
  have pads: "list_all bare (pad k n)" for k n by (induction k arbitrary: n) (simp_all add: bare_digit)
  have "set (strip_zeros s) \<subseteq> set s" for s unfolding strip_zeros_def by (auto dest: set_dropWhileD)
  then have "list_all bare (format_fraction n)" for n
    using pads [of 9 n] marks by (fastforce simp: format_fraction_def list_all_iff)
  moreover have p4: "list_all bare (pad4 n)" if "n < 10000" for n
    using bare_pad2 [of "n div 100"] bare_pad2 [of "n mod 100"] that by (simp add: pad4_def less_mult_imp_div_less)
  define sod where "sod = nat (ns div ns_per_s mod 86400)"
  have "sod < 86400" by (simp add: sod_def nat_less_iff)
  then have b: "sod div 3600 < 100" "sod div 60 mod 60 < 100" "sod mod 60 < 100"
    by (simp_all add: less_mult_imp_div_less less_trans [OF mod_less_divisor])
  note cs = civil_sound [OF c]
  then have "m - 1 < 12" by auto
  then have md: "m < 100" "d < 100" using cs month_days_le [of "m - 1" "leap y"] by linarith+
  have "nat y < 10000" using y by simp
  with b md have "list_all bare (pad4 (nat y))" "list_all bare (pad2 m)" "list_all bare (pad2 d)"
    "list_all bare (pad2 (sod div 3600))" "list_all bare (pad2 (sod div 60 mod 60))" "list_all bare (pad2 (sod mod 60))"
    using bare_pad2 p4 by blast+
  moreover have "length (pad2 n) = 2" "length (pad4 n) = 4" for n by (simp_all add: pad2_def pad4_def)
  ultimately show ?thesis
    using y c f [of "nat (ns mod ns_per_s)"] marks unfolding sod_def by (simp add: format_time_def Let_def)
qed

lemma format_time_total:
  assumes "ts_documented L" "ts_check L (ts_new ns)"
  obtains s where "format_time ns = Some s" "length s \<le> 64" "list_all bare s"
proof -
  have r: "- 62135596800 \<le> ns div ns_per_s" "ns div ns_per_s \<le> 253402300799"
    using assms by (auto simp: ts_documented_def ts_new_def)
  obtain y m d where c: "civil (ns div ns_per_s div 86400 + epoch_day) = (y, m, d)"
    by (cases "civil (ns div ns_per_s div 86400 + epoch_day)")
  have "0 \<le> ns div ns_per_s div 86400 + epoch_day" "ns div ns_per_s div 86400 + epoch_day \<le> 3652058"
    using r by (simp_all add: epoch_day_def)
  from civil_year_range [OF this c] format_time_text [OF c] show thesis using that by auto
qed

lemma format_time_bare: "format_time ns = Some s \<Longrightarrow> list_all bare s"
proof -
  assume s: "format_time ns = Some s"
  obtain y m d where c: "civil (ns div ns_per_s div 86400 + epoch_day) = (y, m, d)"
    by (cases "civil (ns div ns_per_s div 86400 + epoch_day)")
  then have "0 \<le> y" "y \<le> 9999" using s by (auto simp: format_time_def Let_def split: if_splits)
  from format_time_text [OF c this] s show ?thesis by simp
qed

lemma format_gotime_bare: "format_gotime t = Some s \<Longrightarrow> list_all bare s"
proof -
  assume s: "format_gotime t = Some s"
  have k: "bare (CHR ''+'')" "bare (CHR ''-'')" "bare (CHR '':'')" by code_simp+
  have b: "list_all bare (butlast x)" if "list_all bare x" for x
    using that by (auto simp: list_all_iff dest: in_set_butlastD)
  have z: "list_all bare (pad2 (n mod 60))" for n by (rule bare_pad2) (rule less_trans [OF mod_less_divisor], simp_all)
  show ?thesis using s k b z bare_pad2 by (auto simp: format_gotime_def Let_def dest!: format_time_bare split: if_splits option.splits)
qed

definition valid_task :: "lib \<Rightarrow> push_task \<Rightarrow> bool" where
  "valid_task L t =
     (task_core L t \<and> task_small t \<and> (pt_request t = [] \<or> printable (pt_request t) 128) \<and>
      (pt_pending t = None \<and> pt_run t = [] \<or>
       nil_list (pt_pending t) \<noteq> [] \<and> printable (pt_run t) 128))"

section \<open>Reading back what the encoder wrote\<close>

lemma neutral_bare: "list_all bare s \<Longrightarrow> neutral s"
  by (rule neutral_text) (auto simp: list_all_iff text_char_def dest: bare_plain)

lemma lexes_bare: "list_all bare s \<Longrightarrow> lexes s"
  using lexes_plain [of s "[]"] by (simp add: list_all_iff bare_plain)

lemma unquote_bare: "list_all bare s \<Longrightarrow> unquote s = s"
  by (rule unquote_ascii) (auto simp: list_all_iff dest: bare_plain)

lemma keys_bare:
  "list_all (list_all bare) (required_task @ required_message @
     [''request_id'', ''pending_recipients'', ''replay_run_id'', ''user_id'', ''instance_id'', ''connection_id'', ''route_token''])"
  by code_simp

lemma keys_lower:
  "list_all lower_key (required_task @ required_message @
     [''request_id'', ''pending_recipients'', ''replay_run_id'', ''user_id'', ''instance_id'', ''connection_id'', ''route_token''])"
  by code_simp

lemma keys_unquote [simp]:
  "k \<in> set (required_task @ required_message @
     [''request_id'', ''pending_recipients'', ''replay_run_id'', ''user_id'', ''instance_id'', ''connection_id'', ''route_token'']) \<Longrightarrow>
   unquote k = k \<and> lexes k \<and> neutral k \<and> lower_key k"
  using keys_bare keys_lower unfolding list_all_iff by (meson lexes_bare list_all_iff neutral_bare unquote_bare)

lemma decode_text [simp]: "utf8_valid s \<Longrightarrow> decode_string (json_string s) old = Some s"
  by (simp add: decode_string_def json_string_def unquote_quote_body)

lemma decode_number [simp]: "n < 2 ^ bits \<Longrightarrow> decode_uint bits (number_json n) old = Some n"
  by (simp add: decode_uint_def number_json_def parse_uint_format)

lemma decode_texts: "list_all utf8_valid xs \<Longrightarrow> decode_elems decode_string [] (map json_string xs) [] = Some xs"
  by (induction xs) simp_all

lemma find_fieldI: "map_of fs k = Some f \<Longrightarrow> find_field fs k = Some f"
  by (simp add: find_field_def)


lemma decode_step:
  assumes "unquote k = k" and "map_of fs k = Some f" and "f v r = Some r'"
  shows "decode_members fs ((k, v) # ms) r = decode_members fs ms r'"
  using assms by (simp add: find_fieldI)

definition conn_text :: "conn_id \<Rightarrow> bool" where
  "conn_text c = (utf8_valid (cn_user c) \<and> utf8_valid (cn_instance c) \<and> utf8_valid (cn_connection c) \<and> utf8_valid (cn_token c))"

lemma conn_keys: "unquote ''user_id'' = ''user_id''" "unquote ''instance_id'' = ''instance_id''"
  "unquote ''connection_id'' = ''connection_id''" "unquote ''route_token'' = ''route_token''"
  by (simp_all add: unquote_bare keys_bare [unfolded list_all_iff])


definition key_ok :: "string \<Rightarrow> bool" where
  "key_ok k = (unquote k = k \<and> lexes k \<and> neutral k \<and> lower_key k)"

lemma key_okI: "list_all bare k \<Longrightarrow> lower_key k \<Longrightarrow> key_ok k"
  by (simp add: key_ok_def unquote_bare lexes_bare neutral_bare)

lemma message_keys: "list_all key_ok required_message"
  unfolding list_all_iff key_ok_def by (intro ballI keys_unquote) auto

lemma task_keys: "list_all key_ok (required_task @ [''request_id'', ''pending_recipients'', ''replay_run_id''])"
  unfolding list_all_iff key_ok_def by (intro ballI keys_unquote) auto

lemma conn_keys_ok: "list_all key_ok [''user_id'', ''instance_id'', ''connection_id'', ''route_token'']"
  unfolding list_all_iff key_ok_def by (intro ballI keys_unquote) auto

lemma decode_conn: "conn_text c \<Longrightarrow> decode_struct conn_fields (conn_json c) zero_conn = Some c"
  unfolding conn_text_def
  by (simp add: decode_struct_def conn_json_def conn_keys find_field_def conn_fields_def zero_conn_def)

lemma decode_conns:
  "list_all conn_text hs \<Longrightarrow> decode_elems (decode_struct conn_fields) zero_conn (map conn_json hs) [] = Some hs"
  by (induction hs) (simp_all add: decode_conn)

definition message_text :: "im_message \<Rightarrow> bool" where
  "message_text m =
     (utf8_valid (im_id m) \<and> utf8_valid (im_conversation m) \<and> utf8_valid (im_session m) \<and> utf8_valid (im_send m) \<and>
      utf8_valid (im_receive m) \<and> utf8_valid (im_receive_type m) \<and> utf8_valid (im_type m) \<and> utf8_valid (im_content m) \<and>
      utf8_valid (im_origin m) \<and> utf8_valid (im_position m) \<and> t_off (im_created m) = 0)"

lemma decode_message:
  assumes "message_json m = Some v" and "message_text m"
  shows "decode_struct message_fields v zero_message = Some m"
proof -
  obtain s where s: "format_gotime (im_created m) = Some s" using assms(1) by (auto simp: message_json_def split: option.splits)
  have t: "decode_time (JStr s) old = Some (im_created m)" for old
    using parse_format_time s assms(2) by (cases "im_created m") (auto simp: decode_time_def message_text_def format_gotime_utc)
  show ?thesis
    using assms s t message_keys unfolding message_text_def key_ok_def
    by (auto simp: message_json_def decode_struct_def find_field_def message_fields_def zero_message_def required_message_def)
qed


lemma decode_struct_JObj [simp]: "decode_struct fs (JObj ms) r = decode_members fs ms r"
  by (simp add: decode_struct_def)

definition task_text :: "push_task \<Rightarrow> bool" where
  "task_text t =
     (utf8_valid (pt_kind t) \<and> utf8_valid (pt_task_id t) \<and> message_text (pt_message t) \<and>
      list_all utf8_valid (pt_recipients t) \<and> list_all conn_text (the (pt_targets t)) \<and>
      utf8_valid (pt_request t) \<and> list_all utf8_valid (nil_list (pt_pending t)) \<and> utf8_valid (pt_run t))"

lemma task_find:
  "find_field task_fields ''schema_version'' = Some (\<lambda>v t. map_option (\<lambda>n. t\<lparr>pt_version := n\<rparr>) (decode_uint 32 v (pt_version t)))"
  "find_field task_fields ''kind'' = Some (\<lambda>v t. map_option (\<lambda>s. t\<lparr>pt_kind := s\<rparr>) (decode_string v (pt_kind t)))"
  "find_field task_fields ''task_id'' = Some (\<lambda>v t. map_option (\<lambda>s. t\<lparr>pt_task_id := s\<rparr>) (decode_string v (pt_task_id t)))"
  "find_field task_fields ''message'' = Some (\<lambda>v t. map_option (\<lambda>m. t\<lparr>pt_message := m\<rparr>) (decode_struct message_fields v (pt_message t)))"
  "find_field task_fields ''recipients'' =
     Some (\<lambda>v t. map_option (\<lambda>r. t\<lparr>pt_recipients := nil_list r\<rparr>) (decode_slice decode_string [] v (Some (pt_recipients t))))"
  "find_field task_fields ''targets'' =
     Some (\<lambda>v t. map_option (\<lambda>r. t\<lparr>pt_targets := r\<rparr>) (decode_slice (decode_struct conn_fields) zero_conn v (pt_targets t)))"
  "find_field task_fields ''chunk_index'' = Some (\<lambda>v t. map_option (\<lambda>n. t\<lparr>pt_index := n\<rparr>) (decode_uint 32 v (pt_index t)))"
  "find_field task_fields ''chunk_count'' = Some (\<lambda>v t. map_option (\<lambda>n. t\<lparr>pt_count := n\<rparr>) (decode_uint 32 v (pt_count t)))"
  "find_field task_fields ''request_id'' = Some (\<lambda>v t. map_option (\<lambda>s. t\<lparr>pt_request := s\<rparr>) (decode_string v (pt_request t)))"
  "find_field task_fields ''pending_recipients'' =
     Some (\<lambda>v t. map_option (\<lambda>r. t\<lparr>pt_pending := r\<rparr>) (decode_slice decode_string [] v (pt_pending t)))"
  "find_field task_fields ''replay_run_id'' = Some (\<lambda>v t. map_option (\<lambda>s. t\<lparr>pt_run := s\<rparr>) (decode_string v (pt_run t)))"
  by (simp_all add: find_field_def task_fields_def)

lemma decode_members_append:
  "decode_members fs (xs @ ys) r = (case decode_members fs xs r of None \<Rightarrow> None | Some r' \<Rightarrow> decode_members fs ys r')"
  by (induction fs xs r rule: decode_members.induct) (auto split: option.splits)

lemma key_ok_unquote: "key_ok k \<Longrightarrow> unquote k = k"
  by (simp add: key_ok_def)

lemma task_key_oks:
  "key_ok ''schema_version''" "key_ok ''kind''" "key_ok ''task_id''" "key_ok ''message''" "key_ok ''recipients''" "key_ok ''targets''"
  "key_ok ''chunk_index''" "key_ok ''chunk_count''" "key_ok ''request_id''" "key_ok ''pending_recipients''" "key_ok ''replay_run_id''"
  using task_keys by (simp_all add: required_task_def)

lemmas task_key_names = task_key_oks [THEN key_ok_unquote]

lemma decode_task_json:
  assumes "task_json t = Some v" and "task_text t" and "task_small t" and "pt_version t = 1" and "pt_targets t \<noteq> None"
    and "pt_pending t = None \<or> nil_list (pt_pending t) \<noteq> []"
  shows "decode_struct task_fields v zero_task = Some t"
proof -
  obtain mj where mj: "message_json (pt_message t) = Some mj" using assms(1) by (auto simp: task_json_def split: option.splits)
  obtain hs where hs: "pt_targets t = Some hs" using assms(5) by blast
  have m: "decode_struct message_fields mj zero_message = Some (pt_message t)"
    using decode_message [OF mj] assms(2) by (simp add: task_text_def)
  have r: "decode_slice decode_string [] (JArr (map json_string xs)) old = Some (Some xs)"
    if "list_all utf8_valid xs" "nil_list old = []" for xs old
    using that by (cases old) (simp_all add: decode_slice_def decode_texts nil_list_def)
  have h: "decode_slice (decode_struct conn_fields) zero_conn (JArr (map conn_json hs)) None = Some (Some hs)"
    using assms(2) hs by (simp add: decode_slice_def decode_conns task_text_def)
  let ?base = "[(''schema_version'', number_json (pt_version t)), (''kind'', json_string (pt_kind t)),
            (''task_id'', json_string (pt_task_id t)), (''message'', mj),
            (''recipients'', JArr (map json_string (pt_recipients t))), (''targets'', JArr (map conn_json hs)),
            (''chunk_index'', number_json (pt_index t)), (''chunk_count'', number_json (pt_count t))]"
  let ?req = "if pt_request t = [] then [] else [(''request_id'', json_string (pt_request t))]"
  let ?pend = "if nil_list (pt_pending t) = [] then []
            else [(''pending_recipients'', JArr (map json_string (nil_list (pt_pending t))))]"
  let ?run = "if pt_run t = [] then [] else [(''replay_run_id'', json_string (pt_run t))]"
  have v: "v = JObj (?base @ ?req @ ?pend @ ?run)"
    using assms(1) mj hs by (simp add: task_json_def)
  let ?t = "t\<lparr>pt_request := [], pt_pending := None, pt_run := []\<rparr>"
  have e: "nil_list (Some xs) = xs" "nil_list None = []" for xs :: "string list" by (simp_all add: nil_list_def)
  have "decode_members task_fields ?base zero_task = Some ?t"
    using assms(2-4) hs m h by (simp add: task_find task_key_names task_text_def task_small_def zero_task_def r e)
  moreover have "decode_members task_fields ?req ?t = Some (t\<lparr>pt_pending := None, pt_run := []\<rparr>)"
    using assms(2) by (simp add: task_find task_key_names task_text_def)
  moreover have "pt_pending t = (if nil_list (pt_pending t) = [] then None else Some (nil_list (pt_pending t)))"
    using assms(6) by (auto simp: nil_list_def split: option.splits)
  then have "decode_members task_fields ?pend (t\<lparr>pt_pending := None, pt_run := []\<rparr>) = Some (t\<lparr>pt_run := []\<rparr>)"
    using assms(2) by (cases "nil_list (pt_pending t) = []") (simp_all add: task_find task_key_names task_text_def r e)
  moreover have "decode_members task_fields ?run (t\<lparr>pt_run := []\<rparr>) = Some t"
    using assms(2) by (simp add: task_find task_key_names task_text_def)
  ultimately show ?thesis unfolding v by (simp only: decode_struct_JObj decode_members_append option.simps)
qed

lemma json_string_ok [simp]: "tree_ok d (json_string s)" "tree_neutral (json_string s)"
  "check_json d (json_string s) \<longleftrightarrow> d \<le> 16"
  by (simp_all add: json_string_def quote_body_lexes quote_body_neutral)

lemma number_json_ok [simp]: "tree_ok d (number_json n)" "tree_neutral (number_json n)"
  "check_json d (number_json n) \<longleftrightarrow> d \<le> 16"
  by (auto simp: number_json_def)

text \<open>An object with clean, distinct keys and good members passes all three checks of the tree.\<close>

definition good :: "nat \<Rightarrow> json \<Rightarrow> bool" where
  "good d v = (tree_ok d v \<and> tree_neutral v \<and> check_json d v)"

lemma good_text [simp]: "d \<le> 16 \<Longrightarrow> good d (json_string s)" "d \<le> 16 \<Longrightarrow> good d (number_json n)"
  by (simp_all add: good_def)

lemma good_arr: "d \<le> 16 \<Longrightarrow> list_all (good (Suc d)) vs \<Longrightarrow> good d (JArr vs)"
  by (auto simp: good_def max_nesting_def list_all_iff)

lemma good_obj:
  assumes "d \<le> 16" "distinct (map fst ms)" "list_all (\<lambda>(k, v). key_ok k \<and> good (Suc d) v) ms"
  shows "good d (JObj ms)"
proof -
  have "map (\<lambda>(k, v). unquote k) ms = map fst ms"
    using assms(3) by (auto simp: list_all_iff key_ok_def)
  then have "distinct (map (\<lambda>(k, v). unquote k) ms)" using assms(2) by (simp only:)
  then show ?thesis using assms by (auto simp: good_def max_nesting_def list_all_iff key_ok_def)
qed

lemma good_conn: "d < 16 \<Longrightarrow> good d (conn_json c)"
  using conn_keys_ok unfolding conn_json_def by (intro good_obj) simp_all

lemma good_message:
  assumes "message_json m = Some v" "list_all bare (the (format_gotime (im_created m)))" "d \<le> 15"
  shows "good d v"
proof -
  obtain s where s: "format_gotime (im_created m) = Some s" using assms(1) by (auto simp: message_json_def split: option.splits)
  have "good (Suc d) (JStr s)" using assms(2,3) s by (simp add: good_def lexes_bare neutral_bare)
  then show ?thesis using assms(1,3) s message_keys
    by (auto simp: message_json_def required_message_def intro!: good_obj)
qed

lemma good_task:
  assumes "task_json t = Some v" "list_all bare (the (format_gotime (im_created (pt_message t))))"
    and "pt_targets t = Some hs" and "d \<le> 13"
  shows "good d v"
proof -
  obtain mj where mj: "message_json (pt_message t) = Some mj" using assms(1) by (auto simp: task_json_def split: option.splits)
  have "good (Suc d) (JArr (map json_string xs))" for xs using assms(4) by (intro good_arr) (auto simp: list_all_iff)
  moreover have "good (Suc d) (JArr (map conn_json hs))" using assms(4) by (intro good_arr) (auto simp: list_all_iff good_conn)
  moreover have "good (Suc d) mj" using assms(4) by (intro good_message [OF mj assms(2)]) simp
  ultimately show ?thesis using assms(1,3,4) mj task_keys
    by (auto simp: task_json_def required_task_def intro!: good_obj split: if_splits)
qed

lemma member_eq:
  assumes "list_all (\<lambda>(k, v). unquote k = k) ms"
  shows "member k (JObj ms) = map_of ms k"
proof -
  have "map (\<lambda>(k, v). (unquote k, v)) ms = ms" using assms by (induction ms) auto
  then show ?thesis by (simp add: member_def)
qed


lemma message_members:
  assumes "message_json m = Some v"
  shows "required_object v required_message"
proof -
  obtain s where s: "format_gotime (im_created m) = Some s" using assms by (auto simp: message_json_def split: option.splits)
  show ?thesis using assms s message_keys
    by (auto simp: message_json_def required_object_def required_message_def member_eq key_ok_def json_string_def)
qed

lemma task_members:
  assumes "task_json t = Some v" and "pt_targets t \<noteq> None"
  shows "required_object v required_task" and "member ''message'' v = message_json (pt_message t)"
    and "member ''request_id'' v = (if pt_request t = [] then None else Some (json_string (pt_request t)))"
    and "member ''pending_recipients'' v \<noteq> None \<longleftrightarrow> nil_list (pt_pending t) \<noteq> []"
    and "member ''replay_run_id'' v \<noteq> None \<longleftrightarrow> pt_run t \<noteq> []"
proof -
  obtain mj where mj: "message_json (pt_message t) = Some mj" "mj \<noteq> JNull"
    using assms(1) by (auto simp: task_json_def message_json_def split: option.splits)
  obtain hs where hs: "pt_targets t = Some hs" using assms(2) by blast
  let ?ms = "[(''schema_version'', number_json (pt_version t)), (''kind'', json_string (pt_kind t)),
            (''task_id'', json_string (pt_task_id t)), (''message'', mj),
            (''recipients'', JArr (map json_string (pt_recipients t))), (''targets'', JArr (map conn_json hs)),
            (''chunk_index'', number_json (pt_index t)), (''chunk_count'', number_json (pt_count t))] @
           (if pt_request t = [] then [] else [(''request_id'', json_string (pt_request t))]) @
           (if nil_list (pt_pending t) = [] then []
            else [(''pending_recipients'', JArr (map json_string (nil_list (pt_pending t))))]) @
           (if pt_run t = [] then [] else [(''replay_run_id'', json_string (pt_run t))])"
  have v: "v = JObj ?ms" using assms(1) mj hs by (simp add: task_json_def)
  have "list_all (\<lambda>(k, v). unquote k = k) ?ms" using task_keys by (simp add: key_ok_def required_task_def)
  then have m: "member k v = map_of ?ms k" for k unfolding v by (rule member_eq)
  have n: "json_string s \<noteq> JNull" "number_json n \<noteq> JNull" for s n by (simp_all add: json_string_def number_json_def)
  show "required_object v required_task"
    unfolding required_object_def m using mj(2) n by (simp add: v required_task_def)
  show "member ''message'' v = message_json (pt_message t)"
    and "member ''request_id'' v = (if pt_request t = [] then None else Some (json_string (pt_request t)))"
    and "member ''pending_recipients'' v \<noteq> None \<longleftrightarrow> nil_list (pt_pending t) \<noteq> []"
    and "member ''replay_run_id'' v \<noteq> None \<longleftrightarrow> pt_run t \<noteq> []"
    unfolding m using mj by simp_all
qed

lemma check_valid_task:
  assumes "task_json t = Some v" and "valid_task L t"
  shows "check_task L v t"
proof -
  have c: "task_core L t" "pt_request t = [] \<or> printable (pt_request t) 128"
    and p: "pt_pending t = None \<and> pt_run t = [] \<or> nil_list (pt_pending t) \<noteq> [] \<and> printable (pt_run t) 128"
    using assms(2) by (auto simp: valid_task_def)
  have tg: "pt_targets t \<noteq> None" using c(1) by (simp add: task_core_def)
  note m = task_members [OF assms(1) tg]
  obtain mj where mj: "message_json (pt_message t) = Some mj"
    using assms(1) by (auto simp: task_json_def split: option.splits)
  have run: "printable r 128 \<Longrightarrow> r \<noteq> []" for r by (auto simp: printable_def)
  have "check_replay v t"
    using p c(1) m(4,5) run by (auto simp: check_replay_def Let_def task_core_def nil_list_def)
  moreover have "required_object (the (member ''message'' v)) required_message"
    using message_members [OF mj] m(2) mj by simp
  moreover have "json_string s \<noteq> JNull" for s by (simp add: json_string_def)
  ultimately show ?thesis using c m(1,3) by (auto simp: check_task_def task_core_def)
qed

section \<open>Every valid task is read back\<close>

lemma message_view_text:
  assumes "message_view_of L m = Some view" "uuid_documented L"
  obtains "list_all bare (im_id m)" "length (im_id m) = 37" "list_all bare (im_conversation m)" "length (im_conversation m) \<le> 44"
    "list_all bare (im_session m)" "length (im_session m) = 37" "list_all bare (im_send m)" "length (im_send m) = 37"
    "list_all bare (im_receive m)" "length (im_receive m) = 37" "list_all bare (im_receive_type m)" "length (im_receive_type m) \<le> 5"
    "im_type m = ''text''" "utf8_valid (im_content m)" "length (im_content m) \<le> max_content"
    "list_all bare (im_origin m)" "length (im_origin m) \<le> 4" "list_all bare (im_position m)" "length (im_position m) \<le> 19"
    "t_off (im_created m) = 0" "ts_check L (ts_new (t_ns (im_created m)))"
proof -
  note bid = bare_id [OF assms(2)]
  have i: "valid_id L (im_id m) (CHR ''M'')" "valid_id L (im_send m) (CHR ''U'')" "im_type m = ''text''" "valid_text (im_content m)"
    "im_origin m = ''user'' \<or> im_origin m = ''ai''" "t_off (im_created m) = 0" "ts_check L (ts_new (t_ns (im_created m)))"
    using assms(1) by (auto simp: message_view_of_def Let_def split: if_splits)
  have "\<exists>p. parse_int64 (im_position m) = Some p \<and> 0 < p \<and> im_position m = format_int p"
    using assms(1) by (cases "parse_int64 (im_position m)") (auto simp: message_view_of_def Let_def split: if_splits)
  then obtain p where p: "parse_int64 (im_position m) = Some p" "0 < p" "im_position m = format_int p" by blast
  have r: "im_receive_type m = ''user'' \<and> valid_id L (im_session m) (CHR ''S'') \<and> valid_id L (im_receive m) (CHR ''U'') \<and>
        im_conversation m = ''direct:'' @ im_session m \<or>
      im_receive_type m = ''group'' \<and> valid_id L (im_session m) (CHR ''G'') \<and> im_session m = im_receive m \<and>
        im_conversation m = ''group:'' @ im_session m"
    using assms(1) by (auto simp: message_view_of_def Let_def split: if_splits)
  have len: "length s = 37" if "valid_id L s c" for s c using that by (simp add: valid_id_def)
  have k: "list_all bare ''direct:''" "list_all bare ''group:''" "list_all bare ''user''" "list_all bare ''group''" "list_all bare ''ai''"
    by code_simp+
  have pos: "p < 10 ^ 19"
    using p(1) by (auto simp: parse_int64_def split: list.splits option.splits if_splits)
  then have "length (format_nat (nat p)) \<le> 19" using p(2) by (intro length_format_nat) (simp_all add: nat_less_iff)
  then have "length (im_position m) \<le> 19" "list_all bare (im_position m)"
    using p(2,3) bare_format_nat by (simp_all add: format_int_def)
  moreover have "list_all bare (im_session m) \<and> list_all bare (im_receive m)" using r bid by auto
  moreover have "list_all bare (im_conversation m) \<and> length (im_conversation m) \<le> 44"
    using r bid k len by auto
  moreover have "list_all bare (im_receive_type m) \<and> length (im_receive_type m) \<le> 5" using r k by auto
  moreover have "list_all bare (im_origin m) \<and> length (im_origin m) \<le> 4" using i(5) k by auto
  moreover have "length (im_session m) = 37 \<and> length (im_receive m) = 37" using r len by auto
  ultimately show thesis using that i bid len by (simp add: valid_text_def)
qed

lemma conn_bare:
  assumes "uuid_documented L" "valid_connection L (Some c)"
  shows "list_all bare (cn_user c)" "list_all bare (cn_instance c)" "list_all bare (cn_connection c)" "list_all bare (cn_token c)"
    and "length (cn_user c) = 37" "length (cn_instance c) \<le> 64" "length (cn_connection c) = 36" "length (cn_token c) \<le> 128"
  using assms bare_id bare_uuid bare_instance bare_token
  by (auto simp: valid_connection_def valid_id_def valid_uuid_def valid_instance_def)

lemma printable_ascii: "printable s n \<Longrightarrow> utf8_valid s \<and> length s \<le> n"
  by (fastforce simp: printable_def all_bytes_def list_all_iff intro!: utf8_valid_ascii)

lemma length_members: "length (json_print (JObj ms)) \<le> 2 + sum_list (map (\<lambda>(k, v). length k + 4 + length (json_print v)) ms)"
proof (cases "ms = []")
  case False
  have "(\<Sum>m\<leftarrow>ms. Suc (length (member_text m))) = (\<Sum>(k, v)\<leftarrow>ms. length k + 4 + length (json_print v))"
    by (rule arg_cong [of _ _ sum_list], rule map_cong) auto
  then show ?thesis using False length_join_comma [of "map member_text ms"] by (simp add: comp_def)
qed simp

lemma length_format_int: "0 \<le> n \<Longrightarrow> n < 2 ^ 63 \<Longrightarrow> length (format_int n) \<le> 19"
  using length_format_nat [of "nat n" 19] by (simp add: format_int_def nat_less_iff)

lemma format_int_bare: "0 \<le> n \<Longrightarrow> list_all bare (format_int n)"
  using bare_format_nat by (simp add: format_int_def)

lemma length_elems: "list_all (\<lambda>v. length (json_print v) \<le> b) vs \<Longrightarrow> length (json_print (JArr vs)) \<le> 2 + length vs * Suc b"
proof (cases "vs = []")
  case False
  assume "list_all (\<lambda>v. length (json_print v) \<le> b) vs"
  then have "sum_list (map (\<lambda>v. Suc (length (json_print v))) vs) \<le> sum_list (map (\<lambda>_. Suc b) vs)"
    by (intro sum_list_mono) (auto simp: list_all_iff)
  then show ?thesis using False length_join_comma [of "map json_print vs"] by (simp add: comp_def sum_list_triv)
qed simp

lemma length_bare: "list_all bare s \<Longrightarrow> length (json_print (json_string s)) = length s + 2"
  by (simp add: json_string_def quote_body_bare)

lemma length_text: "length (json_print (json_string s)) \<le> 6 * length s + 2"
  using length_quote_body [of s] by (simp add: json_string_def)

lemma length_conn:
  assumes "uuid_documented L" "valid_connection L (Some c)"
  shows "length (json_print (conn_json c)) \<le> 400"
proof -
  note b = conn_bare [OF assms]
  note l = length_bare [OF b(1)] length_bare [OF b(2)] length_bare [OF b(3)] length_bare [OF b(4)]
  show ?thesis unfolding conn_json_def using l b(5-8)
    by (intro order_trans [OF length_members]) (simp del: json_print.simps)
qed

lemma length_message:
  assumes "message_json m = Some v" "message_view_of L m = Some view" "uuid_documented L" "ts_documented L"
  shows "length (json_print v) \<le> 99500"
proof -
  from assms(2,3) show ?thesis
  proof (rule message_view_text, goal_cases)
    case h: 1
    obtain s where s: "format_gotime (im_created m) = Some s" "length s \<le> 64"
      using format_time_total [OF assms(4) h(21)] format_gotime_utc [OF h(20)] by metis
    note l = length_bare [OF h(1)] length_bare [OF h(3)] length_bare [OF h(5)] length_bare [OF h(7)] length_bare [OF h(9)]
      length_bare [OF h(11)] length_bare [OF h(16)] length_bare [OF h(18)] length_text [of "im_content m"]
    have t: "list_all bare ''text''" by code_simp
    have "length (json_print (JStr s)) \<le> 66" using s(2) by simp
    moreover have "6 * length (im_content m) + 2 \<le> 98306" using h(15) by (simp add: max_content_def)
    moreover have v: "v = JObj
          [(''message_id'', json_string (im_id m)), (''conversation_id'', json_string (im_conversation m)),
           (''session_id'', json_string (im_session m)), (''send_id'', json_string (im_send m)),
           (''receive_id'', json_string (im_receive m)), (''receive_type'', json_string (im_receive_type m)),
           (''type'', json_string ''text''), (''content'', json_string (im_content m)),
           (''origin'', json_string (im_origin m)), (''created_at'', JStr s),
           (''position'', json_string (im_position m))]"
      using assms(1) s(1) h(13) by (simp add: message_json_def)
    ultimately show ?thesis using l h(2,4,6,8,10,12,17,19) length_bare [OF t] unfolding v
      by (intro order_trans [OF length_members]) (simp del: json_print.simps)
  qed
qed


lemma valid_task_text:
  assumes "valid_task L t" "uuid_documented L"
  shows "task_text t"
proof -
  have c: "task_core L t" using assms(1) by (simp add: valid_task_def)
  obtain view where v: "message_view_of L (pt_message t) = Some view" using c by (auto simp: task_core_def)
  have m: "message_text (pt_message t)"
    using v assms(2)
  proof (rule message_view_text, goal_cases)
    case 1
    have "utf8_valid ''text''" by code_simp
    with 1 show ?case by (simp add: message_text_def bare_ascii)
  qed
  have id: "list_all bare (im_id (pt_message t))" using v assms(2) by (rule message_view_text)
  have k: "utf8_valid ''message_push''" "list_all bare ''push:v1:''" by code_simp+
  have "list_all bare (pt_task_id t)"
    using c id k(2) bare_format_nat by (simp add: task_core_def task_identity_def)
  moreover have "list_all utf8_valid (pt_recipients t)"
    using c assms(2) bare_id bare_ascii by (fastforce simp: task_core_def check_recipients_iff list_all_iff)
  moreover have "list_all conn_text (the (pt_targets t))"
    using c conn_bare [OF assms(2)] bare_ascii by (auto simp: task_core_def check_hints_iff list_all_iff conn_text_def)
  moreover have "list_all utf8_valid (nil_list (pt_pending t))"
    using c calculation(2) by (auto simp: task_core_def all_fresh_iff list_all_iff)
  moreover have "utf8_valid (pt_request t)" "utf8_valid (pt_run t)"
    using assms(1) printable_ascii by (auto simp: valid_task_def)
  moreover have "pt_kind t = ''message_push''" using c by (simp add: task_core_def task_identity_def)
  ultimately show ?thesis using m k(1) bare_ascii by (simp add: task_text_def)
qed

lemma length_ids:
  assumes "list_all (\<lambda>i. list_all bare i \<and> length i = 37) xs" "length xs \<le> 100"
  shows "length (json_print (JArr (map json_string xs))) \<le> 4002"
proof -
  have "list_all (\<lambda>v. length (json_print v) \<le> 39) (map json_string xs)"
    using assms(1) length_bare by (auto simp: list_all_iff)
  from length_elems [OF this] show ?thesis using assms(2) by (simp del: json_print.simps)
qed

lemma length_task:
  assumes "task_json t = Some v" "valid_task L t" "uuid_documented L" "ts_documented L"
  shows "length (json_print v) \<le> 200000"
proof -
  have c: "task_core L t" "task_small t" using assms(2) by (auto simp: valid_task_def)
  obtain view where view: "message_view_of L (pt_message t) = Some view" using c by (auto simp: task_core_def)
  obtain mj where mj: "message_json (pt_message t) = Some mj" using assms(1) by (auto simp: task_json_def split: option.splits)
  obtain hs where hs: "pt_targets t = Some hs" using c by (auto simp: task_core_def)
  have "list_all bare (im_id (pt_message t))" using view assms(3) by (rule message_view_text)
  moreover have "length (im_id (pt_message t)) = 37" using view assms(3) by (rule message_view_text)
  ultimately have id: "list_all bare (im_id (pt_message t))" "length (im_id (pt_message t)) = 37" by auto
  have ids: "list_all (\<lambda>i. list_all bare i \<and> length i = 37) (pt_recipients t)"
    using c assms(3) bare_id by (fastforce simp: task_core_def check_recipients_iff list_all_iff valid_id_def)
  have rs: "length (json_print (JArr (map json_string (pt_recipients t)))) \<le> 4002"
    using length_ids [OF ids] c by (simp add: task_core_def del: json_print.simps)
  have sub: "set (nil_list (pt_pending t)) \<subseteq> set (pt_recipients t)" "distinct (nil_list (pt_pending t))"
    using c by (auto simp: task_core_def all_fresh_iff)
  then have "length (nil_list (pt_pending t)) \<le> length (pt_recipients t)"
    by (metis List.finite_set card_length card_mono distinct_card le_trans)
  then have ps: "length (json_print (JArr (map json_string (nil_list (pt_pending t))))) \<le> 4002"
    using sub ids c by (intro length_ids) (auto simp: list_all_iff task_core_def)
  have h: "list_all (\<lambda>v. length (json_print v) \<le> 400) (map conn_json hs)"
    using c hs length_conn [OF assms(3)] by (auto simp: task_core_def check_hints_iff list_all_iff)
  have "distinct (map cn_user hs)" "set (map cn_user hs) \<subseteq> set (pt_recipients t)"
    using c hs by (auto simp: task_core_def check_hints_iff)
  then have "length hs \<le> length (pt_recipients t)"
    by (metis List.finite_set card_length card_mono distinct_card le_trans length_map)
  then have "length hs \<le> 100" using c by (simp add: task_core_def)
  then have hl: "length (json_print (JArr (map conn_json hs))) \<le> 40102"
    using length_elems [OF h] by (simp del: json_print.simps)
  have n: "length (json_print (number_json k)) \<le> 10" if "k < 2 ^ 32" for k
    using length_format_nat [of k 10] that by (simp add: number_json_def)
  have t32: "pt_index t < 2 ^ 32" "pt_count t < 2 ^ 32" "pt_version t = 1" "pt_kind t = ''message_push''"
    using c by (simp_all add: task_small_def task_core_def task_identity_def)
  have "length (format_nat (pt_index t)) \<le> 10" using length_format_nat [of "pt_index t" 10] t32 by simp
  moreover have "list_all bare ''push:v1:''" "list_all bare ''message_push''" by code_simp+
  ultimately have tid: "length (json_print (json_string (pt_task_id t))) \<le> 58" "length (json_print (json_string (pt_kind t))) \<le> 14"
    using c id bare_format_nat length_bare [of "pt_task_id t"] length_bare [of "pt_kind t"]
    by (simp_all add: task_core_def task_identity_def del: json_print.simps)
  have rl: "length (pt_request t) \<le> 128" "length (pt_run t) \<le> 128"
    using assms(2) by (auto simp: valid_task_def dest: printable_ascii)
  have texts: "length (json_print (json_string (pt_request t))) \<le> 770" "length (json_print (json_string (pt_run t))) \<le> 770"
    using length_text [of "pt_request t"] length_text [of "pt_run t"] rl by linarith+
  note lm = length_message [OF mj view assms(3,4)]
  have v: "v = JObj
          ([(''schema_version'', number_json 1), (''kind'', json_string (pt_kind t)),
            (''task_id'', json_string (pt_task_id t)), (''message'', mj),
            (''recipients'', JArr (map json_string (pt_recipients t))), (''targets'', JArr (map conn_json hs)),
            (''chunk_index'', number_json (pt_index t)), (''chunk_count'', number_json (pt_count t))] @
           (if pt_request t = [] then [] else [(''request_id'', json_string (pt_request t))]) @
           (if nil_list (pt_pending t) = [] then []
            else [(''pending_recipients'', JArr (map json_string (nil_list (pt_pending t))))]) @
           (if pt_run t = [] then [] else [(''replay_run_id'', json_string (pt_run t))]))"
    using assms(1) mj hs t32(3) by (simp add: task_json_def)
  show ?thesis unfolding v
    using lm rs ps hl n [of 1] n [OF t32(1)] n [OF t32(2)] tid texts
    by (intro order_trans [OF length_members]) (simp del: json_print.simps)
qed

lemma valid_task_json:
  assumes "uuid_documented L" "ts_documented L" "valid_task L t"
  obtains v where "task_json t = Some v" "good 0 v" "decode_struct task_fields v zero_task = Some t" "check_task L v t"
proof -
  have c: "task_core L t" "task_small t" using assms(3) by (auto simp: valid_task_def)
  obtain view where view: "message_view_of L (pt_message t) = Some view" using c by (auto simp: task_core_def)
  have "ts_check L (ts_new (t_ns (im_created (pt_message t))))" using view assms(1) by (rule message_view_text)
  moreover have "t_off (im_created (pt_message t)) = 0" using view assms(1) by (rule message_view_text)
  ultimately obtain s where s: "format_gotime (im_created (pt_message t)) = Some s" "list_all bare s"
    using format_time_total [OF assms(2)] format_gotime_utc by metis
  then obtain v where v: "task_json t = Some v" by (auto simp: task_json_def message_json_def)
  have tg: "pt_targets t \<noteq> None" "pt_version t = 1" using c by (auto simp: task_core_def task_identity_def)
  have g: "good 0 v" using good_task [OF v] s tg by auto
  have "pt_pending t = None \<or> nil_list (pt_pending t) \<noteq> []" using assms(3) by (auto simp: valid_task_def)
  then have "decode_struct task_fields v zero_task = Some t"
    using decode_task_json [OF v valid_task_text [OF assms(3,1)] c(2)] tg by blast
  then show thesis using that v g check_valid_task [OF v assms(3)] by blast
qed

lemma valid_task_decodes:
  assumes "uuid_documented L" "ts_documented L" "valid_task L t"
  shows "\<exists>raw. marshal_task t = Some raw \<and> decode_task L raw = Some t"
proof -
  obtain v where v: "task_json t = Some v" "good 0 v" "decode_struct task_fields v zero_task = Some t" "check_task L v t"
    using assms by (rule valid_task_json)
  then have p: "json_text (json_print v) = Some v" "utf8_valid (json_print v)" "valid_escapes (json_print v)" "check_json 0 v"
    using json_text_print neutral_checks json_print_neutral by (auto simp: good_def)
  have "length (json_print v) \<le> max_payload" using length_task [OF v(1) assms(3,1,2)] by (simp add: max_payload_def)
  then have "decode_task L (json_print v) = Some t" using p v(3,4) by (simp add: decode_task_def)
  then show ?thesis using v(1) by (auto simp: marshal_task_def)
qed

text \<open>The request id of a task is set only by a member whose name matches \<open>request_id\<close>.\<close>

lemma request_setter:
  assumes "find_field task_fields k = Some f" and "fold_name k \<noteq> fold_name ''request_id''" and "f v t = Some t'"
  shows "pt_request t' = pt_request t"
proof -
  obtain n where n: "(n, f) \<in> set task_fields" "fold_name n = fold_name k"
  proof (cases "map_of task_fields k")
    case (Some g)
    then show thesis using assms(1) that [of k] by (simp add: find_field_def map_of_SomeD)
  next
    case None
    then obtain n where "List.find (\<lambda>(n, _). fold_name n = fold_name k) task_fields = Some (n, f)"
      using assms(1) by (auto simp: find_field_def)
    then show thesis using that [of n] by (auto dest: find_SomeD)
  qed
  have "n \<noteq> ''request_id''" using n(2) assms(2) by metis
  with n(1) have "\<exists>n. (n, f) \<in> set task_fields \<and> n \<noteq> ''request_id''" by blast
  then show ?thesis using assms(3) by (auto simp: task_fields_def)
qed

lemma request_kept:
  assumes "decode_members task_fields ms t = Some t'" and "\<forall>(k, v) \<in> set ms. fold_name (unquote k) \<noteq> fold_name ''request_id''"
  shows "pt_request t' = pt_request t"
  using assms
proof (induction ms arbitrary: t)
  case (Cons x ms)
  obtain k v where x: "x = (k, v)" by (cases x)
  obtain f r where f: "find_field task_fields (unquote k) = Some f" "f v t = Some r" "decode_members task_fields ms r = Some t'"
    using Cons.prems(1) x by (auto split: option.splits)
  have "pt_request r = pt_request t" using request_setter [OF f(1) _ f(2)] Cons.prems(2) x by simp
  then show ?case using Cons.IH [OF f(3)] Cons.prems(2) by simp
qed simp

text \<open>A text whose members spell \<open>request_id\<close> in no other way.\<close>

definition plain_request :: "string \<Rightarrow> bool" where
  "plain_request raw =
     (\<forall>ms. json_text raw = Some (JObj ms) \<longrightarrow>
        list_all (\<lambda>(k, v). fold_name (unquote k) = fold_name ''request_id'' \<longrightarrow> unquote k = ''request_id'') ms)"

lemma decoded_request_valid:
  assumes "decode_task L raw = Some t" and "plain_request raw"
  shows "valid_request_id (pt_request t)"
proof -
  obtain v where v: "json_text raw = Some v" "decode_struct task_fields v zero_task = Some t" "check_task L v t"
    using assms(1) by (auto simp: decode_task_def split: if_splits option.splits)
  then obtain ms where ms: "v = JObj ms" by (auto simp: check_task_def required_object_def split: json.splits)
  show ?thesis
  proof (cases "member ''request_id'' v")
    case (Some x)
    then show ?thesis using v(3) by (simp add: check_task_def printable_def valid_request_id_def)
  next
    case None
    then have "\<forall>(k, v) \<in> set ms. unquote k \<noteq> ''request_id''"
      unfolding ms member_def by (force simp: map_of_eq_None_iff)
    then have "\<forall>(k, v) \<in> set ms. fold_name (unquote k) \<noteq> fold_name ''request_id''"
      using assms(2) v(1) unfolding plain_request_def ms by (fastforce simp: list_all_iff)
    then have "pt_request t = pt_request zero_task" using v(2) unfolding ms by (intro request_kept) (simp add: decode_struct_def)
    then show ?thesis by (simp add: zero_task_def valid_request_id_def all_bytes_def)
  qed
qed

lemma published_plain:
  assumes "uuid_documented L" "ts_documented L" "valid_task L t" and "marshal_task t = Some raw"
  shows "plain_request raw"
proof -
  obtain v where v: "task_json t = Some v" "good 0 v" using assms(1-3) by (rule valid_task_json)
  then obtain ms where ms: "v = JObj ms" by (auto simp: task_json_def split: option.splits)
  let ?ks = "required_task @ [''request_id'', ''pending_recipients'', ''replay_run_id'']"
  have "raw = json_print v" using v(1) assms(4) by (simp add: marshal_task_def)
  then have raw: "json_text raw = Some (JObj ms)" using v(2) json_text_print [of v] unfolding ms by (simp add: good_def del: json_print.simps tree_ok.simps)
  have ks: "fst ` set ms \<subseteq> set ?ks"
    using v(1) unfolding ms by (auto simp: task_json_def required_task_def split: option.splits if_splits)
  have "list_all (\<lambda>k. fold_name k = fold_name ''request_id'' \<longrightarrow> k = ''request_id'') ?ks" by code_simp
  then have "fold_name (unquote k) = fold_name ''request_id'' \<longrightarrow> unquote k = ''request_id''" if "(k, x) \<in> set ms" for k x
    using task_keys ks that by (force simp: list_all_iff key_ok_def)
  then show ?thesis using raw by (auto simp: plain_request_def list_all_iff)
qed

section \<open>Properties\<close>

text \<open>C12. The publisher and the decoder agree: every valid task is encoded, within the payload limit of the
  decoder, to a text that \<open>DecodeTask\<close> reads back to the same task.\<close>

theorem published_tasks_decode:
  assumes "uuid_documented L" "ts_documented L" "valid_task L t"
  shows "\<exists>raw. marshal_task t = Some raw \<and> length raw \<le> max_payload \<and> decode_task L raw = Some t"
  using valid_task_decodes [OF assms] by (auto elim: decode_task_Some)

definition message_s :: im_message where
  "message_s = \<lparr>im_id = CHR ''M'' # uuid_a, im_conversation = ''direct:S'' @ uuid_b, im_session = CHR ''S'' # uuid_b,
     im_send = user_a, im_receive = user_b, im_receive_type = ''user'', im_type = ''text'', im_content = ''hi'',
     im_origin = ''user'', im_created = GoTime 1700000000000000000 0, im_position = ''7''\<rparr>"

definition task_s :: push_task where
  "task_s = \<lparr>pt_version = 1, pt_kind = ''message_push'', pt_task_id = ''push:v1:M'' @ uuid_a @ '':0'', pt_message = message_s,
     pt_recipients = [user_a, user_b], pt_targets = Some [conn_c], pt_index = 0, pt_count = 1, pt_request = ''r-1'',
     pt_pending = Some [user_b], pt_run = ''run-1''\<rparr>"

lemma message_s_view: "message_view_of doc_lib message_s \<noteq> None"
proof -
  have i: "valid_id doc_lib (CHR ''M'' # uuid_a) (CHR ''M'')" "valid_id doc_lib (CHR ''S'' # uuid_b) (CHR ''S'')"
    "valid_text ''hi''" by code_simp+
  have f: "format_int 7 = ''7''" by code_simp
  then have p: "parse_int64 ''7'' = Some 7" using parse_int64_format_int [of 7] by simp
  have "ts_check doc_lib (ts_new 1700000000000000000)" "\<not> is_zero_time (GoTime 1700000000000000000 0)"
    by (simp_all add: doc_lib_def ts_new_def ns_per_s_def is_zero_time_def zero_ns_def)
  then show ?thesis using i f p by (simp add: message_view_of_def message_s_def)
qed

lemma task_s_valid: "valid_task doc_lib task_s"
proof -
  have "task_identity task_s" by code_simp
  moreover have "check_recipients doc_lib message_s None [user_a, user_b]" by code_simp
  moreover have "check_hints doc_lib [user_a, user_b] [] [conn_c]" by code_simp
  moreover have "printable ''r-1'' 128" "printable ''run-1'' 128" by code_simp+
  ultimately show ?thesis using message_s_view
    by (simp add: valid_task_def task_core_def task_small_def task_s_def nil_list_def)
qed

theorem published_tasks_decode_witness:
  "\<exists>raw. marshal_task task_s = Some raw \<and> length raw \<le> max_payload \<and> decode_task doc_lib raw = Some task_s"
  using published_tasks_decode [OF doc_lib_documented task_s_valid] .

theorem decoded_tasks_sound_witness:
  "\<exists>raw t. decode_task doc_lib raw = Some t \<and> strict_sorted (pt_recipients t) \<and> pt_recipients t \<noteq> []"
proof -
  obtain raw where r: "decode_task doc_lib raw = Some task_s"
    using valid_task_decodes [OF doc_lib_documented task_s_valid] by blast
  show ?thesis using decoded_tasks_sound [OF r] r by fastforce
qed

text \<open>The alias of a key: the long s (U+017F) is its own lower-case form, and \<open>encoding/json\<close> matches it with \<open>s\<close>.\<close>

definition alias_key :: string where
  "alias_key = ''pending_recipient'' @ [char_of (197::nat), char_of (191::nat)]"

lemma alias_key_ok: "key_ok alias_key"
proof -
  have q: "quote_body alias_key = alias_key" by code_simp
  have "utf8_valid alias_key" by code_simp
  then have "unquote alias_key = alias_key" using unquote_quote_body [of alias_key] q by simp
  moreover have "lower_key alias_key" by code_simp
  ultimately show ?thesis using quote_body_lexes [of alias_key] quote_body_neutral [of alias_key] q by (simp add: key_ok_def)
qed

lemma alias_field: "find_field task_fields alias_key = find_field task_fields ''pending_recipients''"
proof -
  have f: "fold_name alias_key = fold_name ''pending_recipients''" by code_simp
  have "map_of task_fields alias_key = None" by (simp add: task_fields_def alias_key_def)
  moreover have "fold_name k = fold_name ''pending_recipients'' \<longleftrightarrow> k = ''pending_recipients''"
    if "k \<in> set (map fst task_fields)" for k
  proof -
    have "list_all (\<lambda>k. fold_name k = fold_name ''pending_recipients'' \<longleftrightarrow> k = ''pending_recipients'')
      [''schema_version'', ''kind'', ''task_id'', ''message'', ''recipients'', ''targets'', ''chunk_index'', ''chunk_count'',
       ''request_id'', ''pending_recipients'', ''replay_run_id'']" by code_simp
    moreover have "map fst task_fields = [''schema_version'', ''kind'', ''task_id'', ''message'', ''recipients'', ''targets'',
       ''chunk_index'', ''chunk_count'', ''request_id'', ''pending_recipients'', ''replay_run_id'']" by (simp add: task_fields_def)
    ultimately show ?thesis using that unfolding list_all_iff by (simp only:)
  qed
  ultimately show ?thesis unfolding find_field_def f by (simp add: task_fields_def)
qed


definition task_plain :: push_task where
  "task_plain = task_s\<lparr>pt_request := [], pt_pending := None, pt_run := []\<rparr>"

lemma task_plain_valid: "valid_task doc_lib task_plain"
  using task_s_valid by (simp add: valid_task_def task_plain_def task_core_def task_identity_def task_small_def nil_list_def)

text \<open>The text of the task with one more member.\<close>

definition odd_task :: "string \<Rightarrow> json \<Rightarrow> string" where
  "odd_task k x =
     json_print (JObj ((case task_json task_plain of Some (JObj ms) \<Rightarrow> ms | _ \<Rightarrow> []) @ [(k, x)]))"

lemma extended_task:
  assumes "key_ok k" "k \<notin> set required_task" "good 1 x" "length (json_print x) \<le> 4002" "length k \<le> 19"
  shows "decode_task doc_lib (odd_task k x) =
    (case decode_members task_fields [(k, x)] task_plain of
       None \<Rightarrow> None
     | Some t \<Rightarrow>
       if task_identity t \<and> message_view_of doc_lib (pt_message t) \<noteq> None \<and> 1 \<le> length (pt_recipients t) \<and> length (pt_recipients t) \<le> 100 \<and>
          pt_targets t \<noteq> None \<and> check_recipients doc_lib (pt_message t) None (pt_recipients t) \<and>
          check_hints doc_lib (pt_recipients t) [] (the (pt_targets t)) \<and>
          (k = ''request_id'' \<longrightarrow> x \<noteq> JNull \<and> printable (pt_request t) 128) \<and>
          k \<noteq> ''pending_recipients'' \<and> k \<noteq> ''replay_run_id'' \<and> all_fresh (\<lambda>i. i \<in> set (pt_recipients t)) [] (nil_list (pt_pending t))
       then Some t else None)"
proof -
  obtain v where v: "task_json task_plain = Some v" and dec: "decode_struct task_fields v zero_task = Some task_plain"
    and g: "good 0 v" and chk: "check_task doc_lib v task_plain"
    using valid_task_json [OF doc_lib_documented task_plain_valid] by blast
  obtain ms where ms: "v = JObj ms" using v by (auto simp: task_json_def split: option.splits)
  have ne: "ms \<noteq> []" using v unfolding ms by (auto simp: task_json_def split: option.splits)
  have fst: "map fst ms = required_task"
    using v unfolding ms by (auto simp: task_json_def task_plain_def required_task_def nil_list_def split: option.splits)
  let ?v = "JObj (ms @ [(k, x)])"
  have txt_k: "odd_task k x = json_print ?v" by (simp add: odd_task_def v ms del: json_print.simps)
  have "list_all (\<lambda>(k, v). key_ok k \<and> good 1 v) ms"
  proof -
    have "list_all (\<lambda>(k, v). good 1 v) ms" using g unfolding ms by (auto simp: good_def list_all_iff)
    moreover have "list_all key_ok (map fst ms)" using task_keys by (simp add: fst)
    then have "list_all (\<lambda>(k, v). key_ok k) ms" by (auto simp: list_all_iff)
    ultimately show ?thesis by (auto simp: list_all_iff)
  qed
  then have kg: "list_all (\<lambda>(k, v). key_ok k \<and> good (Suc 0) v) (ms @ [(k, x)])" using assms(1,3) by simp
  have "distinct required_task" by code_simp
  then have g': "good 0 ?v" using kg fst assms(2) by (intro good_obj) auto
  have dec': "decode_struct task_fields ?v zero_task = decode_members task_fields [(k, x)] task_plain"
    using dec unfolding ms by (simp add: decode_struct_def decode_members_append)
  have u: "list_all (\<lambda>(k, v). unquote k = k) (ms @ [(k, x)])" using kg by (auto simp: list_all_iff key_ok_def)
  then have u': "list_all (\<lambda>(k, v). unquote k = k) ms" by simp
  have mem: "member k' ?v = (if k' = k \<and> member k' v = None then Some x else member k' v)" for k'
    unfolding ms member_eq [OF u] member_eq [OF u'] by (simp add: map_add_def split: option.split)
  have nil: "nil_list (pt_pending task_plain) = []" by (simp add: task_plain_def nil_list_def)
  have mn: "member ''pending_recipients'' v = None" "member ''replay_run_id'' v = None" "member ''request_id'' v = None"
    using task_members(3-5) [OF v] nil by (simp_all add: task_plain_def task_s_def)
  have "k \<noteq> ''message''" using assms(2) by (auto simp: required_task_def)
  then have mm: "member ''message'' ?v = member ''message'' v" by (simp add: mem)
  have o1: "required_object v required_task" and o2: "required_object (the (member ''message'' v)) required_message"
    using chk by (simp_all add: check_task_def)
  have o3: "required_object ?v required_task" using o1 unfolding required_object_def list_all_iff mem ms
    by (auto split: option.splits)
  have req: "(case member ''request_id'' ?v of None \<Rightarrow> True | Some y \<Rightarrow> y \<noteq> JNull \<and> P) \<longleftrightarrow> (k = ''request_id'' \<longrightarrow> x \<noteq> JNull \<and> P)" for P
    by (simp add: mem mn)
  have rep: "check_replay ?v t \<longleftrightarrow> k \<noteq> ''pending_recipients'' \<and> k \<noteq> ''replay_run_id'' \<and>
      all_fresh (\<lambda>i. i \<in> set (pt_recipients t)) [] (nil_list (pt_pending t))" for t
  proof (cases "k = ''pending_recipients'' \<or> k = ''replay_run_id''")
    case True
    then show ?thesis by (auto simp: check_replay_def Let_def mem mn)
  next
    case False
    then have "member ''pending_recipients'' ?v = None" "member ''replay_run_id'' ?v = None" unfolding mem mn by auto
    then show ?thesis using False by (simp add: check_replay_def)
  qed
  have chk': "check_task doc_lib ?v t \<longleftrightarrow>
      task_identity t \<and> message_view_of doc_lib (pt_message t) \<noteq> None \<and> 1 \<le> length (pt_recipients t) \<and> length (pt_recipients t) \<le> 100 \<and>
      pt_targets t \<noteq> None \<and> check_recipients doc_lib (pt_message t) None (pt_recipients t) \<and>
      check_hints doc_lib (pt_recipients t) [] (the (pt_targets t)) \<and>
      (k = ''request_id'' \<longrightarrow> x \<noteq> JNull \<and> printable (pt_request t) 128) \<and>
      k \<noteq> ''pending_recipients'' \<and> k \<noteq> ''replay_run_id'' \<and> all_fresh (\<lambda>i. i \<in> set (pt_recipients t)) [] (nil_list (pt_pending t))" for t
    unfolding check_task_def mm req rep by (simp only: o2 o3 simp_thms)
  have "length (json_print ?v) \<le> max_payload"
  proof -
    have "length (json_print v) \<le> 200000" by (rule length_task [OF v task_plain_valid doc_lib_documented])
    moreover have "length (json_print ?v) = length (json_print v) + Suc (length (member_text (k, x)))"
      using length_join_comma [of "map member_text ms"] length_join_comma [of "map member_text (ms @ [(k, x)])"] ne
      unfolding ms by simp
    ultimately show ?thesis using assms(4,5) by (simp add: max_payload_def del: json_print.simps)
  qed
  then have "decode_task doc_lib (odd_task k x) =
    (case decode_members task_fields [(k, x)] task_plain of None \<Rightarrow> None | Some t \<Rightarrow> if check_task doc_lib ?v t then Some t else None)"
    using json_text_print [of ?v] neutral_checks [of "json_print ?v"] json_print_neutral [of ?v] g' [unfolded good_def]
    unfolding txt_k decode_task_def
    by (simp add: dec' del: json_print.simps tree_ok.simps tree_neutral.simps check_json.simps decode_struct_JObj decode_members.simps)
  then show ?thesis unfolding chk' .
qed

lemma task_plain_checks:
  "task_identity task_plain \<and> message_view_of doc_lib (pt_message task_plain) \<noteq> None \<and> 1 \<le> length (pt_recipients task_plain) \<and>
   length (pt_recipients task_plain) \<le> 100 \<and> pt_targets task_plain \<noteq> None \<and> check_recipients doc_lib (pt_message task_plain) None (pt_recipients task_plain) \<and>
   check_hints doc_lib (pt_recipients task_plain) [] (the (pt_targets task_plain))"
proof -
  have "task_core doc_lib task_plain" using task_plain_valid by (simp add: valid_task_def)
  then show ?thesis by (simp add: task_core_def)
qed

definition request_alias :: string where
  "request_alias = ''reque'' @ [char_of (197::nat), char_of (191::nat)] @ ''t_id''"

lemma request_alias_ok: "key_ok request_alias"
proof -
  have q: "quote_body request_alias = request_alias" by code_simp
  have "utf8_valid request_alias" by code_simp
  then have "unquote request_alias = request_alias" using unquote_quote_body [of request_alias] q by simp
  moreover have "lower_key request_alias" by code_simp
  ultimately show ?thesis using quote_body_lexes [of request_alias] quote_body_neutral [of request_alias] q by (simp add: key_ok_def)
qed

lemma fold_fields:
  assumes "map_of task_fields a = None" "k \<in> set (map fst task_fields)" "fold_name a = fold_name k"
  shows "find_field task_fields a = find_field task_fields k"
proof -
  have inj: "inj_on fold_name (set (map fst task_fields))"
  proof -
    have "distinct (map fold_name [''schema_version'', ''kind'', ''task_id'', ''message'', ''recipients'', ''targets'', ''chunk_index'', ''chunk_count'',
       ''request_id'', ''pending_recipients'', ''replay_run_id''])" by code_simp
    moreover have "map fst task_fields = [''schema_version'', ''kind'', ''task_id'', ''message'', ''recipients'', ''targets'',
       ''chunk_index'', ''chunk_count'', ''request_id'', ''pending_recipients'', ''replay_run_id'']" by (simp add: task_fields_def)
    ultimately show ?thesis by (simp only: distinct_map)
  qed
  obtain f where f: "map_of task_fields k = Some f" using assms(2) by (metis map_of_eq_None_iff image_set not_None_eq)
  have "List.find (\<lambda>(n, _). fold_name n = fold_name k) fs = map_option (Pair k) (map_of fs k)"
    if "set fs \<subseteq> set task_fields" "distinct (map fst fs)" for fs
    using that
  proof (induction fs)
    case (Cons y fs)
    obtain n g where y: "y = (n, g)" by (cases y)
    have "fold_name n = fold_name k \<longleftrightarrow> n = k"
      using inj assms(2) Cons.prems(1) y by (force simp: inj_on_def)
    then show ?case using Cons y by auto
  qed simp
  moreover have "distinct (map fst task_fields)" by (simp add: task_fields_def)
  ultimately show ?thesis using f assms(1,3) by (simp add: find_field_def)
qed

lemma odd_request: "pt_request (task_plain\<lparr>pt_request := [CHR 0x01]\<rparr>) = [CHR 0x01]" "\<not> printable [CHR 0x01] 128" "\<not> valid_request_id [CHR 0x01]"
proof -
  show "\<not> printable [CHR 0x01] 128" "\<not> valid_request_id [CHR 0x01]" by code_simp+
qed simp

lemma aliased_texts:
  "decode_task doc_lib (odd_task alias_key (JArr [])) = Some (task_plain\<lparr>pt_pending := Some []\<rparr>)"
  "decode_task doc_lib (odd_task ''pending_recipients'' (JArr [])) = None"
  "decode_task doc_lib (odd_task request_alias (json_string [CHR 0x01])) = Some (task_plain\<lparr>pt_request := [CHR 0x01]\<rparr>)"
  "decode_task doc_lib (odd_task ''request_id'' (json_string [CHR 0x01])) = None"
proof -
  have k: "alias_key \<notin> set required_task" "request_alias \<notin> set required_task"
    "''pending_recipients'' \<notin> set required_task" "''request_id'' \<notin> set required_task"
    by (simp_all add: required_task_def alias_key_def request_alias_def)
  have ko: "key_ok ''pending_recipients''" "key_ok ''request_id''" using task_keys by simp_all
  have n: "alias_key \<noteq> ''request_id''" "alias_key \<noteq> ''pending_recipients''" "alias_key \<noteq> ''replay_run_id''"
    "request_alias \<noteq> ''request_id''" "request_alias \<noteq> ''pending_recipients''" "request_alias \<noteq> ''replay_run_id''"
    by (simp_all add: alias_key_def request_alias_def)
  have nil: "nil_list (pt_pending task_plain) = []" by (simp add: task_plain_def nil_list_def)
  have l: "length alias_key \<le> 19" "length request_alias \<le> 19" "length ''pending_recipients'' \<le> 19" "length ''request_id'' \<le> 19"
    by (simp_all add: alias_key_def request_alias_def)
  have "good 1 (JArr [])" by (rule good_arr) simp_all
  moreover have "length (json_print (JArr [])) \<le> 4002" by simp
  moreover have "good 1 (json_string [CHR 0x01])" by (rule good_text) simp
  moreover have "length (json_print (json_string [CHR 0x01])) \<le> 4002" by code_simp
  ultimately have x: "good 1 (JArr [])" "length (json_print (JArr [])) \<le> 4002" "good 1 (json_string [CHR 0x01])"
    "length (json_print (json_string [CHR 0x01])) \<le> 4002" by blast+
  show "decode_task doc_lib (odd_task alias_key (JArr [])) = Some (task_plain\<lparr>pt_pending := Some []\<rparr>)"
  proof -
    have "decode_members task_fields [(alias_key, JArr [])] task_plain = Some (task_plain\<lparr>pt_pending := Some []\<rparr>)"
      using alias_field alias_key_ok by (simp add: key_ok_def) (simp add: find_field_def task_fields_def decode_slice_def task_plain_def task_s_def)
    then show ?thesis using extended_task [OF alias_key_ok k(1) x(1,2) l(1)] n task_plain_checks
      by (simp add: task_identity_def nil_list_def)
  qed
  show "decode_task doc_lib (odd_task ''pending_recipients'' (JArr [])) = None"
    using extended_task [OF ko(1) k(3) x(1,2) l(3)] by (simp split: option.split)
  show "decode_task doc_lib (odd_task request_alias (json_string [CHR 0x01])) = Some (task_plain\<lparr>pt_request := [CHR 0x01]\<rparr>)"
  proof -
    have fo: "fold_name request_alias = fold_name ''request_id''" by code_simp
    have no: "map_of task_fields request_alias = None" by (simp add: task_fields_def request_alias_def)
    have "''request_id'' \<in> set (map fst task_fields)" by (simp add: task_fields_def)
    then have f: "find_field task_fields request_alias = find_field task_fields ''request_id''" by (rule fold_fields [OF no _ fo])
    have "utf8_valid [CHR 0x01]" by code_simp
    then have "decode_string (json_string [CHR 0x01]) old = Some [CHR 0x01]" for old by (rule decode_text)
    then have dm: "decode_members task_fields [(request_alias, json_string [CHR 0x01])] task_plain = Some (task_plain\<lparr>pt_request := [CHR 0x01]\<rparr>)"
      using f request_alias_ok by (simp add: key_ok_def) (simp add: find_field_def task_fields_def)
    show ?thesis unfolding extended_task [OF request_alias_ok k(2) x(3,4) l(2)] dm
      using n task_plain_checks by (simp add: task_identity_def nil)
  qed
  show "decode_task doc_lib (odd_task ''request_id'' (json_string [CHR 0x01])) = None"
  proof -
    have "utf8_valid [CHR 0x01]" by code_simp
    then have "decode_string (json_string [CHR 0x01]) old = Some [CHR 0x01]" for old by (rule decode_text)
    then have dm: "decode_members task_fields [(''request_id'', json_string [CHR 0x01])] task_plain = Some (task_plain\<lparr>pt_request := [CHR 0x01]\<rparr>)"
      using ko(2) by (simp add: key_ok_def) (simp add: find_field_def task_fields_def)
    show ?thesis unfolding extended_task [OF ko(2) k(4) x(3,4) l(4)] dm using odd_request by simp
  qed
qed

end
