(* ===== verification/Fencing.thy ===== *)
theory Fencing
  imports Prelude
begin

text \<open>
  The contract of a fenced registry: a slot per key that holds the identity of its current owner.
  Taking the slot replaces the owner, and releasing it is conditional on still being the owner.
  Three components keep this contract: the user routes of \<open>internal/logic/routing\<close> (in Redis, by the
  full connection identity), the connection table of \<open>internal/comet/hub.go\<close> and the client table of
  \<open>internal/service/chatservice/server.go\<close> (in memory, by the connection object). The lemmas state what the contract gives a client whose releases may
  arrive late and in any order.
\<close>

locale fenced_release =
  fixes inv :: "'s \<Rightarrow> bool"
    and current :: "'s \<Rightarrow> 'k \<Rightarrow> 'i option"
    and key :: "'i \<Rightarrow> 'k"
    and release :: "'i \<Rightarrow> 's \<Rightarrow> 's"
  assumes release_inv: "inv s \<Longrightarrow> inv (release i s)"
    and release_current: "inv s \<Longrightarrow> current s (key i) = Some i \<Longrightarrow> current (release i s) (key i) = None"
    and release_stale: "inv s \<Longrightarrow> current s (key i) \<noteq> Some i \<Longrightarrow> current (release i s) = current s"
    and release_other: "inv s \<Longrightarrow> k \<noteq> key i \<Longrightarrow> current (release i s) k = current s k"
begin

lemma release_never_adds: "inv s \<Longrightarrow> current (release i s) k = Some j \<Longrightarrow> current s k = Some j"
proof -
  assume s: "inv s" and c: "current (release i s) k = Some j"
  show ?thesis
  proof (cases "k = key i \<and> current s (key i) = Some i")
    case True
    then show ?thesis using release_current [of s i] s c by simp
  next
    case False
    then show ?thesis using release_stale [of s i] release_other [of s k i] s c by metis
  qed
qed

lemma releases_inv: "inv s \<Longrightarrow> inv (fold release is s)"
  by (induction "is" arbitrary: s) (simp_all add: release_inv)

lemma releases_keep_owner:
  "inv s \<Longrightarrow> current s k = Some j \<Longrightarrow> j \<notin> set is \<Longrightarrow> current (fold release is s) k = Some j"
proof (induction "is" arbitrary: s)
  case Nil
  then show ?case by simp
next
  case (Cons i "is")
  have "current (release i s) k = Some j"
    using Cons.prems release_stale [of s i] release_other [of s k i] by (cases "k = key i") auto
  with Cons show ?case by (simp add: release_inv)
qed

end

locale fenced_registry = fenced_release inv current key release
  for inv :: "'s \<Rightarrow> bool"
    and current :: "'s \<Rightarrow> 'k \<Rightarrow> 'i option"
    and key :: "'i \<Rightarrow> 'k"
    and release :: "'i \<Rightarrow> 's \<Rightarrow> 's" +
  fixes take_slot :: "'i \<Rightarrow> 's \<Rightarrow> 's option"
  assumes take_inv: "inv s \<Longrightarrow> take_slot i s = Some s' \<Longrightarrow> inv s'"
    and take_current: "inv s \<Longrightarrow> take_slot i s = Some s' \<Longrightarrow> current s' (key i) = Some i"
    and take_other: "inv s \<Longrightarrow> take_slot i s = Some s' \<Longrightarrow> k \<noteq> key i \<Longrightarrow> current s' k = current s k"
begin

text \<open>
  After a takeover, late releases by any other identities (the replaced owner among them) leave
  the new owner in place.
\<close>

lemma takeover_survives:
  assumes "inv s" and "take_slot j s = Some s'" and "j \<notin> set is"
  shows "current (fold release is s') (key j) = Some j"
  using assms take_inv take_current releases_keep_owner by blast

text \<open>Taking and releasing a slot leaves the other slots alone and empties this one.\<close>

lemma take_release:
  assumes "inv s" and "take_slot i s = Some s'"
  shows "current (release i s') = (current s)(key i := None)"
proof
  fix k
  have i: "inv s'" using assms take_inv by blast
  show "current (release i s') k = ((current s)(key i := None)) k"
    using assms i take_current release_current release_other [OF i] take_other
    by (cases "k = key i") simp_all
qed

end

end
