(* ===== verification/Hub.thy ===== *)
theory Hub
  imports Samples Fencing
begin

text \<open>
  \<open>internal/comet/hub.go\<close>: the connections of one Comet process. One goroutine owns the table of
  clients and runs the operations one after another; callers send it closures and wait for the
  reply. The model keeps the connection objects in a heap (a connection is the index at which it was
  allocated), so that the table, the socket goroutines and the callers can hold the same object, and
  runs an operation as one step on the whole state. Closing a Go channel twice panics; the field
  \<open>h_panic\<close> records that this happened. Counters are unbounded.
\<close>

section \<open>State\<close>

text \<open>The control frames of \<open>websocket.go\<close> and the result frames they carry (\<open>dto/im/websocket.go\<close>).\<close>

record im_send_result =
  ir_client :: string
  ir_stored :: bool
  ir_message :: im_message
  ir_dispatch :: string
  ir_replayed :: bool

record im_send_error =
  ie_code :: string
  ie_retry :: string
  ie_request :: string

record send_result_frame =
  fr_event :: string
  fr_client :: string
  fr_result :: "im_send_result option"
  fr_error :: "im_send_error option"

record socket_control =
  ct_frame :: "send_result_frame option"
  ct_kind :: nat
  ct_data :: string
  ct_close :: bool

record connection =
  c_identity :: conn_id
  c_outbound :: "message_view list"
  c_controls :: "socket_control list"
  c_pending :: bool
  c_done :: bool
  c_writer :: bool
  c_slow :: bool

record hub =
  h_identity :: comet_id
  h_queueSize :: nat
  h_heap :: "connection list"
  h_clients :: "(string \<times> nat) list"
  h_draining :: bool
  h_deadline :: int
  h_timer :: "int option"
  h_drain_flag :: bool
  h_signal :: bool
  h_queueFull :: nat
  h_stale :: nat
  h_slowCloses :: nat
  h_done :: bool
  h_stopped :: bool
  h_panic :: bool

record drain_state =
  ds_deadline :: int
  ds_already :: bool
  ds_active :: nat

definition new_hub :: "lib \<Rightarrow> comet_id option \<Rightarrow> int \<Rightarrow> comet_error + hub" where
  "new_hub L cid queueSize =
     bindE (validate_comet L cid) (\<lambda>_.
       Inr \<lparr>h_identity = the cid, h_queueSize = (if queueSize \<le> 0 then 256 else nat queueSize),
            h_heap = [], h_clients = [], h_draining = False, h_deadline = zero_ns, h_timer = None,
            h_drain_flag = False, h_signal = False, h_queueFull = 0, h_stale = 0, h_slowCloses = 0,
            h_done = False, h_stopped = False, h_panic = False\<rparr>)"

definition client :: "hub \<Rightarrow> string \<rightharpoonup> nat" where
  "client h = map_of (h_clients h)"

definition set_client :: "string \<Rightarrow> nat \<Rightarrow> hub \<Rightarrow> hub" where
  "set_client u a h = h\<lparr>h_clients := (u, a) # filter (\<lambda>p. fst p \<noteq> u) (h_clients h)\<rparr>"

definition del_client :: "string \<Rightarrow> hub \<Rightarrow> hub" where
  "del_client u h = h\<lparr>h_clients := filter (\<lambda>p. fst p \<noteq> u) (h_clients h)\<rparr>"

definition upd_conn :: "nat \<Rightarrow> (connection \<Rightarrow> connection) \<Rightarrow> hub \<Rightarrow> hub" where
  "upd_conn a f h = h\<lparr>h_heap := (h_heap h)[a := f (h_heap h ! a)]\<rparr>"

text \<open>\<open>Connection.close\<close>.\<close>

definition close_conn :: "nat \<Rightarrow> hub \<Rightarrow> hub" where
  "close_conn a h =
     (if c_done (h_heap h ! a) then h\<lparr>h_panic := True\<rparr>
      else upd_conn a (\<lambda>c. c\<lparr>c_done := True\<rparr>) h)"

definition mark_slow :: "nat \<Rightarrow> hub \<Rightarrow> hub" where
  "mark_slow a h =
     (if c_slow (h_heap h ! a) then h
      else (upd_conn a (\<lambda>c. c\<lparr>c_slow := True\<rparr>) h)\<lparr>h_slowCloses := h_slowCloses h + 1\<rparr>)"

text \<open>\<open>closeAll\<close>: close every client, then delete it.\<close>

definition close_all :: "hub \<Rightarrow> hub" where
  "close_all h = fold (\<lambda>(u, a) g. del_client u (close_conn a g)) (h_clients h) h"

section \<open>The operations of the owner loop\<close>

definition op_hub_register :: "conn_id \<Rightarrow> bool \<Rightarrow> hub \<Rightarrow> (comet_error + nat) \<times> hub" where
  "op_hub_register cid pending h =
     (if h_draining h then (Inl ErrDraining, h)
      else
        let create = (\<lambda>g. (Inr (length (h_heap g)),
              set_client (cn_user cid) (length (h_heap g))
                (g\<lparr>h_heap := h_heap g @ [\<lparr>c_identity = cid, c_outbound = [], c_controls = [],
                                         c_pending = pending, c_done = False, c_writer = False,
                                         c_slow = False\<rparr>]\<rparr>))) in
        case client h (cn_user cid) of
          Some a \<Rightarrow>
            if same_connection (Some (c_identity (h_heap h ! a))) (Some cid) then (Inr a, h)
            else create (close_conn a h)
        | None \<Rightarrow> create h)"

definition op_hub_unregister :: "conn_id \<Rightarrow> hub \<Rightarrow> (comet_error + delete_outcome) \<times> hub" where
  "op_hub_unregister cid h =
     (case client h (cn_user cid) of
        None \<Rightarrow> (Inr NOT_FOUND, h)
      | Some a \<Rightarrow>
        if \<not> same_connection (Some (c_identity (h_heap h ! a))) (Some cid) then (Inr NOT_CURRENT, h)
        else (Inr DELETED, close_conn a (del_client (cn_user cid) h)))"

definition deliver_one ::
  "int \<Rightarrow> message_view \<Rightarrow> conn_id \<Rightarrow> hub \<Rightarrow> delivery_outcome \<times> hub" where
  "deliver_one now m cid h =
     (if h_draining h \<and> h_deadline h \<le> now then (DELIVERY_DRAINING, h)
      else case client h (cn_user cid) of
        None \<Rightarrow> (DELIVERY_NOT_FOUND, h)
      | Some a \<Rightarrow>
        let c = h_heap h ! a in
        if c_pending c then (DELIVERY_NOT_FOUND, h)
        else if \<not> same_connection (Some (c_identity c)) (Some cid)
        then (DELIVERY_STALE, h\<lparr>h_stale := h_stale h + 1\<rparr>)
        else if length (c_outbound c) < h_queueSize h
        then (DELIVERY_ENQUEUED, upd_conn a (\<lambda>c. c\<lparr>c_outbound := c_outbound c @ [m]\<rparr>) h)
        else (DELIVERY_QUEUE_FULL,
              close_conn a (del_client (cn_user cid)
                (mark_slow a (h\<lparr>h_queueFull := h_queueFull h + 1\<rparr>)))))"

text \<open>The loop over the targets; \<open>clock n\<close> is the time read for the \<open>n\<close>-th of them.\<close>

fun deliver_loop ::
  "(nat \<Rightarrow> int) \<Rightarrow> nat \<Rightarrow> message_view \<Rightarrow> conn_id list \<Rightarrow> hub \<Rightarrow> delivery_result list \<times> hub" where
  "deliver_loop clock n m [] h = ([], h)"
| "deliver_loop clock n m (i # is) h =
     (let (out, h1) = deliver_one (clock n) m i h;
          (rs, h2) = deliver_loop clock (Suc n) m is h1
      in (\<lparr>dr_target = Some i, dr_outcome = out\<rparr> # rs, h2))"

definition op_hub_drain :: "int \<Rightarrow> hub \<Rightarrow> (comet_error + drain_state) \<times> hub" where
  "op_hub_drain deadline h =
     (let h1 = (if \<not> h_draining h \<or> deadline < h_deadline h
                then h\<lparr>h_deadline := deadline, h_timer := Some deadline\<rparr> else h);
          h2 = h1\<lparr>h_draining := True, h_drain_flag := True, h_signal := True\<rparr>
      in (Inr \<lparr>ds_deadline = h_deadline h2, ds_already = h_draining h, ds_active = length (h_clients h2)\<rparr>, h2))"

definition op_hub_activate :: "nat \<Rightarrow> hub \<Rightarrow> (comet_error + bool) \<times> hub" where
  "op_hub_activate a h =
     (if h_draining h then (Inl ErrDraining, h)
      else if client h (cn_user (c_identity (h_heap h ! a))) \<noteq> Some a then (Inl ErrClosed, h)
      else (Inr True, upd_conn a (\<lambda>c. c\<lparr>c_pending := False\<rparr>) h))"

definition queue_depth :: "hub \<Rightarrow> nat" where
  "queue_depth h = sum_list (map (\<lambda>(u, a). length (c_outbound (h_heap h ! a)) + length (c_controls (h_heap h ! a))) (h_clients h))"

section \<open>Calls\<close>

text \<open>
  How a call of the owner loop ends: the context is cancelled before the owner runs the closure;
  the owner runs it and the caller sees the reply; or the owner runs it and the caller sees the
  cancellation (\<open>Some\<close>) or the end of the hub (\<open>None\<close>) instead. After \<open>Close\<close> nothing runs.
\<close>

datatype call_fate = Skipped ctx_err | Answered | Unseen "ctx_err option"

definition hub_call ::
  "call_fate \<Rightarrow> (hub \<Rightarrow> (comet_error + 'a) \<times> hub) \<Rightarrow> hub \<Rightarrow> (comet_error + 'a) \<times> hub" where
  "hub_call fate f h =
     (case fate of
        Skipped e \<Rightarrow> (Inl (ErrCtx e), h)
      | Answered \<Rightarrow> if h_done h then (Inl ErrClosed, h) else f h
      | Unseen w \<Rightarrow>
        (Inl (case w of Some e \<Rightarrow> ErrCtx e | None \<Rightarrow> ErrClosed), if h_done h then h else snd (f h)))"

definition hub_register ::
  "lib \<Rightarrow> call_fate \<Rightarrow> conn_id option \<Rightarrow> bool \<Rightarrow> hub \<Rightarrow> (comet_error + nat) \<times> hub" where
  "hub_register L fate i pending h =
     (case validate_connection L i (ci_instance (h_identity h)) of
        Inl e \<Rightarrow> (Inl e, h)
      | Inr _ \<Rightarrow> hub_call fate (op_hub_register (the i) pending) h)"

definition hub_unregister ::
  "lib \<Rightarrow> call_fate \<Rightarrow> conn_id option \<Rightarrow> hub \<Rightarrow> (comet_error + delete_outcome) \<times> hub" where
  "hub_unregister L fate i h =
     (case validate_connection L i (ci_instance (h_identity h)) of
        Inl e \<Rightarrow> (Inl e, h)
      | Inr _ \<Rightarrow> hub_call fate (op_hub_unregister (the i)) h)"

definition hub_deliver ::
  "lib \<Rightarrow> call_fate \<Rightarrow> (nat \<Rightarrow> int) \<Rightarrow> string \<Rightarrow> message_view option \<Rightarrow> conn_id option list \<Rightarrow> hub \<Rightarrow>
   (comet_error + delivery_result list) \<times> hub" where
  "hub_deliver L fate clock task m targets h =
     (case validate_delivery L task m targets (ci_instance (h_identity h)) of
        Inl e \<Rightarrow> (Inl e, h)
      | Inr _ \<Rightarrow>
        hub_call fate (\<lambda>g. let (rs, g') = deliver_loop clock 0 (the m) (map the targets) g in (Inr rs, g')) h)"

definition drain_limit :: int where "drain_limit = 30 * ns_per_s"

definition hub_drain ::
  "call_fate \<Rightarrow> int \<Rightarrow> int \<Rightarrow> hub \<Rightarrow> (comet_error + drain_state) \<times> hub" where
  "hub_drain fate now deadline h =
     (if deadline \<le> now \<or> now + drain_limit < deadline then (Inl (ErrInvalid ''drain deadline''), h)
      else hub_call fate (op_hub_drain deadline) h)"

definition hub_activate :: "call_fate \<Rightarrow> nat \<Rightarrow> hub \<Rightarrow> (comet_error + unit) \<times> hub" where
  "hub_activate fate a h =
     (let (r, h') = hub_call fate (op_hub_activate a) h in (bindE r (\<lambda>_. Inr ()), h'))"

text \<open>The drain timer, and \<open>Close\<close> followed by the exit of the owner loop.\<close>

definition hub_timer :: "hub \<Rightarrow> hub" where
  "hub_timer h = (close_all h)\<lparr>h_timer := None\<rparr>"

definition hub_close :: "hub \<Rightarrow> hub" where
  "hub_close h =
     (if h_done h then h else (close_all (h\<lparr>h_done := True\<rparr>))\<lparr>h_timer := None, h_stopped := True\<rparr>)"

section \<open>The socket side of a connection\<close>

text \<open>
  \<open>queueControl\<close>. A Go \<open>select\<close> runs one of its ready cases, chosen at random: \<open>pick\<close> is the choice. The
  default case runs when none is ready: the connection is full and gets closed.
\<close>

datatype queue_case = CaseCtx | CaseDone | CaseSend

definition select_case :: "nat \<Rightarrow> 'a list \<Rightarrow> 'a option" where
  "select_case pick ready = (if ready = [] then None else Some (ready ! (pick mod length ready)))"

definition queue_ready :: "ctx_err option \<Rightarrow> nat \<Rightarrow> hub \<Rightarrow> queue_case list" where
  "queue_ready ctx a h =
     (if ctx \<noteq> None then [CaseCtx] else []) @ (if c_done (h_heap h ! a) then [CaseDone] else []) @
     (if length (c_controls (h_heap h ! a)) < h_queueSize h then [CaseSend] else [])"

definition queue_control ::
  "lib \<Rightarrow> ctx_err option \<Rightarrow> nat \<Rightarrow> nat \<Rightarrow> socket_control \<Rightarrow> hub \<Rightarrow> (comet_error + unit) \<times> hub" where
  "queue_control L ctx pick a ctl h =
     (case select_case pick (queue_ready ctx a h) of
           Some CaseCtx \<Rightarrow> (Inl (ErrCtx (the ctx)), h)
         | Some CaseDone \<Rightarrow> (Inl ErrClosed, h)
         | Some CaseSend \<Rightarrow> (Inr (), upd_conn a (\<lambda>c. c\<lparr>c_controls := c_controls c @ [ctl]\<rparr>) h)
         | None \<Rightarrow>
           (Inl ErrClosed,
            snd (hub_unregister L Answered (Some (c_identity (h_heap h ! a)))
              (mark_slow a (h\<lparr>h_queueFull := h_queueFull h + 1\<rparr>)))))"

text \<open>The writer takes the next message from the queue.\<close>

definition take_outbound :: "nat \<Rightarrow> hub \<Rightarrow> message_view option \<times> hub" where
  "take_outbound a h =
     (case c_outbound (h_heap h ! a) of
        [] \<Rightarrow> (None, h)
      | m # ms \<Rightarrow> (Some m, upd_conn a (\<lambda>c. c\<lparr>c_outbound := ms\<rparr>) h))"

definition take_control :: "nat \<Rightarrow> hub \<Rightarrow> socket_control option \<times> hub" where
  "take_control a h =
     (case c_controls (h_heap h ! a) of
        [] \<Rightarrow> (None, h)
      | x # xs \<Rightarrow> (Some x, upd_conn a (\<lambda>c. c\<lparr>c_controls := xs\<rparr>) h))"

section \<open>The table\<close>

lemma map_of_filter_key: "map_of (filter (\<lambda>p. fst p \<noteq> u) xs) = (map_of xs)(u := None)"
  by (induction xs) auto

lemma client_simps [simp]:
  "client (set_client u a h) = (client h)(u \<mapsto> a)"
  "client (del_client u h) = (client h)(u := None)"
  "client (upd_conn a f h) = client h"
  "client (close_conn a h) = client h"
  "client (mark_slow a h) = client h"
  by (simp_all add: client_def set_client_def del_client_def upd_conn_def close_conn_def mark_slow_def
      map_of_filter_key fun_eq_iff)

lemma heap_simps [simp]:
  "h_heap (set_client u a h) = h_heap h" "h_heap (del_client u h) = h_heap h"
  "h_heap (upd_conn a f h) = (h_heap h)[a := f (h_heap h ! a)]"
  "length (h_heap (close_conn a h)) = length (h_heap h)"
  "length (h_heap (mark_slow a h)) = length (h_heap h)"
  by (simp_all add: set_client_def del_client_def upd_conn_def close_conn_def mark_slow_def)

lemma frame_simps [simp]:
  "h_identity (set_client u a h) = h_identity h" "h_identity (del_client u h) = h_identity h"
  "h_identity (upd_conn a f h) = h_identity h" "h_identity (close_conn a h) = h_identity h"
  "h_identity (mark_slow a h) = h_identity h"
  "h_queueSize (set_client u a h) = h_queueSize h" "h_queueSize (del_client u h) = h_queueSize h"
  "h_queueSize (upd_conn a f h) = h_queueSize h" "h_queueSize (close_conn a h) = h_queueSize h"
  "h_queueSize (mark_slow a h) = h_queueSize h"
  "h_draining (set_client u a h) = h_draining h" "h_draining (del_client u h) = h_draining h"
  "h_draining (upd_conn a f h) = h_draining h" "h_draining (close_conn a h) = h_draining h"
  "h_draining (mark_slow a h) = h_draining h"
  "h_drain_flag (set_client u a h) = h_drain_flag h" "h_drain_flag (del_client u h) = h_drain_flag h"
  "h_drain_flag (upd_conn a f h) = h_drain_flag h" "h_drain_flag (close_conn a h) = h_drain_flag h"
  "h_drain_flag (mark_slow a h) = h_drain_flag h"
  "h_deadline (set_client u a h) = h_deadline h" "h_deadline (del_client u h) = h_deadline h"
  "h_deadline (upd_conn a f h) = h_deadline h" "h_deadline (close_conn a h) = h_deadline h"
  "h_deadline (mark_slow a h) = h_deadline h"
  "h_timer (set_client u a h) = h_timer h" "h_timer (del_client u h) = h_timer h"
  "h_timer (upd_conn a f h) = h_timer h" "h_timer (close_conn a h) = h_timer h"
  "h_timer (mark_slow a h) = h_timer h"
  "h_done (set_client u a h) = h_done h" "h_done (del_client u h) = h_done h"
  "h_done (upd_conn a f h) = h_done h" "h_done (close_conn a h) = h_done h"
  "h_done (mark_slow a h) = h_done h"
  "h_panic (set_client u a h) = h_panic h" "h_panic (del_client u h) = h_panic h"
  "h_panic (upd_conn a f h) = h_panic h" "h_panic (mark_slow a h) = h_panic h"
  by (simp_all add: set_client_def del_client_def upd_conn_def close_conn_def mark_slow_def)

lemma close_conn_open [simp]:
  "\<not> c_done (h_heap h ! a) \<Longrightarrow> close_conn a h = upd_conn a (\<lambda>c. c\<lparr>c_done := True\<rparr>) h"
  by (simp add: close_conn_def)

section \<open>The invariant\<close>

text \<open>
  Every registered connection is open and registered under its own user, every open connection is
  registered (so a user has at most one open connection), identities passed validation, queues
  stay within their capacity, and no channel was closed twice.
\<close>

definition conn_ok :: "lib \<Rightarrow> hub \<Rightarrow> connection \<Rightarrow> bool" where
  "conn_ok L h c =
     (validate_connection L (Some (c_identity c)) (ci_instance (h_identity h)) = Inr () \<and>
      length (c_outbound c) \<le> h_queueSize h \<and> length (c_controls c) \<le> h_queueSize h)"

definition table_ok :: "hub \<Rightarrow> bool" where
  "table_ok h =
     ((\<forall>u a. client h u = Some a \<longrightarrow>
         a < length (h_heap h) \<and> cn_user (c_identity (h_heap h ! a)) = u \<and> \<not> c_done (h_heap h ! a)) \<and>
      (\<forall>a < length (h_heap h). \<not> c_done (h_heap h ! a) \<longrightarrow>
         client h (cn_user (c_identity (h_heap h ! a))) = Some a))"

definition hub_inv :: "lib \<Rightarrow> hub \<Rightarrow> bool" where
  "hub_inv L h =
     (table_ok h \<and> distinct (map fst (h_clients h)) \<and> (\<forall>c \<in> set (h_heap h). conn_ok L h c) \<and>
      0 < h_queueSize h \<and> \<not> h_panic h \<and> h_drain_flag h = h_draining h)"

lemma hub_invD:
  assumes "hub_inv L h" and "client h u = Some a"
  shows "a < length (h_heap h)" "cn_user (c_identity (h_heap h ! a)) = u" "\<not> c_done (h_heap h ! a)"
    "conn_ok L h (h_heap h ! a)"
  using assms by (simp_all add: hub_inv_def table_ok_def)

lemma table_ok_owner:
  "table_ok h \<Longrightarrow> a < length (h_heap h) \<Longrightarrow>
   \<not> c_done (h_heap h ! a) \<longleftrightarrow> client h (cn_user (c_identity (h_heap h ! a))) = Some a"
  by (auto simp: table_ok_def)

lemma distinct_set_client: "distinct (map fst (h_clients h)) \<Longrightarrow> distinct (map fst (h_clients (set_client u a h)))"
  by (auto simp: set_client_def distinct_map_filter image_iff)

lemma distinct_del_client: "distinct (map fst (h_clients h)) \<Longrightarrow> distinct (map fst (h_clients (del_client u h)))"
  by (simp add: del_client_def distinct_map_filter)

lemma clients_simps [simp]:
  "h_clients (upd_conn a f h) = h_clients h" "h_clients (mark_slow a h) = h_clients h"
  "h_clients (close_conn a h) = h_clients h"
  by (simp_all add: upd_conn_def mark_slow_def close_conn_def)

text \<open>Changing a connection in place, keeping identity and state, keeps the invariant.\<close>

lemma upd_conn_inv:
  assumes "hub_inv L h" and "c_identity (f (h_heap h ! a)) = c_identity (h_heap h ! a)"
    and "c_done (f (h_heap h ! a)) = c_done (h_heap h ! a)"
    and "a < length (h_heap h) \<Longrightarrow> conn_ok L h (f (h_heap h ! a))"
  shows "hub_inv L (upd_conn a f h)"
proof (cases "a < length (h_heap h)")
  case False
  then have "upd_conn a f h = h" by (cases h) (simp add: upd_conn_def list_update_beyond)
  then show ?thesis using assms(1) by simp
next
  case True
  let ?h = "upd_conn a f h"
  have at: "c_identity (h_heap ?h ! b) = c_identity (h_heap h ! b)" "c_done (h_heap ?h ! b) = c_done (h_heap h ! b)" for b
    using assms(2,3) True by (auto simp: nth_list_update)
  have "table_ok ?h" using assms(1) unfolding hub_inv_def table_ok_def at by simp
  moreover have "\<forall>c \<in> set (h_heap ?h). conn_ok L ?h c"
    using assms(1) assms(4) [OF True] True set_update_subset_insert [of "h_heap h" a "f (h_heap h ! a)"]
    by (auto simp: hub_inv_def conn_ok_def)
  ultimately show ?thesis using assms(1) by (simp add: hub_inv_def)
qed

text \<open>Closing a registered connection and removing it from the table, in either order.\<close>

lemma close_registered:
  assumes "hub_inv L h" and "client h u = Some a"
  shows "close_conn a (del_client u h) = upd_conn a (\<lambda>c. c\<lparr>c_done := True\<rparr>) (del_client u h)"
    and "del_client u (close_conn a h) = close_conn a (del_client u h)"
    and "hub_inv L (close_conn a (del_client u h))"
proof -
  let ?c = "upd_conn a (\<lambda>c. c\<lparr>c_done := True\<rparr>)"
  let ?h = "?c (del_client u h)"
  note d = hub_invD [OF assms]
  show eq: "close_conn a (del_client u h) = ?h" using d(3) by simp
  show "del_client u (close_conn a h) = close_conn a (del_client u h)"
    using d(3) by (simp add: upd_conn_def del_client_def)
  have at: "c_identity (h_heap ?h ! b) = c_identity (h_heap h ! b)"
    "c_done (h_heap ?h ! b) \<longleftrightarrow> b = a \<or> c_done (h_heap h ! b)" for b
    using d(1) by (auto simp: nth_list_update)
  have t: "table_ok h" using assms(1) by (simp add: hub_inv_def)
  have inj: "client h w = Some a \<Longrightarrow> w = u" for w using hub_invD(2) [OF assms(1), of w a] d(2) by simp
  have "table_ok ?h"
  proof (unfold table_ok_def at, intro conjI allI impI)
    fix w b
    assume "client ?h w = Some b"
    then have w: "w \<noteq> u" "client h w = Some b" by (auto split: if_splits)
    then have "b \<noteq> a" using inj by auto
    with hub_invD [OF assms(1) w(2)] show "b < length (h_heap ?h)" "cn_user (c_identity (h_heap h ! b)) = w"
      "\<not> (b = a \<or> c_done (h_heap h ! b))" by simp_all
  next
    fix b
    assume b: "b < length (h_heap ?h)" "\<not> (b = a \<or> c_done (h_heap h ! b))"
    then have c: "client h (cn_user (c_identity (h_heap h ! b))) = Some b" using table_ok_owner [OF t, of b] by simp
    then have "cn_user (c_identity (h_heap h ! b)) \<noteq> u" using b(2) assms(2) by auto
    then show "client ?h (cn_user (c_identity (h_heap h ! b))) = Some b" using c by simp
  qed
  moreover have "\<forall>c \<in> set (h_heap ?h). conn_ok L ?h c"
    using assms(1) d(1,4) set_update_subset_insert [of "h_heap h" a "(h_heap h ! a)\<lparr>c_done := True\<rparr>"]
    by (auto simp: hub_inv_def conn_ok_def)
  ultimately show "hub_inv L (close_conn a (del_client u h))"
    using assms(1) unfolding eq by (simp add: hub_inv_def distinct_del_client)
qed


lemma counters_inv [simp]:
  "hub_inv L (h\<lparr>h_stale := n\<rparr>) = hub_inv L h" "hub_inv L (h\<lparr>h_queueFull := n\<rparr>) = hub_inv L h"
  "hub_inv L (h\<lparr>h_slowCloses := n\<rparr>) = hub_inv L h"
  "hub_inv L (h\<lparr>h_timer := t\<rparr>) = hub_inv L h" "hub_inv L (h\<lparr>h_done := b\<rparr>) = hub_inv L h"
  "hub_inv L (h\<lparr>h_stopped := b\<rparr>) = hub_inv L h" "hub_inv L (h\<lparr>h_deadline := d\<rparr>) = hub_inv L h"
  "client (h\<lparr>h_stale := n\<rparr>) = client h" "client (h\<lparr>h_queueFull := n\<rparr>) = client h"
  "client (h\<lparr>h_timer := t\<rparr>) = client h" "client (h\<lparr>h_done := b\<rparr>) = client h"
  "client (h\<lparr>h_stopped := b\<rparr>) = client h" "client (h\<lparr>h_deadline := d\<rparr>) = client h"
  by (simp_all add: hub_inv_def table_ok_def client_def conn_ok_def)

lemma mark_slow_inv: "hub_inv L h \<Longrightarrow> hub_inv L (mark_slow a h)"
proof -
  assume h: "hub_inv L h"
  then have "hub_inv L (upd_conn a (\<lambda>c. c\<lparr>c_slow := True\<rparr>) h)"
    by (intro upd_conn_inv) (auto simp: hub_inv_def conn_ok_def)
  then show ?thesis using h by (simp add: mark_slow_def)
qed

lemma op_hub_unregister_inv: "hub_inv L h \<Longrightarrow> hub_inv L (snd (op_hub_unregister c h))"
  by (auto simp: op_hub_unregister_def close_registered(3) split: option.splits simp del: close_conn_open)

text \<open>Registering appends a connection to the heap and enters it in the table.\<close>

lemma create_inv:
  assumes "hub_inv L h" and "client h (cn_user c) = None"
    and "validate_connection L (Some c) (ci_instance (h_identity h)) = Inr ()"
    and "c_identity x = c" and "c_outbound x = []" and "c_controls x = []" and "\<not> c_done x"
  shows "hub_inv L (set_client (cn_user c) (length (h_heap h)) (h\<lparr>h_heap := h_heap h @ [x]\<rparr>))"
    (is "hub_inv L (set_client _ ?a ?g)")
proof -
  have t: "table_ok h" and ok: "\<forall>c \<in> set (h_heap h). conn_ok L h c" using assms(1) by (simp_all add: hub_inv_def)
  let ?n = "set_client (cn_user c) ?a ?g"
  have cl: "client ?n = (client h)(cn_user c \<mapsto> ?a)" by (simp add: client_def [of "?g"]) (simp add: client_def)
  have hp: "h_heap ?n = h_heap h @ [x]" by simp
  have "table_ok ?n"
  proof (unfold table_ok_def, intro conjI allI impI)
    fix w b
    assume w: "client ?n w = Some b"
    show "b < length (h_heap ?n)" "cn_user (c_identity (h_heap ?n ! b)) = w" "\<not> c_done (h_heap ?n ! b)"
      using hub_invD [OF assms(1), of w b] w assms(4,7) unfolding cl hp by (auto simp: nth_append split: if_splits)
  next
    fix b
    assume b: "b < length (h_heap ?n)" "\<not> c_done (h_heap ?n ! b)"
    show "client ?n (cn_user (c_identity (h_heap ?n ! b))) = Some b"
    proof (cases "b = ?a")
      case True
      then show ?thesis using assms(4) unfolding cl hp by simp
    next
      case False
      then have "client h (cn_user (c_identity (h_heap h ! b))) = Some b"
        using b table_ok_owner [OF t, of b] unfolding hp by (simp add: nth_append)
      then show ?thesis using False b assms(2) unfolding cl hp by (auto simp: nth_append)
    qed
  qed
  moreover have "\<forall>y \<in> set (h_heap (set_client (cn_user c) ?a ?g)). conn_ok L (set_client (cn_user c) ?a ?g) y"
    using ok assms(3-6) by (auto simp: conn_ok_def)
  ultimately show ?thesis using assms(1) by (simp add: hub_inv_def distinct_set_client)
qed

lemma op_hub_register_inv:
  assumes "hub_inv L h" and "validate_connection L (Some c) (ci_instance (h_identity h)) = Inr ()"
  shows "hub_inv L (snd (op_hub_register c p h))"
proof (cases "client h (cn_user c)")
  case None
  then show ?thesis using assms by (auto simp: op_hub_register_def Let_def create_inv)
next
  case (Some a)
  let ?u = "cn_user c"
  have set_del: "set_client ?u b ((del_client ?u h')\<lparr>h_heap := hp\<rparr>) = set_client ?u b (h'\<lparr>h_heap := hp\<rparr>)" for b h' hp
    by (simp add: set_client_def del_client_def)
  let ?d = "del_client ?u (close_conn a h)"
  have inv: "hub_inv L ?d" using close_registered [OF assms(1) Some] by simp
  have "hub_inv L (set_client ?u (length (h_heap ?d)) (?d\<lparr>h_heap := h_heap ?d @ [x]\<rparr>))"
    if "c_identity x = c" "c_outbound x = []" "c_controls x = []" "\<not> c_done x" for x
    using inv assms(2) that by (intro create_inv) simp_all
  then show ?thesis using assms(1) Some hub_invD [OF assms(1) Some]
    by (auto simp: op_hub_register_def Let_def set_del simp del: close_conn_open)
qed

lemma deliver_one_inv:
  assumes "hub_inv L h"
  shows "hub_inv L (snd (deliver_one now m c h))"
proof (cases "client h (cn_user c)")
  case None
  then show ?thesis using assms by (simp add: deliver_one_def)
next
  case (Some a)
  have "hub_inv L (close_conn a (del_client (cn_user c) (mark_slow a (h\<lparr>h_queueFull := h_queueFull h + 1\<rparr>))))"
    using assms Some by (intro close_registered(3) mark_slow_inv) simp_all
  moreover have "hub_inv L (upd_conn a (\<lambda>c. c\<lparr>c_outbound := c_outbound c @ [m]\<rparr>) h)"
    if "length (c_outbound (h_heap h ! a)) < h_queueSize h"
    using assms that hub_invD [OF assms Some] by (intro upd_conn_inv) (auto simp: conn_ok_def)
  ultimately show ?thesis using assms Some by (simp add: deliver_one_def Let_def del: close_conn_open)
qed

lemma deliver_loop_inv: "hub_inv L h \<Longrightarrow> hub_inv L (snd (deliver_loop clock n m is h))"
proof (induction "is" arbitrary: n h)
  case Nil
  then show ?case by simp
next
  case (Cons i "is")
  then show ?case using deliver_one_inv [of L h "clock n" m i] by (simp add: case_prod_beta Let_def)
qed

lemma hub_inv_cong:
  assumes "hub_inv L h" and "h_heap g = h_heap h" and "h_clients g = h_clients h" and "h_identity g = h_identity h"
    and "h_queueSize g = h_queueSize h" and "h_panic g = h_panic h" and "h_drain_flag g = h_draining g"
  shows "hub_inv L g"
proof -
  have "client g = client h" using assms(3) by (simp add: client_def)
  then show ?thesis using assms by (simp add: hub_inv_def table_ok_def conn_ok_def)
qed

lemma op_hub_drain_inv: "hub_inv L h \<Longrightarrow> hub_inv L (snd (op_hub_drain d h))"
  by (rule hub_inv_cong [of L h]) (simp_all add: op_hub_drain_def Let_def)

lemma op_hub_activate_inv: "hub_inv L h \<Longrightarrow> hub_inv L (snd (op_hub_activate a h))"
  using upd_conn_inv [of L h "\<lambda>c. c\<lparr>c_pending := False\<rparr>" a]
  by (auto simp: op_hub_activate_def hub_inv_def conn_ok_def)

lemma close_all_list:
  assumes "hub_inv L g" and "distinct (map fst cs)" and "\<And>u a. (u, a) \<in> set cs \<Longrightarrow> client g u = Some a"
  shows "hub_inv L (fold (\<lambda>(u, a) g. del_client u (close_conn a g)) cs g) \<and>
    client (fold (\<lambda>(u, a) g. del_client u (close_conn a g)) cs g) = client g |` (- (fst ` set cs))"
  using assms
proof (induction cs arbitrary: g)
  case Nil
  then show ?case by simp
next
  case (Cons p cs)
  obtain u a where p: "p = (u, a)" by fastforce
  let ?g = "del_client u (close_conn a g)"
  have ua: "client g u = Some a" using Cons.prems(3) p by simp
  then have inv: "hub_inv L ?g" using close_registered [OF Cons.prems(1)] by metis
  have cl: "client ?g = (client g)(u := None)" by simp
  have "hub_inv L (fold (\<lambda>(u, a) g. del_client u (close_conn a g)) cs ?g) \<and>
    client (fold (\<lambda>(u, a) g. del_client u (close_conn a g)) cs ?g) = client ?g |` (- (fst ` set cs))"
  proof (rule Cons.IH [OF inv])
    show "distinct (map fst cs)" using Cons.prems(2) by simp
    fix w b
    assume wb: "(w, b) \<in> set cs"
    then have "w \<noteq> u" using Cons.prems(2) p by (auto simp: image_iff)
    then show "client ?g w = Some b" using Cons.prems(3) wb unfolding cl by simp
  qed
  then show ?case using p unfolding cl by (auto simp: restrict_map_def fun_eq_iff)
qed

lemma close_all_inv:
  assumes "hub_inv L h"
  shows "hub_inv L (close_all h)" and "client (close_all h) = Map.empty"
proof -
  have "distinct (map fst (h_clients h))" using assms by (simp add: hub_inv_def)
  then have "client h u = Some a" if "(u, a) \<in> set (h_clients h)" for u a
    using that by (simp add: client_def)
  note l = close_all_list [OF assms \<open>distinct (map fst (h_clients h))\<close> this]
  show "hub_inv L (close_all h)" using l unfolding close_all_def by blast
  have "client h |` (- (fst ` set (h_clients h))) = Map.empty"
    by (auto simp: restrict_map_def client_def fun_eq_iff map_of_eq_None_iff)
  then show "client (close_all h) = Map.empty" using l unfolding close_all_def by simp
qed

lemma close_all_frame:
  "h_draining (close_all h) = h_draining h \<and> h_identity (close_all h) = h_identity h \<and> h_deadline (close_all h) = h_deadline h \<and>
   h_done (close_all h) = h_done h \<and> length (h_heap (close_all h)) = length (h_heap h)"
proof -
  have "h_draining (fold (\<lambda>(u, a) g. del_client u (close_conn a g)) cs g) = h_draining g \<and>
    h_identity (fold (\<lambda>(u, a) g. del_client u (close_conn a g)) cs g) = h_identity g \<and>
    h_deadline (fold (\<lambda>(u, a) g. del_client u (close_conn a g)) cs g) = h_deadline g \<and>
    h_done (fold (\<lambda>(u, a) g. del_client u (close_conn a g)) cs g) = h_done g \<and>
    length (h_heap (fold (\<lambda>(u, a) g. del_client u (close_conn a g)) cs g)) = length (h_heap g)" for cs g
    by (induction cs arbitrary: g) (simp_all add: case_prod_beta del: close_conn_open)
  then show ?thesis unfolding close_all_def by blast
qed

lemma all_closed:
  assumes "hub_inv L h" and "client h = Map.empty" and "a < length (h_heap h)"
  shows "c_done (h_heap h ! a)"
  using assms table_ok_owner [of h a] by (auto simp: hub_inv_def)

lemma hub_call_inv:
  assumes "hub_inv L h" and "hub_inv L (snd (f h))"
  shows "hub_inv L (snd (hub_call fate f h))"
  using assms by (auto simp: hub_call_def split: call_fate.splits option.splits)

lemma hub_register_inv: "hub_inv L h \<Longrightarrow> hub_inv L (snd (hub_register L fate i p h))"
  by (cases i) (auto simp: hub_register_def validate_connection_def [of L None] hub_call_inv op_hub_register_inv split: sum.splits)

lemma hub_unregister_inv: "hub_inv L h \<Longrightarrow> hub_inv L (snd (hub_unregister L fate i h))"
  by (auto simp: hub_unregister_def hub_call_inv op_hub_unregister_inv split: sum.splits)

lemma hub_deliver_inv: "hub_inv L h \<Longrightarrow> hub_inv L (snd (hub_deliver L fate clock task m ts h))"
  using deliver_loop_inv [of L h clock 0 "the m" "map the ts"]
  by (auto simp: hub_deliver_def case_prod_beta Let_def intro!: hub_call_inv split: sum.splits)

lemma hub_drain_inv: "hub_inv L h \<Longrightarrow> hub_inv L (snd (hub_drain fate now d h))"
  by (auto simp: hub_drain_def hub_call_inv op_hub_drain_inv)

lemma hub_activate_inv: "hub_inv L h \<Longrightarrow> hub_inv L (snd (hub_activate fate a h))"
  by (auto simp: hub_activate_def case_prod_beta Let_def hub_call_inv op_hub_activate_inv)

lemma hub_timer_inv: "hub_inv L h \<Longrightarrow> hub_inv L (hub_timer h)"
  by (simp add: hub_timer_def close_all_inv)

lemma hub_close_inv: "hub_inv L h \<Longrightarrow> hub_inv L (hub_close h)"
proof -
  assume "hub_inv L h"
  then have "hub_inv L (close_all (h\<lparr>h_done := True\<rparr>))" by (intro close_all_inv) simp
  then show ?thesis using \<open>hub_inv L h\<close> by (simp add: hub_close_def)
qed

lemma select_case_mem: "select_case pick ready = Some x \<Longrightarrow> x \<in> set ready"
  by (auto simp: select_case_def split: if_splits)

lemma queue_control_inv:
  assumes "hub_inv L h"
  shows "hub_inv L (snd (queue_control L ctx pick a ctl h))"
proof -
  have "hub_inv L (upd_conn a (\<lambda>c. c\<lparr>c_controls := c_controls c @ [ctl]\<rparr>) h)"
    if "length (c_controls (h_heap h ! a)) < h_queueSize h"
    using that assms by (intro upd_conn_inv) (auto simp: hub_inv_def conn_ok_def)
  moreover have "hub_inv L (snd (hub_unregister L Answered i (mark_slow a (h\<lparr>h_queueFull := n\<rparr>))))" for i n
    using assms by (intro hub_unregister_inv mark_slow_inv) simp
  moreover have "length (c_controls (h_heap h ! a)) < h_queueSize h"
    if "select_case pick (queue_ready ctx a h) = Some CaseSend"
    using select_case_mem [OF that] by (auto simp: queue_ready_def split: if_splits)
  ultimately show ?thesis using assms
    by (simp add: queue_control_def split: option.split queue_case.split)
qed

lemma conn_ok_at: "hub_inv L h \<Longrightarrow> a < length (h_heap h) \<Longrightarrow> conn_ok L h (h_heap h ! a)"
  by (simp add: hub_inv_def)

lemma take_outbound_inv: "hub_inv L h \<Longrightarrow> hub_inv L (snd (take_outbound a h))"
proof (cases "c_outbound (h_heap h ! a)")
  case (Cons m ms)
  assume "hub_inv L h"
  then have "hub_inv L (upd_conn a (\<lambda>c. c\<lparr>c_outbound := ms\<rparr>) h)"
    using Cons conn_ok_at [of L h a] by (intro upd_conn_inv) (auto simp: conn_ok_def)
  then show ?thesis by (simp add: take_outbound_def Cons)
qed (simp add: take_outbound_def)

lemma take_control_inv: "hub_inv L h \<Longrightarrow> hub_inv L (snd (take_control a h))"
proof (cases "c_controls (h_heap h ! a)")
  case (Cons x xs)
  assume "hub_inv L h"
  then have "hub_inv L (upd_conn a (\<lambda>c. c\<lparr>c_controls := xs\<rparr>) h)"
    using Cons conn_ok_at [of L h a] by (intro upd_conn_inv) (auto simp: conn_ok_def)
  then show ?thesis by (simp add: take_control_def Cons)
qed (simp add: take_control_def)

section \<open>Runs of the hub\<close>

text \<open>
  Everything that can happen to a hub, in the order the owner loop and the socket goroutines make it
  happen: calls with any outcome, the drain timer, \<open>Close\<close>, control frames, the writer taking frames,
  and a write timeout.
\<close>

datatype hub_event =
    EvRegister call_fate "conn_id option" bool
  | EvUnregister call_fate "conn_id option"
  | EvDeliver call_fate "nat \<Rightarrow> int" string "message_view option" "conn_id option list"
  | EvDrain call_fate int int
  | EvActivate call_fate nat
  | EvTimer
  | EvClose
  | EvControl "ctx_err option" nat nat socket_control
  | EvTakeMessage nat
  | EvTakeControl nat
  | EvWriteTimeout nat

fun hub_exec :: "lib \<Rightarrow> hub_event \<Rightarrow> hub \<Rightarrow> hub" where
  "hub_exec L (EvRegister fate i p) h = snd (hub_register L fate i p h)"
| "hub_exec L (EvUnregister fate i) h = snd (hub_unregister L fate i h)"
| "hub_exec L (EvDeliver fate clock task m ts) h = snd (hub_deliver L fate clock task m ts h)"
| "hub_exec L (EvDrain fate now d) h = snd (hub_drain fate now d h)"
| "hub_exec L (EvActivate fate a) h = snd (hub_activate fate a h)"
| "hub_exec L EvTimer h = (if h_timer h \<noteq> None \<and> \<not> h_done h then hub_timer h else h)"
| "hub_exec L EvClose h = hub_close h"
| "hub_exec L (EvControl ctx pick a ctl) h = snd (queue_control L ctx pick a ctl h)"
| "hub_exec L (EvTakeMessage a) h = snd (take_outbound a h)"
| "hub_exec L (EvTakeControl a) h = snd (take_control a h)"
| "hub_exec L (EvWriteTimeout a) h = mark_slow a h"

lemmas hub_ops_inv = hub_register_inv hub_unregister_inv hub_deliver_inv hub_drain_inv hub_activate_inv
  hub_timer_inv hub_close_inv queue_control_inv take_outbound_inv take_control_inv mark_slow_inv

lemma hub_exec_inv: "hub_inv L h \<Longrightarrow> hub_inv L (hub_exec L ev h)"
  by (cases ev) (simp_all add: hub_ops_inv)

lemma hub_run_inv: "hub_inv L h \<Longrightarrow> hub_inv L (fold (hub_exec L) evs h)"
  by (induction evs arbitrary: h) (simp_all add: hub_exec_inv)

lemma new_hub_inv: "new_hub L cid q = Inr h \<Longrightarrow> hub_inv L h"
  by (auto simp: new_hub_def bindE_eq_Inr hub_inv_def table_ok_def client_def)

section \<open>What a delivery does to the queues\<close>

lemma mark_slow_heap:
  "a < length (h_heap h) \<Longrightarrow> h_heap (mark_slow a h) = (h_heap h)[a := (h_heap h ! a)\<lparr>c_slow := True\<rparr>]"
proof -
  assume a: "a < length (h_heap h)"
  have "c_slow (h_heap h ! a) \<Longrightarrow> (h_heap h ! a)\<lparr>c_slow := True\<rparr> = h_heap h ! a"
    by (cases "h_heap h ! a") simp
  then have "c_slow (h_heap h ! a) \<Longrightarrow> (h_heap h)[a := (h_heap h ! a)\<lparr>c_slow := True\<rparr>] = h_heap h"
    by (metis list_update_id)
  then show ?thesis by (simp add: mark_slow_def upd_conn_def)
qed

lemma deliver_one_heap:
  assumes "hub_inv L h" and "deliver_one now m c h = (out, h')"
  shows "h_heap h' = h_heap h \<and> out \<noteq> DELIVERY_ENQUEUED \<or>
     (\<exists>a. client h (cn_user c) = Some a \<and> c_identity (h_heap h ! a) = c \<and> a < length (h_heap h) \<and> \<not> c_done (h_heap h ! a) \<and>
       (out = DELIVERY_ENQUEUED \<and> h_heap h' = (h_heap h)[a := (h_heap h ! a)\<lparr>c_outbound := c_outbound (h_heap h ! a) @ [m]\<rparr>] \<or>
        out = DELIVERY_QUEUE_FULL \<and> h_heap h' = (h_heap h)[a := (h_heap h ! a)\<lparr>c_slow := True, c_done := True\<rparr>]))"
proof (cases "h_draining h \<and> h_deadline h \<le> now \<or> client h (cn_user c) = None")
  case True
  then show ?thesis using assms(2) by (auto simp: deliver_one_def split: if_splits)
next
  case False
  then obtain a where a: "client h (cn_user c) = Some a" by auto
  note d = hub_invD [OF assms(1) a]
  show ?thesis
  proof (cases "c_pending (h_heap h ! a) \<or> c_identity (h_heap h ! a) \<noteq> c")
    case True
    then show ?thesis using assms(2) False a by (auto simp: deliver_one_def Let_def split: if_splits)
  next
    case ready: False
    show ?thesis
    proof (cases "length (c_outbound (h_heap h ! a)) < h_queueSize h")
      case True
      then have "out = DELIVERY_ENQUEUED" "h' = upd_conn a (\<lambda>c. c\<lparr>c_outbound := c_outbound c @ [m]\<rparr>) h"
        using assms(2) False ready a by (auto simp: deliver_one_def Let_def split: if_splits)
      then show ?thesis using a ready d by simp
    next
      case full: False
      let ?g = "mark_slow a (h\<lparr>h_queueFull := h_queueFull h + 1\<rparr>)"
      have g: "h_heap ?g = (h_heap h)[a := (h_heap h ! a)\<lparr>c_slow := True\<rparr>]" using d(1) by (simp add: mark_slow_heap)
      have "out = DELIVERY_QUEUE_FULL" "h' = close_conn a (del_client (cn_user c) ?g)"
        using assms(2) False ready a full by (auto simp: deliver_one_def Let_def split: if_splits simp del: close_conn_open)
      then show ?thesis using a ready d g by simp
    qed
  qed
qed

text \<open>Effect on one connection \<open>b\<close>.\<close>

lemma deliver_one_effect:
  assumes "hub_inv L h" and "deliver_one now m c h = (out, h')" and "b < length (h_heap h)"
  shows "length (h_heap h') = length (h_heap h) \<and>
     c_identity (h_heap h' ! b) = c_identity (h_heap h ! b) \<and>
     c_outbound (h_heap h' ! b) = c_outbound (h_heap h ! b) @
       (if out = DELIVERY_ENQUEUED \<and> \<not> c_done (h_heap h ! b) \<and> c_identity (h_heap h ! b) = c then [m] else []) \<and>
     (c_identity (h_heap h ! b) \<noteq> c \<longrightarrow> c_done (h_heap h' ! b) = c_done (h_heap h ! b)) \<and>
     (c_done (h_heap h ! b) \<longrightarrow> c_done (h_heap h' ! b))"
  using deliver_one_heap [OF assms(1,2)]
proof
  assume "h_heap h' = h_heap h \<and> out \<noteq> DELIVERY_ENQUEUED"
  then show ?thesis by simp
next
  assume "\<exists>a. client h (cn_user c) = Some a \<and> c_identity (h_heap h ! a) = c \<and> a < length (h_heap h) \<and> \<not> c_done (h_heap h ! a) \<and>
       (out = DELIVERY_ENQUEUED \<and> h_heap h' = (h_heap h)[a := (h_heap h ! a)\<lparr>c_outbound := c_outbound (h_heap h ! a) @ [m]\<rparr>] \<or>
        out = DELIVERY_QUEUE_FULL \<and> h_heap h' = (h_heap h)[a := (h_heap h ! a)\<lparr>c_slow := True, c_done := True\<rparr>])"
  then obtain a where a: "client h (cn_user c) = Some a" "c_identity (h_heap h ! a) = c" "a < length (h_heap h)" "\<not> c_done (h_heap h ! a)"
    and e: "out = DELIVERY_ENQUEUED \<and> h_heap h' = (h_heap h)[a := (h_heap h ! a)\<lparr>c_outbound := c_outbound (h_heap h ! a) @ [m]\<rparr>] \<or>
        out = DELIVERY_QUEUE_FULL \<and> h_heap h' = (h_heap h)[a := (h_heap h ! a)\<lparr>c_slow := True, c_done := True\<rparr>]"
    by blast
  have owner: "b = a" if "\<not> c_done (h_heap h ! b)" "c_identity (h_heap h ! b) = c"
    using that a(1) assms(1,3) table_ok_owner [of h b] by (simp add: hub_inv_def)
  show ?thesis
  proof (cases "b = a")
    case True
    then show ?thesis using a e by auto
  next
    case False
    then show ?thesis using owner e by auto
  qed
qed

text \<open>The connection that a delivery to an identity reaches, and whether the drain is over.\<close>

definition serves :: "hub \<Rightarrow> conn_id \<Rightarrow> nat \<Rightarrow> bool" where
  "serves h c b = (client h (cn_user c) = Some b \<and> c_identity (h_heap h ! b) = c \<and> \<not> c_pending (h_heap h ! b))"

definition drained :: "hub \<Rightarrow> int \<Rightarrow> bool" where
  "drained h now = (h_draining h \<and> h_deadline h \<le> now)"

lemma close_slow_heap:
  "b < length (h_heap h) \<Longrightarrow> \<not> c_done (h_heap h ! b) \<Longrightarrow>
   h_heap (close_conn b (del_client u (mark_slow b (h\<lparr>h_queueFull := n\<rparr>)))) = (h_heap h)[b := (h_heap h ! b)\<lparr>c_slow := True, c_done := True\<rparr>]"
  by (simp add: mark_slow_heap)

lemma deliver_one_exact:
  assumes "hub_inv L h" and "deliver_one now m c h = (out, h')"
  shows "drained h now \<longrightarrow> out = DELIVERY_DRAINING \<and> h' = h"
    and "\<not> drained h now \<longrightarrow> serves h c b \<longrightarrow> length (c_outbound (h_heap h ! b)) < h_queueSize h \<longrightarrow>
           out = DELIVERY_ENQUEUED \<and> h' = upd_conn b (\<lambda>c. c\<lparr>c_outbound := c_outbound c @ [m]\<rparr>) h"
    and "\<not> drained h now \<longrightarrow> serves h c b \<longrightarrow> \<not> length (c_outbound (h_heap h ! b)) < h_queueSize h \<longrightarrow>
           out = DELIVERY_QUEUE_FULL \<and> h' = close_conn b (del_client (cn_user c) (mark_slow b (h\<lparr>h_queueFull := h_queueFull h + 1\<rparr>)))"
    and "\<not> drained h now \<longrightarrow> (\<nexists>b. serves h c b) \<longrightarrow>
           (out = DELIVERY_NOT_FOUND \<or> out = DELIVERY_STALE \<and> (\<exists>b. client h (cn_user c) = Some b \<and> c_identity (h_heap h ! b) \<noteq> c \<and> \<not> c_pending (h_heap h ! b))) \<and>
           h_heap h' = h_heap h \<and> h_clients h' = h_clients h \<and> h_draining h' = h_draining h \<and> h_deadline h' = h_deadline h \<and> h_queueSize h' = h_queueSize h"
  using assms(2)
  by (auto simp: deliver_one_def drained_def serves_def Let_def split: if_splits option.splits)

text \<open>Room in the queue, and what a target is answered. A stale target is not found once a full queue closed the connection that
  replaced it.\<close>

definition room :: "hub \<Rightarrow> nat \<Rightarrow> bool" where
  "room h b = (length (c_outbound (h_heap h ! b)) < h_queueSize h)"

definition outcome_due :: "hub \<Rightarrow> int \<Rightarrow> conn_id \<Rightarrow> delivery_outcome \<Rightarrow> bool" where
  "outcome_due h now c out =
     (if drained h now then out = DELIVERY_DRAINING
      else case client h (cn_user c) of
        None \<Rightarrow> out = DELIVERY_NOT_FOUND
      | Some b \<Rightarrow>
        if serves h c b then out = (if room h b then DELIVERY_ENQUEUED else DELIVERY_QUEUE_FULL)
        else out = DELIVERY_NOT_FOUND \<or> out = DELIVERY_STALE \<and> c_identity (h_heap h ! b) \<noteq> c \<and> \<not> c_pending (h_heap h ! b))"

lemma deliver_one_step:
  assumes "hub_inv L h" and "deliver_one now m i h = (out, h')"
  shows "outcome_due h now i out" and "length (h_heap h') = length (h_heap h)"
    and "b < length (h_heap h) \<Longrightarrow> h_heap h' ! b =
           (if \<not> drained h now \<and> serves h i b
            then (if room h b then (h_heap h ! b)\<lparr>c_outbound := c_outbound (h_heap h ! b) @ [m]\<rparr>
                  else (h_heap h ! b)\<lparr>c_slow := True, c_done := True\<rparr>)
            else h_heap h ! b)"
    and "drained h' t = drained h t" and "h_queueSize h' = h_queueSize h"
    and "client h' = client h \<or> (\<exists>b. serves h i b \<and> client h' = (client h)(cn_user i := None))"
proof -
  note e = deliver_one_exact [OF assms]
  have all: "outcome_due h now i out \<and> length (h_heap h') = length (h_heap h) \<and> (\<forall>b < length (h_heap h). h_heap h' ! b =
           (if \<not> drained h now \<and> serves h i b
            then (if room h b then (h_heap h ! b)\<lparr>c_outbound := c_outbound (h_heap h ! b) @ [m]\<rparr>
                  else (h_heap h ! b)\<lparr>c_slow := True, c_done := True\<rparr>)
            else h_heap h ! b)) \<and> drained h' t = drained h t \<and> h_queueSize h' = h_queueSize h \<and>
       (client h' = client h \<or> (\<exists>b. serves h i b \<and> client h' = (client h)(cn_user i := None)))"
  proof (cases "drained h now")
    case True
    then show ?thesis using e(1) by (simp add: outcome_due_def)
  next
    case live: False
    show ?thesis
    proof (cases "\<exists>b. serves h i b")
      case False
      have c: "client h' = client h" using e(4) live False by (simp add: client_def)
      then show ?thesis using e(4) live False by (auto simp: outcome_due_def drained_def split: option.split)
    next
      case True
      then obtain a where a: "serves h i a" by blast
      then have c: "client h (cn_user i) = Some a" and only: "serves h i b = (b = a)" for b by (auto simp: serves_def)
      note d = hub_invD [OF assms(1) c]
      show ?thesis
      proof (cases "room h a")
        case True
        then have "out = DELIVERY_ENQUEUED" "h' = upd_conn a (\<lambda>c. c\<lparr>c_outbound := c_outbound c @ [m]\<rparr>) h"
          using e(2) [of a] live a by (simp_all add: room_def)
        then show ?thesis using a c live True only d by (auto simp: outcome_due_def drained_def upd_conn_def client_def)
      next
        case False
        let ?g = "mark_slow a (h\<lparr>h_queueFull := h_queueFull h + 1\<rparr>)"
        have g: "h_heap ?g = (h_heap h)[a := (h_heap h ! a)\<lparr>c_slow := True\<rparr>]" using d(1) by (simp add: mark_slow_heap)
        have o: "out = DELIVERY_QUEUE_FULL" and h': "h' = close_conn a (del_client (cn_user i) ?g)"
          using e(3) [of a] live a False by (simp_all add: room_def)
        have "h_heap h' = (h_heap h)[a := (h_heap h ! a)\<lparr>c_slow := True, c_done := True\<rparr>]"
          unfolding h' using d g by simp
        moreover have "client h' = (client h)(cn_user i := None)" unfolding h' by (simp add: client_def mark_slow_def upd_conn_def close_conn_def del_client_def map_of_filter_key)
        moreover have "h_draining h' = h_draining h" "h_deadline h' = h_deadline h" "h_queueSize h' = h_queueSize h"
          unfolding h' by (simp_all add: close_conn_def upd_conn_def mark_slow_def del_client_def)
        ultimately show ?thesis using a c o live False only d by (auto simp: outcome_due_def drained_def)
      qed
    qed
  qed
  show "outcome_due h now i out" using all by blast
  show "length (h_heap h') = length (h_heap h)" using all by blast
  show "b < length (h_heap h) \<Longrightarrow> h_heap h' ! b =
           (if \<not> drained h now \<and> serves h i b
            then (if room h b then (h_heap h ! b)\<lparr>c_outbound := c_outbound (h_heap h ! b) @ [m]\<rparr>
                  else (h_heap h ! b)\<lparr>c_slow := True, c_done := True\<rparr>)
            else h_heap h ! b)" using all by blast
  show "drained h' t = drained h t" using all by blast
  show "h_queueSize h' = h_queueSize h" using all by blast
  show "client h' = client h \<or> (\<exists>b. serves h i b \<and> client h' = (client h)(cn_user i := None))" using all by blast
qed

lemma deliver_one_others:
  assumes "hub_inv L h" and "deliver_one now m i h = (out, h')" and "c \<noteq> i"
  shows "serves h' c b = serves h c b" and "serves h c b \<Longrightarrow> room h' b = room h b"
    and "outcome_due h' t c o2 \<Longrightarrow> outcome_due h t c o2"
proof -
  note s = deliver_one_step [OF assms(1,2)]
  have at: "b < length (h_heap h)" if "client h (cn_user c) = Some b" for b using hub_invD(1) [OF assms(1) that] .
  have heap: "c_identity (h_heap h' ! b) = c_identity (h_heap h ! b) \<and> c_pending (h_heap h' ! b) = c_pending (h_heap h ! b)"
    if "b < length (h_heap h)" for b using s(3) [OF that] by simp
  have sub: "client h' (cn_user c) = client h (cn_user c) \<or>
      client h' (cn_user c) = None \<and> (\<exists>b. client h (cn_user c) = Some b \<and> c_identity (h_heap h ! b) = i)"
    using s(6)
  proof
    assume "\<exists>b. serves h i b \<and> client h' = (client h)(cn_user i := None)"
    then obtain b where "serves h i b" "client h' = (client h)(cn_user i := None)" by blast
    then show ?thesis by (cases "cn_user c = cn_user i") (simp_all add: serves_def)
  qed simp
  show v: "serves h' c b = serves h c b" for b
  proof (cases "client h (cn_user c) = Some b")
    case True
    then show ?thesis using sub heap [OF at [OF True]] assms(3) by (auto simp: serves_def)
  next
    case False
    then show ?thesis using sub by (auto simp: serves_def)
  qed
  show r: "serves h c b \<Longrightarrow> room h' b = room h b" for b
  proof -
    assume c: "serves h c b"
    then have "\<not> serves h i b" using assms(3) by (auto simp: serves_def)
    then show ?thesis using s(3) [of b] s(5) at [of b] c assms(3) by (simp add: room_def serves_def)
  qed
  show "outcome_due h' t c o2 \<Longrightarrow> outcome_due h t c o2"
  proof -
    assume o: "outcome_due h' t c o2"
    show ?thesis
    proof (cases "client h (cn_user c)")
      case None
      then show ?thesis using o sub s(4) [of t] by (auto simp: outcome_due_def)
    next
      case (Some a)
      note k = heap [OF at [OF Some]]
      show ?thesis
      proof (cases "client h' (cn_user c) = Some a")
        case True
        then show ?thesis using o Some k v [of a] r [of a] s(4) [of t] by (simp add: outcome_due_def split: if_splits)
      next
        case False
        then have n: "client h' (cn_user c) = None" and i: "c_identity (h_heap h ! a) = i" using sub Some by auto
        then have "\<not> serves h c a" using assms(3) by (auto simp: serves_def)
        then show ?thesis using o n Some s(4) [of t] by (simp add: outcome_due_def split: if_splits)
      qed
    qed
  qed
qed

lemma deliver_loop_exact:
  assumes "hub_inv L h" and "deliver_loop clock n m is h = (rs, h')" and "distinct is"
  shows "length rs = length is \<and>
     (\<forall>k < length is. dr_target (rs ! k) = Some (is ! k) \<and> outcome_due h (clock (n + k)) (is ! k) (dr_outcome (rs ! k))) \<and>
     length (h_heap h') = length (h_heap h) \<and>
     (\<forall>b < length (h_heap h). h_heap h' ! b =
        (if \<exists>k < length is. \<not> drained h (clock (n + k)) \<and> serves h (is ! k) b
         then (if room h b then (h_heap h ! b)\<lparr>c_outbound := c_outbound (h_heap h ! b) @ [m]\<rparr>
               else (h_heap h ! b)\<lparr>c_slow := True, c_done := True\<rparr>)
         else h_heap h ! b))"
  using assms
proof (induction "is" arbitrary: n h rs)
  case Nil
  then show ?case by simp
next
  case (Cons i "is")
  obtain out h1 where one: "deliver_one (clock n) m i h = (out, h1)" by fastforce
  obtain rs2 where loop: "deliver_loop clock (Suc n) m is h1 = (rs2, h')" and rs: "rs = \<lparr>dr_target = Some i, dr_outcome = out\<rparr> # rs2"
    using Cons.prems(2) one by (auto split: prod.splits)
  have inv: "hub_inv L h1" using deliver_one_inv [OF Cons.prems(1), of "clock n" m i] one by simp
  have "distinct is" using Cons.prems(3) by simp
  note s = deliver_one_step [OF Cons.prems(1) one]
  note IH = Cons.IH [OF inv loop \<open>distinct is\<close>]
  have ne: "is ! k \<noteq> i" if "k < length is" for k using that Cons.prems(3) by auto
  note o = deliver_one_others [OF Cons.prems(1) one ne]
  have outs: "outcome_due h (clock (n + k)) ((i # is) ! k) (dr_outcome (rs ! k)) \<and> dr_target (rs ! k) = Some ((i # is) ! k)"
    if "k < length (i # is)" for k
  proof (cases k)
    case 0
    then show ?thesis using s(1) by (simp add: rs)
  next
    case (Suc j)
    then have j: "j < length is" using that by simp
    then have "outcome_due h1 (clock (Suc n + j)) (is ! j) (dr_outcome (rs2 ! j))" using IH by blast
    then show ?thesis using o(3) [OF j] IH j Suc by (simp add: rs)
  qed
  have ex: "(\<exists>k < length (i # is). \<not> drained h (clock (n + k)) \<and> serves h ((i # is) ! k) b) \<longleftrightarrow>
      \<not> drained h (clock n) \<and> serves h i b \<or> (\<exists>k < length is. \<not> drained h1 (clock (Suc n + k)) \<and> serves h1 (is ! k) b)" for b
    using s(4) o(1) by (auto simp: Suc_le_eq less_Suc_eq_0_disj ex_disj_distrib)
  have heap: "h_heap h' ! b =
        (if \<exists>k < length (i # is). \<not> drained h (clock (n + k)) \<and> serves h ((i # is) ! k) b
         then (if room h b then (h_heap h ! b)\<lparr>c_outbound := c_outbound (h_heap h ! b) @ [m]\<rparr>
               else (h_heap h ! b)\<lparr>c_slow := True, c_done := True\<rparr>)
         else h_heap h ! b)" if b: "b < length (h_heap h)" for b
  proof (cases "\<exists>k < length is. \<not> drained h1 (clock (Suc n + k)) \<and> serves h1 (is ! k) b")
    case True
    then obtain k where k: "k < length is" "serves h1 (is ! k) b" by blast
    then have sv: "serves h (is ! k) b" using o(1) by blast
    then have "\<not> serves h i b" using ne [OF k(1)] by (auto simp: serves_def)
    then have "h_heap h1 ! b = h_heap h ! b" using s(3) [OF b] by simp
    moreover have "room h1 b = room h b" using o(2) [OF k(1) sv] .
    ultimately show ?thesis unfolding ex using IH True b s(2) by simp
  next
    case False
    then have "h_heap h' ! b = h_heap h1 ! b" using IH b s(2) by auto
    moreover have "(\<exists>k < length (i # is). \<not> drained h (clock (n + k)) \<and> serves h ((i # is) ! k) b) \<longleftrightarrow>
        \<not> drained h (clock n) \<and> serves h i b" using ex False by blast
    ultimately show ?thesis using s(3) [OF b] by simp
  qed
  show ?case using outs heap IH s(2) by (simp add: rs)
qed

section \<open>Draining\<close>

text \<open>No event clears the draining flag, moves the deadline later or opens a connection while draining.\<close>

definition tighter :: "hub \<Rightarrow> hub \<Rightarrow> bool" where
  "tighter h g = (h_draining g \<and> h_deadline g \<le> h_deadline h \<and> (\<forall>u a. client g u = Some a \<longrightarrow> client h u = Some a))"

lemma tighter_refl: "h_draining h \<Longrightarrow> tighter h h"
  by (simp add: tighter_def)

lemma tighter_trans: "tighter h g \<Longrightarrow> tighter g k \<Longrightarrow> tighter h k"
  by (auto simp: tighter_def)

lemma tighter_frame:
  "h_draining g \<Longrightarrow> h_deadline g = h_deadline h \<Longrightarrow> (\<And>u a. client g u = Some a \<Longrightarrow> client h u = Some a) \<Longrightarrow> tighter h g"
  by (simp add: tighter_def)

lemma deliver_one_tighter: "h_draining h \<Longrightarrow> tighter h (snd (deliver_one now m c h))"
  by (cases "client h (cn_user c)")
    (auto simp: deliver_one_def Let_def intro!: tighter_frame split: if_splits simp del: close_conn_open)

lemma deliver_loop_tighter: "h_draining h \<Longrightarrow> tighter h (snd (deliver_loop clock n m is h))"
proof (induction "is" arbitrary: n h)
  case Nil
  then show ?case by (simp add: tighter_refl)
next
  case (Cons i "is")
  have "tighter h (snd (deliver_one (clock n) m i h))" by (rule deliver_one_tighter [OF Cons.prems])
  moreover have "h_draining (snd (deliver_one (clock n) m i h))" using calculation by (simp add: tighter_def)
  ultimately show ?case using Cons.IH tighter_trans by (simp add: case_prod_beta Let_def)
qed

lemma hub_call_tighter: "h_draining h \<Longrightarrow> tighter h (snd (f h)) \<Longrightarrow> tighter h (snd (hub_call fate f h))"
  by (auto simp: hub_call_def tighter_refl split: call_fate.splits option.splits)

lemma unregister_tighter: "h_draining h \<Longrightarrow> tighter h (snd (hub_unregister L fate i h))"
proof -
  assume h: "h_draining h"
  have "tighter h (snd (op_hub_unregister c h))" for c
    using h by (cases "client h (cn_user c)")
      (auto simp: op_hub_unregister_def intro!: tighter_frame split: if_splits simp del: close_conn_open)
  then show ?thesis using h by (auto simp: hub_unregister_def hub_call_tighter tighter_refl split: sum.splits)
qed

lemma close_all_tighter: "hub_inv L h \<Longrightarrow> h_draining h \<Longrightarrow> tighter h (close_all h)"
  using close_all_frame [of h] by (intro tighter_frame) (simp_all add: close_all_inv)

lemma hub_exec_tighter:
  assumes "hub_inv L h" and "h_draining h"
  shows "tighter h (hub_exec L ev h)"
proof (cases ev)
  case (EvRegister fate i p)
  then show ?thesis using assms
    by (auto simp: hub_register_def op_hub_register_def hub_call_tighter tighter_refl split: sum.splits)
next
  case (EvUnregister fate i)
  then show ?thesis using assms(2) by (simp add: unregister_tighter)
next
  case (EvDeliver fate clock task m ts)
  then show ?thesis using assms(2) deliver_loop_tighter [OF assms(2), of clock 0 "the m" "map the ts"]
    by (auto simp: hub_deliver_def case_prod_beta Let_def tighter_refl intro!: hub_call_tighter split: sum.splits)
next
  case (EvDrain fate now d)
  have "tighter h (snd (op_hub_drain d h))" using assms(2) by (auto simp: op_hub_drain_def Let_def tighter_def client_def)
  then show ?thesis using EvDrain assms(2) by (auto simp: hub_drain_def hub_call_tighter tighter_refl)
next
  case (EvActivate fate a)
  then show ?thesis using assms(2)
    by (auto simp: hub_activate_def op_hub_activate_def case_prod_beta Let_def tighter_refl intro!: hub_call_tighter)
next
  case EvTimer
  then show ?thesis using close_all_tighter [OF assms] assms(2) by (auto simp: hub_timer_def tighter_refl) (simp add: tighter_def)
next
  case EvClose
  have "tighter h (close_all (h\<lparr>h_done := True\<rparr>))"
    using close_all_tighter [of L "h\<lparr>h_done := True\<rparr>"] assms by (simp add: tighter_def)
  then show ?thesis using EvClose assms(2) by (auto simp: hub_close_def tighter_refl) (simp add: tighter_def client_def)
next
  case (EvControl ctx pick a ctl)
  have "tighter h (snd (hub_unregister L Answered i (mark_slow a (h\<lparr>h_queueFull := n\<rparr>))))" for i n
    using unregister_tighter [of "mark_slow a (h\<lparr>h_queueFull := n\<rparr>)" L Answered i] assms(2) by (simp add: tighter_def)
  then show ?thesis using EvControl assms(2)
    by (auto simp: queue_control_def tighter_refl intro!: tighter_frame split: option.split queue_case.split)
next
  case (EvTakeMessage a)
  then show ?thesis using assms(2) by (auto simp: take_outbound_def intro!: tighter_frame split: list.split)
next
  case (EvTakeControl a)
  then show ?thesis using assms(2) by (auto simp: take_control_def intro!: tighter_frame split: list.split)
next
  case (EvWriteTimeout a)
  then show ?thesis using assms(2) by (auto intro!: tighter_frame)
qed

lemma hub_run_tighter: "hub_inv L h \<Longrightarrow> h_draining h \<Longrightarrow> tighter h (fold (hub_exec L) evs h)"
proof (induction evs arbitrary: h)
  case Nil
  then show ?case by (simp add: tighter_refl)
next
  case (Cons ev evs)
  have "tighter h (hub_exec L ev h)" using Cons.prems by (rule hub_exec_tighter)
  moreover have "tighter (hub_exec L ev h) (fold (hub_exec L) evs (hub_exec L ev h))"
    using calculation Cons.prems by (intro Cons.IH hub_exec_inv) (simp_all add: tighter_def)
  ultimately show ?case by (simp add: tighter_trans)
qed

section \<open>The hub as a fenced registry\<close>

definition hub_current :: "hub \<Rightarrow> string \<Rightarrow> conn_id option" where
  "hub_current h u = map_option (\<lambda>a. c_identity (h_heap h ! a)) (client h u)"

definition hub_ready :: "lib \<Rightarrow> hub \<Rightarrow> bool" where
  "hub_ready L h = (hub_inv L h \<and> \<not> h_done h)"

definition hub_release :: "lib \<Rightarrow> conn_id \<Rightarrow> hub \<Rightarrow> hub" where
  "hub_release L c h = snd (hub_unregister L Answered (Some c) h)"

definition hub_take :: "lib \<Rightarrow> bool \<Rightarrow> conn_id \<Rightarrow> hub \<Rightarrow> hub option" where
  "hub_take L pending c h =
     (case hub_register L Answered (Some c) pending h of (Inl _, _) \<Rightarrow> None | (Inr _, h') \<Rightarrow> Some h')"

lemma hub_current_valid:
  assumes "hub_inv L h" and "hub_current h u = Some c"
  shows "validate_connection L (Some c) (ci_instance (h_identity h)) = Inr () \<and> cn_user c = u"
  using assms hub_invD [OF assms(1)] by (auto simp: hub_current_def conn_ok_def)

lemma hub_release_eq:
  assumes "hub_ready L h"
  shows "hub_current (hub_release L c h) = (if hub_current h (cn_user c) = Some c then (hub_current h)(cn_user c := None) else hub_current h)"
proof (cases "client h (cn_user c)")
  case None
  then show ?thesis using assms
    by (auto simp: hub_release_def hub_unregister_def hub_call_def op_hub_unregister_def hub_current_def hub_ready_def split: sum.split)
next
  case (Some a)
  have inv: "hub_inv L h" using assms by (simp add: hub_ready_def)
  show ?thesis
  proof (cases "c_identity (h_heap h ! a) = c")
    case True
    have v: "validate_connection L (Some c) (ci_instance (h_identity h)) = Inr ()"
      using hub_invD [OF inv Some] True by (simp add: conn_ok_def)
    have "hub_release L c h = upd_conn a (\<lambda>c. c\<lparr>c_done := True\<rparr>) (del_client (cn_user c) h)"
      using v True Some assms close_registered(1) [OF inv Some]
      by (simp add: hub_release_def hub_unregister_def hub_call_def op_hub_unregister_def hub_ready_def del: close_conn_open)
    then show ?thesis using True Some hub_invD(1) [OF inv Some]
      by (auto simp: hub_current_def fun_eq_iff nth_list_update intro!: option.map_cong0)
  next
    case False
    then have "hub_release L c h = h" using Some assms
      by (auto simp: hub_release_def hub_unregister_def hub_call_def op_hub_unregister_def hub_ready_def split: sum.split)
    then show ?thesis using False Some by (simp add: hub_current_def)
  qed
qed

lemma hub_take_current:
  assumes "hub_ready L h" and "hub_take L p c h = Some h'"
  shows "hub_current h' = (hub_current h)(cn_user c \<mapsto> c) \<and> hub_ready L h'"
proof -
  have inv: "hub_inv L h" and open_hub: "\<not> h_done h" using assms(1) by (simp_all add: hub_ready_def)
  have v: "validate_connection L (Some c) (ci_instance (h_identity h)) = Inr ()"
    using assms(2) by (auto simp: hub_take_def hub_register_def split: sum.splits)
  have "\<exists>a. op_hub_register c p h = (Inr a, h')"
    using assms(2) v open_hub by (auto simp: hub_take_def hub_register_def hub_call_def split: sum.splits prod.splits)
  then obtain a where op: "op_hub_register c p h = (Inr a, h')" by (auto split: prod.splits)
  have "hub_inv L h'" using op_hub_register_inv [OF inv v, of p] op by simp
  moreover have "\<not> h_done h'" using op open_hub
    by (auto simp: op_hub_register_def Let_def set_client_def split: if_splits option.splits simp del: close_conn_open)
  moreover have "hub_current h' = (hub_current h)(cn_user c \<mapsto> c)"
  proof
    fix u
    have nd: "b < length (h_heap h)" if "client h u = Some b" for b using hub_invD(1) [OF inv that] .
    have same: "c_identity ((h_heap (close_conn d h)) ! b) = c_identity (h_heap h ! b)" for b d
      by (cases "d < length (h_heap h)") (auto simp: close_conn_def upd_conn_def nth_list_update list_update_beyond)
    have cl: "client (h\<lparr>h_heap := x\<rparr>) = client h" "client (h'\<lparr>h_heap := x\<rparr>) = client h'" for h h' x by (simp_all add: client_def)
    show "hub_current h' u = ((hub_current h)(cn_user c \<mapsto> c)) u"
      using op nd by (cases "client h u") (auto simp: op_hub_register_def Let_def hub_current_def nth_append same cl
        split: if_splits option.splits simp del: close_conn_open)
  qed
  ultimately show ?thesis by (simp add: hub_ready_def)
qed

interpretation hubs: fenced_registry "hub_ready L" hub_current cn_user "hub_release L" "hub_take L pending" for L pending
proof
  fix h c
  assume r: "hub_ready L h"
  show "hub_ready L (hub_release L c h)"
    using r hub_unregister_inv [of L h Answered "Some c"]
    by (auto simp: hub_ready_def hub_release_def hub_unregister_def hub_call_def op_hub_unregister_def
        split: sum.splits option.splits if_splits simp del: close_conn_open)
  show "hub_current h (cn_user c) = Some c \<Longrightarrow> hub_current (hub_release L c h) (cn_user c) = None"
    using hub_release_eq [OF r] by simp
  show "hub_current h (cn_user c) \<noteq> Some c \<Longrightarrow> hub_current (hub_release L c h) = hub_current h"
    using hub_release_eq [OF r] by simp
next
  fix h k and c :: conn_id
  assume "hub_ready L h" "k \<noteq> cn_user c"
  then show "hub_current (hub_release L c h) k = hub_current h k" using hub_release_eq by simp
next
  fix h h' c
  assume r: "hub_ready L h" and t: "hub_take L pending c h = Some h'"
  note f = hub_take_current [OF r t]
  show "hub_ready L h'" using f by simp
  show "hub_current h' (cn_user c) = Some c" using f by simp
  show "\<And>k. k \<noteq> cn_user c \<Longrightarrow> hub_current h' k = hub_current h k" using f by simp
qed


section \<open>Properties\<close>

lemma deliver_loop_targets: "map dr_target (fst (deliver_loop clock n m cs h)) = map Some cs"
  by (induction cs arbitrary: n h) (simp_all add: case_prod_beta Let_def)

lemma hub_loop_deliver:
  "validate_delivery L task (Some m) (map Some cs) (ci_instance (h_identity h)) = Inr () \<Longrightarrow> \<not> h_done h \<Longrightarrow>
   hub_deliver L Answered clock task (Some m) (map Some cs) h =
     (let (rs, h') = deliver_loop clock 0 m cs h in (Inr rs, h'))"
  by (simp add: hub_deliver_def hub_call_def o_def)

definition hub_a :: hub where
  "hub_a = \<lparr>h_identity = comet_a, h_queueSize = 1, h_heap = [], h_clients = [], h_draining = False,
            h_deadline = zero_ns, h_timer = None, h_drain_flag = False, h_signal = False,
            h_queueFull = 0, h_stale = 0, h_slowCloses = 0, h_done = False, h_stopped = False, h_panic = False\<rparr>"

definition view_a :: message_view where
  "view_a = \<lparr>mv_id = ''M'' @ uuid_a, mv_conversation = ''direct:S'' @ uuid_a, mv_session = ''S'' @ uuid_a,
             mv_sender = user_b, mv_dest = Some \<lparr>d_type = RECEIVE_TYPE_USER, d_id = user_a\<rparr>,
             mv_type = MESSAGE_TYPE_TEXT, mv_content = ''hi'', mv_origin = MESSAGE_ORIGIN_USER,
             mv_created = Some (ts_new 1700000000000000000), mv_position = 1\<rparr>"

definition task_a :: string where "task_a = ''push:v1:M'' @ uuid_a @ '':0''"

lemma hub_a_new: "new_hub doc_lib (Some comet_a) 1 = Inr hub_a"
proof -
  have "validate_comet doc_lib (Some comet_a) = Inr ()" using validate_comet_iff by simp
  then show ?thesis by (simp add: hub_a_def new_hub_def)
qed

definition hub_b :: hub where
  "hub_b = snd (hub_register doc_lib Answered (Some conn_a) False hub_a)"

lemma hub_b_inv: "hub_inv doc_lib hub_b"
  unfolding hub_b_def by (intro hub_register_inv new_hub_inv [OF hub_a_new])

lemma view_a_valid: "validate_message doc_lib (Some view_a) = Inr ()"
proof -
  have "valid_id doc_lib (mv_id view_a) (CHR ''M'')" "valid_id doc_lib (mv_session view_a) (CHR ''S'')"
    "utf8_valid (mv_content view_a)" "ts_check doc_lib (the (mv_created view_a))"
    "as_time (the (mv_created view_a)) \<noteq> zero_ns" by code_simp+
  moreover have "mv_position view_a \<le> max_int64" by (simp add: view_a_def max_int64_def)
  ultimately show ?thesis by (simp add: validate_message_def view_a_def max_content_def guardE_def)
qed

lemma conns_comet_1 [simp]:
  "validate_connection doc_lib (Some conn_a) ''comet-1'' = Inr ()" "validate_connection doc_lib (Some conn_c) ''comet-1'' = Inr ()"
proof -
  have "valid_connection doc_lib (Some conn_a)" "valid_connection doc_lib (Some conn_c)" by simp_all
  then show "validate_connection doc_lib (Some conn_a) ''comet-1'' = Inr ()" "validate_connection doc_lib (Some conn_c) ''comet-1'' = Inr ()"
    unfolding validate_connection_iff valid_connection_def by (simp_all add: conn_a_def conn_c_def)
qed

lemma delivery_a_ok: "validate_delivery doc_lib task_a (Some view_a) [Some conn_a, Some conn_c] ''comet-1'' = Inr ()"
proof -
  have "task_a = task_prefix (mv_id view_a) @ format_nat 0" by code_simp
  moreover have "conn_a \<noteq> conn_c" by (simp add: conn_a_def conn_c_def)
  ultimately show ?thesis by (auto simp: validate_delivery_iff view_a_valid intro!: exI [of _ "0::nat"])
qed

text \<open>C7. Whatever happens to a hub in whatever order (calls that are answered, abandoned or cancelled, the
  drain timer, closing, socket writers taking or queueing frames), no channel is closed twice, the
  table holds exactly the open connections, a user has at most one open connection, and no queue
  outgrows its capacity.\<close>

theorem hub_runs_sound:
  assumes "new_hub L cid q = Inr h0" and "h = fold (hub_exec L) evs h0"
  shows "\<not> h_panic h \<and>
     (\<forall>a < length (h_heap h). (\<not> c_done (h_heap h ! a)) = (client h (cn_user (c_identity (h_heap h ! a))) = Some a)) \<and>
     (\<forall>a < length (h_heap h). \<forall>b < length (h_heap h).
        \<not> c_done (h_heap h ! a) \<and> \<not> c_done (h_heap h ! b) \<and>
        cn_user (c_identity (h_heap h ! a)) = cn_user (c_identity (h_heap h ! b)) \<longrightarrow> a = b) \<and>
     (\<forall>c \<in> set (h_heap h). length (c_outbound c) \<le> h_queueSize h \<and> length (c_controls c) \<le> h_queueSize h)"
proof -
  have inv: "hub_inv L h" using assms hub_run_inv new_hub_inv by blast
  then have owner: "(\<not> c_done (h_heap h ! a)) = (client h (cn_user (c_identity (h_heap h ! a))) = Some a)"
    if "a < length (h_heap h)" for a
    using that table_ok_owner by (simp add: hub_inv_def)
  have "a = b" if "a < length (h_heap h)" "b < length (h_heap h)" "\<not> c_done (h_heap h ! a)" "\<not> c_done (h_heap h ! b)"
    "cn_user (c_identity (h_heap h ! a)) = cn_user (c_identity (h_heap h ! b))" for a b
    using owner [OF that(1)] owner [OF that(2)] that(3-5) by simp
  moreover have "\<not> h_panic h" using inv by (simp add: hub_inv_def)
  moreover have "\<forall>c \<in> set (h_heap h). length (c_outbound c) \<le> h_queueSize h \<and> length (c_controls c) \<le> h_queueSize h"
    using inv by (simp add: hub_inv_def conn_ok_def)
  ultimately show ?thesis using owner by blast
qed

theorem hub_runs_sound_witness:
  "\<not> h_panic (fold (hub_exec doc_lib) [EvRegister Answered (Some conn_a) False, EvRegister Answered (Some conn_b) True, EvClose, EvClose] hub_a)"
  using hub_runs_sound [OF hub_a_new refl] by blast



text \<open>Late unregistrations of other connections (the cleanup of a replaced socket, a kick that arrives
  after the user reconnected), in any number and order, leave the connection that took over in place
  (the fenced-registry contract, interpreted on the hub).\<close>

theorem late_unregisters_harmless:
  assumes "hub_ready L h" and "hub_take L pending c h = Some h'" and "c \<notin> set cs"
  shows "hub_current (fold (hub_release L) cs h') (cn_user c) = Some c"
  using assms by (rule hubs.takeover_survives)

theorem late_unregisters_harmless_witness:
  "hub_current (fold (hub_release doc_lib) [conn_a] (snd (hub_register doc_lib Answered (Some conn_b) True hub_b))) user_a = Some conn_b"
proof -
  have v: "validate_connection doc_lib (Some conn_b) ''comet-1'' = Inr ()"
    using samples_valid(8) unfolding validate_connection_iff valid_connection_def by (simp add: conn_b_def)
  have b: "h_identity hub_b = comet_a \<and> \<not> h_done hub_b \<and> \<not> h_draining hub_b"
    by (simp add: hub_b_def hub_register_def hub_call_def op_hub_register_def hub_a_def client_def set_client_def comet_a_def)
  then have "hub_ready doc_lib hub_b" using hub_b_inv by (simp add: hub_ready_def)
  moreover have "\<exists>a g. op_hub_register conn_b True hub_b = (Inr a, g)"
    using b by (simp add: op_hub_register_def Let_def split: option.split)
  then have "hub_take doc_lib True conn_b hub_b = Some (snd (hub_register doc_lib Answered (Some conn_b) True hub_b))"
    using v b by (auto simp: hub_take_def hub_register_def hub_call_def comet_a_def)
  moreover have "cn_user conn_b = user_a" by (simp add: conn_b_def)
  ultimately show ?thesis using late_unregisters_harmless [of doc_lib hub_b True conn_b _ "[conn_a]"] by simp
qed

text \<open>Draining is final: once a hub drains, no event ever opens a connection, moves the deadline later or
  clears the flag; after the drain timer fired every connection is closed and stays closed.\<close>

theorem drain_is_final:
  assumes "hub_inv L h" and "h_draining h" and "g = fold (hub_exec L) evs h"
  shows "h_draining g \<and> h_deadline g \<le> h_deadline h \<and> (\<forall>u a. client g u = Some a \<longrightarrow> client h u = Some a) \<and>
     (\<forall>evs'. h_timer h \<noteq> None \<and> \<not> h_done h \<longrightarrow>
        (\<forall>a < length (h_heap (fold (hub_exec L) evs' (hub_exec L EvTimer h))).
           c_done (h_heap (fold (hub_exec L) evs' (hub_exec L EvTimer h)) ! a)))"
proof -
  have "c_done (h_heap (fold (hub_exec L) evs' (hub_exec L EvTimer h)) ! a)"
    if "h_timer h \<noteq> None" "\<not> h_done h" "a < length (h_heap (fold (hub_exec L) evs' (hub_exec L EvTimer h)))" for evs' a
  proof (rule all_closed [OF _ _ that(3)])
    have inv: "hub_inv L (hub_exec L EvTimer h)" using assms(1) by (rule hub_exec_inv)
    then show "hub_inv L (fold (hub_exec L) evs' (hub_exec L EvTimer h))" by (rule hub_run_inv)
    have "h_draining (hub_exec L EvTimer h)" using hub_exec_tighter [OF assms(1,2), of EvTimer] unfolding tighter_def by blast
    then have "tighter (hub_exec L EvTimer h) (fold (hub_exec L) evs' (hub_exec L EvTimer h))"
      using inv by (intro hub_run_tighter)
    moreover have "client (hub_exec L EvTimer h) = Map.empty"
      using that(1,2) close_all_inv(2) [OF assms(1)] by (simp add: hub_timer_def)
    ultimately show "client (fold (hub_exec L) evs' (hub_exec L EvTimer h)) = Map.empty"
      by (auto simp: tighter_def fun_eq_iff)
  qed
  then show ?thesis using hub_run_tighter [OF assms(1,2), of evs] assms(3) unfolding tighter_def by blast
qed

theorem drain_is_final_witness:
  "h_draining (fold (hub_exec doc_lib) [EvRegister Answered (Some conn_b) False]
     (snd (hub_drain Answered 0 1000 hub_b)))"
proof -
  have "hub_inv doc_lib (snd (hub_drain Answered 0 1000 hub_b))" using hub_b_inv by (rule hub_drain_inv)
  moreover have "\<not> h_done hub_b"
    by (simp add: hub_b_def hub_register_def hub_call_def op_hub_register_def hub_a_def client_def set_client_def comet_a_def)
  then have "h_draining (snd (hub_drain Answered 0 1000 hub_b))"
    by (simp add: hub_drain_def drain_limit_def ns_per_s_def hub_call_def op_hub_drain_def Let_def)
  ultimately show ?thesis using drain_is_final [OF _ _ refl] by blast
qed

text \<open>A connection whose registration with Logic is still pending receives nothing: a delivery leaves
  its queue empty. Activation succeeds only for the connection that is still the current one of its
  user on a hub that neither drains nor ended, and only clears the pending mark.\<close>

theorem pending_receives_nothing:
  assumes "hub_inv L h" and "deliver_one now m c h = (out, h')" and "b < length (h_heap h)"
    and "c_pending (h_heap h ! b)" and "\<not> c_done (h_heap h ! b)"
  shows "c_outbound (h_heap h' ! b) = c_outbound (h_heap h ! b) \<and>
     (c_identity (h_heap h ! b) = c \<longrightarrow> out \<in> {DELIVERY_NOT_FOUND, DELIVERY_DRAINING} \<and> h' = h) \<and>
     (\<forall>g. hub_activate Answered b h = (Inr (), g) \<longrightarrow>
        client h (cn_user (c_identity (h_heap h ! b))) = Some b \<and> \<not> h_draining h \<and> \<not> h_done h \<and>
        g = upd_conn b (\<lambda>c. c\<lparr>c_pending := False\<rparr>) h)"
proof -
  have own: "client h (cn_user (c_identity (h_heap h ! b))) = Some b"
    using assms(1,3,5) table_ok_owner [of h b] by (simp add: hub_inv_def)
  have same: "out \<in> {DELIVERY_NOT_FOUND, DELIVERY_DRAINING} \<and> h' = h" if "c_identity (h_heap h ! b) = c"
    using assms(2,4) own that by (auto simp: deliver_one_def Let_def split: if_splits)
  then have "c_outbound (h_heap h' ! b) = c_outbound (h_heap h ! b)"
    using deliver_one_effect [OF assms(1-3)] by auto
  then show ?thesis using own same
    by (auto simp: hub_activate_def hub_call_def op_hub_activate_def bindE_eq_Inr split: if_splits prod.splits)
qed

theorem pending_receives_nothing_witness:
  "snd (deliver_one 0 view_a conn_a (snd (hub_register doc_lib Answered (Some conn_a) True hub_a))) =
   snd (hub_register doc_lib Answered (Some conn_a) True hub_a)"
proof -
  let ?h = "snd (hub_register doc_lib Answered (Some conn_a) True hub_a)"
  have "hub_inv doc_lib ?h" by (intro hub_register_inv new_hub_inv [OF hub_a_new])
  moreover have "0 < length (h_heap ?h)" "c_pending (h_heap ?h ! 0)" "\<not> c_done (h_heap ?h ! 0)" "c_identity (h_heap ?h ! 0) = conn_a"
    by (simp_all add: hub_register_def hub_call_def op_hub_register_def hub_a_def client_def comet_a_def)
  moreover obtain out h' where "deliver_one 0 view_a conn_a ?h = (out, h')" by fastforce
  ultimately show ?thesis using pending_receives_nothing [of doc_lib ?h 0 view_a conn_a out h' 0] by simp
qed

end
