(* ===== verification/CometRpc.thy ===== *)
theory CometRpc
  imports Hub
begin

text \<open>
  \<open>internal/comet/rpc.go\<close>: the three RPCs of a Comet process. Each handler authorizes its caller by
  the role's bearer token, fences on instance and boot, and only then reaches the hub. The incoming
  metadata is the list of \<open>authorization\<close> values; a nil request is \<open>None\<close>.
\<close>

section \<open>Service\<close>

record rpc_credentials =
  job_token :: string
  logic_token :: string
  admin_token :: string

definition credential_ok :: "string \<Rightarrow> bool" where
  "credential_ok t = (32 \<le> length t \<and> length t \<le> 256 \<and> all_bytes 33 126 t)"

text \<open>The loop of \<open>NewRPCService\<close>: each token is checked, then compared with the ones before it.\<close>

fun check_tokens :: "string list \<Rightarrow> string list \<Rightarrow> comet_error + unit" where
  "check_tokens seen [] = Inr ()"
| "check_tokens seen (t # ts) =
     (if \<not> credential_ok t then Inl (ErrInvalid ''service credentials'')
      else if t \<in> set seen then Inl (ErrInvalid ''role credentials must differ'')
      else check_tokens (seen @ [t]) ts)"

definition new_rpc_service :: "hub option \<Rightarrow> rpc_credentials \<Rightarrow> comet_error + rpc_credentials" where
  "new_rpc_service h cr =
     (if h = None then Inl (ErrInvalid ''hub'')
      else bindE (check_tokens [] [job_token cr, logic_token cr, admin_token cr]) (\<lambda>_. Inr cr))"

definition rpc_error :: "rpc_code \<Rightarrow> error_reason \<Rightarrow> retry_directive \<Rightarrow> string \<Rightarrow> rpc_status" where
  "rpc_error k reason retry request =
     \<lparr>st_code = k, st_details = [\<lparr>ed_reason = reason, ed_retry = retry, ed_request = request\<rparr>]\<rparr>"

definition comet_map_error :: "comet_error \<Rightarrow> string \<Rightarrow> rpc_status" where
  "comet_map_error e request =
     (case e of
        ErrCtx CtxCanceled \<Rightarrow> \<lparr>st_code = Canceled, st_details = []\<rparr>
      | ErrCtx CtxDeadlineExceeded \<Rightarrow> \<lparr>st_code = DeadlineExceeded, st_details = []\<rparr>
      | ErrInvalid _ \<Rightarrow> rpc_error InvalidArgument REASON_INVALID_ARGUMENT RETRY_DO_NOT_RETRY request
      | ErrDraining \<Rightarrow> rpc_error Unavailable REASON_DRAINING RETRY_REFRESH_ROUTE request
      | ErrClosed \<Rightarrow> rpc_error Unavailable REASON_DEPENDENCY_UNAVAILABLE RETRY_REFRESH_ROUTE request)"

definition unauthenticated :: rpc_status where
  "unauthenticated = rpc_error Unauthenticated REASON_UNAUTHENTICATED RETRY_REAUTHENTICATE ''''"

definition rpc_authorize :: "rpc_credentials \<Rightarrow> string list \<Rightarrow> string \<Rightarrow> rpc_status + unit" where
  "rpc_authorize cr md expected =
     (case md of
        [v] \<Rightarrow>
          if \<not> has_prefix v ''Bearer '' then Inl unauthenticated
          else
            let token = trim_prefix v ''Bearer '' in
            if token = expected then Inr ()
            else if token = job_token cr \<or> token = logic_token cr \<or> token = admin_token cr
            then Inl (rpc_error PermissionDenied REASON_PERMISSION_DENIED RETRY_DO_NOT_RETRY '''')
            else Inl unauthenticated
      | _ \<Rightarrow> Inl unauthenticated)"

definition check_identity :: "lib \<Rightarrow> hub \<Rightarrow> comet_id option \<Rightarrow> string \<Rightarrow> rpc_status + unit" where
  "check_identity L h cid request =
     (if \<not> valid_request_id request \<or> (case validate_comet L cid of Inl _ \<Rightarrow> True | Inr _ \<Rightarrow> False)
      then Inl (rpc_error InvalidArgument REASON_INVALID_ARGUMENT RETRY_DO_NOT_RETRY '''')
      else if \<not> same_comet cid (Some (h_identity h))
      then Inl (rpc_error FailedPrecondition REASON_INSTANCE_NOT_REGISTERED RETRY_REFRESH_ROUTE request)
      else Inr ())"

section \<open>Requests and handlers\<close>

record deliver_request =
  dq_request :: string
  dq_comet :: "comet_id option"
  dq_task :: string
  dq_message :: "message_view option"
  dq_targets :: "conn_id option list"

record deliver_response =
  dp_task :: string
  dp_message :: string
  dp_results :: "delivery_result list"

record kick_request =
  kq_request :: string
  kq_comet :: "comet_id option"
  kq_target :: "conn_id option"
  kq_reason :: kick_reason

record drain_request =
  nq_request :: string
  nq_comet :: "comet_id option"
  nq_deadline :: "timestamp option"

record drain_response =
  np_deadline :: timestamp
  np_already :: bool
  np_active :: nat

definition rpc_deliver ::
  "lib \<Rightarrow> rpc_credentials \<Rightarrow> string list \<Rightarrow> call_fate \<Rightarrow> (nat \<Rightarrow> int) \<Rightarrow> deliver_request option \<Rightarrow> hub \<Rightarrow>
   (rpc_status + deliver_response) \<times> hub" where
  "rpc_deliver L cr md fate clock req h =
     (case rpc_authorize cr md (job_token cr) of
        Inl e \<Rightarrow> (Inl e, h)
      | Inr _ \<Rightarrow>
        case req of
          None \<Rightarrow> (Inl (comet_map_error (ErrInvalid '''') ''''), h)
        | Some q \<Rightarrow>
          case check_identity L h (dq_comet q) (dq_request q) of
            Inl e \<Rightarrow> (Inl e, h)
          | Inr _ \<Rightarrow>
            let (r, h') = hub_deliver L fate clock (dq_task q) (dq_message q) (dq_targets q) h in
            (case r of
               Inl e \<Rightarrow> Inl (comet_map_error e (dq_request q))
             | Inr rs \<Rightarrow> Inr \<lparr>dp_task = dq_task q, dp_message = mv_id (the (dq_message q)), dp_results = rs\<rparr>, h'))"

definition rpc_kick ::
  "lib \<Rightarrow> rpc_credentials \<Rightarrow> string list \<Rightarrow> call_fate \<Rightarrow> kick_request option \<Rightarrow> hub \<Rightarrow>
   (rpc_status + delete_outcome) \<times> hub" where
  "rpc_kick L cr md fate req h =
     (case rpc_authorize cr md (logic_token cr) of
        Inl e \<Rightarrow> (Inl e, h)
      | Inr _ \<Rightarrow>
        case req of
          None \<Rightarrow> (Inl (comet_map_error (ErrInvalid '''') ''''), h)
        | Some q \<Rightarrow>
          case check_identity L h (kq_comet q) (kq_request q) of
            Inl e \<Rightarrow> (Inl e, h)
          | Inr _ \<Rightarrow>
            if kq_reason q \<noteq> KICK_REASON_REPLACED \<and> kq_reason q \<noteq> KICK_REASON_AUTH_EXPIRED \<and>
               kq_reason q \<noteq> KICK_REASON_SHUTDOWN
            then (Inl (comet_map_error (ErrInvalid '''') (kq_request q)), h)
            else
              let (r, h') = hub_unregister L fate (kq_target q) h in
              (mapErr (\<lambda>e. comet_map_error e (kq_request q)) r, h'))"

definition rpc_drain ::
  "lib \<Rightarrow> rpc_credentials \<Rightarrow> string list \<Rightarrow> call_fate \<Rightarrow> int \<Rightarrow> drain_request option \<Rightarrow> hub \<Rightarrow>
   (rpc_status + drain_response) \<times> hub" where
  "rpc_drain L cr md fate now req h =
     (case rpc_authorize cr md (admin_token cr) of
        Inl e \<Rightarrow> (Inl e, h)
      | Inr _ \<Rightarrow>
        case req of
          None \<Rightarrow> (Inl (comet_map_error (ErrInvalid '''') ''''), h)
        | Some q \<Rightarrow>
          case check_identity L h (nq_comet q) (nq_request q) of
            Inl e \<Rightarrow> (Inl e, h)
          | Inr _ \<Rightarrow>
            case nq_deadline q of
              None \<Rightarrow> (Inl (comet_map_error (ErrInvalid '''') (nq_request q)), h)
            | Some d \<Rightarrow>
              if \<not> ts_check L d then (Inl (comet_map_error (ErrInvalid '''') (nq_request q)), h)
              else
                let (r, h') = hub_drain fate now (as_time d) h in
                (case r of
                   Inl e \<Rightarrow> Inl (comet_map_error e (nq_request q))
                 | Inr s \<Rightarrow> Inr \<lparr>np_deadline = ts_new (ds_deadline s), np_already = ds_already s,
                                np_active = ds_active s\<rparr>, h'))"

section \<open>Authorization\<close>

lemma rpc_authorize_ok: "rpc_authorize cr md expected = Inr u \<Longrightarrow> md = [''Bearer '' @ expected]"
  by (auto simp: rpc_authorize_def Let_def split: list.splits if_splits dest!: has_prefixE)

lemma check_tokens_ok:
  "check_tokens seen ts = Inr u \<longleftrightarrow> list_all credential_ok ts \<and> distinct ts \<and> set ts \<inter> set seen = {}"
  by (induction ts arbitrary: seen) auto

lemma new_rpc_service_ok:
  "new_rpc_service h cr = Inr s \<longleftrightarrow>
     s = cr \<and> h \<noteq> None \<and> list_all credential_ok [job_token cr, logic_token cr, admin_token cr] \<and>
     distinct [job_token cr, logic_token cr, admin_token cr]"
  by (auto simp: new_rpc_service_def bindE_eq_Inr check_tokens_ok)

lemma check_identity_ok: "check_identity L h cid r = Inr u \<Longrightarrow> cid = Some (h_identity h)"
  by (cases cid) (auto simp: check_identity_def split: if_splits sum.splits)

lemma rpc_deliver_inv: "hub_inv L h \<Longrightarrow> hub_inv L (snd (rpc_deliver L cr md fate clock req h))"
  using hub_deliver_inv [of L h]
  by (auto simp: rpc_deliver_def Let_def case_prod_beta split: sum.splits option.splits)

lemma rpc_kick_inv: "hub_inv L h \<Longrightarrow> hub_inv L (snd (rpc_kick L cr md fate req h))"
  using hub_unregister_inv [of L h]
  by (auto simp: rpc_kick_def Let_def case_prod_beta split: sum.splits option.splits)

lemma rpc_drain_inv: "hub_inv L h \<Longrightarrow> hub_inv L (snd (rpc_drain L cr md fate now req h))"
  using hub_drain_inv [of L h]
  by (auto simp: rpc_drain_def Let_def case_prod_beta split: sum.splits option.splits)

text \<open>C9. The RPCs separate the roles and fence the boot: with the three credentials \<open>NewRPCService\<close> accepts,
  a caller that changes the hub through an RPC presented exactly the bearer token of that RPC's role
  (so no other role's token works) and named this process's instance and boot.\<close>

theorem rpc_roles_fenced:
  assumes "new_rpc_service (Some h) cr = Inr cr"
  shows "(snd (rpc_deliver L cr md fate clock dq h) \<noteq> h \<longrightarrow>
            md = [''Bearer '' @ job_token cr] \<and> (\<exists>q. dq = Some q \<and> dq_comet q = Some (h_identity h))) \<and>
         (snd (rpc_kick L cr md fate kq h) \<noteq> h \<longrightarrow>
            md = [''Bearer '' @ logic_token cr] \<and> (\<exists>q. kq = Some q \<and> kq_comet q = Some (h_identity h))) \<and>
         (snd (rpc_drain L cr md fate now nq h) \<noteq> h \<longrightarrow>
            md = [''Bearer '' @ admin_token cr] \<and> (\<exists>q. nq = Some q \<and> nq_comet q = Some (h_identity h))) \<and>
         (\<forall>t e. md = [''Bearer '' @ t] \<and> t \<in> {job_token cr, logic_token cr, admin_token cr} \<and> t \<noteq> e \<longrightarrow>
            rpc_authorize cr md e = Inl (rpc_error PermissionDenied REASON_PERMISSION_DENIED RETRY_DO_NOT_RETRY '''')) \<and>
         distinct [job_token cr, logic_token cr, admin_token cr]"
proof -
  have d: "snd (rpc_deliver L cr md fate clock dq h) = h"
    if "\<not> (md = [''Bearer '' @ job_token cr] \<and> (\<exists>q. dq = Some q \<and> dq_comet q = Some (h_identity h)))"
    using that rpc_authorize_ok [of cr md "job_token cr"] check_identity_ok [of L h]
    by (cases "rpc_authorize cr md (job_token cr)"; cases dq)
      (auto simp: rpc_deliver_def split: sum.split)
  have k: "snd (rpc_kick L cr md fate kq h) = h"
    if "\<not> (md = [''Bearer '' @ logic_token cr] \<and> (\<exists>q. kq = Some q \<and> kq_comet q = Some (h_identity h)))"
    using that rpc_authorize_ok [of cr md "logic_token cr"] check_identity_ok [of L h]
    by (cases "rpc_authorize cr md (logic_token cr)"; cases kq)
      (auto simp: rpc_kick_def split: sum.split)
  have n: "snd (rpc_drain L cr md fate now nq h) = h"
    if "\<not> (md = [''Bearer '' @ admin_token cr] \<and> (\<exists>q. nq = Some q \<and> nq_comet q = Some (h_identity h)))"
    using that rpc_authorize_ok [of cr md "admin_token cr"] check_identity_ok [of L h]
    by (cases "rpc_authorize cr md (admin_token cr)"; cases nq)
      (auto simp: rpc_drain_def split: sum.split)
  have a: "rpc_authorize cr [''Bearer '' @ t] e = Inl (rpc_error PermissionDenied REASON_PERMISSION_DENIED RETRY_DO_NOT_RETRY '''')"
    if "t \<in> {job_token cr, logic_token cr, admin_token cr}" "t \<noteq> e" for t e
    using that by (auto simp: rpc_authorize_def has_prefix_def trim_prefix_def Let_def)
  show ?thesis using d k n a assms unfolding new_rpc_service_ok by blast
qed

theorem rpc_roles_fenced_witness:
  "rpc_authorize \<lparr>job_token = replicate 32 CHR ''j'', logic_token = replicate 32 CHR ''l'', admin_token = replicate 32 CHR ''a''\<rparr>
     [''Bearer '' @ replicate 32 CHR ''j''] (replicate 32 CHR ''a'') =
   Inl (rpc_error PermissionDenied REASON_PERMISSION_DENIED RETRY_DO_NOT_RETRY '''')"
proof -
  let ?cr = "\<lparr>job_token = replicate 32 CHR ''j'', logic_token = replicate 32 CHR ''l'', admin_token = replicate 32 CHR ''a''\<rparr>"
  have "list_all credential_ok [job_token ?cr, logic_token ?cr, admin_token ?cr]" by code_simp
  moreover have "distinct [job_token ?cr, logic_token ?cr, admin_token ?cr]" by code_simp
  ultimately have "new_rpc_service (Some hub_a) ?cr = Inr ?cr" by (simp add: new_rpc_service_ok)
  moreover have "replicate 32 CHR ''j'' \<noteq> replicate 32 CHR ''a''" by code_simp
  ultimately show ?thesis
    using rpc_roles_fenced [of hub_a ?cr] by auto
qed

end
