(* ===== verification/Instance.thy ===== *)
theory Instance
  imports CometRpc
begin

text \<open>
  \<open>internal/comet/instance.go\<close>: the goroutine that registers a Comet process with Logic and renews
  its lease. The environment of one loop iteration (the clock at each reading, why the wait ended,
  whether the context ended, what the hub's draining flag said when it was read, and Logic's reply) is
  an explicit argument; the calls the code makes are collected as effects, in order.
\<close>

section \<open>State\<close>

definition safety_margin :: int where "safety_margin = 5 * ns_per_s"

datatype instance_error = InputError comet_error | InstanceStopped | InstanceLeaseLost

datatype instance_effect =
    CallRegister comet_id string
  | CallRenew comet_id bool int
  | CallUnregister comet_id
  | CloseHub

record instance_state =
  in_identity :: comet_id
  in_address :: string
  in_token :: string
  in_interval :: int
  in_rpcTimeout :: int
  in_safe :: int
  in_ready :: bool
  in_err :: "instance_error option"

record instance_options =
  io_interval :: int
  io_rpcTimeout :: int

text \<open>A unary reply: an error, or a response that may be nil; the responses used here hold one lease.\<close>

type_synonym 'a rpc_reply = "rpc_status + 'a option"

definition validate_lease :: "lib \<Rightarrow> instance_state \<Rightarrow> comet_lease option \<Rightarrow> bool \<Rightarrow> int \<Rightarrow> instance_error + int" where
  "validate_lease L i lease draining now =
     (case lease of
        None \<Rightarrow> Inl InstanceLeaseLost
      | Some l \<Rightarrow>
        if \<not> same_comet (cl_identity l) (Some (in_identity i)) \<or> cl_address l \<noteq> in_address i \<or>
           cl_draining l \<noteq> draining \<or>
           (case cl_deadline l of None \<Rightarrow> True | Some d \<Rightarrow> \<not> ts_check L d)
        then Inl InstanceLeaseLost
        else
          let safe = as_time (the (cl_deadline l)) - safety_margin in
          if safe \<le> now then Inl InstanceLeaseLost else Inr safe)"

text \<open>\<open>rpcContext\<close>: the deadline of a call; the zero time means no lease deadline yet.\<close>

definition rpc_deadline :: "int \<Rightarrow> int \<Rightarrow> int \<Rightarrow> int" where
  "rpc_deadline now timeout safe =
     (let d = now + timeout in if safe \<noteq> zero_ns \<and> safe < d then safe else d)"

section \<open>Starting\<close>

record start_env =
  se_owned :: bool
  se_reply :: "comet_lease option rpc_reply"
  se_now :: int
  se_ended :: bool
  se_draining :: bool
  se_hub_done :: bool

definition defaulted :: "int \<Rightarrow> int \<Rightarrow> int" where
  "defaulted x d = (if x = 0 then d else x)"

definition start_instance ::
  "lib \<Rightarrow> comet_id option \<Rightarrow> bool \<Rightarrow> string \<Rightarrow> string \<Rightarrow> instance_options \<Rightarrow> start_env \<Rightarrow>
   (instance_error + instance_state) \<times> instance_effect list" where
  "start_instance L hub logic address token opts env =
     (if hub = None \<or> \<not> logic \<or> \<not> dial_address address \<or> \<not> credential_ok token
      then (Inl (InputError (ErrInvalid ''instance configuration'')), [])
      else
        let interval = defaulted (io_interval opts) (10 * ns_per_s);
            timeout = defaulted (io_rpcTimeout opts) (2 * ns_per_s);
            cid = the hub;
            i = \<lparr>in_identity = cid, in_address = address, in_token = token, in_interval = interval,
                 in_rpcTimeout = timeout, in_safe = zero_ns, in_ready = False, in_err = None\<rparr> in
        if interval \<le> 0 \<or> 10 * ns_per_s < interval \<or> timeout \<le> 0 \<or> 2 * ns_per_s < timeout
        then (Inl (InputError (ErrInvalid ''instance timeouts'')), [])
        else if se_owned env then (Inl (InputError (ErrInvalid ''instance already owned'')), [])
        else
          let verdict =
                (case se_reply env of
                   Inr (Some lease) \<Rightarrow> validate_lease L i lease False (se_now env)
                 | _ \<Rightarrow> Inl InstanceLeaseLost) in
          case verdict of
            Inl _ \<Rightarrow> (Inl InstanceLeaseLost, [CallRegister cid address, CloseHub, CallUnregister cid])
          | Inr safe \<Rightarrow>
            if se_ended env \<or> se_draining env
            then (Inl InstanceLeaseLost, [CallRegister cid address, CloseHub, CallUnregister cid])
            else if se_hub_done env
            then (Inl InstanceLeaseLost, [CallRegister cid address, CallUnregister cid])
            else (Inr (i\<lparr>in_safe := safe, in_ready := True\<rparr>), [CallRegister cid address]))"

section \<open>The renewal loop\<close>

datatype wake = WakeContext | WakeHubDone | WakeDrainSignal | WakeTimer

record renew_env =
  rn_now_top :: int
  rn_wake :: wake
  rn_ended_wait :: bool
  rn_now_wait :: int
  rn_draining :: bool
  rn_now_rpc :: int
  rn_reply :: "comet_lease option rpc_reply"
  rn_ended_rpc :: bool
  rn_now_reply :: int
  rn_now_lease :: int
  rn_draining_after :: bool

definition permanent_renew :: "rpc_code \<Rightarrow> bool" where
  "permanent_renew c =
     (c \<in> {Unauthenticated, PermissionDenied, InvalidArgument, FailedPrecondition, NotFound, Unimplemented})"

text \<open>How long an iteration waits before it renews.\<close>

definition renew_delay :: "instance_state \<Rightarrow> int \<Rightarrow> int" where
  "renew_delay i now = min (in_interval i) ((in_safe i - now) div 2)"

text \<open>One iteration: \<open>Some\<close> failure ends the loop with that error.\<close>

definition renew_round ::
  "lib \<Rightarrow> renew_env \<Rightarrow> instance_state \<Rightarrow> instance_error option \<times> instance_state \<times> instance_effect list" where
  "renew_round L env i =
     (if in_safe i - rn_now_top env \<le> 0 then (Some InstanceLeaseLost, i, [])
      else if rn_wake env = WakeContext \<or> rn_wake env = WakeHubDone then (Some InstanceStopped, i, [])
      else if rn_ended_wait env then (Some InstanceStopped, i, [])
      else if in_safe i \<le> rn_now_wait env then (Some InstanceLeaseLost, i, [])
      else
        let eff = [CallRenew (in_identity i) (rn_draining env)
                     (rpc_deadline (rn_now_rpc env) (in_rpcTimeout i) (in_safe i))] in
        if rn_ended_rpc env then (Some InstanceStopped, i, eff)
        else if in_safe i \<le> rn_now_reply env then (Some InstanceLeaseLost, i, eff)
        else case rn_reply env of
               Inl s \<Rightarrow>
                 let i' = i\<lparr>in_ready := False\<rparr> in
                 (if permanent_renew (st_code s) then (Some InstanceLeaseLost, i', eff) else (None, i', eff))
             | Inr None \<Rightarrow> (Some InstanceLeaseLost, i, eff)
             | Inr (Some lease) \<Rightarrow>
                 (case validate_lease L i lease (rn_draining env) (rn_now_lease env) of
                    Inl _ \<Rightarrow> (Some InstanceLeaseLost, i, eff)
                  | Inr next \<Rightarrow> (None, i\<lparr>in_safe := next, in_ready := \<not> rn_draining_after env\<rparr>, eff)))"

text \<open>The loop over the iterations that happened, and the deferred cleanup when it ends.\<close>

fun renew_run ::
  "lib \<Rightarrow> renew_env list \<Rightarrow> instance_state \<Rightarrow> instance_state \<times> instance_effect list" where
  "renew_run L [] i = (i, [])"
| "renew_run L (env # envs) i =
     (case renew_round L env i of
        (Some e, i', eff) \<Rightarrow>
          (i'\<lparr>in_ready := False, in_err := Some e\<rparr>, eff @ [CloseHub, CallUnregister (in_identity i)])
      | (None, i', eff) \<Rightarrow> (let (i'', eff') = renew_run L envs i' in (i'', eff @ eff')))"

definition instance_ready :: "instance_state \<Rightarrow> int \<Rightarrow> bool \<Rightarrow> bool \<Rightarrow> bool \<Rightarrow> bool" where
  "instance_ready i now draining hub_done done_closed =
     (if \<not> (in_ready i \<and> now < in_safe i) \<or> draining then False
      else \<not> hub_done \<and> \<not> done_closed)"

section \<open>Properties\<close>

text \<open>The leases Logic confirmed in a list of iterations, for a given process.\<close>

definition confirmed :: "lib \<Rightarrow> instance_state \<Rightarrow> int \<Rightarrow> comet_lease \<Rightarrow> bool" where
  "confirmed L i safe l =
     (cl_identity l = Some (in_identity i) \<and> cl_address l = in_address i \<and>
      (\<exists>d. cl_deadline l = Some d \<and> ts_check L d \<and> safe = as_time d - safety_margin))"

lemma validate_lease_ok:
  "validate_lease L i lease draining now = Inr safe \<longleftrightarrow>
     (\<exists>l. lease = Some l \<and> confirmed L i safe l \<and> cl_draining l = draining \<and> now < safe)"
proof (cases lease)
  case None
  then show ?thesis by (simp add: validate_lease_def)
next
  case (Some l)
  then show ?thesis
    by (cases "cl_deadline l"; cases "cl_identity l") (auto simp: validate_lease_def confirmed_def Let_def)
qed

lemma renew_round_frame:
  "renew_round L env i = (r, i', eff) \<Longrightarrow>
   in_identity i' = in_identity i \<and> in_address i' = in_address i \<and> in_rpcTimeout i' = in_rpcTimeout i \<and> in_err i' = in_err i"
  by (auto simp: renew_round_def Let_def split: if_splits sum.splits option.splits)

lemma confirmed_frame:
  "in_identity i' = in_identity i \<Longrightarrow> in_address i' = in_address i \<Longrightarrow> confirmed L i' s l = confirmed L i s l"
  by (simp add: confirmed_def)

text \<open>Renewals keep a confirmed lease.\<close>

lemma renewals_keep_lease:
  assumes "confirmed L i (in_safe i) l0" and "in_err i = None" and "renew_run L envs i = (j, eff)"
  shows "(instance_ready j now draining hub_done done_closed \<longrightarrow>
            in_err j = None \<and>
            (\<exists>l d. confirmed L i (in_safe j) l \<and> cl_deadline l = Some d \<and> now + safety_margin < as_time d \<and>
                  (l = l0 \<or> (\<exists>env \<in> set envs. rn_reply env = Inr (Some (Some l)))))) \<and>
         (in_err j \<noteq> None \<longrightarrow> \<not> in_ready j \<and> (\<exists>pre. eff = pre @ [CloseHub, CallUnregister (in_identity i)]))"
  using assms
proof (induction envs arbitrary: i l0 eff)
  case Nil
  then show ?case by (auto simp: instance_ready_def confirmed_def split: if_splits)
next
  case (Cons env envs)
  obtain r i1 e1 where one: "renew_round L env i = (r, i1, e1)" by (cases "renew_round L env i")
  note f = renew_round_frame [OF one]
  show ?case
  proof (cases r)
    case (Some x)
    then show ?thesis using Cons.prems(3) one by (auto simp: instance_ready_def split: if_splits)
  next
    case None
    obtain e2 where rest: "renew_run L envs i1 = (j, e2)" and eff: "eff = e1 @ e2"
      using Cons.prems(3) one None by (auto split: prod.splits)
    have "\<exists>l1. confirmed L i1 (in_safe i1) l1 \<and> (l1 = l0 \<or> rn_reply env = Inr (Some (Some l1)))"
    proof (cases "in_safe i1 = in_safe i")
      case True
      then show ?thesis using Cons.prems(1) f confirmed_frame [of i1 i L] by auto
    next
      case False
      then obtain lease where l: "rn_reply env = Inr (Some lease)" "validate_lease L i lease (rn_draining env) (rn_now_lease env) = Inr (in_safe i1)"
        using one None by (auto simp: renew_round_def Let_def split: if_splits sum.splits option.splits)
      then show ?thesis using f confirmed_frame [of i1 i L] by (auto simp: validate_lease_ok)
    qed
    then obtain l1 where l1: "confirmed L i1 (in_safe i1) l1" "l1 = l0 \<or> rn_reply env = Inr (Some (Some l1))" by blast
    have cf: "confirmed L i1 s l = confirmed L i s l" for s l using f by (intro confirmed_frame) simp_all
    have "in_err i1 = None" using f Cons.prems(2) by simp
    from Cons.IH [OF l1(1) this rest] show ?thesis
      using l1(2) f eff unfolding cf by (metis append_assoc list.set_intros(1,2))
  qed
qed

text \<open>A start that succeeds has registered this very process and holds the lease of the reply; one that fails after registering
  unregisters the boot it registered.\<close>

lemma start_instance_cases:
  assumes "start_instance L hub logic address token opts env = (r, eff)"
  obtains (refused) e where "r = Inl e" "eff = []"
  | (failed) c e pre where "r = Inl e" "hub = Some c" "eff = CallRegister c address # pre @ [CallUnregister c]"
  | (started) c i l where "r = Inr i" "hub = Some c" "eff = [CallRegister c address]" "in_identity i = c" "in_address i = address"
      "se_reply env = Inr (Some (Some l))" "confirmed L i (in_safe i) l" "\<not> cl_draining l" "se_now env < in_safe i" "in_err i = None" "in_ready i"
proof -
  define interval where "interval = defaulted (io_interval opts) (10 * ns_per_s)"
  define timeout where "timeout = defaulted (io_rpcTimeout opts) (2 * ns_per_s)"
  define i where "i = \<lparr>in_identity = the hub, in_address = address, in_token = token, in_interval = interval,
                 in_rpcTimeout = timeout, in_safe = zero_ns, in_ready = False, in_err = None\<rparr>"
  note d = assms [unfolded start_instance_def Let_def interval_def [symmetric] timeout_def [symmetric] i_def [symmetric]]
  show thesis
  proof (cases "hub")
    case None
    then show thesis using d refused by auto
  next
    case (Some c)
    show thesis
    proof (cases "eff = []")
      case True
      then show thesis using d refused by (auto split: if_splits sum.splits option.splits)
    next
      case False
      show thesis
      proof (cases r)
        case (Inl e)
        then show thesis using d Some False failed [of e c "[CloseHub]"] failed [of e c "[]"]
          by (auto split: if_splits sum.splits option.splits)
      next
        case (Inr j)
        then obtain lease where l: "se_reply env = Inr (Some lease)" "validate_lease L i lease False (se_now env) = Inr (in_safe j)"
          "j = i\<lparr>in_safe := in_safe j, in_ready := True\<rparr>" "eff = [CallRegister c address]"
          using d Some by (auto split: if_splits sum.splits option.splits)
        from l(2) obtain x where x: "lease = Some x" "confirmed L i (in_safe j) x" "\<not> cl_draining x" "se_now env < in_safe j"
          by (auto simp: validate_lease_ok)
        have ij: "in_identity j = c" "in_address j = address" "in_err j = None" "in_ready j" by (subst l(3), simp add: i_def Some)+
        have "confirmed L j (in_safe j) x" using x(2) ij by (simp add: confirmed_def i_def Some)
        then show thesis using started [OF Inr Some l(4) ij(1,2) _ _ x(3,4) ij(3,4)] l(1) x(1) by simp
      qed
    qed
  qed
qed

text \<open>A lease for a process at an address that covers a time.\<close>

definition covers :: "lib \<Rightarrow> comet_id \<Rightarrow> string \<Rightarrow> int \<Rightarrow> comet_lease \<Rightarrow> bool" where
  "covers L c address now l =
     (\<exists>d. cl_identity l = Some c \<and> cl_address l = address \<and> cl_deadline l = Some d \<and> ts_check L d \<and> now + safety_margin < as_time d)"

text \<open>C10. A Comet process serves only inside a lease Logic confirmed. A start that succeeds has registered this very boot at its address
  and nothing else; after any sequence of renewal rounds from there, if the instance reports ready, then it is neither draining nor
  closed, the loop has not failed, and some reply of Logic (that of the start or one of the rounds) confirmed a lease for exactly this
  instance, boot and address that ends more than five seconds after the reported instant. Once the loop fails it stays unready, and its
  last effects close the hub and unregister this boot. A start that fails has called nothing, or unregisters the boot it registered.\<close>

theorem ready_within_confirmed_lease:
  assumes "start_instance L hub logic address token opts env = (r, eff0)"
  shows "case r of
      Inl e \<Rightarrow> eff0 = [] \<or> (\<exists>c pre. hub = Some c \<and> eff0 = CallRegister c address # pre @ [CallUnregister c])
    | Inr i \<Rightarrow> \<exists>c. hub = Some c \<and> eff0 = [CallRegister c address] \<and>
        (\<forall>envs j eff now draining hub_done done_closed. renew_run L envs i = (j, eff) \<longrightarrow>
           (instance_ready j now draining hub_done done_closed \<longrightarrow>
              in_err j = None \<and> \<not> draining \<and> \<not> hub_done \<and>
              (\<exists>l. (se_reply env = Inr (Some (Some l)) \<or> (\<exists>v \<in> set envs. rn_reply v = Inr (Some (Some l)))) \<and>
                 covers L c address now l)) \<and>
           (in_err j \<noteq> None \<longrightarrow> \<not> in_ready j \<and> (\<exists>pre. eff = pre @ [CloseHub, CallUnregister c])))"
  using assms
proof (cases rule: start_instance_cases)
  case (started c i l)
  have "in_err j = None \<and> \<not> draining \<and> \<not> hub_done \<and>
      (\<exists>l. (se_reply env = Inr (Some (Some l)) \<or> (\<exists>v \<in> set envs. rn_reply v = Inr (Some (Some l)))) \<and> covers L c address now l)"
    if "renew_run L envs i = (j, eff)" "instance_ready j now draining hub_done done_closed"
    for envs j eff now draining hub_done done_closed
  proof -
    have "\<not> draining \<and> \<not> hub_done" using that(2) by (auto simp: instance_ready_def split: if_splits)
    then show ?thesis
      using renewals_keep_lease [OF started(7,10) that(1), of now draining hub_done done_closed] that(2) started(4-6)
      by (auto simp: confirmed_def covers_def)
  qed
  moreover have "\<not> in_ready j \<and> (\<exists>pre. eff = pre @ [CloseHub, CallUnregister c])"
    if "renew_run L envs i = (j, eff)" "in_err j \<noteq> None" for envs j eff
    using renewals_keep_lease [OF started(7,10) that(1)] that(2) started(4) by blast
  ultimately show ?thesis unfolding started(1) sum.case using started(2,3) by blast
qed auto

definition lease_a :: comet_lease where
  "lease_a = \<lparr>cl_identity = Some comet_a, cl_address = ''127.0.0.1:9001'', cl_draining = False,
              cl_deadline = Some (ts_new (60 * ns_per_s))\<rparr>"

definition instance_a :: instance_state where
  "instance_a = \<lparr>in_identity = comet_a, in_address = ''127.0.0.1:9001'', in_token = replicate 32 CHR ''t'',
                 in_interval = 10 * ns_per_s, in_rpcTimeout = 2 * ns_per_s, in_safe = 55 * ns_per_s,
                 in_ready = True, in_err = None\<rparr>"

definition start_a :: start_env where
  "start_a = \<lparr>se_owned = False, se_reply = Inr (Some (Some lease_a)), se_now = zero_ns, se_ended = False, se_draining = False, se_hub_done = False\<rparr>"

definition renewal_a :: renew_env where
  "renewal_a = \<lparr>rn_now_top = 0, rn_wake = WakeTimer, rn_ended_wait = False, rn_now_wait = 10 * ns_per_s, rn_draining = False,
     rn_now_rpc = 10 * ns_per_s, rn_reply = Inr (Some (Some (lease_a\<lparr>cl_deadline := Some (ts_new (90 * ns_per_s))\<rparr>))), rn_ended_rpc = False,
     rn_now_reply = 11 * ns_per_s, rn_now_lease = 11 * ns_per_s, rn_draining_after = False\<rparr>"

theorem ready_within_confirmed_lease_witness:
  "\<exists>i j eff. start_instance doc_lib (Some comet_a) True ''127.0.0.1:9001'' (replicate 32 CHR ''t'') \<lparr>io_interval = 0, io_rpcTimeout = 0\<rparr> start_a =
       (Inr i, [CallRegister comet_a ''127.0.0.1:9001'']) \<and>
     renew_run doc_lib [renewal_a] i = (j, eff) \<and> instance_ready j (80 * ns_per_s) False False False \<and>
     (\<exists>l. covers doc_lib comet_a ''127.0.0.1:9001'' (80 * ns_per_s) l)"
proof -
  obtain i where s: "start_instance doc_lib (Some comet_a) True ''127.0.0.1:9001'' (replicate 32 CHR ''t'') \<lparr>io_interval = 0, io_rpcTimeout = 0\<rparr> start_a =
       (Inr i, [CallRegister comet_a ''127.0.0.1:9001''])" and i: "i = instance_a"
    by (rule that [of instance_a]) (code_simp, simp)
  obtain rounds where rounds: "rounds = [renewal_a]" by simp
  obtain j eff where r: "renew_run doc_lib rounds i = (j, eff)" by fastforce
  have "instance_ready (fst (renew_run doc_lib [renewal_a] instance_a)) (80 * ns_per_s) False False False" by code_simp
  then have ready: "instance_ready j (80 * ns_per_s) False False False" using r i rounds by simp
  obtain l where l: "covers doc_lib comet_a ''127.0.0.1:9001'' (80 * ns_per_s) l"
    using ready_within_confirmed_lease [OF s, unfolded sum.case]
    apply (atomize_elim)
    apply (elim exE conjE)
    apply (drule spec [of _ rounds], drule spec [of _ j], drule spec [of _ eff], drule spec [of _ "80 * ns_per_s"])
    apply (drule spec [of _ False], drule spec [of _ False], drule spec [of _ False])
    apply (drule mp, rule r)
    apply (elim conjE)
    apply (drule mp, rule ready)
    by (elim conjE exE) (simp only: option.inject, rule exI, assumption)
  show ?thesis by (intro exI conjI, rule s, rule r [unfolded rounds], rule ready, rule l)
qed

end
