(* ===== verification/JobProcessor.thy ===== *)
theory JobProcessor
  imports TaskCodec Instance
begin

text \<open>
  \<open>internal/job/processor.go\<close> and \<open>internal/job/routing.go\<close>: the delivery of a push task in at most three
  rounds of route lookup, resolution of the Comet instances and delivery. The recipients under way are a
  list of records; a Go slice of pointers to some of them is a list of positions. Replies of Logic and Comet,
  clock readings and the state of the contexts are the environment of a round; every RPC goes to a log.
\<close>

section \<open>Configuration\<close>

definition ns_job :: "int \<Rightarrow> int" where "ns_job ms = ms * ns_per_ms"

record job_options =
  jo_timeout :: int
  jo_rpc :: int
  jo_delays :: "int list option"

record processor =
  pr_token :: string
  pr_timeout :: int
  pr_rpc :: int
  pr_delays :: "int list"

text \<open>\<open>NewProcessor\<close>; the flag says that both clients are present.\<close>

definition new_processor :: "bool \<Rightarrow> string \<Rightarrow> job_options \<Rightarrow> unit + processor" where
  "new_processor clients token opts =
     (let timeout = (if jo_timeout opts = 0 then 10 * ns_per_s else jo_timeout opts);
          rpc = (if jo_rpc opts = 0 then 2 * ns_per_s else jo_rpc opts);
          limits = [ns_job 200, ns_per_s] in
      if \<not> clients \<or> \<not> printable token 256 \<or> length token < 32 then Inl ()
      else if CHR '' '' \<in> set token then Inl ()
      else if timeout < 0 \<or> 10 * ns_per_s < timeout \<or> rpc < 0 \<or> 2 * ns_per_s < rpc then Inl ()
      else case jo_delays opts of
             None \<Rightarrow> Inr \<lparr>pr_token = token, pr_timeout = timeout, pr_rpc = rpc, pr_delays = limits\<rparr>
           | Some ds \<Rightarrow>
             if length ds \<noteq> 2 \<or> \<not> list_all2 (\<lambda>d l. 0 \<le> d \<and> d \<le> l) ds limits then Inl ()
             else Inr \<lparr>pr_token = token, pr_timeout = timeout, pr_rpc = rpc, pr_delays = ds\<rparr>)"

section \<open>Recipients\<close>

datatype job_outcome = Unresolved | Enqueued | Duplicate | Offline

datatype job_reason =
  NoReason | DependencyFailure | InvalidResponse | RouteChanged | DeliveryRejected | BudgetExhausted

record recipient =
  rs_user :: string
  rs_outcome :: job_outcome
  rs_reason :: job_reason
  rs_route :: "conn_id option"
  rs_deadline :: int
  rs_repair :: bool
  rs_stopped :: bool

definition upd_at :: "nat list \<Rightarrow> (recipient \<Rightarrow> recipient) \<Rightarrow> recipient list \<Rightarrow> recipient list" where
  "upd_at is f ss = map (\<lambda>i. if i \<in> set is then f (ss ! i) else ss ! i) [0..<length ss]"

definition mark :: "job_reason \<Rightarrow> recipient \<Rightarrow> recipient" where
  "mark r s = s\<lparr>rs_reason := r\<rparr>"

definition repair_with :: "job_reason \<Rightarrow> recipient \<Rightarrow> recipient" where
  "repair_with r s = s\<lparr>rs_route := None, rs_deadline := zero_ns, rs_repair := True, rs_reason := r\<rparr>"

definition repair :: "recipient \<Rightarrow> recipient" where
  "repair = repair_with RouteChanged"

text \<open>\<open>rpcFailure\<close>: whether the failure is permanent, and whether the route is to be looked up again.\<close>

definition permanent_code :: "rpc_code \<Rightarrow> bool" where
  "permanent_code c = (c \<in> {InvalidArgument, PermissionDenied, Unauthenticated, AlreadyExists, Unimplemented})"

fun failure_details :: "error_detail list \<Rightarrow> bool \<times> bool \<Rightarrow> bool \<times> bool" where
  "failure_details [] pf = pf"
| "failure_details (d # ds) (permanent, refresh) =
     failure_details ds
       (case ed_retry d of
          RETRY_DO_NOT_RETRY \<Rightarrow> (True, refresh)
        | RETRY_REAUTHENTICATE \<Rightarrow> (True, refresh)
        | RETRY_SAME_REQUEST \<Rightarrow> (permanent, False)
        | RETRY_REFRESH_ROUTE \<Rightarrow> (permanent, True)
        | _ \<Rightarrow> (permanent, refresh))"

definition rpc_failure :: "rpc_status \<Rightarrow> bool \<Rightarrow> recipient \<Rightarrow> recipient" where
  "rpc_failure e refresh s =
     (let (permanent, again) = failure_details (st_details e) (permanent_code (st_code e), refresh) in
      if permanent then s\<lparr>rs_reason := DeliveryRejected, rs_stopped := True\<rparr>
      else if again then repair_with DependencyFailure s
      else mark DependencyFailure s)"

section \<open>Checks of the replies\<close>

definition future :: "lib \<Rightarrow> int \<Rightarrow> timestamp option \<Rightarrow> bool" where
  "future L now t = (case t of None \<Rightarrow> False | Some x \<Rightarrow> ts_check L x \<and> now < as_time x)"

text \<open>The clock is read once per call of \<open>future\<close>: readings \<open>2 * i\<close> and \<open>2 * i + 1\<close> for item \<open>i\<close>.\<close>

definition valid_lookup :: "lib \<Rightarrow> (nat \<Rightarrow> int) \<Rightarrow> nat \<Rightarrow> string \<Rightarrow> route_result option \<Rightarrow> bool" where
  "valid_lookup L clock i uid item =
     (case item of
        None \<Rightarrow> False
      | Some r \<Rightarrow>
        rr_user r = uid \<and>
        (case rr_state r of
           RouteState None \<Rightarrow> False
         | RouteState (Some a) \<Rightarrow>
             valid_connection L (rl_identity a) \<and> cn_user (the (rl_identity a)) = uid \<and>
             future L (clock (2 * i)) (rl_auth a) \<and> future L (clock (2 * i + 1)) (rl_deadline a) \<and>
             as_time (the (rl_deadline a)) \<le> as_time (the (rl_auth a))
         | OfflineState reason \<Rightarrow> reason \<noteq> OFFLINE_REASON_UNSPECIFIED
         | NoRouteState \<Rightarrow> False))"

type_synonym lookup_reply = "route_result option list option"

definition valid_lookups :: "lib \<Rightarrow> (nat \<Rightarrow> int) \<Rightarrow> lookup_reply \<Rightarrow> string list \<Rightarrow> bool" where
  "valid_lookups L clock r ids =
     (case r of
        None \<Rightarrow> False
      | Some items \<Rightarrow>
        length items = length ids \<and>
        list_all (\<lambda>i. valid_lookup L clock i (ids ! i) (items ! i)) [0..<length ids])"

definition valid_resolution :: "lib \<Rightarrow> int \<Rightarrow> string \<Rightarrow> comet_resolution option \<Rightarrow> bool" where
  "valid_resolution L now inst item =
     (case item of
        None \<Rightarrow> False
      | Some r \<Rightarrow>
        cr_instance r = inst \<and>
        (case cr_state r of
           LeaseState None \<Rightarrow> False
         | LeaseState (Some a) \<Rightarrow>
             (case cl_identity a of None \<Rightarrow> False | Some c \<Rightarrow> ci_instance c = inst \<and> valid_uuid L (ci_boot c)) \<and>
             future L now (cl_deadline a) \<and> dial_address (cl_address a)
         | MissingState reason \<Rightarrow> reason \<noteq> MISSING_REASON_UNSPECIFIED
         | NoCometState \<Rightarrow> False))"

type_synonym resolve_reply = "comet_resolution option list option"

definition valid_resolutions :: "lib \<Rightarrow> (nat \<Rightarrow> int) \<Rightarrow> resolve_reply \<Rightarrow> string list \<Rightarrow> bool" where
  "valid_resolutions L clock r ids =
     (case r of
        None \<Rightarrow> False
      | Some items \<Rightarrow>
        length items = length ids \<and>
        list_all (\<lambda>i. valid_resolution L (clock i) (ids ! i) (items ! i)) [0..<length ids])"

text \<open>A delivery reply as it arrives: the response and each result may be nil.\<close>

record deliver_answer =
  da_task :: string
  da_message :: string
  da_results :: "delivery_result option list"

definition valid_result :: "conn_id option \<Rightarrow> delivery_result option \<Rightarrow> bool" where
  "valid_result target item =
     (case item of
        None \<Rightarrow> False
      | Some r \<Rightarrow> same_connection (dr_target r) target \<and> dr_outcome r \<noteq> DELIVERY_UNSPECIFIED)"

definition valid_delivery :: "deliver_answer option \<Rightarrow> string \<Rightarrow> string \<Rightarrow> conn_id option list \<Rightarrow> bool" where
  "valid_delivery r task message targets =
     (case r of
        None \<Rightarrow> False
      | Some a \<Rightarrow>
        da_task a = task \<and> da_message a = message \<and> length (da_results a) = length targets \<and>
        list_all (\<lambda>i. valid_result (targets ! i) (da_results a ! i)) [0..<length targets])"

section \<open>One round\<close>

record instance_env =
  ie_ctx :: bool
  ie_before :: "int \<times> int"
  ie_dialled :: bool
  ie_after :: "int \<times> int"
  ie_rpc_ctx :: bool
  ie_deliver :: "deliver_request \<Rightarrow> rpc_status + deliver_answer option"

record round_env =
  en_lookup :: "string list \<Rightarrow> rpc_status + lookup_reply"
  en_lookup_clock :: "nat \<Rightarrow> int"
  en_ctx :: bool
  en_resolve :: "string list \<Rightarrow> rpc_status + resolve_reply"
  en_resolve_clock :: "nat \<Rightarrow> int"
  en_instance :: "string \<Rightarrow> instance_env"

datatype job_call =
    LookupCall "string list" "rpc_status + lookup_reply"
  | ResolveCall "string list" "rpc_status + resolve_reply"
  | DeliverCall string deliver_request "rpc_status + deliver_answer option"

text \<open>\<open>Processor.lookup\<close>.\<close>

definition route_found :: "route_result option \<Rightarrow> recipient \<Rightarrow> recipient" where
  "route_found item s =
     (case rr_state (the item) of
        RouteState (Some a) \<Rightarrow>
          s\<lparr>rs_route := rl_identity a, rs_deadline := as_time (the (rl_deadline a)), rs_repair := False\<rparr>
      | _ \<Rightarrow> s\<lparr>rs_outcome := Offline, rs_reason := NoReason\<rparr>)"

fun apply_lookups :: "(nat \<times> route_result option) list \<Rightarrow> recipient list \<Rightarrow> recipient list" where
  "apply_lookups [] ss = ss"
| "apply_lookups ((i, item) # xs) ss = apply_lookups xs (upd_at [i] (route_found item) ss)"

definition lookup_step :: "lib \<Rightarrow> round_env \<Rightarrow> nat list \<Rightarrow> recipient list \<Rightarrow> recipient list \<times> job_call list" where
  "lookup_step L env is ss =
     (let ids = map (\<lambda>i. rs_user (ss ! i)) is; reply = en_lookup env ids in
      (case reply of
         Inl e \<Rightarrow> upd_at is (rpc_failure e False) ss
       | Inr r \<Rightarrow>
         if \<not> valid_lookups L (en_lookup_clock env) r ids then upd_at is (mark InvalidResponse) ss
         else apply_lookups (zip is (the r)) ss,
       [LookupCall ids reply]))"

text \<open>\<open>eligible\<close>: the readings are for \<open>future\<close> and for the loop.\<close>

definition route_alive :: "int \<Rightarrow> recipient \<Rightarrow> bool" where
  "route_alive now s = (rs_deadline s = zero_ns \<or> now < rs_deadline s)"

definition eligible :: "lib \<Rightarrow> int \<times> int \<Rightarrow> comet_lease \<Rightarrow> nat list \<Rightarrow> recipient list \<Rightarrow> nat list \<times> recipient list" where
  "eligible L clock lease is ss =
     (if \<not> future L (fst clock) (cl_deadline lease) then ([], upd_at is repair ss)
      else
        (filter (\<lambda>i. route_alive (snd clock) (ss ! i)) is,
         upd_at (filter (\<lambda>i. \<not> route_alive (snd clock) (ss ! i)) is) repair ss))"

text \<open>The results of an accepted delivery.\<close>

definition delivered :: "delivery_outcome \<Rightarrow> recipient \<Rightarrow> recipient" where
  "delivered r s =
     (case r of
        DELIVERY_ENQUEUED \<Rightarrow> s\<lparr>rs_outcome := Enqueued, rs_reason := NoReason\<rparr>
      | DELIVERY_DUPLICATE \<Rightarrow> s\<lparr>rs_outcome := Duplicate, rs_reason := NoReason\<rparr>
      | _ \<Rightarrow> repair s)"

fun apply_results :: "(nat \<times> delivery_result option) list \<Rightarrow> recipient list \<Rightarrow> recipient list" where
  "apply_results [] ss = ss"
| "apply_results ((i, item) # xs) ss = apply_results xs (upd_at [i] (delivered (dr_outcome (the item))) ss)"

text \<open>The body of the loop over the instances.\<close>

definition lease_of :: "comet_resolution \<Rightarrow> comet_lease option" where
  "lease_of r = (case cr_state r of LeaseState l \<Rightarrow> l | _ \<Rightarrow> None)"

definition deliver_batch ::
  "lib \<Rightarrow> push_task \<Rightarrow> instance_env \<Rightarrow> comet_lease \<Rightarrow> nat list \<Rightarrow> recipient list \<Rightarrow> recipient list \<times> job_call list" where
  "deliver_batch L task ie lease is ss =
     (let message = the (message_view_of L (pt_message task)); targets = map (\<lambda>i. rs_route (ss ! i)) is;
          req = \<lparr>dq_request = pt_request task, dq_comet = cl_identity lease, dq_task = pt_task_id task,
                 dq_message = Some message, dq_targets = targets\<rparr>;
          reply = ie_deliver ie req in
      (case reply of
         Inl e \<Rightarrow> upd_at is (rpc_failure e True) ss
       | Inr r \<Rightarrow>
         if \<not> valid_delivery r (pt_task_id task) (mv_id message) targets
         then upd_at is (repair_with InvalidResponse) ss
         else apply_results (zip is (da_results (the r))) ss,
       [DeliverCall (cl_address lease) req reply]))"

definition instance_step ::
  "lib \<Rightarrow> push_task \<Rightarrow> instance_env \<Rightarrow> comet_resolution \<Rightarrow> nat list \<Rightarrow> recipient list \<Rightarrow> recipient list \<times> job_call list" where
  "instance_step L task ie r is ss =
     (case lease_of r of
        None \<Rightarrow> (upd_at is repair ss, [])
      | Some lease \<Rightarrow>
        let (is1, ss1) = eligible L (ie_before ie) lease is ss in
        if is1 = [] then (ss1, [])
        else if \<not> ie_dialled ie then (upd_at is1 (mark DependencyFailure) ss1, [])
        else
          let (is2, ss2) = eligible L (ie_after ie) lease is1 ss1 in
          if is2 = [] \<or> ie_rpc_ctx ie then (ss2, [])
          else deliver_batch L task ie lease is2 ss2)"

fun deliver_instances ::
  "lib \<Rightarrow> push_task \<Rightarrow> (string \<Rightarrow> instance_env) \<Rightarrow> (string \<times> nat list \<times> comet_resolution) list \<Rightarrow> recipient list \<Rightarrow>
   recipient list \<times> job_call list" where
  "deliver_instances L task envs [] ss = (ss, [])"
| "deliver_instances L task envs ((inst, is, r) # xs) ss =
     (if ie_ctx (envs inst) then (ss, [])
      else
        let (ss1, l1) = instance_step L task (envs inst) r is ss;
            (ss2, l2) = deliver_instances L task envs xs ss1
        in (ss2, l1 @ l2))"

text \<open>The recipients to look up, and those a spent repair stops.\<close>

definition searching :: "recipient \<Rightarrow> bool" where
  "searching s = (rs_outcome s = Unresolved \<and> \<not> rs_stopped s \<and> rs_route s = None)"

definition stop :: "recipient \<Rightarrow> recipient" where
  "stop s = s\<lparr>rs_stopped := True\<rparr>"

definition lookup_phase ::
  "lib \<Rightarrow> round_env \<Rightarrow> recipient list \<Rightarrow> bool \<Rightarrow> recipient list \<times> bool \<times> job_call list" where
  "lookup_phase L env ss repaired =
     (let spent = filter (\<lambda>i. searching (ss ! i) \<and> rs_repair (ss ! i) \<and> repaired) [0..<length ss];
          is = filter (\<lambda>i. searching (ss ! i) \<and> \<not> (rs_repair (ss ! i) \<and> repaired)) [0..<length ss];
          ss0 = upd_at spent stop ss in
      if is = [] then (ss0, repaired, [])
      else
        let (ss1, l) = lookup_step L env is ss0 in
        (upd_at (filter (\<lambda>i. rs_repair (ss1 ! i) \<and> rs_route (ss1 ! i) = None) is) stop ss1,
         repaired \<or> list_ex (\<lambda>i. rs_repair (ss ! i)) is, l))"

definition routed :: "recipient \<Rightarrow> bool" where
  "routed s = (rs_outcome s = Unresolved \<and> \<not> rs_stopped s \<and> rs_route s \<noteq> None)"

definition route_instance :: "recipient \<Rightarrow> string" where
  "route_instance s = cn_instance (the (rs_route s))"

definition group_of :: "recipient list \<Rightarrow> string \<Rightarrow> nat list" where
  "group_of ss inst = filter (\<lambda>i. routed (ss ! i) \<and> route_instance (ss ! i) = inst) [0..<length ss]"

definition instances_of :: "recipient list \<Rightarrow> string list" where
  "instances_of ss = sort (remdups (map route_instance (filter routed ss)))"

text \<open>\<open>Processor.round\<close>.\<close>

definition job_round ::
  "lib \<Rightarrow> push_task \<Rightarrow> round_env \<Rightarrow> recipient list \<Rightarrow> bool \<Rightarrow> recipient list \<times> bool \<times> job_call list" where
  "job_round L task env ss repaired =
     (let (ss1, repaired1, l1) = lookup_phase L env ss repaired;
          instances = instances_of ss1; all = filter (\<lambda>i. routed (ss1 ! i)) [0..<length ss1] in
      if instances = [] \<or> en_ctx env then (ss1, repaired1, l1)
      else
        let reply = en_resolve env instances; l2 = l1 @ [ResolveCall instances reply] in
        (case reply of
           Inl e \<Rightarrow> (upd_at all (rpc_failure e False) ss1, repaired1, l2)
         | Inr r \<Rightarrow>
           if \<not> valid_resolutions L (en_resolve_clock env) r instances
           then (upd_at all (mark InvalidResponse) ss1, repaired1, l2)
           else
             let (ss2, l3) = deliver_instances L task (en_instance env)
                   (map (\<lambda>(inst, x). (inst, group_of ss1 inst, the x)) (zip instances (the r))) ss1
             in (ss2, repaired1, l2 @ l3)))"

section \<open>Processing a task\<close>

record process_env =
  pe_ctx :: "nat \<Rightarrow> bool"
  pe_wait :: "nat \<Rightarrow> bool"
  pe_round :: "nat \<Rightarrow> round_env"
  pe_end :: "ctx_err option"

record recipient_result =
  rt_user :: string
  rt_outcome :: job_outcome
  rt_reason :: job_reason

record job_result =
  jr_task :: push_task
  jr_recipients :: "recipient_result list"
  jr_attempts :: nat

datatype process_error = InvalidTask | UnresolvedTask "ctx_err option"

text \<open>\<open>Result.PendingRecipients\<close>.\<close>

definition pending_recipients :: "job_result \<Rightarrow> string list" where
  "pending_recipients r = map rt_user (filter (\<lambda>v. rt_outcome v = Unresolved) (jr_recipients r))"

definition task_users :: "push_task \<Rightarrow> string list" where
  "task_users t = (case pt_pending t of None \<Rightarrow> pt_recipients t | Some p \<Rightarrow> p)"

definition task_hint :: "push_task \<Rightarrow> string \<Rightarrow> conn_id option" where
  "task_hint t u =
     (if pt_pending t \<noteq> None then None else List.find (\<lambda>h. cn_user h = u) (rev (nil_list (pt_targets t))))"

definition start_recipient :: "push_task \<Rightarrow> string \<Rightarrow> recipient" where
  "start_recipient t u =
     \<lparr>rs_user = u, rs_outcome = Unresolved, rs_reason = NoReason, rs_route = task_hint t u, rs_deadline = zero_ns,
      rs_repair = False, rs_stopped = False\<rparr>"

definition runnable :: "bool \<Rightarrow> recipient \<Rightarrow> bool" where
  "runnable repaired s = (rs_outcome s = Unresolved \<and> \<not> rs_stopped s \<and> \<not> (rs_repair s \<and> repaired))"

type_synonym progress = "recipient list \<times> bool \<times> nat \<times> job_call list"

fun job_rounds :: "lib \<Rightarrow> push_task \<Rightarrow> process_env \<Rightarrow> nat list \<Rightarrow> progress \<Rightarrow> progress" where
  "job_rounds L task env [] p = p"
| "job_rounds L task env (k # ks) (ss, repaired, n, calls) =
     (if pe_ctx env k \<or> \<not> list_ex (runnable repaired) ss \<or> 0 < k \<and> pe_wait env k then (ss, repaired, n, calls)
      else
        let (ss1, repaired1, l) = job_round L task (pe_round env k) ss repaired
        in job_rounds L task env ks (ss1, repaired1, n + 1, calls @ l))"

definition max_rounds :: nat where "max_rounds = 3"

definition finish_recipient :: "recipient \<Rightarrow> recipient_result" where
  "finish_recipient s =
     \<lparr>rt_user = rs_user s, rt_outcome = rs_outcome s,
      rt_reason = (if rs_outcome s = Unresolved \<and> rs_reason s = NoReason then BudgetExhausted else rs_reason s)\<rparr>"

text \<open>\<open>Processor.Process\<close>.\<close>

definition process_task ::
  "lib \<Rightarrow> process_env \<Rightarrow> string \<Rightarrow> job_result \<times> process_error option \<times> job_call list" where
  "process_task L env raw =
     (case decode_task L raw of
        None \<Rightarrow> (\<lparr>jr_task = zero_task, jr_recipients = [], jr_attempts = 0\<rparr>, Some InvalidTask, [])
      | Some task \<Rightarrow>
        let (ss, _, n, calls) =
              job_rounds L task env [0..<max_rounds] (map (start_recipient task) (task_users task), False, 0, []);
            result = \<lparr>jr_task = task, jr_recipients = map finish_recipient ss, jr_attempts = n\<rparr>
        in (result, if pending_recipients result \<noteq> [] then Some (UnresolvedTask (pe_end env)) else None, calls))"

end
