(* ===== verification/JobDelivery.thy ===== *)
theory JobDelivery
  imports JobProcessor
begin

text \<open>
  What the delivery of a task keeps and reports: an invariant of the recipients and the log of the calls,
  carried through lookups, batches and rounds, and the properties of \<open>Process\<close> that follow.
\<close>

section \<open>What a round keeps\<close>

lemma length_upd_at [simp]: "length (upd_at is f ss) = length ss"
  by (simp add: upd_at_def)

lemma nth_upd_at: "i < length ss \<Longrightarrow> upd_at is f ss ! i = (if i \<in> set is then f (ss ! i) else ss ! i)"
  by (simp add: upd_at_def)

lemma apply_results_nth:
  "distinct (map fst xs) \<Longrightarrow> length (apply_results xs ss) = length ss \<and>
     (\<forall>i < length ss. apply_results xs ss ! i =
        (case map_of xs i of None \<Rightarrow> ss ! i | Some item \<Rightarrow> delivered (dr_outcome (the item)) (ss ! i)))"
proof (induction xs ss rule: apply_results.induct)
  case (1 ss)
  then show ?case by simp
next
  case (2 i item xs ss)
  then have "map_of xs i = None" by (auto simp: map_of_eq_None_iff)
  with 2 show ?case by (auto simp: nth_upd_at split: option.splits)
qed

lemma apply_lookups_nth:
  "distinct (map fst xs) \<Longrightarrow> length (apply_lookups xs ss) = length ss \<and>
     (\<forall>i < length ss. apply_lookups xs ss ! i =
        (case map_of xs i of None \<Rightarrow> ss ! i | Some item \<Rightarrow> route_found item (ss ! i)))"
proof (induction xs ss rule: apply_lookups.induct)
  case (1 ss)
  then show ?case by simp
next
  case (2 i item xs ss)
  then have "map_of xs i = None" by (auto simp: map_of_eq_None_iff)
  with 2 show ?case by (auto simp: nth_upd_at split: option.splits)
qed

lemma map_of_zip_distinct:
  assumes "distinct is" "length is = length xs"
  shows "map_of (zip is xs) i = Some x \<longleftrightarrow> (\<exists>j < length is. i = is ! j \<and> x = xs ! j)"
  using assms by (force simp: set_zip)

text \<open>The users a call confirms, and those a lookup reports offline.\<close>

fun confirmed_by :: "job_call \<Rightarrow> string list" where
  "confirmed_by (DeliverCall addr req (Inr r)) =
     (if valid_delivery r (dq_task req) (mv_id (the (dq_message req))) (dq_targets req)
      then map (\<lambda>(t, item). cn_user (the t))
             (filter (\<lambda>(t, item). dr_outcome (the item) \<in> {DELIVERY_ENQUEUED, DELIVERY_DUPLICATE})
               (zip (dq_targets req) (da_results (the r))))
      else [])"
| "confirmed_by _ = []"

fun offline_by :: "job_call \<Rightarrow> string list" where
  "offline_by (LookupCall ids (Inr (Some items))) =
     map fst (filter (\<lambda>(u, item). \<exists>r reason. item = Some r \<and> rr_user r = u \<and> rr_state r = OfflineState reason) (zip ids items))"
| "offline_by _ = []"

fun targets_of :: "job_call \<Rightarrow> string list" where
  "targets_of (DeliverCall addr req r) = map (\<lambda>t. cn_user (the t)) (dq_targets req)"
| "targets_of _ = []"

abbreviation confirmed_users :: "job_call list \<Rightarrow> string list" where
  "confirmed_users calls \<equiv> concat (map confirmed_by calls)"

abbreviation offline_users :: "job_call list \<Rightarrow> string list" where
  "offline_users calls \<equiv> concat (map offline_by calls)"

text \<open>No call targets a user that an earlier call confirmed.\<close>

fun no_repeat :: "string list \<Rightarrow> job_call list \<Rightarrow> bool" where
  "no_repeat seen [] = True"
| "no_repeat seen (c # cs) = (set (targets_of c) \<inter> set seen = {} \<and> no_repeat (seen @ confirmed_by c) cs)"

lemma no_repeat_append: "no_repeat seen (xs @ ys) \<longleftrightarrow> no_repeat seen xs \<and> no_repeat (seen @ confirmed_users xs) ys"
  by (induction xs arbitrary: seen) auto

fun call_valid :: "lib \<Rightarrow> job_call \<Rightarrow> bool" where
  "call_valid L (DeliverCall addr req r) =
     (dial_address addr \<and> valid_comet L (dq_comet req) \<and>
      validate_delivery L (dq_task req) (dq_message req) (dq_targets req) (ci_instance (the (dq_comet req))) = Inr ())"
| "call_valid L _ = True"

definition confirmed_outcome :: "recipient \<Rightarrow> bool" where
  "confirmed_outcome s = (rs_outcome s = Enqueued \<or> rs_outcome s = Duplicate)"

definition recipient_ok :: "lib \<Rightarrow> job_call list \<Rightarrow> recipient \<Rightarrow> bool" where
  "recipient_ok L calls s =
     ((case rs_route s of None \<Rightarrow> True | Some c \<Rightarrow> cn_user c = rs_user s \<and> valid_connection L (Some c)) \<and>
      (confirmed_outcome s \<longleftrightarrow> rs_user s \<in> set (confirmed_users calls)) \<and>
      (rs_outcome s = Offline \<longrightarrow> rs_user s \<in> set (offline_users calls)))"

definition job_inv :: "lib \<Rightarrow> string list \<Rightarrow> recipient list \<Rightarrow> job_call list \<Rightarrow> bool" where
  "job_inv L users ss calls =
     (map rs_user ss = users \<and> distinct users \<and> length users \<le> 100 \<and> (\<forall>s \<in> set ss. recipient_ok L calls s) \<and>
      no_repeat [] calls \<and> (\<forall>c \<in> set calls. call_valid L c))"

text \<open>Updates that only look back.\<close>

definition soft :: "(recipient \<Rightarrow> recipient) \<Rightarrow> bool" where
  "soft f = (\<forall>s. rs_user (f s) = rs_user s \<and> rs_outcome (f s) = rs_outcome s \<and>
                 (rs_route (f s) = None \<or> rs_route (f s) = rs_route s))"

lemma soft_updates [simp]: "soft (mark r)" "soft (repair_with r)" "soft repair" "soft stop" "soft (rpc_failure e b)"
  by (auto simp: soft_def mark_def repair_with_def repair_def stop_def rpc_failure_def split: prod.splits)

lemma job_inv_soft:
  assumes "job_inv L users ss calls" "soft f"
  shows "job_inv L users (upd_at is f ss) calls"
proof -
  have "map rs_user (upd_at is f ss) = map rs_user ss"
    using assms(2) by (intro nth_equalityI) (auto simp: nth_upd_at soft_def)
  moreover have "recipient_ok L calls s" if s: "s \<in> set (upd_at is f ss)" for s
  proof -
    obtain i where i: "i < length ss" "s = upd_at is f ss ! i" using s by (auto simp: in_set_conv_nth)
    have "recipient_ok L calls (ss ! i)" using assms(1) i(1) by (simp add: job_inv_def)
    then have "recipient_ok L calls (f (ss ! i))"
      using assms(2) by (auto simp: recipient_ok_def confirmed_outcome_def soft_def split: option.splits dest: spec [of _ "ss ! i"])
    then show ?thesis using i \<open>recipient_ok L calls (ss ! i)\<close> by (simp add: nth_upd_at)
  qed
  ultimately show ?thesis using assms(1) by (simp add: job_inv_def)
qed

lemma job_inv_quiet:
  assumes "job_inv L users ss calls" "confirmed_by c = []" "targets_of c = []" "call_valid L c"
  shows "job_inv L users ss (calls @ [c])"
  using assms by (auto simp: job_inv_def recipient_ok_def no_repeat_append)

lemma job_inv_update:
  assumes inv: "job_inv L users ss calls" and len: "length ss' = length ss"
    and frame: "\<And>i. i < length ss \<Longrightarrow> rs_user (ss' ! i) = rs_user (ss ! i)"
    and ok: "\<And>i. i < length ss \<Longrightarrow> recipient_ok L (calls @ l) (ss' ! i)"
    and rep: "no_repeat (confirmed_users calls) l" and val: "\<forall>c \<in> set l. call_valid L c"
  shows "job_inv L users ss' (calls @ l)"
proof -
  have "map rs_user ss' = map rs_user ss" using len frame by (intro nth_equalityI) simp_all
  moreover have "\<forall>s \<in> set ss'. recipient_ok L (calls @ l) s" using ok len by (metis in_set_conv_nth)
  ultimately show ?thesis using inv rep val by (auto simp: job_inv_def no_repeat_append)
qed

lemma job_inv_nth: "job_inv L users ss calls \<Longrightarrow> i < length ss \<Longrightarrow> recipient_ok L calls (ss ! i)"
  by (simp add: job_inv_def)

lemma job_inv_distinct: "job_inv L users ss calls \<Longrightarrow> i < length ss \<Longrightarrow> j < length ss \<Longrightarrow>
   rs_user (ss ! i) = rs_user (ss ! j) \<longleftrightarrow> i = j"
  by (auto simp: job_inv_def distinct_map distinct_conv_nth dest: inj_onD) (metis inj_onD nth_eq_iff_index_eq nth_mem)

section \<open>Lookups\<close>

lemma valid_lookups_nth:
  assumes "valid_lookups L clock r ids"
  obtains items where "r = Some items" "length items = length ids"
    "\<And>j. j < length ids \<Longrightarrow> valid_lookup L clock j (ids ! j) (items ! j)"
  using assms by (auto simp: valid_lookups_def list_all_iff split: option.splits)

lemma route_found_ok:
  assumes "recipient_ok L calls s" "rs_outcome s = Unresolved" "valid_lookup L clock j (rs_user s) item"
    and "\<And>reason. rr_state (the item) = OfflineState reason \<Longrightarrow> rs_user s \<in> set (offline_by c)" "confirmed_by c = []"
  shows "recipient_ok L (calls @ [c]) (route_found item s)"
proof -
  obtain r where r: "item = Some r" "rr_user r = rs_user s" using assms(3) by (auto simp: valid_lookup_def split: option.splits)
  have un: "rs_user s \<notin> set (confirmed_users calls)" using assms(1,2) by (simp add: recipient_ok_def confirmed_outcome_def)
  show ?thesis
  proof (cases "rr_state r")
    case NoRouteState
    then show ?thesis using assms(3) r by (simp add: valid_lookup_def)
  next
    case (RouteState a)
    then obtain a' where a': "a = Some a'" using assms(3) r by (cases a) (simp_all add: valid_lookup_def)
    then have "valid_connection L (rl_identity a')" "cn_user (the (rl_identity a')) = rs_user s"
      using assms(3) r RouteState by (simp_all add: valid_lookup_def)
    then show ?thesis using r RouteState a' un assms(2,5)
      by (cases "rl_identity a'") (simp_all add: valid_connection_def route_found_def recipient_ok_def confirmed_outcome_def)
  next
    case (OfflineState reason)
    then have "rs_user s \<in> set (offline_by c)" using assms(4) r by simp
    then show ?thesis using r OfflineState un assms(1,5)
      by (cases "rs_route s") (simp_all add: route_found_def recipient_ok_def confirmed_outcome_def)
  qed
qed

lemma lookup_step_inv:
  assumes inv: "job_inv L users ss calls" and "distinct is"
    and un: "\<And>i. i \<in> set is \<Longrightarrow> i < length ss \<and> rs_outcome (ss ! i) = Unresolved"
    and step: "lookup_step L env is ss = (ss', l)"
  shows "job_inv L users ss' (calls @ l)"
proof -
  let ?ids = "map (\<lambda>i. rs_user (ss ! i)) is"
  let ?call = "LookupCall ?ids (en_lookup env ?ids)"
  have l: "l = [?call]" using step by (simp add: lookup_step_def Let_def)
  have quiet: "confirmed_by ?call = []" "targets_of ?call = []" "call_valid L ?call" by simp_all
  have soft: "job_inv L users (upd_at is f ss) (calls @ l)" if "soft f" for f
    unfolding l using job_inv_quiet [OF job_inv_soft [OF inv that] quiet] .
  show ?thesis
  proof (cases "en_lookup env ?ids")
    case (Inl e)
    then show ?thesis using step soft by (auto simp: lookup_step_def Let_def)
  next
    case (Inr r)
    show ?thesis
    proof (cases "valid_lookups L (en_lookup_clock env) r ?ids")
      case False
      then show ?thesis using Inr step soft by (auto simp: lookup_step_def Let_def)
    next
      case True
      then obtain items where items: "r = Some items" "length items = length is"
        "\<And>j. j < length is \<Longrightarrow> valid_lookup L (en_lookup_clock env) j (rs_user (ss ! (is ! j))) (items ! j)"
        by (rule valid_lookups_nth) auto
      have ss': "ss' = apply_lookups (zip is items) ss" using True Inr items(1) step by (simp add: lookup_step_def Let_def)
      have dm: "distinct (map fst (zip is items))" using assms(2) items(2) by simp
      note nth = apply_lookups_nth [OF dm, of ss]
      show ?thesis unfolding l
      proof (rule job_inv_update [OF inv])
        show "length ss' = length ss" using nth ss' by simp
        fix i assume i: "i < length ss"
        show "rs_user (ss' ! i) = rs_user (ss ! i)"
          using nth i ss' by (auto simp: route_found_def split: option.splits route_state.splits)
        show "recipient_ok L (calls @ [?call]) (ss' ! i)"
        proof (cases "map_of (zip is items) i")
          case None
          then have "ss' ! i = ss ! i" using nth i ss' by simp
          then show ?thesis using job_inv_nth [OF inv i] quiet(1) by (auto simp: recipient_ok_def)
        next
          case (Some item)
          then obtain j where j: "j < length is" "i = is ! j" "item = items ! j"
            using map_of_zip_distinct [OF assms(2)] items(2) by metis
          have v: "valid_lookup L (en_lookup_clock env) j (rs_user (ss ! i)) item" using items(3) j by simp
          have "rs_user (ss ! i) \<in> set (offline_by ?call)" if "rr_state (the item) = OfflineState reason" for reason
          proof -
            have "(rs_user (ss ! i), item) \<in> set (zip ?ids items)" using j items(2) unfolding set_zip by force
            then show ?thesis using v that Inr items(1)
              by (force simp: valid_lookup_def image_iff split: option.splits)
          qed
          then have "recipient_ok L (calls @ [?call]) (route_found item (ss ! i))"
            using route_found_ok [OF job_inv_nth [OF inv i] _ v] un [of i] j quiet(1) by fastforce
          then show ?thesis using nth i ss' Some by simp
        qed
      qed simp_all
    qed
  qed
qed

lemma lookup_phase_inv:
  assumes inv: "job_inv L users ss calls" and step: "lookup_phase L env ss repaired = (ss', rep', l)"
  shows "job_inv L users ss' (calls @ l)"
proof -
  let ?spent = "filter (\<lambda>i. searching (ss ! i) \<and> rs_repair (ss ! i) \<and> repaired) [0..<length ss]"
  let ?is = "filter (\<lambda>i. searching (ss ! i) \<and> \<not> (rs_repair (ss ! i) \<and> repaired)) [0..<length ss]"
  let ?ss0 = "upd_at ?spent stop ss"
  have inv0: "job_inv L users ?ss0 calls" by (rule job_inv_soft [OF inv]) simp
  show ?thesis
  proof (cases "?is = []")
    case True
    then have "ss' = ?ss0" "l = []" using step by (auto simp: lookup_phase_def Let_def)
    then show ?thesis using inv0 by simp
  next
    case False
    obtain ss1 l1 where s: "lookup_step L env ?is ?ss0 = (ss1, l1)" by fastforce
    have "job_inv L users ss1 (calls @ l1)"
    proof (rule lookup_step_inv [OF inv0 _ _ s])
      show "distinct ?is" by simp
      show "i < length ?ss0 \<and> rs_outcome (?ss0 ! i) = Unresolved" if "i \<in> set ?is" for i
        using that by (auto simp: nth_upd_at searching_def stop_def)
    qed
    then have "job_inv L users (upd_at (filter (\<lambda>i. rs_repair (ss1 ! i) \<and> rs_route (ss1 ! i) = None) ?is) stop ss1) (calls @ l1)"
      by (rule job_inv_soft) simp
    moreover have "ss' = upd_at (filter (\<lambda>i. rs_repair (ss1 ! i) \<and> rs_route (ss1 ! i) = None) ?is) stop ss1" "l = l1"
      using step False s by (auto simp: lookup_phase_def Let_def simp del: filter_empty_conv)
    ultimately show ?thesis by simp
  qed
qed

section \<open>Deliveries\<close>

lemma valid_text_message:
  assumes "message_view_of L m = Some view"
  shows "validate_message L (Some view) = Inr ()" and "mv_id view = im_id m"
proof -
  have "\<exists>p. parse_int64 (im_position m) = Some p \<and> 0 < p"
    using assms by (cases "parse_int64 (im_position m)") (auto simp: message_view_of_def Let_def split: if_splits)
  then obtain p where p: "parse_int64 (im_position m) = Some p" "0 < p" by blast
  then have "p < 2 ^ 63" by (auto simp: parse_int64_def split: list.splits option.splits if_splits)
  then have "nat p \<noteq> 0 \<and> nat p \<le> max_int64" using p(2) by (simp add: max_int64_def nat_le_iff)
  then have pos: "mv_position view = nat p \<Longrightarrow> mv_position view \<noteq> 0 \<and> mv_position view \<le> max_int64" by simp
  have i: "valid_id L (im_id m) (CHR ''M'')" "valid_id L (im_send m) (CHR ''U'')" "valid_text (im_content m)"
    "ts_check L (ts_new (t_ns (im_created m)))" "\<not> is_zero_time (im_created m)"
    using assms by (auto simp: message_view_of_def Let_def split: if_splits)
  have v: "mv_id view = im_id m \<and> mv_sender view = im_send m \<and> mv_type view = MESSAGE_TYPE_TEXT \<and> mv_content view = im_content m \<and>
      mv_created view = Some (ts_new (t_ns (im_created m))) \<and> mv_position view = nat p \<and>
      (mv_origin view = MESSAGE_ORIGIN_AI \<or> mv_origin view = MESSAGE_ORIGIN_USER) \<and>
      mv_session view = im_session m \<and> mv_conversation view = im_conversation m"
    using assms p(1) by (auto simp: message_view_of_def Let_def split: if_splits)
  have d: "mv_dest view = Some \<lparr>d_type = RECEIVE_TYPE_USER, d_id = im_receive m\<rparr> \<and> valid_id L (im_session m) (CHR ''S'') \<and>
        valid_id L (im_receive m) (CHR ''U'') \<and> im_send m \<noteq> im_receive m \<and> im_conversation m = ''direct:'' @ im_session m \<or>
      mv_dest view = Some \<lparr>d_type = RECEIVE_TYPE_GROUP, d_id = im_receive m\<rparr> \<and> valid_id L (im_session m) (CHR ''G'') \<and>
        im_session m = im_receive m \<and> im_conversation m = ''group:'' @ im_session m"
    using assms by (auto simp: message_view_of_def Let_def split: if_splits)
  have "as_time (ts_new (t_ns (im_created m))) \<noteq> zero_ns" using i(5) by (simp add: is_zero_time_def)
  then show "validate_message L (Some view) = Inr ()"
    using d
  proof (elim disjE conjE)
    assume "mv_dest view = Some \<lparr>d_type = RECEIVE_TYPE_USER, d_id = im_receive m\<rparr>" "valid_id L (im_session m) (CHR ''S'')"
      "valid_id L (im_receive m) (CHR ''U'')" "im_send m \<noteq> im_receive m" "im_conversation m = ''direct:'' @ im_session m"
      "as_time (ts_new (t_ns (im_created m))) \<noteq> zero_ns"
    then show ?thesis using i v pos by (auto simp: validate_message_def valid_text_def guardE_def)
  next
    assume "mv_dest view = Some \<lparr>d_type = RECEIVE_TYPE_GROUP, d_id = im_receive m\<rparr>" "valid_id L (im_session m) (CHR ''G'')"
      "im_session m = im_receive m" "im_conversation m = ''group:'' @ im_session m"
      "as_time (ts_new (t_ns (im_created m))) \<noteq> zero_ns"
    then show ?thesis using i v pos by (auto simp: validate_message_def valid_text_def guardE_def)
  qed
  show "mv_id view = im_id m" using v by simp
qed

text \<open>The positions of a batch: unresolved recipients with a route to the instance.\<close>

definition batch_ok :: "recipient list \<Rightarrow> string \<Rightarrow> nat list \<Rightarrow> bool" where
  "batch_ok ss inst is =
     (distinct is \<and> (\<forall>i \<in> set is. i < length ss \<and> routed (ss ! i) \<and> route_instance (ss ! i) = inst))"

definition good_lease :: "lib \<Rightarrow> string \<Rightarrow> comet_lease \<Rightarrow> bool" where
  "good_lease L inst a =
     ((case cl_identity a of None \<Rightarrow> False | Some c \<Rightarrow> ci_instance c = inst \<and> valid_uuid L (ci_boot c)) \<and> dial_address (cl_address a))"

lemma batch_target:
  assumes "job_inv L users ss calls" "batch_ok ss inst is" "i \<in> set is"
  obtains c where "rs_route (ss ! i) = Some c" "cn_user c = rs_user (ss ! i)" "valid_connection L (Some c)"
    "cn_instance c = inst" "rs_outcome (ss ! i) = Unresolved" "i < length ss"
proof -
  have i: "i < length ss" "routed (ss ! i)" "route_instance (ss ! i) = inst" using assms(2,3) by (auto simp: batch_ok_def)
  moreover have "recipient_ok L calls (ss ! i)" by (rule job_inv_nth [OF assms(1) i(1)])
  ultimately show thesis using that by (auto simp: routed_def recipient_ok_def route_instance_def)
qed

lemma delivery_request_valid:
  assumes inv: "job_inv L users ss calls" and core: "task_core L task" and small: "task_small task"
    and ok: "batch_ok ss inst is" "is \<noteq> []" and view: "message_view_of L (pt_message task) = Some view"
  shows "validate_delivery L (pt_task_id task) (Some view) (map (\<lambda>i. rs_route (ss ! i)) is) inst = Inr ()"
proof -
  note v = valid_text_message [OF view]
  have "length is \<le> card {..<length ss}"
    using ok(1) unfolding batch_ok_def by (metis card_mono distinct_card finite_lessThan lessThan_iff subsetI)
  moreover have "length ss = length users" using inv by (auto simp: job_inv_def)
  ultimately have len: "length is \<le> 100" using inv by (simp add: job_inv_def)
  have con: "validate_connection L (rs_route (ss ! i)) inst = Inr ()" if ii: "i \<in> set is" for i
  proof -
    obtain c where c: "rs_route (ss ! i) = Some c" "valid_connection L (Some c)" "cn_instance c = inst"
      using batch_target [OF inv ok(1) ii] by metis
    then show ?thesis by (simp add: validate_connection_iff valid_connection_def)
  qed
  have dis: "distinct (map the (map (\<lambda>i. rs_route (ss ! i)) is))"
  proof -
    have "i = j" if ij: "i \<in> set is" "j \<in> set is" "the (rs_route (ss ! i)) = the (rs_route (ss ! j))" for i j
    proof -
      obtain c where c: "rs_route (ss ! i) = Some c" "cn_user c = rs_user (ss ! i)" "i < length ss"
        using batch_target [OF inv ok(1) ij(1)] by metis
      obtain d where d: "rs_route (ss ! j) = Some d" "cn_user d = rs_user (ss ! j)" "j < length ss"
        using batch_target [OF inv ok(1) ij(2)] by metis
      have "rs_user (ss ! i) = rs_user (ss ! j)" using c d ij(3) by simp
      then show ?thesis using job_inv_distinct [OF inv c(3) d(3)] by simp
    qed
    then show ?thesis using ok(1) by (auto simp: batch_ok_def distinct_map inj_on_def)
  qed
  have "task_prefix (mv_id view) @ format_nat (pt_index task) = pt_task_id task" "pt_index task < 2 ^ 32"
    using core small v(2) by (simp_all add: task_core_def task_identity_def task_prefix_def task_small_def)
  then show ?thesis using v con dis len ok(2)
    by (simp add: validate_delivery_iff) (metis)
qed

lemma good_lease_comet:
  assumes "good_lease L inst a" "valid_instance inst"
  shows "valid_comet L (cl_identity a)" "ci_instance (the (cl_identity a)) = inst"
  using assms by (auto simp: good_lease_def valid_comet_def split: option.splits)

lemma delivered_ok:
  assumes "recipient_ok L calls s" "rs_outcome s = Unresolved"
    and "rs_user s \<in> set (confirmed_by c) \<longleftrightarrow> r \<in> {DELIVERY_ENQUEUED, DELIVERY_DUPLICATE}" "offline_by c = []"
  shows "recipient_ok L (calls @ [c]) (delivered r s)"
proof -
  have "rs_user s \<notin> set (confirmed_users calls)" using assms(1,2) by (simp add: recipient_ok_def confirmed_outcome_def)
  moreover have "case rs_route s of None \<Rightarrow> True | Some c \<Rightarrow> cn_user c = rs_user s \<and> valid_connection L (Some c)"
    using assms(1) by (simp add: recipient_ok_def)
  ultimately show ?thesis using assms(2,3)
    by (cases r; cases "rs_route s") (simp_all add: recipient_ok_def confirmed_outcome_def delivered_def repair_def repair_with_def)
qed


lemma deliver_batch_inv:
  assumes inv: "job_inv L users ss calls" and core: "task_core L task" and small: "task_small task"
    and ok: "batch_ok ss inst is" "is \<noteq> []" and lease: "good_lease L inst lease"
    and step: "deliver_batch L task ie lease is ss = (ss', l)"
  shows "job_inv L users ss' (calls @ l)"
proof -
  obtain view where view: "message_view_of L (pt_message task) = Some view" using core by (auto simp: task_core_def)
  let ?targets = "map (\<lambda>i. rs_route (ss ! i)) is"
  let ?req = "\<lparr>dq_request = pt_request task, dq_comet = cl_identity lease, dq_task = pt_task_id task,
                 dq_message = Some view, dq_targets = ?targets\<rparr>"
  let ?call = "DeliverCall (cl_address lease) ?req (ie_deliver ie ?req)"
  have l: "l = [?call]" using step view by (simp add: deliver_batch_def Let_def)
  have inst: "valid_instance inst"
  proof -
    obtain i where "i \<in> set is" using ok(2) by (cases "is") auto
    then obtain c where "valid_connection L (Some c)" "cn_instance c = inst" using batch_target [OF inv ok(1)] by metis
    then show ?thesis by (simp add: valid_connection_def)
  qed
  have val: "call_valid L ?call"
    using delivery_request_valid [OF inv core small ok view] good_lease_comet [OF lease inst] lease
    by (simp add: good_lease_def)
  have users: "map (\<lambda>t. cn_user (the t)) ?targets = map (\<lambda>i. rs_user (ss ! i)) is"
  proof -
    have "cn_user (the (rs_route (ss ! i))) = rs_user (ss ! i)" if "i \<in> set is" for i
      using batch_target [OF inv ok(1) that] by (metis option.sel)
    then show ?thesis by simp
  qed
  have fresh: "rs_user (ss ! i) \<notin> set (confirmed_users calls)" if "i \<in> set is" for i
  proof -
    have "i < length ss" "rs_outcome (ss ! i) = Unresolved" using batch_target [OF inv ok(1) that] by metis+
    then show ?thesis using job_inv_nth [OF inv, of i] by (simp add: recipient_ok_def confirmed_outcome_def)
  qed
  have rep: "no_repeat (confirmed_users calls) [?call]" using fresh users by auto
  have soft: "job_inv L users (upd_at is f ss) (calls @ [?call])" if sf: "soft f" "confirmed_by ?call = []" for f
  proof (rule job_inv_update [OF inv])
    have "job_inv L users (upd_at is f ss) calls" by (rule job_inv_soft [OF inv sf(1)])
    then show "recipient_ok L (calls @ [?call]) (upd_at is f ss ! i)" if "i < length ss" for i
      using job_inv_nth [of L users "upd_at is f ss" calls i] that sf(2) by (simp add: recipient_ok_def)
    show "rs_user (upd_at is f ss ! i) = rs_user (ss ! i)" if "i < length ss" for i
      using sf(1) that by (simp add: nth_upd_at soft_def)
  qed (use rep val in simp_all)
  show ?thesis
  proof (cases "ie_deliver ie ?req")
    case (Inl e)
    then have "ss' = upd_at is (rpc_failure e True) ss" "confirmed_by ?call = []"
      using step view by (simp_all add: deliver_batch_def Let_def)
    then show ?thesis using soft [OF soft_updates(5)] unfolding l by blast
  next
    case (Inr r)
    show ?thesis
    proof (cases "valid_delivery r (pt_task_id task) (mv_id view) ?targets")
      case False
      then have "ss' = upd_at is (repair_with InvalidResponse) ss" "confirmed_by ?call = []"
        using Inr step view by (simp_all add: deliver_batch_def Let_def)
      then show ?thesis using soft [OF soft_updates(2)] unfolding l by blast
    next
      case True
      then obtain a where a: "r = Some a" "length (da_results a) = length is"
        by (auto simp: valid_delivery_def split: option.splits)
      have ss': "ss' = apply_results (zip is (da_results a)) ss"
        using True Inr a(1) step view by (simp add: deliver_batch_def Let_def)
      have dm: "distinct (map fst (zip is (da_results a)))" using ok(1) a(2) by (simp add: batch_ok_def)
      have di: "distinct is" using ok(1) by (simp add: batch_ok_def)
      note nth = apply_results_nth [OF dm, of ss]
      have conf: "set (confirmed_by ?call) = {rs_user (ss ! (is ! j)) | j. j < length is \<and>
          dr_outcome (the (da_results a ! j)) \<in> {DELIVERY_ENQUEUED, DELIVERY_DUPLICATE}}"
      proof -
        have "cn_user (the (?targets ! j)) = rs_user (ss ! (is ! j))" if "j < length is" for j
          using users that by (metis (no_types, lifting) length_map nth_map)
        then show ?thesis using True Inr a by (force simp: set_zip)
      qed
      show ?thesis unfolding l
      proof (rule job_inv_update [OF inv])
        show "length ss' = length ss" using nth ss' by simp
        show "no_repeat (confirmed_users calls) [?call]" by (rule rep)
        show "\<forall>c \<in> set [?call]. call_valid L c" using val by simp
        fix i assume i: "i < length ss"
        show "rs_user (ss' ! i) = rs_user (ss ! i)"
          using nth i ss' by (auto simp: delivered_def repair_def repair_with_def split: option.splits delivery_outcome.splits)
        show "recipient_ok L (calls @ [?call]) (ss' ! i)"
        proof (cases "map_of (zip is (da_results a)) i")
          case None
          then have eq: "ss' ! i = ss ! i" using nth i ss' by simp
          have "i \<notin> set is" using None a(2) by (simp add: map_of_zip_is_None)
          then have "rs_user (ss ! i) \<notin> set (confirmed_by ?call)"
            unfolding conf using job_inv_distinct [OF inv i] ok(1) by (auto simp: batch_ok_def)
          then show ?thesis using job_inv_nth [OF inv i] eq by (simp add: recipient_ok_def)
        next
          case (Some item)
          then obtain j where j: "j < length is" "i = is ! j" "item = da_results a ! j"
            using map_of_zip_distinct [OF di] a(2) by metis
          have "rs_user (ss ! i) \<in> set (confirmed_by ?call) \<longleftrightarrow> dr_outcome (the item) \<in> {DELIVERY_ENQUEUED, DELIVERY_DUPLICATE}"
          proof -
            have "k = j" if "k < length is" "rs_user (ss ! i) = rs_user (ss ! (is ! k))" for k
              using job_inv_distinct [OF inv i, of "is ! k"] that j ok(1) nth_eq_iff_index_eq [OF di] by (auto simp: batch_ok_def)
            then show ?thesis unfolding conf using j by blast
          qed
          moreover have "i \<in> set is" using j by simp
          then have "rs_outcome (ss ! i) = Unresolved" using batch_target [OF inv ok(1)] by metis
          ultimately have "recipient_ok L (calls @ [?call]) (delivered (dr_outcome (the item)) (ss ! i))"
            by (intro delivered_ok [OF job_inv_nth [OF inv i]]) simp_all
          then show ?thesis using nth i ss' Some by simp
        qed
      qed
    qed
  qed
qed

section \<open>The loop over the instances\<close>

lemma eligible_inv:
  assumes "job_inv L users ss calls" "batch_ok ss inst is" "eligible L clock lease is ss = (is', ss')"
  shows "job_inv L users ss' calls" "batch_ok ss' inst is'" "set is' \<subseteq> set is"
    and "length ss' = length ss" "\<And>i. i \<notin> set is \<Longrightarrow> i < length ss \<Longrightarrow> ss' ! i = ss ! i"
proof -
  show "job_inv L users ss' calls"
    using assms job_inv_soft [OF assms(1) soft_updates(3)] by (auto simp: eligible_def split: if_splits)
  show "batch_ok ss' inst is'"
    using assms(2,3) by (auto simp: eligible_def batch_ok_def nth_upd_at split: if_splits)
  show "set is' \<subseteq> set is" "length ss' = length ss"
    using assms(3) by (auto simp: eligible_def split: if_splits)
  show "ss' ! i = ss ! i" if "i \<notin> set is" "i < length ss" for i
    using assms(3) that by (auto simp: eligible_def nth_upd_at split: if_splits)
qed

lemma apply_results_frame:
  "length (apply_results xs ss) = length ss \<and> (\<forall>i < length ss. i \<notin> fst ` set xs \<longrightarrow> apply_results xs ss ! i = ss ! i)"
  by (induction xs ss rule: apply_results.induct) (auto simp: nth_upd_at)

lemma deliver_batch_frame:
  assumes "deliver_batch L task ie lease is ss = (ss', l)"
  shows "length ss' = length ss" "\<And>i. i \<notin> set is \<Longrightarrow> i < length ss \<Longrightarrow> ss' ! i = ss ! i"
proof -
  have "length ss' = length ss \<and> (\<forall>i < length ss. i \<notin> set is \<longrightarrow> ss' ! i = ss ! i)"
    using assms apply_results_frame
    by (fastforce simp: deliver_batch_def Let_def nth_upd_at dest: set_zip_leftD split: sum.splits if_splits)
  then show "length ss' = length ss" "\<And>i. i \<notin> set is \<Longrightarrow> i < length ss \<Longrightarrow> ss' ! i = ss ! i" by auto
qed

lemma instance_step_inv:
  assumes inv: "job_inv L users ss calls" and core: "task_core L task" and small: "task_small task"
    and ok: "batch_ok ss inst is" and lease: "\<And>a. lease_of r = Some a \<Longrightarrow> good_lease L inst a"
    and step: "instance_step L task ie r is ss = (ss', l)"
  shows "job_inv L users ss' (calls @ l) \<and> length ss' = length ss \<and> (\<forall>i < length ss. i \<notin> set is \<longrightarrow> ss' ! i = ss ! i)"
proof (cases "lease_of r")
  case None
  then show ?thesis using step job_inv_soft [OF inv soft_updates(3)] by (auto simp: instance_step_def nth_upd_at)
next
  case (Some a)
  obtain is1 ss1 where e1: "eligible L (ie_before ie) a is ss = (is1, ss1)" by fastforce
  note i1 = eligible_inv [OF inv ok e1]
  obtain is2 ss2 where e2: "eligible L (ie_after ie) a is1 ss1 = (is2, ss2)" by fastforce
  note i2 = eligible_inv [OF i1(1,2) e2]
  have f2: "length ss2 = length ss \<and> (i \<notin> set is \<longrightarrow> i < length ss \<longrightarrow> ss2 ! i = ss ! i)" for i
  proof -
    have "i \<notin> set is \<Longrightarrow> i \<notin> set is1" using i1(3) by blast
    then show ?thesis using i1(4) i1(5) [of i] i2(4) i2(5) [of i] by auto
  qed
  consider "is1 = []" | "is1 \<noteq> []" "\<not> ie_dialled ie" | "is1 \<noteq> []" "ie_dialled ie" "is2 = [] \<or> ie_rpc_ctx ie"
    | "is1 \<noteq> []" "ie_dialled ie" "is2 \<noteq> []" "\<not> ie_rpc_ctx ie" by blast
  then show ?thesis
  proof cases
    case 1
    then show ?thesis using step Some e1 i1 by (simp add: instance_step_def)
  next
    case 2
    then have "ss' = upd_at is1 (mark DependencyFailure) ss1" "l = []" using step Some e1 by (simp_all add: instance_step_def)
    then show ?thesis using job_inv_soft [OF i1(1) soft_updates(1)] i1(3-5) by (auto simp: nth_upd_at)
  next
    case 3
    then have "ss' = ss2" "l = []" using step Some e1 e2 by (auto simp: instance_step_def)
    then show ?thesis using i2(1) f2 by simp
  next
    case 4
    then have d: "deliver_batch L task ie a is2 ss2 = (ss', l)" using step Some e1 e2 by (simp add: instance_step_def)
    have "job_inv L users ss' (calls @ l)"
      by (rule deliver_batch_inv [OF i2(1) core small i2(2) 4(3) lease [OF Some] d])
    then show ?thesis using deliver_batch_frame [OF d] f2 i1(3) i2(3) by (metis subset_iff)
  qed
qed

definition batches_ok :: "lib \<Rightarrow> recipient list \<Rightarrow> (string \<times> nat list \<times> comet_resolution) list \<Rightarrow> bool" where
  "batches_ok L ss xs =
     (distinct (map fst xs) \<and>
      (\<forall>(inst, is, r) \<in> set xs. batch_ok ss inst is \<and> (\<forall>a. lease_of r = Some a \<longrightarrow> good_lease L inst a)))"

lemma batches_disjoint:
  assumes "batch_ok ss inst is" "batch_ok ss inst' is'" "inst \<noteq> inst'"
  shows "set is \<inter> set is' = {}"
  using assms by (auto simp: batch_ok_def)

lemma batch_ok_frame:
  assumes "batch_ok ss inst is" "length ss' = length ss" "\<And>i. i \<in> set is \<Longrightarrow> ss' ! i = ss ! i"
  shows "batch_ok ss' inst is"
  using assms by (auto simp: batch_ok_def)

lemma deliver_instances_inv:
  assumes "job_inv L users ss calls" "task_core L task" "task_small task" "batches_ok L ss xs"
    and "deliver_instances L task envs xs ss = (ss', l)"
  shows "job_inv L users ss' (calls @ l)"
  using assms
proof (induction xs arbitrary: ss calls ss' l)
  case Nil
  then show ?case by simp
next
  case (Cons x xs)
  obtain inst "is" r where x: "x = (inst, is, r)" by (cases x)
  show ?case
  proof (cases "ie_ctx (envs inst)")
    case True
    then show ?thesis using Cons.prems x by simp
  next
    case False
    obtain ss1 l1 where s1: "instance_step L task (envs inst) r is ss = (ss1, l1)" by fastforce
    obtain ss2 l2 where s2: "deliver_instances L task envs xs ss1 = (ss2, l2)" by fastforce
    have ok: "batch_ok ss inst is" "\<And>a. lease_of r = Some a \<Longrightarrow> good_lease L inst a"
      using Cons.prems(4) x by (auto simp: batches_ok_def)
    note st = instance_step_inv [OF Cons.prems(1-3) ok s1]
    have "batches_ok L ss1 xs" unfolding batches_ok_def
    proof (intro conjI ballI)
      show "distinct (map fst xs)" using Cons.prems(4) by (simp add: batches_ok_def)
      fix y assume y: "y \<in> set xs"
      obtain inst' is' r' where y': "y = (inst', is', r')" by (cases y)
      have b: "batch_ok ss inst' is'" "\<forall>a. lease_of r' = Some a \<longrightarrow> good_lease L inst' a"
        using Cons.prems(4) y y' by (auto simp: batches_ok_def)
      have "inst \<noteq> inst'" using Cons.prems(4) x y y' by (force simp: batches_ok_def)
      then have "set is \<inter> set is' = {}" by (rule batches_disjoint [OF ok(1) b(1)])
      then have "batch_ok ss1 inst' is'" using st b(1) by (intro batch_ok_frame [OF b(1)]) (auto simp: batch_ok_def)
      then show "case y of (inst, is, r) \<Rightarrow> batch_ok ss1 inst is \<and> (\<forall>a. lease_of r = Some a \<longrightarrow> good_lease L inst a)"
        using b(2) y' by simp
    qed
    then have "job_inv L users ss2 ((calls @ l1) @ l2)" using Cons.IH [OF _ Cons.prems(2,3) _ s2] st by blast
    then show ?thesis using Cons.prems(5) x False s1 s2 by simp
  qed
qed

section \<open>Rounds\<close>

lemma valid_resolution_lease:
  assumes "valid_resolution L now inst item" "lease_of (the item) = Some a"
  shows "good_lease L inst a"
  using assms by (auto simp: valid_resolution_def lease_of_def good_lease_def split: option.splits comet_state.splits)

lemma job_round_inv:
  assumes inv: "job_inv L users ss calls" and core: "task_core L task" and small: "task_small task"
    and step: "job_round L task env ss repaired = (ss', rep', l)"
  shows "job_inv L users ss' (calls @ l)"
proof -
  obtain ss1 rep1 l1 where p: "lookup_phase L env ss repaired = (ss1, rep1, l1)" by (cases "lookup_phase L env ss repaired") auto
  have inv1: "job_inv L users ss1 (calls @ l1)" by (rule lookup_phase_inv [OF inv p])
  let ?insts = "instances_of ss1"
  let ?call = "ResolveCall ?insts (en_resolve env ?insts)"
  have quiet: "confirmed_by ?call = []" "targets_of ?call = []" "call_valid L ?call" by simp_all
  note inv2 = job_inv_quiet [OF inv1 quiet]
  show ?thesis
  proof (cases "?insts = [] \<or> en_ctx env")
    case True
    then show ?thesis using step p inv1 by (auto simp: job_round_def Let_def)
  next
    case False
    show ?thesis
    proof (cases "en_resolve env ?insts")
      case (Inl e)
      then show ?thesis using step p False job_inv_soft [OF inv2 soft_updates(5)] by (auto simp: job_round_def Let_def)
    next
      case (Inr r)
      show ?thesis
      proof (cases "valid_resolutions L (en_resolve_clock env) r ?insts")
        case bad: False
        then show ?thesis using step p False Inr job_inv_soft [OF inv2 soft_updates(1)] by (auto simp: job_round_def Let_def)
      next
        case True
        then obtain items where items: "r = Some items" "length items = length ?insts"
          "\<And>j. j < length ?insts \<Longrightarrow> valid_resolution L (en_resolve_clock env j) (?insts ! j) (items ! j)"
          by (auto simp: valid_resolutions_def list_all_iff split: option.splits)
        let ?xs = "map (\<lambda>(inst, x). (inst, group_of ss1 inst, the x)) (zip ?insts items)"
        obtain ss2 l2 where d: "deliver_instances L task (en_instance env) ?xs ss1 = (ss2, l2)" by fastforce
        have "batches_ok L ss1 ?xs" unfolding batches_ok_def
        proof (intro conjI ballI)
          have "map fst ?xs = ?insts" using items(2) by (simp add: comp_def case_prod_beta)
          then show "distinct (map fst ?xs)" by (simp add: instances_of_def)
          fix y assume "y \<in> set ?xs"
          then obtain j where j: "j < length ?insts" "y = (?insts ! j, group_of ss1 (?insts ! j), the (items ! j))"
            using items(2) by (auto simp: set_zip)
          have "batch_ok ss1 inst (group_of ss1 inst)" for inst by (auto simp: batch_ok_def group_of_def)
          then show "case y of (inst, is, r) \<Rightarrow> batch_ok ss1 inst is \<and> (\<forall>a. lease_of r = Some a \<longrightarrow> good_lease L inst a)"
            using j valid_resolution_lease [OF items(3)] by auto
        qed
        then have "job_inv L users ss2 ((calls @ l1 @ [?call]) @ l2)"
          using deliver_instances_inv [OF inv2 core small _ d] by simp
        moreover have "ss' = ss2" "l = l1 @ [?call] @ l2"
          using step p False Inr True items(1) d by (auto simp: job_round_def Let_def)
        ultimately show ?thesis by simp
      qed
    qed
  qed
qed

lemma job_rounds_inv:
  assumes "job_inv L users ss calls" "task_core L task" "task_small task"
    and "job_rounds L task env ks (ss, repaired, n, calls) = (ss', rep', n', calls')"
  shows "job_inv L users ss' calls' \<and> n' \<le> n + length ks"
  using assms
proof (induction ks arbitrary: ss repaired n calls)
  case Nil
  then show ?case by simp
next
  case (Cons k ks)
  show ?case
  proof (cases "pe_ctx env k \<or> \<not> list_ex (runnable repaired) ss \<or> 0 < k \<and> pe_wait env k")
    case True
    then show ?thesis using Cons.prems by auto
  next
    case False
    obtain ss1 rep1 l where r: "job_round L task (pe_round env k) ss repaired = (ss1, rep1, l)"
      by (cases "job_round L task (pe_round env k) ss repaired") auto
    have "job_inv L users ss1 (calls @ l)" by (rule job_round_inv [OF Cons.prems(1-3) r])
    moreover have "job_rounds L task env ks (ss1, rep1, n + 1, calls @ l) = (ss', rep', n', calls')"
      using Cons.prems(4) False r by auto
    ultimately show ?thesis using Cons.IH Cons.prems(2,3) by fastforce
  qed
qed

section \<open>Properties\<close>

lemma start_inv:
  assumes "task_core L task"
  shows "job_inv L (task_users task) (map (start_recipient task) (task_users task)) []"
proof -
  have r: "check_recipients L (pt_message task) None (pt_recipients task)" "length (pt_recipients task) \<le> 100"
    "check_hints L (pt_recipients task) [] (nil_list (pt_targets task))"
    "distinct (nil_list (pt_pending task))" "set (nil_list (pt_pending task)) \<subseteq> set (pt_recipients task)"
    using assms by (auto simp: task_core_def all_fresh_iff nil_list_def)
  have d: "distinct (pt_recipients task)" using r(1) strict_sorted_imp_distinct by (auto simp: check_recipients_iff)
  have "length (nil_list (pt_pending task)) \<le> length (pt_recipients task)"
    using r(4,5) by (metis List.finite_set card_length card_mono distinct_card le_trans)
  then have u: "distinct (task_users task)" "length (task_users task) \<le> 100"
    using r d by (auto simp: task_users_def nil_list_def split: option.splits)
  have "recipient_ok L [] (start_recipient task u)" for u
    using r(3) by (auto simp: recipient_ok_def confirmed_outcome_def start_recipient_def task_hint_def check_hints_iff
        split: option.splits dest!: find_SomeD)
  moreover have "map rs_user (map (start_recipient task) us) = us" for us
    by (simp add: comp_def start_recipient_def)
  ultimately show ?thesis using u by (auto simp: job_inv_def)
qed

lemma process_task_inv:
  assumes "process_task L env raw = (res, err, calls)"
  obtains "decode_task L raw = None" "err = Some InvalidTask" "calls = []" "jr_recipients res = []" "jr_attempts res = 0"
  | task ss where "decode_task L raw = Some task" "jr_task res = task" "job_inv L (task_users task) ss calls"
      "jr_recipients res = map finish_recipient ss" "jr_attempts res \<le> max_rounds"
      "err = (if pending_recipients res \<noteq> [] then Some (UnresolvedTask (pe_end env)) else None)"
proof (cases "decode_task L raw")
  case None
  then show thesis using assms that(1) by (auto simp: process_task_def)
next
  case (Some task)
  obtain v where v: "decode_struct task_fields v zero_task = Some task" "check_task L v task"
    using Some by (rule decode_task_Some)
  obtain ss rep n cs where s: "job_rounds L task env [0..<max_rounds]
      (map (start_recipient task) (task_users task), False, 0, []) = (ss, rep, n, cs)"
    by (cases "job_rounds L task env [0..<max_rounds] (map (start_recipient task) (task_users task), False, 0, [])") auto
  have "job_inv L (task_users task) ss cs \<and> n \<le> 0 + length [0..<max_rounds]"
    using job_rounds_inv [OF start_inv [OF check_task_core [OF v(2)]] check_task_core [OF v(2)] decode_struct_small [OF v(1)] s] .
  then show thesis using assms Some s that(2) [of task ss] by (auto simp: process_task_def Let_def)
qed

text \<open>C13. A run of \<open>Process\<close> reports a recipient delivered exactly when an accepted reply of a Comet said so for
  its route, offline only when a lookup said so, and never sends the message again to a recipient that a Comet
  confirmed.\<close>

theorem deliveries_confirmed_once:
  assumes "process_task L env raw = (res, err, calls)"
  shows "no_repeat [] calls \<and>
    (\<forall>v \<in> set (jr_recipients res).
       (rt_outcome v \<in> {Enqueued, Duplicate} \<longleftrightarrow> rt_user v \<in> set (confirmed_users calls)) \<and>
       (rt_outcome v = Offline \<longrightarrow> rt_user v \<in> set (offline_users calls)))"
  using assms
proof (cases rule: process_task_inv)
  case 1
  then show ?thesis by simp
next
  case (2 task ss)
  then show ?thesis by (auto simp: job_inv_def recipient_ok_def confirmed_outcome_def finish_recipient_def)
qed

text \<open>What a delivery carries of the task.\<close>

fun carries :: "lib \<Rightarrow> push_task \<Rightarrow> job_call \<Rightarrow> bool" where
  "carries L task (DeliverCall addr req r) =
     (dq_request req = pt_request task \<and> dq_task req = pt_task_id task \<and> dq_message req = Some (the (message_view_of L (pt_message task))))"
| "carries L task _ = True"

lemma instance_step_carries: "list_all (carries L task) (snd (instance_step L task ie r is ss))"
  by (auto simp: instance_step_def deliver_batch_def Let_def split: option.split prod.split)

lemma deliver_instances_carries: "list_all (carries L task) (snd (deliver_instances L task envs xs ss))"
proof (induction xs arbitrary: ss)
  case (Cons x xs)
  then show ?case using instance_step_carries by (cases x) (auto simp: case_prod_beta Let_def)
qed simp

lemma lookup_phase_carries: "list_all (carries L task) (snd (snd (lookup_phase L env ss repaired)))"
  by (auto simp: lookup_phase_def lookup_step_def Let_def case_prod_beta split: sum.split)

lemma job_round_carries: "list_all (carries L task) (snd (snd (job_round L task env ss repaired)))"
  using lookup_phase_carries [of L task env ss repaired] deliver_instances_carries [of L task]
  by (auto simp: job_round_def Let_def case_prod_beta split: sum.split)

lemma job_rounds_carries:
  assumes "job_rounds L task env ks (ss, repaired, n, calls) = (ss', rep', n', calls')" and "list_all (carries L task) calls"
  shows "list_all (carries L task) calls'"
  using assms
proof (induction ks arbitrary: ss repaired n calls)
  case (Cons k ks)
  obtain ss1 rep1 l where r: "job_round L task (pe_round env k) ss repaired = (ss1, rep1, l)"
    by (cases "job_round L task (pe_round env k) ss repaired") auto
  then have "list_all (carries L task) (calls @ l)" using job_round_carries [of L task "pe_round env k" ss repaired] Cons.prems(2) by simp
  then show ?case using Cons r by (fastforce split: if_splits)
qed simp

lemma process_task_carries:
  assumes "process_task L env raw = (res, err, calls)" and "decode_task L raw = Some task"
  shows "list_all (carries L task) calls"
proof -
  obtain ss rep n where "job_rounds L task env [0..<max_rounds] (map (start_recipient task) (task_users task), False, 0, []) = (ss, rep, n, calls)"
    using assms by (auto simp: process_task_def Let_def split: prod.splits)
  then show ?thesis by (rule job_rounds_carries) simp
qed

text \<open>The Comet a valid delivery names answers it.\<close>

lemma valid_call_answered:
  assumes v: "call_valid L (DeliverCall addr req reply)" and r: "valid_request_id (dq_request req)"
    and h: "dq_comet req = Some (h_identity h)" "\<not> h_done h"
  shows "\<exists>rs h'. rpc_deliver L cr [''Bearer '' @ job_token cr] Answered clock (Some req) h =
     (Inr \<lparr>dp_task = dq_task req, dp_message = mv_id (the (dq_message req)), dp_results = rs\<rparr>, h') \<and> map dr_target rs = dq_targets req"
proof -
  have c: "check_identity L h (dq_comet req) (dq_request req) = Inr ()"
    using v h(1) r validate_comet_iff [of L "Some (h_identity h)"] by (simp add: check_identity_def)
  have d: "validate_delivery L (dq_task req) (dq_message req) (dq_targets req) (ci_instance (h_identity h)) = Inr ()"
    using v h(1) by simp
  then obtain m where m: "dq_message req = Some m"
    by (cases "dq_message req") (auto simp: validate_delivery_iff validate_message_def)
  have "\<forall>t \<in> set (dq_targets req). t \<noteq> None" using d by (auto simp: validate_delivery_iff validate_connection_def split: option.splits)
  then have "dq_targets req = map Some (map the (dq_targets req))" by (induction "dq_targets req") (auto simp: map_idI)
  then obtain cs where mc: "dq_message req = Some m" "dq_targets req = map Some cs" using m by blast
  obtain rs g where l: "deliver_loop clock 0 m cs h = (rs, g)" by fastforce
  have "hub_deliver L Answered clock (dq_task req) (dq_message req) (dq_targets req) h = (Inr rs, g)"
    using hub_loop_deliver [of L "dq_task req" m cs h clock] d mc h(2) l by simp
  moreover have "map dr_target rs = dq_targets req" using deliver_loop_targets [of clock 0 m cs h] l mc by simp
  moreover have "rpc_authorize cr [''Bearer '' @ job_token cr] (job_token cr) = Inr ()"
    by (simp add: rpc_authorize_def has_prefix_def trim_prefix_def)
  ultimately show ?thesis using c by (simp add: rpc_deliver_def)
qed

text \<open>C14. Every delivery Job sends passes the Comet it names: the address can be dialled, the identity is valid, the task id,
  message and targets (between 1 and 100, distinct, all of that instance) are accepted by \<open>validateDelivery\<close>, and they and the
  request id are the task's. Where the text spells \<open>request_id\<close> in no other way than this, \<open>Deliver\<close> of the named Comet,
  called with Job's token on a hub that is not finished, gets through \<open>checkIdentity\<close> with its request id test too and
  answers every target.\<close>

theorem deliveries_pass_comet_checks:
  assumes "process_task L env raw = (res, err, calls)" and "DeliverCall addr req reply \<in> set calls"
  shows "dial_address addr \<and> validate_comet L (dq_comet req) = Inr () \<and>
     validate_delivery L (dq_task req) (dq_message req) (dq_targets req) (ci_instance (the (dq_comet req))) = Inr () \<and>
     dq_task req = pt_task_id (jr_task res) \<and> dq_request req = pt_request (jr_task res) \<and>
     dq_message req = message_view_of L (pt_message (jr_task res)) \<and>
     (plain_request raw \<longrightarrow> valid_request_id (dq_request req) \<and>
       (\<forall>h cr clock. dq_comet req = Some (h_identity h) \<and> \<not> h_done h \<longrightarrow>
          (\<exists>rs h'. rpc_deliver L cr [''Bearer '' @ job_token cr] Answered clock (Some req) h =
              (Inr \<lparr>dp_task = dq_task req, dp_message = mv_id (the (dq_message req)), dp_results = rs\<rparr>, h') \<and>
            map dr_target rs = dq_targets req)))"
  using assms(1)
proof (cases rule: process_task_inv)
  case 1
  then show ?thesis using assms(2) by simp
next
  case (2 task ss)
  then have v: "call_valid L (DeliverCall addr req reply)" using assms(2) by (auto simp: job_inv_def)
  have car: "carries L task (DeliverCall addr req reply)"
    using process_task_carries [OF assms(1) 2(1)] assms(2) by (auto simp: list_all_iff simp del: carries.simps)
  have "message_view_of L (pt_message task) \<noteq> None" using 2(1) by (rule decode_task_Some) (simp add: check_task_def)
  then have msg: "dq_message req = message_view_of L (pt_message task)" using car by simp
  have rid: "valid_request_id (dq_request req)" if "plain_request raw" using car decoded_request_valid [OF 2(1) that] by simp
  have "\<exists>rs h'. rpc_deliver L cr [''Bearer '' @ job_token cr] Answered clock (Some req) h =
        (Inr \<lparr>dp_task = dq_task req, dp_message = mv_id (the (dq_message req)), dp_results = rs\<rparr>, h') \<and> map dr_target rs = dq_targets req"
    if "plain_request raw" "dq_comet req = Some (h_identity h)" "\<not> h_done h" for h cr clock
    using valid_call_answered [OF v rid [OF that(1)] that(2,3)] .
  then show ?thesis using v car msg rid 2(2) by (simp add: validate_comet_iff)
qed

text \<open>C15. \<open>Process\<close> ends after at most three rounds with one result per addressed recipient, in their order; an
  unresolved recipient has a reason, and the error is \<open>ErrUnresolved\<close> exactly when one is left.\<close>

theorem process_reports_everyone:
  assumes "process_task L env raw = (res, err, calls)"
  shows "jr_attempts res \<le> 3 \<and>
    (case decode_task L raw of
       None \<Rightarrow> err = Some InvalidTask \<and> calls = [] \<and> jr_recipients res = []
     | Some task \<Rightarrow>
         jr_task res = task \<and> map rt_user (jr_recipients res) = task_users task \<and>
         (err = None \<longleftrightarrow> (\<forall>v \<in> set (jr_recipients res). rt_outcome v \<noteq> Unresolved)) \<and>
         (\<forall>v \<in> set (jr_recipients res). rt_outcome v = Unresolved \<longrightarrow> rt_reason v \<noteq> NoReason))"
  using assms
proof (cases rule: process_task_inv)
  case 1
  then show ?thesis by simp
next
  case (2 task ss)
  have "map rs_user ss = task_users task" using 2(3) by (simp add: job_inv_def)
  moreover have "err = None \<longleftrightarrow> (\<forall>v \<in> set (jr_recipients res). rt_outcome v \<noteq> Unresolved)"
    using 2(6) by (auto simp: pending_recipients_def filter_empty_conv)
  ultimately show ?thesis using 2 by (auto simp: finish_recipient_def max_rounds_def comp_def)
qed


section \<open>A run\<close>

definition down :: rpc_status where "down = \<lparr>st_code = Unavailable, st_details = []\<rparr>"

definition lease_s :: comet_lease where
  "lease_s = \<lparr>cl_identity = Some comet_a, cl_address = ''comet:9'', cl_draining = False,
     cl_deadline = Some \<lparr>ts_seconds = 100, ts_nanos = 0\<rparr>\<rparr>"

definition inst_s :: instance_env where
  "inst_s = \<lparr>ie_ctx = False, ie_before = (0, 0), ie_dialled = True, ie_after = (0, 0), ie_rpc_ctx = False,
       ie_deliver = (\<lambda>q. Inr (Some \<lparr>da_task = dq_task q, da_message = mv_id (the (dq_message q)),
         da_results = map (\<lambda>t. Some \<lparr>dr_target = t, dr_outcome = DELIVERY_ENQUEUED\<rparr>) (dq_targets q)\<rparr>))\<rparr>"

definition round_s :: round_env where
  "round_s = \<lparr>en_lookup = (\<lambda>_. Inl down), en_lookup_clock = (\<lambda>_. 0), en_ctx = False,
     en_resolve = (\<lambda>_. Inr (Some [Some \<lparr>cr_instance = ''comet-1'', cr_state = LeaseState (Some lease_s)\<rparr>])),
     en_resolve_clock = (\<lambda>_. 0),
     en_instance = (\<lambda>_. inst_s)\<rparr>"

definition env_s :: process_env where
  "env_s = \<lparr>pe_ctx = (\<lambda>k. 0 < k), pe_wait = (\<lambda>_. False), pe_round = (\<lambda>_. round_s), pe_end = None\<rparr>"

lemma start_s: "map (start_recipient task_plain) (task_users task_plain) =
   [\<lparr>rs_user = user_a, rs_outcome = Unresolved, rs_reason = NoReason, rs_route = None, rs_deadline = zero_ns,
     rs_repair = False, rs_stopped = False\<rparr>,
    \<lparr>rs_user = user_b, rs_outcome = Unresolved, rs_reason = NoReason, rs_route = Some conn_c, rs_deadline = zero_ns,
     rs_repair = False, rs_stopped = False\<rparr>]"
proof -
  have "cn_user conn_c = user_b" by (simp add: conn_c_def)
  then show ?thesis by (simp add: start_recipient_def task_users_def task_plain_def task_s_def task_hint_def nil_list_def)
qed

lemma resolution_s: "valid_resolutions doc_lib (\<lambda>_. 0) (Some [Some \<lparr>cr_instance = ''comet-1'', cr_state = LeaseState (Some lease_s)\<rparr>]) [''comet-1'']"
proof -
  have "format_int 9 = ''9''" by code_simp
  moreover have "split_host_port ''comet:9'' = Some (''comet'', ''9'')" by code_simp
  moreover have "\<not> contains_any ''comet'' (''/@?# '' @ [char_of (9::nat), char_of (13::nat), char_of (10::nat), char_of (92::nat)])" by code_simp
  ultimately have "dial_address ''comet:9''" using parse_int64_format_int [of 9] by (simp add: dial_address_def)
  moreover have "future doc_lib 0 (cl_deadline lease_s)"
    by (simp add: future_def lease_s_def doc_lib_def as_time_def ns_per_s_def)
  ultimately show ?thesis
    by (simp add: valid_resolutions_def valid_resolution_def lease_s_def comet_a_def)
qed

lemma round_s_calls:
  "\<exists>ss rep req reply. dq_comet req = Some comet_a \<and> job_round doc_lib task_plain round_s (map (start_recipient task_plain) (task_users task_plain)) False =
     (ss, rep, [LookupCall [user_a] (Inl down), ResolveCall [''comet-1''] (en_resolve round_s [''comet-1'']),
                DeliverCall ''comet:9'' req reply])"
proof -
  have c: "cn_instance conn_c = ''comet-1''" by (simp add: conn_c_def)
  have f: "future doc_lib 0 (cl_deadline lease_s)"
    by (simp add: future_def lease_s_def doc_lib_def as_time_def ns_per_s_def)
  have e: "en_resolve round_s i = Inr (Some [Some \<lparr>cr_instance = ''comet-1'', cr_state = LeaseState (Some lease_s)\<rparr>])"
    "en_lookup round_s u = Inl down" "en_ctx round_s = False" "en_resolve_clock round_s = (\<lambda>_. 0)" for i u
    by (simp_all add: round_s_def)
  have i: "en_instance round_s inst = inst_s" for inst by (simp add: round_s_def)
  have n: "ie_ctx inst_s = False" "ie_before inst_s = (0, 0)" "ie_dialled inst_s" "ie_after inst_s = (0, 0)" "\<not> ie_rpc_ctx inst_s"
    by (simp_all add: inst_s_def)
  have b: "instance_step doc_lib task_plain inst_s \<lparr>cr_instance = x, cr_state = LeaseState (Some lease_s)\<rparr> [Suc 0] [s, r] =
      deliver_batch doc_lib task_plain inst_s lease_s [Suc 0] [s, r]" if "rs_deadline r = zero_ns" for s r x
    using f that n by (simp add: instance_step_def lease_of_def eligible_def route_alive_def upd_at_def)
  have d: "\<exists>req reply. dq_comet req = Some comet_a \<and> snd (deliver_batch doc_lib task_plain inst_s lease_s [Suc 0] ss) = [DeliverCall ''comet:9'' req reply]" for ss
    by (simp add: deliver_batch_def lease_s_def Let_def)
  show ?thesis unfolding start_s
    using resolution_s f c
    by (simp add: job_round_def lookup_phase_def lookup_step_def Let_def searching_def e instances_of_def routed_def i n b
        upd_at_def rpc_failure_def down_def permanent_code_def mark_def route_instance_def group_of_def)
      (metis (no_types, lifting) d prod.collapse case_prod_conv)
qed


lemma run_s:
  obtains raw res err calls addr req reply
  where "decode_task doc_lib raw = Some task_plain" "process_task doc_lib env_s raw = (res, err, calls)"
    "DeliverCall addr req reply \<in> set calls" "plain_request raw" "dq_comet req = Some comet_a"
proof -
  obtain raw where m: "marshal_task task_plain = Some raw" and raw: "decode_task doc_lib raw = Some task_plain"
    using valid_task_decodes [OF doc_lib_documented task_plain_valid] by blast
  have plain: "plain_request raw" by (rule published_plain [OF doc_lib_documented task_plain_valid m])
  obtain ss rep req reply where q: "dq_comet req = Some comet_a" and r: "job_round doc_lib task_plain round_s (map (start_recipient task_plain) (task_users task_plain)) False =
     (ss, rep, [LookupCall [user_a] (Inl down), ResolveCall [''comet-1''] (en_resolve round_s [''comet-1'']),
                DeliverCall ''comet:9'' req reply])"
    using round_s_calls by blast
  have e: "pe_ctx env_s 0 = False" "pe_round env_s 0 = round_s" "\<And>k. 0 < k \<Longrightarrow> pe_ctx env_s k" by (simp_all add: env_s_def)
  have run: "list_ex (runnable False) (map (start_recipient task_plain) (task_users task_plain))"
    by (simp add: start_s runnable_def)
  have "job_rounds doc_lib task_plain env_s (k # ks) p = p" if "0 < k" for k ks p
    using e(3) [OF that] by (cases p) simp
  moreover have "[0..<max_rounds] = 0 # [1, 2]" by (simp add: max_rounds_def upt_rec numeral_3_eq_3)
  ultimately have "job_rounds doc_lib task_plain env_s [0..<max_rounds]
      (map (start_recipient task_plain) (task_users task_plain), False, 0, []) =
      (ss, rep, 1, [LookupCall [user_a] (Inl down), ResolveCall [''comet-1''] (en_resolve round_s [''comet-1'']),
                DeliverCall ''comet:9'' req reply])"
    using r e run by simp
  then show thesis using that [OF raw _ _ plain q] raw by (force simp: process_task_def Let_def)
qed

definition credentials_s :: rpc_credentials where
  "credentials_s = \<lparr>job_token = replicate 32 CHR ''j'', logic_token = replicate 32 CHR ''l'', admin_token = replicate 32 CHR ''a''\<rparr>"

theorem deliveries_confirmed_once_witness:
  "\<exists>raw res err calls. process_task doc_lib env_s raw = (res, err, calls) \<and> calls \<noteq> [] \<and> no_repeat [] calls"
proof -
  obtain raw res err calls where "process_task doc_lib env_s raw = (res, err, calls)" "calls \<noteq> []"
    by (rule run_s) (metis empty_iff empty_set)
  then show ?thesis using deliveries_confirmed_once by blast
qed

theorem deliveries_pass_comet_checks_witness:
  "\<exists>raw res err calls addr req reply rs h'. process_task doc_lib env_s raw = (res, err, calls) \<and> DeliverCall addr req reply \<in> set calls \<and>
     rpc_deliver doc_lib credentials_s [''Bearer '' @ job_token credentials_s] Answered (\<lambda>_. 0) (Some req) hub_a =
       (Inr \<lparr>dp_task = pt_task_id task_plain, dp_message = mv_id (the (dq_message req)), dp_results = rs\<rparr>, h')"
proof -
  obtain raw res err calls addr req reply
    where r: "decode_task doc_lib raw = Some task_plain" "process_task doc_lib env_s raw = (res, err, calls)"
      "DeliverCall addr req reply \<in> set calls" "plain_request raw" "dq_comet req = Some comet_a"
    by (rule run_s)
  have h: "dq_comet req = Some (h_identity hub_a)" "\<not> h_done hub_a" using r(5) by (simp_all add: hub_a_def)
  have t: "jr_task res = task_plain" using r(1,2) by (auto simp: process_task_def Let_def split: prod.splits)
  then have q: "dq_task req = pt_task_id task_plain" using deliveries_pass_comet_checks [OF r(2,3)] by simp
  obtain rs h' where "rpc_deliver doc_lib credentials_s [''Bearer '' @ job_token credentials_s] Answered (\<lambda>_. 0) (Some req) hub_a =
       (Inr \<lparr>dp_task = dq_task req, dp_message = mv_id (the (dq_message req)), dp_results = rs\<rparr>, h')"
    using deliveries_pass_comet_checks [OF r(2,3)] r(4) h by blast
  then show ?thesis using r(2,3) unfolding q by blast
qed

theorem process_reports_everyone_witness:
  "\<exists>raw res err calls. process_task doc_lib env_s raw = (res, err, calls) \<and> map rt_user (jr_recipients res) = [user_a, user_b]"
proof -
  obtain raw res err calls where r: "decode_task doc_lib raw = Some task_plain" "process_task doc_lib env_s raw = (res, err, calls)"
    by (rule run_s)
  have u: "task_users task_plain = [user_a, user_b]" by (simp add: task_users_def task_plain_def task_s_def)
  have "map rt_user (jr_recipients res) = task_users task_plain"
    using process_reports_everyone [OF r(2)] unfolding r(1) by (simp only: option.case) 
  then have "map rt_user (jr_recipients res) = [user_a, user_b]" unfolding u .
  with r(2) show ?thesis by (intro exI conjI)
qed

text \<open>C16. \<open>checkJSON\<close> rejects a member spelt with capitals, but not one spelt with the long s (U+017F), which \<open>encoding/json\<close>
  takes for \<open>s\<close>. A task with two recipients and an empty replay subset is refused when \<open>pending_recipients\<close> is spelt plainly, and
  with the long s \<open>Process\<close> reports success for it without a single call. A request id of one control byte is refused under
  \<open>request_id\<close>, and with the long s the task is accepted with an id that every Comet refuses as an invalid argument.\<close>

theorem aliased_task_lost:
  "length (pt_recipients task_plain) = 2 \<and>
   process_task doc_lib env (odd_task (''pending_recipient'' @ [CHR 0xC5, CHR 0xBF]) (JArr [])) =
     (\<lparr>jr_task = task_plain\<lparr>pt_pending := Some []\<rparr>, jr_recipients = [], jr_attempts = 0\<rparr>, None, []) \<and>
   process_task doc_lib env (odd_task ''pending_recipients'' (JArr [])) =
     (\<lparr>jr_task = zero_task, jr_recipients = [], jr_attempts = 0\<rparr>, Some InvalidTask, []) \<and>
   (\<exists>t. decode_task doc_lib (odd_task (''reque'' @ [CHR 0xC5, CHR 0xBF] @ ''t_id'') (json_string [CHR 0x01])) = Some t \<and>
      check_identity doc_lib h c (pt_request t) = Inl (rpc_error InvalidArgument REASON_INVALID_ARGUMENT RETRY_DO_NOT_RETRY '''')) \<and>
   decode_task doc_lib (odd_task ''request_id'' (json_string [CHR 0x01])) = None"
proof -
  let ?t = "task_plain\<lparr>pt_pending := Some []\<rparr>"
  have k: "''pending_recipient'' @ [CHR 0xC5, CHR 0xBF] = alias_key" "''reque'' @ [CHR 0xC5, CHR 0xBF] @ ''t_id'' = request_alias"
    by (simp_all add: alias_key_def request_alias_def) code_simp+
  have u: "task_users ?t = []" by (simp add: task_users_def)
  have "[0..<max_rounds] = 0 # [1, 2]" by (simp add: max_rounds_def upt_rec numeral_3_eq_3)
  then have "process_task doc_lib env (odd_task alias_key (JArr [])) = (\<lparr>jr_task = ?t, jr_recipients = [], jr_attempts = 0\<rparr>, None, [])"
    using aliased_texts(1) by (simp add: process_task_def u pending_recipients_def)
  moreover have "process_task doc_lib env (odd_task ''pending_recipients'' (JArr [])) =
     (\<lparr>jr_task = zero_task, jr_recipients = [], jr_attempts = 0\<rparr>, Some InvalidTask, [])"
    using aliased_texts(2) by (simp add: process_task_def)
  moreover have "length (pt_recipients task_plain) = 2" by (simp add: task_plain_def task_s_def)
  moreover have "check_identity doc_lib h c [CHR 0x01] = Inl (rpc_error InvalidArgument REASON_INVALID_ARGUMENT RETRY_DO_NOT_RETRY '''')"
    using odd_request(3) by (simp add: check_identity_def)
  ultimately show ?thesis unfolding k using aliased_texts(3,4) odd_request(1) by auto
qed
end
