(* ===== verification/JobConsumer.thy ===== *)
theory JobConsumer
  imports JobDelivery "HOL-Library.Word"
begin

text \<open>
  \<open>internal/job/consumer.go\<close>: one partition's loop over fetch, processing, dead letter and commit, with the
  ring of recent task identities and the counters. The processor is an argument (Go's interface
  \<open>TaskProcessor\<close>); the fetched message, the clock, the state of the context and the fate of each write and
  commit are the environment of a step. Every externally visible action goes to a log.
\<close>

section \<open>Messages and dead letters\<close>

record kafka_message =
  km_topic :: string
  km_partition :: int
  km_offset :: int
  km_key :: string
  km_value :: string

record dead_letter =
  dl_topic :: string
  dl_partition :: int
  dl_offset :: string
  dl_reason :: string
  dl_task :: "push_task option"
  dl_pending :: "string list option"
  dl_raw :: string
  dl_first :: gotime
  dl_last :: gotime
  dl_original :: string
  dl_key :: string

text \<open>\<open>ImmutableDigest\<close>; a failing \<open>Marshal\<close> leaves the empty text.\<close>

definition digest_json :: "push_task \<Rightarrow> json option" where
  "digest_json t =
     map_option (\<lambda>m. JObj
       [(''Version'', number_json (pt_version t)), (''Kind'', json_string (pt_kind t)), (''ID'', json_string (pt_task_id t)),
        (''Message'', m), (''Recipients'', JArr (map json_string (pt_recipients t))),
        (''Index'', number_json (pt_index t)), (''Count'', number_json (pt_count t))])
       (message_json (pt_message t))"

definition immutable_digest :: "lib \<Rightarrow> push_task \<Rightarrow> string" where
  "immutable_digest L t = sha256 L (case digest_json t of None \<Rightarrow> [] | Some v \<Rightarrow> json_print v)"

section \<open>The consumer\<close>

record consumer_stats =
  cs_processed :: nat
  cs_committed :: nat
  cs_dlq :: nat
  cs_invalid :: nat
  cs_conflicts :: nat
  cs_retries :: nat
  cs_dlqErrors :: nat
  cs_commitErrors :: nat
  cs_offline :: nat
  cs_enqueued :: nat
  cs_duplicate :: nat
  cs_unresolved :: nat

record consumer =
  co_attempts :: nat
  co_delay :: int
  co_capacity :: nat
  co_stats :: consumer_stats
  co_identities :: "(string \<times> string) list"
  co_order :: "string list"
  co_next :: nat
  co_blocked :: nat

definition zero_stats :: consumer_stats where
  "zero_stats = \<lparr>cs_processed = 0, cs_committed = 0, cs_dlq = 0, cs_invalid = 0, cs_conflicts = 0, cs_retries = 0,
     cs_dlqErrors = 0, cs_commitErrors = 0, cs_offline = 0, cs_enqueued = 0, cs_duplicate = 0, cs_unresolved = 0\<rparr>"

text \<open>\<open>NewConsumer\<close>: options out of range are replaced.\<close>

definition new_consumer :: "int \<Rightarrow> int \<Rightarrow> int \<Rightarrow> consumer" where
  "new_consumer attempts delay capacity =
     \<lparr>co_attempts = (if attempts < 1 \<or> 3 < attempts then 3 else nat attempts),
      co_delay = (if delay \<le> 0 \<or> ns_per_s < delay then ns_job 200 else delay),
      co_capacity = (if capacity < 1 \<or> 65536 < capacity then 4096 else nat capacity),
      co_stats = zero_stats, co_identities = [], co_order = [], co_next = 0, co_blocked = 0\<rparr>"

text \<open>\<open>conflict\<close>: the ring of recent identities.\<close>

definition identity_of :: "consumer \<Rightarrow> string \<Rightarrow> string option" where
  "identity_of c = map_of (co_identities c)"

definition conflict :: "lib \<Rightarrow> push_task \<Rightarrow> consumer \<Rightarrow> bool \<times> consumer" where
  "conflict L task c =
     (let digest = immutable_digest L task; tid = pt_task_id task in
      case identity_of c tid of
        Some old \<Rightarrow> (old \<noteq> digest, c)
      | None \<Rightarrow>
        let c1 = (if length (co_order c) < co_capacity c then c\<lparr>co_order := co_order c @ [tid]\<rparr>
                  else c\<lparr>co_identities := filter (\<lambda>(k, v). k \<noteq> co_order c ! co_next c) (co_identities c),
                         co_order := (co_order c)[co_next c := tid],
                         co_next := (co_next c + 1) mod length (co_order c)\<rparr>)
        in (False, c1\<lparr>co_identities := (tid, digest) # co_identities c1\<rparr>))"

section \<open>Acknowledgements\<close>

datatype run_error = RunCtx ctx_err | FetchFailed | Boundary

record ack_try =
  at_ctx :: "ctx_err option"
  at_ok :: bool
  at_pause :: "ctx_err option"

definition ack_failed :: "bool \<Rightarrow> consumer_stats \<Rightarrow> consumer_stats" where
  "ack_failed dlq s =
     (if dlq then s\<lparr>cs_dlqErrors := cs_dlqErrors s + 1\<rparr> else s\<lparr>cs_commitErrors := cs_commitErrors s + 1\<rparr>)"

definition ack_miss :: "bool \<Rightarrow> bool \<Rightarrow> consumer \<Rightarrow> consumer" where
  "ack_miss dlq blocked c =
     (let c1 = c\<lparr>co_stats := ack_failed dlq (co_stats c)\<rparr>
      in if blocked then c1 else c1\<lparr>co_blocked := co_blocked c1 + 1\<rparr>)"

definition ack_retry :: "consumer \<Rightarrow> consumer" where
  "ack_retry c = c\<lparr>co_stats := (co_stats c)\<lparr>cs_retries := cs_retries (co_stats c) + 1\<rparr>\<rparr>"

text \<open>The loop of \<open>ack\<close> from attempt \<open>k\<close>; the result counts the calls made.\<close>

fun ack_loop :: "bool \<Rightarrow> (nat \<Rightarrow> ack_try) \<Rightarrow> nat \<Rightarrow> nat \<Rightarrow> bool \<Rightarrow> consumer \<Rightarrow> (run_error + unit) \<times> nat \<times> bool \<times> consumer" where
  "ack_loop dlq env k 0 blocked c = (Inl Boundary, 0, blocked, c)"
| "ack_loop dlq env k (Suc left) blocked c =
     (case at_ctx (env k) of
        Some e \<Rightarrow> (Inl (RunCtx e), 0, blocked, c)
      | None \<Rightarrow>
        if at_ok (env k) then (Inr (), 1, blocked, c)
        else
          let c1 = ack_miss dlq blocked c in
          if left = 0 then (Inl Boundary, 1, True, c1)
          else
            case at_pause (env k) of
              Some e \<Rightarrow> (Inl (RunCtx e), 1, True, ack_retry c1)
            | None \<Rightarrow>
              let (r, n, b, c2) = ack_loop dlq env (Suc k) left True (ack_retry c1) in (r, Suc n, b, c2))"

definition ack :: "bool \<Rightarrow> (nat \<Rightarrow> ack_try) \<Rightarrow> consumer \<Rightarrow> (run_error + unit) \<times> nat \<times> consumer" where
  "ack dlq env c =
     (let (r, n, blocked, c') = ack_loop dlq env 0 (co_attempts c) False c in
      (r, n, if blocked then c'\<lparr>co_blocked := co_blocked c' - 1\<rparr> else c'))"

section \<open>One message\<close>

record consumer_event =
  ev_stage :: string
  ev_outcome :: string
  ev_request :: string
  ev_task :: string
  ev_message :: string
  ev_topic :: string
  ev_partition :: int
  ev_offset :: string
  ev_attempts :: nat
  ev_pending :: nat

datatype action =
    Fetched kafka_message
  | ProcessedBy kafka_message job_result "process_error option"
  | Observed kafka_message
  | WriteDead kafka_message dead_letter nat bool
  | CommitMessage kafka_message nat bool
  | Emitted consumer_event

record step_env =
  se_ctx :: "ctx_err option"
  se_fetch :: "kafka_message option"
  se_first :: int
  se_process_ctx :: "ctx_err option"
  se_before_ctx :: "ctx_err option"
  se_last :: int
  se_write :: "nat \<Rightarrow> ack_try"
  se_commit :: "nat \<Rightarrow> ack_try"

type_synonym task_process = "string \<Rightarrow> job_result \<times> process_error option"

definition base_letter :: "kafka_message \<Rightarrow> int \<Rightarrow> dead_letter" where
  "base_letter m first =
     \<lparr>dl_topic = km_topic m, dl_partition = sint (word_of_int (km_partition m) :: 32 word),
      dl_offset = format_int (km_offset m), dl_reason = [], dl_task = None,
      dl_pending = None, dl_raw = [], dl_first = GoTime first 0, dl_last = GoTime zero_ns 0, dl_original = [],
      dl_key = std_encode (km_key m)\<rparr>"

definition base_event :: "kafka_message \<Rightarrow> push_task option \<Rightarrow> consumer_event" where
  "base_event m t =
     \<lparr>ev_stage = [], ev_outcome = [], ev_request = (case t of None \<Rightarrow> [] | Some x \<Rightarrow> pt_request x),
      ev_task = (case t of None \<Rightarrow> [] | Some x \<Rightarrow> pt_task_id x),
      ev_message = (case t of None \<Rightarrow> [] | Some x \<Rightarrow> im_id (pt_message x)), ev_topic = km_topic m,
      ev_partition = km_partition m, ev_offset = format_int (km_offset m), ev_attempts = 0, ev_pending = 0\<rparr>"

definition emit :: "string \<Rightarrow> string \<Rightarrow> consumer_event \<Rightarrow> action" where
  "emit stage outcome e = Emitted (e\<lparr>ev_stage := stage, ev_outcome := outcome\<rparr>)"

definition count_outcome :: "job_outcome \<Rightarrow> job_result \<Rightarrow> nat" where
  "count_outcome o' r = length (filter (\<lambda>v. rt_outcome v = o') (jr_recipients r))"

definition count_result :: "job_result \<Rightarrow> consumer_stats \<Rightarrow> consumer_stats" where
  "count_result r s =
     s\<lparr>cs_processed := cs_processed s + 1, cs_retries := cs_retries s + (jr_attempts r - 1),
       cs_offline := cs_offline s + count_outcome Offline r, cs_enqueued := cs_enqueued s + count_outcome Enqueued r,
       cs_duplicate := cs_duplicate s + count_outcome Duplicate r,
       cs_unresolved := cs_unresolved s + count_outcome Unresolved r\<rparr>"

definition nonempty :: "'a list \<Rightarrow> 'a list option" where
  "nonempty xs = (if xs = [] then None else Some xs)"

text \<open>A message whose task is not processed: it does not decode, or conflicts.\<close>

definition reject_message ::
  "kafka_message \<Rightarrow> push_task option \<Rightarrow> int \<Rightarrow> consumer \<Rightarrow> dead_letter option \<times> consumer_event \<times> action list \<times> consumer" where
  "reject_message m task first c =
     (let reason = (if task = None then ''invalid_task'' else ''immutable_task_conflict'');
          s = (co_stats c)\<lparr>cs_invalid := cs_invalid (co_stats c) + 1\<rparr>;
          s1 = (if task = None then s else s\<lparr>cs_conflicts := cs_conflicts s + 1\<rparr>);
          e = base_event m task in
      (Some ((base_letter m first)\<lparr>dl_reason := reason, dl_raw := std_encode (km_value m)\<rparr>), e,
       [emit ''process'' reason e], c\<lparr>co_stats := s1\<rparr>))"

text \<open>A processed message: the dead letter for what is left, if anything is.\<close>

definition unresolved_letter :: "kafka_message \<Rightarrow> push_task \<Rightarrow> int \<Rightarrow> string list \<Rightarrow> dead_letter" where
  "unresolved_letter m task first pending =
     (base_letter m first)\<lparr>dl_reason := ''unresolved'', dl_task := Some task,
       dl_pending := nonempty (if pending = [] then task_users task else pending),
       dl_original := std_encode (km_value m)\<rparr>"

definition settle_message ::
  "kafka_message \<Rightarrow> push_task \<Rightarrow> int \<Rightarrow> job_result \<Rightarrow> process_error option \<Rightarrow> consumer \<Rightarrow>
   dead_letter option \<times> consumer_event \<times> action list \<times> consumer" where
  "settle_message m task first result err c =
     (let pending = pending_recipients result;
          e = (base_event m (Some task))\<lparr>ev_attempts := jr_attempts result, ev_pending := length pending\<rparr>;
          c1 = c\<lparr>co_stats := count_result result (co_stats c)\<rparr> in
      if err \<noteq> None \<or> pending \<noteq> [] then
        let d = unresolved_letter m task first pending;
            e1 = e\<lparr>ev_pending := length (nil_list (dl_pending d))\<rparr>
        in (Some d, e1, [emit ''process'' ''unresolved'' e1], c1)
      else (None, e, [emit ''process'' ''terminal'' e], c1))"

text \<open>From the observer to the commit.\<close>

definition finish_message ::
  "step_env \<Rightarrow> kafka_message \<Rightarrow> dead_letter option \<Rightarrow> consumer_event \<Rightarrow> consumer \<Rightarrow>
   (run_error + unit) \<times> action list \<times> consumer" where
  "finish_message env m dead e c =
     (case se_before_ctx env of
        Some x \<Rightarrow> (Inl (RunCtx x), [], c)
      | None \<Rightarrow>
        let (r1, l1, c1) =
          (case dead of
             None \<Rightarrow> (Inr (), [], c)
           | Some d \<Rightarrow>
             let d1 = d\<lparr>dl_last := GoTime (se_last env) 0\<rparr>; (r, n, c') = ack True (se_write env) c in
             (case r of
                Inl x \<Rightarrow> (Inl x, [WriteDead m d1 n False, emit ''dlq'' ''blocked'' e], c')
              | Inr _ \<Rightarrow> (Inr (), [WriteDead m d1 n True, emit ''dlq'' ''acknowledged'' e],
                          c'\<lparr>co_stats := (co_stats c')\<lparr>cs_dlq := cs_dlq (co_stats c') + 1\<rparr>\<rparr>)))
        in
        (case r1 of
           Inl x \<Rightarrow> (Inl x, Observed m # l1, c1)
         | Inr _ \<Rightarrow>
           let (r2, n, c2) = ack False (se_commit env) c1 in
           (case r2 of
              Inl x \<Rightarrow> (Inl x, Observed m # l1 @ [CommitMessage m n False, emit ''commit'' ''blocked'' e], c2)
            | Inr _ \<Rightarrow> (Inr (), Observed m # l1 @ [CommitMessage m n True, emit ''commit'' ''acknowledged'' e],
                        c2\<lparr>co_stats := (co_stats c2)\<lparr>cs_committed := cs_committed (co_stats c2) + 1\<rparr>\<rparr>))))"

text \<open>One turn of the loop of \<open>RunPartition\<close>.\<close>

definition consume_one ::
  "lib \<Rightarrow> task_process \<Rightarrow> step_env \<Rightarrow> consumer \<Rightarrow> (run_error + unit) \<times> action list \<times> consumer" where
  "consume_one L proc env c =
     (case se_ctx env of
        Some x \<Rightarrow> (Inl (RunCtx x), [], c)
      | None \<Rightarrow>
        case se_fetch env of
          None \<Rightarrow> (Inl FetchFailed, [], c)
        | Some m \<Rightarrow>
          let task = decode_task L (km_value m);
              (bad, c1) = (case task of None \<Rightarrow> (True, c) | Some t \<Rightarrow> conflict L t c) in
          if bad then
            let (dead, e, l, c2) = reject_message m task (se_first env) c1;
                (r, l', c3) = finish_message env m dead e c2
            in (r, Fetched m # l @ l', c3)
          else
            let (result, err) = proc (km_value m) in
            (case se_process_ctx env of
               Some x \<Rightarrow>
                 (Inl (RunCtx x),
                  [Fetched m, ProcessedBy m result err,
                   emit ''process'' ''interrupted''
                     ((base_event m task)\<lparr>ev_attempts := jr_attempts result, ev_pending := length (pending_recipients result)\<rparr>)], c1)
             | None \<Rightarrow>
               let (dead, e, l, c2) = settle_message m (the task) (se_first env) result err c1;
                   (r, l', c3) = finish_message env m dead e c2
               in (r, Fetched m # ProcessedBy m result err # l @ l', c3)))"

text \<open>\<open>RunPartition\<close>: each turn has its own run of the processor and its own environment.\<close>

fun run_partition ::
  "lib \<Rightarrow> (task_process \<times> step_env) list \<Rightarrow> consumer \<Rightarrow> run_error option \<times> action list \<times> consumer" where
  "run_partition L [] c = (None, [], c)"
| "run_partition L ((proc, env) # envs) c =
     (let (r, l, c1) = consume_one L proc env c in
      case r of
        Inl x \<Rightarrow> (Some x, l, c1)
      | Inr _ \<Rightarrow> let (x, l', c2) = run_partition L envs c1 in (x, l @ l', c2))"

end
