(* ===== verification/JobAccounting.thy ===== *)
theory JobAccounting
  imports JobConsumer
begin

text \<open>Accounting for consumed tasks: the properties of the consumer loop of internal/job/consumer.go. The ring of
  task identities is consistent and bounded; a monitor over the log of actions says in which order a worker may fetch,
  process, write dead letters and commit; the locale \<open>task_processor\<close> names what the loop needs of Job's processor
  and is interpreted on the model of internal/job/processor.go.\<close>

section \<open>The ring of identities\<close>

definition ring_ok :: "consumer \<Rightarrow> bool" where
  "ring_ok c =
     (distinct (map fst (co_identities c)) \<and> distinct (co_order c) \<and> set (co_order c) = fst ` set (co_identities c) \<and>
      length (co_order c) \<le> co_capacity c \<and> 0 < co_capacity c \<and> (co_next c = 0 \<or> co_next c < length (co_order c)))"

lemma ring_ok_new: "ring_ok (new_consumer a d n)"
  by (simp add: ring_ok_def new_consumer_def)

lemma conflict_ring:
  assumes ok: "ring_ok c" and step: "conflict L task c = (b, c')"
  shows "ring_ok c'"
proof (cases "identity_of c (pt_task_id task)")
  case (Some old)
  then show ?thesis using step ok by (auto simp: conflict_def Let_def)
next
  case None
  let ?t = "pt_task_id task"
  have new: "?t \<notin> set (co_order c)" using None ok by (auto simp: identity_of_def ring_ok_def map_of_eq_None_iff)
  show ?thesis
  proof (cases "length (co_order c) < co_capacity c")
    case True
    then have "c' = c\<lparr>co_order := co_order c @ [?t], co_identities := (?t, immutable_digest L task) # co_identities c\<rparr>"
      using None step by (simp add: conflict_def Let_def)
    moreover have "co_next c = 0 \<or> co_next c < Suc (length (co_order c))" using ok by (auto simp: ring_ok_def)
    ultimately show ?thesis using ok new True by (simp add: ring_ok_def)
  next
    case False
    let ?o = "co_order c"
    let ?n = "co_next c"
    have n: "?n < length ?o" using ok False by (auto simp: ring_ok_def)
    have keys: "fst ` set (filter (\<lambda>(k, v). k \<noteq> ?o ! ?n) (co_identities c)) = set ?o - {?o ! ?n}"
      using ok by (force simp: ring_ok_def)
    have "set (?o[?n := ?t]) = insert ?t (set ?o - {?o ! ?n})"
      using n ok by (intro set_update_distinct) (auto simp: ring_ok_def)
    moreover have "distinct (?o[?n := ?t])" using ok new by (auto simp: ring_ok_def intro: distinct_list_update)
    moreover have "distinct (map fst (filter (\<lambda>(k, v). k \<noteq> ?o ! ?n) (co_identities c)))"
      using ok by (simp add: ring_ok_def distinct_map_filter)
    moreover have "(?n + 1) mod length ?o < length ?o" using n by (intro mod_less_divisor) linarith
    moreover have "c' = c\<lparr>co_identities := (?t, immutable_digest L task) # filter (\<lambda>(k, v). k \<noteq> ?o ! ?n) (co_identities c),
        co_order := ?o[?n := ?t], co_next := (?n + 1) mod length ?o\<rparr>"
      using None step False by (auto simp: conflict_def Let_def)
    moreover have "?t \<notin> fst ` set (filter (\<lambda>(k, v). k \<noteq> ?o ! ?n) (co_identities c))" unfolding keys using new by blast
    moreover have "length ?o \<le> co_capacity c" "0 < co_capacity c" using ok by (simp_all add: ring_ok_def)
    ultimately show ?thesis using keys by (simp add: ring_ok_def)
  qed
qed

text \<open>What the ring answers: a conflict is another digest under the same identity; afterwards the ring holds this
  digest unless it reported a conflict.\<close>

lemma conflict_answer:
  assumes "conflict L task c = (b, c')"
  shows "b \<longleftrightarrow> (\<exists>old. identity_of c (pt_task_id task) = Some old \<and> old \<noteq> immutable_digest L task)"
    and "\<not> b \<Longrightarrow> identity_of c' (pt_task_id task) = Some (immutable_digest L task)"
  using assms by (auto simp: conflict_def identity_of_def Let_def split: option.splits if_splits)

section \<open>Frames\<close>

definition same_ring :: "consumer \<Rightarrow> consumer \<Rightarrow> bool" where
  "same_ring c c' = (co_identities c' = co_identities c \<and> co_order c' = co_order c \<and> co_next c' = co_next c \<and>
     co_capacity c' = co_capacity c \<and> co_attempts c' = co_attempts c)"

lemma same_ring_refl [simp]: "same_ring c c"
  by (simp add: same_ring_def)

lemma same_ring_trans: "same_ring a b \<Longrightarrow> same_ring b c \<Longrightarrow> same_ring a c"
  by (simp add: same_ring_def)

lemma same_ring_ok: "same_ring c c' \<Longrightarrow> ring_ok c' = ring_ok c"
  by (simp add: same_ring_def ring_ok_def)

lemma ack_loop_facts:
  "ack_loop dlq env k left blocked c = (r, n, b, c') \<Longrightarrow>
     n \<le> left \<and> same_ring c c' \<and> co_blocked c' = co_blocked c + (if b \<and> \<not> blocked then 1 else 0) \<and> (blocked \<longrightarrow> b)"
proof (induction dlq env k left blocked c arbitrary: r n b c' rule: ack_loop.induct)
  case (1 dlq env k blocked c)
  then show ?case by simp
next
  case (2 dlq env k left blocked c)
  show ?case
  proof (cases "at_ctx (env k) \<noteq> None \<or> at_ok (env k)")
    case True
    then show ?thesis using "2.prems" by (auto split: option.splits)
  next
    case False
    let ?c2 = "ack_miss dlq blocked c"
    let ?c3 = "ack_retry ?c2"
    have s: "same_ring c ?c2" "same_ring c ?c3" by (simp_all add: same_ring_def ack_miss_def ack_retry_def Let_def)
    have bl: "co_blocked ?c2 = co_blocked c + (if blocked then 0 else 1)" "co_blocked ?c3 = co_blocked ?c2"
      by (simp_all add: ack_miss_def ack_retry_def Let_def)
    consider "left = 0" | "left \<noteq> 0" "at_pause (env k) \<noteq> None" | "left \<noteq> 0" "at_pause (env k) = None" by blast
    then show ?thesis
    proof cases
      case 1
      then have "n = 1" "b" "c' = ?c2" using "2.prems" False by auto
      then show ?thesis using s(1) bl 1 by simp
    next
      case 2
      then have "n = 1" "b" "c' = ?c3" using "2.prems" False by auto
      then show ?thesis using s(2) bl 2 by simp
    next
      case 3
      obtain r1 n1 b1 c4 where rec: "ack_loop dlq env (Suc k) left True ?c3 = (r1, n1, b1, c4)"
        by (cases "ack_loop dlq env (Suc k) left True ?c3") auto
      have eq: "n = Suc n1" "b = b1" "c' = c4"
        using "2.prems" False 3 rec by auto
      have ctx: "at_ctx (env k) = None" "\<not> at_ok (env k)" using False by auto
      have "n1 \<le> left \<and> same_ring ?c3 c4 \<and> co_blocked c4 = co_blocked ?c3 + (if b1 \<and> \<not> True then 1 else 0) \<and> (True \<longrightarrow> b1)"
        using "2.IH" [OF ctx refl 3(1) 3(2) rec] .
      then show ?thesis using eq bl s(2) same_ring_trans by auto
    qed
  qed
qed

lemma ack_facts:
  assumes "ack dlq env c = (r, n, c')"
  shows "n \<le> co_attempts c" "same_ring c c'" "co_blocked c' = co_blocked c"
proof -
  obtain b c1 where l: "ack_loop dlq env 0 (co_attempts c) False c = (r, n, b, c1)"
    "c' = (if b then c1\<lparr>co_blocked := co_blocked c1 - 1\<rparr> else c1)"
    using assms by (auto simp: ack_def split: prod.splits)
  from ack_loop_facts [OF l(1)] show "n \<le> co_attempts c" "same_ring c c'" "co_blocked c' = co_blocked c"
    unfolding l(2) by (auto simp: same_ring_def)
qed

section \<open>The log of a turn\<close>

text \<open>The partition's protocol: a message is open from its fetch to its successful commit, and none is fetched meanwhile.\<close>

fun monitor :: "kafka_message option \<Rightarrow> action list \<Rightarrow> kafka_message option option" where
  "monitor s [] = Some s"
| "monitor s (Fetched m # l) = (case s of None \<Rightarrow> monitor (Some m) l | Some _ \<Rightarrow> None)"
| "monitor s (CommitMessage m n ok # l) =
     (if s \<noteq> Some m then None else if ok then monitor None l else monitor s l)"
| "monitor s (a # l) = monitor s l"

lemma monitor_append: "monitor s (xs @ ys) = (case monitor s xs of None \<Rightarrow> None | Some s' \<Rightarrow> monitor s' ys)"
  by (induction s xs rule: monitor.induct) (auto split: option.splits)

text \<open>What must be in the log before a message is committed.\<close>

definition letter_keeps :: "lib \<Rightarrow> kafka_message \<Rightarrow> dead_letter \<Rightarrow> action list \<Rightarrow> bool" where
  "letter_keeps L m d l =
     (dl_topic d = km_topic m \<and> dl_offset d = format_int (km_offset m) \<and> dl_key d = std_encode (km_key m) \<and>
      (dl_task d = None \<and> dl_raw d = std_encode (km_value m) \<or>
       (\<exists>t result err. decode_task L (km_value m) = Some t \<and> dl_task d = Some t \<and> dl_original d = std_encode (km_value m) \<and>
          dl_reason d = ''unresolved'' \<and> ProcessedBy m result err \<in> set l \<and>
          nil_list (dl_pending d) = (if pending_recipients result = [] then task_users t else pending_recipients result))))"

definition accounted :: "lib \<Rightarrow> kafka_message \<Rightarrow> action list \<Rightarrow> bool" where
  "accounted L m l =
     ((\<exists>result. ProcessedBy m result None \<in> set l \<and> pending_recipients result = []) \<or>
      (\<exists>d n. WriteDead m d n True \<in> set l \<and> letter_keeps L m d l))"

lemma letter_keeps_last [simp]: "letter_keeps L m (d\<lparr>dl_last := x\<rparr>) l = letter_keeps L m d l"
  by (simp add: letter_keeps_def)

lemma letter_keeps_mono: "letter_keeps L m d l \<Longrightarrow> set l \<subseteq> set l' \<Longrightarrow> letter_keeps L m d l'"
  unfolding letter_keeps_def by blast

lemma accounted_mono: "accounted L m l \<Longrightarrow> set l \<subseteq> set l' \<Longrightarrow> accounted L m l'"
  unfolding accounted_def letter_keeps_def by blast

fun commits_accounted :: "lib \<Rightarrow> action list \<Rightarrow> action list \<Rightarrow> bool" where
  "commits_accounted L seen [] = True"
| "commits_accounted L seen (a # l) =
     ((case a of CommitMessage m n True \<Rightarrow> accounted L m seen | _ \<Rightarrow> True) \<and> commits_accounted L (seen @ [a]) l)"

lemma commits_accounted_append:
  "commits_accounted L seen (xs @ ys) \<longleftrightarrow> commits_accounted L seen xs \<and> commits_accounted L (seen @ xs) ys"
  by (induction xs arbitrary: seen) auto

lemma commits_accounted_weaken:
  "commits_accounted L seen l \<Longrightarrow> set seen \<subseteq> set seen' \<Longrightarrow> commits_accounted L seen' l"
proof (induction l arbitrary: seen seen')
  case Nil
  then show ?case by simp
next
  case (Cons a l)
  have "commits_accounted L (seen' @ [a]) l" using Cons.IH [of "seen @ [a]" "seen' @ [a]"] Cons.prems by auto
  moreover have "case a of CommitMessage m n True \<Rightarrow> accounted L m seen' | _ \<Rightarrow> True"
    using Cons.prems accounted_mono by (cases a) (auto split: bool.splits)
  ultimately show ?case by simp
qed

text \<open>Actions that neither fetch nor commit.\<close>

definition inner :: "action \<Rightarrow> bool" where
  "inner a = (case a of Fetched _ \<Rightarrow> False | CommitMessage _ _ _ \<Rightarrow> False | _ \<Rightarrow> True)"

lemma monitor_inner: "list_all inner l \<Longrightarrow> monitor s (l @ r) = monitor s r"
proof (induction l)
  case (Cons a l)
  then show ?case by (cases a) (auto simp: inner_def)
qed simp

lemma commits_inner: "list_all inner l \<Longrightarrow> commits_accounted L seen l"
proof (induction l arbitrary: seen)
  case (Cons a l)
  then show ?case by (cases a) (auto simp: inner_def)
qed simp

lemma commits_around:
  assumes "list_all inner a" "list_all inner b" "ok \<Longrightarrow> accounted L m (seen @ a)"
  shows "commits_accounted L seen (a @ CommitMessage m n ok # b)"
proof -
  have "commits_accounted L (seen @ a @ [CommitMessage m n ok]) b" by (rule commits_inner [OF assms(2)])
  then show ?thesis using commits_inner [OF assms(1)] assms(3) by (cases ok) (simp_all add: commits_accounted_append)
qed

lemma inner_simps [simp]: "inner (Observed m)" "inner (ProcessedBy m r e)" "inner (WriteDead m d n ok)"
  by (simp_all add: inner_def)

lemma emit_inner [simp]: "inner (emit s o' e)"
  by (simp add: inner_def emit_def)

lemma finish_message_log:
  assumes "finish_message env m dead e c = (r, l, c')"
  shows "(\<exists>x. r = Inl x) \<and> (list_all inner l \<or> (\<exists>pre n ev. l = pre @ [CommitMessage m n False, ev] \<and> list_all inner (pre @ [ev]))) \<or>
    r = Inr () \<and> (\<exists>pre n ev. l = pre @ [CommitMessage m n True, ev] \<and> list_all inner (pre @ [ev]) \<and>
       (\<forall>d. dead = Some d \<longrightarrow> (\<exists>k. WriteDead m (d\<lparr>dl_last := GoTime (se_last env) 0\<rparr>) k True \<in> set pre)))"
proof (cases "se_before_ctx env")
  case (Some x)
  then show ?thesis using assms by (auto simp: finish_message_def)
next
  case None
  note d = assms [unfolded finish_message_def None option.case]
  obtain r1 l1 c1 where s1: "(case dead of
             None \<Rightarrow> (Inr (), [], c)
           | Some d \<Rightarrow>
             let d1 = d\<lparr>dl_last := GoTime (se_last env) 0\<rparr>; (r, n, c') = ack True (se_write env) c in
             (case r of
                Inl x \<Rightarrow> (Inl x, [WriteDead m d1 n False, emit ''dlq'' ''blocked'' e], c')
              | Inr _ \<Rightarrow> (Inr (), [WriteDead m d1 n True, emit ''dlq'' ''acknowledged'' e],
                          c'\<lparr>co_stats := (co_stats c')\<lparr>cs_dlq := cs_dlq (co_stats c') + 1\<rparr>\<rparr>))) = (r1, l1, c1)" (is "?s = _")
    by (cases ?s) auto
  have i1: "list_all inner l1" using s1 by (auto simp: Let_def inner_def emit_def split: option.splits sum.splits prod.splits)
  have w1: "r1 = Inr () \<Longrightarrow> dead = Some d \<Longrightarrow> \<exists>k. WriteDead m (d\<lparr>dl_last := GoTime (se_last env) 0\<rparr>) k True \<in> set l1" for d
    using s1 by (auto simp: Let_def split: sum.splits prod.splits)
  show ?thesis
  proof (cases r1)
    case (Inl x)
    then have "r = Inl x" "l = Observed m # l1" using d unfolding s1 by auto
    then show ?thesis using i1 by (simp add: inner_def)
  next
    case (Inr u)
    obtain r2 n c2 where a: "ack False (se_commit env) c1 = (r2, n, c2)" by (cases "ack False (se_commit env) c1") auto
    show ?thesis
    proof (cases r2)
      case (Inl x)
      then have r: "r = Inl x" and l: "l = (Observed m # l1) @ [CommitMessage m n False, emit ''commit'' ''blocked'' e]"
        using d a Inr unfolding s1 by auto
      have i: "list_all inner ((Observed m # l1) @ [emit ''commit'' ''blocked'' e])" using i1 by simp
      show ?thesis by (rule disjI1, rule conjI, rule exI, rule r, rule disjI2, rule exI, rule exI, rule exI, rule conjI, rule l, rule i)
    next
      case (Inr v)
      then have r: "r = Inr ()" and l: "l = (Observed m # l1) @ [CommitMessage m n True, emit ''commit'' ''acknowledged'' e]"
        using d a \<open>r1 = Inr u\<close> unfolding s1 by auto
      have i: "list_all inner ((Observed m # l1) @ [emit ''commit'' ''acknowledged'' e])" using i1 by simp
      have w: "\<forall>d. dead = Some d \<longrightarrow> (\<exists>k. WriteDead m (d\<lparr>dl_last := GoTime (se_last env) 0\<rparr>) k True \<in> set (Observed m # l1))"
        using w1 \<open>r1 = Inr u\<close> by auto
      show ?thesis
        by (rule disjI2, rule conjI, rule r, rule exI, rule exI, rule exI, rule conjI, rule l, rule conjI, rule i, rule w)
    qed
  qed
qed

text \<open>The log of a message: its dead letter, if any, keeps what the log says is left.\<close>

definition letter_due :: "lib \<Rightarrow> kafka_message \<Rightarrow> dead_letter option \<Rightarrow> action list \<Rightarrow> bool" where
  "letter_due L m dead pre =
     (case dead of
        None \<Rightarrow> \<exists>result. ProcessedBy m result None \<in> set pre \<and> pending_recipients result = []
      | Some d \<Rightarrow> letter_keeps L m d pre)"

lemma turn_log:
  assumes f: "finish_message env m dead e c = (r, l, c')" and pre: "list_all inner pre" and due: "letter_due L m dead pre"
  shows "(\<exists>s. monitor None (Fetched m # pre @ l) = Some s \<and> (r = Inr () \<longrightarrow> s = None)) \<and>
         commits_accounted L [] (Fetched m # pre @ l)"
  using finish_message_log [OF f]
proof (elim disjE conjE exE)
  assume "list_all inner l"
  then show ?thesis if "r = Inl x" for x
    using that pre monitor_inner [of "pre @ l" "Some m" "[]"] commits_inner [of "Fetched m # pre @ l"] commits_inner [of "pre @ l" L "[Fetched m]"]
    by simp
next
  fix x q n ev
  assume r: "r = Inl x" and l: "l = q @ [CommitMessage m n False, ev]" "list_all inner (q @ [ev])"
  have "monitor (Some m) ((pre @ q) @ [CommitMessage m n False, ev]) = monitor (Some m) [CommitMessage m n False, ev]"
    by (rule monitor_inner) (use pre l in simp)
  also have "\<dots> = Some (Some m)" using l monitor_inner [of "[ev]" "Some m" "[]"] by simp
  finally have "monitor (Some m) (pre @ l) = Some (Some m)" using l by simp
  moreover have "commits_accounted L [Fetched m] (pre @ l)"
    using commits_around [of "pre @ q" "[ev]" False L m "[Fetched m]" n] pre l by simp
  ultimately show ?thesis using r by simp
next
  fix q n ev
  assume r: "r = Inr ()" and l: "l = q @ [CommitMessage m n True, ev]" "list_all inner (q @ [ev])"
    and w: "\<forall>d. dead = Some d \<longrightarrow> (\<exists>k. WriteDead m (d\<lparr>dl_last := GoTime (se_last env) 0\<rparr>) k True \<in> set q)"
  have "monitor (Some m) ((pre @ q) @ [CommitMessage m n True, ev]) = monitor (Some m) [CommitMessage m n True, ev]"
    by (rule monitor_inner) (use pre l in simp)
  also have "\<dots> = Some None" using l monitor_inner [of "[ev]" None "[]"] by simp
  finally have "monitor (Some m) (pre @ l) = Some None" using l by simp
  moreover have "accounted L m (Fetched m # pre @ q)"
  proof (cases dead)
    case None
    then show ?thesis using due by (auto simp: letter_due_def accounted_def)
  next
    case (Some d)
    then obtain k where "WriteDead m (d\<lparr>dl_last := GoTime (se_last env) 0\<rparr>) k True \<in> set q" using w by blast
    moreover have "letter_keeps L m (d\<lparr>dl_last := GoTime (se_last env) 0\<rparr>) (Fetched m # pre @ q)"
      using due Some letter_keeps_mono [of L m d pre "Fetched m # pre @ q"] by (auto simp: letter_due_def)
    ultimately show ?thesis unfolding accounted_def by auto
  qed
  then have "commits_accounted L [Fetched m] (pre @ l)"
    using commits_around [of "pre @ q" "[ev]" True L m "[Fetched m]" n] pre l by simp
  ultimately show ?thesis using r by simp
qed

definition bounded_acks :: "nat \<Rightarrow> action list \<Rightarrow> bool" where
  "bounded_acks b l =
     list_all (\<lambda>a. case a of WriteDead m d n ok \<Rightarrow> n \<le> b | CommitMessage m n ok \<Rightarrow> n \<le> b | _ \<Rightarrow> True) l"

lemma bounded_quiet: "bounded_acks b (Fetched m # l) = bounded_acks b l" "bounded_acks b (ProcessedBy m r e # l) = bounded_acks b l"
  "bounded_acks b []" "bounded_acks b (xs @ ys) = (bounded_acks b xs \<and> bounded_acks b ys)" "bounded_acks b (emit s o' ev # l) = bounded_acks b l"
  "bounded_acks b (Observed m # l) = bounded_acks b l" "bounded_acks b (WriteDead m d n ok # l) = (n \<le> b \<and> bounded_acks b l)"
  "bounded_acks b (CommitMessage m n ok # l) = (n \<le> b \<and> bounded_acks b l)"
  by (simp_all add: bounded_acks_def emit_def)

lemma finish_message_frame:
  assumes "finish_message env m dead e c = (r, l, c')"
  shows "same_ring c c' \<and> co_blocked c' = co_blocked c \<and> bounded_acks (co_attempts c) l"
proof (cases "se_before_ctx env")
  case (Some x)
  then show ?thesis using assms by (auto simp: finish_message_def bounded_quiet)
next
  case None
  note d = assms [unfolded finish_message_def None option.case]
  obtain r1 l1 c1 where s1: "(case dead of
             None \<Rightarrow> (Inr (), [], c)
           | Some d \<Rightarrow>
             let d1 = d\<lparr>dl_last := GoTime (se_last env) 0\<rparr>; (r, n, c') = ack True (se_write env) c in
             (case r of
                Inl x \<Rightarrow> (Inl x, [WriteDead m d1 n False, emit ''dlq'' ''blocked'' e], c')
              | Inr _ \<Rightarrow> (Inr (), [WriteDead m d1 n True, emit ''dlq'' ''acknowledged'' e],
                          c'\<lparr>co_stats := (co_stats c')\<lparr>cs_dlq := cs_dlq (co_stats c') + 1\<rparr>\<rparr>))) = (r1, l1, c1)" (is "?s = _")
    by (cases ?s) auto
  have f1: "same_ring c c1 \<and> co_blocked c1 = co_blocked c \<and> bounded_acks (co_attempts c) l1"
  proof (cases dead)
    case None
    then show ?thesis using s1 by (auto simp: bounded_quiet)
  next
    case (Some d)
    obtain ra n c2 where a: "ack True (se_write env) c = (ra, n, c2)" by (cases "ack True (se_write env) c") auto
    show ?thesis using s1 Some a ack_facts [OF a] by (cases ra) (auto simp: same_ring_def Let_def bounded_quiet)
  qed
  show ?thesis
  proof (cases r1)
    case (Inl x)
    then show ?thesis using d f1 unfolding s1 by (auto simp: bounded_quiet)
  next
    case (Inr u)
    obtain r2 n c2 where a: "ack False (se_commit env) c1 = (r2, n, c2)" by (cases "ack False (se_commit env) c1") auto
    have "n \<le> co_attempts c" "same_ring c c2" "co_blocked c2 = co_blocked c"
      using ack_facts [OF a] f1 same_ring_trans by (auto simp: same_ring_def)
    then show ?thesis using d a Inr f1 unfolding s1 by (cases r2) (auto simp: same_ring_def bounded_quiet)
  qed
qed

lemma settle_message_facts:
  assumes "settle_message m t first result err c = (dead, e, l, c')" and "decode_task L (km_value m) = Some t"
  shows "list_all inner (ProcessedBy m result err # l)" "letter_due L m dead (ProcessedBy m result err # l)" "same_ring c c' \<and> co_blocked c' = co_blocked c"
proof -
  show "list_all inner (ProcessedBy m result err # l)" "same_ring c c' \<and> co_blocked c' = co_blocked c"
    using assms(1) by (auto simp: settle_message_def Let_def same_ring_def split: if_splits)
  show "letter_due L m dead (ProcessedBy m result err # l)"
  proof (cases "err \<noteq> None \<or> pending_recipients result \<noteq> []")
    case True
    then have d: "dead = Some (unresolved_letter m t first (pending_recipients result))"
      using assms(1) by (simp add: settle_message_def Let_def)
    have "nil_list (nonempty xs) = xs" for xs :: "string list" by (simp add: nil_list_def nonempty_def)
    then show ?thesis using assms(2) unfolding d letter_due_def option.case letter_keeps_def
      by (fastforce simp: unresolved_letter_def base_letter_def)
  next
    case False
    then show ?thesis using assms(1) by (auto simp: settle_message_def letter_due_def Let_def)
  qed
qed

lemma reject_message_facts:
  assumes "reject_message m t first c = (dead, e, l, c')"
  shows "list_all inner l" "letter_due L m dead l" "same_ring c c' \<and> co_blocked c' = co_blocked c"
  using assms by (auto simp: reject_message_def Let_def same_ring_def letter_due_def letter_keeps_def base_letter_def)

lemma consume_one_cases:
  assumes "consume_one L proc env c = (r, l, c')"
  obtains (ctx) x where "se_ctx env = Some x" "r = Inl (RunCtx x)" "l = []" "c' = c"
  | (fetch) "se_fetch env = None" "r = Inl FetchFailed" "l = []" "c' = c"
  | (bad) m dead e l0 l1 c1 c2 where "se_fetch env = Some m"
      "decode_task L (km_value m) = None \<and> c1 = c \<or> (\<exists>t. decode_task L (km_value m) = Some t \<and> conflict L t c = (True, c1))"
      "reject_message m (decode_task L (km_value m)) (se_first env) c1 = (dead, e, l0, c2)"
      "finish_message env m dead e c2 = (r, l1, c')" "l = Fetched m # l0 @ l1"
  | (stopped) m t result err x ev where "se_fetch env = Some m" "decode_task L (km_value m) = Some t" "conflict L t c = (False, c')"
      "proc (km_value m) = (result, err)" "r = Inl (RunCtx x)" "l = [Fetched m, ProcessedBy m result err, emit ''process'' ''interrupted'' ev]"
  | (good) m t result err dead e l0 l1 c1 c2 where "se_fetch env = Some m" "decode_task L (km_value m) = Some t"
      "conflict L t c = (False, c1)" "proc (km_value m) = (result, err)"
      "settle_message m t (se_first env) result err c1 = (dead, e, l0, c2)"
      "finish_message env m dead e c2 = (r, l1, c')" "l = Fetched m # ProcessedBy m result err # l0 @ l1"
proof (cases "se_ctx env")
  case (Some x)
  then show thesis using assms ctx by (auto simp: consume_one_def)
next
  case none: None
  show thesis
  proof (cases "se_fetch env")
    case None
    then show thesis using assms none fetch by (auto simp: consume_one_def)
  next
    case (Some m)
    note d = assms [unfolded consume_one_def none option.case Some Let_def]
    show thesis
    proof (cases "decode_task L (km_value m)")
      case None
      then show thesis using d bad [OF Some] by (auto split: prod.splits)
    next
      case (Some t)
      obtain b c1 where cf: "conflict L t c = (b, c1)" by fastforce
      show thesis
      proof (cases b)
        case True
        then show thesis using d Some cf bad [OF \<open>se_fetch env = Some m\<close>] by (auto split: prod.splits)
      next
        case False
        obtain result err where p: "proc (km_value m) = (result, err)" by fastforce
        show thesis
        proof (cases "se_process_ctx env")
          case None
          then show thesis using d Some cf p False good [OF \<open>se_fetch env = Some m\<close> Some] by (auto split: prod.splits)
        next
          case (Some x)
          then show thesis using d \<open>decode_task L (km_value m) = Some t\<close> cf p False
              stopped [OF \<open>se_fetch env = Some m\<close> \<open>decode_task L (km_value m) = Some t\<close>] by (auto split: prod.splits)
        qed
      qed
    qed
  qed
qed

lemma conflict_frame: "conflict L t c = (b, c') \<Longrightarrow> co_attempts c' = co_attempts c \<and> co_blocked c' = co_blocked c \<and> co_capacity c' = co_capacity c"
  by (auto simp: conflict_def Let_def split: option.splits if_splits)

lemma consume_one_log:
  assumes "consume_one L proc env c = (r, l, c')"
  shows "(\<exists>s. monitor None l = Some s \<and> (r = Inr () \<longrightarrow> s = None)) \<and> commits_accounted L [] l"
  using assms
proof (cases rule: consume_one_cases)
  case (bad m dead e l0 l1 c1 c2)
  note f = reject_message_facts [OF bad(3)]
  show ?thesis using turn_log [OF bad(4) f(1,2)] bad(5) by simp
next
  case (stopped m t result err x ev)
  then show ?thesis by (simp add: emit_def)
next
  case (good m t result err dead e l0 l1 c1 c2)
  note f = settle_message_facts [OF good(5,2)]
  show ?thesis using turn_log [OF good(6) f(1,2)] good(7) by simp
qed simp_all

lemma consume_one_state:
  assumes "consume_one L proc env c = (r, l, c')" "ring_ok c"
  shows "ring_ok c' \<and> co_blocked c' = co_blocked c \<and> co_attempts c' = co_attempts c \<and> co_capacity c' = co_capacity c \<and>
    bounded_acks (co_attempts c) l"
  using assms(1)
proof (cases rule: consume_one_cases)
  case (bad m dead e l0 l1 c1 c2)
  note f = reject_message_facts [OF bad(3)]
  have c1: "ring_ok c1 \<and> co_attempts c1 = co_attempts c \<and> co_blocked c1 = co_blocked c \<and> co_capacity c1 = co_capacity c"
    using bad(2) assms(2) conflict_ring conflict_frame by blast
  have l0: "bounded_acks b l0" for b using bad(3) by (auto simp: reject_message_def Let_def bounded_quiet)
  note g = finish_message_frame [OF bad(4)]
  have s: "same_ring c1 c'" using f(3) g same_ring_trans by blast
  moreover have "co_attempts c2 = co_attempts c" using f(3) c1 by (simp add: same_ring_def)
  ultimately show ?thesis using c1 f(3) g same_ring_ok [OF s] bad(5) l0 by (simp add: same_ring_def bounded_quiet)
next
  case (stopped m t result err x ev)
  then show ?thesis using conflict_ring [OF assms(2) stopped(3)] conflict_frame [OF stopped(3)] by (simp add: bounded_quiet)
next
  case (good m t result err dead e l0 l1 c1 c2)
  note f = settle_message_facts [OF good(5,2)]
  have c1: "ring_ok c1 \<and> co_attempts c1 = co_attempts c \<and> co_blocked c1 = co_blocked c \<and> co_capacity c1 = co_capacity c"
    using conflict_ring [OF assms(2) good(3)] conflict_frame [OF good(3)] by blast
  have l0: "bounded_acks b l0" for b using good(5) by (auto simp: settle_message_def Let_def bounded_quiet split: if_splits)
  note g = finish_message_frame [OF good(6)]
  have s: "same_ring c1 c'" using f(3) g same_ring_trans by blast
  moreover have "co_attempts c2 = co_attempts c" using f(3) c1 by (simp add: same_ring_def)
  ultimately show ?thesis using c1 f(3) g same_ring_ok [OF s] good(7) l0 by (simp add: same_ring_def bounded_quiet)
qed (simp_all add: assms(2) bounded_quiet)

section \<open>Runs of a partition\<close>

lemma run_partition_log:
  assumes "run_partition L steps c = (x, l, c')"
  shows "(\<exists>s. monitor None l = Some s \<and> (x = None \<longrightarrow> s = None)) \<and> commits_accounted L seen l"
  using assms
proof (induction L steps c arbitrary: x l c' seen rule: run_partition.induct)
  case (1 L c)
  then show ?case by simp
next
  case (2 L proc env envs c)
  obtain r l1 c1 where s: "consume_one L proc env c = (r, l1, c1)" by (cases "consume_one L proc env c") auto
  note one = consume_one_log [OF s]
  show ?case
  proof (cases r)
    case (Inl y)
    then have "l = l1" "x = Some y" using "2.prems" s by simp_all
    then show ?thesis using one commits_accounted_weaken [of L "[]" l1 seen] by auto
  next
    case (Inr u)
    obtain x2 l2 c2 where rest: "run_partition L envs c1 = (x2, l2, c2)" by (cases "run_partition L envs c1") auto
    have l: "l = l1 @ l2" "x = x2" using "2.prems" s rest Inr by simp_all
    have ih: "(\<exists>s. monitor None l2 = Some s \<and> (x2 = None \<longrightarrow> s = None)) \<and> commits_accounted L (seen @ l1) l2"
      using "2.IH" [OF s [symmetric] refl refl Inr rest] .
    have "monitor None l1 = Some None" using one Inr by auto
    then show ?thesis using ih one l commits_accounted_weaken [of L "[]" l1 seen]
      by (auto simp: monitor_append commits_accounted_append)
  qed
qed

lemma commits_accounted_nth:
  assumes "commits_accounted L seen l" "l = xs @ CommitMessage m n True # ys"
  shows "accounted L m (seen @ xs)"
  using assms(1) unfolding assms(2) by (simp add: commits_accounted_append)

lemma run_partition_state:
  assumes "run_partition L steps c = (x, l, c')" "ring_ok c"
  shows "ring_ok c' \<and> co_blocked c' = co_blocked c \<and> co_attempts c' = co_attempts c \<and> co_capacity c' = co_capacity c \<and>
    bounded_acks (co_attempts c) l"
  using assms
proof (induction L steps c arbitrary: x l c' rule: run_partition.induct)
  case (1 L c)
  then show ?case by (simp add: bounded_quiet)
next
  case (2 L proc env envs c)
  obtain r l1 c1 where s: "consume_one L proc env c = (r, l1, c1)" by (cases "consume_one L proc env c") auto
  note one = consume_one_state [OF s "2.prems"(2)]
  show ?case
  proof (cases r)
    case (Inl y)
    then show ?thesis using one "2.prems" s by simp
  next
    case (Inr u)
    obtain x2 l2 c2 where rest: "run_partition L envs c1 = (x2, l2, c2)" by (cases "run_partition L envs c1") auto
    have l: "l = l1 @ l2" "c' = c2" using "2.prems" s rest Inr by simp_all
    have "ring_ok c2 \<and> co_blocked c2 = co_blocked c1 \<and> co_attempts c2 = co_attempts c1 \<and> co_capacity c2 = co_capacity c1 \<and>
        bounded_acks (co_attempts c1) l2"
      using "2.IH" [OF s [symmetric] refl refl Inr rest] one by blast
    then show ?thesis using one l by (simp add: bounded_quiet)
  qed
qed

lemma finish_writes:
  assumes "finish_message env m (Some d) e c = (Inr (), l, c')"
  shows "\<exists>k. WriteDead m (d\<lparr>dl_last := GoTime (se_last env) 0\<rparr>) k True \<in> set l"
  using finish_message_log [OF assms] by (elim disjE conjE exE) auto

section \<open>The processor's contract\<close>

text \<open>
  What the consumer relies on: the processor reports every user the task addresses, in order, and returns an
  error exactly when one of them is left unresolved.
\<close>

locale task_processor =
  fixes L :: lib and proc :: task_process
  assumes reports: "decode_task L raw = Some t \<Longrightarrow> proc raw = (result, err) \<Longrightarrow> map rt_user (jr_recipients result) = task_users t"
    and faults: "decode_task L raw = Some t \<Longrightarrow> proc raw = (result, err) \<Longrightarrow> err = None \<longleftrightarrow> pending_recipients result = []"
begin

text \<open>A user's outcome in the log of a turn: a terminal result, or a place in an acknowledged dead letter.\<close>

lemma committed_users_settled:
  assumes turn: "consume_one L proc env c = (Inr (), l, c')" and f: "Fetched m \<in> set l" and d: "decode_task L (km_value m) = Some t"
    and fresh: "\<not> fst (conflict L t c)" and u: "u \<in> set (task_users t)"
  shows "(\<exists>result err v. ProcessedBy m result err \<in> set l \<and> v \<in> set (jr_recipients result) \<and> rt_user v = u \<and> rt_outcome v \<noteq> Unresolved) \<or>
         (\<exists>dl n. WriteDead m dl n True \<in> set l \<and> dl_task dl = Some t \<and> u \<in> set (nil_list (dl_pending dl)))"
  using turn
proof (cases rule: consume_one_cases)
  case (bad m' dead e l0 l1 c1 c2)
  have "Fetched m \<notin> set (l0 @ l1)"
    using bad(3,4) by (auto simp: reject_message_def finish_message_def Let_def emit_def split: option.splits sum.splits prod.splits)
  then have "m' = m" using bad(5) f by auto
  then show ?thesis using bad(2) d fresh by auto
next
  case (good m' t' result err dead e l0 l1 c1 c2)
  have "Fetched m \<notin> set (l0 @ l1)"
    using good(5,6) by (auto simp: settle_message_def finish_message_def Let_def emit_def split: if_splits option.splits sum.splits prod.splits)
  then have m: "m' = m" "t' = t" using good(2,7) f d by auto
  have p: "ProcessedBy m result err \<in> set l" using good(7) m by simp
  have users: "map rt_user (jr_recipients result) = task_users t" using reports [OF d] good(4) m by simp
  obtain v where v: "v \<in> set (jr_recipients result)" "rt_user v = u" using u unfolding users [symmetric] by auto
  show ?thesis
  proof (cases "rt_outcome v = Unresolved")
    case False
    then show ?thesis using p v by blast
  next
    case True
    then have pend: "u \<in> set (pending_recipients result)" using v by (auto simp: pending_recipients_def)
    then have dead: "dead = Some (unresolved_letter m t (se_first env) (pending_recipients result))"
      using good(5) m by (auto simp: settle_message_def Let_def split: if_splits)
    have "u \<in> set (nil_list (dl_pending (unresolved_letter m t (se_first env) (pending_recipients result))))"
      using pend by (auto simp: unresolved_letter_def nonempty_def nil_list_def)
    moreover have "dl_task (unresolved_letter m t (se_first env) (pending_recipients result)) = Some t"
      by (simp add: unresolved_letter_def)
    moreover obtain k where "WriteDead m ((unresolved_letter m t (se_first env) (pending_recipients result))\<lparr>dl_last := GoTime (se_last env) 0\<rparr>) k True \<in> set l1"
      using finish_writes [OF good(6) [unfolded dead m]] by blast
    ultimately show ?thesis using good(7) by fastforce
  qed
qed simp_all

end

definition job_process :: "lib \<Rightarrow> process_env \<Rightarrow> task_process" where
  "job_process L pe raw = (let (result, err, calls) = process_task L pe raw in (result, err))"

interpretation job: task_processor L "job_process L pe" for L pe
proof unfold_locales
  fix raw t result err
  assume d: "decode_task L raw = Some t" and p: "job_process L pe raw = (result, err)"
  obtain calls where c: "process_task L pe raw = (result, err, calls)" using p by (auto simp: job_process_def split: prod.splits)
  show "map rt_user (jr_recipients result) = task_users t"
    using c
  proof (cases rule: process_task_inv)
    case 1
    then show ?thesis using d by simp
  next
    case (2 task ss)
    then show ?thesis using d by (simp add: job_inv_def finish_recipient_def comp_def)
  qed
  show "err = None \<longleftrightarrow> pending_recipients result = []"
    using c
  proof (cases rule: process_task_inv)
    case 1
    then show ?thesis using d by simp
  next
    case (2 task ss)
    then show ?thesis by simp
  qed
qed

section \<open>Properties\<close>

text \<open>C17. On every run of a partition worker, whatever fails: a message is fetched only when the one before has been
  committed, a commit is of the message last fetched, and it happens only after the message was processed without
  a rest, or after a dead letter that keeps the original bytes and everyone left was acknowledged.\<close>

theorem commits_follow_accounting:
  assumes "run_partition L steps c = (x, l, c')"
  shows "monitor None l \<noteq> None \<and>
    (\<forall>xs m n ys. l = xs @ CommitMessage m n True # ys \<longrightarrow> accounted L m xs)"
proof -
  note r = run_partition_log [OF assms, of "[]"]
  then have "commits_accounted L [] l" by blast
  from commits_accounted_nth [OF this] have "\<forall>xs m n ys. l = xs @ CommitMessage m n True # ys \<longrightarrow> accounted L m xs" by simp
  with r show ?thesis by blast
qed

lemma bounded_acks_mono: "bounded_acks b l \<Longrightarrow> b \<le> b' \<Longrightarrow> bounded_acks b' l"
  by (induction l) (auto simp: bounded_acks_def split: action.splits)

text \<open>C18. The worker's bounded resources, over any run: the ring of recent identities never holds more than its capacity
  and stays consistent with its index, an acknowledgement is attempted at most as often as configured (three times
  by default), and the count of blocked workers returns to what it was.\<close>

theorem consumer_resources_bounded:
  assumes "run_partition L steps (new_consumer a d k) = (x, l, c')"
  shows "length (co_identities c') \<le> co_capacity (new_consumer a d k) \<and> distinct (co_order c') \<and>
    set (co_order c') = fst ` set (co_identities c') \<and> co_blocked c' = 0 \<and> bounded_acks 3 l"
proof -
  note s = run_partition_state [OF assms ring_ok_new]
  have b: "bounded_acks (co_attempts (new_consumer a d k)) l" using s by blast
  have "length (co_identities c') = length (co_order c')"
    using s by (metis distinct_card length_map list.set_map ring_ok_def)
  moreover have "co_attempts (new_consumer a d k) \<le> 3" by (auto simp: new_consumer_def)
  then have "bounded_acks 3 l" by (rule bounded_acks_mono [OF b])
  ultimately show ?thesis using s by (auto simp: ring_ok_def new_consumer_def)
qed

lemma fetched_turn:
  assumes "consume_one L proc env c = (Inr (), l, c')" and "Fetched m \<in> set l"
  shows "\<exists>n. CommitMessage m n True \<in> set l"
    and "decode_task L (km_value m) = None \<or> (\<exists>t. decode_task L (km_value m) = Some t \<and> fst (conflict L t c)) \<Longrightarrow>
      \<exists>dl n. WriteDead m dl n True \<in> set l \<and> dl_raw dl = std_encode (km_value m) \<and>
        dl_reason dl = (if decode_task L (km_value m) = None then ''invalid_task'' else ''immutable_task_conflict'')"
proof -
  have "(\<exists>n. CommitMessage m n True \<in> set l) \<and> (decode_task L (km_value m) = None \<or> (\<exists>t. decode_task L (km_value m) = Some t \<and> fst (conflict L t c)) \<longrightarrow>
      (\<exists>dl n. WriteDead m dl n True \<in> set l \<and> dl_raw dl = std_encode (km_value m) \<and>
        dl_reason dl = (if decode_task L (km_value m) = None then ''invalid_task'' else ''immutable_task_conflict'')))"
    using assms(1)
  proof (cases rule: consume_one_cases)
    case (bad m' dead e l0 l1 c1 c2)
    have "Fetched m \<notin> set (l0 @ l1)"
      using bad(3,4) by (auto simp: reject_message_def finish_message_def Let_def emit_def split: option.splits sum.splits prod.splits)
    then have m: "m' = m" using bad(5) assms(2) by auto
    have "\<exists>n. CommitMessage m n True \<in> set l" using finish_message_log [OF bad(4)] bad(5) m by auto
    moreover obtain d where d: "dead = Some d" "dl_raw d = std_encode (km_value m)"
      "dl_reason d = (if decode_task L (km_value m) = None then ''invalid_task'' else ''immutable_task_conflict'')"
      using bad(3) m by (auto simp: reject_message_def Let_def)
    obtain k where "WriteDead m (d\<lparr>dl_last := GoTime (se_last env) 0\<rparr>) k True \<in> set l1"
      using finish_writes [OF bad(4) [unfolded d m]] by blast
    then have "\<exists>dl n. WriteDead m dl n True \<in> set l \<and> dl_raw dl = std_encode (km_value m) \<and>
        dl_reason dl = (if decode_task L (km_value m) = None then ''invalid_task'' else ''immutable_task_conflict'')"
      using bad(5) d by (intro exI [of _ "d\<lparr>dl_last := GoTime (se_last env) 0\<rparr>"] exI [of _ k]) simp
    ultimately show ?thesis by blast
  next
    case (good m' t' result err dead e l0 l1 c1 c2)
    have "Fetched m \<notin> set (l0 @ l1)"
      using good(5,6) by (auto simp: settle_message_def finish_message_def Let_def emit_def split: if_splits option.splits sum.splits prod.splits)
    then have m: "m' = m" using good(2,7) assms(2) by auto
    have "\<exists>n. CommitMessage m n True \<in> set l" using finish_message_log [OF good(6)] good(7) m by auto
    then show ?thesis using good(2,3) m by simp
  qed (use assms(2) in simp_all)
  then show "\<exists>n. CommitMessage m n True \<in> set l"
    and "decode_task L (km_value m) = None \<or> (\<exists>t. decode_task L (km_value m) = Some t \<and> fst (conflict L t c)) \<Longrightarrow>
      \<exists>dl n. WriteDead m dl n True \<in> set l \<and> dl_raw dl = std_encode (km_value m) \<and>
        dl_reason dl = (if decode_task L (km_value m) = None then ''invalid_task'' else ''immutable_task_conflict'')"
    by blast+
qed

text \<open>C19. No record is lost between the worker and Job's processor. A turn that succeeds commits the message it fetched. If the message
  decodes to a task that does not conflict, every user the task addresses then has a terminal result or is named in an acknowledged
  dead letter of the task. If it does not decode, or conflicts with a task of the same identity, an acknowledged dead letter with this
  reason holds the bytes of the message, in which its users remain.\<close>

theorem committed_users_settled_by_job:
  assumes "consume_one L (job_process L pe) env c = (Inr (), l, c')" and "Fetched m \<in> set l"
  shows "(\<exists>n. CommitMessage m n True \<in> set l) \<and>
    (case decode_task L (km_value m) of
       None \<Rightarrow> \<exists>dl n. WriteDead m dl n True \<in> set l \<and> dl_reason dl = ''invalid_task'' \<and> dl_raw dl = std_encode (km_value m)
     | Some t \<Rightarrow>
       if fst (conflict L t c)
       then \<exists>dl n. WriteDead m dl n True \<in> set l \<and> dl_reason dl = ''immutable_task_conflict'' \<and> dl_raw dl = std_encode (km_value m)
       else \<forall>u \<in> set (task_users t).
         (\<exists>result err v. ProcessedBy m result err \<in> set l \<and> v \<in> set (jr_recipients result) \<and> rt_user v = u \<and> rt_outcome v \<noteq> Unresolved) \<or>
         (\<exists>dl n. WriteDead m dl n True \<in> set l \<and> dl_task dl = Some t \<and> u \<in> set (nil_list (dl_pending dl))))"
proof (cases "decode_task L (km_value m)")
  case None
  then show ?thesis using fetched_turn [OF assms] by fastforce
next
  case (Some t)
  show ?thesis
  proof (cases "fst (conflict L t c)")
    case True
    then show ?thesis using fetched_turn [OF assms] Some by fastforce
  next
    case False
    then show ?thesis using fetched_turn(1) [OF assms] Some job.committed_users_settled [OF assms Some False] by simp
  qed
qed

text \<open>The ring recognises a changed task: after a task was admitted and until its slot is reused, a task of the same
  identity conflicts exactly when its immutable parts have another digest; the same task again never conflicts.\<close>

theorem changed_tasks_conflict:
  assumes "conflict L t c = (False, c')" and "pt_task_id t' = pt_task_id t"
  shows "fst (conflict L t' c') \<longleftrightarrow> immutable_digest L t' \<noteq> immutable_digest L t"
proof -
  have "identity_of c' (pt_task_id t') = Some (immutable_digest L t)" using conflict_answer(2) [OF assms(1)] assms(2) by simp
  then show ?thesis using conflict_answer(1) [of L t' c'] by (cases "conflict L t' c'") auto
qed

section \<open>A turn on concrete input\<close>

definition ok_try :: ack_try where "ok_try = \<lparr>at_ctx = None, at_ok = True, at_pause = None\<rparr>"

definition turn_s :: "kafka_message \<Rightarrow> step_env" where
  "turn_s m = \<lparr>se_ctx = None, se_fetch = Some m, se_first = 1, se_process_ctx = None, se_before_ctx = None, se_last = 2,
     se_write = (\<lambda>_. ok_try), se_commit = (\<lambda>_. ok_try)\<rparr>"

definition consumer_s :: consumer where "consumer_s = new_consumer 0 0 0"

lemma ack_ok: "0 < co_attempts c \<Longrightarrow> ack dlq (\<lambda>_. ok_try) c = (Inr (), 1, c)"
  by (cases "co_attempts c") (simp_all add: ack_def ok_try_def)

lemma finish_ok: "0 < co_attempts c \<Longrightarrow> \<exists>l1 c'. finish_message (turn_s m) m dead e c = (Inr (), l1 @ [CommitMessage m 1 True, emit ''commit'' ''acknowledged'' e], c')"
  by (cases dead) (simp_all add: finish_message_def turn_s_def ack_ok Let_def)

definition garbage :: kafka_message where
  "garbage = \<lparr>km_topic = ''fable.push.v1'', km_partition = 0, km_offset = 7, km_key = [], km_value = ''{''\<rparr>"

lemma garbage_rejected: "decode_task L (km_value garbage) = None"
proof -
  have "json_text ''{'' = None" by code_simp
  then show ?thesis by (simp add: decode_task_def garbage_def)
qed

lemma garbage_turn: "\<exists>l c'. consume_one L proc (turn_s garbage) consumer_s = (Inr (), l, c') \<and> CommitMessage garbage 1 True \<in> set l"
proof -
  obtain dead e l0 c2 where r: "reject_message garbage None 1 consumer_s = (dead, e, l0, c2)" by (cases "reject_message garbage None 1 consumer_s") auto
  have "co_attempts c2 = co_attempts consumer_s" using reject_message_facts(3) [OF r] by (simp add: same_ring_def)
  then have "0 < co_attempts c2" by (simp add: consumer_s_def new_consumer_def)
  from finish_ok [OF this] obtain l1 c' where "finish_message (turn_s garbage) garbage dead e c2 = (Inr (), l1 @ [CommitMessage garbage 1 True, emit ''commit'' ''acknowledged'' e], c')" by blast
  moreover have "se_ctx (turn_s garbage) = None" "se_fetch (turn_s garbage) = Some garbage" "se_first (turn_s garbage) = 1" by (simp_all add: turn_s_def)
  ultimately show ?thesis using r by (simp add: consume_one_def garbage_rejected)
qed

lemma garbage_run: obtains l c' where "run_partition L [(proc, turn_s garbage)] consumer_s = (None, l, c')" "CommitMessage garbage 1 True \<in> set l"
proof -
  obtain l c' where "consume_one L proc (turn_s garbage) consumer_s = (Inr (), l, c')" "CommitMessage garbage 1 True \<in> set l"
    using garbage_turn by blast
  then show thesis using that by simp
qed

theorem commits_follow_accounting_witness:
  "\<exists>l c' xs n ys. run_partition doc_lib [(job_process doc_lib env_s, turn_s garbage)] consumer_s = (None, l, c') \<and>
     l = xs @ CommitMessage garbage n True # ys \<and> accounted doc_lib garbage xs"
proof -
  obtain l c' where r: "run_partition doc_lib [(job_process doc_lib env_s, turn_s garbage)] consumer_s = (None, l, c')"
    "CommitMessage garbage 1 True \<in> set l" by (rule garbage_run)
  from split_list [OF r(2)] obtain xs ys where s: "l = xs @ CommitMessage garbage 1 True # ys" by blast
  then have "accounted doc_lib garbage xs" using commits_follow_accounting [OF r(1)] by blast
  then show ?thesis using r(1) s by blast
qed

theorem consumer_resources_bounded_witness:
  "\<exists>l c'. run_partition doc_lib [(job_process doc_lib env_s, turn_s garbage)] (new_consumer 0 0 0) = (None, l, c') \<and> bounded_acks 3 l"
proof -
  obtain l c' where r: "run_partition doc_lib [(job_process doc_lib env_s, turn_s garbage)] (new_consumer 0 0 0) = (None, l, c')"
    using garbage_run [of doc_lib "job_process doc_lib env_s"] unfolding consumer_s_def by metis
  then show ?thesis using consumer_resources_bounded [OF r] by blast
qed

theorem changed_tasks_conflict_witness:
  "\<exists>c'. conflict doc_lib task_s consumer_s = (False, c') \<and> \<not> fst (conflict doc_lib task_s c')"
proof -
  obtain c' where c: "conflict doc_lib task_s consumer_s = (False, c')"
    by (simp add: conflict_def identity_of_def consumer_s_def new_consumer_def Let_def)
  then show ?thesis using changed_tasks_conflict [OF c refl] by blast
qed

definition kafka_s :: "string \<Rightarrow> kafka_message" where
  "kafka_s raw = \<lparr>km_topic = ''fable.push.v1'', km_partition = 0, km_offset = 8, km_key = [], km_value = raw\<rparr>"

theorem committed_users_settled_by_job_witness:
  "\<exists>raw l c'. decode_task doc_lib raw = Some task_plain \<and>
     consume_one doc_lib (job_process doc_lib env_s) (turn_s (kafka_s raw)) consumer_s = (Inr (), l, c') \<and>
     ((\<exists>result err v. ProcessedBy (kafka_s raw) result err \<in> set l \<and> v \<in> set (jr_recipients result) \<and> rt_user v = user_a \<and> rt_outcome v \<noteq> Unresolved) \<or>
      (\<exists>dl n. WriteDead (kafka_s raw) dl n True \<in> set l \<and> dl_task dl = Some task_plain \<and> user_a \<in> set (nil_list (dl_pending dl))))"
proof -
  obtain raw where raw: "decode_task doc_lib raw = Some task_plain"
    using valid_task_decodes [OF doc_lib_documented task_plain_valid] by blast
  let ?m = "kafka_s raw"
  have m: "km_value ?m = raw" by (simp add: kafka_s_def)
  obtain c1 where cf: "conflict doc_lib task_plain consumer_s = (False, c1)"
    by (simp add: conflict_def identity_of_def consumer_s_def new_consumer_def Let_def)
  obtain result err where p: "job_process doc_lib env_s raw = (result, err)" by fastforce
  obtain dead e l0 c2 where st: "settle_message ?m task_plain 1 result err c1 = (dead, e, l0, c2)"
    by (cases "settle_message ?m task_plain 1 result err c1") auto
  have "co_attempts c2 = co_attempts consumer_s"
    using settle_message_facts(3) [OF st] raw m conflict_frame [OF cf] by (simp add: same_ring_def)
  then have "0 < co_attempts c2" by (simp add: consumer_s_def new_consumer_def)
  from finish_ok [OF this] obtain l1 c' where
    "finish_message (turn_s ?m) ?m dead e c2 = (Inr (), l1 @ [CommitMessage ?m 1 True, emit ''commit'' ''acknowledged'' e], c')" by blast
  moreover have "se_ctx (turn_s ?m) = None" "se_fetch (turn_s ?m) = Some ?m" "se_first (turn_s ?m) = 1" "se_process_ctx (turn_s ?m) = None"
    by (simp_all add: turn_s_def)
  ultimately have t: "\<exists>l c'. consume_one doc_lib (job_process doc_lib env_s) (turn_s ?m) consumer_s = (Inr (), l, c') \<and> Fetched ?m \<in> set l"
    using raw m cf p st by (simp add: consume_one_def)
  then obtain l c' where t: "consume_one doc_lib (job_process doc_lib env_s) (turn_s ?m) consumer_s = (Inr (), l, c')" "Fetched ?m \<in> set l" by blast
  have u: "user_a \<in> set (task_users task_plain)" by (simp add: task_users_def task_plain_def task_s_def)
  have nc: "\<not> fst (conflict doc_lib task_plain consumer_s)" using cf by simp
  have "decode_task doc_lib (km_value ?m) = Some task_plain" using raw m by simp
  then show ?thesis using committed_users_settled_by_job [OF t] nc u raw t(1) by auto
qed

end
