(* ===== verification/JobReplay.thy ===== *)
theory JobReplay
  imports JobAccounting
begin

text \<open>
  \<open>internal/job/replay.go\<close> with the encoder of its dead letters (\<open>internal/job/app/kafka.go\<close>) and the replay tool of
  \<open>internal/job/app/replay.go\<close>: which dead letters are accepted, which task is sent again, and that every letter the
  consumer writes for the rest of a published task can be replayed.
\<close>

section \<open>Writing a dead letter\<close>

definition int_json :: "int \<Rightarrow> json" where
  "int_json i = JNum (format_int i)"

definition optional :: "string \<Rightarrow> string \<Rightarrow> (string \<times> json) list" where
  "optional k s = (if s = [] then [] else [(k, json_string s)])"

text \<open>\<open>json.Marshal\<close> of a \<open>DeadLetter\<close>: the fields of the embedded record come first, empty optional ones are left out.\<close>

definition dead_json :: "dead_letter \<Rightarrow> json option" where
  "dead_json d =
     (case (format_gotime (dl_first d), format_gotime (dl_last d), case dl_task d of None \<Rightarrow> Some JNull | Some t \<Rightarrow> task_json t) of
        (Some f0, Some l0, Some tj) \<Rightarrow> Some (JObj
          ([(''source_topic'', json_string (dl_topic d)), (''source_partition'', int_json (dl_partition d)),
            (''source_offset'', json_string (dl_offset d)), (''reason'', json_string (dl_reason d))] @
           (if dl_task d = None then [] else [(''task'', tj)]) @
           (if nil_list (dl_pending d) = [] then []
            else [(''pending_recipients'', JArr (map json_string (nil_list (dl_pending d))))]) @
           optional ''raw_payload_base64'' (dl_raw d) @
           [(''first_attempt_at'', JStr f0), (''last_attempt_at'', JStr l0)] @
           optional ''original_payload_base64'' (dl_original d) @ optional ''source_key_base64'' (dl_key d)))
      | _ \<Rightarrow> None)"

definition marshal_dead :: "dead_letter \<Rightarrow> string option" where
  "marshal_dead d = map_option json_print (dead_json d)"

section \<open>Reading it\<close>

definition decode_int32 :: "json \<Rightarrow> int \<Rightarrow> int option" where
  "decode_int32 v old =
     (case v of
        JNull \<Rightarrow> Some old
      | JNum n \<Rightarrow> (case parse_int64 n of None \<Rightarrow> None | Some i \<Rightarrow> if - (2 ^ 31) \<le> i \<and> i < 2 ^ 31 then Some i else None)
      | _ \<Rightarrow> None)"

definition decode_task_pointer :: "json \<Rightarrow> push_task option \<Rightarrow> push_task option option" where
  "decode_task_pointer v old =
     (case v of
        JNull \<Rightarrow> Some None
      | _ \<Rightarrow> map_option Some (decode_struct task_fields v (case old of None \<Rightarrow> zero_task | Some t \<Rightarrow> t)))"

definition zero_dead :: dead_letter where
  "zero_dead = \<lparr>dl_topic = [], dl_partition = 0, dl_offset = [], dl_reason = [], dl_task = None, dl_pending = None, dl_raw = [],
     dl_first = GoTime zero_ns 0, dl_last = GoTime zero_ns 0, dl_original = [], dl_key = []\<rparr>"

definition dead_fields :: "(string \<times> (json \<Rightarrow> dead_letter \<Rightarrow> dead_letter option)) list" where
  "dead_fields =
     [(''source_topic'', \<lambda>v d. map_option (\<lambda>s. d\<lparr>dl_topic := s\<rparr>) (decode_string v (dl_topic d))),
      (''source_partition'', \<lambda>v d. map_option (\<lambda>n. d\<lparr>dl_partition := n\<rparr>) (decode_int32 v (dl_partition d))),
      (''source_offset'', \<lambda>v d. map_option (\<lambda>s. d\<lparr>dl_offset := s\<rparr>) (decode_string v (dl_offset d))),
      (''reason'', \<lambda>v d. map_option (\<lambda>s. d\<lparr>dl_reason := s\<rparr>) (decode_string v (dl_reason d))),
      (''task'', \<lambda>v d. map_option (\<lambda>t. d\<lparr>dl_task := t\<rparr>) (decode_task_pointer v (dl_task d))),
      (''pending_recipients'', \<lambda>v d. map_option (\<lambda>r. d\<lparr>dl_pending := r\<rparr>) (decode_slice decode_string [] v (dl_pending d))),
      (''raw_payload_base64'', \<lambda>v d. map_option (\<lambda>s. d\<lparr>dl_raw := s\<rparr>) (decode_string v (dl_raw d))),
      (''first_attempt_at'', \<lambda>v d. map_option (\<lambda>t. d\<lparr>dl_first := t\<rparr>) (decode_time v (dl_first d))),
      (''last_attempt_at'', \<lambda>v d. map_option (\<lambda>t. d\<lparr>dl_last := t\<rparr>) (decode_time v (dl_last d))),
      (''original_payload_base64'', \<lambda>v d. map_option (\<lambda>s. d\<lparr>dl_original := s\<rparr>) (decode_string v (dl_original d))),
      (''source_key_base64'', \<lambda>v d. map_option (\<lambda>s. d\<lparr>dl_key := s\<rparr>) (decode_string v (dl_key d)))]"

text \<open>\<open>DecodeDeadLetter\<close>.\<close>

definition max_letter :: nat where "max_letter = 2 * 1024 * 1024"

definition decode_dead_letter :: "string \<Rightarrow> dead_letter option" where
  "decode_dead_letter raw =
     (if max_letter < length raw \<or> \<not> utf8_valid raw \<or> \<not> valid_escapes raw then None
      else case json_text raw of
             None \<Rightarrow> None
           | Some v \<Rightarrow> if \<not> check_json 0 v then None else decode_struct dead_fields v zero_dead)"

section \<open>The task to replay\<close>

definition push_topic :: "string \<Rightarrow> bool" where
  "push_topic topic =
     (let p = ''fable.push.v1.'' in
      topic = ''fable.push.v1'' \<or> take (length p) topic = p \<and> length p < length topic)"

text \<open>The guard of \<open>ReplayTask\<close>.\<close>

definition replay_guard :: "dead_letter \<Rightarrow> string \<Rightarrow> bool" where
  "replay_guard d run =
     (printable run 128 \<and> dl_task d \<noteq> None \<and> dl_raw d = [] \<and> dl_reason d = ''unresolved'' \<and> nil_list (dl_pending d) \<noteq> [] \<and>
      0 \<le> dl_partition d \<and> (case parse_int64 (dl_offset d) of None \<Rightarrow> False | Some n \<Rightarrow> 0 \<le> n \<and> format_int n = dl_offset d) \<and>
      push_topic (dl_topic d) \<and> \<not> is_zero_time (dl_first d) \<and> t_ns (dl_first d) \<le> t_ns (dl_last d))"

definition in_scope :: "push_task \<Rightarrow> string \<Rightarrow> bool" where
  "in_scope t u = (case pt_pending t of None \<Rightarrow> True | Some p \<Rightarrow> u \<in> set p)"

definition replay_allowed :: "push_task \<Rightarrow> push_task \<Rightarrow> string \<Rightarrow> bool" where
  "replay_allowed t source u = (u \<in> set (pt_recipients t) \<and> in_scope t u \<and> in_scope source u)"

definition replay_task :: "lib \<Rightarrow> dead_letter \<Rightarrow> string \<Rightarrow> push_task option" where
  "replay_task L d run =
     (if \<not> replay_guard d run then None
      else case marshal_task (the (dl_task d)) of
        None \<Rightarrow> None
      | Some raw \<Rightarrow>
      case decode_task L raw of
        None \<Rightarrow> None
      | Some task \<Rightarrow>
      case std_decode (dl_original d) of
        None \<Rightarrow> None
      | Some original \<Rightarrow>
        if original = [] then None
        else case decode_task L original of
          None \<Rightarrow> None
        | Some source \<Rightarrow>
          if immutable_digest L source \<noteq> immutable_digest L task then None
          else if \<not> all_fresh (replay_allowed task source) [] (nil_list (dl_pending d)) then None
          else Some (task\<lparr>pt_pending := Some (nil_list (dl_pending d)), pt_run := run, pt_targets := Some []\<rparr>))"

section \<open>Standard base64 reads back\<close>

lemma to_std_alphabet: "c \<in> set b64_alphabet \<Longrightarrow> from_std (to_std c) = Some c \<and> to_std c \<noteq> CHR ''='' \<and> code (to_std c) \<noteq> 10 \<and> code (to_std c) \<noteq> 13"
proof -
  have "list_all (\<lambda>c. from_std (to_std c) = Some c \<and> to_std c \<noteq> CHR ''='' \<and> code (to_std c) \<noteq> 10 \<and> code (to_std c) \<noteq> 13) b64_alphabet"
    by code_simp
  then show "c \<in> set b64_alphabet \<Longrightarrow> ?thesis" by (simp add: list_all_iff)
qed

lemma zero_tail_enc: "below 256 bs \<Longrightarrow> zero_tail (enc_bytes bs)"
  using enc_dec_sextets [OF enc_bytes_below dec_enc_bytes] by blast

lemma those_map_Some: "(\<And>x. x \<in> set xs \<Longrightarrow> f x = Some (g x)) \<Longrightarrow> those (map f xs) = Some (map g xs)"
  by (induction xs) auto

lemma std_roundtrip: "std_decode (std_encode s) = Some s"
proof -
  let ?e = "b64_encode s" let ?b = "map to_std ?e" let ?p = "replicate (std_pad (length ?b)) (CHR ''='')"
  have a: "c \<in> set ?e \<Longrightarrow> c \<in> set b64_alphabet" for c using set_encode [of s] by blast
  have enc: "std_encode s = ?b @ ?p" by (simp add: std_encode_def Let_def)
  have "filter (\<lambda>c. code c \<noteq> 10 \<and> code c \<noteq> 13) (?b @ ?p) = ?b @ ?p"
    using to_std_alphabet a by (intro filter_True) fastforce
  moreover have "rev (dropWhile (\<lambda>c. c = CHR ''='') (rev (?b @ ?p))) = ?b"
  proof -
    have ne: "c \<noteq> CHR ''=''" if "c \<in> set ?b" for c using that to_std_alphabet a by auto
    have "dropWhile (\<lambda>c. c = CHR ''='') (?p @ rev ?b) = rev ?b"
    proof (cases "rev ?b")
      case Nil
      then show ?thesis by (simp add: dropWhile_append2)
    next
      case (Cons c r)
      then have "c \<in> set ?b" by (metis list.set_intros(1) set_rev)
      then have "dropWhile (\<lambda>c. c = CHR ''='') (rev ?b) = rev ?b" using ne Cons by simp
      then show ?thesis by (subst dropWhile_append2) auto
    qed
    then show ?thesis by (simp only: rev_append rev_replicate) simp
  qed
  moreover have "those (map from_std ?b) = Some ?e"
    using those_map_Some [of ?e "from_std \<circ> to_std" id] a to_std_alphabet by (simp add: comp_def)
  moreover have "?e = map b64_char (enc_bytes (map code s))" by (simp add: b64_encode_def)
  then have "those (map b64_val ?e) = Some (enc_bytes (map code s))"
    using those_vals [OF enc_bytes_below [OF below_codes]] by simp
  ultimately show ?thesis
    unfolding std_decode_def enc Let_def
    by (simp add: zero_tail_enc [OF below_codes] dec_enc_bytes [OF below_codes] comp_def of_char_of)
qed

section \<open>A dead letter reads back\<close>

definition dead_names :: "string list" where
  "dead_names = [''source_topic'', ''source_partition'', ''source_offset'', ''reason'', ''task'', ''pending_recipients'',
     ''raw_payload_base64'', ''first_attempt_at'', ''last_attempt_at'', ''original_payload_base64'', ''source_key_base64'']"

lemma dead_names_ok: "list_all key_ok dead_names"
proof -
  have "list_all (list_all bare) dead_names" "list_all lower_key dead_names" by code_simp+
  then show ?thesis unfolding list_all_iff using key_okI by (metis list_all_iff)
qed

lemma dead_keys:
  "key_ok ''source_topic''" "key_ok ''source_partition''" "key_ok ''source_offset''" "key_ok ''reason''" "key_ok ''task''"
  "key_ok ''pending_recipients''" "key_ok ''raw_payload_base64''" "key_ok ''first_attempt_at''" "key_ok ''last_attempt_at''"
  "key_ok ''original_payload_base64''" "key_ok ''source_key_base64''"
  using dead_names_ok by (simp_all add: dead_names_def)

lemmas dead_key_names = dead_keys [THEN key_ok_unquote]

lemma dead_find:
  "find_field dead_fields ''source_topic'' = Some (\<lambda>v d. map_option (\<lambda>s. d\<lparr>dl_topic := s\<rparr>) (decode_string v (dl_topic d)))"
  "find_field dead_fields ''source_partition'' = Some (\<lambda>v d. map_option (\<lambda>n. d\<lparr>dl_partition := n\<rparr>) (decode_int32 v (dl_partition d)))"
  "find_field dead_fields ''source_offset'' = Some (\<lambda>v d. map_option (\<lambda>s. d\<lparr>dl_offset := s\<rparr>) (decode_string v (dl_offset d)))"
  "find_field dead_fields ''reason'' = Some (\<lambda>v d. map_option (\<lambda>s. d\<lparr>dl_reason := s\<rparr>) (decode_string v (dl_reason d)))"
  "find_field dead_fields ''task'' = Some (\<lambda>v d. map_option (\<lambda>t. d\<lparr>dl_task := t\<rparr>) (decode_task_pointer v (dl_task d)))"
  "find_field dead_fields ''pending_recipients'' =
     Some (\<lambda>v d. map_option (\<lambda>r. d\<lparr>dl_pending := r\<rparr>) (decode_slice decode_string [] v (dl_pending d)))"
  "find_field dead_fields ''raw_payload_base64'' = Some (\<lambda>v d. map_option (\<lambda>s. d\<lparr>dl_raw := s\<rparr>) (decode_string v (dl_raw d)))"
  "find_field dead_fields ''first_attempt_at'' = Some (\<lambda>v d. map_option (\<lambda>t. d\<lparr>dl_first := t\<rparr>) (decode_time v (dl_first d)))"
  "find_field dead_fields ''last_attempt_at'' = Some (\<lambda>v d. map_option (\<lambda>t. d\<lparr>dl_last := t\<rparr>) (decode_time v (dl_last d)))"
  "find_field dead_fields ''original_payload_base64'' =
     Some (\<lambda>v d. map_option (\<lambda>s. d\<lparr>dl_original := s\<rparr>) (decode_string v (dl_original d)))"
  "find_field dead_fields ''source_key_base64'' = Some (\<lambda>v d. map_option (\<lambda>s. d\<lparr>dl_key := s\<rparr>) (decode_string v (dl_key d)))"
  by (simp_all add: find_field_def dead_fields_def)

text \<open>The letters the consumer writes for what a task left over, in the order of the fields.\<close>

definition letter_text :: "dead_letter \<Rightarrow> bool" where
  "letter_text d =
     (utf8_valid (dl_topic d) \<and> 0 \<le> dl_partition d \<and> dl_partition d < 2 ^ 31 \<and> utf8_valid (dl_offset d) \<and> utf8_valid (dl_reason d) \<and>
      list_all utf8_valid (nil_list (dl_pending d)) \<and> (dl_pending d = None \<or> nil_list (dl_pending d) \<noteq> []) \<and> dl_raw d = [] \<and>
      t_off (dl_first d) = 0 \<and> t_off (dl_last d) = 0 \<and> utf8_valid (dl_original d) \<and> utf8_valid (dl_key d))"

lemma int_json_number: "0 \<le> i \<Longrightarrow> int_json i = number_json (nat i)"
  by (simp add: int_json_def number_json_def format_int_def)

lemma decode_int32_json: "0 \<le> i \<Longrightarrow> i < 2 ^ 31 \<Longrightarrow> decode_int32 (int_json i) old = Some i"
  by (simp add: decode_int32_def int_json_def parse_int64_format_int)

lemma task_json_not_null: "task_json t = Some v \<Longrightarrow> \<exists>ms. v = JObj ms"
  by (auto simp: task_json_def split: option.splits)

lemma decode_dead_json:
  assumes v: "dead_json d = Some v" and ok: "letter_text d"
    and t: "dl_task d = Some t" "task_json t = Some tj" "decode_struct task_fields tj zero_task = Some t"
  shows "decode_struct dead_fields v zero_dead = Some d"
proof -
  obtain f l where fl: "format_gotime (dl_first d) = Some f" "format_gotime (dl_last d) = Some l"
    using v by (auto simp: dead_json_def split: option.splits)
  have time: "decode_time (JStr s) old = Some x" if "format_gotime x = Some s" "t_off x = 0" for s x old
    using parse_format_time that by (cases x) (auto simp: decode_time_def format_gotime_utc)
  obtain ms where ms: "tj = JObj ms" using task_json_not_null [OF t(2)] by blast
  have tp: "decode_task_pointer tj None = Some (Some t)" using t(3) ms by (simp add: decode_task_pointer_def)
  let ?base = "[(''source_topic'', json_string (dl_topic d)), (''source_partition'', int_json (dl_partition d)),
            (''source_offset'', json_string (dl_offset d)), (''reason'', json_string (dl_reason d))]"
  let ?pend = "if nil_list (dl_pending d) = [] then []
            else [(''pending_recipients'', JArr (map json_string (nil_list (dl_pending d))))]"
  let ?times = "[(''first_attempt_at'', JStr f), (''last_attempt_at'', JStr l)]"
  let ?d0 = "d\<lparr>dl_task := None, dl_pending := None, dl_first := GoTime zero_ns 0, dl_last := GoTime zero_ns 0, dl_original := [], dl_key := []\<rparr>"
  let ?d1 = "d\<lparr>dl_pending := None, dl_first := GoTime zero_ns 0, dl_last := GoTime zero_ns 0, dl_original := [], dl_key := []\<rparr>"
  let ?d2 = "d\<lparr>dl_first := GoTime zero_ns 0, dl_last := GoTime zero_ns 0, dl_original := [], dl_key := []\<rparr>"
  let ?d3 = "d\<lparr>dl_original := [], dl_key := []\<rparr>"
  have e: "v = JObj (?base @ [(''task'', tj)] @ ?pend @ [] @ ?times @ optional ''original_payload_base64'' (dl_original d) @
     optional ''source_key_base64'' (dl_key d))"
    using v t fl ok by (simp add: dead_json_def letter_text_def optional_def)
  note s = dead_find dead_key_names
  have "decode_members dead_fields ?base zero_dead = Some ?d0"
    using ok by (simp add: s letter_text_def decode_int32_json zero_dead_def)
  moreover have "decode_members dead_fields [(''task'', tj)] ?d0 = Some ?d1"
    using t by (simp add: s tp)
  moreover have "decode_members dead_fields ?pend ?d1 = Some ?d2"
    using ok by (cases "dl_pending d") (simp_all add: s letter_text_def decode_slice_def decode_texts nil_list_def)
  moreover have "decode_members dead_fields [] ?d2 = Some ?d2" by simp
  moreover have "decode_members dead_fields ?times ?d2 = Some ?d3"
    using ok time [OF fl(1)] time [OF fl(2)] by (simp add: s letter_text_def)
  moreover have "decode_members dead_fields (optional ''original_payload_base64'' (dl_original d)) ?d3 = Some (d\<lparr>dl_key := []\<rparr>)"
    using ok by (cases "dl_original d = []") (simp_all add: optional_def s letter_text_def)
  moreover have "decode_members dead_fields (optional ''source_key_base64'' (dl_key d)) (d\<lparr>dl_key := []\<rparr>) = Some d"
    using ok by (cases "dl_key d = []") (simp_all add: optional_def s letter_text_def)
  ultimately show ?thesis unfolding e by (simp only: decode_struct_JObj decode_members_append option.simps)
qed

lemma good_dead:
  assumes v: "dead_json d = Some v" and "letter_text d" and t: "dl_task d = Some t" "task_json t = Some tj" "good 1 tj"
    and b: "list_all bare (the (format_gotime (dl_first d)))" "list_all bare (the (format_gotime (dl_last d)))"
  shows "good 0 v"
proof -
  obtain f l where fl: "format_gotime (dl_first d) = Some f" "format_gotime (dl_last d) = Some l"
    using v by (auto simp: dead_json_def split: option.splits)
  have "good 1 (JStr f)" "good 1 (JStr l)" using b fl by (simp_all add: good_def lexes_bare neutral_bare)
  moreover have "good 1 (JArr (map json_string xs))" for xs by (rule good_arr) (auto simp: list_all_iff)
  moreover have "0 \<le> dl_partition d" using assms(2) by (simp add: letter_text_def)
  ultimately show ?thesis using v t fl dead_keys
    by (auto simp: dead_json_def int_json_number optional_def intro!: good_obj)
qed

section \<open>Its size\<close>

lemma std_bare: "list_all bare (std_encode s)"
proof -
  have "list_all (\<lambda>c. bare (to_std c)) b64_alphabet" "bare (CHR ''='')" by code_simp+
  then show ?thesis using set_encode [of s] by (auto simp: std_encode_def Let_def list_all_iff)
qed

lemma length_enc_bytes: "length (enc_bytes bs) \<le> 2 * length bs"
  by (induction bs rule: enc_bytes.induct) simp_all

lemma length_std: "length (std_encode s) \<le> 2 * length s + 3"
proof -
  have "std_pad (length (enc_bytes (map code s))) \<le> 3" 
    using mod_less_divisor [of 4 "4 - length (enc_bytes (map code s)) mod 4"] unfolding std_pad_def by linarith
  from add_mono [OF length_enc_bytes [of "map code s"] this] show ?thesis
    by (simp add: std_encode_def b64_encode_def Let_def)
qed

lemma length_dead:
  assumes v: "dead_json d = Some v" and "letter_text d" and t: "dl_task d = Some t" "task_json t = Some tj" "length (json_print tj) \<le> 200000"
    and "list_all bare (dl_original d)" "length (dl_original d) \<le> 400003" "list_all bare (dl_key d)" "length (dl_key d) \<le> 2 ^ 17"
    and "length (dl_topic d) \<le> 249" "list_all bare (dl_offset d)" "length (dl_offset d) \<le> 19" "dl_reason d = ''unresolved''"
    and "length (json_print (JArr (map json_string (nil_list (dl_pending d))))) \<le> 4002"
    and "length (the (format_gotime (dl_first d))) \<le> 64" "length (the (format_gotime (dl_last d))) \<le> 64"
  shows "length (json_print v) \<le> max_letter"
proof -
  obtain f l where fl: "format_gotime (dl_first d) = Some f" "format_gotime (dl_last d) = Some l"
    using v by (auto simp: dead_json_def split: option.splits)
  have p: "0 \<le> dl_partition d" "dl_partition d < 2 ^ 31" "dl_raw d = []" using assms(2) by (simp_all add: letter_text_def)
  have n: "length (json_print (int_json (dl_partition d))) \<le> 10"
    using p length_format_nat [of "nat (dl_partition d)" 10] by (simp add: int_json_def format_int_def nat_less_iff)
  have "list_all bare ''unresolved''" by code_simp
  note l = length_bare [OF this] length_bare [OF assms(6)] length_bare [OF assms(8)] length_bare [OF assms(11)] length_text [of "dl_topic d"]
  have tm: "length (json_print (JStr f)) \<le> 66" "length (json_print (JStr l)) \<le> 66" using assms(15,16) fl by simp_all
  have m: "max_letter = 2097152" by (simp add: max_letter_def)
  have e: "v = JObj ([(''source_topic'', json_string (dl_topic d)), (''source_partition'', int_json (dl_partition d)),
            (''source_offset'', json_string (dl_offset d)), (''reason'', json_string ''unresolved''), (''task'', tj)] @
           (if nil_list (dl_pending d) = [] then []
            else [(''pending_recipients'', JArr (map json_string (nil_list (dl_pending d))))]) @
           [(''first_attempt_at'', JStr f), (''last_attempt_at'', JStr l)] @
           (if dl_original d = [] then [] else [(''original_payload_base64'', json_string (dl_original d))]) @
           (if dl_key d = [] then [] else [(''source_key_base64'', json_string (dl_key d))]))"
    using v t fl p assms(13) by (simp add: dead_json_def optional_def)
  show ?thesis unfolding e m
    using l n tm t(3) assms(7,9,10,12,14)
    by (intro order_trans [OF length_members]) (simp del: json_print.simps)
qed

section \<open>Replaying what the consumer left over\<close>

definition letter_of :: "kafka_message \<Rightarrow> push_task \<Rightarrow> int \<Rightarrow> string list \<Rightarrow> int \<Rightarrow> dead_letter" where
  "letter_of m t f p l = (unresolved_letter m t f p)\<lparr>dl_last := GoTime l 0\<rparr>"

definition replayable_source :: "lib \<Rightarrow> kafka_message \<Rightarrow> push_task \<Rightarrow> bool" where
  "replayable_source L m t =
     (valid_task L t \<and> marshal_task t = Some (km_value m) \<and> push_topic (km_topic m) \<and> utf8_valid (km_topic m) \<and>
      length (km_topic m) \<le> 249 \<and> 0 \<le> km_partition m \<and> km_partition m < 2 ^ 31 \<and> 0 \<le> km_offset m \<and> km_offset m < 2 ^ 63 \<and>
      length (km_key m) \<le> 65534)"

lemma sint32: "0 \<le> i \<Longrightarrow> i < 2 ^ 31 \<Longrightarrow> sint (word_of_int i :: 32 word) = i"
  by (simp add: signed_of_int take_bit_int_eq_self signed_take_bit_int_eq_self)

lemma letter_fields:
  assumes "replayable_source L m t"
  shows "dl_topic (letter_of m t f p l) = km_topic m" "dl_partition (letter_of m t f p l) = km_partition m"
    "dl_offset (letter_of m t f p l) = format_int (km_offset m)" "dl_reason (letter_of m t f p l) = ''unresolved''"
    "dl_task (letter_of m t f p l) = Some t" "dl_pending (letter_of m t f p l) = nonempty (if p = [] then task_users t else p)"
    "dl_raw (letter_of m t f p l) = []" "dl_first (letter_of m t f p l) = GoTime f 0" "dl_last (letter_of m t f p l) = GoTime l 0"
    "dl_original (letter_of m t f p l) = std_encode (km_value m)" "dl_key (letter_of m t f p l) = std_encode (km_key m)"
  using assms sint32 by (simp_all add: letter_of_def unresolved_letter_def base_letter_def replayable_source_def)

lemma task_users_nonempty: "task_core L t \<Longrightarrow> valid_task L t \<Longrightarrow> task_users t \<noteq> [] \<and> distinct (task_users t) \<and> set (task_users t) \<subseteq> set (pt_recipients t)"
proof -
  assume c: "task_core L t" and v: "valid_task L t"
  have "strict_sorted (pt_recipients t)" "pt_recipients t \<noteq> []" using c by (auto simp: task_core_def check_recipients_iff)
  then have "distinct (pt_recipients t)" "pt_recipients t \<noteq> []" by (auto intro: strict_sorted_imp_distinct simp: strict_sorted_iff)
  moreover have "distinct (nil_list (pt_pending t))" "set (nil_list (pt_pending t)) \<subseteq> set (pt_recipients t)"
    using c by (auto simp: task_core_def all_fresh_iff)
  moreover have "pt_pending t = None \<or> nil_list (pt_pending t) \<noteq> []" using v by (auto simp: valid_task_def)
  ultimately show ?thesis by (cases "pt_pending t") (auto simp: task_users_def nil_list_def)
qed

definition stamp_ok :: "lib \<Rightarrow> int \<Rightarrow> int \<Rightarrow> bool" where
  "stamp_ok L f l = (ts_check L (ts_new f) \<and> ts_check L (ts_new l) \<and> f \<noteq> zero_ns \<and> f \<le> l)"

definition replayed :: "push_task \<Rightarrow> string list \<Rightarrow> string \<Rightarrow> push_task" where
  "replayed t users run = t\<lparr>pt_pending := Some users, pt_run := run, pt_targets := Some []\<rparr>"

definition left_over :: "push_task \<Rightarrow> string list \<Rightarrow> string list" where
  "left_over t pending = (if pending = [] then task_users t else pending)"

lemma left_over_ok:
  assumes "valid_task L t" "set pending \<subseteq> set (task_users t)" "distinct pending"
  shows "left_over t pending \<noteq> [] \<and> distinct (left_over t pending) \<and> set (left_over t pending) \<subseteq> set (task_users t) \<and>
    set (left_over t pending) \<subseteq> set (pt_recipients t)"
proof -
  have "task_core L t" using assms(1) by (simp add: valid_task_def)
  from task_users_nonempty [OF this assms(1)] show ?thesis using assms by (auto simp: left_over_def)
qed

lemma valid_ids:
  assumes "valid_task L t" "uuid_documented L" "u \<in> set (pt_recipients t)"
  shows "list_all bare u \<and> length u = 37"
  using assms bare_id by (fastforce simp: valid_task_def task_core_def check_recipients_iff valid_id_def)

lemma length_bounded:
  fixes xs ys :: "'a list"
  assumes "distinct xs" "set xs \<subseteq> set ys" "length ys \<le> n" shows "length xs \<le> n"
  using assms by (metis List.finite_set card_length card_mono distinct_card le_trans)

lemma valid_task_encodes:
  assumes "valid_task L t" "uuid_documented L" "ts_documented L"
  obtains v where "task_json t = Some v" "decode_struct task_fields v zero_task = Some t" "good 1 v" "length (json_print v) \<le> 200000"
proof -
  have c: "task_core L t" "task_small t" using assms(1) by (auto simp: valid_task_def)
  obtain view where view: "message_view_of L (pt_message t) = Some view" using c by (auto simp: task_core_def)
  have "ts_check L (ts_new (t_ns (im_created (pt_message t))))" using view assms(2) by (rule message_view_text)
  moreover have "t_off (im_created (pt_message t)) = 0" using view assms(2) by (rule message_view_text)
  ultimately obtain s where s: "format_gotime (im_created (pt_message t)) = Some s" "list_all bare s"
    using format_time_total [OF assms(3)] format_gotime_utc by metis
  then obtain v where v: "task_json t = Some v" by (auto simp: task_json_def message_json_def)
  have tg: "pt_targets t \<noteq> None" "pt_version t = 1" using c by (auto simp: task_core_def task_identity_def)
  have "good 1 v" using good_task [OF v] s tg by auto
  moreover have "pt_pending t = None \<or> nil_list (pt_pending t) \<noteq> []" using assms(1) by (auto simp: valid_task_def)
  then have "decode_struct task_fields v zero_task = Some t"
    using decode_task_json [OF v valid_task_text [OF assms(1,2)] c(2)] tg by blast
  ultimately show thesis using that v length_task [OF v assms] by blast
qed

lemma stamp_formats:
  assumes "ts_documented L" "ts_check L (ts_new n)"
  obtains s where "format_gotime (GoTime n 0) = Some s" "list_all bare s" "length s \<le> 64"
  using format_time_total [OF assms] format_gotime_utc [of "GoTime n 0"] by (metis gotime.sel)

lemma letter_reads_back:
  assumes docs: "uuid_documented L" "ts_documented L" and src: "replayable_source L m t" and ts: "stamp_ok L f l"
    and pend: "set pending \<subseteq> set (task_users t)" "distinct pending"
  shows "\<exists>text. marshal_dead (letter_of m t f pending l) = Some text \<and> decode_dead_letter text = Some (letter_of m t f pending l)"
proof -
  let ?d = "letter_of m t f pending l"
  note fld = letter_fields [OF src, of f pending l]
  have vt: "valid_task L t" using src by (simp add: replayable_source_def)
  obtain tj where tj: "task_json t = Some tj" "decode_struct task_fields tj zero_task = Some t" "good 1 tj" "length (json_print tj) \<le> 200000"
    using valid_task_encodes [OF vt docs] by blast
  have tc: "ts_check L (ts_new f)" "ts_check L (ts_new l)" using ts by (simp_all add: stamp_ok_def)
  obtain fs where fs: "format_gotime (GoTime f 0) = Some fs" "list_all bare fs" "length fs \<le> 64" using stamp_formats [OF docs(2) tc(1)] by blast
  obtain ls where ls: "format_gotime (GoTime l 0) = Some ls" "list_all bare ls" "length ls \<le> 64" using stamp_formats [OF docs(2) tc(2)] by blast
  note lo = left_over_ok [OF vt pend]
  have pd: "nil_list (dl_pending ?d) = left_over t pending" "dl_pending ?d = Some (left_over t pending)"
    using lo fld(6) by (simp_all add: nonempty_def left_over_def nil_list_def)
  have ids: "list_all (\<lambda>i. list_all bare i \<and> length i = 37) (left_over t pending)"
    using lo valid_ids [OF vt docs(1)] by (auto simp: list_all_iff)
  have "length (pt_recipients t) \<le> 100" using vt by (simp add: valid_task_def task_core_def)
  then have pl: "length (json_print (JArr (map json_string (left_over t pending)))) \<le> 4002"
    using lo by (intro length_ids [OF ids]) (meson length_bounded)
  obtain v where v: "dead_json ?d = Some v" using fld fs ls tj by (auto simp: dead_json_def)
  have s: "0 \<le> km_partition m" "km_partition m < 2 ^ 31" "0 \<le> km_offset m" "km_offset m < 2 ^ 63" "utf8_valid (km_topic m)"
    "length (km_topic m) \<le> 249" "length (km_key m) \<le> 65534" "marshal_task t = Some (km_value m)"
    using src by (simp_all add: replayable_source_def)
  have "list_all bare ''unresolved''" by code_simp
  then have lt: "letter_text ?d"
    using s lo ids fld pd bare_ascii std_bare format_int_bare by (auto simp: letter_text_def list_all_iff)
  have "good 0 v" using good_dead [OF v lt fld(5) tj(1,3)] fs ls fld by simp
  then have p: "json_text (json_print v) = Some v" "utf8_valid (json_print v)" "valid_escapes (json_print v)" "check_json 0 v"
    using json_text_print neutral_checks json_print_neutral by (auto simp: good_def)
  have "length (km_value m) \<le> 200000" using s(8) tj by (simp add: marshal_task_def)
  then have "length (std_encode (km_value m)) \<le> 400003" "length (std_encode (km_key m)) \<le> 2 ^ 17"
    using length_std [of "km_value m"] length_std [of "km_key m"] s(7) by simp_all
  then have "length (json_print v) \<le> max_letter"
    using s fld fs ls pl pd std_bare format_int_bare length_format_int by (intro length_dead [OF v lt fld(5) tj(1,4)]) simp_all
  moreover have "decode_struct dead_fields v zero_dead = Some ?d" by (rule decode_dead_json [OF v lt fld(5) tj(1,2)])
  ultimately have "decode_dead_letter (json_print v) = Some ?d" using p by (simp add: decode_dead_letter_def)
  then show ?thesis using v by (auto simp: marshal_dead_def)
qed

lemma letter_replays:
  assumes docs: "uuid_documented L" "ts_documented L" and src: "replayable_source L m t" and ts: "stamp_ok L f l"
    and pend: "set pending \<subseteq> set (task_users t)" "distinct pending" and run: "printable run 128"
  shows "replay_task L (letter_of m t f pending l) run = Some (replayed t (left_over t pending) run)"
proof -
  let ?d = "letter_of m t f pending l"
  note fld = letter_fields [OF src, of f pending l]
  have vt: "valid_task L t" using src by (simp add: replayable_source_def)
  note lo = left_over_ok [OF vt pend]
  have pd: "nil_list (dl_pending ?d) = left_over t pending"
    using lo fld(6) by (simp add: nonempty_def left_over_def nil_list_def)
  have s: "0 \<le> km_partition m" "0 \<le> km_offset m" "km_offset m < 2 ^ 63" "push_topic (km_topic m)" "marshal_task t = Some (km_value m)"
    using src by (simp_all add: replayable_source_def)
  have "parse_int64 (format_int (km_offset m)) = Some (km_offset m)" using s by (intro parse_int64_format_int) simp_all
  then have g: "replay_guard ?d run"
    using fld s ts run lo pd by (simp add: replay_guard_def stamp_ok_def is_zero_time_def)
  obtain raw where raw: "marshal_task t = Some raw" "decode_task L raw = Some t" using valid_task_decodes [OF docs vt] by blast
  have d: "decode_task L (km_value m) = Some t" using raw s(5) by simp
  have "valid_escapes [] \<Longrightarrow> json_text [] = None" by code_simp
  then have ne: "km_value m \<noteq> []" using d by (auto simp: decode_task_def)
  have "in_scope t u" if "u \<in> set (left_over t pending)" for u
    using lo that by (auto simp: in_scope_def task_users_def split: option.splits)
  then have "all_fresh (replay_allowed t t) [] (left_over t pending)"
    using lo by (auto simp: all_fresh_iff replay_allowed_def)
  then show ?thesis using g fld s(5) d ne pd by (simp add: replay_task_def std_roundtrip replayed_def)
qed

section \<open>What a replay may send\<close>

lemma task_json_good:
  assumes "task_json t = Some v" "d \<le> 13" shows "good d v"
proof -
  obtain mj where mj: "message_json (pt_message t) = Some mj" using assms(1) by (auto simp: task_json_def split: option.splits)
  have "list_all bare (the (format_gotime (im_created (pt_message t))))"
    using mj format_gotime_bare by (auto simp: message_json_def split: option.splits)
  then have "good (Suc d) mj" using assms(2) by (intro good_message [OF mj]) simp_all
  moreover have "good (Suc d) (JArr (map json_string xs))" for xs using assms(2) by (intro good_arr) (auto simp: list_all_iff)
  moreover have "good (Suc d) (JArr (map conn_json hs))" for hs using assms(2) by (intro good_arr) (auto simp: list_all_iff good_conn)
  moreover have "good (Suc d) JNull" using assms(2) by (simp add: good_def)
  ultimately show ?thesis using assms mj task_keys
    by (auto simp: task_json_def required_task_def intro!: good_obj split: if_splits option.splits)
qed

definition other_keys :: "string list" where
  "other_keys = [''schema_version'', ''kind'', ''task_id'', ''message'', ''recipients'', ''targets'', ''chunk_index'', ''chunk_count'',
     ''pending_recipients'', ''replay_run_id'']"

lemma decode_members_request:
  "decode_members task_fields ms t = Some t' \<Longrightarrow> list_all (\<lambda>(k, v). k \<in> set other_keys) ms \<Longrightarrow> pt_request t' = pt_request t"
proof (induction ms arbitrary: t)
  case (Cons m ms)
  obtain k v where m: "m = (k, v)" by (cases m)
  have k: "k \<in> set other_keys" using Cons.prems(2) m by simp
  then have u: "unquote k = k" using task_key_names by (auto simp: other_keys_def)
  obtain f t1 where f: "find_field task_fields k = Some f" "f v t = Some t1" "decode_members task_fields ms t1 = Some t'"
    using Cons.prems(1) m u by (auto split: option.splits)
  have "pt_request t1 = pt_request t" using k f(1,2) by (auto simp: other_keys_def task_find)
  then show ?case using Cons.IH [OF f(3)] Cons.prems(2) by simp
qed simp

lemma decode_marshalled_request:
  assumes "marshal_task x = Some raw" "decode_task L raw = Some t"
  shows "pt_request t = [] \<or> printable (pt_request t) 128"
proof -
  obtain v where v: "task_json x = Some v" "raw = json_print v" using assms(1) by (auto simp: marshal_task_def)
  have g: "good 0 v" using task_json_good [OF v(1)] by simp
  then have "json_text raw = Some v" using json_text_print v(2) by (simp add: good_def)
  with assms(2) have dec: "decode_struct task_fields v zero_task = Some t" and chk: "check_task L v t"
    by (auto elim: decode_task_Some)
  obtain mj where mj: "message_json (pt_message x) = Some mj" using v(1) by (auto simp: task_json_def split: option.splits)
  let ?tg = "case pt_targets x of None \<Rightarrow> JNull | Some hs \<Rightarrow> JArr (map conn_json hs)"
  let ?ms = "[(''schema_version'', number_json (pt_version x)), (''kind'', json_string (pt_kind x)),
            (''task_id'', json_string (pt_task_id x)), (''message'', mj),
            (''recipients'', JArr (map json_string (pt_recipients x))), (''targets'', ?tg),
            (''chunk_index'', number_json (pt_index x)), (''chunk_count'', number_json (pt_count x))] @
           (if pt_request x = [] then [] else [(''request_id'', json_string (pt_request x))]) @
           (if nil_list (pt_pending x) = [] then []
            else [(''pending_recipients'', JArr (map json_string (nil_list (pt_pending x))))]) @
           (if pt_run x = [] then [] else [(''replay_run_id'', json_string (pt_run x))])"
  have e: "v = JObj ?ms" using v(1) mj by (simp add: task_json_def)
  show ?thesis
  proof (cases "pt_request x = []")
    case True
    then have "list_all (\<lambda>(k, v). k \<in> set other_keys) ?ms" by (simp add: other_keys_def)
    then have "pt_request t = pt_request zero_task" using dec unfolding e decode_struct_JObj by (rule decode_members_request [rotated])
    then show ?thesis by (simp add: zero_task_def)
  next
    case False
    have "list_all (\<lambda>(k, v). unquote k = k) ?ms" by (simp add: task_key_names)
    then have "member ''request_id'' v = map_of ?ms ''request_id''" unfolding e by (rule member_eq)
    then have "member ''request_id'' v = Some (json_string (pt_request x))" using False by simp
    then show ?thesis using chk by (simp add: check_task_def)
  qed
qed

lemma replay_task_cases:
  assumes "replay_task L d run = Some t"
  obtains task source original raw x where "dl_task d = Some x" "marshal_task x = Some raw" "decode_task L raw = Some task"
    "std_decode (dl_original d) = Some original" "decode_task L original = Some source"
    "immutable_digest L source = immutable_digest L task" "all_fresh (replay_allowed task source) [] (nil_list (dl_pending d))"
    "nil_list (dl_pending d) \<noteq> []" "printable run 128" "t = replayed task (nil_list (dl_pending d)) run"
  using assms by (auto simp: replay_task_def replay_guard_def replayed_def split: if_splits option.splits)

lemma replayed_valid:
  assumes "task_core L t" "task_small t" "pt_request t = [] \<or> printable (pt_request t) 128"
    and "users \<noteq> []" "distinct users" "set users \<subseteq> set (pt_recipients t)" "printable run 128"
  shows "valid_task L (replayed t users run)"
  using assms by (auto simp: valid_task_def task_core_def task_small_def replayed_def task_identity_def nil_list_def all_fresh_iff)

lemma digest_replayed: "immutable_digest L (replayed t users run) = immutable_digest L t"
  by (simp add: immutable_digest_def digest_json_def replayed_def)

text \<open>C20. A replay can only narrow: the task \<open>ReplayTask\<close> returns has the immutable parts of the original message that the
  dead letter keeps, addresses exactly the pending users of the letter, each once, all recipients and inside the replay
  scope of the original, carries the run's name and no route hints; and Job's decoder reads it back.\<close>

theorem replays_only_narrow:
  assumes "uuid_documented L" "ts_documented L" "replay_task L d run = Some t"
  shows "\<exists>original source raw. std_decode (dl_original d) = Some original \<and> decode_task L original = Some source \<and>
    immutable_digest L t = immutable_digest L source \<and> task_users t = nil_list (dl_pending d) \<and> distinct (task_users t) \<and>
    set (task_users t) \<subseteq> set (pt_recipients t) \<and> (\<forall>u \<in> set (task_users t). in_scope source u) \<and>
    pt_run t = run \<and> pt_targets t = Some [] \<and> marshal_task t = Some raw \<and> decode_task L raw = Some t"
  using assms(3)
proof (cases rule: replay_task_cases)
  case (1 task source original raw x)
  have f: "distinct (nil_list (dl_pending d))" "\<forall>u \<in> set (nil_list (dl_pending d)). u \<in> set (pt_recipients task) \<and> in_scope source u"
    using 1 by (auto simp: all_fresh_iff replay_allowed_def)
  obtain v where v: "check_task L v task" "decode_struct task_fields v zero_task = Some task"
    using 1(3) by (auto elim: decode_task_Some)
  have "valid_task L t" unfolding 1(10)
    using check_task_core [OF v(1)] decode_struct_small [OF v(2)] decode_marshalled_request [OF 1(2,3)] 1(8,9) f
    by (intro replayed_valid) auto
  from valid_task_decodes [OF assms(1,2) this] show ?thesis
    using 1 f digest_replayed [of L task] by (auto simp: replayed_def task_users_def)
qed

text \<open>C21. Every dead letter the consumer writes for the rest of a published task can be replayed: it is encoded within the
  size limit, read back unchanged, and yields the same task narrowed to the users left over.\<close>

theorem leftover_letters_replay:
  assumes "uuid_documented L" "ts_documented L" "replayable_source L m t" "stamp_ok L f l"
    and "set pending \<subseteq> set (task_users t)" "distinct pending" "printable run 128"
  shows "\<exists>text d. marshal_dead ((unresolved_letter m t f pending)\<lparr>dl_last := GoTime l 0\<rparr>) = Some text \<and>
    decode_dead_letter text = Some d \<and> d = (unresolved_letter m t f pending)\<lparr>dl_last := GoTime l 0\<rparr> \<and>
    replay_task L d run = Some (t\<lparr>pt_pending := Some (if pending = [] then task_users t else pending), pt_run := run, pt_targets := Some []\<rparr>)"
  using letter_reads_back [OF assms(1-6)] letter_replays [OF assms] by (auto simp: letter_of_def replayed_def left_over_def)

definition letter_s :: "string \<Rightarrow> kafka_message" where
  "letter_s raw = \<lparr>km_topic = ''fable.push.v1'', km_partition = 0, km_offset = 8, km_key = ''k'', km_value = raw\<rparr>"

lemma letter_s_replayable:
  assumes "marshal_task task_s = Some raw" shows "replayable_source doc_lib (letter_s raw) task_s"
proof -
  have "push_topic ''fable.push.v1''" "utf8_valid ''fable.push.v1''" by code_simp+
  then show ?thesis using assms task_s_valid by (simp add: replayable_source_def letter_s_def)
qed

lemma stamp_s: "stamp_ok doc_lib 1 2"
  by (simp add: stamp_ok_def doc_lib_def ts_new_def ns_per_s_def zero_ns_def)

lemma run_s_printable: "printable ''run-2'' 128"
  by code_simp

lemma task_s_users: "task_users task_s = [user_b]"
  by (simp add: task_users_def task_s_def)

theorem leftover_letters_replay_witness:
  "\<exists>raw text d t. marshal_dead ((unresolved_letter (letter_s raw) task_s 1 [])\<lparr>dl_last := GoTime 2 0\<rparr>) = Some text \<and>
     decode_dead_letter text = Some d \<and> replay_task doc_lib d ''run-2'' = Some t"
proof -
  obtain raw where "marshal_task task_s = Some raw" using valid_task_decodes [OF doc_lib_documented task_s_valid] by blast
  from leftover_letters_replay [OF doc_lib_documented letter_s_replayable [OF this] stamp_s _ _ run_s_printable, of "[]"]
  show ?thesis by fastforce
qed

theorem replays_only_narrow_witness:
  "\<exists>d t. replay_task doc_lib d ''run-2'' = Some t \<and> distinct (task_users t) \<and> pt_run t = ''run-2''"
proof -
  obtain raw where "marshal_task task_s = Some raw" using valid_task_decodes [OF doc_lib_documented task_s_valid] by blast
  from letter_replays [OF doc_lib_documented letter_s_replayable [OF this] stamp_s _ _ run_s_printable, of "[]"]
  have r: "replay_task doc_lib (letter_of (letter_s raw) task_s 1 [] 2) ''run-2'' = Some (replayed task_s (left_over task_s []) ''run-2'')"
    by simp
  from replays_only_narrow [OF doc_lib_documented r] r show ?thesis by blast
qed

section \<open>The replay tool\<close>

record replay_options =
  ro_run :: string
  ro_partition :: int
  ro_from :: int
  ro_to :: int
  ro_execute :: bool

record replay_summary =
  sm_scanned :: nat
  sm_replayable :: nat
  sm_rejected :: nat
  sm_published :: nat
  sm_executed :: bool

definition zero_summary :: replay_summary where
  "zero_summary = \<lparr>sm_scanned = 0, sm_replayable = 0, sm_rejected = 0, sm_published = 0, sm_executed = False\<rparr>"

text \<open>\<open>validateReplay\<close>: the difference of the offsets is only taken when both lie between 0 and \<open>2^63 - 1\<close>, so it cannot wrap.\<close>

definition validate_replay :: "replay_options \<Rightarrow> bool" where
  "validate_replay o' =
     (\<not> (ro_partition o' < 0 \<or> 2 ^ 31 - 1 < ro_partition o' \<or> ro_from o' < 0 \<or> ro_to o' < ro_from o' \<or> ro_to o' = 2 ^ 63 - 1 \<or>
         10000 \<le> ro_to o' - ro_from o' \<or> length (ro_run o') = 0 \<or> 128 < length (ro_run o')) \<and>
      all_bytes 32 126 (ro_run o'))"

text \<open>\<open>collectReplayRange\<close>: the whole range, in order and within 16 MiB, or nothing.\<close>

definition max_replay :: nat where "max_replay = 16 * 1024 * 1024"

fun collect_range :: "int \<Rightarrow> (int \<Rightarrow> kafka_message option) \<Rightarrow> nat \<Rightarrow> int \<Rightarrow> nat \<Rightarrow> kafka_message list option" where
  "collect_range p fetch 0 expected bytes = Some []"
| "collect_range p fetch (Suc n) expected bytes =
     (case fetch expected of
        None \<Rightarrow> None
      | Some m \<Rightarrow>
        if km_partition m \<noteq> p \<or> km_offset m \<noteq> expected then None
        else
          let bytes' = bytes + (length (km_value m) + length (km_key m)) in
          if max_replay < bytes' then None
          else map_option ((#) m) (collect_range p fetch n (expected + 1) bytes'))"

definition collect_replay :: "replay_options \<Rightarrow> (int \<Rightarrow> kafka_message option) \<Rightarrow> kafka_message list option" where
  "collect_replay o' fetch =
     (if \<not> validate_replay o' then None
      else collect_range (ro_partition o') fetch (nat (ro_to o' - ro_from o' + 1)) (ro_from o') 0)"

text \<open>\<open>prepareReplay\<close>: a message to publish, with its headers.\<close>

record replay_message =
  rm_key :: string
  rm_value :: string
  rm_headers :: "(string \<times> string) list"

definition replay_headers :: "string \<Rightarrow> string \<Rightarrow> kafka_message \<Rightarrow> (string \<times> string) list" where
  "replay_headers run dlq m =
     [(''replay_run_id'', run), (''dlq_topic'', dlq), (''dlq_partition'', format_int (km_partition m)),
      (''dlq_offset'', format_int (km_offset m))]"

fun prepare_messages ::
  "lib \<Rightarrow> string \<Rightarrow> string \<Rightarrow> string \<Rightarrow> kafka_message list \<Rightarrow> replay_message list \<Rightarrow> replay_summary \<Rightarrow>
   replay_message list option \<times> replay_summary" where
  "prepare_messages L topic dlq run [] out s = (Some out, s)"
| "prepare_messages L topic dlq run (m # ms) out s =
     (let s1 = s\<lparr>sm_scanned := sm_scanned s + 1\<rparr>; s2 = s1\<lparr>sm_rejected := sm_rejected s1 + 1\<rparr> in
      case decode_dead_letter (km_value m) of
        None \<Rightarrow> prepare_messages L topic dlq run ms out s2
      | Some d \<Rightarrow>
        if dl_topic d \<noteq> topic then prepare_messages L topic dlq run ms out s2
        else case replay_task L d run of
          None \<Rightarrow> prepare_messages L topic dlq run ms out s2
        | Some t \<Rightarrow>
          case marshal_task t of
            None \<Rightarrow> (None, s1)
          | Some raw \<Rightarrow>
            prepare_messages L topic dlq run ms
              (out @ [\<lparr>rm_key = im_conversation (pt_message t), rm_value = raw, rm_headers = replay_headers run dlq m\<rparr>])
              (s1\<lparr>sm_replayable := sm_replayable s1 + 1\<rparr>))"

definition prepare_replay ::
  "lib \<Rightarrow> string \<Rightarrow> string \<Rightarrow> replay_options \<Rightarrow> kafka_message list \<Rightarrow> replay_message list option \<times> replay_summary" where
  "prepare_replay L topic dlq o' ms =
     (if \<not> validate_replay o' then (None, zero_summary)
      else if int (length ms) \<noteq> ro_to o' - ro_from o' + 1 then (None, zero_summary)
      else if \<not> list_all (\<lambda>i. km_partition (ms ! i) = ro_partition o' \<and> km_offset (ms ! i) = ro_from o' + int i) [0..<length ms]
      then (None, zero_summary)
      else prepare_messages L topic dlq (ro_run o') ms [] zero_summary)"

text \<open>\<open>readReplayRange\<close>: the broker's answers are the environment.\<close>

record broker_env =
  bk_dial :: bool
  bk_offsets :: "(int \<times> int) option"
  bk_seek :: bool
  bk_fetch :: "int \<Rightarrow> kafka_message option"

definition read_replay_range :: "replay_options \<Rightarrow> broker_env \<Rightarrow> kafka_message list option" where
  "read_replay_range o' b =
     (if \<not> bk_dial b then None
      else case bk_offsets b of
        None \<Rightarrow> None
      | Some (lo, hi) \<Rightarrow>
        if ro_from o' < lo \<or> hi \<le> ro_to o' then None
        else if \<not> bk_seek b then None
        else collect_replay o' (bk_fetch b))"

text \<open>\<open>Replay\<close> after the configuration check: the range is read, selected and, when asked, published one by one. The list
  holds the messages handed to the broker, the last of which may have failed.\<close>

fun publish_all :: "(nat \<Rightarrow> bool) \<Rightarrow> nat \<Rightarrow> replay_message list \<Rightarrow> nat \<times> replay_message list \<times> bool" where
  "publish_all ok k [] = (0, [], True)"
| "publish_all ok k (m # ms) =
     (if \<not> ok k then (0, [m], False)
      else let (n, sent, r) = publish_all ok (k + 1) ms in (n + 1, m # sent, r))"

definition run_replay ::
  "lib \<Rightarrow> string \<Rightarrow> string \<Rightarrow> replay_options \<Rightarrow> broker_env \<Rightarrow> (nat \<Rightarrow> bool) \<Rightarrow> bool \<times> replay_summary \<times> replay_message list" where
  "run_replay L topic dlq o' b ok =
     (if \<not> validate_replay o' then (False, zero_summary, [])
      else case read_replay_range o' b of
        None \<Rightarrow> (False, zero_summary, [])
      | Some ms \<Rightarrow>
        (case prepare_replay L topic dlq o' ms of
           (None, s) \<Rightarrow> (False, s, [])
         | (Some selected, s) \<Rightarrow>
           if \<not> ro_execute o' then (True, s, [])
           else
             let (n, sent, r) = publish_all ok 0 selected
             in (r, s\<lparr>sm_executed := True, sm_published := n\<rparr>, sent)))"

section \<open>What the tool may do\<close>

lemma replay_task_marshals:
  assumes "uuid_documented L" "ts_documented L" "replay_task L d run = Some t"
  obtains raw where "marshal_task t = Some raw" "decode_task L raw = Some t" "pt_run t = run" "task_users t = nil_list (dl_pending d)"
  using assms(3)
proof (cases rule: replay_task_cases)
  case (1 task source original raw x)
  have f: "distinct (nil_list (dl_pending d))" "set (nil_list (dl_pending d)) \<subseteq> set (pt_recipients task)"
    using 1 by (auto simp: all_fresh_iff replay_allowed_def)
  obtain v where v: "check_task L v task" "decode_struct task_fields v zero_task = Some task"
    using 1(3) by (auto elim: decode_task_Some)
  have "valid_task L t" unfolding 1(10)
    using check_task_core [OF v(1)] decode_struct_small [OF v(2)] decode_marshalled_request [OF 1(2,3)] 1(8,9) f
    by (intro replayed_valid) auto
  from valid_task_decodes [OF assms(1,2) this] show ?thesis
    using 1 that by (auto simp: replayed_def task_users_def)
qed

definition sound_message :: "lib \<Rightarrow> string \<Rightarrow> string \<Rightarrow> string \<Rightarrow> kafka_message list \<Rightarrow> replay_message \<Rightarrow> bool" where
  "sound_message L topic dlq run ms x =
     (\<exists>m \<in> set ms. \<exists>d t. decode_dead_letter (km_value m) = Some d \<and> dl_topic d = topic \<and> replay_task L d run = Some t \<and>
        decode_task L (rm_value x) = Some t \<and> rm_key x = im_conversation (pt_message t) \<and> rm_headers x = replay_headers run dlq m)"

lemma prepare_messages_sound:
  assumes "uuid_documented L" "ts_documented L"
  shows "prepare_messages L topic dlq run ms out s = (o', s') \<Longrightarrow>
    \<exists>new. o' = Some (out @ new) \<and> list_all (sound_message L topic dlq run ms) new \<and> sm_scanned s' = sm_scanned s + length ms \<and>
      sm_replayable s' = sm_replayable s + length new \<and> sm_rejected s' + length new = sm_rejected s + length ms \<and>
      sm_published s' = sm_published s \<and> sm_executed s' = sm_executed s"
proof (induction ms arbitrary: out s)
  case (Cons m ms)
  have grow: "sound_message L topic dlq run ms x \<Longrightarrow> sound_message L topic dlq run (m # ms) x" for x
    by (auto simp: sound_message_def)
  let ?s1 = "s\<lparr>sm_scanned := sm_scanned s + 1\<rparr>"
  let ?s2 = "?s1\<lparr>sm_rejected := sm_rejected ?s1 + 1\<rparr>"
  let ?bad = "prepare_messages L topic dlq run ms out ?s2"
  have bad: ?case if "?bad = (o', s')"
    using Cons.IH [OF that] grow by (auto simp: list_all_iff)
  show ?case
  proof (cases "decode_dead_letter (km_value m)")
    case None
    then have "?bad = (o', s')" using Cons.prems by (simp add: Let_def)
    then show ?thesis by (rule bad)
  next
    case (Some d)
    show ?thesis
    proof (cases "dl_topic d = topic \<and> replay_task L d run \<noteq> None")
      case False
      then have "?bad = (o', s')" using Cons.prems Some by (cases "dl_topic d = topic") (simp_all add: Let_def)
      then show ?thesis by (rule bad)
    next
      case True
      then obtain t where t: "replay_task L d run = Some t" by blast
      obtain raw where raw: "marshal_task t = Some raw" "decode_task L raw = Some t"
        using replay_task_marshals [OF assms t] by blast
      let ?x = "\<lparr>rm_key = im_conversation (pt_message t), rm_value = raw, rm_headers = replay_headers run dlq m\<rparr>"
      have x: "sound_message L topic dlq run (m # ms) ?x" using Some True t raw by (auto simp: sound_message_def)
      have "prepare_messages L topic dlq run ms (out @ [?x]) (?s1\<lparr>sm_replayable := sm_replayable ?s1 + 1\<rparr>) = (o', s')"
        using Cons.prems Some True t raw by (simp add: Let_def)
      from Cons.IH [OF this] obtain new where n: "o' = Some ((out @ [?x]) @ new)" "list_all (sound_message L topic dlq run ms) new"
        "sm_scanned s' = sm_scanned s + 1 + length ms" "sm_replayable s' = sm_replayable s + 1 + length new"
        "sm_rejected s' + length new = sm_rejected s + length ms" "sm_published s' = sm_published s" "sm_executed s' = sm_executed s"
        by auto
      then show ?thesis using x grow by (intro exI [of _ "?x # new"]) (auto simp: list_all_iff)
    qed
  qed
qed simp

lemma publish_all_sent:
  "publish_all ok k ms = (n, sent, r) \<Longrightarrow>
     set sent \<subseteq> set ms \<and> n \<le> length ms \<and> length sent \<le> length ms \<and> n \<le> length sent \<and> (r \<longrightarrow> n = length ms \<and> sent = ms)"
proof (induction ms arbitrary: k n sent r)
  case (Cons m ms)
  obtain n1 sent1 r1 where p: "publish_all ok (k + 1) ms = (n1, sent1, r1)" by (cases "publish_all ok (k + 1) ms")
  show ?case using Cons.IH [OF p] Cons.prems p by (cases "ok k") auto
qed auto

lemma collect_range_length: "collect_range p fetch n e b = Some ms \<Longrightarrow> length ms = n"
  by (induction p fetch n e b arbitrary: ms rule: collect_range.induct) (auto simp: Let_def split: option.splits if_splits)

lemma collect_replay_range:
  assumes "collect_replay o' fetch = Some ms"
  shows "length ms = nat (ro_to o' - ro_from o' + 1) \<and> length ms \<le> 10000 \<and> validate_replay o'"
proof -
  have v: "validate_replay o'" and c: "length ms = nat (ro_to o' - ro_from o' + 1)"
    using assms collect_range_length by (auto simp: collect_replay_def split: if_splits)
  then show ?thesis by (simp add: validate_replay_def nat_le_iff)
qed

text \<open>The replay tool is bounded and previews by default: it reads at most 10000 letters, accounts for each as replayable
  or rejected, hands the broker nothing unless asked to, and only tasks that Job's decoder reads back, taken from letters of
  the configured topic in the range, under the given run.\<close>

theorem replay_tool_bounded:
  assumes "uuid_documented L" "ts_documented L" "run_replay L topic dlq o' b ok = (r, s, sent)"
  shows "sm_scanned s = sm_replayable s + sm_rejected s \<and> sm_published s \<le> sm_replayable s \<and> sm_replayable s \<le> 10000 \<and>
    (\<not> ro_execute o' \<longrightarrow> sent = []) \<and> (r \<and> ro_execute o' \<longrightarrow> sm_published s = sm_replayable s \<and> length sent = sm_published s) \<and>
    (\<exists>ms. read_replay_range o' b = Some ms \<and> list_all (sound_message L topic dlq (ro_run o') ms) sent \<or> sent = [])"
proof (cases "validate_replay o'")
  case False
  then show ?thesis using assms(3) by (auto simp: run_replay_def zero_summary_def)
next
  case v: True
  show ?thesis
  proof (cases "read_replay_range o' b")
    case None
    then show ?thesis using assms(3) v by (auto simp: run_replay_def zero_summary_def)
  next
    case (Some ms)
    then have l: "length ms \<le> 10000"
      by (auto simp: read_replay_range_def dest: collect_replay_range split: if_splits option.splits)
    obtain sel s0 where p: "prepare_replay L topic dlq o' ms = (sel, s0)" by (cases "prepare_replay L topic dlq o' ms")
    show ?thesis
    proof (cases sel)
      case None
      have "s0 = zero_summary"
        using p None prepare_messages_sound [OF assms(1,2)] unfolding prepare_replay_def by (fastforce split: if_splits)
      then show ?thesis using assms(3) v Some p None by (auto simp: run_replay_def zero_summary_def)
    next
      case sel: (Some selected)
      then have "prepare_messages L topic dlq (ro_run o') ms [] zero_summary = (Some selected, s0)"
        using p by (auto simp: prepare_replay_def split: if_splits)
      from prepare_messages_sound [OF assms(1,2) this]
      have m: "list_all (sound_message L topic dlq (ro_run o') ms) selected" "sm_scanned s0 = length ms"
        "sm_replayable s0 = length selected" "sm_rejected s0 + length selected = length ms" "sm_published s0 = 0"
        by (auto simp: zero_summary_def)
      obtain n sent1 r1 where pa: "publish_all ok 0 selected = (n, sent1, r1)" by (cases "publish_all ok 0 selected")
      note ps = publish_all_sent [OF pa]
      show ?thesis
      proof (cases "ro_execute o'")
        case False
        then show ?thesis using assms(3) v Some p sel m l by (simp add: run_replay_def)
      next
        case True
        then have e: "r = r1" "s = s0\<lparr>sm_executed := True, sm_published := n\<rparr>" "sent = sent1"
          using assms(3) v Some p sel pa by (simp_all add: run_replay_def)
        have "list_all (sound_message L topic dlq (ro_run o') ms) sent"
          using m(1) ps e by (auto simp: list_all_iff)
        then show ?thesis using e m l ps Some True by auto
      qed
    qed
  qed
qed


text \<open>The tool on the letter of the sample: previewed and then sent.\<close>

theorem replay_tool_bounded_witness:
  "\<exists>b o' r s sent. run_replay doc_lib ''fable.push.v1'' ''fable.push.dlq.v1'' o' b (\<lambda>_. True) = (r, s, sent) \<and>
     ro_execute o' \<and> r \<and> sm_published s = 1 \<and> sm_scanned s = sm_replayable s + sm_rejected s"
proof -
  obtain raw where raw: "marshal_task task_s = Some raw" using valid_task_decodes [OF doc_lib_documented task_s_valid] by blast
  note src = letter_s_replayable [OF raw]
  let ?d = "letter_of (letter_s raw) task_s 1 [] 2"
  obtain tx where tx: "marshal_dead ?d = Some tx" "decode_dead_letter tx = Some ?d"
    using letter_reads_back [OF doc_lib_documented src stamp_s, of "[]"] by auto
  have rp: "replay_task doc_lib ?d ''run-2'' = Some (replayed task_s (left_over task_s []) ''run-2'')"
    using letter_replays [OF doc_lib_documented src stamp_s _ _ run_s_printable, of "[]"] by simp
  obtain out where out: "marshal_task (replayed task_s (left_over task_s []) ''run-2'') = Some out"
    using replay_task_marshals [OF doc_lib_documented rp] by blast
  let ?m = "\<lparr>km_topic = ''fable.push.dlq.v1'', km_partition = 0, km_offset = 3, km_key = [], km_value = tx\<rparr>"
  let ?o = "\<lparr>ro_run = ''run-2'', ro_partition = 0, ro_from = 3, ro_to = 3, ro_execute = True\<rparr>"
  let ?b = "\<lparr>bk_dial = True, bk_offsets = Some (0, 9), bk_seek = True, bk_fetch = (\<lambda>_. Some ?m)\<rparr>"
  have v: "validate_replay ?o" by (simp add: validate_replay_def all_bytes_def)
  have "length tx \<le> max_replay" using tx(2) by (simp add: decode_dead_letter_def max_letter_def max_replay_def split: if_splits)
  then have "read_replay_range ?o ?b = Some [?m]" using v by (simp add: read_replay_range_def collect_replay_def)
  moreover have tp: "dl_topic ?d = ''fable.push.v1''" using letter_fields [OF src] by (simp add: letter_s_def)
  have "prepare_replay doc_lib ''fable.push.v1'' ''fable.push.dlq.v1'' ?o [?m] =
     (Some [\<lparr>rm_key = im_conversation (pt_message (replayed task_s (left_over task_s []) ''run-2'')), rm_value = out,
        rm_headers = replay_headers ''run-2'' ''fable.push.dlq.v1'' ?m\<rparr>],
      zero_summary\<lparr>sm_scanned := 1, sm_replayable := 1\<rparr>)"
    using v tx(2) rp out tp by (simp add: prepare_replay_def zero_summary_def)
  ultimately obtain s sent where r: "run_replay doc_lib ''fable.push.v1'' ''fable.push.dlq.v1'' ?o ?b (\<lambda>_. True) = (True, s, sent)"
    and s: "sm_published s = 1"
    using v by (simp add: run_replay_def)
  from replay_tool_bounded [OF doc_lib_documented r] have "sm_scanned s = sm_replayable s + sm_rejected s" by simp
  then show ?thesis using r s by (intro exI [of _ ?b] exI [of _ ?o] exI) auto
qed

end
