(* ===== verification/LeaseScript.thy ===== *)
theory LeaseScript
  imports Validation
begin

text \<open>
  The Lua script of \<open>internal/logic/routing/scripts.go\<close>, which Redis runs atomically: the
  instance leases and the user routes of all Logic processes live in one key space, and this
  script is the only writer. The state is the map of the keys Redis holds; a value is the
  table the script encodes, which is the Go struct \<open>record\<close> of \<open>store.go\<close>. A Lua error
  aborts the script and is \<open>Inl ()\<close>. Times are milliseconds.
\<close>

section \<open>State\<close>

record lease =
  r_user :: string
  r_instance :: string
  r_boot :: string
  r_connection :: string
  r_token :: string
  r_address :: string
  r_draining :: bool
  r_auth :: int
  r_deadline :: int

type_synonym redis = "string \<rightharpoonup> lease"

text \<open>The arguments \<open>ARGV[3..6]\<close>: the two key prefixes and the two lease times.\<close>

record script_env =
  e_ip :: string
  e_rp :: string
  e_ittl :: int
  e_rttl :: int

record result_item =
  ri_id :: string
  ri_reason :: nat
  ri_route :: "lease option"
  ri_instance :: "lease option"

record script_result =
  sc_err :: string
  sc_instance :: "lease option"
  sc_route :: "lease option"
  sc_previous :: "lease option"
  sc_outcome :: nat
  sc_results :: "result_item list"

definition answer :: script_result where
  "answer = \<lparr>sc_err = '''', sc_instance = None, sc_route = None, sc_previous = None,
             sc_outcome = 0, sc_results = []\<rparr>"

definition script_err :: "string \<Rightarrow> script_result" where
  "script_err e = answer\<lparr>sc_err := e\<rparr>"

section \<open>Checks on stored values\<close>

definition lua_uuid :: "string \<Rightarrow> bool" where
  "lua_uuid v =
     (length v = 36 \<and> v \<noteq> nil_uuid \<and>
      v ! 8 = CHR ''-'' \<and> v ! 13 = CHR ''-'' \<and> v ! 18 = CHR ''-'' \<and> v ! 23 = CHR ''-'' \<and>
      (let hex = filter (\<lambda>c. c \<noteq> CHR ''-'') v in length hex = 32 \<and> list_all hex_char hex))"

definition lua_timestamp :: "int \<Rightarrow> bool" where
  "lua_timestamp v = (0 < v \<and> v \<le> 253402300799999)"

definition token_char :: "char \<Rightarrow> bool" where
  "token_char c =
     (65 \<le> code c \<and> code c \<le> 90 \<or> 97 \<le> code c \<and> code c \<le> 122 \<or> 48 \<le> code c \<and> code c \<le> 57 \<or>
      c = CHR ''_'' \<or> c = CHR ''-'')"

definition lua_token :: "string \<Rightarrow> bool" where
  "lua_token v =
     (if length v < 22 \<or> length v > 128 \<or> \<not> list_all token_char v then False
      else if length v mod 4 = 1 then False
      else if length v mod 4 = 2 then last v \<in> set ''AQgw''
      else if length v mod 4 = 3 then last v \<in> set ''AEIMQUYcgkosw048''
      else True)"

section \<open>Reading and writing keys\<close>

definition stored_common :: "lease \<Rightarrow> bool" where
  "stored_common v =
     (valid_instance (r_instance v) \<and> lua_uuid (r_boot v) \<and> lua_timestamp (r_deadline v))"

definition stored_instance :: "script_env \<Rightarrow> string \<Rightarrow> lease \<Rightarrow> bool" where
  "stored_instance E key v = (key = e_ip E @ r_instance v \<and> length (r_address v) \<noteq> 0)"

definition stored_route :: "script_env \<Rightarrow> string \<Rightarrow> lease \<Rightarrow> bool" where
  "stored_route E key v =
     (length (r_user v) = 37 \<and> hd (r_user v) = CHR ''U'' \<and> lua_uuid (tl (r_user v)) \<and>
      key = e_rp E @ r_user v \<and> lua_uuid (r_connection v) \<and> lua_token (r_token v) \<and>
      lua_timestamp (r_auth v) \<and> r_deadline v \<le> r_auth v)"

definition stored_ok :: "script_env \<Rightarrow> string \<Rightarrow> lease \<Rightarrow> bool" where
  "stored_ok E key v =
     (stored_common v \<and>
      (if has_prefix key (e_ip E) then stored_instance E key v else stored_route E key v))"

definition read_key :: "script_env \<Rightarrow> redis \<Rightarrow> string \<Rightarrow> unit + lease option" where
  "read_key E S key =
     (case S key of None \<Rightarrow> Inr None
      | Some v \<Rightarrow> if stored_ok E key v then Inr (Some v) else Inl ())"

definition live :: "int \<Rightarrow> lease option \<Rightarrow> bool" where
  "live now v = (case v of None \<Rightarrow> False | Some r \<Rightarrow> r_deadline r > now)"

text \<open>
  \<open>SET key value PX (deadline - now)\<close>: Redis refuses an expire time that is not positive.
\<close>

definition save_key :: "int \<Rightarrow> string \<Rightarrow> lease \<Rightarrow> redis \<Rightarrow> unit + redis" where
  "save_key now key v S = (if r_deadline v - now \<le> 0 then Inl () else Inr (S(key \<mapsto> v)))"

definition same_route :: "lease \<Rightarrow> lease \<Rightarrow> bool" where
  "same_route a b =
     (r_user a = r_user b \<and> r_instance a = r_instance b \<and> r_connection a = r_connection b \<and>
      r_token a = r_token b)"

definition valid_owner :: "script_env \<Rightarrow> redis \<Rightarrow> int \<Rightarrow> lease \<Rightarrow> unit + bool" where
  "valid_owner E S now r =
     bindE (read_key E S (e_ip E @ r_instance r))
       (\<lambda>i. Inr (live now i \<and> r_boot (the i) = r_boot r))"

section \<open>The operations\<close>

type_synonym script_step = "(unit + script_result) \<times> redis"

definition commit_save :: "int \<Rightarrow> string \<Rightarrow> lease \<Rightarrow> script_result \<Rightarrow> redis \<Rightarrow> script_step" where
  "commit_save now key v r S =
     (case save_key now key v S of Inl _ \<Rightarrow> (Inl (), S) | Inr S' \<Rightarrow> (Inr r, S'))"

definition op_register :: "script_env \<Rightarrow> int \<Rightarrow> lease \<Rightarrow> string \<Rightarrow> redis \<Rightarrow> script_step" where
  "op_register E now p key S =
     (case read_key E S key of
        Inl _ \<Rightarrow> (Inl (), S)
      | Inr old \<Rightarrow>
        if live now old \<and> (r_boot (the old) \<noteq> r_boot p \<or> r_address (the old) \<noteq> r_address p)
        then (Inr (script_err ''conflict''), S)
        else
          let p' = p\<lparr>r_draining := (if live now old then r_draining (the old) else False),
                     r_deadline := now + e_ittl E\<rparr>
          in commit_save now key p' (answer\<lparr>sc_instance := Some p'\<rparr>) S)"

definition op_renew :: "script_env \<Rightarrow> int \<Rightarrow> lease \<Rightarrow> string \<Rightarrow> redis \<Rightarrow> script_step" where
  "op_renew E now p key S =
     (case read_key E S key of
        Inl _ \<Rightarrow> (Inl (), S)
      | Inr old \<Rightarrow>
        if \<not> live now old \<or> r_boot (the old) \<noteq> r_boot p
        then (Inr (script_err ''not_registered''), S)
        else
          let o' = (the old)\<lparr>r_draining := (r_draining (the old) \<or> r_draining p),
                             r_deadline := now + e_ittl E\<rparr>
          in commit_save now key o' (answer\<lparr>sc_instance := Some o'\<rparr>) S)"

definition op_unregister :: "script_env \<Rightarrow> int \<Rightarrow> lease \<Rightarrow> string \<Rightarrow> redis \<Rightarrow> script_step" where
  "op_unregister E now p key S =
     (case read_key E S key of
        Inl _ \<Rightarrow> (Inl (), S)
      | Inr old \<Rightarrow>
        if \<not> live now old then (Inr (answer\<lparr>sc_outcome := 3\<rparr>), S)
        else if r_boot (the old) \<noteq> r_boot p then (Inr (answer\<lparr>sc_outcome := 2\<rparr>), S)
        else (Inr (answer\<lparr>sc_outcome := 1\<rparr>), S(key := None)))"

text \<open>
  Connect reads the instance first. An authentication deadline of zero milliseconds is left
  out of the argument by \<open>omitempty\<close>, so its arithmetic raises.
\<close>

definition op_connect :: "script_env \<Rightarrow> int \<Rightarrow> lease \<Rightarrow> string \<Rightarrow> string \<Rightarrow> redis \<Rightarrow> script_step" where
  "op_connect E now p key ikey S =
     (case read_key E S ikey of
        Inl _ \<Rightarrow> (Inl (), S)
      | Inr i \<Rightarrow>
        if \<not> live now i \<or> r_boot (the i) \<noteq> r_boot p then (Inr (script_err ''not_registered''), S)
        else if r_draining (the i) then (Inr (script_err ''draining''), S)
        else if r_auth p = 0 then (Inl (), S)
        else if r_auth p - now \<le> 5000 then (Inr (script_err ''expired''), S)
        else
          let p' = p\<lparr>r_deadline := min (now + e_rttl E) (r_auth p)\<rparr> in
          (case read_key E S key of
             Inl _ \<Rightarrow> (Inl (), S)
           | Inr old \<Rightarrow>
             let prev = (if \<not> live now old \<or> r_auth (the old) \<le> now then None else old)
             in commit_save now key p' (answer\<lparr>sc_route := Some p', sc_previous := prev\<rparr>) S))"

definition op_check :: "script_env \<Rightarrow> int \<Rightarrow> bool \<Rightarrow> lease \<Rightarrow> string \<Rightarrow> redis \<Rightarrow> script_step" where
  "op_check E now heartbeat p key S =
     (case read_key E S key of
        Inl _ \<Rightarrow> (Inl (), S)
      | Inr None \<Rightarrow> (Inr (script_err ''expired''), S)
      | Inr (Some old) \<Rightarrow>
        if \<not> same_route old p then (Inr (script_err ''superseded''), S)
        else if \<not> live now (Some old) \<or> r_auth old \<le> now then (Inr (script_err ''expired''), S)
        else
          (case valid_owner E S now old of
             Inl _ \<Rightarrow> (Inl (), S)
           | Inr ok \<Rightarrow>
             if \<not> ok then (Inr (script_err ''not_registered''), S)
             else if heartbeat then
               let o' = old\<lparr>r_deadline := min (now + e_rttl E) (r_auth old)\<rparr>
               in commit_save now key o' (answer\<lparr>sc_route := Some o'\<rparr>) S
             else (Inr (answer\<lparr>sc_route := Some old\<rparr>), S)))"

definition op_disconnect :: "script_env \<Rightarrow> int \<Rightarrow> lease \<Rightarrow> string \<Rightarrow> redis \<Rightarrow> script_step" where
  "op_disconnect E now p key S =
     (case read_key E S key of
        Inl _ \<Rightarrow> (Inl (), S)
      | Inr old \<Rightarrow>
        if \<not> live now old then (Inr (answer\<lparr>sc_outcome := 3\<rparr>), S)
        else if \<not> same_route (the old) p then (Inr (answer\<lparr>sc_outcome := 2\<rparr>), S)
        else (Inr (answer\<lparr>sc_outcome := 1\<rparr>), S(key := None)))"

definition lookup_one :: "script_env \<Rightarrow> int \<Rightarrow> redis \<Rightarrow> string \<Rightarrow> string \<Rightarrow> unit + result_item" where
  "lookup_one E now S uid key =
     bindE (read_key E S key) (\<lambda>r.
       case r of
         None \<Rightarrow> Inr \<lparr>ri_id = uid, ri_reason = 1, ri_route = None, ri_instance = None\<rparr>
       | Some v \<Rightarrow>
         if \<not> live now (Some v) \<or> r_auth v \<le> now
         then Inr \<lparr>ri_id = uid, ri_reason = 2, ri_route = None, ri_instance = None\<rparr>
         else bindE (valid_owner E S now v) (\<lambda>ok.
           if \<not> ok then Inr \<lparr>ri_id = uid, ri_reason = 3, ri_route = None, ri_instance = None\<rparr>
           else Inr \<lparr>ri_id = uid, ri_reason = 0, ri_route = Some v, ri_instance = None\<rparr>))"

definition resolve_one :: "script_env \<Rightarrow> int \<Rightarrow> redis \<Rightarrow> string \<Rightarrow> string \<Rightarrow> unit + result_item" where
  "resolve_one E now S iid key =
     bindE (read_key E S key) (\<lambda>i.
       case i of
         None \<Rightarrow> Inr \<lparr>ri_id = iid, ri_reason = 1, ri_route = None, ri_instance = None\<rparr>
       | Some v \<Rightarrow>
         if \<not> live now (Some v)
         then Inr \<lparr>ri_id = iid, ri_reason = 2, ri_route = None, ri_instance = None\<rparr>
         else Inr \<lparr>ri_id = iid, ri_reason = 0, ri_route = None, ri_instance = Some v\<rparr>)"

fun collect :: "(string \<Rightarrow> string \<Rightarrow> unit + result_item) \<Rightarrow> (string \<times> string) list \<Rightarrow> unit + result_item list" where
  "collect f [] = Inr []"
| "collect f ((i, k) # r) = bindE (f i k) (\<lambda>x. bindE (collect f r) (\<lambda>xs. Inr (x # xs)))"

definition op_lookup :: "script_env \<Rightarrow> int \<Rightarrow> string list \<Rightarrow> string list \<Rightarrow> redis \<Rightarrow> script_step" where
  "op_lookup E now uids keys S =
     (case collect (lookup_one E now S) (zip uids keys) of
        Inl _ \<Rightarrow> (Inl (), S) | Inr rs \<Rightarrow> (Inr (answer\<lparr>sc_results := rs\<rparr>), S))"

definition op_resolve :: "script_env \<Rightarrow> int \<Rightarrow> string list \<Rightarrow> string list \<Rightarrow> redis \<Rightarrow> script_step" where
  "op_resolve E now iids keys S =
     (case collect (resolve_one E now S) (zip iids keys) of
        Inl _ \<Rightarrow> (Inl (), S) | Inr rs \<Rightarrow> (Inr (answer\<lparr>sc_results := rs\<rparr>), S))"

text \<open>The dispatch on \<open>ARGV[1]\<close>; the callers pass one or two keys, or one per id.\<close>

definition lease_script ::
  "script_env \<Rightarrow> int \<Rightarrow> string \<Rightarrow> lease \<Rightarrow> string list \<Rightarrow> string list \<Rightarrow> redis \<Rightarrow> script_step" where
  "lease_script E now op p ids keys S =
     (if op = ''register'' then op_register E now p (keys ! 0) S
      else if op = ''renew'' then op_renew E now p (keys ! 0) S
      else if op = ''unregister'' then op_unregister E now p (keys ! 0) S
      else if op = ''connect'' then op_connect E now p (keys ! 0) (keys ! 1) S
      else if op = ''check'' \<or> op = ''heartbeat'' then
        op_check E now (op = ''heartbeat'') p (keys ! 0) S
      else if op = ''disconnect'' then op_disconnect E now p (keys ! 0) S
      else if op = ''lookup'' then op_lookup E now ids keys S
      else if op = ''resolve'' then op_resolve E now ids keys S
      else (Inr (script_err ''invalid''), S))"


section \<open>The stored checks accept what the Go validators accept\<close>

lemma lua_uuid_dashes:
  assumes len: "length v = 36"
    and d: "v ! 8 = CHR ''-''" "v ! 13 = CHR ''-''" "v ! 18 = CHR ''-''" "v ! 23 = CHR ''-''"
    and hex: "length (filter (\<lambda>c. c \<noteq> CHR ''-'') v) = 32"
  shows "{i. i < 36 \<and> v ! i = CHR ''-''} = {8, 13, 18, 23}"
proof -
  let ?D = "{i. i < 36 \<and> v ! i = CHR ''-''}"
  have "card {i. i < 36 \<and> v ! i \<noteq> CHR ''-''} = 32"
    using hex len by (simp add: length_filter_conv_card)
  moreover have "{i. i < 36 \<and> v ! i \<noteq> CHR ''-''} = {..<36} - ?D" by auto
  ultimately have "card ({..<36} - ?D) = 32" by simp
  moreover have "?D \<subseteq> {..<36}" by auto
  ultimately have "36 - card ?D = 32" by (simp add: card_Diff_subset finite_subset [of ?D "{..<36}"])
  then have "card ?D = 4" by simp
  moreover have "{8, 13, 18, 23} \<subseteq> ?D" using d by auto
  ultimately show ?thesis
    by (intro card_subset_eq [symmetric]) (auto intro: finite_subset [of ?D "{..<36}"])
qed

lemma lua_uuid_iff: "lua_uuid v \<longleftrightarrow> uuid_form v \<and> v \<noteq> nil_uuid"
proof
  assume l: "lua_uuid v"
  then have len: "length v = 36" and hex: "list_all hex_char (filter (\<lambda>c. c \<noteq> CHR ''-'') v)"
    by (auto simp: lua_uuid_def Let_def)
  have D: "{i. i < 36 \<and> v ! i = CHR ''-''} = {8, 13, 18, 23}"
    using l by (intro lua_uuid_dashes) (auto simp: lua_uuid_def Let_def)
  have "if i \<in> {8, 13, 18, 23} then v ! i = CHR ''-'' else hex_char (v ! i)" if i: "i < 36" for i
  proof (cases "i \<in> {8, 13, 18, 23}")
    case True
    then show ?thesis using D by auto
  next
    case False
    then have "v ! i \<noteq> CHR ''-''" using D i by auto
    moreover have "v ! i \<in> set v" using i len by simp
    ultimately have "hex_char (v ! i)" using hex by (auto simp: list_all_iff)
    then show ?thesis using False by simp
  qed
  then show "uuid_form v \<and> v \<noteq> nil_uuid" using l by (auto simp: uuid_form_def lua_uuid_def)
next
  assume u: "uuid_form v \<and> v \<noteq> nil_uuid"
  then have len: "length v = 36"
    and at: "\<And>i. i < 36 \<Longrightarrow> if i \<in> {8, 13, 18, 23} then v ! i = CHR ''-'' else hex_char (v ! i)"
    by (auto simp: uuid_form_def)
  have nd: "\<not> hex_char (CHR ''-'')" by (simp add: hex_char_def)
  have eq: "{i. i < 36 \<and> v ! i \<noteq> CHR ''-''} = {..<36} - {8, 13, 18, 23}"
    using at nd by (auto split: if_splits) metis+
  have "length (filter (\<lambda>c. c \<noteq> CHR ''-'') v) = 32"
    using len by (simp add: length_filter_conv_card eq card_Diff_subset)
  moreover have "list_all hex_char (filter (\<lambda>c. c \<noteq> CHR ''-'') v)"
    using at len by (auto simp: list_all_iff in_set_conv_nth split: if_splits) metis
  ultimately show "lua_uuid v" using u len at [of 8] at [of 13] at [of 18] at [of 23]
    by (simp add: lua_uuid_def Let_def)
qed

lemma valid_uuid_lua: "uuid_documented L \<Longrightarrow> valid_uuid L s \<longleftrightarrow> lua_uuid s"
  by (auto simp: valid_uuid_def lua_uuid_iff uuid_documented_def uuid_form_def)

lemma token_char_alphabet: "token_char c \<longleftrightarrow> c \<in> set b64_alphabet"
proof
  assume "token_char c"
  then have "code c \<in> set [65..<91] \<or> code c \<in> set [97..<123] \<or> code c \<in> set [48..<58] \<or>
      c = CHR ''_'' \<or> c = CHR ''-''" unfolding token_char_def set_upt by auto
  moreover have "c \<in> set b64_alphabet"
    if "code c \<in> set [65..<91] \<or> code c \<in> set [97..<123] \<or> code c \<in> set [48..<58]"
  proof -
    have "char_of (code c) \<in> set (map char_of ([65..<91] @ [97..<123] @ [48..<58]))"
      using that unfolding set_map set_append by blast
    moreover have "set (map char_of ([65..<91] @ [97..<123] @ [48..<58])) \<subseteq> set b64_alphabet"
      by code_simp
    ultimately show ?thesis by auto
  qed
  moreover have "CHR ''_'' \<in> set b64_alphabet" "CHR ''-'' \<in> set b64_alphabet"
    by (simp_all add: b64_alphabet_def)
  ultimately show "c \<in> set b64_alphabet" by blast
next
  assume "c \<in> set b64_alphabet"
  moreover have "list_all token_char b64_alphabet" by code_simp
  ultimately show "token_char c" by (simp add: list_all_iff)
qed

lemma sextet_mod16: "v < 64 \<Longrightarrow> b64_char v \<in> set ''AQgw'' \<longleftrightarrow> v mod 16 = 0"
proof -
  assume v: "v < 64"
  have eqs: "b64_char 0 = CHR ''A''" "b64_char 16 = CHR ''Q''" "b64_char 32 = CHR ''g''" "b64_char 48 = CHR ''w''"
    by (simp_all add: b64_char_def b64_alphabet_def)
  have "b64_char v \<in> set ''AQgw'' \<longleftrightarrow> v \<in> {0, 16, 32, 48}"
    using v by (simp add: eqs [symmetric] b64_char_inject)
  also have "\<dots> \<longleftrightarrow> v mod 16 = 0" using v by auto
  finally show ?thesis .
qed

lemma sextet_mod4: "v < 64 \<Longrightarrow> b64_char v \<in> set ''AEIMQUYcgkosw048'' \<longleftrightarrow> v mod 4 = 0"
proof -
  assume v: "v < 64"
  have eq: "''AEIMQUYcgkosw048'' = map b64_char [0, 4, 8, 12, 16, 20, 24, 28, 32, 36, 40, 44, 48, 52, 56, 60]"
    by (simp add: b64_char_def b64_alphabet_def)
  have "b64_char v \<in> set ''AEIMQUYcgkosw048'' \<longleftrightarrow>
      v \<in> {0, 4, 8, 12, 16, 20, 24, 28, 32, 36, 40, 44, 48, 52, 56, 60}"
    unfolding eq using v by (auto simp: b64_char_inject)
  also have "\<dots> \<longleftrightarrow> v mod 4 = 0"
  proof
    assume "v mod 4 = 0"
    then obtain k where k: "v = 4 * k" by auto
    with v have "k \<in> set [0..<16]" by simp
    then show "v \<in> {0, 4, 8, 12, 16, 20, 24, 28, 32, 36, 40, 44, 48, 52, 56, 60}"
      unfolding k by (auto simp: upt_rec simp del: set_upt)
  qed auto
  finally show ?thesis .
qed

text \<open>
  The route token check of the Go side (decode, at least 16 bytes, canonical re-encoding) and
  the pattern check of the Lua side accept the same tokens of at most 128 characters.
\<close>

lemma token_checks_agree: "length t \<le> 128 \<and> canonical 16 t \<longleftrightarrow> lua_token t"
proof (cases "set t \<subseteq> set b64_alphabet")
  case False
  then show ?thesis
    using canonical_alphabet [of 16 t]
    by (auto simp: lua_token_def list_all_iff token_char_alphabet)
next
  case True
  define vs where "vs = map (\<lambda>c. the (b64_val c)) t"
  have val: "the (b64_val c) < 64 \<and> b64_char (the (b64_val c)) = c" if "c \<in> set t" for c
    using True that b64_val_None_iff [of c] b64_val_SomeD [of c] by (cases "b64_val c") auto
  have vs: "t = map b64_char vs" "below 64 vs"
    unfolding vs_def using val by (auto simp: list_all_iff map_idI)
  have uniq: "vs' = vs" if "t = map b64_char vs'" "below 64 vs'" for vs'
    using that vs by (metis option.inject those_vals)
  have last: "last t = b64_char (last vs) \<and> last vs < 64" if "vs \<noteq> []"
    using that vs by (simp add: last_map list_all_iff)
  have tail: "zero_tail vs \<longleftrightarrow>
      (length t mod 4 = 2 \<longrightarrow> last t \<in> set ''AQgw'') \<and>
      (length t mod 4 = 3 \<longrightarrow> last t \<in> set ''AEIMQUYcgkosw048'')"
  proof (cases "vs = []")
    case True
    then show ?thesis using vs by (simp add: zero_tail_def)
  next
    case False
    with last have l: "last t = b64_char (last vs)" "last vs < 64" by simp_all
    show ?thesis unfolding l(1) sextet_mod16 [OF l(2)] sextet_mod4 [OF l(2)]
      using vs by (simp add: zero_tail_def)
  qed
  have "canonical 16 t \<longleftrightarrow> length t mod 4 \<noteq> 1 \<and> 16 \<le> 3 * length t div 4 \<and> zero_tail vs"
    unfolding b64_canonical_iff using vs uniq length_map [of b64_char vs] by metis
  moreover have "16 \<le> 3 * length t div 4 \<longleftrightarrow> 22 \<le> length t" by auto
  moreover have "list_all token_char t" using True by (auto simp: list_all_iff token_char_alphabet)
  ultimately show ?thesis unfolding tail lua_token_def by auto
qed

lemma valid_connection_stored:
  assumes "uuid_documented L" and "valid_connection L (Some c)"
  shows "length (cn_user c) = 37 \<and> hd (cn_user c) = CHR ''U'' \<and> lua_uuid (tl (cn_user c)) \<and>
         valid_instance (cn_instance c) \<and> lua_uuid (cn_connection c) \<and> lua_token (cn_token c)"
  using assms token_checks_agree [of "cn_token c"]
  by (auto simp: valid_connection_def valid_id_def valid_uuid_lua)

section \<open>Well-formed key spaces\<close>

definition wf_redis :: "script_env \<Rightarrow> redis \<Rightarrow> bool" where
  "wf_redis E S = (\<forall>key v. S key = Some v \<longrightarrow> stored_ok E key v)"

text \<open>
  The environment the Go side passes: positive lease times, and prefixes that keep instance
  keys and route keys apart.
\<close>

definition env_ok :: "script_env \<Rightarrow> bool" where
  "env_ok E = (0 < e_ittl E \<and> 0 < e_rttl E \<and> (\<forall>u. \<not> has_prefix (e_rp E @ u) (e_ip E)))"

text \<open>
  The server clock together with a lease stays below \<open>10 ^ 14\<close> milliseconds (the year 5138): the
  script's \<open>cjson.encode\<close> writes numbers with 14 significant digits, so this is the range in which
  the deadline it stores is the deadline it computed.
\<close>

definition clock_ok :: "script_env \<Rightarrow> int \<Rightarrow> bool" where
  "clock_ok E now =
     (0 < now \<and> now + e_ittl E < 100000000000000 \<and> now + e_rttl E < 100000000000000)"

named_theorems script_ops \<open>the script operations on a well-formed key space\<close>

lemma wf_redisD: "wf_redis E S \<Longrightarrow> S key = Some v \<Longrightarrow> stored_ok E key v"
  by (simp add: wf_redis_def)

lemma wf_redis_empty [simp]: "wf_redis E Map.empty"
  by (simp add: wf_redis_def)

lemma wf_redis_del [intro]: "wf_redis E S \<Longrightarrow> wf_redis E (S(key := None))"
  by (simp add: wf_redis_def)

lemma wf_redis_upd [intro]: "wf_redis E S \<Longrightarrow> stored_ok E key v \<Longrightarrow> wf_redis E (S(key \<mapsto> v))"
  by (simp add: wf_redis_def)

lemma read_key_wf [simp, script_ops]: "wf_redis E S \<Longrightarrow> read_key E S key = Inr (S key)"
  by (auto simp: read_key_def wf_redis_def split: option.split)

lemma valid_owner_wf [simp, script_ops]:
  "wf_redis E S \<Longrightarrow>
   valid_owner E S now r =
     Inr (live now (S (e_ip E @ r_instance r)) \<and> r_boot (the (S (e_ip E @ r_instance r))) = r_boot r)"
  by (simp add: valid_owner_def)

lemma live_simps [simp]: "\<not> live now None" "live now (Some v) \<longleftrightarrow> now < r_deadline v"
  by (simp_all add: live_def)

lemma live_SomeE: "live now o' \<Longrightarrow> (\<And>v. o' = Some v \<Longrightarrow> now < r_deadline v \<Longrightarrow> P) \<Longrightarrow> P"
  by (cases o') auto

lemma commit_save_ok [script_ops]:
  "now < r_deadline v \<Longrightarrow> commit_save now key v r S = (Inr r, S(key \<mapsto> v))"
  by (simp add: commit_save_def save_key_def)

text \<open>What the callers pass: a well-formed instance argument and a well-formed route argument.\<close>

definition instance_arg :: "lease \<Rightarrow> bool" where
  "instance_arg p = (valid_instance (r_instance p) \<and> lua_uuid (r_boot p))"

definition route_arg :: "lease \<Rightarrow> bool" where
  "route_arg p =
     (instance_arg p \<and> length (r_user p) = 37 \<and> hd (r_user p) = CHR ''U'' \<and> lua_uuid (tl (r_user p)) \<and>
      lua_uuid (r_connection p) \<and> lua_token (r_token p) \<and> r_auth p \<le> 253402300799999)"

lemma stored_ok_instance:
  "stored_ok E (e_ip E @ i) v \<longleftrightarrow> stored_common v \<and> i = r_instance v \<and> r_address v \<noteq> []"
  by (auto simp: stored_ok_def stored_instance_def)

lemma stored_ok_route:
  "env_ok E \<Longrightarrow> stored_ok E (e_rp E @ u) v \<longleftrightarrow> stored_common v \<and> stored_route E (e_rp E @ u) v"
  by (simp add: stored_ok_def env_ok_def)

lemma instance_route_keys: "env_ok E \<Longrightarrow> e_ip E @ i \<noteq> e_rp E @ u"
  by (metis env_ok_def has_prefix_append)

text \<open>Each operation on a well-formed key space: it never raises and keeps the key space well formed.\<close>

lemma op_register_wf:
  assumes "wf_redis E S" and "env_ok E" and "clock_ok E now" and "instance_arg p" and "r_address p \<noteq> []"
    and "op_register E now p (e_ip E @ r_instance p) S = (r, S')"
  shows "wf_redis E S' \<and> (\<exists>x. r = Inr x)"
  using assms
  by (auto simp: op_register_def script_ops Let_def stored_ok_instance stored_common_def
      instance_arg_def lua_timestamp_def clock_ok_def env_ok_def
      split: if_splits option.splits intro!: wf_redis_upd)

lemma op_renew_wf:
  assumes "wf_redis E S" and "env_ok E" and "clock_ok E now"
    and "op_renew E now p (e_ip E @ r_instance p) S = (r, S')"
  shows "wf_redis E S' \<and> (\<exists>x. r = Inr x)"
  using assms
  by (auto simp: op_renew_def script_ops Let_def stored_ok_instance stored_common_def
      lua_timestamp_def clock_ok_def env_ok_def
      split: if_splits option.splits intro!: wf_redis_upd dest: wf_redisD elim!: live_SomeE)

lemma op_unregister_wf:
  assumes "wf_redis E S" and "op_unregister E now p key S = (r, S')"
  shows "wf_redis E S' \<and> (\<exists>x. r = Inr x)"
  using assms by (auto simp: op_unregister_def split: if_splits option.splits)

lemma op_disconnect_wf:
  assumes "wf_redis E S" and "op_disconnect E now p key S = (r, S')"
  shows "wf_redis E S' \<and> (\<exists>x. r = Inr x)"
  using assms by (auto simp: op_disconnect_def split: if_splits option.splits)

lemma op_connect_wf:
  assumes "wf_redis E S" and "env_ok E" and "clock_ok E now" and "route_arg p" and "r_auth p \<noteq> 0"
    and "op_connect E now p (e_rp E @ r_user p) (e_ip E @ r_instance p) S = (r, S')"
  shows "wf_redis E S' \<and> (\<exists>x. r = Inr x)"
proof -
  have "0 < e_rttl E" using assms(2) by (simp add: env_ok_def)
  with assms show ?thesis
    by (auto simp: op_connect_def script_ops Let_def stored_ok_route stored_common_def stored_route_def
        route_arg_def instance_arg_def lua_timestamp_def clock_ok_def
        split: if_splits intro!: wf_redis_upd)
qed

lemma op_check_wf:
  assumes "wf_redis E S" and "env_ok E" and "clock_ok E now"
    and "op_check E now hb p (e_rp E @ r_user p) S = (r, S')"
  shows "wf_redis E S' \<and> (\<exists>x. r = Inr x)"
proof (cases "S (e_rp E @ r_user p)")
  case None
  with assms show ?thesis by (auto simp: op_check_def)
next
  case (Some old)
  with assms(1,2) have st: "stored_common old" "stored_route E (e_rp E @ r_user p) old"
    by (auto simp: stored_ok_route dest: wf_redisD)
  have "0 < e_rttl E" using assms(2) by (simp add: env_ok_def)
  with assms Some st show ?thesis
    by (auto simp: op_check_def script_ops Let_def stored_ok_route stored_common_def stored_route_def
        lua_timestamp_def clock_ok_def split: if_splits intro!: wf_redis_upd)
qed

lemma collect_total: "(\<And>i k. \<exists>x. f i k = Inr x) \<Longrightarrow> \<exists>xs. collect f zs = Inr xs"
proof (induction zs)
  case Nil
  then show ?case by simp
next
  case (Cons z zs)
  then show ?case by (cases z) (metis bindE_simps(2) collect.simps(2))
qed

lemma collect_nth:
  "collect f (zip is ks) = Inr xs \<Longrightarrow> length is = length ks \<Longrightarrow>
   length xs = length is \<and> (\<forall>n < length is. f (is ! n) (ks ! n) = Inr (xs ! n))"
proof (induction "is" arbitrary: ks xs)
  case Nil
  then show ?case by simp
next
  case (Cons i "is")
  then obtain k ks' where "ks = k # ks'" by (cases ks) auto
  with Cons show ?case
    by (auto simp: bindE_eq_Inr less_Suc_eq_0_disj)
qed

lemma lookup_one_total: "wf_redis E S \<Longrightarrow> \<exists>x. lookup_one E now S i k = Inr x"
  by (auto simp: lookup_one_def split: option.splits)

lemma resolve_one_total: "wf_redis E S \<Longrightarrow> \<exists>x. resolve_one E now S i k = Inr x"
  by (auto simp: resolve_one_def split: option.splits)

lemma op_lookup_wf:
  assumes "wf_redis E S" and "op_lookup E now ids keys S = (r, S')"
  shows "S' = S \<and> (\<exists>x. r = Inr x)"
  using assms collect_total [of "lookup_one E now S" "zip ids keys"] lookup_one_total
  by (auto simp: op_lookup_def split: sum.splits)

lemma op_resolve_wf:
  assumes "wf_redis E S" and "op_resolve E now ids keys S = (r, S')"
  shows "S' = S \<and> (\<exists>x. r = Inr x)"
  using assms collect_total [of "resolve_one E now S" "zip ids keys"] resolve_one_total
  by (auto simp: op_resolve_def split: sum.splits)

end
