(* ===== verification/RouteStore.thy ===== *)
theory RouteStore
  imports LeaseScript Fencing
begin

text \<open>
  \<open>internal/logic/routing/store.go\<close>: the Go API over the lease script. An operation takes the
  state of one Redis call (\<open>redis_io\<close>: the server clock, and a failure, if the call fails,
  with whether the script had run before the reply was lost) and returns its result with the
  new key space.
\<close>

section \<open>The store and its calls\<close>

datatype routing_error =
  RInvalid | RConflict | RNotRegistered | RSuperseded | RLeaseExpired | RDraining |
  RDependency "ctx_err option"

record rstore =
  st_instances :: string
  st_routes :: string
  st_instanceTTL :: int
  st_routeTTL :: int

record redis_io =
  io_now :: int
  io_fault :: "(ctx_err option \<times> bool) option"

definition ttl_ms :: "int \<Rightarrow> int" where
  "ttl_ms d = (let d' = (if d = 0 then 60 * ns_per_s else d) in (d' - 1) div ns_per_ms + 1)"

definition new_store :: "string \<Rightarrow> int \<Rightarrow> int \<Rightarrow> routing_error + rstore" where
  "new_store prefix ittl rttl =
     (if ittl < 0 \<or> rttl < 0 \<or> length prefix > 256 \<or>
         contains_any prefix (''{}'' @ [char_of (13::nat), char_of (10::nat), char_of (0::nat)])
      then Inl RInvalid
      else let base = prefix @ ''{logic-routing}:'' in
        Inr \<lparr>st_instances = base @ ''instance:'', st_routes = base @ ''route:'',
             st_instanceTTL = ttl_ms ittl, st_routeTTL = ttl_ms rttl\<rparr>)"

definition store_env :: "rstore \<Rightarrow> script_env" where
  "store_env st = \<lparr>e_ip = st_instances st, e_rp = st_routes st,
                   e_ittl = st_instanceTTL st, e_rttl = st_routeTTL st\<rparr>"

text \<open>\<open>dependency(err)\<close> keeps only the cancellation of the context.\<close>

definition dependency :: "ctx_err option \<Rightarrow> routing_error" where
  "dependency c = RDependency c"

definition script_outcome :: "unit + script_result \<Rightarrow> routing_error + script_result" where
  "script_outcome r =
     (case r of
        Inl _ \<Rightarrow> Inl (RDependency None)
      | Inr x \<Rightarrow>
        if sc_err x = '''' then Inr x
        else if sc_err x = ''conflict'' then Inl RConflict
        else if sc_err x = ''not_registered'' then Inl RNotRegistered
        else if sc_err x = ''superseded'' then Inl RSuperseded
        else if sc_err x = ''expired'' then Inl RLeaseExpired
        else if sc_err x = ''draining'' then Inl RDraining
        else if sc_err x = ''invalid'' then Inl RInvalid
        else Inl (RDependency None))"

definition run_script ::
  "rstore \<Rightarrow> redis_io \<Rightarrow> string \<Rightarrow> lease \<Rightarrow> string list \<Rightarrow> string list \<Rightarrow> redis \<Rightarrow>
   (routing_error + script_result) \<times> redis" where
  "run_script st io op p ids keys S =
     (let step = lease_script (store_env st) (io_now io) op p ids keys S in
      case io_fault io of
        Some (c, executed) \<Rightarrow> (Inl (dependency c), if executed then snd step else S)
      | None \<Rightarrow> (script_outcome (fst step), snd step))"

definition empty_lease :: lease where
  "empty_lease = \<lparr>r_user = [], r_instance = [], r_boot = [], r_connection = [], r_token = [],
                  r_address = [], r_draining = False, r_auth = 0, r_deadline = 0\<rparr>"

definition connection_record :: "conn_id \<Rightarrow> lease" where
  "connection_record c =
     empty_lease\<lparr>r_user := cn_user c, r_instance := cn_instance c,
                 r_connection := cn_connection c, r_token := cn_token c\<rparr>"

definition comet_lease_of :: "lease option \<Rightarrow> comet_lease option" where
  "comet_lease_of r =
     map_option (\<lambda>v. \<lparr>cl_identity = Some \<lparr>ci_instance = r_instance v, ci_boot = r_boot v\<rparr>,
                      cl_address = r_address v, cl_draining = r_draining v,
                      cl_deadline = Some (ts_new (unix_milli (r_deadline v)))\<rparr>) r"

definition lease_conn :: "lease \<Rightarrow> conn_id" where
  "lease_conn v = \<lparr>cn_user = r_user v, cn_instance = r_instance v,
                   cn_connection = r_connection v, cn_token = r_token v\<rparr>"

definition route_lease_of :: "lease option \<Rightarrow> route_lease option" where
  "route_lease_of r =
     map_option (\<lambda>v. \<lparr>rl_identity = Some (lease_conn v),
                      rl_auth = Some (ts_new (unix_milli (r_auth v))),
                      rl_deadline = Some (ts_new (unix_milli (r_deadline v)))\<rparr>) r"

definition outcome_of :: "nat \<Rightarrow> delete_outcome" where
  "outcome_of n = (if n = 1 then DELETED else if n = 2 then NOT_CURRENT else if n = 3 then NOT_FOUND
                   else OUTCOME_UNSPECIFIED)"

section \<open>Instance leases\<close>

definition st_register ::
  "lib \<Rightarrow> rstore \<Rightarrow> redis_io \<Rightarrow> comet_id option \<Rightarrow> string \<Rightarrow> redis \<Rightarrow> (routing_error + comet_lease option) \<times> redis" where
  "st_register L st io cid address S =
     (if \<not> valid_comet L cid \<or> \<not> valid_address address then (Inl RInvalid, S)
      else
        let p = empty_lease\<lparr>r_instance := ci_instance (the cid), r_boot := ci_boot (the cid),
                            r_address := address\<rparr>;
            (r, S') = run_script st io ''register'' p [] [st_instances st @ ci_instance (the cid)] S
        in (bindE r (\<lambda>x. Inr (comet_lease_of (sc_instance x))), S'))"

definition st_renew ::
  "lib \<Rightarrow> rstore \<Rightarrow> redis_io \<Rightarrow> comet_id option \<Rightarrow> bool \<Rightarrow> redis \<Rightarrow> (routing_error + comet_lease option) \<times> redis" where
  "st_renew L st io cid draining S =
     (if \<not> valid_comet L cid then (Inl RInvalid, S)
      else
        let p = empty_lease\<lparr>r_instance := ci_instance (the cid), r_boot := ci_boot (the cid),
                            r_draining := draining\<rparr>;
            (r, S') = run_script st io ''renew'' p [] [st_instances st @ ci_instance (the cid)] S
        in (bindE r (\<lambda>x. Inr (comet_lease_of (sc_instance x))), S'))"

definition st_unregister ::
  "lib \<Rightarrow> rstore \<Rightarrow> redis_io \<Rightarrow> comet_id option \<Rightarrow> redis \<Rightarrow> (routing_error + delete_outcome) \<times> redis" where
  "st_unregister L st io cid S =
     (if \<not> valid_comet L cid then (Inl RInvalid, S)
      else
        let p = empty_lease\<lparr>r_instance := ci_instance (the cid), r_boot := ci_boot (the cid)\<rparr>;
            (r, S') = run_script st io ''unregister'' p [] [st_instances st @ ci_instance (the cid)] S
        in (bindE r (\<lambda>x. Inr (outcome_of (sc_outcome x))), S'))"

section \<open>User routes\<close>

definition st_connect ::
  "lib \<Rightarrow> rstore \<Rightarrow> redis_io \<Rightarrow> comet_id option \<Rightarrow> string \<Rightarrow> string \<Rightarrow> string \<Rightarrow> int \<Rightarrow> redis \<Rightarrow>
   (routing_error + (route_lease option \<times> route_lease option)) \<times> redis" where
  "st_connect L st io cid user connection token auth S =
     (let identity = \<lparr>cn_user = user, cn_instance = (case cid of None \<Rightarrow> [] | Some c \<Rightarrow> ci_instance c),
                      cn_connection = connection, cn_token = token\<rparr> in
      if \<not> valid_comet L cid \<or> \<not> valid_connection L (Some identity) \<or> auth = zero_ns \<or>
         \<not> ts_check L (ts_new auth)
      then (Inl RInvalid, S)
      else
        let p = (connection_record identity)\<lparr>r_boot := ci_boot (the cid), r_auth := auth div ns_per_ms\<rparr>;
            (r, S') = run_script st io ''connect'' p []
                        [st_routes st @ user, st_instances st @ ci_instance (the cid)] S
        in (bindE r (\<lambda>x. Inr (route_lease_of (sc_route x), route_lease_of (sc_previous x))), S'))"

definition st_route ::
  "lib \<Rightarrow> rstore \<Rightarrow> redis_io \<Rightarrow> string \<Rightarrow> conn_id option \<Rightarrow> redis \<Rightarrow> (routing_error + route_lease option) \<times> redis" where
  "st_route L st io op c S =
     (if \<not> valid_connection L c then (Inl RInvalid, S)
      else
        let (r, S') = run_script st io op (connection_record (the c)) [] [st_routes st @ cn_user (the c)] S
        in (bindE r (\<lambda>x. Inr (route_lease_of (sc_route x))), S'))"

definition st_heartbeat ::
  "lib \<Rightarrow> rstore \<Rightarrow> redis_io \<Rightarrow> conn_id option \<Rightarrow> redis \<Rightarrow> (routing_error + route_lease option) \<times> redis" where
  "st_heartbeat L st io c S = st_route L st io ''heartbeat'' c S"

definition st_check ::
  "lib \<Rightarrow> rstore \<Rightarrow> redis_io \<Rightarrow> conn_id option \<Rightarrow> redis \<Rightarrow> (routing_error + route_lease option) \<times> redis" where
  "st_check L st io c S = st_route L st io ''check'' c S"

definition st_disconnect ::
  "lib \<Rightarrow> rstore \<Rightarrow> redis_io \<Rightarrow> conn_id option \<Rightarrow> redis \<Rightarrow> (routing_error + delete_outcome) \<times> redis" where
  "st_disconnect L st io c S =
     (if \<not> valid_connection L c then (Inl RInvalid, S)
      else
        let (r, S') = run_script st io ''disconnect'' (connection_record (the c)) []
                        [st_routes st @ cn_user (the c)] S
        in (bindE r (\<lambda>x. Inr (outcome_of (sc_outcome x))), S'))"

section \<open>Batches\<close>

definition valid_batch :: "string list \<Rightarrow> (string \<Rightarrow> bool) \<Rightarrow> bool" where
  "valid_batch ids valid = (1 \<le> length ids \<and> length ids \<le> 100 \<and> all_fresh valid [] ids)"

fun map_items :: "(result_item \<Rightarrow> routing_error + 'a) \<Rightarrow> result_item list \<Rightarrow> routing_error + 'a list" where
  "map_items f [] = Inr []"
| "map_items f (x # xs) = bindE (f x) (\<lambda>y. bindE (map_items f xs) (\<lambda>ys. Inr (y # ys)))"

definition lookup_item :: "result_item \<Rightarrow> routing_error + route_result" where
  "lookup_item i =
     (if ri_route i \<noteq> None
      then Inr \<lparr>rr_user = ri_id i, rr_state = RouteState (route_lease_of (ri_route i))\<rparr>
      else if 1 \<le> ri_reason i \<and> ri_reason i \<le> 3
      then Inr \<lparr>rr_user = ri_id i, rr_state = OfflineState
                 (if ri_reason i = 1 then OFFLINE_REASON_NO_ROUTE
                  else if ri_reason i = 2 then OFFLINE_REASON_LEASE_EXPIRED
                  else OFFLINE_REASON_INSTANCE_EXPIRED)\<rparr>
      else Inl (RDependency None))"

definition resolve_item :: "result_item \<Rightarrow> routing_error + comet_resolution" where
  "resolve_item i =
     (if ri_instance i \<noteq> None
      then Inr \<lparr>cr_instance = ri_id i, cr_state = LeaseState (comet_lease_of (ri_instance i))\<rparr>
      else if 1 \<le> ri_reason i \<and> ri_reason i \<le> 2
      then Inr \<lparr>cr_instance = ri_id i, cr_state = MissingState
                 (if ri_reason i = 1 then MISSING_REASON_NOT_REGISTERED else MISSING_REASON_LEASE_EXPIRED)\<rparr>
      else Inl (RDependency None))"

definition st_lookup ::
  "lib \<Rightarrow> rstore \<Rightarrow> redis_io \<Rightarrow> string list \<Rightarrow> redis \<Rightarrow> (routing_error + route_result list) \<times> redis" where
  "st_lookup L st io uids S =
     (if \<not> valid_batch uids (\<lambda>u. valid_id L u (CHR ''U'')) then (Inl RInvalid, S)
      else
        let (r, S') = run_script st io ''lookup'' empty_lease uids (map ((@) (st_routes st)) uids) S
        in (bindE r (\<lambda>x. if length (sc_results x) \<noteq> length uids then Inl (RDependency None)
                         else map_items lookup_item (sc_results x)), S'))"

definition st_resolve ::
  "lib \<Rightarrow> rstore \<Rightarrow> redis_io \<Rightarrow> string list \<Rightarrow> redis \<Rightarrow> (routing_error + comet_resolution list) \<times> redis" where
  "st_resolve L st io iids S =
     (if \<not> valid_batch iids valid_instance then (Inl RInvalid, S)
      else
        let (r, S') = run_script st io ''resolve'' empty_lease iids (map ((@) (st_instances st)) iids) S
        in (bindE r (\<lambda>x. if length (sc_results x) \<noteq> length iids then Inl (RDependency None)
                         else map_items resolve_item (sc_results x)), S'))"

definition st_ping :: "redis_io \<Rightarrow> routing_error + unit" where
  "st_ping io = (case io_fault io of Some (c, _) \<Rightarrow> Inl (dependency c) | None \<Rightarrow> Inr ())"

section \<open>Healthy calls\<close>

definition healthy :: "redis_io \<Rightarrow> bool" where
  "healthy io = (io_fault io = None)"

lemma lease_script_simps [simp]:
  "lease_script E now ''register'' p ids keys S = op_register E now p (keys ! 0) S"
  "lease_script E now ''renew'' p ids keys S = op_renew E now p (keys ! 0) S"
  "lease_script E now ''unregister'' p ids keys S = op_unregister E now p (keys ! 0) S"
  "lease_script E now ''connect'' p ids keys S = op_connect E now p (keys ! 0) (keys ! 1) S"
  "lease_script E now ''check'' p ids keys S = op_check E now False p (keys ! 0) S"
  "lease_script E now ''heartbeat'' p ids keys S = op_check E now True p (keys ! 0) S"
  "lease_script E now ''disconnect'' p ids keys S = op_disconnect E now p (keys ! 0) S"
  "lease_script E now ''lookup'' p ids keys S = op_lookup E now ids keys S"
  "lease_script E now ''resolve'' p ids keys S = op_resolve E now ids keys S"
  by (simp_all add: lease_script_def)

lemma store_env_simps [simp]:
  "e_ip (store_env st) = st_instances st" "e_rp (store_env st) = st_routes st"
  "e_ittl (store_env st) = st_instanceTTL st" "e_rttl (store_env st) = st_routeTTL st"
  by (simp_all add: store_env_def)

lemma ttl_ms_bounds: "0 \<le> d \<Longrightarrow> 0 < ttl_ms d \<and> (0 < d \<longrightarrow> d \<le> ttl_ms d * ns_per_ms \<and> ttl_ms d * ns_per_ms < d + ns_per_ms)"
  by (auto simp: ttl_ms_def Let_def ns_per_ms_def ns_per_s_def)

lemma new_store_env_ok:
  assumes "new_store pre ittl rttl = Inr st"
  shows "env_ok (store_env st)"
proof -
  let ?b = "pre @ ''{logic-routing}:''"
  from assms have st: "st_instances st = ?b @ ''instance:''" "st_routes st = ?b @ ''route:''"
    "st_instanceTTL st = ttl_ms ittl" "st_routeTTL st = ttl_ms rttl" "0 \<le> ittl" "0 \<le> rttl"
    by (auto simp: new_store_def Let_def split: if_splits)
  have "take (length (?b @ ''instance:'')) (?b @ ''route:'' @ u) \<noteq> ?b @ ''instance:''" for u
    unfolding length_append take_append append.assoc by simp
  then show ?thesis using st ttl_ms_bounds [of ittl] ttl_ms_bounds [of rttl]
    by (simp add: env_ok_def has_prefix_def)
qed

lemma script_outcome_simps [simp]:
  "script_outcome (Inl u) = Inl (RDependency None)"
  "sc_err x = '''' \<Longrightarrow> script_outcome (Inr x) = Inr x"
  "script_outcome (Inr (script_err ''conflict'')) = Inl RConflict"
  "script_outcome (Inr (script_err ''not_registered'')) = Inl RNotRegistered"
  "script_outcome (Inr (script_err ''superseded'')) = Inl RSuperseded"
  "script_outcome (Inr (script_err ''expired'')) = Inl RLeaseExpired"
  "script_outcome (Inr (script_err ''draining'')) = Inl RDraining"
  by (simp_all add: script_outcome_def script_err_def)

lemma answer_err [simp]: "sc_err answer = ''''"
  by (simp add: answer_def)

lemma connection_record_simps [simp]:
  "r_user (connection_record c) = cn_user c" "r_instance (connection_record c) = cn_instance c"
  "r_connection (connection_record c) = cn_connection c" "r_token (connection_record c) = cn_token c"
  by (simp_all add: connection_record_def)

lemma same_route_record: "same_route v (connection_record c) \<longleftrightarrow> lease_conn v = c"
  by (cases c) (auto simp: same_route_def lease_conn_def)

lemma run_script_healthy:
  "healthy io \<Longrightarrow> run_script st io op p ids keys S =
     (let step = lease_script (store_env st) (io_now io) op p ids keys S
      in (script_outcome (fst step), snd step))"
  by (simp add: run_script_def healthy_def Let_def)

text \<open>The error of an operation comes from the script, from the input check, or from Redis.\<close>

datatype route_op =
    ORegister "comet_id option" string
  | ORenew "comet_id option" bool
  | OUnregister "comet_id option"
  | OConnect "comet_id option" string string string int
  | OHeartbeat "conn_id option"
  | OCheck "conn_id option"
  | ODisconnect "conn_id option"
  | OLookup "string list"
  | OResolve "string list"

definition forget :: "('e + 'a) \<times> redis \<Rightarrow> ('e + unit) \<times> redis" where
  "forget r = (bindE (fst r) (\<lambda>_. Inr ()), snd r)"

fun exec_op :: "lib \<Rightarrow> rstore \<Rightarrow> redis_io \<Rightarrow> route_op \<Rightarrow> redis \<Rightarrow> (routing_error + unit) \<times> redis" where
  "exec_op L st io (ORegister c a) S = forget (st_register L st io c a S)"
| "exec_op L st io (ORenew c d) S = forget (st_renew L st io c d S)"
| "exec_op L st io (OUnregister c) S = forget (st_unregister L st io c S)"
| "exec_op L st io (OConnect c u n t a) S = forget (st_connect L st io c u n t a S)"
| "exec_op L st io (OHeartbeat c) S = forget (st_heartbeat L st io c S)"
| "exec_op L st io (OCheck c) S = forget (st_check L st io c S)"
| "exec_op L st io (ODisconnect c) S = forget (st_disconnect L st io c S)"
| "exec_op L st io (OLookup us) S = forget (st_lookup L st io us S)"
| "exec_op L st io (OResolve is) S = forget (st_resolve L st io is S)"

section \<open>The operations on a well-formed key space\<close>

abbreviation rkey :: "rstore \<Rightarrow> string \<Rightarrow> string" where
  "rkey st u \<equiv> st_routes st @ u"

abbreviation ikey :: "rstore \<Rightarrow> string \<Rightarrow> string" where
  "ikey st i \<equiv> st_instances st @ i"

text \<open>
  The states the store works on: documented UUID syntax, the prefixes and lease times of a
  store built by \<open>New\<close>, and stored values that pass the checks of the script.
\<close>

definition wf_store :: "lib \<Rightarrow> rstore \<Rightarrow> redis \<Rightarrow> bool" where
  "wf_store L st S = (uuid_documented L \<and> env_ok (store_env st) \<and> wf_redis (store_env st) S)"

lemma wf_storeD [dest]:
  assumes "wf_store L st S"
  shows "uuid_documented L" "env_ok (store_env st)" "wf_redis (store_env st) S"
  using assms by (simp_all add: wf_store_def)

definition instance_live :: "rstore \<Rightarrow> int \<Rightarrow> redis \<Rightarrow> string \<Rightarrow> string \<Rightarrow> bool" where
  "instance_live st now S i boot = (case S (ikey st i) of None \<Rightarrow> False
     | Some v \<Rightarrow> now < r_deadline v \<and> r_boot v = boot)"

lemma live_instance: "live now (S (ikey st i)) \<and> r_boot (the (S (ikey st i))) = b \<longleftrightarrow> instance_live st now S i b"
  by (auto simp: instance_live_def split: option.splits)

definition route_live :: "int \<Rightarrow> lease \<Rightarrow> bool" where
  "route_live now v = (now < r_deadline v \<and> now < r_auth v)"

text \<open>The connect request passes every check of the store and of the script.\<close>

definition connect_ok :: "lib \<Rightarrow> rstore \<Rightarrow> int \<Rightarrow> comet_id \<Rightarrow> string \<Rightarrow> string \<Rightarrow> string \<Rightarrow> int \<Rightarrow> redis \<Rightarrow> bool" where
  "connect_ok L st now c u n t auth S =
     (valid_comet L (Some c) \<and>
      valid_connection L (Some \<lparr>cn_user = u, cn_instance = ci_instance c, cn_connection = n, cn_token = t\<rparr>) \<and>
      auth \<noteq> zero_ns \<and> ts_check L (ts_new auth) \<and>
      instance_live st now S (ci_instance c) (ci_boot c) \<and>
      \<not> r_draining (the (S (ikey st (ci_instance c)))) \<and>
      auth div ns_per_ms \<noteq> 0 \<and> now + 5000 < auth div ns_per_ms)"

definition connect_lease :: "rstore \<Rightarrow> int \<Rightarrow> comet_id \<Rightarrow> string \<Rightarrow> string \<Rightarrow> string \<Rightarrow> int \<Rightarrow> lease" where
  "connect_lease st now c u n t auth =
     empty_lease\<lparr>r_user := u, r_instance := ci_instance c, r_connection := n, r_token := t,
                 r_boot := ci_boot c, r_auth := auth div ns_per_ms,
                 r_deadline := min (now + st_routeTTL st) (auth div ns_per_ms)\<rparr>"

definition live_route :: "rstore \<Rightarrow> int \<Rightarrow> redis \<Rightarrow> string \<Rightarrow> lease option" where
  "live_route st now S u = (case S (rkey st u) of None \<Rightarrow> None
     | Some v \<Rightarrow> if route_live now v then Some v else None)"

lemma env_ttl_pos: "env_ok (store_env st) \<Longrightarrow> 0 < st_routeTTL st \<and> 0 < st_instanceTTL st"
  by (simp add: env_ok_def)

lemma st_connect_ok:
  assumes "healthy io" and "wf_store L st S" and "connect_ok L st (io_now io) c u n t auth S"
  shows "st_connect L st io (Some c) u n t auth S =
     (Inr (route_lease_of (Some (connect_lease st (io_now io) c u n t auth)),
           route_lease_of (live_route st (io_now io) S u)),
      S(rkey st u \<mapsto> connect_lease st (io_now io) c u n t auth))"
proof -
  have "min (io_now io + st_routeTTL st) (auth div ns_per_ms) > io_now io"
    using assms env_ttl_pos by (auto simp: connect_ok_def)
  moreover have "(if \<not> live (io_now io) o' \<or> r_auth (the o') \<le> io_now io then None else o') =
      (case o' of None \<Rightarrow> None | Some v \<Rightarrow> if route_live (io_now io) v then Some v else None)" for o'
    by (cases o') (auto simp: route_live_def)
  ultimately show ?thesis
    using assms(1,3) wf_storeD [OF assms(2)]
    apply (simp add: st_connect_def run_script_healthy op_connect_def connect_ok_def
        script_ops Let_def connect_lease_def connection_record_def live_route_def live_instance [symmetric])
    done
qed

lemma op_connect_refused:
  assumes "wf_redis E S"
    and "\<not> (live now (S ik) \<and> r_boot (the (S ik)) = r_boot p \<and> \<not> r_draining (the (S ik)) \<and>
           r_auth p \<noteq> 0 \<and> now + 5000 < r_auth p)"
  shows "\<exists>x e. op_connect E now p k ik S = (x, S) \<and> script_outcome x = Inl e"
  using assms
  by (cases "live now (S ik)"; cases "r_boot (the (S ik)) = r_boot p"; cases "r_draining (the (S ik))";
      cases "r_auth p = 0") (auto simp: op_connect_def)

lemma st_connect_refused:
  assumes "wf_store L st S" and "\<not> connect_ok L st (io_now io) c u n t auth S"
  shows "\<exists>e. st_connect L st io (Some c) u n t auth S = (Inl e, S)"
proof (cases "valid_comet L (Some c) \<and>
      valid_connection L (Some \<lparr>cn_user = u, cn_instance = ci_instance c, cn_connection = n, cn_token = t\<rparr>) \<and>
      auth \<noteq> zero_ns \<and> ts_check L (ts_new auth)")
  case False
  then show ?thesis by (auto simp: st_connect_def)
next
  case True
  let ?p = "(connection_record \<lparr>cn_user = u, cn_instance = ci_instance c, cn_connection = n, cn_token = t\<rparr>)
              \<lparr>r_boot := ci_boot c, r_auth := auth div ns_per_ms\<rparr>"
  obtain x e where x: "op_connect (store_env st) (io_now io) ?p (rkey st u) (ikey st (ci_instance c)) S = (x, S)"
    "script_outcome x = Inl e"
    using op_connect_refused [of "store_env st" S "io_now io" "ikey st (ci_instance c)" ?p "rkey st u"]
      wf_storeD(3) [OF assms(1)] assms(2) True
    by (auto simp: connect_ok_def live_instance [symmetric])
  with True show ?thesis
    by (auto simp: st_connect_def run_script_def Let_def split: option.split)
qed

text \<open>\<open>Check\<close> and \<open>Heartbeat\<close> share one script branch.\<close>

definition check_lease :: "rstore \<Rightarrow> int \<Rightarrow> bool \<Rightarrow> lease \<Rightarrow> lease" where
  "check_lease st now hb v =
     (if hb then v\<lparr>r_deadline := min (now + st_routeTTL st) (r_auth v)\<rparr> else v)"

definition check_verdict :: "rstore \<Rightarrow> int \<Rightarrow> redis \<Rightarrow> conn_id \<Rightarrow> routing_error + lease" where
  "check_verdict st now S c =
     (case S (rkey st (cn_user c)) of
        None \<Rightarrow> Inl RLeaseExpired
      | Some v \<Rightarrow>
        if lease_conn v \<noteq> c then Inl RSuperseded
        else if \<not> route_live now v then Inl RLeaseExpired
        else if \<not> instance_live st now S (r_instance v) (r_boot v) then Inl RNotRegistered
        else Inr v)"

lemma route_op_verdict:
  assumes "healthy io" and "wf_store L st S" and "valid_connection L (Some c)"
  shows "st_route L st io (if hb then ''heartbeat'' else ''check'') (Some c) S =
     (case check_verdict st (io_now io) S c of
        Inl e \<Rightarrow> (Inl e, S)
      | Inr v \<Rightarrow> (Inr (route_lease_of (Some (check_lease st (io_now io) hb v))),
                  if hb then S(rkey st (cn_user c) \<mapsto> check_lease st (io_now io) hb v) else S))"
proof -
  let ?now = "io_now io"
  let ?E = "store_env st"
  have wf: "wf_redis ?E S" and ttl: "0 < st_routeTTL st"
    using wf_storeD [OF assms(2)] env_ttl_pos by blast+
  have "(script_outcome (fst (op_check ?E ?now hb (connection_record c) (rkey st (cn_user c)) S)),
         snd (op_check ?E ?now hb (connection_record c) (rkey st (cn_user c)) S)) =
     (case check_verdict st ?now S c of
        Inl e \<Rightarrow> (Inl e, S)
      | Inr v \<Rightarrow> (Inr (answer\<lparr>sc_route := Some (check_lease st ?now hb v)\<rparr>),
                  if hb then S(rkey st (cn_user c) \<mapsto> check_lease st ?now hb v) else S))"
  proof (cases "S (rkey st (cn_user c))")
    case None
    then show ?thesis using wf by (simp add: op_check_def check_verdict_def)
  next
    case (Some v)
    show ?thesis
    proof (cases "lease_conn v = c \<and> route_live ?now v")
      case False
      then show ?thesis using wf Some
        by (cases "lease_conn v = c")
          (auto simp: op_check_def check_verdict_def same_route_record route_live_def)
    next
      case True
      then show ?thesis using wf Some ttl
        by (auto simp: op_check_def check_verdict_def same_route_record route_live_def live_instance
            check_lease_def Let_def script_ops)
    qed
  qed
  then show ?thesis
    using assms(1,3) by (cases hb; cases "check_verdict st ?now S c")
      (simp_all add: st_route_def run_script_healthy Let_def)
qed

lemma st_check_eq:
  "healthy io \<Longrightarrow> wf_store L st S \<Longrightarrow> valid_connection L (Some c) \<Longrightarrow>
   st_check L st io (Some c) S =
     (bindE (check_verdict st (io_now io) S c) (\<lambda>v. Inr (route_lease_of (Some v))), S)"
  using route_op_verdict [of io L st S c False]
  by (auto simp: st_check_def check_lease_def split: sum.splits)

lemma st_heartbeat_eq:
  "healthy io \<Longrightarrow> wf_store L st S \<Longrightarrow> valid_connection L (Some c) \<Longrightarrow>
   st_heartbeat L st io (Some c) S =
     (case check_verdict st (io_now io) S c of
        Inl e \<Rightarrow> (Inl e, S)
      | Inr v \<Rightarrow> (Inr (route_lease_of (Some (check_lease st (io_now io) True v))),
                  S(rkey st (cn_user c) \<mapsto> check_lease st (io_now io) True v)))"
  using route_op_verdict [of io L st S c True]
  by (auto simp: st_heartbeat_def split: sum.splits)

lemma st_disconnect_eq:
  assumes "healthy io" and "wf_store L st S" and "valid_connection L (Some c)"
  shows "st_disconnect L st io (Some c) S =
     (case S (rkey st (cn_user c)) of
        None \<Rightarrow> (Inr NOT_FOUND, S)
      | Some v \<Rightarrow>
        if r_deadline v \<le> io_now io then (Inr NOT_FOUND, S)
        else if lease_conn v \<noteq> c then (Inr NOT_CURRENT, S)
        else (Inr DELETED, S(rkey st (cn_user c) := None)))"
  using assms(1,3) wf_storeD(3) [OF assms(2)]
  by (auto simp: st_disconnect_def run_script_healthy op_disconnect_def same_route_record outcome_of_def
      Let_def split: option.split)

text \<open>What a lookup says of one user.\<close>

definition route_status :: "rstore \<Rightarrow> int \<Rightarrow> redis \<Rightarrow> string \<Rightarrow> route_state" where
  "route_status st now S u =
     (case S (rkey st u) of
        None \<Rightarrow> OfflineState OFFLINE_REASON_NO_ROUTE
      | Some v \<Rightarrow>
        if \<not> route_live now v then OfflineState OFFLINE_REASON_LEASE_EXPIRED
        else if \<not> instance_live st now S (r_instance v) (r_boot v)
        then OfflineState OFFLINE_REASON_INSTANCE_EXPIRED
        else RouteState (route_lease_of (Some v)))"

definition comet_status :: "rstore \<Rightarrow> int \<Rightarrow> redis \<Rightarrow> string \<Rightarrow> comet_state" where
  "comet_status st now S i =
     (case S (ikey st i) of
        None \<Rightarrow> MissingState MISSING_REASON_NOT_REGISTERED
      | Some v \<Rightarrow> if r_deadline v \<le> now then MissingState MISSING_REASON_LEASE_EXPIRED
                  else LeaseState (comet_lease_of (Some v)))"

lemma collect_map:
  "(\<And>i. i \<in> set is \<Longrightarrow> f i (k i) = Inr (g i)) \<Longrightarrow> collect f (zip is (map k is)) = Inr (map g is)"
  by (induction "is") auto

lemma map_items_map:
  "(\<And>x. x \<in> set xs \<Longrightarrow> f (g x) = Inr (h x)) \<Longrightarrow> map_items f (map g xs) = Inr (map h xs)"
  by (induction xs) auto

lemma lookup_one_item:
  assumes "wf_redis (store_env st) S"
  shows "\<exists>x. lookup_one (store_env st) now S u (rkey st u) = Inr x \<and>
             lookup_item x = Inr \<lparr>rr_user = u, rr_state = route_status st now S u\<rparr>"
proof (cases "S (rkey st u)")
  case None
  then show ?thesis using assms by (simp add: lookup_one_def lookup_item_def route_status_def)
next
  case (Some v)
  then show ?thesis using assms
    by (cases "route_live now v")
      (auto simp: lookup_one_def lookup_item_def route_status_def route_live_def live_instance)
qed

lemma resolve_one_item:
  assumes "wf_redis (store_env st) S"
  shows "\<exists>x. resolve_one (store_env st) now S i (ikey st i) = Inr x \<and>
             resolve_item x = Inr \<lparr>cr_instance = i, cr_state = comet_status st now S i\<rparr>"
  using assms by (cases "S (ikey st i)") (auto simp: resolve_one_def resolve_item_def comet_status_def)

lemma st_lookup_eq:
  assumes "healthy io" and "wf_store L st S" and "valid_batch us (\<lambda>u. valid_id L u (CHR ''U''))"
  shows "st_lookup L st io us S =
     (Inr (map (\<lambda>u. \<lparr>rr_user = u, rr_state = route_status st (io_now io) S u\<rparr>) us), S)"
proof -
  obtain g where g: "\<And>u. lookup_one (store_env st) (io_now io) S u (rkey st u) = Inr (g u) \<and>
      lookup_item (g u) = Inr \<lparr>rr_user = u, rr_state = route_status st (io_now io) S u\<rparr>"
    using lookup_one_item [OF wf_storeD(3) [OF assms(2)], of "io_now io"] by metis
  have "collect (lookup_one (store_env st) (io_now io) S) (zip us (map (rkey st) us)) = Inr (map g us)"
    using g by (intro collect_map) simp
  moreover have "map_items lookup_item (map g us) =
      Inr (map (\<lambda>u. \<lparr>rr_user = u, rr_state = route_status st (io_now io) S u\<rparr>) us)"
    using g by (intro map_items_map) simp
  ultimately show ?thesis
    using assms(1,3) by (simp add: st_lookup_def run_script_healthy op_lookup_def Let_def)
qed

lemma st_resolve_eq:
  assumes "healthy io" and "wf_store L st S" and "valid_batch is valid_instance"
  shows "st_resolve L st io is S =
     (Inr (map (\<lambda>i. \<lparr>cr_instance = i, cr_state = comet_status st (io_now io) S i\<rparr>) is), S)"
proof -
  obtain g where g: "\<And>i. resolve_one (store_env st) (io_now io) S i (ikey st i) = Inr (g i) \<and>
      resolve_item (g i) = Inr \<lparr>cr_instance = i, cr_state = comet_status st (io_now io) S i\<rparr>"
    using resolve_one_item [OF wf_storeD(3) [OF assms(2)], of "io_now io"] by metis
  have "collect (resolve_one (store_env st) (io_now io) S) (zip is (map (ikey st) is)) = Inr (map g is)"
    using g by (intro collect_map) simp
  moreover have "map_items resolve_item (map g is) =
      Inr (map (\<lambda>i. \<lparr>cr_instance = i, cr_state = comet_status st (io_now io) S i\<rparr>) is)"
    using g by (intro map_items_map) simp
  ultimately show ?thesis
    using assms(1,3) by (simp add: st_resolve_def run_script_healthy op_resolve_def Let_def)
qed

end
