(* ===== verification/Database.thy ===== *)
theory Database
  imports TaskCodec
begin

text \<open>
  The tables of the message database (internal/model) as the store reads and writes them, what is relied on of MySQL,
  and reading JSON text into Go values that ignore unknown members.
\<close>

section \<open>The database\<close>

text \<open>
  What the code relies on of MySQL beyond the conditions of its queries: the collation that compares text columns, and
  the document a JSON column gives back for the text stored in it.
\<close>

record dbms =
  db_same :: "string \<Rightarrow> string \<Rightarrow> bool"
  db_json :: "string \<Rightarrow> string"

record user_row =
  us_uuid :: string
  us_nick :: string
  us_phone :: string
  us_hash :: string

record session_row =
  se_uuid :: string
  se_send :: string
  se_receive :: string
  se_type :: int
  se_created :: int

record group_row =
  gr_uuid :: string
  gr_name :: string
  gr_owner :: string
  gr_members :: string
  gr_admins :: string
  gr_count :: int
  gr_mode :: int
  gr_status :: int
  gr_deleted :: bool

record access_row =
  ac_user :: string
  ac_session :: string

record contact_row =
  ct_user :: string
  ct_contact :: string
  ct_type :: int
  ct_status :: int

record apply_row =
  ap_applicant :: string
  ap_contact :: string
  ap_type :: int
  ap_status :: int

record message_row =
  ms_id :: int
  ms_uuid :: string
  ms_session :: string
  ms_type :: int
  ms_content :: string
  ms_origin :: int
  ms_send :: string
  ms_receive :: string
  ms_created :: int
  ms_client :: string
  ms_print :: string
  ms_recipients :: string

record db =
  db_users :: "user_row list"
  db_sessions :: "session_row list"
  db_groups :: "group_row list"
  db_access :: "access_row list"
  db_contacts :: "contact_row list"
  db_applies :: "apply_row list"
  db_messages :: "message_row list"
  db_next :: int

section \<open>Reading JSON text\<close>

text \<open>\<open>json.Unmarshal\<close> into a slice of strings that is nil.\<close>

definition unmarshal_strings :: "string \<Rightarrow> string list option option" where
  "unmarshal_strings raw = (case json_text raw of None \<Rightarrow> None | Some v \<Rightarrow> decode_slice decode_string [] v None)"

definition strings_json :: "string list \<Rightarrow> string" where
  "strings_json xs = json_print (JArr (map json_string xs))"

text \<open>
  The documentation: a collation is an equivalence that refines nothing the code writes in canonical form
  (equal text is equal), and a JSON column keeps an array of strings.
\<close>

definition dbms_documented :: "dbms \<Rightarrow> bool" where
  "dbms_documented D =
     ((\<forall>x. db_same D x x) \<and> (\<forall>x y. db_same D x y \<longrightarrow> db_same D y x) \<and>
      (\<forall>x y z. db_same D x y \<longrightarrow> db_same D y z \<longrightarrow> db_same D x z) \<and>
      (\<forall>xs. list_all utf8_valid xs \<longrightarrow> unmarshal_strings (db_json D (strings_json xs)) = Some (Some xs)))"

text \<open>\<open>json.Unmarshal\<close> into a struct ignores members it has no field for.\<close>

fun decode_known ::
  "(string \<times> (json \<Rightarrow> 'r \<Rightarrow> 'r option)) list \<Rightarrow> (string \<times> json) list \<Rightarrow> 'r \<Rightarrow> 'r option" where
  "decode_known fs [] r = Some r"
| "decode_known fs ((k, v) # ms) r =
     (case find_field fs (unquote k) of
        None \<Rightarrow> decode_known fs ms r
      | Some f \<Rightarrow> (case f v r of None \<Rightarrow> None | Some r' \<Rightarrow> decode_known fs ms r'))"

definition unmarshal_struct :: "(string \<times> (json \<Rightarrow> 'r \<Rightarrow> 'r option)) list \<Rightarrow> string \<Rightarrow> 'r \<Rightarrow> 'r option" where
  "unmarshal_struct fs raw r =
     (case json_text raw of
        None \<Rightarrow> None
      | Some v \<Rightarrow> (case v of JNull \<Rightarrow> Some r | JObj ms \<Rightarrow> decode_known fs ms r | _ \<Rightarrow> None))"

definition decode_int64 :: "json \<Rightarrow> int \<Rightarrow> int option" where
  "decode_int64 v old = (case v of JNull \<Rightarrow> Some old | JNum n \<Rightarrow> parse_int64 n | _ \<Rightarrow> None)"

definition decode_int8 :: "json \<Rightarrow> int \<Rightarrow> int option" where
  "decode_int8 v old =
     (case v of
        JNull \<Rightarrow> Some old
      | JNum n \<Rightarrow> (case parse_int64 n of None \<Rightarrow> None | Some i \<Rightarrow> if - 128 \<le> i \<and> i < 128 then Some i else None)
      | _ \<Rightarrow> None)"

end
