(* ===== verification/MessageStore.thy ===== *)
theory MessageStore
  imports Database
begin

text \<open>
  Logic's message store (internal/logic/messagestore): the transaction that checks the sender, locks the conversation,
  replays or inserts the message (store.go, validation.go), and the queries of synchronisation (sync.go).
  The properties of saving: a resend is a replay, positions only grow, only members send.
\<close>

section \<open>Validation\<close>

datatype store_error = StInvalid | StForbidden | StConflict | StDatabase

record save_input =
  in_sender :: string
  in_client :: string
  in_dest :: "destination option"
  in_content :: string

definition validate_input :: "lib \<Rightarrow> save_input \<Rightarrow> store_error + unit" where
  "validate_input L i =
     (if \<not> valid_id L (in_sender i) (CHR ''U'') \<or> \<not> valid_uuid L (in_client i) \<or> in_dest i = None \<or> \<not> valid_text (in_content i)
      then Inl StInvalid
      else
        let d = the (in_dest i) in
        case d_type d of
          RECEIVE_TYPE_USER \<Rightarrow>
            if \<not> valid_id L (d_id d) (CHR ''U'') \<or> d_id d = in_sender i then Inl StInvalid else Inr ()
        | RECEIVE_TYPE_GROUP \<Rightarrow> if \<not> valid_id L (d_id d) (CHR ''G'') then Inl StInvalid else Inr ()
        | _ \<Rightarrow> Inl StInvalid)"

text \<open>Cursors.\<close>

record sync_cursor =
  sc_version :: int
  sc_conversation :: string
  sc_position :: string

definition cursor_json :: "sync_cursor \<Rightarrow> json" where
  "cursor_json c = JObj
     [(''v'', JNum (format_int (sc_version c))), (''conversation_id'', json_string (sc_conversation c)),
      (''after_position'', json_string (sc_position c))]"

definition encode_cursor :: "string \<Rightarrow> int \<Rightarrow> string" where
  "encode_cursor conversation after =
     b64_encode (json_print (cursor_json \<lparr>sc_version = 1, sc_conversation = conversation, sc_position = format_int after\<rparr>))"

definition cursor_fields :: "(string \<times> (json \<Rightarrow> sync_cursor \<Rightarrow> sync_cursor option)) list" where
  "cursor_fields =
     [(''v'', \<lambda>v c. map_option (\<lambda>n. c\<lparr>sc_version := n\<rparr>) (decode_int64 v (sc_version c))),
      (''conversation_id'', \<lambda>v c. map_option (\<lambda>s. c\<lparr>sc_conversation := s\<rparr>) (decode_string v (sc_conversation c))),
      (''after_position'', \<lambda>v c. map_option (\<lambda>s. c\<lparr>sc_position := s\<rparr>) (decode_string v (sc_position c)))]"

definition zero_cursor :: sync_cursor where
  "zero_cursor = \<lparr>sc_version = 0, sc_conversation = [], sc_position = []\<rparr>"

definition decode_cursor :: "string \<Rightarrow> string \<Rightarrow> store_error + int" where
  "decode_cursor conversation cursor =
     (if cursor = [] then Inr 0
      else case b64_decode cursor of
        None \<Rightarrow> Inl StInvalid
      | Some raw \<Rightarrow>
      case unmarshal_struct cursor_fields raw zero_cursor of
        None \<Rightarrow> Inl StInvalid
      | Some c \<Rightarrow>
        if sc_version c \<noteq> 1 \<or> sc_conversation c \<noteq> conversation then Inl StInvalid
        else case parse_int64 (sc_position c) of
          None \<Rightarrow> Inl StInvalid
        | Some after \<Rightarrow>
          if after \<le> 0 \<or> format_int after \<noteq> sc_position c \<or> encode_cursor conversation after \<noteq> cursor
          then Inl StInvalid else Inr after)"

text \<open>\<open>parseConversation\<close>: the session and whether it is a group.\<close>

definition parse_conversation :: "lib \<Rightarrow> string \<Rightarrow> store_error + (string \<times> bool)" where
  "parse_conversation L conversation =
     (if has_prefix conversation ''direct:'' \<and> valid_id L (trim_prefix conversation ''direct:'') (CHR ''S'')
      then Inr (trim_prefix conversation ''direct:'', False)
      else if has_prefix conversation ''group:'' \<and> valid_id L (trim_prefix conversation ''group:'') (CHR ''G'')
      then Inr (trim_prefix conversation ''group:'', True)
      else Inl StInvalid)"

section \<open>Rows\<close>

definition stored_view :: "lib \<Rightarrow> message_row \<Rightarrow> store_error + message_view" where
  "stored_view L r =
     (if ms_id r \<le> 0 \<or> \<not> valid_id L (ms_uuid r) (CHR ''M'') \<or> \<not> valid_id L (ms_send r) (CHR ''U'') \<or> \<not> valid_text (ms_content r) \<or>
         ms_type r \<noteq> 0 \<or> ms_created r = zero_ns
      then Inl StDatabase
      else if ms_origin r \<noteq> 0 \<and> ms_origin r \<noteq> 1 then Inl StDatabase
      else
        let origin = (if ms_origin r = 1 then MESSAGE_ORIGIN_AI else MESSAGE_ORIGIN_USER);
            view = (\<lambda>kind conversation.
              if \<not> ts_check L (ts_new (ms_created r)) then Inl StDatabase
              else Inr \<lparr>mv_id = ms_uuid r, mv_conversation = conversation, mv_session = ms_session r, mv_sender = ms_send r,
                mv_dest = Some \<lparr>d_type = kind, d_id = ms_receive r\<rparr>, mv_type = MESSAGE_TYPE_TEXT, mv_content = ms_content r,
                mv_origin = origin, mv_created = Some (ts_new (ms_created r)), mv_position = nat (ms_id r)\<rparr>)
        in
        if valid_id L (ms_session r) (CHR ''G'') then
          (if ms_receive r \<noteq> ms_session r then Inl StDatabase
           else view RECEIVE_TYPE_GROUP (''group:'' @ ms_session r))
        else if \<not> valid_id L (ms_session r) (CHR ''S'') \<or> \<not> valid_id L (ms_receive r) (CHR ''U'') \<or> ms_send r = ms_receive r
        then Inl StDatabase
        else view RECEIVE_TYPE_USER (''direct:'' @ ms_session r))"

definition sorted_unique :: "string list \<Rightarrow> string list" where
  "sorted_unique ids = remdups_adj (sort ids)"

definition decode_recipients :: "lib \<Rightarrow> string \<Rightarrow> store_error + string list" where
  "decode_recipients L raw =
     (case unmarshal_strings raw of
        Some (Some ids) \<Rightarrow>
          if ids = [] \<or> \<not> list_all (\<lambda>i. valid_id L i (CHR ''U'')) ids then Inl StDatabase
          else if sorted_unique ids \<noteq> ids then Inl StDatabase else Inr ids
      | _ \<Rightarrow> Inl StDatabase)"

text \<open>\<open>fingerprintV1\<close>.\<close>

definition fingerprint_json :: "destination \<Rightarrow> string \<Rightarrow> int \<Rightarrow> json" where
  "fingerprint_json d content origin = JObj
     [(''v'', JNum (format_int 1)),
      (''destination'', JObj
         [(''receive_type'', json_string (if d_type d = RECEIVE_TYPE_GROUP then ''group'' else ''user'')),
          (''receive_id'', json_string (d_id d))]),
      (''content'', json_string content), (''type'', json_string ''text''),
      (''origin'', json_string (if origin = 1 then ''ai'' else ''user''))]"

definition fingerprint_v1 :: "lib \<Rightarrow> save_input \<Rightarrow> int \<Rightarrow> string" where
  "fingerprint_v1 L i origin = sha256 L (json_print (fingerprint_json (the (in_dest i)) (in_content i) origin))"

section \<open>Queries\<close>

datatype db_query = QUser | QSession | QGroup | QAccess | QCount nat | QExisting | QCreate | QRows

text \<open>\<open>authorityError\<close> of a \<open>Take\<close>: no row is \<open>ErrForbidden\<close>, any other failure \<open>ErrDatabase\<close>.\<close>

definition take_row :: "bool \<Rightarrow> 'a option \<Rightarrow> store_error + 'a" where
  "take_row failed row = (if failed then Inl StDatabase else case row of None \<Rightarrow> Inl StForbidden | Some r \<Rightarrow> Inr r)"

definition lock_user :: "dbms \<Rightarrow> (db_query \<Rightarrow> bool) \<Rightarrow> db \<Rightarrow> string \<Rightarrow> store_error + user_row" where
  "lock_user D fault S user = take_row (fault QUser) (List.find (\<lambda>r. db_same D (us_uuid r) user) (db_users S))"

definition direct_row :: "dbms \<Rightarrow> string \<Rightarrow> string \<Rightarrow> string \<Rightarrow> session_row \<Rightarrow> bool" where
  "direct_row D user peer sid r =
     (se_type r = 0 \<and>
      (if sid \<noteq> [] then db_same D (se_uuid r) sid
       else db_same D (se_send r) user \<and> db_same D (se_receive r) peer \<or>
            db_same D (se_send r) peer \<and> db_same D (se_receive r) user))"

definition lock_direct :: "lib \<Rightarrow> dbms \<Rightarrow> (db_query \<Rightarrow> bool) \<Rightarrow> db \<Rightarrow> string \<Rightarrow> string \<Rightarrow> string \<Rightarrow> store_error + session_row" where
  "lock_direct L D fault S user peer sid =
     bindE (take_row (fault QSession) (List.find (direct_row D user peer sid) (db_sessions S))) (\<lambda>r.
       if \<not> valid_id L (se_uuid r) (CHR ''S'') \<or> \<not> valid_id L (se_send r) (CHR ''U'') \<or>
          \<not> valid_id L (se_receive r) (CHR ''U'') \<or> se_send r = se_receive r
       then Inl StDatabase
       else if se_send r \<noteq> user \<and> se_receive r \<noteq> user then Inl StForbidden
       else Inr r)"

definition lock_group ::
  "lib \<Rightarrow> dbms \<Rightarrow> (db_query \<Rightarrow> bool) \<Rightarrow> db \<Rightarrow> string \<Rightarrow> string \<Rightarrow> store_error + (group_row \<times> string list)" where
  "lock_group L D fault S user gid =
     bindE (take_row (fault QGroup) (List.find (\<lambda>r. db_same D (gr_uuid r) gid \<and> \<not> gr_deleted r) (db_groups S))) (\<lambda>g.
       if gr_status g \<noteq> 0 then Inl StForbidden
       else case unmarshal_strings (gr_members g) of
              Some (Some members) \<Rightarrow>
                if members = [] then Inl StDatabase
                else if \<not> list_all (\<lambda>m. valid_id L m (CHR ''U'')) members then Inl StDatabase
                else if user \<notin> set members then Inl StForbidden
                else Inr (g, sorted_unique members)
            | _ \<Rightarrow> Inl StDatabase)"

text \<open>\<open>requireUsers\<close>: the rows are counted in groups of 100 identifiers.\<close>

definition count_users :: "dbms \<Rightarrow> db \<Rightarrow> string list \<Rightarrow> nat" where
  "count_users D S ids = length (filter (\<lambda>r. \<exists>i \<in> set ids. db_same D (us_uuid r) i) (db_users S))"

function require_users :: "dbms \<Rightarrow> (db_query \<Rightarrow> bool) \<Rightarrow> nat \<Rightarrow> db \<Rightarrow> string list \<Rightarrow> store_error + unit" where
  "require_users D fault k S ids =
     (if ids = [] then Inr ()
      else if fault (QCount k) then Inl StDatabase
      else if count_users D S (take 100 ids) \<noteq> length (take 100 ids) then Inl StForbidden
      else require_users D fault (Suc k) S (drop 100 ids))"
  by auto
termination by (relation "measure (\<lambda>(D, fault, k, S, ids). length ids)") auto

declare require_users.simps [simp del]

section \<open>Saving\<close>

record saved =
  sd_message :: message_view
  sd_recipients :: "string list"
  sd_replayed :: bool

text \<open>How the transaction ended: an error of the commit leaves open whether it took effect.\<close>

datatype commit_fate = Committed | CommitRefused | CommitUnknown

record save_env =
  sv_db :: bool
  sv_fault :: "db_query \<Rightarrow> bool"
  sv_uuid :: string
  sv_now :: int
  sv_gap :: nat
  sv_commit :: commit_fate

text \<open>Who may send, where to, and to whom it is delivered: the session, the destination and the recipients.\<close>

definition authorize_ai ::
  "lib \<Rightarrow> dbms \<Rightarrow> (db_query \<Rightarrow> bool) \<Rightarrow> db \<Rightarrow> string \<Rightarrow> string \<Rightarrow> store_error + (string \<times> destination \<times> string list)" where
  "authorize_ai L D fault S sender session =
     bindE (lock_direct L D fault S sender [] session) (\<lambda>r.
       let peer = (if se_send r = sender then se_receive r else se_send r) in
       bindE (take_row (fault QAccess)
                (List.find (\<lambda>a. db_same D (ac_user a) sender \<and> db_same D (ac_session a) (se_uuid r)) (db_access S)))
         (\<lambda>_. Inr (se_uuid r, \<lparr>d_type = RECEIVE_TYPE_USER, d_id = peer\<rparr>, [sender, peer])))"

definition authorize_user ::
  "lib \<Rightarrow> dbms \<Rightarrow> (db_query \<Rightarrow> bool) \<Rightarrow> db \<Rightarrow> string \<Rightarrow> destination \<Rightarrow> store_error + (string \<times> destination \<times> string list)" where
  "authorize_user L D fault S sender d =
     (if d_type d = RECEIVE_TYPE_GROUP then
        bindE (lock_group L D fault S sender (d_id d)) (\<lambda>(g, members). Inr (gr_uuid g, d, members))
      else
        bindE (lock_direct L D fault S sender (d_id d) []) (\<lambda>r. Inr (se_uuid r, d, [sender, d_id d])))"

text \<open>A row of the client's key that is there already.\<close>

definition replay_row :: "lib \<Rightarrow> message_row \<Rightarrow> string \<Rightarrow> store_error + saved" where
  "replay_row L r print =
     (if ms_print r \<noteq> print then Inl StConflict
      else
        bindE (decode_recipients L (ms_recipients r)) (\<lambda>ids.
        bindE (stored_view L r) (\<lambda>v. Inr \<lparr>sd_message = v, sd_recipients = ids, sd_replayed = True\<rparr>)))"

definition existing_row :: "dbms \<Rightarrow> db \<Rightarrow> string \<Rightarrow> string \<Rightarrow> message_row option" where
  "existing_row D S sender client =
     List.find (\<lambda>m. db_same D (ms_send m) sender \<and> db_same D (ms_client m) client) (db_messages S)"

text \<open>\<open>Create\<close>: the unique keys on the identifier and on sender and client identifier are checked.\<close>

definition create_row :: "dbms \<Rightarrow> save_env \<Rightarrow> message_row \<Rightarrow> db \<Rightarrow> store_error + (message_row \<times> db)" where
  "create_row D env r S =
     (if sv_fault env QCreate \<or> (\<exists>m \<in> set (db_messages S). db_same D (ms_uuid m) (ms_uuid r)) \<or>
         existing_row D S (ms_send r) (ms_client r) \<noteq> None
      then Inl StDatabase
      else
        let i = db_next S + int (sv_gap env); r' = r\<lparr>ms_id := i\<rparr> in
        Inr (r', S\<lparr>db_messages := db_messages S @ [r'\<lparr>ms_recipients := db_json D (ms_recipients r)\<rparr>], db_next := i + 1\<rparr>))"

definition new_row :: "lib \<Rightarrow> save_env \<Rightarrow> save_input \<Rightarrow> int \<Rightarrow> string \<Rightarrow> destination \<Rightarrow> string list \<Rightarrow> string \<Rightarrow> message_row" where
  "new_row L env i origin sid d recipients print =
     \<lparr>ms_id = 0, ms_uuid = CHR ''M'' # sv_uuid env, ms_session = sid, ms_type = 0, ms_content = in_content i, ms_origin = origin,
      ms_send = in_sender i, ms_receive = d_id d, ms_created = sv_now env - sv_now env mod 1000, ms_client = in_client i,
      ms_print = print, ms_recipients = strings_json recipients\<rparr>"

text \<open>The body of the transaction of \<open>save\<close>.\<close>

definition save_body ::
  "lib \<Rightarrow> dbms \<Rightarrow> save_env \<Rightarrow> save_input \<Rightarrow> string \<Rightarrow> int \<Rightarrow> db \<Rightarrow> store_error + (saved \<times> db)" where
  "save_body L D env i session origin S =
     bindE (lock_user D (sv_fault env) S (in_sender i)) (\<lambda>_.
     bindE (if session \<noteq> [] then authorize_ai L D (sv_fault env) S (in_sender i) session
            else authorize_user L D (sv_fault env) S (in_sender i) (the (in_dest i))) (\<lambda>(sid, d, who).
       let recipients = sorted_unique who in
       bindE (require_users D (sv_fault env) 0 S recipients) (\<lambda>_.
         let print = fingerprint_v1 L (i\<lparr>in_dest := Some d\<rparr>) origin in
         if sv_fault env QExisting then Inl StDatabase
         else case existing_row D S (in_sender i) (in_client i) of
           Some r \<Rightarrow> bindE (replay_row L r print) (\<lambda>s. Inr (s, S))
         | None \<Rightarrow>
           bindE (create_row D env (new_row L env i origin sid d recipients print) S) (\<lambda>(r, S').
           bindE (stored_view L r) (\<lambda>v. Inr (\<lparr>sd_message = v, sd_recipients = recipients, sd_replayed = False\<rparr>, S'))))))"

text \<open>The transaction: an error rolls back, and the fate of the commit decides the rest.\<close>

definition save_tx ::
  "lib \<Rightarrow> dbms \<Rightarrow> save_env \<Rightarrow> save_input \<Rightarrow> string \<Rightarrow> int \<Rightarrow> db \<Rightarrow> (store_error + saved) \<times> db" where
  "save_tx L D env i session origin S =
     (if \<not> sv_db env then (Inl StDatabase, S)
      else case save_body L D env i session origin S of
        Inl e \<Rightarrow> (Inl e, S)
      | Inr (s, S') \<Rightarrow>
        (case sv_commit env of
           Committed \<Rightarrow> (Inr s, S')
         | CommitRefused \<Rightarrow> (Inl StDatabase, S)
         | CommitUnknown \<Rightarrow> (Inl StDatabase, S')))"

text \<open>\<open>Save\<close> and \<open>SaveAI\<close>.\<close>

definition save_message :: "lib \<Rightarrow> dbms \<Rightarrow> save_env \<Rightarrow> save_input \<Rightarrow> db \<Rightarrow> (store_error + saved) \<times> db" where
  "save_message L D env i S =
     (case validate_input L i of Inl e \<Rightarrow> (Inl e, S) | Inr _ \<Rightarrow> save_tx L D env i [] 0 S)"

definition save_ai :: "lib \<Rightarrow> dbms \<Rightarrow> save_env \<Rightarrow> string \<Rightarrow> string \<Rightarrow> string \<Rightarrow> string \<Rightarrow> db \<Rightarrow> (store_error + saved) \<times> db" where
  "save_ai L D env user session client content S =
     (let u = trim_space user; s = trim_space session; c = trim_space content in
      if \<not> valid_id L u (CHR ''U'') \<or> \<not> valid_id L s (CHR ''S'') \<or> \<not> valid_uuid L client \<or> \<not> valid_text c \<or> 4000 < rune_count c
      then (Inl StInvalid, S)
      else save_tx L D env \<lparr>in_sender = u, in_client = client, in_dest = None, in_content = c\<rparr> s 1 S)"

section \<open>Synchronisation\<close>

record sync_page =
  sy_conversation :: string
  sy_messages :: "im_message list"
  sy_next :: string
  sy_more :: bool

record sync_env =
  sn_db :: bool
  sn_fault :: "db_query \<Rightarrow> bool"
  sn_commit :: commit_fate

text \<open>The rows of a session after a position, in the order of their identifiers.\<close>

definition rows_after :: "dbms \<Rightarrow> db \<Rightarrow> string \<Rightarrow> int \<Rightarrow> message_row list" where
  "rows_after D S sid after = sort_key ms_id (filter (\<lambda>m. db_same D (ms_session m) sid \<and> after < ms_id m) (db_messages S))"

fun collect_page :: "lib \<Rightarrow> string \<Rightarrow> message_row list \<Rightarrow> sync_page \<Rightarrow> store_error + sync_page" where
  "collect_page L conversation [] p = Inr p"
| "collect_page L conversation (r # rs) p =
     bindE (stored_view L r) (\<lambda>v.
       collect_page L conversation rs
         (p\<lparr>sy_messages := sy_messages p @ [public_message v], sy_next := encode_cursor conversation (ms_id r)\<rparr>))"

definition sync_messages ::
  "lib \<Rightarrow> dbms \<Rightarrow> sync_env \<Rightarrow> string \<Rightarrow> string \<Rightarrow> string \<Rightarrow> int \<Rightarrow> db \<Rightarrow> store_error + sync_page" where
  "sync_messages L D env user conversation cursor limit S =
     (if \<not> valid_id L user (CHR ''U'') \<or> limit < 0 \<or> 500 < limit then Inl StInvalid
      else
        bindE (parse_conversation L conversation) (\<lambda>(sid, group).
        bindE (decode_cursor conversation cursor) (\<lambda>after.
          if \<not> sn_db env then Inl StDatabase
          else
            let n = nat (if limit = 0 then 100 else limit) in
            bindE (lock_user D (sn_fault env) S user) (\<lambda>_.
            bindE (if group then bindE (lock_group L D (sn_fault env) S user sid) (\<lambda>_. Inr ())
                   else bindE (lock_direct L D (sn_fault env) S user [] sid) (\<lambda>_. Inr ())) (\<lambda>_.
              if sn_fault env QRows then Inl StDatabase
              else
                let rows = take (n + 1) (rows_after D S sid after) in
                bindE (collect_page L conversation (take n rows)
                  \<lparr>sy_conversation = conversation, sy_messages = [], sy_next = cursor, sy_more = n < length rows\<rparr>) (\<lambda>p.
                  if sn_commit env = Committed then Inr p else Inl StDatabase))))))"

section \<open>Views of stored messages\<close>

lemma stored_view_Inr:
  assumes "stored_view L r = Inr v"
  shows "0 < ms_id r \<and> valid_id L (ms_uuid r) (CHR ''M'') \<and> valid_id L (ms_send r) (CHR ''U'') \<and> valid_text (ms_content r) \<and>
    ms_created r \<noteq> zero_ns \<and> ts_check L (ts_new (ms_created r)) \<and> ms_origin r \<in> {0, 1} \<and>
    (valid_id L (ms_session r) (CHR ''G'') \<and> ms_receive r = ms_session r \<or>
     valid_id L (ms_session r) (CHR ''S'') \<and> \<not> valid_id L (ms_session r) (CHR ''G'') \<and> valid_id L (ms_receive r) (CHR ''U'') \<and> ms_send r \<noteq> ms_receive r) \<and>
    v = \<lparr>mv_id = ms_uuid r,
         mv_conversation = (if valid_id L (ms_session r) (CHR ''G'') then ''group:'' else ''direct:'') @ ms_session r,
         mv_session = ms_session r, mv_sender = ms_send r,
         mv_dest = Some \<lparr>d_type = (if valid_id L (ms_session r) (CHR ''G'') then RECEIVE_TYPE_GROUP else RECEIVE_TYPE_USER), d_id = ms_receive r\<rparr>,
         mv_type = MESSAGE_TYPE_TEXT, mv_content = ms_content r,
         mv_origin = (if ms_origin r = 1 then MESSAGE_ORIGIN_AI else MESSAGE_ORIGIN_USER),
         mv_created = Some (ts_new (ms_created r)), mv_position = nat (ms_id r)\<rparr>"
  using assms by (auto simp: stored_view_def Let_def split: if_splits)

text \<open>What Logic stores, Job's check of a task's message accepts, and reads as the same view.\<close>

lemma stored_view_job:
  assumes "stored_view L r = Inr v" and "ms_id r < 2 ^ 63"
  shows "message_view_of L (public_message v) = Some v"
proof -
  note s = stored_view_Inr [OF assms(1)]
  have p: "parse_int64 (format_int (ms_id r)) = Some (ms_id r)" using s assms(2) by (intro parse_int64_format_int) simp_all
  have f: "format_nat (nat (ms_id r)) = format_int (ms_id r)" using s by (simp add: format_int_def)
  have g: "valid_id L (ms_session r) (CHR ''G'') \<Longrightarrow> \<not> valid_id L (ms_session r) (CHR ''S'')"
    using valid_id_unique_prefix by fastforce
  show ?thesis
    using s p g by (auto simp: message_view_of_def public_message_def f Let_def is_zero_time_def)
qed

lemma stored_view_recipients: "stored_view L (r\<lparr>ms_recipients := x\<rparr>) = stored_view L r"
  by (simp add: stored_view_def)

section \<open>Sorted recipients\<close>

lemma sorted_unique_set [simp]: "set (sorted_unique xs) = set xs"
  by (simp add: sorted_unique_def)

lemma sorted_distinct_adj: "sorted xs \<Longrightarrow> distinct (remdups_adj xs)"
  by (induction xs rule: remdups_adj.induct) auto

lemma sorted_unique_sorted: "sorted (sorted_unique xs) \<and> distinct (sorted_unique xs)"
  by (simp add: sorted_unique_def sorted_distinct_adj)

lemma sorted_unique_strict: "strict_sorted (sorted_unique xs)"
  using sorted_unique_sorted by (simp add: strict_sorted_iff)

lemma sorted_unique_id: "strict_sorted xs \<Longrightarrow> sorted_unique xs = xs"
  by (rule strict_sorted_unique) (simp_all add: sorted_unique_strict)

lemma sorted_unique_Nil [simp]: "sorted_unique xs = [] \<longleftrightarrow> xs = []"
  using sorted_unique_set [of xs] by (metis empty_set set_empty)

lemma decode_recipients_stored:
  assumes "dbms_documented D" "uuid_documented L" "list_all (\<lambda>i. valid_id L i (CHR ''U'')) ids" "ids \<noteq> []" "strict_sorted ids"
  shows "decode_recipients L (db_json D (strings_json ids)) = Inr ids"
proof -
  have "list_all utf8_valid ids" using assms(2,3) bare_id bare_ascii by (fastforce simp: list_all_iff)
  then have "unmarshal_strings (db_json D (strings_json ids)) = Some (Some ids)" using assms(1) by (simp add: dbms_documented_def)
  then show ?thesis using assms by (simp add: decode_recipients_def sorted_unique_id)
qed

section \<open>What a save does to the tables\<close>

lemma find_append: "List.find P (xs @ ys) = (case List.find P xs of None \<Rightarrow> List.find P ys | Some x \<Rightarrow> Some x)"
  by (induction xs) auto

definition grows :: "db \<Rightarrow> db \<Rightarrow> bool" where
  "grows S S' = (\<exists>new. db_messages S' = db_messages S @ new)"

lemma grows_refl [simp]: "grows S S"
  by (simp add: grows_def)

lemma grows_trans: "grows S S1 \<Longrightarrow> grows S1 S2 \<Longrightarrow> grows S S2"
  by (auto simp: grows_def)

lemma grows_existing: "grows S S' \<Longrightarrow> existing_row D S s c = Some r \<Longrightarrow> existing_row D S' s c = Some r"
  by (auto simp: grows_def existing_row_def find_append)

lemma create_row_Inr:
  assumes "create_row D env r S = Inr (r', S')"
  shows "r' = r\<lparr>ms_id := db_next S + int (sv_gap env)\<rparr> \<and>
    S' = S\<lparr>db_messages := db_messages S @ [r'\<lparr>ms_recipients := db_json D (ms_recipients r)\<rparr>], db_next := db_next S + int (sv_gap env) + 1\<rparr>"
  using assms by (auto simp: create_row_def Let_def split: if_splits)

text \<open>The authorisation a save needs: where the message goes and who gets it.\<close>

definition authorized ::
  "lib \<Rightarrow> dbms \<Rightarrow> db \<Rightarrow> string \<Rightarrow> string \<times> destination \<times> string list \<Rightarrow> bool" where
  "authorized L D S sender = (\<lambda>(sid, d, who).
     sender \<in> set who \<and>
     (if d_type d = RECEIVE_TYPE_GROUP then
        \<exists>g ms. g \<in> set (db_groups S) \<and> db_same D (gr_uuid g) (d_id d) \<and> gr_uuid g = sid \<and> \<not> gr_deleted g \<and> gr_status g = 0 \<and>
          unmarshal_strings (gr_members g) = Some (Some ms) \<and> set who = set ms \<and> list_all (\<lambda>m. valid_id L m (CHR ''U'')) ms
      else
        \<exists>r. r \<in> set (db_sessions S) \<and> se_type r = 0 \<and> se_uuid r = sid \<and> valid_id L sid (CHR ''S'') \<and> who = [sender, d_id d] \<and>
          (se_send r = sender \<or> se_receive r = sender)))"

lemma take_row_Inr: "take_row f x = Inr y \<longleftrightarrow> \<not> f \<and> x = Some y"
  by (auto simp: take_row_def split: option.splits)

lemma lock_direct_Inr:
  assumes "lock_direct L D fault S user peer sid = Inr r"
  shows "r \<in> set (db_sessions S)" "direct_row D user peer sid r" "valid_id L (se_uuid r) (CHR ''S'')" "valid_id L (se_send r) (CHR ''U'')"
    "valid_id L (se_receive r) (CHR ''U'')" "se_send r \<noteq> se_receive r" "se_send r = user \<or> se_receive r = user"
  using assms by (auto simp: lock_direct_def bindE_eq_Inr take_row_Inr dest: find_SomeD split: if_splits)

lemma lock_group_Inr:
  assumes "lock_group L D fault S user gid = Inr (g, who)"
  obtains ms where "g \<in> set (db_groups S)" "db_same D (gr_uuid g) gid" "\<not> gr_deleted g" "gr_status g = 0"
    "unmarshal_strings (gr_members g) = Some (Some ms)" "list_all (\<lambda>m. valid_id L m (CHR ''U'')) ms" "user \<in> set ms" "who = sorted_unique ms"
  using assms by (auto simp: lock_group_def bindE_eq_Inr take_row_Inr dest!: find_SomeD split: if_splits option.splits)

lemma authorize_ai_Inr:
  assumes "authorize_ai L D fault S sender session = Inr x" shows "authorized L D S sender x"
proof -
  obtain r where r: "lock_direct L D fault S sender [] session = Inr r"
    and x: "x = (se_uuid r, \<lparr>d_type = RECEIVE_TYPE_USER, d_id = (if se_send r = sender then se_receive r else se_send r)\<rparr>,
      [sender, if se_send r = sender then se_receive r else se_send r])"
    using assms by (auto simp: authorize_ai_def bindE_eq_Inr Let_def)
  note f = lock_direct_Inr [OF r]
  show ?thesis unfolding x using f by (auto simp: authorized_def direct_row_def)
qed

lemma authorize_user_Inr:
  assumes "authorize_user L D fault S sender d = Inr x" shows "authorized L D S sender x \<and> fst (snd x) = d"
proof (cases "d_type d = RECEIVE_TYPE_GROUP")
  case True
  then obtain g who where g: "lock_group L D fault S sender (d_id d) = Inr (g, who)" "x = (gr_uuid g, d, who)"
    using assms by (auto simp: authorize_user_def bindE_eq_Inr)
  from g(1) show ?thesis
    by (rule lock_group_Inr) (auto simp: g(2) authorized_def True)
next
  case False
  then obtain r where r: "lock_direct L D fault S sender (d_id d) [] = Inr r" "x = (se_uuid r, d, [sender, d_id d])"
    using assms by (auto simp: authorize_user_def bindE_eq_Inr)
  then show ?thesis using lock_direct_Inr [OF r(1)] False by (auto simp: authorized_def direct_row_def)
qed

lemma save_body_cases:
  assumes "save_body L D env i session origin S = Inr (s, S')"
  obtains (replay) sid d who r print where "authorized L D S (in_sender i) (sid, d, who)" "session = [] \<Longrightarrow> d = the (in_dest i)"
      "require_users D (sv_fault env) 0 S (sorted_unique who) = Inr ()"
      "print = fingerprint_v1 L (i\<lparr>in_dest := Some d\<rparr>) origin"
      "existing_row D S (in_sender i) (in_client i) = Some r" "replay_row L r print = Inr s" "S' = S"
  | (fresh) sid d who r v print where "authorized L D S (in_sender i) (sid, d, who)" "session = [] \<Longrightarrow> d = the (in_dest i)"
      "require_users D (sv_fault env) 0 S (sorted_unique who) = Inr ()"
      "print = fingerprint_v1 L (i\<lparr>in_dest := Some d\<rparr>) origin"
      "existing_row D S (in_sender i) (in_client i) = None"
      "create_row D env (new_row L env i origin sid d (sorted_unique who) print) S = Inr (r, S')" "stored_view L r = Inr v"
      "s = \<lparr>sd_message = v, sd_recipients = sorted_unique who, sd_replayed = False\<rparr>"
proof -
  obtain sid d who where a: "(if session \<noteq> [] then authorize_ai L D (sv_fault env) S (in_sender i) session
            else authorize_user L D (sv_fault env) S (in_sender i) (the (in_dest i))) = Inr (sid, d, who)"
    and q: "require_users D (sv_fault env) 0 S (sorted_unique who) = Inr ()"
    and rest: "(case existing_row D S (in_sender i) (in_client i) of
           Some r \<Rightarrow> bindE (replay_row L r (fingerprint_v1 L (i\<lparr>in_dest := Some d\<rparr>) origin)) (\<lambda>s. Inr (s, S))
         | None \<Rightarrow>
           bindE (create_row D env (new_row L env i origin sid d (sorted_unique who) (fingerprint_v1 L (i\<lparr>in_dest := Some d\<rparr>) origin)) S) (\<lambda>(r, S').
           bindE (stored_view L r) (\<lambda>v. Inr (\<lparr>sd_message = v, sd_recipients = sorted_unique who, sd_replayed = False\<rparr>, S')))) = Inr (s, S')"
    using assms unfolding save_body_def Let_def
    by (auto simp: bindE_eq_Inr split: if_splits prod.splits)
  have au: "authorized L D S (in_sender i) (sid, d, who)" "session = [] \<Longrightarrow> d = the (in_dest i)"
    using a authorize_ai_Inr authorize_user_Inr by (auto split: if_splits)
  show thesis
  proof (cases "existing_row D S (in_sender i) (in_client i)")
    case (Some r)
    then have "replay_row L r (fingerprint_v1 L (i\<lparr>in_dest := Some d\<rparr>) origin) = Inr s \<and> S' = S" using rest by (auto simp: bindE_eq_Inr)
    then show thesis using replay au q Some by blast
  next
    case None
    then show thesis using rest fresh [OF au q refl None] by (auto simp: bindE_eq_Inr split: prod.splits)
  qed
qed

section \<open>Saving once\<close>

lemma valid_snapshot:
  assumes "authorized L D S sender (sid, d, who)" "valid_id L sender (CHR ''U'')"
    and "d_type d \<noteq> RECEIVE_TYPE_GROUP \<Longrightarrow> valid_id L (d_id d) (CHR ''U'')"
  shows "list_all (\<lambda>i. valid_id L i (CHR ''U'')) (sorted_unique who) \<and> sorted_unique who \<noteq> [] \<and> strict_sorted (sorted_unique who) \<and>
    sender \<in> set (sorted_unique who)"
  using assms sorted_unique_strict by (auto simp: authorized_def list_all_iff split: if_splits)

lemma same_refl: "dbms_documented D \<Longrightarrow> db_same D x x"
  by (simp add: dbms_documented_def)

text \<open>A saved message is in the table, and its row is what a later save of the same key replays.\<close>

lemma save_body_stored:
  assumes docs: "dbms_documented D" "uuid_documented L" and b: "save_body L D env i session origin S = Inr (s, S')"
    and s: "valid_id L (in_sender i) (CHR ''U'')"
  shows "grows S S' \<and> (\<exists>r d. existing_row D S' (in_sender i) (in_client i) = Some r \<and>
    (session = [] \<longrightarrow> d = the (in_dest i)) \<and>
    replay_row L r (fingerprint_v1 L (i\<lparr>in_dest := Some d\<rparr>) origin) = Inr (s\<lparr>sd_replayed := True\<rparr>))"
  using b
proof (cases rule: save_body_cases)
  case (replay sid d who r print)
  then have "replay_row L r print = Inr (s\<lparr>sd_replayed := True\<rparr>)"
    by (auto simp: replay_row_def bindE_eq_Inr split: if_splits)
  with replay show ?thesis by auto
next
  case (fresh sid d who r v print)
  note c = create_row_Inr [OF fresh(6)]
  let ?r = "r\<lparr>ms_recipients := db_json D (strings_json (sorted_unique who))\<rparr>"
  have new: "ms_recipients (new_row L env i origin sid d (sorted_unique who) print) = strings_json (sorted_unique who)"
    by (simp add: new_row_def)
  have r: "ms_print r = print" "ms_send r = in_sender i" "ms_client r = in_client i" "ms_session r = sid" "ms_receive r = d_id d"
    using c by (simp_all add: new_row_def)
  have row: "existing_row D S' (in_sender i) (in_client i) = Some ?r"
    using c new fresh(5) r same_refl [OF docs(1)] by (simp add: existing_row_def find_append)
  have "valid_id L (d_id d) (CHR ''U'')" if "d_type d \<noteq> RECEIVE_TYPE_GROUP"
  proof -
    have "valid_id L sid (CHR ''S'')" using fresh(1) that by (auto simp: authorized_def)
    then have "\<not> valid_id L sid (CHR ''G'')" using valid_id_unique_prefix by fastforce
    then show ?thesis using stored_view_Inr [OF fresh(7)] r by auto
  qed
  note snap = valid_snapshot [OF fresh(1) s this]
  have "decode_recipients L (db_json D (strings_json (sorted_unique who))) = Inr (sorted_unique who)"
    using snap by (intro decode_recipients_stored [OF docs]) auto
  then have "replay_row L ?r print = Inr (s\<lparr>sd_replayed := True\<rparr>)"
    using fresh(7,8) r(1) by (simp add: replay_row_def stored_view_recipients)
  moreover have "grows S S'" using c by (auto simp: grows_def)
  ultimately show ?thesis using row fresh(2,4) by auto
qed

lemma save_tx_grows:
  assumes "dbms_documented D" "uuid_documented L" "valid_id L (in_sender i) (CHR ''U'')"
  shows "grows S (snd (save_tx L D env i session origin S))"
proof (cases "save_body L D env i session origin S")
  case (Inr p)
  obtain s S' where p: "p = (s, S')" by (cases p)
  from save_body_stored [OF assms(1,2) _ assms(3)] Inr p have "grows S S'" by blast
  then show ?thesis using Inr p by (auto simp: save_tx_def split: commit_fate.split)
qed (simp add: save_tx_def)

lemma validate_input_sender: "validate_input L i = Inr x \<Longrightarrow> valid_id L (in_sender i) (CHR ''U'') \<and> valid_text (in_content i) \<and> in_dest i \<noteq> None"
  by (auto simp: validate_input_def split: if_splits)

lemma save_message_grows: "dbms_documented D \<Longrightarrow> uuid_documented L \<Longrightarrow> grows S (snd (save_message L D env i S))"
  by (auto simp: save_message_def dest: validate_input_sender intro: save_tx_grows split: sum.splits)

lemma save_ai_grows: "dbms_documented D \<Longrightarrow> uuid_documented L \<Longrightarrow> grows S (snd (save_ai L D env u s c t S))"
  by (auto simp: save_ai_def Let_def intro: save_tx_grows)

text \<open>Whatever else runs between two sends: saves of anyone, and changes of the tables other services own.\<close>

inductive store_run :: "lib \<Rightarrow> dbms \<Rightarrow> db \<Rightarrow> db \<Rightarrow> bool" for L D S where
  start: "store_run L D S S"
| save: "store_run L D S S1 \<Longrightarrow> store_run L D S (snd (save_message L D env i S1))"
| ai: "store_run L D S S1 \<Longrightarrow> store_run L D S (snd (save_ai L D env u s c t S1))"
| other: "store_run L D S S1 \<Longrightarrow> db_messages S2 = db_messages S1 \<Longrightarrow> db_next S2 = db_next S1 \<Longrightarrow> store_run L D S S2"

lemma store_run_grows:
  assumes "store_run L D S S'" "dbms_documented D" "uuid_documented L" shows "grows S S'"
  using assms(1)
proof induction
  case (other S1 S2)
  then show ?case by (simp add: grows_def)
qed (auto intro: grows_trans save_message_grows [OF assms(2,3)] save_ai_grows [OF assms(2,3)])

section \<open>The message table\<close>

text \<open>Identifiers grow along the table, and no two rows share the unique keys.\<close>

definition messages_ok :: "dbms \<Rightarrow> db \<Rightarrow> bool" where
  "messages_ok D S =
     (sorted_wrt (<) (map ms_id (db_messages S)) \<and> (\<forall>m \<in> set (db_messages S). 0 < ms_id m \<and> ms_id m < db_next S) \<and> 0 < db_next S \<and>
      sorted_wrt (\<lambda>m m'. \<not> (db_same D (ms_send m') (ms_send m) \<and> db_same D (ms_client m') (ms_client m))) (db_messages S) \<and>
      sorted_wrt (\<lambda>m m'. \<not> db_same D (ms_uuid m) (ms_uuid m')) (db_messages S))"

lemma existing_None: "existing_row D S s c = None \<Longrightarrow> m \<in> set (db_messages S) \<Longrightarrow> \<not> (db_same D (ms_send m) s \<and> db_same D (ms_client m) c)"
  unfolding existing_row_def find_None_iff by blast

lemma same_sym:
  assumes "dbms_documented D" "db_same D x y" shows "db_same D y x"
proof -
  have "\<forall>x y. db_same D x y \<longrightarrow> db_same D y x"
    using assms(1) unfolding dbms_documented_def by (elim conjE)
  then show ?thesis using assms(2) by iprover
qed

lemma same_trans:
  assumes "dbms_documented D" "db_same D x y" "db_same D y z" shows "db_same D x z"
proof -
  have "\<forall>x y z. db_same D x y \<longrightarrow> db_same D y z \<longrightarrow> db_same D x z"
    using assms(1) unfolding dbms_documented_def by (elim conjE)
  then show ?thesis using assms(2,3) by iprover
qed

lemma create_row_ok:
  assumes "dbms_documented D" "messages_ok D S" "create_row D env r S = Inr (r', S')"
  shows "messages_ok D S'"
proof -
  note c = create_row_Inr [OF assms(3)]
  have n: "existing_row D S (ms_send r) (ms_client r) = None" "\<forall>m \<in> set (db_messages S). \<not> db_same D (ms_uuid m) (ms_uuid r)"
    using assms(3) by (auto simp: create_row_def split: if_splits)
  have k: "\<not> (db_same D (ms_send r) (ms_send m) \<and> db_same D (ms_client r) (ms_client m))" if "m \<in> set (db_messages S)" for m
    using existing_None [OF n(1) that] same_sym [OF assms(1)] by blast
  obtain x where x: "db_messages S' = db_messages S @ [x]" "ms_id x = db_next S + int (sv_gap env)" "ms_uuid x = ms_uuid r"
    "ms_send x = ms_send r" "ms_client x = ms_client r" "db_next S' = ms_id x + 1"
    using c by simp
  note ok = assms(2) [unfolded messages_ok_def]
  have "sorted_wrt (<) (map ms_id (db_messages S'))" using ok x(1,2) by (auto simp: sorted_wrt_append)
  moreover have "\<forall>m \<in> set (db_messages S'). 0 < ms_id m \<and> ms_id m < db_next S'" "0 < db_next S'" using ok x(1,2,6) by auto
  moreover have "sorted_wrt (\<lambda>m m'. \<not> (db_same D (ms_send m') (ms_send m) \<and> db_same D (ms_client m') (ms_client m))) (db_messages S')"
    using ok k unfolding x(1) by (simp add: sorted_wrt_append x(4,5))
  moreover have "sorted_wrt (\<lambda>m m'. \<not> db_same D (ms_uuid m) (ms_uuid m')) (db_messages S')"
    using ok n(2) unfolding x(1) by (simp add: sorted_wrt_append x(3))
  ultimately show ?thesis unfolding messages_ok_def by blast
qed

lemma save_tx_ok:
  assumes "dbms_documented D" "messages_ok D S" shows "messages_ok D (snd (save_tx L D env i session origin S))"
proof (cases "save_body L D env i session origin S")
  case (Inr p)
  obtain s S' where p: "p = (s, S')" by (cases p)
  have "messages_ok D S'" using Inr [unfolded p]
  proof (cases rule: save_body_cases)
    case (replay sid d who r print)
    then show ?thesis using assms(2) by simp
  next
    case (fresh sid d who r v print)
    then show ?thesis using create_row_ok [OF assms] by blast
  qed
  then show ?thesis using Inr p assms(2) by (auto simp: save_tx_def split: commit_fate.split)
qed (simp add: save_tx_def assms(2))

lemma store_run_ok:
  assumes "store_run L D S S'" "dbms_documented D" "messages_ok D S" shows "messages_ok D S'"
  using assms(1)
proof induction
  case (save S1 env i)
  then show ?case using save_tx_ok [OF assms(2)] by (auto simp: save_message_def split: sum.split)
next
  case (ai S1 env u s c t)
  then show ?case using save_tx_ok [OF assms(2)] by (auto simp: save_ai_def Let_def)
next
  case (other S1 S2)
  then show ?case by (simp add: messages_ok_def)
qed (simp add: assms(3))

section \<open>Recipients exist\<close>

definition users_unique :: "dbms \<Rightarrow> db \<Rightarrow> bool" where
  "users_unique D S = sorted_wrt (\<lambda>r r'. \<not> db_same D (us_uuid r) (us_uuid r')) (db_users S)"

lemma sorted_wrt_once:
  assumes "sorted_wrt (\<lambda>x y. \<not> P x y) xs" "\<And>x. P x x" "\<And>x y. P x y \<Longrightarrow> P y x"
  shows "distinct xs \<and> (\<forall>x \<in> set xs. \<forall>y \<in> set xs. P x y \<longrightarrow> x = y)"
  using assms(1)
proof (induction xs)
  case (Cons a xs)
  then show ?case using assms(2,3) by (auto; blast)
qed simp

lemma count_users_all:
  assumes docs: "dbms_documented D" and u: "users_unique D S" and c: "count_users D S ids = length ids" and i: "i \<in> set ids"
  shows "\<exists>r \<in> set (db_users S). db_same D (us_uuid r) i"
proof (rule ccontr)
  assume none: "\<not> (\<exists>r \<in> set (db_users S). db_same D (us_uuid r) i)"
  let ?rows = "filter (\<lambda>r. \<exists>i \<in> set ids. db_same D (us_uuid r) i) (db_users S)"
  have once: "distinct (db_users S) \<and> (\<forall>x \<in> set (db_users S). \<forall>y \<in> set (db_users S). db_same D (us_uuid x) (us_uuid y) \<longrightarrow> x = y)"
    using u same_refl [OF docs] same_sym [OF docs] unfolding users_unique_def by (intro sorted_wrt_once) auto
  define f :: "user_row \<Rightarrow> string" where "f r = (SOME j. j \<in> set ids \<and> db_same D (us_uuid r) j)" for r
  have f: "f r \<in> set ids \<and> db_same D (us_uuid r) (f r)" if "r \<in> set ?rows" for r
    using that someI_ex [of "\<lambda>j. j \<in> set ids \<and> db_same D (us_uuid r) j"] by (auto simp: f_def)
  have inj: "inj_on f (set ?rows)"
  proof (rule inj_onI)
    fix x y assume xy: "x \<in> set ?rows" "y \<in> set ?rows" "f x = f y"
    then have "db_same D (us_uuid x) (f x)" "db_same D (f x) (us_uuid y)" using f same_sym [OF docs] by metis+
    then have "db_same D (us_uuid x) (us_uuid y)" by (rule same_trans [OF docs])
    then show "x = y" using once xy by auto
  qed
  have "f ` set ?rows \<subset> set ids"
  proof (rule psubsetI)
    show "f ` set ?rows \<subseteq> set ids" using f by blast
    have "i \<notin> f ` set ?rows"
    proof
      assume "i \<in> f ` set ?rows"
      then obtain r where "r \<in> set ?rows" "i = f r" by blast
      then show False using f [of r] none by auto
    qed
    then show "f ` set ?rows \<noteq> set ids" using i by blast
  qed
  then have "card (f ` set ?rows) < card (set ids)" by (rule psubset_card_mono [OF List.finite_set])
  also have "\<dots> \<le> length ids" by (rule card_length)
  finally have "card (set ?rows) < length ids" by (simp only: card_image [OF inj])
  moreover have "card (set ?rows) = length ?rows" using once by (intro distinct_card) simp
  ultimately show False using c unfolding count_users_def by linarith
qed

lemma require_users_all:
  "require_users D fault k S ids = Inr () \<Longrightarrow> dbms_documented D \<Longrightarrow> users_unique D S \<Longrightarrow> i \<in> set ids \<Longrightarrow>
   \<exists>r \<in> set (db_users S). db_same D (us_uuid r) i"
proof (induction D fault k S ids rule: require_users.induct)
  case (1 D fault k S ids)
  have ne: "ids \<noteq> []" using 1(5) by auto
  have r: "count_users D S (take 100 ids) = length (take 100 ids)" "\<not> fault (QCount k)" "require_users D fault (Suc k) S (drop 100 ids) = Inr ()"
    using 1(2) ne by (subst (asm) require_users.simps; simp split: if_splits)+
  have "i \<in> set (take 100 ids) \<or> i \<in> set (drop 100 ids)" using 1(5) by (metis append_take_drop_id set_append UnE)
  then show ?case
  proof
    assume "i \<in> set (take 100 ids)"
    then show ?thesis using count_users_all [OF 1(3,4) r(1)] by blast
  next
    assume "i \<in> set (drop 100 ids)"
    then show ?thesis using 1(1) [OF ne r(2) _ r(3) 1(3,4)] r(1) by simp
  qed
qed

section \<open>Properties of saving\<close>

text \<open>C22. Sending is idempotent: once a send was answered with a saved message, then whatever else is saved and whatever else
  changes, another send with the same sender and client identifier stores nothing; if it is answered, it gets the same
  message and recipients, marked as replayed, and it only is when its content and destination have the same fingerprint.\<close>

theorem resends_are_replays:
  assumes "dbms_documented D" "uuid_documented L" "save_message L D env i S = (Inr a, S1)" "store_run L D S1 S2"
    and "save_message L D env' i' S2 = (r, S3)" "in_sender i' = in_sender i" "in_client i' = in_client i"
  shows "S3 = S2 \<and> (\<forall>b. r = Inr b \<longrightarrow> sd_replayed b \<and> sd_message b = sd_message a \<and> sd_recipients b = sd_recipients a \<and>
    fingerprint_v1 L i' 0 = fingerprint_v1 L i 0)"
proof -
  have v: "validate_input L i = Inr ()" "save_tx L D env i [] 0 S = (Inr a, S1)"
    using assms(3) by (auto simp: save_message_def split: sum.splits)
  have b: "save_body L D env i [] 0 S = Inr (a, S1)"
    using v(2) by (auto simp: save_tx_def split: if_splits sum.splits prod.splits commit_fate.splits)
  have p: "fingerprint_v1 L (j\<lparr>in_dest := Some (the (in_dest j))\<rparr>) 0 = fingerprint_v1 L j 0" for j
    by (simp add: fingerprint_v1_def)
  obtain row where row: "existing_row D S1 (in_sender i) (in_client i) = Some row"
    "replay_row L row (fingerprint_v1 L i 0) = Inr (a\<lparr>sd_replayed := True\<rparr>)"
    using save_body_stored [OF assms(1,2) b] validate_input_sender [OF v(1)] p by auto
  have e: "existing_row D S2 (in_sender i') (in_client i') = Some row"
    using grows_existing [OF store_run_grows [OF assms(4,1,2)] row(1)] assms(6,7) by simp
  have q: "ms_print row = fingerprint_v1 L i 0" using row(2) by (auto simp: replay_row_def split: if_splits)
  have body: "S' = S2 \<and> replay_row L row (fingerprint_v1 L i' 0) = Inr s"
    if "save_body L D env' i' [] 0 S2 = Inr (s, S')" for s S'
    using that by (cases rule: save_body_cases) (simp_all add: e p)
  have same: "sd_replayed s \<and> sd_message s = sd_message a \<and> sd_recipients s = sd_recipients a \<and> fingerprint_v1 L i' 0 = fingerprint_v1 L i 0"
    if "replay_row L row (fingerprint_v1 L i' 0) = Inr s" for s
    using that row(2) q by (cases a) (auto simp: replay_row_def bindE_eq_Inr split: if_splits)
  show ?thesis
  proof (cases "validate_input L i'")
    case (Inl x)
    then show ?thesis using assms(5) by (auto simp: save_message_def)
  next
    case (Inr x)
    then have "save_tx L D env' i' [] 0 S2 = (r, S3)" using assms(5) by (simp add: save_message_def)
    then show ?thesis using body same
      by (auto simp: save_tx_def split: if_splits sum.splits prod.splits commit_fate.splits)
  qed
qed

lemma save_body_direct:
  assumes "save_body L D env i [] origin S = Inr (s, S')" and "d_type (the (in_dest i)) \<noteq> RECEIVE_TYPE_GROUP"
  shows "\<exists>r. lock_direct L D (sv_fault env) S (in_sender i) (d_id (the (in_dest i))) [] = Inr r"
  using assms by (auto simp: save_body_def authorize_user_def bindE_eq_Inr)

text \<open>The session of a direct message is the one between the sender and the receiver.\<close>

lemma lock_direct_pair:
  assumes "dbms_documented D" and "lock_direct L D fault S user peer [] = Inr r"
  shows "r \<in> set (db_sessions S) \<and> se_type r = 0 \<and>
    (se_send r = user \<and> db_same D (se_receive r) peer \<or> se_receive r = user \<and> db_same D (se_send r) peer)"
proof -
  note l = lock_direct_Inr [OF assms(2)]
  note sym = same_sym [OF assms(1)] and tr = same_trans [OF assms(1)]
  have t: "se_type r = 0" and p: "db_same D (se_send r) user \<and> db_same D (se_receive r) peer \<or>
      db_same D (se_send r) peer \<and> db_same D (se_receive r) user"
    using l(2) by (simp_all add: direct_row_def)
  from p have "se_send r = user \<and> db_same D (se_receive r) peer \<or> se_receive r = user \<and> db_same D (se_send r) peer"
  proof
    assume a: "db_same D (se_send r) user \<and> db_same D (se_receive r) peer"
    show ?thesis
    proof (cases "se_send r = user")
      case False
      then have "se_receive r = user" using l(7) by simp
      then show ?thesis using a tr [of "se_send r" user peer] by simp
    qed (use a in simp)
  next
    assume a: "db_same D (se_send r) peer \<and> db_same D (se_receive r) user"
    show ?thesis
    proof (cases "se_receive r = user")
      case False
      then have "se_send r = user" using l(7) by simp
      then show ?thesis using a tr [of "se_receive r" user peer] by simp
    qed (use a in simp)
  qed
  then show ?thesis using t l(1) by blast
qed

text \<open>What a save that stores a message leaves in the table and answers.\<close>

lemma fresh_row:
  assumes docs: "dbms_documented D" "uuid_documented L" and v: "validate_input L i = Inr ()"
    and b: "save_body L D env i [] 0 S = Inr (a, S')" and n: "\<not> sd_replayed a"
  shows "\<exists>row. db_messages S' = db_messages S @ [row] \<and>
     ms_send row = in_sender i \<and> ms_client row = in_client i \<and> ms_content row = in_content i \<and> ms_print row = fingerprint_v1 L i 0 \<and>
     unmarshal_strings (ms_recipients row) = Some (Some (sd_recipients a)) \<and>
     mv_id (sd_message a) = ms_uuid row \<and> mv_session (sd_message a) = ms_session row \<and> mv_position (sd_message a) = nat (ms_id row) \<and>
     mv_sender (sd_message a) = in_sender i \<and> mv_dest (sd_message a) = in_dest i \<and> mv_content (sd_message a) = in_content i \<and>
     mv_origin (sd_message a) = MESSAGE_ORIGIN_USER"
  using b
proof (cases rule: save_body_cases)
  case (replay sid d who r print)
  then show ?thesis using n by (auto simp: replay_row_def bindE_eq_Inr split: if_splits)
next
  case (fresh sid d who r view print)
  obtain d0 where d0: "in_dest i = Some d0" using validate_input_sender [OF v] by blast
  have d: "d = d0" using fresh(2) d0 by simp
  have pr: "print = fingerprint_v1 L i 0" using fresh(4) d d0 by (simp add: fingerprint_v1_def)
  note c = create_row_Inr [OF fresh(6)]
  let ?row = "r\<lparr>ms_recipients := db_json D (strings_json (sorted_unique who))\<rparr>"
  have r: "ms_send r = in_sender i" "ms_client r = in_client i" "ms_content r = in_content i" "ms_print r = print" "ms_session r = sid"
    "ms_receive r = d_id d" "ms_origin r = 0"
    using c by (simp_all add: new_row_def)
  have app: "db_messages S' = db_messages S @ [?row]" using c by (simp add: new_row_def)
  note sv = stored_view_Inr [OF fresh(7)]
  have g: "valid_id L sid (CHR ''G'') \<longleftrightarrow> d_type d = RECEIVE_TYPE_GROUP"
  proof (cases "d_type d = RECEIVE_TYPE_GROUP")
    case True
    have "valid_id L (d_id d) (CHR ''G'')" using v d0 d True by (simp add: validate_input_def Let_def split: if_splits)
    then have "\<not> valid_id L (d_id d) (CHR ''U'')" using valid_id_unique_prefix by fastforce
    then show ?thesis using sv r True by auto
  next
    case False
    then have "valid_id L sid (CHR ''S'')" using fresh(1) by (auto simp: authorized_def)
    then show ?thesis using False valid_id_unique_prefix by fastforce
  qed
  have t: "d_type d = RECEIVE_TYPE_GROUP \<or> d_type d = RECEIVE_TYPE_USER"
    using v d0 d by (auto simp: validate_input_def Let_def split: if_splits receive_type.splits)
  then have dest: "mv_dest view = in_dest i" using sv r g d d0 by (cases d) auto
  have "list_all utf8_valid (sorted_unique who)"
  proof -
    have s: "valid_id L (in_sender i) (CHR ''U'')" using validate_input_sender [OF v] by blast
    have "valid_id L (d_id d) (CHR ''U'')" if "d_type d \<noteq> RECEIVE_TYPE_GROUP" using sv r g that by auto
    then have "list_all (\<lambda>i. valid_id L i (CHR ''U'')) (sorted_unique who)" using valid_snapshot [OF fresh(1) s] by blast
    then show ?thesis using docs(2) bare_id bare_ascii by (fastforce simp: list_all_iff)
  qed
  then have rec: "unmarshal_strings (db_json D (strings_json (sorted_unique who))) = Some (Some (sorted_unique who))"
    using docs(1) by (simp add: dbms_documented_def)
  show ?thesis using app r pr sv dest rec fresh(8) by (intro exI [of _ ?row]) simp
qed

text \<open>C24. A send that is answered as new has stored exactly one row, after every other: with the sender, client identifier, content,
  fingerprint and recipient list of the submission, under the message identifier, session and position that the answer shows; and the
  answer shows the submission's sender, destination and content. Whatever runs later keeps the row, in its place, with every later
  position greater. A replay and a refused send store nothing; only a commit whose outcome is unknown may leave the row of a send that
  was answered with an error.\<close>

theorem accepted_messages_stored:
  assumes "dbms_documented D" "uuid_documented L" "messages_ok D S0" "store_run L D S0 S"
    and "save_message L D env i S = (r, S')" "store_run L D S' S''"
  shows "case r of
      Inl e \<Rightarrow> S' = S \<or> sv_commit env = CommitUnknown \<and>
        (\<exists>row. db_messages S' = db_messages S @ [row] \<and> ms_send row = in_sender i \<and> ms_client row = in_client i \<and> ms_content row = in_content i)
    | Inr a \<Rightarrow>
      if sd_replayed a then S' = S
      else \<exists>row new. db_messages S' = db_messages S @ [row] \<and> db_messages S'' = db_messages S @ row # new \<and>
        (\<forall>m \<in> set (db_messages S). ms_id m < ms_id row) \<and> (\<forall>m \<in> set new. ms_id row < ms_id m) \<and>
        ms_send row = in_sender i \<and> ms_client row = in_client i \<and> ms_content row = in_content i \<and> ms_print row = fingerprint_v1 L i 0 \<and>
        unmarshal_strings (ms_recipients row) = Some (Some (sd_recipients a)) \<and>
        mv_id (sd_message a) = ms_uuid row \<and> mv_session (sd_message a) = ms_session row \<and> mv_position (sd_message a) = nat (ms_id row) \<and>
        mv_sender (sd_message a) = in_sender i \<and> mv_dest (sd_message a) = in_dest i \<and> mv_content (sd_message a) = in_content i \<and>
        mv_origin (sd_message a) = MESSAGE_ORIGIN_USER"
proof (cases "validate_input L i")
  case (Inl e)
  then show ?thesis using assms(5) by (auto simp: save_message_def)
next
  case (Inr u)
  then have v: "validate_input L i = Inr ()" by simp
  have tx: "save_tx L D env i [] 0 S = (r, S')" using v assms(5) by (simp add: save_message_def)
  show ?thesis
  proof (cases "save_body L D env i [] 0 S")
    case (Inl e)
    then show ?thesis using tx by (auto simp: save_tx_def split: if_splits)
  next
    case (Inr p)
    obtain a S1 where b: "save_body L D env i [] 0 S = Inr (a, S1)" using Inr by (cases p) simp
    have rep: "S1 = S" if "sd_replayed a" using b that by (cases rule: save_body_cases) auto
    note row = fresh_row [OF assms(1,2) v b]
    show ?thesis
    proof (cases r)
      case (Inl e)
      then have "S' = S \<or> sv_commit env = CommitUnknown \<and> S' = S1"
        using tx b by (auto simp: save_tx_def split: if_splits commit_fate.splits)
      then show ?thesis using Inl rep row by auto
    next
      case (Inr a')
      then have e: "a' = a" "S' = S1" using tx b by (auto simp: save_tx_def split: if_splits commit_fate.splits)
      show ?thesis
      proof (cases "sd_replayed a")
        case True
        then show ?thesis using Inr e rep by simp
      next
        case False
        from row [OF False] obtain x where x: "db_messages S1 = db_messages S @ [x]" and
          f: "ms_send x = in_sender i \<and> ms_client x = in_client i \<and> ms_content x = in_content i \<and> ms_print x = fingerprint_v1 L i 0 \<and>
     unmarshal_strings (ms_recipients x) = Some (Some (sd_recipients a)) \<and>
     mv_id (sd_message a) = ms_uuid x \<and> mv_session (sd_message a) = ms_session x \<and> mv_position (sd_message a) = nat (ms_id x) \<and>
     mv_sender (sd_message a) = in_sender i \<and> mv_dest (sd_message a) = in_dest i \<and> mv_content (sd_message a) = in_content i \<and>
     mv_origin (sd_message a) = MESSAGE_ORIGIN_USER" by blast
        obtain new where new: "db_messages S'' = db_messages S1 @ new"
          using store_run_grows [OF assms(6,1,2)] e by (auto simp: grows_def)
        have "messages_ok D S" by (rule store_run_ok [OF assms(4,1,3)])
        then have "messages_ok D S1" using save_tx_ok [OF assms(1), of S L env i "[]" 0] tx e by simp
        then have "messages_ok D S''" using store_run_ok [OF assms(6,1)] e by simp
        then have "(\<forall>m \<in> set (db_messages S). ms_id m < ms_id x) \<and> (\<forall>m \<in> set new. ms_id x < ms_id m)"
          unfolding messages_ok_def new x by (auto simp: sorted_wrt_append)
        then show ?thesis using Inr e False x f new by (auto intro!: exI [of _ x] exI [of _ new])
      qed
    qed
  qed
qed

text \<open>C23. A message is accepted only from a member: for a group, the group is in normal state, the sender is in its member list and the
  recipients are exactly the members; otherwise a direct session between the sender and the receiver exists, the receiver is another
  user, and the recipients are the two; all recipients exist, sorted without repetition.\<close>

theorem saved_for_members:
  assumes "dbms_documented D" "uuid_documented L" "users_unique D S" "save_message L D env i S = (Inr a, S')" "\<not> sd_replayed a"
  shows "\<exists>d. in_dest i = Some d \<and> strict_sorted (sd_recipients a) \<and> in_sender i \<in> set (sd_recipients a) \<and>
    (\<forall>u \<in> set (sd_recipients a). \<exists>r \<in> set (db_users S). db_same D (us_uuid r) u) \<and>
    (if d_type d = RECEIVE_TYPE_GROUP then
       \<exists>g ms. g \<in> set (db_groups S) \<and> db_same D (gr_uuid g) (d_id d) \<and> \<not> gr_deleted g \<and> gr_status g = 0 \<and>
         unmarshal_strings (gr_members g) = Some (Some ms) \<and> in_sender i \<in> set ms \<and> set (sd_recipients a) = set ms
     else
       (\<exists>r \<in> set (db_sessions S). se_type r = 0 \<and>
          (se_send r = in_sender i \<and> db_same D (se_receive r) (d_id d) \<or> se_receive r = in_sender i \<and> db_same D (se_send r) (d_id d))) \<and>
       d_id d \<noteq> in_sender i \<and> set (sd_recipients a) = {in_sender i, d_id d})"
proof -
  have v: "validate_input L i = Inr ()" "save_tx L D env i [] 0 S = (Inr a, S')"
    using assms(4) by (auto simp: save_message_def split: sum.splits)
  have b: "save_body L D env i [] 0 S = Inr (a, S')"
    using v(2) by (auto simp: save_tx_def split: if_splits sum.splits prod.splits commit_fate.splits)
  obtain d where d: "in_dest i = Some d" using validate_input_sender [OF v(1)] by blast
  have own: "d_id d \<noteq> in_sender i" if "d_type d \<noteq> RECEIVE_TYPE_GROUP"
    using v(1) d that by (auto simp: validate_input_def Let_def split: if_splits receive_type.splits)
  have pair: "\<exists>r \<in> set (db_sessions S). se_type r = 0 \<and>
          (se_send r = in_sender i \<and> db_same D (se_receive r) (d_id d) \<or> se_receive r = in_sender i \<and> db_same D (se_send r) (d_id d))"
    if "d_type d \<noteq> RECEIVE_TYPE_GROUP"
    using save_body_direct [OF b] lock_direct_pair [OF assms(1)] d that by fastforce
  from b show ?thesis
  proof (cases rule: save_body_cases)
    case (replay sid d' who r print)
    then show ?thesis using assms(5) by (auto simp: replay_row_def bindE_eq_Inr split: if_splits)
  next
    case (fresh sid d' who r v print)
    have d': "d' = d" using fresh(2) d by simp
    have "\<forall>u \<in> set (sorted_unique who). \<exists>r \<in> set (db_users S). db_same D (us_uuid r) u"
      using require_users_all [OF fresh(3) assms(1,3)] by blast
    then show ?thesis using fresh(1,8) d d' sorted_unique_strict [of who] pair own
      by (intro exI [of _ d]) (auto simp: authorized_def split: if_splits)
  qed
qed

end
