(* ===== verification/KafkaPush.thy ===== *)
theory KafkaPush
  imports Json Validation
begin

text \<open>
  The publisher of push tasks (internal/logic/kafkapush/publisher.go): its configuration, one synchronous publication with
  what each failure says of the broker, readiness and shutdown.
\<close>

section \<open>Configuration\<close>

definition topic_char :: "char \<Rightarrow> bool" where
  "topic_char c =
     (97 \<le> code c \<and> code c \<le> 122 \<or> 65 \<le> code c \<and> code c \<le> 90 \<or> 48 \<le> code c \<and> code c \<le> 57 \<or>
      c = CHR ''.'' \<or> c = CHR ''_'' \<or> c = CHR ''-'')"

definition valid_topic :: "string \<Rightarrow> bool" where
  "valid_topic topic =
     (if length topic > 249 \<or>
         topic \<noteq> ''fable.push.v1'' \<and> (\<not> has_prefix topic ''fable.push.v1.'' \<or> length topic = length ''fable.push.v1.'')
      then False else list_all topic_char topic)"

definition valid_broker :: "string \<Rightarrow> bool" where
  "valid_broker broker =
     (if length broker > 512 \<or> contains_any broker (''/@?# '' @ [char_of (9::nat), char_of (10::nat), char_of (13::nat)]) then False
      else case split_host_port broker of
             None \<Rightarrow> False
           | Some (host, port) \<Rightarrow>
             host \<noteq> [] \<and>
             (case parse_int64 port of None \<Rightarrow> False | Some n \<Rightarrow> 0 < n \<and> n \<le> 65535 \<and> format_int n = port))"

text \<open>The key of a record: a conversation with a canonical UUID.\<close>

definition valid_key :: "lib \<Rightarrow> string \<Rightarrow> bool" where
  "valid_key L key =
     (let ident = (if has_prefix key ''direct:S'' then Some (trim_prefix key ''direct:S'')
                   else if has_prefix key ''group:G'' then Some (trim_prefix key ''group:G'') else None) in
      case ident of
        None \<Rightarrow> False
      | Some i \<Rightarrow>
        length i = 36 \<and>
        (case uuid_canonical L i of None \<Rightarrow> False | Some parsed \<Rightarrow> parsed \<noteq> nil_uuid \<and> parsed = i))"

record publisher =
  pb_brokers :: "string list"
  pb_topic :: string
  pb_closed :: bool
  pb_close_err :: bool

datatype publish_base = ErrNotPublished | ErrInvalidConfig | ErrUnknown | ErrNotReady

text \<open>An error of the package, joined with the error of the context it preserves.\<close>

datatype publish_error = PubErr (pe_base: publish_base) (pe_ctx: "ctx_err option")

definition new_publisher :: "string list \<Rightarrow> string \<Rightarrow> publish_error + publisher" where
  "new_publisher brokers topic =
     (if brokers = [] \<or> \<not> valid_topic topic then Inl (PubErr ErrInvalidConfig None)
      else if \<not> list_all valid_broker brokers then Inl (PubErr ErrInvalidConfig None)
      else Inr \<lparr>pb_brokers = brokers, pb_topic = topic, pb_closed = False, pb_close_err = False\<rparr>)"

section \<open>Publishing\<close>

text \<open>
  What one call meets: whether the caller's context is nil, its error, the error of the bounded context, and the answer of
  \<open>Writer.WriteMessages\<close>: success, the rejection of a closed writer, or another error (with the error of the context after
  the call, the context error it wraps, and whether the broker stored the record all the same).
\<close>

datatype write_answer = WriteDone | WriteClosed | WriteFailed (wf_ctx: "ctx_err option") (wf_err: "ctx_err option") (wf_stored: bool)

record publish_env =
  pn_nil :: bool
  pn_ctx :: "ctx_err option"
  pn_bounded :: "ctx_err option"
  pn_write :: write_answer

text \<open>\<open>safeError\<close>.\<close>

definition safe_error :: "publish_base \<Rightarrow> ctx_err option \<Rightarrow> ctx_err option \<Rightarrow> publish_error" where
  "safe_error base ctx err = (if ctx \<noteq> None then PubErr base ctx else PubErr base err)"

definition max_record :: nat where "max_record = 256 * 1024"

text \<open>\<open>Publish\<close>, with the records the broker has afterwards.\<close>

definition publish ::
  "lib \<Rightarrow> publisher option \<Rightarrow> publish_env \<Rightarrow> string \<Rightarrow> string \<Rightarrow> (string \<times> string) list \<Rightarrow>
   (publish_error + unit) \<times> (string \<times> string) list" where
  "publish L p env key raw sent =
     (let trimmed = trim_space raw in
      if p = None \<or> pb_closed (the p) \<or> pn_nil env \<or> \<not> valid_key L key \<or> max_record < length raw \<or> length trimmed = 0 \<or>
         hd trimmed \<noteq> CHR ''{'' \<or> json_text raw = None
      then (Inl (PubErr ErrNotPublished None), sent)
      else if pn_ctx env \<noteq> None then (Inl (PubErr ErrNotPublished (pn_ctx env)), sent)
      else if pn_bounded env \<noteq> None then (Inl (PubErr ErrNotPublished (pn_bounded env)), sent)
      else case pn_write env of
        WriteDone \<Rightarrow> (Inr (), sent @ [(key, raw)])
      | WriteClosed \<Rightarrow> (Inl (PubErr ErrNotPublished None), sent)
      | WriteFailed ctx err stored \<Rightarrow>
        (Inl (safe_error ErrUnknown ctx err), if stored then sent @ [(key, raw)] else sent))"

section \<open>Readiness and shutdown\<close>

record partition_meta =
  pm_error :: bool
  pm_host :: string
  pm_port :: int
  pm_isr :: nat

record topic_meta =
  tm_name :: string
  tm_error :: bool
  tm_partitions :: "partition_meta list"

record cluster_meta =
  cm_brokers :: nat
  cm_topics :: "topic_meta list"

definition partition_ready :: "partition_meta \<Rightarrow> bool" where
  "partition_ready m = (\<not> (pm_error m \<or> pm_host m = [] \<or> pm_port m \<le> 0 \<or> pm_isr m = 0))"

text \<open>\<open>Ping\<close>: the answer of the metadata request is an error with what the contexts say, or the metadata.\<close>

definition publisher_ping ::
  "publisher option \<Rightarrow> bool \<Rightarrow> (ctx_err option \<times> ctx_err option) + cluster_meta \<Rightarrow> publish_error + unit" where
  "publisher_ping p nil answer =
     (if p = None \<or> pb_closed (the p) \<or> nil then Inl (PubErr ErrNotReady None)
      else case answer of
        Inl (ctx, err) \<Rightarrow> Inl (safe_error ErrNotReady ctx err)
      | Inr m \<Rightarrow>
        if cm_brokers m = 0 then Inl (PubErr ErrNotReady None)
        else case List.find (\<lambda>t. tm_name t = pb_topic (the p)) (cm_topics m) of
          None \<Rightarrow> Inl (PubErr ErrNotReady None)
        | Some t \<Rightarrow>
          if tm_error t \<or> tm_partitions t = [] then Inl (PubErr ErrNotReady None)
          else if \<not> list_all partition_ready (tm_partitions t) then Inl (PubErr ErrNotReady None)
          else Inr ())"

text \<open>\<open>Close\<close> runs once; later calls repeat its error.\<close>

definition publisher_close :: "bool \<Rightarrow> publisher option \<Rightarrow> (publish_error + unit) \<times> publisher option" where
  "publisher_close failed po =
     (case po of
        None \<Rightarrow> (Inr (), None)
      | Some p \<Rightarrow>
        let p' = (if pb_closed p then p else p\<lparr>pb_closed := True, pb_close_err := failed\<rparr>) in
        (if pb_close_err p' then Inl (PubErr ErrNotReady None) else Inr (), Some p'))"

section \<open>Lemmas\<close>

text \<open>A call that reports \<open>ErrNotPublished\<close> left nothing on the broker; a success left exactly the record.\<close>

lemma publish_cases:
  assumes "publish L p env key raw sent = (r, sent')"
  shows "(r = Inr () \<longrightarrow> sent' = sent @ [(key, raw)]) \<and> (sent' = sent \<or> sent' = sent @ [(key, raw)]) \<and>
    (\<forall>e. r = Inl e \<longrightarrow> pe_base e = ErrNotPublished \<longrightarrow> sent' = sent)"
  using assms by (auto simp: publish_def Let_def safe_error_def split: if_splits write_answer.splits)

lemma publisher_closes: "fst (publish L (snd (publisher_close failed p)) env key raw sent) = Inl (PubErr ErrNotPublished None)"
  by (cases p) (auto simp: publisher_close_def publish_def Let_def)

end
