(* ===== verification/LogicService.thy ===== *)
theory LogicService
  imports CometRpc RouteStore MessageStore KafkaPush TaskCodec
begin

text \<open>
  The RPC service of Logic (internal/logic/service.go), the dispatch of saved messages (dispatch.go), the workers that kick
  replaced connections and the pool of clients (transport.go), over the routing store, the message store and the publisher.
\<close>

section \<open>IP literals\<close>

text \<open>\<open>net.ParseIP\<close> to the sixteen bytes of the address, and \<open>IsLoopback\<close>.\<close>

fun split_on :: "char \<Rightarrow> string \<Rightarrow> string list" where
  "split_on c [] = [[]]"
| "split_on c (x # xs) = (if x = c then [] # split_on c xs else (x # hd (split_on c xs)) # tl (split_on c xs))"

definition ipv4_field :: "string \<Rightarrow> nat option" where
  "ipv4_field s =
     (case parse_nat s of None \<Rightarrow> None
      | Some n \<Rightarrow> if n \<le> 255 \<and> (length s = 1 \<or> hd s \<noteq> CHR ''0'') then Some n else None)"

definition ipv4_fields :: "string \<Rightarrow> nat list option" where
  "ipv4_fields s =
     (case those (map ipv4_field (split_on (CHR ''.'') s)) of
        None \<Rightarrow> None | Some ns \<Rightarrow> if length ns = 4 then Some ns else None)"

text \<open>The groups of an IPv6 address: the bytes so far, where the ellipsis stands, and the rest of the text.\<close>

function ipv6_groups :: "nat list \<Rightarrow> nat option \<Rightarrow> string \<Rightarrow> (nat list \<times> nat option) option" where
  "ipv6_groups ip gap s =
     (if 16 \<le> length ip then (if s = [] then Some (ip, gap) else None)
      else
        let digits = takeWhile hex_char s; rest = dropWhile hex_char s in
        if digits = [] \<or> 4 < length digits then None
        else if rest \<noteq> [] \<and> hd rest = CHR ''.'' then
          (if gap = None \<and> length ip \<noteq> 12 \<or> 16 < length ip + 4 then None
           else case ipv4_fields s of None \<Rightarrow> None | Some ns \<Rightarrow> Some (ip @ ns, gap))
        else
          let n = foldl (\<lambda>acc c. 16 * acc + hex_val c) 0 digits; ip' = ip @ [n div 256, n mod 256] in
          if rest = [] then Some (ip', gap)
          else if hd rest \<noteq> CHR '':'' \<or> length rest = 1 then None
          else if hd (tl rest) = CHR '':'' then
            (if gap \<noteq> None then None
             else if length rest = 2 then Some (ip', Some (length ip'))
             else ipv6_groups ip' (Some (length ip')) (drop 2 rest))
          else ipv6_groups ip' gap (tl rest))"
  by pat_completeness auto

termination
proof (relation "measure (\<lambda>(ip, gap, s). 16 - length ip)")
qed (auto simp: Let_def)

declare ipv6_groups.simps [simp del]

definition ipv6_bytes :: "string \<Rightarrow> nat list option" where
  "ipv6_bytes s =
     (if s = ''::'' then Some (replicate 16 0)
      else case (if has_prefix s ''::'' then ipv6_groups [] (Some 0) (drop 2 s) else ipv6_groups [] None s) of
        None \<Rightarrow> None
      | Some (ip, gap) \<Rightarrow>
        (case gap of
           None \<Rightarrow> if length ip = 16 then Some ip else None
         | Some g \<Rightarrow> if length ip = 16 then None else Some (take g ip @ replicate (16 - length ip) 0 @ drop g ip)))"

definition parse_ip :: "string \<Rightarrow> nat list option" where
  "parse_ip s =
     (case List.find (\<lambda>c. c \<in> set ''.:%'') s of
        Some c \<Rightarrow>
          if c = CHR ''.'' then map_option (\<lambda>ns. replicate 10 0 @ [255, 255] @ ns) (ipv4_fields s)
          else if c = CHR '':'' then ipv6_bytes s
          else None
      | None \<Rightarrow> None)"

definition loopback :: "nat list \<Rightarrow> bool" where
  "loopback ip =
     (if take 10 ip = replicate 10 0 \<and> ip ! 10 = 255 \<and> ip ! 11 = 255 then ip ! 12 = 127
      else ip = replicate 15 0 @ [1])"

definition local_address :: "string \<Rightarrow> bool" where
  "local_address address =
     (case split_host_port address of
        None \<Rightarrow> False
      | Some (host, port) \<Rightarrow>
        (case parse_int64 port of None \<Rightarrow> False | Some n \<Rightarrow> 0 < n \<and> n \<le> 65535) \<and>
        (host = ''localhost'' \<or> (case parse_ip host of None \<Rightarrow> False | Some ip \<Rightarrow> loopback ip)))"

lemma local_address_samples [simp]: "local_address ''localhost:7000''" "\<not> local_address ''10.0.0.1:7000''"
  by code_simp+

section \<open>Configuration\<close>

record comet_grant =
  cg_identity :: "comet_id option"
  cg_address :: string
  cg_token :: string

record logic_config =
  cf_routes :: "rstore option"
  cf_messages :: bool
  cf_publisher :: "publisher option"
  cf_secret :: string
  cf_job :: string
  cf_kick :: string
  cf_comets :: "comet_grant list"
  cf_exists :: bool

record logic_service =
  lg_routes :: rstore
  lg_publisher :: publisher
  lg_secret :: string
  lg_job :: string
  lg_kick :: string
  lg_grants :: "comet_grant list"

datatype config_error = InvalidConfiguration | InvalidGrant

text \<open>The loop over the grants, with the tokens and instances seen so far.\<close>

fun check_grants :: "lib \<Rightarrow> string list \<Rightarrow> string list \<Rightarrow> comet_grant list \<Rightarrow> config_error + comet_grant list" where
  "check_grants L tokens ids [] = Inr []"
| "check_grants L tokens ids (g # gs) =
     (if \<not> valid_comet L (cg_identity g) \<or> \<not> valid_token (cg_token g) \<or> cg_token g \<in> set tokens \<or>
         ci_instance (the (cg_identity g)) \<in> set ids \<or> \<not> local_address (cg_address g)
      then Inl InvalidGrant
      else
        bindE (check_grants L (cg_token g # tokens) (ci_instance (the (cg_identity g)) # ids) gs) (\<lambda>rest.
          Inr (g\<lparr>cg_identity := Some \<lparr>ci_instance = ci_instance (the (cg_identity g)), ci_boot = ci_boot (the (cg_identity g))\<rparr>\<rparr> # rest)))"

definition new_service :: "lib \<Rightarrow> logic_config \<Rightarrow> config_error + logic_service" where
  "new_service L c =
     (if cf_routes c = None \<or> \<not> cf_messages c \<or> cf_publisher c = None \<or> length (cf_secret c) < 32 \<or> \<not> valid_token (cf_job c) \<or>
         \<not> valid_token (cf_kick c) \<or> cf_job c = cf_kick c \<or> cf_comets c = [] \<or> \<not> cf_exists c
      then Inl InvalidConfiguration
      else
        bindE (check_grants L [cf_job c, cf_kick c] [] (cf_comets c)) (\<lambda>grants.
          Inr \<lparr>lg_routes = the (cf_routes c), lg_publisher = the (cf_publisher c), lg_secret = cf_secret c, lg_job = cf_job c,
               lg_kick = cf_kick c, lg_grants = grants\<rparr>))"

section \<open>Errors\<close>

datatype logic_error = LCtx ctx_err | LRoute routing_error | LStore store_error | LOther

text \<open>\<open>mapError\<close>; a dependency error keeps the error of the context.\<close>

definition ctx_of :: "logic_error \<Rightarrow> ctx_err option" where
  "ctx_of e = (case e of LCtx c \<Rightarrow> Some c | LRoute (RDependency c) \<Rightarrow> c | _ \<Rightarrow> None)"

definition logic_map_error :: "logic_error \<Rightarrow> string \<Rightarrow> rpc_status" where
  "logic_map_error e request =
     (case ctx_of e of
        Some CtxCanceled \<Rightarrow> \<lparr>st_code = Canceled, st_details = []\<rparr>
      | Some CtxDeadlineExceeded \<Rightarrow> \<lparr>st_code = DeadlineExceeded, st_details = []\<rparr>
      | None \<Rightarrow>
        if e \<in> {LRoute RInvalid, LStore StInvalid} then rpc_error InvalidArgument REASON_INVALID_ARGUMENT RETRY_DO_NOT_RETRY request
        else if e = LStore StForbidden then rpc_error PermissionDenied REASON_PERMISSION_DENIED RETRY_DO_NOT_RETRY request
        else if e \<in> {LStore StConflict, LRoute RConflict} then rpc_error AlreadyExists REASON_IDEMPOTENCY_CONFLICT RETRY_DO_NOT_RETRY request
        else if e = LRoute RNotRegistered then rpc_error FailedPrecondition REASON_INSTANCE_NOT_REGISTERED RETRY_REFRESH_ROUTE request
        else if e = LRoute RSuperseded then rpc_error FailedPrecondition REASON_SUPERSEDED RETRY_RECONNECT request
        else if e = LRoute RLeaseExpired then rpc_error FailedPrecondition REASON_LEASE_EXPIRED RETRY_RECONNECT request
        else if e = LRoute RDraining then rpc_error Unavailable REASON_DRAINING RETRY_REFRESH_ROUTE request
        else rpc_error Unavailable REASON_DEPENDENCY_UNAVAILABLE RETRY_SAME_REQUEST request)"

definition invalid_request :: "string \<Rightarrow> rpc_status" where
  "invalid_request request = logic_map_error (LRoute RInvalid) request"

definition permission_denied :: rpc_status where
  "permission_denied = rpc_error PermissionDenied REASON_PERMISSION_DENIED RETRY_DO_NOT_RETRY ''''"

definition bad_credential :: "string \<Rightarrow> rpc_status" where
  "bad_credential request = rpc_error Unauthenticated REASON_UNAUTHENTICATED RETRY_REAUTHENTICATE request"

section \<open>Roles\<close>

text \<open>The metadata of a call is the list of its \<open>authorization\<close> values.\<close>

definition bearer :: "string list \<Rightarrow> string" where
  "bearer md = (case md of [v] \<Rightarrow> if has_prefix v ''Bearer '' then trim_prefix v ''Bearer '' else [] | _ \<Rightarrow> [])"

definition comet_auth :: "logic_service \<Rightarrow> string list \<Rightarrow> comet_id option \<Rightarrow> string \<Rightarrow> rpc_status + comet_grant" where
  "comet_auth s md i instance_id =
     (let token = bearer md in
      case List.find (\<lambda>g. token = cg_token g) (lg_grants s) of
        Some g \<Rightarrow>
          (case i of
             Some c \<Rightarrow>
               if ci_instance c \<noteq> ci_instance (the (cg_identity g)) \<or> ci_boot c \<noteq> ci_boot (the (cg_identity g))
               then Inl permission_denied else Inr g
           | None \<Rightarrow> if instance_id \<noteq> ci_instance (the (cg_identity g)) then Inl permission_denied else Inr g)
      | None \<Rightarrow> if token = lg_job s \<or> token = lg_kick s then Inl permission_denied else Inl (bad_credential ''''))"

definition job_auth :: "logic_service \<Rightarrow> string list \<Rightarrow> rpc_status + unit" where
  "job_auth s md =
     (let token = bearer md in
      if token = lg_job s then Inr ()
      else if \<exists>g \<in> set (lg_grants s). token = cg_token g then Inl permission_denied
      else if token = lg_kick s then Inl permission_denied
      else Inl (bad_credential ''''))"

text \<open>
  \<open>ParseJWT\<close> over the JWT library: the signing method a token names, and the user and expiry (in nanoseconds) of the claims
  of a token that is valid under a key.
\<close>

record jwt_lib =
  jw_method :: "string \<Rightarrow> string option"
  jw_claims :: "string \<Rightarrow> string \<Rightarrow> (string \<times> int) option"

definition parse_jwt :: "jwt_lib \<Rightarrow> string \<Rightarrow> string \<Rightarrow> (string \<times> int) option" where
  "parse_jwt J token secret =
     (if jw_method J token \<noteq> Some ''HS256'' then None
      else case jw_claims J secret token of
        None \<Rightarrow> None
      | Some (user, expires) \<Rightarrow> if user = [] then None else Some (user, expires))"

section \<open>Requests\<close>

record register_request =
  qr_identity :: "comet_id option"
  qr_address :: string
  qr_request :: string

record renew_request =
  qn_identity :: "comet_id option"
  qn_draining :: bool
  qn_request :: string

record unregister_request =
  qu_identity :: "comet_id option"
  qu_request :: string

record connect_request =
  qc_comet :: "comet_id option"
  qc_connection :: string
  qc_token :: string
  qc_jwt :: string
  qc_request :: string

record connection_request =
  qi_identity :: "conn_id option"
  qi_request :: string

record submit_request =
  qs_identity :: "conn_id option"
  qs_client :: string
  qs_dest :: "destination option"
  qs_content :: string
  qs_request :: string

record batch_request =
  qb_ids :: "string list"
  qb_request :: string

section \<open>Dispatch\<close>

text \<open>
  What the calls of the service work on: the key space, the database, the channel of pending kicks and the records of the
  broker; and what a call meets: the state of each Redis call, the answer of \<open>UserExists\<close>, the transaction, each publication,
  and the generated identifiers.
\<close>

record logic_state =
  lo_redis :: redis
  lo_db :: db
  lo_kicks :: "conn_id option list"
  lo_sent :: "(string \<times> string) list"

record logic_env =
  le_redis :: "nat \<Rightarrow> redis_io"
  le_user :: "string \<Rightarrow> logic_error + bool"
  le_save :: save_env
  le_publish :: "nat \<Rightarrow> publish_env"
  le_request :: string
  le_client :: string

definition route_hints :: "routing_error + route_result list \<Rightarrow> conn_id list" where
  "route_hints r =
     (case r of
        Inl e \<Rightarrow> []
      | Inr rs \<Rightarrow> List.map_filter
          (\<lambda>x. case rr_state x of RouteState (Some lease) \<Rightarrow> Some (the (rl_identity lease)) | _ \<Rightarrow> None) rs)"

definition chunk_task :: "saved \<Rightarrow> string \<Rightarrow> nat \<Rightarrow> nat \<Rightarrow> string list \<Rightarrow> conn_id list \<Rightarrow> push_task" where
  "chunk_task sd request count index ids targets =
     \<lparr>pt_version = 1, pt_kind = ''message_push'',
      pt_task_id = ''push:v1:'' @ mv_id (sd_message sd) @ '':'' @ format_nat index,
      pt_message = public_message (sd_message sd), pt_recipients = ids, pt_targets = Some targets,
      pt_index = index mod 2 ^ 32, pt_count = count mod 2 ^ 32, pt_request = request, pt_pending = None, pt_run = []\<rparr>"

definition chunk_ids :: "saved \<Rightarrow> nat \<Rightarrow> string list" where
  "chunk_ids sd index = slice (sd_recipients sd) (index * 100) (min ((index + 1) * 100) (length (sd_recipients sd)))"

text \<open>The loop over the chunks from \<open>index\<close> on; the lookups are the Redis calls from \<open>base\<close> on.\<close>

function dispatch_from ::
  "lib \<Rightarrow> logic_service \<Rightarrow> logic_env \<Rightarrow> nat \<Rightarrow> saved \<Rightarrow> string \<Rightarrow> nat \<Rightarrow> nat \<Rightarrow> nat \<Rightarrow> logic_state \<Rightarrow> dispatch_state \<times> logic_state" where
  "dispatch_from L s env base sd request count index published st =
     (if count \<le> index then (DISPATCH_STATE_QUEUED, st)
      else
        let ids = chunk_ids sd index;
            (found, S) = st_lookup L (lg_routes s) (le_redis env (base + index)) ids (lo_redis st);
            st' = st\<lparr>lo_redis := S\<rparr>
        in case marshal_task (chunk_task sd request count index ids (route_hints found)) of
             None \<Rightarrow> (if published = 0 then DISPATCH_STATE_NOT_QUEUED else DISPATCH_STATE_UNKNOWN, st')
           | Some raw \<Rightarrow>
             if max_payload < length raw
             then (if published = 0 then DISPATCH_STATE_NOT_QUEUED else DISPATCH_STATE_UNKNOWN, st')
             else
               let (r, sent) = publish L (Some (lg_publisher s)) (le_publish env index) (mv_conversation (sd_message sd)) raw (lo_sent st');
                   st'' = st'\<lparr>lo_sent := sent\<rparr>
               in case r of
                    Inl e \<Rightarrow>
                      (if published = 0 \<and> pe_base e = ErrNotPublished then DISPATCH_STATE_NOT_QUEUED else DISPATCH_STATE_UNKNOWN, st'')
                  | Inr _ \<Rightarrow> dispatch_from L s env base sd request count (index + 1) (published + 1) st'')"
  by pat_completeness auto

termination by (relation "measure (\<lambda>(L, s, env, base, sd, request, count, index, published, st). count - index)") auto

declare dispatch_from.simps [simp del]

definition dispatch ::
  "lib \<Rightarrow> logic_service \<Rightarrow> logic_env \<Rightarrow> nat \<Rightarrow> string \<Rightarrow> saved \<Rightarrow> string \<Rightarrow> logic_state \<Rightarrow> send_result \<times> logic_state" where
  "dispatch L s env base client_id sd request st =
     (let (state, st') = dispatch_from L s env base sd request (chunk_count 100 (length (sd_recipients sd))) 0 0 st in
      (\<lparr>sr_client = client_id, sr_stored = True, sr_message = sd_message sd, sr_dispatch = state, sr_replayed = sd_replayed sd\<rparr>, st'))"

section \<open>Comet instances\<close>

text \<open>A routing operation of a handler: its error is mapped, and the key space changes.\<close>

definition routed_call ::
  "string \<Rightarrow> (routing_error + 'a) \<times> redis \<Rightarrow> logic_state \<Rightarrow> (rpc_status + 'a) \<times> logic_state" where
  "routed_call request r st = (mapErr (\<lambda>e. logic_map_error (LRoute e) request) (fst r), st\<lparr>lo_redis := snd r\<rparr>)"

definition register_comet ::
  "lib \<Rightarrow> logic_service \<Rightarrow> logic_env \<Rightarrow> string list \<Rightarrow> register_request option \<Rightarrow> logic_state \<Rightarrow>
   (rpc_status + comet_lease option) \<times> logic_state" where
  "register_comet L s env md req st =
     (case req of
        None \<Rightarrow> (Inl (invalid_request ''''), st)
      | Some q \<Rightarrow>
      case comet_auth s md (qr_identity q) '''' of
        Inl e \<Rightarrow> (Inl e, st)
      | Inr grant \<Rightarrow>
        if \<not> valid_request_id (qr_request q) \<or> qr_address q \<noteq> cg_address grant then (Inl (invalid_request ''''), st)
        else routed_call (qr_request q)
               (st_register L (lg_routes s) (le_redis env 0) (qr_identity q) (qr_address q) (lo_redis st)) st)"

definition renew_comet ::
  "lib \<Rightarrow> logic_service \<Rightarrow> logic_env \<Rightarrow> string list \<Rightarrow> renew_request option \<Rightarrow> logic_state \<Rightarrow>
   (rpc_status + comet_lease option) \<times> logic_state" where
  "renew_comet L s env md req st =
     (case req of
        None \<Rightarrow> (Inl (invalid_request ''''), st)
      | Some q \<Rightarrow>
      case comet_auth s md (qn_identity q) '''' of
        Inl e \<Rightarrow> (Inl e, st)
      | Inr _ \<Rightarrow>
        if \<not> valid_request_id (qn_request q) then (Inl (invalid_request ''''), st)
        else routed_call (qn_request q)
               (st_renew L (lg_routes s) (le_redis env 0) (qn_identity q) (qn_draining q) (lo_redis st)) st)"

definition unregister_comet ::
  "lib \<Rightarrow> logic_service \<Rightarrow> logic_env \<Rightarrow> string list \<Rightarrow> unregister_request option \<Rightarrow> logic_state \<Rightarrow>
   (rpc_status + delete_outcome) \<times> logic_state" where
  "unregister_comet L s env md req st =
     (case req of
        None \<Rightarrow> (Inl (invalid_request ''''), st)
      | Some q \<Rightarrow>
      case comet_auth s md (qu_identity q) '''' of
        Inl e \<Rightarrow> (Inl e, st)
      | Inr _ \<Rightarrow>
        if \<not> valid_request_id (qu_request q) then (Inl (invalid_request ''''), st)
        else routed_call (qu_request q)
               (st_unregister L (lg_routes s) (le_redis env 0) (qu_identity q) (lo_redis st)) st)"

section \<open>Connections\<close>

text \<open>The channel of kicks holds 128 entries; a kick that finds it full is dropped.\<close>

definition queue_kick :: "conn_id option \<Rightarrow> logic_state \<Rightarrow> logic_state" where
  "queue_kick target st = (if length (lo_kicks st) < 128 then st\<lparr>lo_kicks := lo_kicks st @ [target]\<rparr> else st)"

definition logic_connect ::
  "lib \<Rightarrow> jwt_lib \<Rightarrow> logic_service \<Rightarrow> logic_env \<Rightarrow> string list \<Rightarrow> connect_request option \<Rightarrow> logic_state \<Rightarrow>
   (rpc_status + (route_lease option \<times> route_lease option)) \<times> logic_state" where
  "logic_connect L J s env md req st =
     (case req of
        None \<Rightarrow> (Inl (invalid_request ''''), st)
      | Some q \<Rightarrow>
      case comet_auth s md (qc_comet q) '''' of
        Inl e \<Rightarrow> (Inl e, st)
      | Inr _ \<Rightarrow>
        if \<not> valid_request_id (qc_request q) \<or> 8192 < length (qc_jwt q) then (Inl (invalid_request ''''), st)
        else case parse_jwt J (qc_jwt q) (lg_secret s) of
          None \<Rightarrow> (Inl (bad_credential (qc_request q)), st)
        | Some (user, expires) \<Rightarrow>
          if \<not> valid_id L user (CHR ''U'') then (Inl (bad_credential (qc_request q)), st)
          else case le_user env user of
            Inl e \<Rightarrow> (Inl (logic_map_error e (qc_request q)), st)
          | Inr False \<Rightarrow> (Inl (bad_credential (qc_request q)), st)
          | Inr True \<Rightarrow>
            let (r, S) = st_connect L (lg_routes s) (le_redis env 0) (qc_comet q) user (qc_connection q) (qc_token q) expires (lo_redis st);
                st' = st\<lparr>lo_redis := S\<rparr>
            in case r of
                 Inl e \<Rightarrow> (Inl (logic_map_error (LRoute e) (qc_request q)), st')
               | Inr (route, old) \<Rightarrow>
                 (Inr (route, old),
                  if old \<noteq> None \<and> \<not> same_connection (rl_identity (the old)) (rl_identity (the route))
                  then queue_kick (rl_identity (the old)) st' else st'))"

definition connection_auth ::
  "lib \<Rightarrow> logic_service \<Rightarrow> redis_io \<Rightarrow> string list \<Rightarrow> conn_id option \<Rightarrow> logic_state \<Rightarrow> (rpc_status + comet_grant) \<times> logic_state" where
  "connection_auth L s io md i st =
     (case i of
        None \<Rightarrow> (Inl (invalid_request ''''), st)
      | Some c \<Rightarrow>
      case comet_auth s md None (cn_instance c) of
        Inl e \<Rightarrow> (Inl e, st)
      | Inr g \<Rightarrow>
        let (r, S) = st_resolve L (lg_routes s) io [cn_instance c] (lo_redis st);
            missing = Inl (logic_map_error (LRoute RNotRegistered) '''')
        in (case r of
              Inl e \<Rightarrow> Inl (logic_map_error (LRoute e) '''')
            | Inr [x] \<Rightarrow>
              (case cr_state x of
                 LeaseState (Some lease) \<Rightarrow>
                   if ci_boot (the (cl_identity lease)) \<noteq> ci_boot (the (cg_identity g)) then missing else Inr g
               | _ \<Rightarrow> missing)
            | Inr _ \<Rightarrow> missing,
            st\<lparr>lo_redis := S\<rparr>))"

definition logic_heartbeat ::
  "lib \<Rightarrow> logic_service \<Rightarrow> logic_env \<Rightarrow> string list \<Rightarrow> connection_request option \<Rightarrow> logic_state \<Rightarrow>
   (rpc_status + route_lease option) \<times> logic_state" where
  "logic_heartbeat L s env md req st =
     (case req of
        None \<Rightarrow> (Inl (invalid_request ''''), st)
      | Some q \<Rightarrow>
        if \<not> valid_request_id (qi_request q) then (Inl (invalid_request ''''), st)
        else
          let (a, st') = connection_auth L s (le_redis env 0) md (qi_identity q) st in
          case a of
            Inl e \<Rightarrow> (Inl e, st')
          | Inr _ \<Rightarrow> routed_call (qi_request q) (st_heartbeat L (lg_routes s) (le_redis env 1) (qi_identity q) (lo_redis st')) st')"

definition logic_disconnect ::
  "lib \<Rightarrow> logic_service \<Rightarrow> logic_env \<Rightarrow> string list \<Rightarrow> connection_request option \<Rightarrow> logic_state \<Rightarrow>
   (rpc_status + delete_outcome) \<times> logic_state" where
  "logic_disconnect L s env md req st =
     (case req of
        None \<Rightarrow> (Inl (invalid_request ''''), st)
      | Some q \<Rightarrow>
        if \<not> valid_request_id (qi_request q) then (Inl (invalid_request ''''), st)
        else case qi_identity q of
          None \<Rightarrow> (Inl (invalid_request ''''), st)
        | Some c \<Rightarrow>
        case comet_auth s md None (cn_instance c) of
          Inl e \<Rightarrow> (Inl e, st)
        | Inr _ \<Rightarrow> routed_call (qi_request q) (st_disconnect L (lg_routes s) (le_redis env 0) (Some c) (lo_redis st)) st)"

section \<open>Messages\<close>

definition submit_message ::
  "lib \<Rightarrow> dbms \<Rightarrow> logic_service \<Rightarrow> logic_env \<Rightarrow> string list \<Rightarrow> submit_request option \<Rightarrow> logic_state \<Rightarrow>
   (rpc_status + send_result) \<times> logic_state" where
  "submit_message L D s env md req st =
     (case req of
        None \<Rightarrow> (Inl (invalid_request ''''), st)
      | Some q \<Rightarrow>
        if \<not> valid_request_id (qs_request q) \<or> \<not> valid_uuid L (qs_client q) \<or> qs_content q = [] \<or> 16384 < length (qs_content q) \<or>
           \<not> utf8_valid (qs_content q)
        then (Inl (invalid_request ''''), st)
        else
          let (a, st1) = connection_auth L s (le_redis env 0) md (qs_identity q) st in
          case a of
            Inl e \<Rightarrow> (Inl e, st1)
          | Inr _ \<Rightarrow>
          let (r, S) = st_check L (lg_routes s) (le_redis env 1) (qs_identity q) (lo_redis st1); st2 = st1\<lparr>lo_redis := S\<rparr> in
          case r of
            Inl e \<Rightarrow> (Inl (logic_map_error (LRoute e) (qs_request q)), st2)
          | Inr _ \<Rightarrow>
          let (sd, T) = save_message L D (le_save env)
                \<lparr>in_sender = cn_user (the (qs_identity q)), in_client = qs_client q, in_dest = qs_dest q, in_content = qs_content q\<rparr>
                (lo_db st2);
              st3 = st2\<lparr>lo_db := T\<rparr>
          in case sd of
            Inl e \<Rightarrow> (Inl (logic_map_error (LStore e) (qs_request q)), st3)
          | Inr saved \<Rightarrow>
            let (result, st4) = dispatch L s env 2 (qs_client q) saved (qs_request q) st3 in (Inr result, st4))"

definition send_ai ::
  "lib \<Rightarrow> dbms \<Rightarrow> logic_service \<Rightarrow> logic_env \<Rightarrow> string \<Rightarrow> string \<Rightarrow> string \<Rightarrow> string \<Rightarrow> logic_state \<Rightarrow>
   (logic_error + send_result) \<times> logic_state" where
  "send_ai L D s env user session client_id content st =
     (case st_ping (le_redis env 0) of
        Inl e \<Rightarrow> (Inl (LRoute e), st)
      | Inr _ \<Rightarrow>
        let c = (if client_id = [] then le_client env else client_id);
            (sd, T) = save_ai L D (le_save env) user session c content (lo_db st);
            st' = st\<lparr>lo_db := T\<rparr>
        in case sd of
          Inl e \<Rightarrow> (Inl (LStore e), st')
        | Inr saved \<Rightarrow>
          let (result, st'') = dispatch L s env 1 c saved (le_request env) st' in (Inr result, st''))"

section \<open>Lookups of Job\<close>

definition lookup_routes ::
  "lib \<Rightarrow> logic_service \<Rightarrow> logic_env \<Rightarrow> string list \<Rightarrow> batch_request option \<Rightarrow> logic_state \<Rightarrow>
   (rpc_status + route_result list) \<times> logic_state" where
  "lookup_routes L s env md req st =
     (case job_auth s md of
        Inl e \<Rightarrow> (Inl e, st)
      | Inr _ \<Rightarrow>
        case req of
          None \<Rightarrow> (Inl (invalid_request ''''), st)
        | Some q \<Rightarrow>
          if \<not> valid_request_id (qb_request q) then (Inl (invalid_request ''''), st)
          else routed_call (qb_request q) (st_lookup L (lg_routes s) (le_redis env 0) (qb_ids q) (lo_redis st)) st)"

definition resolve_comets ::
  "lib \<Rightarrow> logic_service \<Rightarrow> logic_env \<Rightarrow> string list \<Rightarrow> batch_request option \<Rightarrow> logic_state \<Rightarrow>
   (rpc_status + comet_resolution list) \<times> logic_state" where
  "resolve_comets L s env md req st =
     (case job_auth s md of
        Inl e \<Rightarrow> (Inl e, st)
      | Inr _ \<Rightarrow>
        case req of
          None \<Rightarrow> (Inl (invalid_request ''''), st)
        | Some q \<Rightarrow>
          if \<not> valid_request_id (qb_request q) then (Inl (invalid_request ''''), st)
          else routed_call (qb_request q) (st_resolve L (lg_routes s) (le_redis env 0) (qb_ids q) (lo_redis st)) st)"

section \<open>Kicks\<close>

text \<open>
  One task of a kick worker: the lease is resolved and must belong to a grant; the request then goes, with the kick token, to
  the granted address. \<open>dialled\<close> tells whether the address could be dialled.
\<close>

definition kick_allowed :: "logic_service \<Rightarrow> comet_lease \<Rightarrow> bool" where
  "kick_allowed s lease =
     list_ex (\<lambda>g. ci_instance (the (cg_identity g)) = ci_instance (the (cl_identity lease)) \<and>
                  ci_boot (the (cg_identity g)) = ci_boot (the (cl_identity lease)) \<and> cg_address g = cl_address lease) (lg_grants s)"

definition kick_task ::
  "lib \<Rightarrow> logic_service \<Rightarrow> redis_io \<Rightarrow> bool \<Rightarrow> conn_id option \<Rightarrow> redis \<Rightarrow> (string \<times> string list \<times> kick_request) option" where
  "kick_task L s io dialled target S =
     (case fst (st_resolve L (lg_routes s) io [cn_instance (the target)] S) of
        Inr [x] \<Rightarrow>
          (case cr_state x of
             LeaseState (Some lease) \<Rightarrow>
               if \<not> kick_allowed s lease \<or> \<not> dialled then None
               else Some (cl_address lease, [''Bearer '' @ lg_kick s],
                 \<lparr>kq_request = [], kq_comet = cl_identity lease, kq_target = target, kq_reason = KICK_REASON_REPLACED\<rparr>)
           | _ \<Rightarrow> None)
      | _ \<Rightarrow> None)"

text \<open>A worker takes the oldest task.\<close>

definition kick_worker ::
  "lib \<Rightarrow> logic_service \<Rightarrow> redis_io \<Rightarrow> bool \<Rightarrow> logic_state \<Rightarrow> (string \<times> string list \<times> kick_request) option \<times> logic_state" where
  "kick_worker L s io dialled st =
     (case lo_kicks st of
        [] \<Rightarrow> (None, st)
      | target # rest \<Rightarrow> (kick_task L s io dialled target (lo_redis st), st\<lparr>lo_kicks := rest\<rparr>))"

text \<open>\<open>cometPool\<close>: one client connection per address; \<open>NewClient\<close> fails on the addresses \<open>dials\<close> rejects.\<close>

record comet_pool =
  cp_connections :: "(string \<times> nat) list"
  cp_opened :: nat

definition new_pool :: comet_pool where
  "new_pool = \<lparr>cp_connections = [], cp_opened = 0\<rparr>"

definition pool_client :: "(string \<Rightarrow> bool) \<Rightarrow> ctx_err option \<Rightarrow> string \<Rightarrow> comet_pool \<Rightarrow> (ctx_err option + nat) \<times> comet_pool" where
  "pool_client dials ctx address p =
     (if ctx \<noteq> None then (Inl ctx, p)
      else case map_of (cp_connections p) address of
        Some c \<Rightarrow> (Inr c, p)
      | None \<Rightarrow>
        if \<not> dials address then (Inl None, p)
        else (Inr (cp_opened p), p\<lparr>cp_connections := (address, cp_opened p) # cp_connections p, cp_opened := Suc (cp_opened p)\<rparr>))"

definition pool_close :: "comet_pool \<Rightarrow> nat list" where
  "pool_close p = map snd (cp_connections p)"

end
