(* ===== verification/JobRuntime.thy ===== *)
theory JobRuntime
  imports JobReplay LogicService
begin

text \<open>
  The process around the consumer (\<open>internal/job/app\<close>): its configuration (\<open>config.go\<close>), the dead-letter sink, the partition
  source and the loop of the group member (\<open>kafka.go\<close>), the table of progress, the probes and \<open>Run\<close> (\<open>runtime.go\<close>), the RPC pool
  (\<open>rpc.go\<close>) and the sockets of the Kafka client (\<open>network.go\<close>). The Kafka library's answers, clocks, contexts and what other
  goroutines do between two steps are the environment.
\<close>

section \<open>Configuration\<close>

record job_config =
  jc_http :: string
  jc_logic :: string
  jc_token :: string
  jc_brokers :: "string list"
  jc_topic :: string
  jc_group :: string
  jc_dlq :: string

definition probe_address :: "string \<Rightarrow> bool \<Rightarrow> bool" where
  "probe_address address zero =
     (case split_host_port address of
        None \<Rightarrow> False
      | Some (host, port) \<Rightarrow>
        (case parse_int64 port of None \<Rightarrow> False | Some n \<Rightarrow> 0 \<le> n \<and> n \<le> 65535 \<and> (zero \<or> 0 < n)) \<and>
        (host = ''localhost'' \<or> (case parse_ip host of None \<Rightarrow> False | Some ip \<Rightarrow> loopback ip)))"

definition named_as :: "string \<Rightarrow> string \<Rightarrow> bool" where
  "named_as s prefix =
     (if 249 < length s \<or> s \<noteq> prefix \<and> (\<not> has_prefix s (prefix @ ''.'') \<or> length s = length prefix + 1) then False
      else list_all topic_char s)"

definition job_broker :: "string \<Rightarrow> bool" where
  "job_broker b =
     (case split_host_port b of
        None \<Rightarrow> False
      | Some (host, port) \<Rightarrow>
        (case parse_int64 port of None \<Rightarrow> False | Some n \<Rightarrow> host \<noteq> [] \<and> 1 \<le> n \<and> n \<le> 65535 \<and> format_int n = port) \<and>
        \<not> contains_any b (''/@?# '' @ [char_of (9::nat), char_of (13::nat), char_of (10::nat), char_of (92::nat)]))"

definition valid_job_config :: "job_config \<Rightarrow> bool" where
  "valid_job_config c =
     (if \<not> probe_address (jc_http c) True \<or> \<not> probe_address (jc_logic c) False \<or> length (jc_token c) < 32 \<or>
         256 < length (jc_token c) \<or> jc_brokers c = [] \<or> \<not> named_as (jc_topic c) ''fable.push.v1'' \<or>
         \<not> named_as (jc_dlq c) ''fable.push.dlq.v1'' \<or> \<not> named_as (jc_group c) ''fable-push-job-v1''
      then False
      else if \<not> all_bytes 33 126 (jc_token c) then False
      else list_all job_broker (jc_brokers c))"

fun split_commas :: "string \<Rightarrow> string list" where
  "split_commas [] = [[]]"
| "split_commas (c # s) =
     (if c = CHR '','' then [] # split_commas s
      else case split_commas s of [] \<Rightarrow> [[c]] | x # xs \<Rightarrow> (c # x) # xs)"

text \<open>\<open>LoadConfig\<close>: the decoded file (\<open>None\<close> when it cannot be read), then the defaults, then the environment variables.\<close>

definition default_config :: "job_config \<Rightarrow> job_config" where
  "default_config f =
     f\<lparr>jc_http := (if jc_http f = [] then ''127.0.0.1:18082'' else jc_http f),
       jc_logic := (if jc_logic f = [] then ''127.0.0.1:19001'' else jc_logic f),
       jc_topic := (if jc_topic f = [] then ''fable.push.v1'' else jc_topic f),
       jc_group := (if jc_group f = [] then ''fable-push-job-v1'' else jc_group f),
       jc_dlq := (if jc_dlq f = [] then ''fable.push.dlq.v1'' else jc_dlq f),
       jc_brokers := (if jc_brokers f = [] then [''127.0.0.1:9092''] else jc_brokers f)\<rparr>"

definition overlay_config :: "(string \<Rightarrow> string option) \<Rightarrow> job_config \<Rightarrow> job_config" where
  "overlay_config env c =
     (let over = (\<lambda>name old. case env name of None \<Rightarrow> old | Some s \<Rightarrow> s) in
      c\<lparr>jc_http := over ''FABLE_JOB_HTTP_ADDR'' (jc_http c), jc_logic := over ''FABLE_JOB_LOGIC_ADDR'' (jc_logic c),
        jc_token := over ''FABLE_JOB_TOKEN'' (jc_token c), jc_topic := over ''FABLE_KAFKA_TOPIC'' (jc_topic c),
        jc_group := over ''FABLE_JOB_GROUP'' (jc_group c), jc_dlq := over ''FABLE_JOB_DLQ_TOPIC'' (jc_dlq c),
        jc_brokers := (case env ''FABLE_KAFKA_BROKERS'' of None \<Rightarrow> jc_brokers c | Some s \<Rightarrow> map trim_space (split_commas s))\<rparr>)"

definition load_config :: "job_config option \<Rightarrow> (string \<Rightarrow> string option) \<Rightarrow> job_config option" where
  "load_config file env =
     (case file of
        None \<Rightarrow> None
      | Some f \<Rightarrow> let c = overlay_config env (default_config f) in if \<not> valid_job_config c then None else Some c)"

section \<open>The dead-letter sink\<close>

datatype sink_error = KafkaDown | SinkCtx ctx_err

definition publish_dead :: "(ctx_err option) option \<Rightarrow> string \<times> string \<Rightarrow> (sink_error + unit) \<times> (string \<times> string) list" where
  "publish_dead ans m =
     (case ans of
        None \<Rightarrow> (Inr (), [m])
      | Some (Some e) \<Rightarrow> (Inl (SinkCtx e), [m])
      | Some None \<Rightarrow> (Inl KafkaDown, [m]))"

text \<open>\<open>kafkaSink.Write\<close>: the key names the source; the answer of the writer is its failure with the bounded context's error.\<close>

definition sink_write :: "(ctx_err option) option \<Rightarrow> dead_letter \<Rightarrow> (sink_error + unit) \<times> (string \<times> string) list" where
  "sink_write ans d =
     (case marshal_dead d of
        None \<Rightarrow> (Inl KafkaDown, [])
      | Some raw \<Rightarrow> publish_dead ans (dl_topic d @ '':'' @ format_int (dl_partition d) @ '':'' @ dl_offset d, raw))"

definition sink_partition :: "partition_meta \<Rightarrow> bool" where
  "sink_partition p = (\<not> (pm_error p \<or> pm_host p = [] \<or> pm_isr p = 0))"

text \<open>The loop over the topics of the answer; \<open>None\<close> is the early negative answer.\<close>

fun sink_topic :: "string \<Rightarrow> topic_meta list \<Rightarrow> bool \<Rightarrow> bool option" where
  "sink_topic name [] found = Some found"
| "sink_topic name (t # ts) found =
     (if tm_name t \<noteq> name then sink_topic name ts found
      else if tm_error t \<or> tm_partitions t = [] then None
      else if \<not> list_all sink_partition (tm_partitions t) then None
      else sink_topic name ts True)"

definition sink_ready :: "cluster_meta option \<Rightarrow> string list \<Rightarrow> bool" where
  "sink_ready ans topics =
     (case ans of
        None \<Rightarrow> False
      | Some r \<Rightarrow> if cm_brokers r = 0 then False else list_all (\<lambda>name. sink_topic name (cm_topics r) False = Some True) topics)"

section \<open>Ownership and progress\<close>

record partition_progress =
  pp_offset :: int
  pp_lag :: int
  pp_processed :: int
  pp_committed :: int

record runtime_state =
  ru_alive :: bool
  ru_joined :: bool
  ru_partitions :: "int \<rightharpoonup> partition_progress"
  ru_generation :: int

definition no_progress :: partition_progress where
  "no_progress = \<lparr>pp_offset = 0, pp_lag = 0, pp_processed = 0, pp_committed = 0\<rparr>"

definition assign_generation :: "int \<Rightarrow> int list \<Rightarrow> runtime_state \<Rightarrow> runtime_state" where
  "assign_generation g ids s =
     s\<lparr>ru_generation := g, ru_partitions := (\<lambda>p. if p \<in> set ids then Some no_progress else None), ru_joined := True\<rparr>"

definition release_generation :: "int \<Rightarrow> runtime_state \<Rightarrow> runtime_state" where
  "release_generation g s = (if ru_generation s \<noteq> g then s else s\<lparr>ru_partitions := Map.empty, ru_joined := False\<rparr>)"

definition set_lag :: "int \<Rightarrow> int \<Rightarrow> int \<Rightarrow> runtime_state \<Rightarrow> runtime_state" where
  "set_lag g p lag s =
     (case ru_partitions s p of
        None \<Rightarrow> s
      | Some x \<Rightarrow> if ru_generation s \<noteq> g then s else s\<lparr>ru_partitions := (ru_partitions s)(p \<mapsto> x\<lparr>pp_lag := lag\<rparr>)\<rparr>)"

definition set_progress :: "int \<Rightarrow> int \<Rightarrow> int \<Rightarrow> bool \<Rightarrow> int \<Rightarrow> runtime_state \<Rightarrow> runtime_state" where
  "set_progress g p offset commit now s =
     (case ru_partitions s p of
        None \<Rightarrow> s
      | Some x \<Rightarrow>
        if ru_generation s \<noteq> g then s
        else
          let y = x\<lparr>pp_offset := offset\<rparr> in
          s\<lparr>ru_partitions := (ru_partitions s)(p \<mapsto> if commit then y\<lparr>pp_committed := now\<rparr> else y\<lparr>pp_processed := now\<rparr>)\<rparr>)"

section \<open>One partition\<close>

record partition_source =
  so_generation :: int
  so_topic :: string
  so_partition :: int

definition source_fetch :: "partition_source \<Rightarrow> kafka_message option \<Rightarrow> int \<Rightarrow> runtime_state \<Rightarrow> kafka_message option \<times> runtime_state" where
  "source_fetch p ans lag s =
     (ans, case ans of None \<Rightarrow> s | Some _ \<Rightarrow> set_lag (so_generation p) (so_partition p) lag s)"

definition source_processed :: "partition_source \<Rightarrow> kafka_message \<Rightarrow> int \<Rightarrow> runtime_state \<Rightarrow> runtime_state" where
  "source_processed p m now s = set_progress (so_generation p) (so_partition p) (km_offset m) False now s"

text \<open>\<open>Commit\<close>, with the offset sent to the group's coordinator (the next one to read) and its answer.\<close>

definition source_commit ::
  "partition_source \<Rightarrow> ctx_err option \<Rightarrow> bool \<Rightarrow> int \<Rightarrow> kafka_message \<Rightarrow> runtime_state \<Rightarrow>
   (sink_error + unit) \<times> (int \<times> int) option \<times> runtime_state" where
  "source_commit p ctx accepted now m s =
     (case ctx of
        Some e \<Rightarrow> (Inl (SinkCtx e), None, s)
      | None \<Rightarrow>
        if km_topic m \<noteq> so_topic p \<or> km_partition m \<noteq> so_partition p \<or> km_offset m < 0 then (Inl KafkaDown, None, s)
        else if accepted then
          (Inr (), Some (so_partition p, km_offset m + 1), set_progress (so_generation p) (so_partition p) (km_offset m) True now s)
        else (Inl KafkaDown, Some (so_partition p, km_offset m + 1), s))"

section \<open>The group member\<close>

record member =
  mb_failed :: bool
  mb_cancelled :: bool
  mb_errors :: nat
  mb_state :: runtime_state

text \<open>What the other goroutines do meanwhile: a worker fails, the parent's context ends, a generation ends, a lag is read, or an
  offset is processed or committed.\<close>

datatype member_event = WorkerFailed | ParentCancelled | GenerationEnded int | LagRead int int int | OffsetDone int int int bool int

fun member_exec :: "member_event \<Rightarrow> member \<Rightarrow> member" where
  "member_exec WorkerFailed m = m\<lparr>mb_failed := True, mb_state := (mb_state m)\<lparr>ru_joined := False\<rparr>, mb_cancelled := True\<rparr>"
| "member_exec ParentCancelled m = m\<lparr>mb_cancelled := True\<rparr>"
| "member_exec (GenerationEnded g) m = m\<lparr>mb_state := release_generation g (mb_state m)\<rparr>"
| "member_exec (LagRead g p lag) m = m\<lparr>mb_state := set_lag g p lag (mb_state m)\<rparr>"
| "member_exec (OffsetDone g p offset commit now) m = m\<lparr>mb_state := set_progress g p offset commit now (mb_state m)\<rparr>"

text \<open>The answer of \<open>Next\<close>: a generation with its assignments (partition and offset), or an error and whether it is a rebalance.\<close>

datatype next_answer = NextGeneration int "(int \<times> int) list" | NextFailed bool

record member_env =
  me_events :: "nat \<Rightarrow> member_event list"
  me_next :: next_answer

definition member_stop :: "member \<Rightarrow> sink_error + unit" where
  "member_stop m = (if mb_failed m then Inl KafkaDown else Inr ())"

text \<open>
  One turn of the loop of \<open>runConsumer\<close>, with the generation it starts. Events happen before every load of the shared flags.
\<close>

definition member_turn ::
  "member_env \<Rightarrow> member \<Rightarrow> (sink_error + unit) option \<times> member \<times> (int \<times> (int \<times> int) list) list" where
  "member_turn env m =
     (let meanwhile = (\<lambda>k. fold member_exec (me_events env k)); m = meanwhile 0 m in
      if mb_cancelled m then let m = meanwhile 1 m in (Some (member_stop m), m, [])
      else
        let m = meanwhile 1 m in
        if mb_failed m then (Some (Inl KafkaDown), m, [])
        else
          let m = meanwhile 2 m in
          (case me_next env of
             NextFailed rebalance \<Rightarrow>
               let m = meanwhile 3 (m\<lparr>mb_state := (mb_state m)\<lparr>ru_joined := False\<rparr>\<rparr>) in
               if mb_cancelled m then let m = meanwhile 4 m in (Some (member_stop m), m, [])
               else if rebalance then (None, m, [])
               else
                 let m = m\<lparr>mb_errors := mb_errors m + 1\<rparr> in
                 if 3 \<le> mb_errors m then (Some (Inl KafkaDown), m, []) else (None, m, [])
           | NextGeneration g assignments \<Rightarrow>
               let m = meanwhile 3 m in
               if mb_failed m then (Some (Inl KafkaDown), m, [])
               else
                 let m = meanwhile 4 (m\<lparr>mb_errors := 0\<rparr>) in
                 (None, m\<lparr>mb_state := assign_generation g (map fst assignments) (mb_state m)\<rparr>, [(g, assignments)])))"

fun member_run ::
  "member_env list \<Rightarrow> member \<Rightarrow> (sink_error + unit) option \<times> member \<times> (int \<times> (int \<times> int) list) list" where
  "member_run [] m = (None, m, [])"
| "member_run (env # envs) m =
     (let (r, m', started) = member_turn env m in
      case r of
        Some x \<Rightarrow> (Some x, m', started)
      | None \<Rightarrow> let (x, m'', more) = member_run envs m' in (x, m'', started @ more))"

text \<open>\<open>runConsumer\<close>: whether the group could be opened, then the loop.\<close>

definition run_consumer ::
  "bool \<Rightarrow> bool \<Rightarrow> member_env list \<Rightarrow> runtime_state \<Rightarrow> (sink_error + unit) option \<times> member \<times> (int \<times> (int \<times> int) list) list" where
  "run_consumer opened cancelled envs s =
     (let m = \<lparr>mb_failed = False, mb_cancelled = cancelled, mb_errors = 0, mb_state = s\<rparr> in
      if \<not> opened then (Some (Inl KafkaDown), m, []) else member_run envs m)"

section \<open>Workers\<close>

text \<open>A turn of \<open>RunPartition\<close> over a partition source: every commit goes through \<open>source_commit\<close>.\<close>

record commit_call =
  cc_ctx :: "ctx_err option"
  cc_inner :: "ctx_err option"
  cc_accepted :: bool
  cc_pause :: "ctx_err option"

definition idle_state :: runtime_state where
  "idle_state = \<lparr>ru_alive = False, ru_joined = False, ru_partitions = Map.empty, ru_generation = 0\<rparr>"

definition commit_try :: "partition_source \<Rightarrow> kafka_message option \<Rightarrow> commit_call \<Rightarrow> ack_try" where
  "commit_try src m call =
     \<lparr>at_ctx = cc_ctx call,
      at_ok = (case m of None \<Rightarrow> False
               | Some x \<Rightarrow> fst (source_commit src (cc_inner call) (cc_accepted call) 0 x
                   idle_state) = Inr ()),
      at_pause = cc_pause call\<rparr>"

definition worker_turn ::
  "lib \<Rightarrow> task_process \<Rightarrow> step_env \<Rightarrow> (nat \<Rightarrow> commit_call) \<Rightarrow> partition_source \<Rightarrow> consumer \<Rightarrow>
   (run_error + unit) \<times> action list \<times> consumer" where
  "worker_turn L proc env calls src c =
     consume_one L proc (env\<lparr>se_commit := \<lambda>k. commit_try src (se_fetch env) (calls k)\<rparr>) c"

section \<open>Connections\<close>

text \<open>The RPC pool: at most \<open>limit\<close> clients, one per address, none after it was closed.\<close>

record rpc_pool =
  rp_clients :: "(string \<times> nat) list"
  rp_limit :: nat
  rp_closed :: bool
  rp_opened :: nat

definition new_rpc_pool :: "nat \<Rightarrow> rpc_pool" where
  "new_rpc_pool limit = \<lparr>rp_clients = [], rp_limit = limit, rp_closed = False, rp_opened = 0\<rparr>"

datatype pool_error = PoolCtx ctx_err | PoolUnavailable

definition rpc_get :: "(string \<Rightarrow> bool) \<Rightarrow> ctx_err option \<Rightarrow> string \<Rightarrow> rpc_pool \<Rightarrow> (pool_error + nat) \<times> rpc_pool" where
  "rpc_get dials ctx address p =
     (case ctx of
        Some e \<Rightarrow> (Inl (PoolCtx e), p)
      | None \<Rightarrow>
        if \<not> probe_address address False then (Inl PoolUnavailable, p)
        else if rp_closed p then (Inl PoolUnavailable, p)
        else case map_of (rp_clients p) address of
          Some c \<Rightarrow> (Inr c, p)
        | None \<Rightarrow>
          if rp_limit p \<le> length (rp_clients p) then (Inl PoolUnavailable, p)
          else if \<not> dials address then (Inl PoolUnavailable, p)
          else (Inr (rp_opened p), p\<lparr>rp_clients := (address, rp_opened p) # rp_clients p, rp_opened := Suc (rp_opened p)\<rparr>))"

text \<open>\<open>Close\<close>, with the clients it closes.\<close>

definition rpc_close :: "rpc_pool \<Rightarrow> rpc_pool \<times> nat list" where
  "rpc_close p = (p\<lparr>rp_closed := True, rp_clients := []\<rparr>, map snd (rp_clients p))"

text \<open>The sockets of the Kafka client: registered while open, closed together with the process, refused afterwards.\<close>

record kafka_network =
  kn_connections :: "nat list"
  kn_closed :: bool
  kn_shut :: "nat list"

definition net_dial :: "nat option \<Rightarrow> kafka_network \<Rightarrow> nat option \<times> kafka_network" where
  "net_dial raw n =
     (case raw of
        None \<Rightarrow> (None, n)
      | Some c \<Rightarrow>
        if kn_closed n then (None, n\<lparr>kn_shut := c # kn_shut n\<rparr>)
        else (Some c, n\<lparr>kn_connections := c # removeAll c (kn_connections n)\<rparr>))"

definition net_close_conn :: "nat \<Rightarrow> kafka_network \<Rightarrow> kafka_network" where
  "net_close_conn c n =
     (if c \<in> set (kn_shut n) then n else n\<lparr>kn_shut := c # kn_shut n, kn_connections := removeAll c (kn_connections n)\<rparr>)"

definition net_close_sockets :: "kafka_network \<Rightarrow> kafka_network" where
  "net_close_sockets n = fold net_close_conn (kn_connections n) (n\<lparr>kn_closed := True\<rparr>)"

section \<open>Probes\<close>

definition job_probe :: "string \<Rightarrow> bool \<Rightarrow> bool \<Rightarrow> bool \<Rightarrow> runtime_state \<Rightarrow> nat" where
  "job_probe verb ready blocked dependencies s =
     (if verb \<noteq> ''GET'' then 405
      else
        let ok = ru_alive s;
            ok = (if ready then
                    let ok = ok \<and> ru_joined s \<and> \<not> blocked in if ok then dependencies else ok
                  else ok)
        in if \<not> ok then 503 else 200)"

section \<open>The process\<close>

datatype job_error = BadConfig | JobPool pool_error | ListenerDown | ConsumerFailed sink_error | ConsumerStopped | ServerStopped | GraceExceeded

text \<open>What the select of \<open>Run\<close> sees first.\<close>

datatype first_exit = ExitCtx | ExitConsumer "sink_error + unit" bool | ExitServer bool

datatype job_action = PoolOpened | SinkOpened | AliveSet | ListenerOpened | ServerStarted | ConsumerStarted | Cancelled | ServerShutdown | ServerClosed
  | ConsumerExited | ListenerClosed | AliveCleared | SinkClosed | PoolClosed

record run_env =
  rn_cancelled :: bool
  rn_pool :: "pool_error + unit"
  rn_processor :: bool
  rn_listen :: bool
  rn_first :: first_exit
  rn_shutdown :: bool

definition exit_result :: "first_exit \<Rightarrow> job_error option" where
  "exit_result x =
     (case x of
        ExitCtx \<Rightarrow> None
      | ExitConsumer r cancelled \<Rightarrow>
          (if cancelled then None else case r of Inl e \<Rightarrow> Some (ConsumerFailed e) | Inr _ \<Rightarrow> Some ConsumerStopped)
      | ExitServer unexpected \<Rightarrow> if unexpected then Some ServerStopped else None)"

text \<open>\<open>Run\<close>, with what it opens and closes in order; deferred calls run last to first.\<close>

definition job_run :: "run_env \<Rightarrow> job_config \<Rightarrow> job_error option \<times> job_action list" where
  "job_run env c =
     (if \<not> valid_job_config c then (Some BadConfig, [])
      else if rn_cancelled env then (None, [])
      else
        case rn_pool env of
          Inl e \<Rightarrow> (Some (JobPool e), [PoolOpened, PoolClosed])
        | Inr _ \<Rightarrow>
          if \<not> rn_processor env then (Some BadConfig, [PoolOpened, PoolClosed])
          else if \<not> rn_listen env then (Some ListenerDown, [PoolOpened, SinkOpened, AliveSet, AliveCleared, SinkClosed, PoolClosed])
          else
            let result = exit_result (rn_first env);
                exited = (case rn_first env of ExitConsumer _ _ \<Rightarrow> True | _ \<Rightarrow> False);
                result = (if \<not> rn_shutdown env \<and> result = None then Some GraceExceeded else result)
            in (result,
                [PoolOpened, SinkOpened, AliveSet, ListenerOpened, ServerStarted, ConsumerStarted] @
                (if exited then [ConsumerExited] else []) @ [Cancelled, ServerShutdown] @ (if rn_shutdown env then [] else [ServerClosed]) @
                (if exited then [] else [ConsumerExited]) @ [ListenerClosed, AliveCleared, SinkClosed, PoolClosed]))"

end
