(* ===== verification/JobGroup.thy ===== *)
theory JobGroup
  imports JobRuntime
begin

text \<open>
  What the consumer group promises. \<open>group_step\<close> interleaves the turns of any number of workers over the broker, with the documented
  behaviour of Kafka as a hypothesis on its records; \<open>member_run\<close> is the loop that starts the generations.
\<close>

section \<open>Fencing of generations\<close>

lemma runtime_frames [simp]:
  "ru_generation (set_lag g p lag s) = ru_generation s" "ru_generation (set_progress g p o' k now s) = ru_generation s"
  "ru_generation (release_generation g s) = ru_generation s" "ru_generation (assign_generation g ids s) = g"
  "dom (ru_partitions (set_lag g p lag s)) = dom (ru_partitions s)" "dom (ru_partitions (set_progress g p o' k now s)) = dom (ru_partitions s)"
  "dom (ru_partitions (assign_generation g ids s)) = set ids"
  by (auto simp: set_lag_def set_progress_def release_generation_def assign_generation_def Let_def split: option.splits if_splits)

lemma release_dom: "dom (ru_partitions (release_generation g s)) \<subseteq> dom (ru_partitions s)"
  by (auto simp: release_generation_def)

text \<open>An event of a generation that is no longer the current one.\<close>

definition stale :: "int \<Rightarrow> member_event \<Rightarrow> bool" where
  "stale g e = (case e of GenerationEnded h \<Rightarrow> h \<noteq> g | LagRead h _ _ \<Rightarrow> h \<noteq> g | OffsetDone h _ _ _ _ \<Rightarrow> h \<noteq> g | _ \<Rightarrow> False)"

definition grown :: "member \<Rightarrow> member \<Rightarrow> bool" where
  "grown m m' =
     (ru_generation (mb_state m') = ru_generation (mb_state m) \<and> dom (ru_partitions (mb_state m')) \<subseteq> dom (ru_partitions (mb_state m)) \<and>
      (mb_failed m \<longrightarrow> mb_failed m') \<and> (mb_cancelled m \<longrightarrow> mb_cancelled m') \<and> mb_errors m' = mb_errors m \<and>
      ((mb_failed m \<longrightarrow> mb_cancelled m) \<longrightarrow> mb_failed m' \<longrightarrow> mb_cancelled m'))"

lemma grown_exec: "grown m (member_exec e m)"
  using release_dom by (cases e) (auto simp: grown_def)

lemma grown_fold: "grown m (fold member_exec es m)"
proof (induction es arbitrary: m)
  case (Cons e es)
  then show ?case using grown_exec [of m e] Cons.IH [of "member_exec e m"] by (simp add: grown_def) blast
qed (simp add: grown_def)

lemma stale_exec: "stale (ru_generation (mb_state m)) e \<Longrightarrow> member_exec e m = m"
  by (cases e) (auto simp: stale_def release_generation_def set_lag_def set_progress_def split: option.split)

lemma stale_events: "fold member_exec es m = fold member_exec (filter (\<lambda>e. \<not> stale (ru_generation (mb_state m)) e) es) m"
proof (induction es arbitrary: m)
  case (Cons e es)
  then show ?case using stale_exec [of m e] grown_exec [of m e] by (auto simp: grown_def)
qed simp

text \<open>What the table may show: only partitions of the generation started last.\<close>

definition owned_by :: "(int \<times> (int \<times> int) list) option \<Rightarrow> member \<Rightarrow> bool" where
  "owned_by g m =
     ((mb_failed m \<longrightarrow> mb_cancelled m) \<and>
      (case g of
         None \<Rightarrow> dom (ru_partitions (mb_state m)) = {}
       | Some (i, as) \<Rightarrow> ru_generation (mb_state m) = i \<and> dom (ru_partitions (mb_state m)) \<subseteq> fst ` set as))"

definition last_started :: "(int \<times> (int \<times> int) list) option \<Rightarrow> (int \<times> (int \<times> int) list) list \<Rightarrow> (int \<times> (int \<times> int) list) option" where
  "last_started g started = (if started = [] then g else Some (last started))"

lemma owned_grown: "owned_by g m \<Longrightarrow> grown m m' \<Longrightarrow> owned_by g m'"
  unfolding owned_by_def grown_def by (cases g) (auto split: prod.splits)

lemma owned_simps [simp]:
  "owned_by g (m\<lparr>mb_state := (mb_state m)\<lparr>ru_joined := b\<rparr>\<rparr>) = owned_by g m" "owned_by g (m\<lparr>mb_errors := n\<rparr>) = owned_by g m"
  by (simp_all add: owned_by_def split: option.split prod.split)

lemma owned_fold [simp]: "owned_by g m \<Longrightarrow> owned_by g (fold member_exec es m)"
  by (rule owned_grown [OF _ grown_fold])

lemma failed_fold [simp]: "mb_failed m \<Longrightarrow> mb_failed (fold member_exec es m)"
  "mb_cancelled m \<Longrightarrow> mb_cancelled (fold member_exec es m)" "mb_errors (fold member_exec es m) = mb_errors m"
  using grown_fold [of m es] by (simp_all add: grown_def)

lemma owned_assign:
  "owned_by g m \<Longrightarrow> owned_by (Some (i, as)) (m\<lparr>mb_state := assign_generation i (map fst as) (mb_state m)\<rparr>)"
  by (simp add: owned_by_def)

text \<open>Failures in a row: a generation resets the count, a rebalance keeps it.\<close>

fun next_errors :: "next_answer \<Rightarrow> nat \<Rightarrow> nat" where
  "next_errors (NextGeneration _ _) n = 0"
| "next_errors (NextFailed rebalance) n = (if rebalance then n else n + 1)"

lemma member_turn_sound:
  assumes "owned_by g m" and "member_turn env m = (r, m', started)"
  shows "owned_by (last_started g started) m'" "r = Some (Inr ()) \<Longrightarrow> mb_cancelled m' \<and> \<not> mb_failed m'"
    "mb_failed m \<Longrightarrow> started = [] \<and> r = Some (Inl KafkaDown)"
    "r = None \<Longrightarrow> mb_errors m' < 3 \<or> (\<exists>rb. me_next env = NextFailed rb \<and> rb)" "r = None \<Longrightarrow> mb_errors m' = next_errors (me_next env) (mb_errors m)"
proof -
  define m0 where "m0 = fold member_exec (me_events env 0) m"
  define m1 where "m1 = fold member_exec (me_events env 1) m0"
  define m2 where "m2 = fold member_exec (me_events env 2) m1"
  have o: "owned_by g m0" "owned_by g m1" "owned_by g m2" by (simp_all add: m0_def m1_def m2_def assms(1))
  note t = assms(2) [unfolded member_turn_def Let_def m0_def [symmetric] m1_def [symmetric] m2_def [symmetric]]
  have k: "owned_by g x \<Longrightarrow> mb_failed x \<Longrightarrow> mb_cancelled x" for x by (simp add: owned_by_def)
  show "owned_by (last_started g started) m'"
    using t o by (auto simp: last_started_def intro!: owned_assign [where g = g] split: if_splits next_answer.splits)
  show "r = Some (Inr ()) \<Longrightarrow> mb_cancelled m' \<and> \<not> mb_failed m'" 
    using t by (auto simp: member_stop_def m1_def split: if_splits next_answer.splits)
  show "mb_failed m \<Longrightarrow> started = [] \<and> r = Some (Inl KafkaDown)"
    using t k [OF o(1)] by (auto simp: member_stop_def m0_def m1_def split: if_splits)
  have e: "mb_errors m2 = mb_errors m" by (simp add: m0_def m1_def m2_def)
  show "r = None \<Longrightarrow> mb_errors m' < 3 \<or> (\<exists>rb. me_next env = NextFailed rb \<and> rb)"
    using t by (auto split: if_splits next_answer.splits)
  show "r = None \<Longrightarrow> mb_errors m' = next_errors (me_next env) (mb_errors m)"
    using t e by (auto split: if_splits next_answer.splits)
qed

lemma member_run_sound:
  assumes "owned_by g m" and "mb_errors m < 3" and "member_run envs m = (r, m', started)"
  shows "owned_by (last_started g started) m' \<and> (r = Some (Inr ()) \<longrightarrow> mb_cancelled m' \<and> \<not> mb_failed m') \<and>
    (mb_failed m \<and> envs \<noteq> [] \<longrightarrow> started = [] \<and> r = Some (Inl KafkaDown)) \<and>
    (r = None \<longrightarrow> mb_errors m' = fold next_errors (map me_next envs) (mb_errors m) \<and> mb_errors m' < 3)"
  using assms
proof (induction envs arbitrary: g m r m' started)
  case (Cons env envs)
  obtain x m1 s1 where t: "member_turn env m = (x, m1, s1)" by (metis prod.collapse)
  note f = member_turn_sound [OF Cons.prems(1) t]
  show ?case
  proof (cases x)
    case (Some y)
    then show ?thesis using f Cons.prems(3) t by auto
  next
    case None
    obtain y m2 s2 where r: "member_run envs m1 = (y, m2, s2)" by (metis prod.collapse)
    have e: "mb_errors m1 < 3" using f(4,5) None Cons.prems(2) by (auto simp: )
    have l: "last_started (last_started g s1) s2 = last_started g (s1 @ s2)" by (simp add: last_started_def)
    show ?thesis using Cons.IH [OF f(1) e r] f(3,5) None Cons.prems(3) t r l by auto
  qed
qed (auto simp: last_started_def)

section \<open>The group over the broker\<close>

text \<open>
  The offsets the group has committed, the workers with their positions, and everything they did. The records of a partition are
  all it ever holds, in order; nothing is assumed of which generation a worker belongs to, nor that a commit is fenced.
\<close>

record worker =
  wk_source :: partition_source
  wk_position :: int

record job_group =
  jg_committed :: "int \<Rightarrow> int"
  jg_workers :: "worker list"
  jg_log :: "action list"

definition new_group :: job_group where
  "new_group = \<lparr>jg_committed = \<lambda>_. 0, jg_workers = [], jg_log = []\<rparr>"

text \<open>What Kafka documents of a partition: records carry its name and increasing offsets, and a reader gets the next record.\<close>

definition broker_documented :: "string \<Rightarrow> (int \<Rightarrow> kafka_message list) \<Rightarrow> bool" where
  "broker_documented topic B =
     (\<forall>p. sorted_wrt (\<lambda>m n. km_offset m < km_offset n) (B p) \<and>
        (\<forall>m \<in> set (B p). km_topic m = topic \<and> km_partition m = p \<and> 0 \<le> km_offset m))"

definition next_record :: "(int \<Rightarrow> kafka_message list) \<Rightarrow> worker \<Rightarrow> kafka_message option" where
  "next_record B w = List.find (\<lambda>m. wk_position w \<le> km_offset m) (B (so_partition (wk_source w)))"

text \<open>What a turn sent to the coordinator: the commit of the message through the source, if one was attempted.\<close>

fun commit_sent :: "partition_source \<Rightarrow> action list \<Rightarrow> (int \<times> int) option" where
  "commit_sent src [] = None"
| "commit_sent src (CommitMessage m n ok # l) =
     (if 0 < n then fst (snd (source_commit src None True 0 m idle_state)) else commit_sent src l)"
| "commit_sent src (a # l) = commit_sent src l"

inductive group_step :: "lib \<Rightarrow> task_process set \<Rightarrow> string \<Rightarrow> (int \<Rightarrow> kafka_message list) \<Rightarrow> job_group \<Rightarrow> job_group \<Rightarrow> bool"
  for L P topic B where
  assigned:
    "group_step L P topic B G
       (G\<lparr>jg_workers := \<lparr>wk_source = \<lparr>so_generation = g, so_topic = topic, so_partition = p\<rparr>, wk_position = jg_committed G p\<rparr> # jg_workers G\<rparr>)"
| turned:
    "w \<in> set (jg_workers G) \<Longrightarrow> se_fetch env = None \<or> se_fetch env = next_record B w \<Longrightarrow>
     proc \<in> P \<Longrightarrow> worker_turn L proc env calls (wk_source w) c = (r, l, c') \<Longrightarrow>
     ws = (case (r, se_fetch env) of (Inr _, Some m) \<Rightarrow> [w\<lparr>wk_position := km_offset m + 1\<rparr>] | _ \<Rightarrow> []) \<Longrightarrow>
     committed = jg_committed G \<or> commit_sent (wk_source w) l = Some (p, o') \<and> committed = (jg_committed G)(p := o') \<Longrightarrow>
     group_step L P topic B G \<lparr>jg_committed = committed, jg_workers = ws @ remove1 w (jg_workers G), jg_log = jg_log G @ l\<rparr>"
| stopped:
    "w \<in> set (jg_workers G) \<Longrightarrow> group_step L P topic B G (G\<lparr>jg_workers := remove1 w (jg_workers G)\<rparr>)"

inductive_cases group_stepE: "group_step L P topic B G G'"

inductive group_reachable :: "lib \<Rightarrow> task_process set \<Rightarrow> string \<Rightarrow> (int \<Rightarrow> kafka_message list) \<Rightarrow> job_group \<Rightarrow> bool" for L P topic B where
  start: "group_reachable L P topic B new_group"
| step: "group_reachable L P topic B G \<Longrightarrow> group_step L P topic B G G' \<Longrightarrow> group_reachable L P topic B G'"

text \<open>Everything of a partition below an offset was accounted for.\<close>

definition accounted_below :: "lib \<Rightarrow> (int \<Rightarrow> kafka_message list) \<Rightarrow> action list \<Rightarrow> int \<Rightarrow> int \<Rightarrow> bool" where
  "accounted_below L B l p n = (\<forall>m \<in> set (B p). km_offset m < n \<longrightarrow> accounted L m l)"

definition group_inv :: "lib \<Rightarrow> string \<Rightarrow> (int \<Rightarrow> kafka_message list) \<Rightarrow> job_group \<Rightarrow> bool" where
  "group_inv L topic B G =
     ((\<forall>p. accounted_below L B (jg_log G) p (jg_committed G p)) \<and>
      (\<forall>w \<in> set (jg_workers G). so_topic (wk_source w) = topic \<and> accounted_below L B (jg_log G) (so_partition (wk_source w)) (wk_position w)))"

lemma accounted_below_mono: "accounted_below L B l p n \<Longrightarrow> set l \<subseteq> set l' \<Longrightarrow> accounted_below L B l' p n"
  using accounted_mono unfolding accounted_below_def by blast

text \<open>A turn attempts a commit only of the message it fetched, and only after accounting for it.\<close>

lemma finish_commit:
  assumes "finish_message env m dead e c = (r, l, c')" and "CommitMessage m' n ok \<in> set l"
  shows "m' = m \<and> (\<forall>d. dead = Some d \<longrightarrow> (\<exists>k. WriteDead m (d\<lparr>dl_last := GoTime (se_last env) 0\<rparr>) k True \<in> set l))"
  using assms by (auto simp: finish_message_def Let_def emit_def split: option.splits sum.splits prod.splits)

lemma finish_commits:
  assumes "finish_message env m dead e c = (Inr (), l, c')"
  shows "\<exists>n. CommitMessage m n True \<in> set l"
  using assms by (auto simp: finish_message_def Let_def emit_def split: option.splits sum.splits prod.splits)

lemma due_accounted:
  assumes "finish_message env m dead e c = (r, l, c')" and "letter_due L m dead pre" and "CommitMessage m' n ok \<in> set l"
  shows "m' = m \<and> accounted L m (pre @ l)"
proof -
  have m: "m' = m" and w: "\<And>d. dead = Some d \<Longrightarrow> \<exists>k. WriteDead m (d\<lparr>dl_last := GoTime (se_last env) 0\<rparr>) k True \<in> set l"
    using finish_commit [OF assms(1,3)] by blast+
  show ?thesis
  proof (cases dead)
    case None
    then show ?thesis using assms(2) m by (auto simp: letter_due_def accounted_def)
  next
    case (Some d)
    have "letter_keeps L m (d\<lparr>dl_last := GoTime (se_last env) 0\<rparr>) (pre @ l)"
      using assms(2) Some letter_keeps_mono [of L m d pre "pre @ l"] by (simp add: letter_due_def)
    then show ?thesis using m w [OF Some] unfolding accounted_def by auto
  qed
qed

lemma turn_commits:
  assumes "consume_one L proc env c = (r, l, c')"
  shows "CommitMessage m n ok \<in> set l \<Longrightarrow> se_fetch env = Some m \<and> accounted L m l"
    and "r = Inr () \<Longrightarrow> \<exists>m n. se_fetch env = Some m \<and> CommitMessage m n True \<in> set l"
  using assms
proof (atomize (full), cases rule: consume_one_cases)
  case (bad m' dead e l0 l1 c1 c2)
  note f = reject_message_facts [OF bad(3)]
  have "CommitMessage m n ok \<notin> set l0" using f(1) by (auto simp: list_all_iff inner_def)
  then show "(CommitMessage m n ok \<in> set l \<longrightarrow> se_fetch env = Some m \<and> accounted L m l) \<and>
      (r = Inr () \<longrightarrow> (\<exists>m n. se_fetch env = Some m \<and> CommitMessage m n True \<in> set l))"
    using due_accounted [OF bad(4) f(2), of m n ok] accounted_mono [of L m "l0 @ l1" l] finish_commits [of env m' dead e c2 l1 c'] bad by auto
next
  case (good m' t result err dead e l0 l1 c1 c2)
  note f = settle_message_facts [OF good(5,2)]
  have "CommitMessage m n ok \<notin> set (ProcessedBy m' result err # l0)" using f(1) by (auto simp: list_all_iff inner_def)
  then show "(CommitMessage m n ok \<in> set l \<longrightarrow> se_fetch env = Some m \<and> accounted L m l) \<and>
      (r = Inr () \<longrightarrow> (\<exists>m n. se_fetch env = Some m \<and> CommitMessage m n True \<in> set l))"
    using due_accounted [OF good(6) f(2), of m n ok] accounted_mono [of L m "ProcessedBy m' result err # l0 @ l1" l]
      finish_commits [of env m' dead e c2 l1 c'] good by auto
qed (auto simp: emit_def)

lemma next_record_below:
  assumes "broker_documented topic B" and "next_record B w = Some m" and "accounted_below L B l (so_partition (wk_source w)) (wk_position w)"
    and "accounted L m l"
  shows "accounted_below L B l (so_partition (wk_source w)) (km_offset m + 1) \<and> m \<in> set (B (so_partition (wk_source w)))"
proof -
  let ?p = "so_partition (wk_source w)"
  have s: "sorted_wrt (\<lambda>m n. km_offset m < km_offset n) (B ?p)" using assms(1) by (simp add: broker_documented_def)
  have f: "m \<in> set (B ?p)" "wk_position w \<le> km_offset m"
    using assms(2) by (auto simp: next_record_def find_Some_iff)
  have "x = m \<or> km_offset x < wk_position w" if x: "x \<in> set (B ?p)" "km_offset x < km_offset m + 1" for x
  proof (rule ccontr)
    assume n: "\<not> (x = m \<or> km_offset x < wk_position w)"
    obtain i where i: "i < length (B ?p)" "B ?p ! i = m" "\<forall>j<i. \<not> wk_position w \<le> km_offset (B ?p ! j)"
      using assms(2) by (auto simp: next_record_def find_Some_iff)
    obtain j where j: "j < length (B ?p)" "B ?p ! j = x" using x(1) by (auto simp: in_set_conv_nth)
    have "\<not> j < i" using i(3) j n by auto
    moreover have "j \<noteq> i" using i(2) j n by auto
    ultimately have "i < j" by simp
    then have "km_offset m < km_offset x" using s i j by (auto simp: sorted_wrt_iff_nth_less)
    then show False using x(2) by simp
  qed
  then show ?thesis using f assms(3,4) unfolding accounted_below_def by blast
qed

lemma commit_sent_eq:
  "commit_sent src l = Some (p, o') \<Longrightarrow> \<exists>m n ok. CommitMessage m n ok \<in> set l \<and> p = so_partition src \<and> o' = km_offset m + 1"
proof (induction l)
  case (Cons a l)
  show ?case
  proof (cases "\<exists>m n ok. a = CommitMessage m n ok \<and> 0 < n")
    case True
    then obtain m n ok where a: "a = CommitMessage m n ok" "0 < n" by blast
    then have "p = so_partition src \<and> o' = km_offset m + 1" using Cons.prems by (simp add: source_commit_def split: if_splits)
    then show ?thesis using a by (metis list.set_intros(1))
  next
    case False
    then have "commit_sent src l = Some (p, o')" using Cons.prems by (cases a) auto
    then show ?thesis using Cons.IH by auto
  qed
qed simp

lemma group_step_inv:
  assumes B: "broker_documented topic B" and step: "group_step L P topic B G G'" and inv: "group_inv L topic B G"
  shows "group_inv L topic B G'"
  using step
proof cases
  case (assigned g p)
  then show ?thesis using inv by (simp add: group_inv_def)
next
  case (turned w env proc calls c r l c' ws committed p o')
  let ?p = "so_partition (wk_source w)"
  define env' where "env' = env\<lparr>se_commit := \<lambda>k. commit_try (wk_source w) (se_fetch env) (calls k)\<rparr>"
  have t: "consume_one L proc env' c = (r, l, c')" and ef: "se_fetch env' = se_fetch env"
    using turned(5) by (simp_all add: worker_turn_def env'_def)
  have mono: "accounted_below L B (jg_log G) q n \<Longrightarrow> accounted_below L B (jg_log G @ l) q n" for q n
    by (erule accounted_below_mono) simp
  have w: "so_topic (wk_source w) = topic" "accounted_below L B (jg_log G @ l) ?p (wk_position w)"
    using inv turned(2) mono by (auto simp: group_inv_def)
  have below: "accounted_below L B (jg_log G @ l) ?p (km_offset m + 1) \<and> km_partition m = ?p" if c: "CommitMessage m n ok \<in> set l" for m n ok
  proof -
    have m: "se_fetch env = Some m" "accounted L m l" using turn_commits(1) [OF t c] ef by simp_all
    have "next_record B w = Some m" using turned(3) m(1) by auto
    from next_record_below [OF B this w(2)] accounted_mono [OF m(2)] show ?thesis
      using B by (auto simp: broker_documented_def)
  qed
  have new: "accounted_below L B (jg_log G @ l) ?p (wk_position x) \<and> wk_source x = wk_source w" if x: "x \<in> set ws" for x
  proof -
    obtain m where m: "r = Inr ()" "se_fetch env = Some m" "x = w\<lparr>wk_position := km_offset m + 1\<rparr>"
      using x turned(6) by (auto split: sum.splits option.splits)
    then show ?thesis using turn_commits(2) [OF t] below ef by auto
  qed
  have com: "accounted_below L B (jg_log G @ l) q (committed q)" for q
  proof (cases "committed = jg_committed G")
    case True
    then show ?thesis using inv mono by (simp add: group_inv_def)
  next
    case False
    then have s: "commit_sent (wk_source w) l = Some (p, o')" "committed = (jg_committed G)(p := o')" using turned(7) by auto
    then show ?thesis using commit_sent_eq [OF s(1)] below inv mono by (auto simp: group_inv_def)
  qed
  show ?thesis unfolding turned(1) group_inv_def
    using com new w(1) inv mono by (auto simp: group_inv_def dest: notin_set_remove1 set_remove1_subset [THEN subsetD])
next
  case (stopped w)
  then show ?thesis using inv by (auto simp: group_inv_def dest: set_remove1_subset [THEN subsetD])
qed

lemma group_reachable_inv:
  assumes "broker_documented topic B" and "group_reachable L P topic B G"
  shows "group_inv L topic B G"
  using assms(2)
proof induction
  case start
  then show ?case using assms(1) by (fastforce simp: group_inv_def new_group_def accounted_below_def broker_documented_def)
next
  case (step G G')
  then show ?case using group_step_inv [OF assms(1)] by blast
qed

section \<open>Progress\<close>

text \<open>With the dead letters and commits acknowledged a turn succeeds, whatever the record and the processor's result.\<close>

lemma group_ack_ok: "at_ctx (env 0) = None \<Longrightarrow> at_ok (env 0) \<Longrightarrow> 0 < co_attempts c \<Longrightarrow> ack dlq env c = (Inr (), 1, c)"
  by (cases "co_attempts c") (simp_all add: ack_def)

definition calm :: "step_env \<Rightarrow> bool" where
  "calm env = (se_ctx env = None \<and> se_process_ctx env = None \<and> se_before_ctx env = None \<and>
     at_ctx (se_write env 0) = None \<and> at_ok (se_write env 0) \<and> at_ctx (se_commit env 0) = None \<and> at_ok (se_commit env 0))"

definition takes :: "partition_source \<Rightarrow> kafka_message \<Rightarrow> bool" where
  "takes src m = (so_topic src = km_topic m \<and> so_partition src = km_partition m \<and> 0 \<le> km_offset m)"

lemma finish_calm:
  assumes "calm env" and "0 < co_attempts c" and "takes src m"
  obtains l c' where "finish_message env m dead e c = (Inr (), l, c')" "commit_sent src l = Some (so_partition src, km_offset m + 1)"
proof (cases dead)
  case None
  then show thesis using assms group_ack_ok [of "se_commit env" c False] that by (simp add: finish_message_def calm_def takes_def source_commit_def)
next
  case (Some d)
  then show thesis using assms group_ack_ok [of "se_write env" c True] group_ack_ok [of "se_commit env" _ False] that
    by (simp add: finish_message_def calm_def emit_def takes_def source_commit_def)
qed

lemma commit_sent_inner: "list_all inner l \<Longrightarrow> commit_sent src (l @ l') = commit_sent src l'"
proof (induction l)
  case (Cons a l)
  then show ?case by (cases a) (auto simp: inner_def)
qed simp

lemma turn_calm:
  assumes "calm env" and "se_fetch env = Some m" and "0 < co_attempts c" and "takes src m"
  obtains l c' where "consume_one L proc env c = (Inr (), l, c')" "commit_sent src l = Some (so_partition src, km_offset m + 1)"
proof -
  note main = that
  let ?task = "decode_task L (km_value m)"
  have a: "0 < co_attempts c1" if "conflict L t c = (b, c1)" for t b c1 using conflict_frame [OF that] assms(3) by simp
  have rejected: thesis if r: "?task = None \<and> c1 = c \<or> (\<exists>t. ?task = Some t \<and> conflict L t c = (True, c1))" for c1
  proof -
    obtain dead e l0 c2 where j: "reject_message m ?task (se_first env) c1 = (dead, e, l0, c2)" by (metis prod.collapse)
    have "0 < co_attempts c2" using reject_message_facts(3) [OF j] r a assms(3) by (auto simp: same_ring_def)
    then obtain l1 c' where f: "finish_message env m dead e c2 = (Inr (), l1, c')" "commit_sent src l1 = Some (so_partition src, km_offset m + 1)"
      using finish_calm [OF assms(1) _ assms(4)] by metis
    have s: "commit_sent src (Fetched m # l0 @ l1) = Some (so_partition src, km_offset m + 1)"
      using commit_sent_inner [OF reject_message_facts(1) [OF j]] f(2) by simp
    show thesis using r
    proof (elim disjE conjE exE)
      assume "?task = None" "c1 = c"
      then show thesis using j f(1) s assms(1,2) main [of "Fetched m # l0 @ l1" c'] by (simp add: consume_one_def calm_def)
    next
      fix t assume t: "?task = Some t" "conflict L t c = (True, c1)"
      show thesis by (rule main [OF _ s, of c']) (use t j f(1) assms(1,2) in \<open>simp add: consume_one_def calm_def\<close>)
    qed
  qed
  show thesis
  proof (cases ?task)
    case None
    then show thesis using rejected by blast
  next
    case (Some t)
    obtain bad c1 where b: "conflict L t c = (bad, c1)" by (cases "conflict L t c")
    show thesis
    proof (cases bad)
      case True
      then show thesis using rejected [of c1] Some b by simp
    next
      case False
      obtain result err where p: "proc (km_value m) = (result, err)" by (cases "proc (km_value m)")
      obtain dead e l0 c2 where j: "settle_message m t (se_first env) result err c1 = (dead, e, l0, c2)" by (metis prod.collapse)
      have "0 < co_attempts c2" using settle_message_facts(3) [OF j Some] a [OF b] by (simp add: same_ring_def)
      then obtain l1 c' where f: "finish_message env m dead e c2 = (Inr (), l1, c')" "commit_sent src l1 = Some (so_partition src, km_offset m + 1)"
        using finish_calm [OF assms(1) _ assms(4)] by metis
      have "commit_sent src (Fetched m # ProcessedBy m result err # l0 @ l1) = Some (so_partition src, km_offset m + 1)"
        using commit_sent_inner [of "ProcessedBy m result err # l0" src l1] settle_message_facts(1) [OF j Some] f(2) by simp
      then show thesis
        by (rule main [rotated, of _ c']) (use Some b False p j f(1) assms(1,2) in \<open>simp add: consume_one_def calm_def\<close>)
    qed
  qed
qed

definition calm_env :: "kafka_message \<Rightarrow> step_env" where
  "calm_env m =
     \<lparr>se_ctx = None, se_fetch = Some m, se_first = 0, se_process_ctx = None, se_before_ctx = None, se_last = 0,
      se_write = \<lambda>_. \<lparr>at_ctx = None, at_ok = True, at_pause = None\<rparr>, se_commit = \<lambda>_. \<lparr>at_ctx = None, at_ok = True, at_pause = None\<rparr>\<rparr>"

definition calm_call :: commit_call where
  "calm_call = \<lparr>cc_ctx = None, cc_inner = None, cc_accepted = True, cc_pause = None\<rparr>"

lemma worker_calm:
  assumes "takes src m"
  obtains l c' where "worker_turn L proc (calm_env m) (\<lambda>_. calm_call) src (new_consumer 0 0 0) = (Inr (), l, c')"
    "commit_sent src l = Some (so_partition src, km_offset m + 1)"
proof -
  have c: "calm (calm_env m\<lparr>se_commit := \<lambda>k. commit_try src (se_fetch (calm_env m)) calm_call\<rparr>)"
    using assms by (simp add: calm_def calm_env_def calm_call_def commit_try_def source_commit_def takes_def)
  have "0 < co_attempts (new_consumer 0 0 0)" by (simp add: new_consumer_def)
  from turn_calm [OF c _ this assms, of L proc] show thesis using that by (auto simp: worker_turn_def calm_env_def)
qed

lemma group_advances:
  assumes B: "broker_documented topic B" and w: "w \<in> set (jg_workers G)" "so_topic (wk_source w) = topic" "so_partition (wk_source w) = p"
    and n: "next_record B w = Some m" and P: "proc \<in> P"
  obtains G' where "group_step L P topic B G G'" "w\<lparr>wk_position := km_offset m + 1\<rparr> \<in> set (jg_workers G')"
    "jg_committed G' p = km_offset m + 1"
proof -
  have m: "m \<in> set (B p)" using n w(3) by (auto simp: next_record_def find_Some_iff)
  then have d: "km_topic m = topic" "km_partition m = p" "0 \<le> km_offset m" using B by (auto simp: broker_documented_def)
  obtain l c' where t: "worker_turn L proc (calm_env m) (\<lambda>_. calm_call) (wk_source w) (new_consumer 0 0 0) = (Inr (), l, c')"
    "commit_sent (wk_source w) l = Some (so_partition (wk_source w), km_offset m + 1)"
    using worker_calm [of "wk_source w" m L proc] w d by (auto simp: takes_def)
  let ?G = "\<lparr>jg_committed = (jg_committed G)(p := km_offset m + 1),
      jg_workers = [w\<lparr>wk_position := km_offset m + 1\<rparr>] @ remove1 w (jg_workers G), jg_log = jg_log G @ l\<rparr>"
  have "group_step L P topic B G ?G"
    by (rule group_step.turned [OF w(1) _ P t(1), where p = p and o' = "km_offset m + 1"])
      (use n d w(3) t(2) in \<open>simp_all add: calm_env_def\<close>)
  then show thesis by (rule that) simp_all
qed

lemma group_drains:
  assumes B: "broker_documented topic B" and P: "proc \<in> P" and "w \<in> set (jg_workers G)" "so_topic (wk_source w) = topic" "so_partition (wk_source w) = p"
    and "jg_committed G p = wk_position w"
  shows "\<exists>G'. rtranclp (group_step L P topic B) G G' \<and> (\<forall>m \<in> set (B p). km_offset m < jg_committed G' p)"
  using assms(3-)
proof (induction "length (filter (\<lambda>m. wk_position w \<le> km_offset m) (B p))" arbitrary: G w rule: less_induct)
  case less
  show ?case
  proof (cases "next_record B w")
    case None
    then have "\<forall>m \<in> set (B p). km_offset m < wk_position w" using less.prems(3) by (auto simp: next_record_def find_None_iff)
    then show ?thesis using less.prems(4) by auto
  next
    case (Some m)
    have m: "m \<in> set (B p)" "wk_position w \<le> km_offset m" using Some less.prems(3) by (auto simp: next_record_def find_Some_iff)
    obtain G' where G': "group_step L P topic B G G'" "w\<lparr>wk_position := km_offset m + 1\<rparr> \<in> set (jg_workers G')"
      "jg_committed G' p = km_offset m + 1"
      using group_advances [OF B less.prems(1,2,3) Some P] by metis
    have "length (filter (\<lambda>x. km_offset m + 1 \<le> km_offset x) (B p)) < length (filter (\<lambda>x. wk_position w \<le> km_offset x) (B p))"
    proof -
      have "filter (\<lambda>x. km_offset m + 1 \<le> km_offset x) (B p) = filter (\<lambda>x. km_offset m + 1 \<le> km_offset x) (filter (\<lambda>x. wk_position w \<le> km_offset x) (B p))"
        using m(2) by (auto intro!: filter_cong)
      moreover have "m \<in> set (filter (\<lambda>x. wk_position w \<le> km_offset x) (B p))" using m by simp
      ultimately show ?thesis using length_filter_less [of m _ "\<lambda>x. km_offset m + 1 \<le> km_offset x"] by (simp del: filter_filter)
    qed
    then have "\<exists>G2. rtranclp (group_step L P topic B) G' G2 \<and> (\<forall>m \<in> set (B p). km_offset m < jg_committed G2 p)"
      using less.hyps [of "w\<lparr>wk_position := km_offset m + 1\<rparr>" G'] G'(2,3) less.prems(2,3) by simp
    then show ?thesis using G'(1) converse_rtranclp_into_rtranclp by metis
  qed
qed

lemma reachable_closed: "rtranclp (group_step L P topic B) G G' \<Longrightarrow> group_reachable L P topic B G \<Longrightarrow> group_reachable L P topic B G'"
  by (induction rule: rtranclp_induct) (auto intro: group_reachable.step)

lemma group_finishes:
  assumes "broker_documented topic B" and "group_reachable L (range (job_process L)) topic B G"
  shows "\<exists>G'. rtranclp (group_step L (range (job_process L)) topic B) G G' \<and>
    (\<forall>m \<in> set (B p). km_offset m < jg_committed G' p \<and> accounted L m (jg_log G'))"
proof -
  define w where "w = \<lparr>wk_source = \<lparr>so_generation = 0, so_topic = topic, so_partition = p\<rparr>, wk_position = jg_committed G p\<rparr>"
  have s: "group_step L (range (job_process L)) topic B G (G\<lparr>jg_workers := w # jg_workers G\<rparr>)" unfolding w_def by (rule group_step.assigned)
  obtain G' where G': "rtranclp (group_step L (range (job_process L)) topic B) (G\<lparr>jg_workers := w # jg_workers G\<rparr>) G'"
    "\<forall>m \<in> set (B p). km_offset m < jg_committed G' p"
    using group_drains [where P = "range (job_process L)" and w = w and L = L and p = p, OF assms(1) rangeI, of "G\<lparr>jg_workers := w # jg_workers G\<rparr>"]
    by (auto simp: w_def)
  have r: "rtranclp (group_step L (range (job_process L)) topic B) G G'" using s G'(1) by (rule converse_rtranclp_into_rtranclp)
  have "group_inv L topic B G'" using group_reachable_inv [OF assms(1) reachable_closed [OF r assms(2)]] .
  then have "accounted_below L B (jg_log G') p (jg_committed G' p)" by (simp add: group_inv_def)
  then show ?thesis
    using r G'(2) unfolding accounted_below_def by blast
qed

section \<open>Lemmas on connections and shutdown\<close>

lemma rpc_get_bounded:
  assumes "length (rp_clients p) \<le> rp_limit p" and "distinct (map fst (rp_clients p))" and "rpc_get dials ctx address p = (r, p')"
  shows "length (rp_clients p') \<le> rp_limit p' \<and> distinct (map fst (rp_clients p')) \<and> (rp_closed p \<longrightarrow> p' = p \<and> (\<exists>e. r = Inl e)) \<and>
    (\<forall>c. r = Inr c \<longrightarrow> map_of (rp_clients p') address = Some c \<and> probe_address address False)"
  using assms
  by (auto simp: rpc_get_def map_of_eq_None_iff split: option.splits if_splits)

lemma net_close_conn_shut: "c \<in> set (kn_shut (net_close_conn c n)) \<and> set (kn_shut n) \<subseteq> set (kn_shut (net_close_conn c n)) \<and>
    kn_closed (net_close_conn c n) = kn_closed n"
  by (auto simp: net_close_conn_def)

text \<open>After \<open>closeSockets\<close> every registered socket is shut and none is opened any more.\<close>

lemma net_closed:
  "kn_closed (net_close_sockets n) \<and> set (kn_connections n) \<subseteq> set (kn_shut (net_close_sockets n)) \<and>
   fst (net_dial raw (net_close_sockets n)) = None"
proof -
  have "kn_closed (fold net_close_conn cs k) = kn_closed k \<and> set cs \<subseteq> set (kn_shut (fold net_close_conn cs k)) \<and>
      set (kn_shut k) \<subseteq> set (kn_shut (fold net_close_conn cs k))" for cs k
  proof (induction cs arbitrary: k)
    case (Cons c cs)
    show ?case using Cons.IH [of "net_close_conn c k"] net_close_conn_shut [of c k] by auto
  qed simp
  from this [of "kn_connections n" "n\<lparr>kn_closed := True\<rparr>"] show ?thesis
    by (auto simp: net_close_sockets_def net_dial_def split: option.split)
qed

text \<open>The clients are closed only after the consumer and its workers are gone, in whatever way the process ends.\<close>

lemma job_run_ordered:
  "ConsumerStarted \<in> set (snd (job_run env c)) \<longrightarrow>
   ConsumerExited \<in> set (takeWhile (\<lambda>a. a \<noteq> SinkClosed \<and> a \<noteq> PoolClosed) (snd (job_run env c)))"
  by (auto simp: job_run_def Let_def split: sum.splits first_exit.splits)

lemma job_run_fails: "fst (job_run env c) = None \<longrightarrow> rn_cancelled env \<or> rn_shutdown env \<and>
    (case rn_first env of ExitCtx \<Rightarrow> True | ExitConsumer _ cancelled \<Rightarrow> cancelled | ExitServer unexpected \<Rightarrow> \<not> unexpected)"
  by (auto simp: job_run_def exit_result_def Let_def split: sum.splits first_exit.splits if_splits)

section \<open>Properties\<close>

text \<open>C31. At-least-once over any run of the group, with partitions assigned, revoked and assigned again, workers of old
  generations still turning, commits failing or taking effect although their answer is lost: everything of a partition below the
  committed offset was fully processed or kept in an acknowledged dead letter. And the group is never stuck: from every reachable
  state it can go on until all records of a partition are committed, whatever the records are.\<close>

theorem records_accounted_at_least_once:
  assumes "broker_documented topic B" and "group_reachable L (range (job_process L)) topic B G"
  shows "(\<forall>p. accounted_below L B (jg_log G) p (jg_committed G p)) \<and>
    (\<exists>G'. rtranclp (group_step L (range (job_process L)) topic B) G G' \<and>
       (\<forall>m \<in> set (B p). km_offset m < jg_committed G' p \<and> accounted L m (jg_log G')))"
  using group_reachable_inv [OF assms] group_finishes [OF assms] by (simp add: group_inv_def)

definition topic_s :: "int \<Rightarrow> kafka_message list" where
  "topic_s p = (if p = 0 then [garbage] else [])"

lemma topic_s_documented: "broker_documented ''fable.push.v1'' topic_s"
  by (simp add: broker_documented_def topic_s_def garbage_def)

theorem records_accounted_at_least_once_witness:
  "\<exists>G. group_reachable doc_lib (range (job_process doc_lib)) ''fable.push.v1'' topic_s G \<and> 7 < jg_committed G 0 \<and>
     accounted doc_lib garbage (jg_log G)"
proof -
  obtain G where G: "rtranclp (group_step doc_lib (range (job_process doc_lib)) ''fable.push.v1'' topic_s) new_group G"
    "\<forall>m \<in> set (topic_s 0). km_offset m < jg_committed G 0 \<and> accounted doc_lib m (jg_log G)"
    using records_accounted_at_least_once [OF topic_s_documented group_reachable.start, of doc_lib 0] by blast
  have "garbage \<in> set (topic_s 0)" "km_offset garbage = 7" by (simp_all add: topic_s_def garbage_def)
  then show ?thesis using reachable_closed [OF G(1) group_reachable.start] G(2) by fastforce
qed

text \<open>C32. Along any run of the group member, whatever the workers do between its steps: the table of progress shows only partitions
  of the generation started last, and events of other generations leave it as it is; the loop ends without an error only when it
  was cancelled and no worker failed; a failed member starts no generation any more; and it goes on only while fewer than three
  fetches of a generation have failed in a row.\<close>

theorem member_runs_fenced:
  assumes "owned_by g m" and "mb_errors m < 3" and "member_run envs m = (r, m', started)"
  shows "owned_by (last_started g started) m' \<and>
    fold member_exec es m' = fold member_exec (filter (\<lambda>e. \<not> stale (ru_generation (mb_state m')) e) es) m' \<and>
    (r = Some (Inr ()) \<longrightarrow> mb_cancelled m' \<and> \<not> mb_failed m') \<and>
    (mb_failed m \<and> envs \<noteq> [] \<longrightarrow> started = [] \<and> r = Some (Inl KafkaDown)) \<and>
    (r = None \<longrightarrow> mb_errors m' = fold next_errors (map me_next envs) (mb_errors m) \<and> mb_errors m' < 3)"
  using member_run_sound [OF assms] stale_events [of es m'] by blast

definition member_s :: member where
  "member_s = \<lparr>mb_failed = False, mb_cancelled = False, mb_errors = 0,
     mb_state = \<lparr>ru_alive = True, ru_joined = False, ru_partitions = Map.empty, ru_generation = 0\<rparr>\<rparr>"

definition quiet_env :: "next_answer \<Rightarrow> member_env" where
  "quiet_env x = \<lparr>me_events = \<lambda>_. [], me_next = x\<rparr>"

theorem member_runs_fenced_witness:
  "\<exists>m. member_run [quiet_env (NextGeneration 4 [(0, 7)]), quiet_env (NextFailed False), quiet_env (NextFailed True)] member_s = (None, m, [(4, [(0, 7)])]) \<and>
     owned_by (Some (4, [(0, 7)])) m \<and> mb_errors m = 1"
proof -
  let ?envs = "[quiet_env (NextGeneration 4 [(0, 7)]), quiet_env (NextFailed False), quiet_env (NextFailed True)]"
  obtain m where r: "member_run ?envs member_s = (None, m, [(4, [(0, 7)])])"
    by (simp add: member_turn_def quiet_env_def member_s_def)
  have "owned_by None member_s" "mb_errors member_s < 3" by (simp_all add: owned_by_def member_s_def)
  from member_runs_fenced [OF this r] r show ?thesis by (simp add: last_started_def quiet_env_def member_s_def)
qed

end
