(* ===== verification/SocketHandler.thy ===== *)
theory SocketHandler
  imports LogicService Instance
begin

text \<open>
  \<open>internal/comet/handler.go\<close> and \<open>websocket.go\<close>: the HTTP handler of a Comet. \<open>serve_socket\<close> is the life of one socket, from
  the request to the cleanup; \<open>heartbeat_run\<close>, \<open>read_run\<close> and \<open>write_to\<close> are its three loops, one turn per definition. The hub is
  shared, so every wait of a loop takes a list of hub events that happen meanwhile. Clocks, contexts, choices of a \<open>select\<close>, random
  bytes, Logic's replies and the WebSocket library's answers are the environment.
\<close>

section \<open>Configuration\<close>

record handler_config =
  hc_secret :: string
  hc_token :: string
  hc_origins :: "string list"
  hc_heartbeat :: int
  hc_rpc :: int
  hc_read :: int

record public_handler =
  ph_config :: handler_config
  ph_origins :: "string list"
  ph_accepted :: nat
  ph_rejected :: nat
  ph_active :: nat
  ph_uncertain :: nat
  ph_failures :: nat

text \<open>What the code reads of a parsed URL; the parser \<open>url.Parse\<close> is an argument.\<close>

record url =
  ur_scheme :: string
  ur_host :: string
  ur_user :: bool
  ur_path :: string
  ur_query :: string
  ur_fragment :: string

definition origin_allowed :: "(string \<Rightarrow> url option) \<Rightarrow> string \<Rightarrow> bool" where
  "origin_allowed parse origin =
     (case parse origin of
        None \<Rightarrow> False
      | Some u \<Rightarrow> ur_host u \<noteq> [] \<and> \<not> ur_user u \<and> ur_path u = [] \<and> ur_query u = [] \<and> ur_fragment u = [] \<and>
          (ur_scheme u = ''http'' \<or> ur_scheme u = ''https''))"

definition default_timeouts :: "handler_config \<Rightarrow> handler_config" where
  "default_timeouts c =
     c\<lparr>hc_heartbeat := (if hc_heartbeat c = 0 then 20 * ns_per_s else hc_heartbeat c),
       hc_rpc := (if hc_rpc c = 0 then 2 * ns_per_s else hc_rpc c),
       hc_read := (if hc_read c = 0 then 60 * ns_per_s else hc_read c)\<rparr>"

definition new_handler :: "(string \<Rightarrow> url option) \<Rightarrow> hub option \<Rightarrow> bool \<Rightarrow> handler_config \<Rightarrow> comet_error + public_handler" where
  "new_handler parse h logic c0 =
     (if h = None \<or> \<not> logic \<or> length (hc_secret c0) < 32 \<or> \<not> valid_token (hc_token c0) \<or> hc_origins c0 = []
      then Inl (ErrInvalid ''handler configuration'')
      else
        let c = default_timeouts c0 in
        if hc_read c \<le> hc_heartbeat c \<or> 60 * ns_per_s < hc_read c then Inl (ErrInvalid ''socket read timeout'')
        else if hc_heartbeat c \<le> 0 \<or> 20 * ns_per_s < hc_heartbeat c \<or> hc_rpc c \<le> 0 \<or> 2 * ns_per_s < hc_rpc c
        then Inl (ErrInvalid ''handler timeouts'')
        else if \<not> list_all (origin_allowed parse) (hc_origins c) then Inl (ErrInvalid ''origin allowlist'')
        else Inr \<lparr>ph_config = c, ph_origins = hc_origins c, ph_accepted = 0, ph_rejected = 0, ph_active = 0, ph_uncertain = 0,
                  ph_failures = 0\<rparr>)"

text \<open>\<open>ready\<close>: the answer of \<open>Ready\<close>, if it is configured, is an argument. \<open>/healthz\<close> and \<open>/readyz\<close> answer from it.\<close>

definition handler_ready :: "hub \<Rightarrow> bool option \<Rightarrow> bool" where
  "handler_ready h ready =
     (if h_drain_flag h then False else if h_done h then False else case ready of None \<Rightarrow> True | Some b \<Rightarrow> b)"

definition healthz :: "hub \<Rightarrow> nat" where
  "healthz h = (if h_done h then 503 else 200)"

definition readyz :: "hub \<Rightarrow> bool option \<Rightarrow> nat" where
  "readyz h ready = (if \<not> handler_ready h ready then 503 else 200)"

text \<open>The deadline of an RPC; the zero time means no limit but the timeout.\<close>

definition socket_deadline :: "public_handler \<Rightarrow> int \<Rightarrow> int \<Rightarrow> int" where
  "socket_deadline ph now safe =
     (let deadline = now + hc_rpc (ph_config ph) in if safe \<noteq> zero_ns \<and> safe < deadline then safe else deadline)"

section \<open>Leases\<close>

definition route_deadline ::
  "lib \<Rightarrow> int \<Rightarrow> route_lease option \<Rightarrow> conn_id \<Rightarrow> int \<Rightarrow> comet_error + int" where
  "route_deadline L now route i auth =
     (case route of
        None \<Rightarrow> Inl (ErrInvalid '''')
      | Some r \<Rightarrow>
        if \<not> same_connection (rl_identity r) (Some i) \<or> rl_auth r = None \<or> \<not> ts_check L (the (rl_auth r)) \<or>
           rl_deadline r = None \<or> \<not> ts_check L (the (rl_deadline r))
        then Inl (ErrInvalid '''')
        else
          let safe = as_time (the (rl_deadline r));
              safe = (if as_time (the (rl_auth r)) < safe then as_time (the (rl_auth r)) else safe);
              safe = (if auth < safe then auth else safe);
              safe = safe - safety_margin
          in if \<not> now < safe then Inl ErrClosed else Inr safe)"

section \<open>Opening a socket\<close>

text \<open>The parts of the HTTP request that are read; whether it asks for an upgrade is decided by the WebSocket library.\<close>

record upgrade_request =
  ug_method :: string
  ug_key :: string
  ug_upgrade :: bool
  ug_version :: string
  ug_protocol :: string
  ug_origin :: string
  ug_token :: string
  ug_authorization :: string

record admission =
  ad_protocol :: string
  ad_jwt :: string
  ad_expires :: int
  ad_identity :: conn_id

text \<open>The checks before anything is registered, with the status a rejection answers.\<close>

definition admit_socket ::
  "lib \<Rightarrow> jwt_lib \<Rightarrow> public_handler \<Rightarrow> hub \<Rightarrow> bool option \<Rightarrow> int \<Rightarrow> string option \<Rightarrow> string \<Rightarrow> upgrade_request \<Rightarrow> nat + admission" where
  "admit_socket L J ph h ready now random uuid q =
     (if ug_method q \<noteq> ''GET'' then Inl 405
      else
        let key = std_decode_lax (ug_key q) in
        if \<not> ug_upgrade q \<or> ug_version q \<noteq> ''13'' \<or> key = None \<or> length (the key) \<noteq> 16 then Inl 400
        else
          let protocol = (if ug_protocol q = [] then ''legacy'' else ug_protocol q) in
          if protocol \<noteq> ''legacy'' \<and> protocol \<noteq> ''v2'' then Inl 400
          else if ug_origin q \<notin> set (ph_origins ph) then Inl 403
          else
            let raw = (if ug_token q = [] then trim_prefix (ug_authorization q) ''Bearer '' else ug_token q) in
            case parse_jwt J raw (hc_secret (ph_config ph)) of
              None \<Rightarrow> Inl 401
            | Some (user, expires) \<Rightarrow>
              if \<not> valid_id L user (CHR ''U'') \<or> \<not> now + safety_margin < expires then Inl 401
              else if \<not> handler_ready h ready then Inl 503
              else case random of
                None \<Rightarrow> Inl 503
              | Some token \<Rightarrow>
                Inr \<lparr>ad_protocol = protocol, ad_jwt = raw, ad_expires = expires,
                     ad_identity = \<lparr>cn_user = user, cn_instance = ci_instance (h_identity h), cn_connection = uuid,
                                    cn_token = b64_encode token\<rparr>\<rparr>)"

text \<open>What the handler tells Logic.\<close>

datatype socket_call = CallConnectRoute connect_request int | CallHeartbeatRoute conn_id int | CallDisconnectRoute conn_id

text \<open>What happens after the identity is made: the fate of the registration, the events of the hub until Logic answers, the
  answer (\<open>None\<close> is a nil response), the clock and the context then, the fate of the activation, whether the upgrade succeeded,
  the events of the session, and the fate of the last unregistration.\<close>

record socket_env =
  sk_now :: int
  sk_register :: call_fate
  sk_waiting :: "hub_event list"
  sk_reply :: "rpc_status + route_lease option option"
  sk_now2 :: int
  sk_ctx :: "ctx_err option"
  sk_activate :: call_fate
  sk_upgraded :: bool
  sk_session :: "hub_event list"
  sk_cleanup :: call_fate

datatype socket_outcome = Rejected nat | NotUpgraded | Served string nat int

definition reject_socket :: "nat \<Rightarrow> public_handler \<Rightarrow> socket_outcome \<times> public_handler" where
  "reject_socket k ph = (Rejected k, ph\<lparr>ph_rejected := ph_rejected ph + 1\<rparr>)"

text \<open>From the answer of Logic to the open socket.\<close>

definition open_socket ::
  "lib \<Rightarrow> socket_env \<Rightarrow> admission \<Rightarrow> nat \<Rightarrow> hub \<Rightarrow> public_handler \<Rightarrow> (socket_outcome \<times> public_handler) \<times> hub" where
  "open_socket L env ad a h ph =
     (case sk_reply env of
        Inl _ \<Rightarrow> (reject_socket 503 (ph\<lparr>ph_uncertain := ph_uncertain ph + 1\<rparr>), h)
      | Inr None \<Rightarrow> (reject_socket 503 (ph\<lparr>ph_uncertain := ph_uncertain ph + 1\<rparr>), h)
      | Inr (Some route) \<Rightarrow>
        (case route_deadline L (sk_now2 env) route (ad_identity ad) (ad_expires ad) of
           Inl _ \<Rightarrow> (reject_socket 401 ph, h)
         | Inr safe \<Rightarrow>
           if sk_ctx env \<noteq> None then (reject_socket 401 ph, h)
           else
             let (r, h') = hub_activate (sk_activate env) a h in
             case r of
               Inl _ \<Rightarrow> (reject_socket 503 ph, h')
             | Inr _ \<Rightarrow>
               if \<not> sk_upgraded env then ((NotUpgraded, ph), h')
               else ((Served (ad_protocol ad) a safe, ph\<lparr>ph_accepted := ph_accepted ph + 1, ph_active := ph_active ph + 1\<rparr>), h')))"

text \<open>
  \<open>socket\<close>, with the deferred cleanup: once the identity exists, the hub is told to unregister it and Logic to disconnect it,
  whatever happened in between.
\<close>

definition serve_socket ::
  "lib \<Rightarrow> jwt_lib \<Rightarrow> socket_env \<Rightarrow> bool option \<Rightarrow> string option \<Rightarrow> string \<Rightarrow> upgrade_request \<Rightarrow> hub \<Rightarrow> public_handler \<Rightarrow>
   socket_outcome \<times> public_handler \<times> hub \<times> socket_call list" where
  "serve_socket L J env ready random uuid q h ph =
     (case admit_socket L J ph h ready (sk_now env) random uuid q of
        Inl k \<Rightarrow> (let (out, ph') = reject_socket k ph in (out, ph', h, []))
      | Inr ad \<Rightarrow>
        let i = ad_identity ad;
            finish = (\<lambda>out ph h calls. (out, ph, snd (hub_unregister L (sk_cleanup env) (Some i) h), calls @ [CallDisconnectRoute i]));
            (r, h1) = hub_register L (sk_register env) (Some i) True h
        in case r of
             Inl _ \<Rightarrow> (let (out, ph') = reject_socket 503 ph in finish out ph' h1 [])
           | Inr a \<Rightarrow>
             let h2 = fold (hub_exec L) (sk_waiting env) h1;
                 call = CallConnectRoute
                   \<lparr>qc_comet = Some (h_identity h), qc_connection = cn_connection i, qc_token = cn_token i, qc_jwt = ad_jwt ad, qc_request = []\<rparr>
                   (socket_deadline ph (sk_now env) (ad_expires ad - safety_margin));
                 ((out, ph'), h3) = open_socket L env ad a h2 ph
             in (case out of
                   Served p a safe \<Rightarrow>
                     finish out (ph'\<lparr>ph_active := ph_active ph' - 1\<rparr>) (fold (hub_exec L) (sk_session env) h3) [call]
                 | _ \<Rightarrow> finish out ph' h3 [call]))"

section \<open>Heartbeats\<close>

text \<open>One turn of the heartbeat: when it starts, the events of the hub while it waits, what wakes it, the clock, the context and the select of the ping,
  Logic's answer, the events until then, and the clock when the answer is read.\<close>

datatype heartbeat_wake = HeartCtx | HeartDone | HeartTimer

record heartbeat_env =
  hb_start :: int
  hb_waiting :: "hub_event list"
  hb_wake :: heartbeat_wake
  hb_now :: int
  hb_ctx :: "ctx_err option"
  hb_pick :: nat
  hb_reply :: "rpc_status + route_lease option option"
  hb_during :: "hub_event list"
  hb_read :: int

definition terminal_heartbeat :: "rpc_code \<Rightarrow> bool" where
  "terminal_heartbeat k =
     (k \<in> {InvalidArgument, NotFound, PermissionDenied, FailedPrecondition, Unimplemented, Unauthenticated})"

definition ping_control :: socket_control where
  "ping_control = \<lparr>ct_frame = None, ct_kind = 9, ct_data = [], ct_close = False\<rparr>"

text \<open>A turn ends the loop (\<open>None\<close>) or goes on until the next safe deadline.\<close>

definition heartbeat_turn ::
  "lib \<Rightarrow> heartbeat_env \<Rightarrow> nat \<Rightarrow> int \<Rightarrow> int \<Rightarrow> public_handler \<Rightarrow> hub \<Rightarrow> (int option \<times> public_handler \<times> hub) \<times> socket_call list" where
  "heartbeat_turn L env a auth safe ph h0 =
     (if safe - hb_start env \<le> 0 then ((None, ph, h0), [])
      else
        let h = fold (hub_exec L) (hb_waiting env) h0 in
        if hb_wake env \<noteq> HeartTimer then ((None, ph, h), [])
        else if \<not> hb_now env < safe then ((None, ph, h), [])
        else
          let (r, h) = queue_control L (hb_ctx env) (hb_pick env) a ping_control h; i = c_identity (h_heap h ! a) in
          case r of
            Inl _ \<Rightarrow> ((None, ph, h), [])
          | Inr _ \<Rightarrow>
            let h = fold (hub_exec L) (hb_during env) h in
            (case hb_reply env of
               Inl e \<Rightarrow>
                 (if terminal_heartbeat (st_code e) then None else Some safe, ph\<lparr>ph_failures := ph_failures ph + 1\<rparr>, h)
             | Inr None \<Rightarrow> (None, ph, h)
             | Inr (Some route) \<Rightarrow>
                 (case route_deadline L (hb_read env) route i auth of Inl _ \<Rightarrow> None | Inr next' \<Rightarrow> Some next', ph, h),
             [CallHeartbeatRoute i (socket_deadline ph (hb_now env) safe)]))"

text \<open>The loop over the turns the environment offers.\<close>

fun heartbeat_run ::
  "lib \<Rightarrow> heartbeat_env list \<Rightarrow> nat \<Rightarrow> int \<Rightarrow> int \<Rightarrow> public_handler \<Rightarrow> hub \<Rightarrow> (int option \<times> public_handler \<times> hub) \<times> socket_call list" where
  "heartbeat_run L [] a auth safe ph h = ((Some safe, ph, h), [])"
| "heartbeat_run L (env # envs) a auth safe ph h =
     (let ((r, ph', h'), calls) = heartbeat_turn L env a auth safe ph h in
      case r of
        None \<Rightarrow> ((None, ph', h'), calls)
      | Some next' \<Rightarrow> (let (x, more) = heartbeat_run L envs a auth next' ph' h' in (x, calls @ more)))"

section \<open>Errors shown to the client\<close>

text \<open>The tables of \<open>sendError\<close>, indexed by the number of the enumeration.\<close>

definition reason_code :: "error_reason \<Rightarrow> string option" where
  "reason_code r =
     (case r of
        REASON_UNSPECIFIED \<Rightarrow> None
      | REASON_INVALID_ARGUMENT \<Rightarrow> Some ''invalid_argument''
      | REASON_IDEMPOTENCY_CONFLICT \<Rightarrow> Some ''idempotency_conflict''
      | REASON_UNAUTHENTICATED \<Rightarrow> Some ''unauthenticated''
      | REASON_PERMISSION_DENIED \<Rightarrow> Some ''permission_denied''
      | REASON_SUPERSEDED \<Rightarrow> Some ''superseded''
      | REASON_LEASE_EXPIRED \<Rightarrow> Some ''lease_expired''
      | REASON_INSTANCE_NOT_REGISTERED \<Rightarrow> Some ''instance_not_registered''
      | REASON_DEPENDENCY_UNAVAILABLE \<Rightarrow> Some ''dependency_unavailable''
      | REASON_RESOURCE_EXHAUSTED \<Rightarrow> Some ''resource_exhausted''
      | REASON_DRAINING \<Rightarrow> Some ''draining'')"

definition retry_code :: "retry_directive \<Rightarrow> string option" where
  "retry_code r =
     (case r of
        RETRY_UNSPECIFIED \<Rightarrow> None
      | RETRY_DO_NOT_RETRY \<Rightarrow> Some ''do_not_retry''
      | RETRY_SAME_REQUEST \<Rightarrow> Some ''same_request''
      | RETRY_RECONNECT \<Rightarrow> Some ''reconnect''
      | RETRY_REAUTHENTICATE \<Rightarrow> Some ''reauthenticate''
      | RETRY_REFRESH_ROUTE \<Rightarrow> Some ''refresh_route'')"

definition apply_detail :: "error_detail \<Rightarrow> im_send_error \<Rightarrow> im_send_error" where
  "apply_detail d r =
     (case (reason_code (ed_reason d), retry_code (ed_retry d)) of
        (Some k, Some t) \<Rightarrow>
          r\<lparr>ie_code := k, ie_retry := t,
            ie_request := (if valid_request_id (ed_request d) then ed_request d else ie_request r)\<rparr>
      | _ \<Rightarrow> r)"

definition send_error :: "rpc_status option \<Rightarrow> im_send_error" where
  "send_error e =
     fold apply_detail (case e of None \<Rightarrow> [] | Some s \<Rightarrow> st_details s)
       \<lparr>ie_code = ''result_unknown'', ie_retry = ''same_request'', ie_request = []\<rparr>"

definition terminal_submit_error :: "rpc_status option \<Rightarrow> bool" where
  "terminal_submit_error e =
     (case e of
        None \<Rightarrow> False
      | Some s \<Rightarrow> st_code s = Unauthenticated \<or>
          list_ex (\<lambda>d. ed_reason d \<in> {REASON_SUPERSEDED, REASON_LEASE_EXPIRED, REASON_INSTANCE_NOT_REGISTERED, REASON_UNAUTHENTICATED})
            (st_details s))"

section \<open>Frames\<close>

record send_frame =
  sf_event :: string
  sf_client :: string
  sf_receive :: string
  sf_type :: string
  sf_content :: string

record legacy_frame =
  lf_send :: string
  lf_receive :: string
  lf_content :: string
  lf_origin :: int
  lf_type :: int

text \<open>
  \<open>strictJSON\<close>. The decoder keeps the first error (an unknown field, a value of the wrong kind) and goes on with the other
  members, so a value is there also when it reports an error.
\<close>

fun decode_saving ::
  "(string \<times> (json \<Rightarrow> 'r \<Rightarrow> 'r option)) list \<Rightarrow> (string \<times> json) list \<Rightarrow> bool \<Rightarrow> 'r \<Rightarrow> bool \<times> 'r" where
  "decode_saving fs [] bad r = (bad, r)"
| "decode_saving fs ((k, v) # ms) bad r =
     (case find_field fs (unquote k) of
        None \<Rightarrow> decode_saving fs ms True r
      | Some f \<Rightarrow> (case f v r of None \<Rightarrow> decode_saving fs ms True r | Some r' \<Rightarrow> decode_saving fs ms bad r'))"

definition strict_json :: "(string \<times> (json \<Rightarrow> 'r \<Rightarrow> 'r option)) list \<Rightarrow> string \<Rightarrow> 'r \<Rightarrow> bool \<times> 'r" where
  "strict_json fs raw r =
     (if \<not> utf8_valid raw then (True, r)
      else case json_first raw of
        None \<Rightarrow> (True, r)
      | Some (v, rest) \<Rightarrow>
        let (bad, r') = (case v of JNull \<Rightarrow> (False, r) | JObj ms \<Rightarrow> decode_saving fs ms False r | _ \<Rightarrow> (True, r)) in
        (bad \<or> skip_ws rest \<noteq> [], r'))"

definition send_fields :: "(string \<times> (json \<Rightarrow> send_frame \<Rightarrow> send_frame option)) list" where
  "send_fields =
     [(''event'', \<lambda>v f. map_option (\<lambda>s. f\<lparr>sf_event := s\<rparr>) (decode_string v (sf_event f))),
      (''client_message_id'', \<lambda>v f. map_option (\<lambda>s. f\<lparr>sf_client := s\<rparr>) (decode_string v (sf_client f))),
      (''receive_id'', \<lambda>v f. map_option (\<lambda>s. f\<lparr>sf_receive := s\<rparr>) (decode_string v (sf_receive f))),
      (''receive_type'', \<lambda>v f. map_option (\<lambda>s. f\<lparr>sf_type := s\<rparr>) (decode_string v (sf_type f))),
      (''content'', \<lambda>v f. map_option (\<lambda>s. f\<lparr>sf_content := s\<rparr>) (decode_string v (sf_content f)))]"

definition legacy_fields :: "(string \<times> (json \<Rightarrow> legacy_frame \<Rightarrow> legacy_frame option)) list" where
  "legacy_fields =
     [(''send_id'', \<lambda>v f. map_option (\<lambda>s. f\<lparr>lf_send := s\<rparr>) (decode_string v (lf_send f))),
      (''receive_id'', \<lambda>v f. map_option (\<lambda>s. f\<lparr>lf_receive := s\<rparr>) (decode_string v (lf_receive f))),
      (''content'', \<lambda>v f. map_option (\<lambda>s. f\<lparr>lf_content := s\<rparr>) (decode_string v (lf_content f))),
      (''origin'', \<lambda>v f. map_option (\<lambda>s. f\<lparr>lf_origin := s\<rparr>) (decode_int8 v (lf_origin f))),
      (''receive_type'', \<lambda>v f. map_option (\<lambda>s. f\<lparr>lf_type := s\<rparr>) (decode_int8 v (lf_type f)))]"

text \<open>The request a frame becomes, and whether the frame is in error.\<close>

definition v2_request :: "lib \<Rightarrow> conn_id \<Rightarrow> string \<Rightarrow> string \<Rightarrow> bool \<times> submit_request" where
  "v2_request L i request raw =
     (let (bad, f) = strict_json send_fields raw \<lparr>sf_event = [], sf_client = [], sf_receive = [], sf_type = [], sf_content = []\<rparr>;
          kind = (if sf_type f = ''user'' then RECEIVE_TYPE_USER else if sf_type f = ''group'' then RECEIVE_TYPE_GROUP
                  else RECEIVE_TYPE_UNSPECIFIED)
      in (bad \<or> kind = RECEIVE_TYPE_UNSPECIFIED \<or> sf_event f \<noteq> ''send_message'' \<or> \<not> valid_uuid L (sf_client f),
          \<lparr>qs_identity = Some i, qs_client = sf_client f, qs_dest = Some \<lparr>d_type = kind, d_id = sf_receive f\<rparr>,
           qs_content = sf_content f, qs_request = request\<rparr>))"

definition legacy_request :: "conn_id \<Rightarrow> string \<Rightarrow> string \<Rightarrow> string \<Rightarrow> bool \<times> submit_request" where
  "legacy_request i request uuid raw =
     (let (bad, f) = strict_json legacy_fields raw \<lparr>lf_send = [], lf_receive = [], lf_content = [], lf_origin = 0, lf_type = 0\<rparr>;
          kind = (if lf_type f = 0 then RECEIVE_TYPE_USER else if lf_type f = 1 then RECEIVE_TYPE_GROUP else RECEIVE_TYPE_UNSPECIFIED)
      in (bad \<or> lf_send f \<noteq> cn_user i \<or> lf_origin f \<noteq> 0 \<or> kind = RECEIVE_TYPE_UNSPECIFIED,
          \<lparr>qs_identity = Some i, qs_client = uuid, qs_dest = Some \<lparr>d_type = kind, d_id = lf_receive f\<rparr>,
           qs_content = lf_content f, qs_request = request\<rparr>))"

text \<open>The frame that answers a submission: the result of a reply that passes the checks, or an error.\<close>

definition dispatch_code :: "dispatch_state \<Rightarrow> string" where
  "dispatch_code d =
     (case d of DISPATCH_STATE_QUEUED \<Rightarrow> ''queued'' | DISPATCH_STATE_NOT_QUEUED \<Rightarrow> ''not_queued'' | DISPATCH_STATE_UNKNOWN \<Rightarrow> ''unknown''
      | DISPATCH_STATE_UNSPECIFIED \<Rightarrow> [])"

definition result_frame :: "lib \<Rightarrow> string \<Rightarrow> rpc_status + send_result option \<Rightarrow> send_result_frame" where
  "result_frame L cid reply =
     (let result = (case reply of
            Inr (Some r) \<Rightarrow>
              if sr_stored r \<and> sr_client r = cid \<and> validate_message L (Some (sr_message r)) = Inr () \<and> dispatch_code (sr_dispatch r) \<noteq> []
              then Some \<lparr>ir_client = sr_client r, ir_stored = True, ir_message = public_message (sr_message r),
                         ir_dispatch = dispatch_code (sr_dispatch r), ir_replayed = sr_replayed r\<rparr>
              else None
          | _ \<Rightarrow> None)
      in \<lparr>fr_event = ''send_result'', fr_client = cid, fr_result = result,
          fr_error = (if result = None then Some (send_error (case reply of Inl e \<Rightarrow> Some e | Inr _ \<Rightarrow> None)) else None)\<rparr>)"

definition error_frame :: "string \<Rightarrow> send_result_frame" where
  "error_frame cid =
     \<lparr>fr_event = ''send_result'', fr_client = cid, fr_result = None,
      fr_error = Some \<lparr>ie_code = ''invalid_argument'', ie_retry = ''do_not_retry'', ie_request = []\<rparr>\<rparr>"

section \<open>Reading\<close>

text \<open>One message of the socket: the events of the hub while the reader waits for it and while Logic answers, whether it could be
  read and as text, the generated identifiers, the context and the select of the control queue, and Logic's answer (\<open>None\<close> is a
  response without a result).\<close>

record read_env =
  rd_waiting :: "hub_event list"
  rd_failed :: bool
  rd_text :: bool
  rd_raw :: string
  rd_request :: string
  rd_uuid :: string
  rd_reply :: "rpc_status + send_result option"
  rd_during :: "hub_event list"
  rd_ctx :: "ctx_err option"
  rd_pick :: nat

text \<open>What a turn does outside the hub: the request it sends to Logic and the frame it hands to the writer.\<close>

datatype read_act = ReadSubmit submit_request | ReadAnswer send_result_frame bool

definition queue_frame ::
  "lib \<Rightarrow> read_env \<Rightarrow> nat \<Rightarrow> send_result_frame \<Rightarrow> bool \<Rightarrow> hub \<Rightarrow> (comet_error + unit) \<times> hub" where
  "queue_frame L env a f closing h =
     queue_control L (rd_ctx env) (rd_pick env) a \<lparr>ct_frame = Some f, ct_kind = 0, ct_data = [], ct_close = closing\<rparr> h"

text \<open>The request a frame becomes, with the bound on its content.\<close>

definition read_request :: "lib \<Rightarrow> string \<Rightarrow> conn_id \<Rightarrow> read_env \<Rightarrow> bool \<times> submit_request" where
  "read_request L protocol i env =
     (let (bad, req) = (if protocol = ''v2'' then v2_request L i (rd_request env) (rd_raw env)
                        else legacy_request i (rd_request env) (rd_uuid env) (rd_raw env))
      in (bad \<or> length (qs_content req) = 0 \<or> 16 * 1024 < length (qs_content req), req))"

text \<open>A turn of \<open>read\<close>: whether the loop goes on, the new hub, and what it did.\<close>

definition read_turn ::
  "lib \<Rightarrow> string \<Rightarrow> read_env \<Rightarrow> nat \<Rightarrow> hub \<Rightarrow> bool \<times> hub \<times> read_act list" where
  "read_turn L protocol env a h0 =
     (let h = fold (hub_exec L) (rd_waiting env) h0 in
      if rd_failed env then (False, h, [])
      else if \<not> rd_text env then (False, h, [])
      else
        let i = c_identity (h_heap h ! a); (bad, req) = read_request L protocol i env in
        if bad then
          if protocol = ''v2'' then
            let f = error_frame (qs_client req); (_, h') = queue_frame L env a f False h in (True, h', [ReadAnswer f False])
          else (True, h, [])
        else
          let h = fold (hub_exec L) (rd_during env) h;
              e = (case rd_reply env of Inl e \<Rightarrow> Some e | Inr _ \<Rightarrow> None); terminal = terminal_submit_error e
          in if protocol = ''legacy'' then (\<not> terminal, h, [ReadSubmit req])
             else
               let f = result_frame L (qs_client req) (rd_reply env); (r, h') = queue_frame L env a f terminal h
               in (r = Inr () \<and> \<not> terminal, h', [ReadSubmit req, ReadAnswer f terminal]))"

fun read_run :: "lib \<Rightarrow> string \<Rightarrow> read_env list \<Rightarrow> nat \<Rightarrow> hub \<Rightarrow> bool \<times> hub \<times> read_act list" where
  "read_run L protocol [] a h = (True, h, [])"
| "read_run L protocol (env # envs) a h =
     (let (go, h', acts) = read_turn L protocol env a h in
      if \<not> go then (False, h', acts)
      else let (x, h'', more) = read_run L protocol envs a h' in (x, h'', acts @ more))"

section \<open>Writing\<close>

text \<open>What the writer sends: control messages, result frames, and messages in the form of the protocol.\<close>

record legacy_message =
  lm_send :: string
  lm_receive :: string
  lm_content :: string
  lm_origin :: int
  lm_type :: int

definition legacy_message_of :: "message_view \<Rightarrow> legacy_message" where
  "legacy_message_of m =
     \<lparr>lm_send = mv_sender m, lm_receive = d_id (the (mv_dest m)), lm_content = mv_content m,
      lm_origin = (if mv_origin m = MESSAGE_ORIGIN_AI then 1 else 0),
      lm_type = (if d_type (the (mv_dest m)) = RECEIVE_TYPE_GROUP then 1 else 0)\<rparr>"

datatype wire = WireControl nat string | WireResult "send_result_frame option" | WireMessage im_message | WireLegacy legacy_message

text \<open>
  A turn of \<open>WriteTo\<close>: the context at each of its checks, the events of the hub before the select, before the second check and
  during the write, what the select picks of what is ready, and how the write ends.
\<close>

datatype write_end = WriteOk | WriteDeadlineFailed | WriteError bool

datatype write_case = WCtx | WDone | WControl | WOutbound

record writer_env =
  we_ctx :: "ctx_err option"
  we_ctx2 :: "ctx_err option"
  we_ctx3 :: "ctx_err option"
  we_ctx4 :: "ctx_err option"
  we_pick :: nat
  we_before :: "hub_event list"
  we_taken :: "hub_event list"
  we_during :: "hub_event list"
  we_end :: write_end

datatype write_result = WriteContinues | WriteStops "comet_error option" | WriteFails | WriterAttached

definition write_ready :: "ctx_err option \<Rightarrow> connection \<Rightarrow> write_case list" where
  "write_ready ctx c =
     (if ctx \<noteq> None then [WCtx] else []) @ (if c_done c then [WDone] else []) @ (if c_controls c \<noteq> [] then [WControl] else []) @
     (if c_outbound c \<noteq> [] then [WOutbound] else [])"

text \<open>\<open>observeWriteFailure\<close>: only a timeout marks the connection slow.\<close>

definition observe_write_failure :: "bool \<Rightarrow> nat \<Rightarrow> hub \<Rightarrow> hub" where
  "observe_write_failure timeout a h = (if timeout then mark_slow a h else h)"

definition writer_turn ::
  "lib \<Rightarrow> string \<Rightarrow> writer_env \<Rightarrow> nat \<Rightarrow> hub \<Rightarrow> (write_result \<times> hub) \<times> wire list" where
  "writer_turn L protocol env a h0 =
     (if we_ctx env \<noteq> None then ((WriteStops (Some (ErrCtx (the (we_ctx env)))), h0), [])
      else if c_done (h_heap h0 ! a) then ((WriteStops None, h0), [])
      else
        let h = fold (hub_exec L) (we_before env) h0 in
        case select_case (we_pick env) (write_ready (we_ctx2 env) (h_heap h ! a)) of
          None \<Rightarrow> ((WriteContinues, h), [])
        | Some WCtx \<Rightarrow> ((WriteStops (Some (ErrCtx (the (we_ctx2 env)))), h), [])
        | Some WDone \<Rightarrow> ((WriteStops None, h), [])
        | Some WControl \<Rightarrow>
          let (ctl, h) = take_control a h; x = the ctl; h = fold (hub_exec L) (we_taken env) h in
          if we_ctx3 env \<noteq> None then ((WriteStops (Some (ErrCtx (the (we_ctx3 env)))), h), [])
          else if c_done (h_heap h ! a) then ((WriteStops None, h), [])
          else if we_end env = WriteDeadlineFailed then ((WriteFails, h), [])
          else
            let w = (if ct_kind x \<noteq> 0 then [WireControl (ct_kind x) (ct_data x)]
                     else if protocol = ''v2'' then [WireResult (ct_frame x)] else []);
                h = (if w = [] then h else fold (hub_exec L) (we_during env) h)
            in (case (w, we_end env) of
                  (_ # _, WriteError timeout) \<Rightarrow> ((WriteFails, observe_write_failure timeout a h), [])
                | _ \<Rightarrow> ((if ct_close x then WriteStops None else WriteContinues, h), w))
        | Some WOutbound \<Rightarrow>
          let (m, h) = take_outbound a h; h = fold (hub_exec L) (we_taken env) h in
          if we_ctx3 env \<noteq> None then ((WriteStops (Some (ErrCtx (the (we_ctx3 env)))), h), [])
          else if c_done (h_heap h ! a) then ((WriteStops None, h), [])
          else if we_end env = WriteDeadlineFailed then ((WriteFails, h), [])
          else
            let w = (if protocol = ''v2'' then WireMessage (public_message (the m)) else WireLegacy (legacy_message_of (the m)));
                h = fold (hub_exec L) (we_during env) h
            in (case we_end env of
                  WriteError timeout \<Rightarrow>
                    let h = observe_write_failure timeout a h in
                    ((if we_ctx4 env \<noteq> None then WriteStops (Some (ErrCtx (the (we_ctx4 env))))
                      else if c_done (h_heap h ! a) then WriteStops None else WriteFails, h), [])
                | _ \<Rightarrow> ((WriteContinues, h), [w])))"

fun writer_run :: "lib \<Rightarrow> string \<Rightarrow> writer_env list \<Rightarrow> nat \<Rightarrow> hub \<Rightarrow> (write_result \<times> hub) \<times> wire list" where
  "writer_run L protocol [] a h = ((WriteContinues, h), [])"
| "writer_run L protocol (env # envs) a h =
     (let ((r, h'), w) = writer_turn L protocol env a h in
      if r \<noteq> WriteContinues then ((r, h'), w)
      else let (x, more) = writer_run L protocol envs a h' in (x, w @ more))"

text \<open>\<open>WriteTo\<close>: one writer per connection, which unregisters the connection when it ends.\<close>

definition write_to ::
  "lib \<Rightarrow> string \<Rightarrow> bool \<Rightarrow> writer_env list \<Rightarrow> call_fate \<Rightarrow> nat \<Rightarrow> hub \<Rightarrow> (write_result \<times> hub) \<times> wire list" where
  "write_to L protocol socket envs fate a h =
     (if \<not> socket \<or> protocol \<noteq> ''legacy'' \<and> protocol \<noteq> ''v2'' then ((WriteStops (Some (ErrInvalid ''websocket or protocol'')), h), [])
      else if c_writer (h_heap h ! a) then ((WriterAttached, h), [])
      else
        let i = c_identity (h_heap h ! a);
            ((r, h'), w) = writer_run L protocol envs a (upd_conn a (\<lambda>c. c\<lparr>c_writer := True\<rparr>) h)
        in ((r, if r = WriteContinues then h' else snd (hub_unregister L fate (Some i) h')), w))"

end
