(* ===== verification/Routing.thy ===== *)
theory Routing
  imports RouteStore Samples
begin

text \<open>
  What the routing store promises its callers: every operation, failing calls included, keeps the key
  space well formed; leases are bounded by their lifetimes; a replaced connection can neither refresh
  nor remove the route of its successor; and lookups answer for every user in order.
\<close>

section \<open>Every operation keeps the key space well formed\<close>

lemma valid_comet_arg: "uuid_documented L \<Longrightarrow> valid_comet L (Some c) \<Longrightarrow> valid_instance (ci_instance c) \<and> lua_uuid (ci_boot c)"
  by (simp add: valid_comet_def valid_uuid_lua)

lemma valid_address_nonempty: "valid_address a \<Longrightarrow> a \<noteq> []"
  by (auto simp: valid_address_def split_host_port_def last_index_def split: if_splits)

lemma st_register_wf:
  assumes "wf_store L st S" and "clock_ok (store_env st) (io_now io)"
  shows "wf_store L st (snd (st_register L st io c a S))"
proof (cases "valid_comet L c \<and> valid_address a")
  case False
  then show ?thesis using assms by (auto simp: st_register_def)
next
  case True
  then obtain d where d: "c = Some d" by (cases c) (auto simp: valid_comet_def)
  let ?p = "empty_lease\<lparr>r_instance := ci_instance d, r_boot := ci_boot d, r_address := a\<rparr>"
  have "instance_arg ?p" "r_address ?p \<noteq> []"
    using True d valid_comet_arg wf_storeD(1) [OF assms(1)] valid_address_nonempty by (auto simp: instance_arg_def)
  then have "wf_redis (store_env st) (snd (op_register (store_env st) (io_now io) ?p (e_ip (store_env st) @ r_instance ?p) S))"
    using op_register_wf [OF _ _ assms(2)] wf_storeD [OF assms(1)] by (metis prod.collapse)
  then show ?thesis
    using True d assms(1) by (auto simp: st_register_def run_script_def Let_def wf_store_def split: option.splits prod.splits)
qed

lemma st_renew_wf:
  assumes "wf_store L st S" and "clock_ok (store_env st) (io_now io)"
  shows "wf_store L st (snd (st_renew L st io c d S))"
proof (cases "valid_comet L c")
  case False
  then show ?thesis using assms by (auto simp: st_renew_def)
next
  case True
  let ?p = "empty_lease\<lparr>r_instance := ci_instance (the c), r_boot := ci_boot (the c), r_draining := d\<rparr>"
  have "wf_redis (store_env st) (snd (op_renew (store_env st) (io_now io) ?p (e_ip (store_env st) @ r_instance ?p) S))"
    using op_renew_wf [OF _ _ assms(2)] wf_storeD [OF assms(1)] by (metis prod.collapse)
  then show ?thesis
    using True assms(1) by (auto simp: st_renew_def run_script_def Let_def wf_store_def split: option.splits prod.splits)
qed

lemma st_unregister_wf:
  assumes "wf_store L st S"
  shows "wf_store L st (snd (st_unregister L st io c S))"
proof -
  have "wf_redis (store_env st) (snd (op_unregister (store_env st) (io_now io) p k S))" for p k
    using op_unregister_wf wf_storeD [OF assms(1)] by (metis prod.collapse)
  then show ?thesis
    using assms(1) by (auto simp: st_unregister_def run_script_def Let_def wf_store_def split: option.splits prod.splits)
qed

lemma st_disconnect_wf:
  assumes "wf_store L st S"
  shows "wf_store L st (snd (st_disconnect L st io c S))"
proof -
  have "wf_redis (store_env st) (snd (op_disconnect (store_env st) (io_now io) p k S))" for p k
    using op_disconnect_wf wf_storeD [OF assms(1)] by (metis prod.collapse)
  then show ?thesis
    using assms(1) by (auto simp: st_disconnect_def run_script_def Let_def wf_store_def split: option.splits prod.splits)
qed

lemma st_route_wf:
  assumes "wf_store L st S" and "clock_ok (store_env st) (io_now io)" and "op = ''check'' \<or> op = ''heartbeat''"
  shows "wf_store L st (snd (st_route L st io op c S))"
proof -
  have "wf_redis (store_env st) (snd (op_check (store_env st) (io_now io) hb p (e_rp (store_env st) @ r_user p) S))" for hb p
    using op_check_wf [OF _ _ assms(2)] wf_storeD [OF assms(1)] by (metis prod.collapse)
  from this [of _ "connection_record (the c)"] show ?thesis
    using assms(1,3) by (auto simp: st_route_def run_script_def Let_def wf_store_def split: option.splits prod.splits)
qed

lemma auth_bound:
  assumes "ts_documented L" and "ts_check L (ts_new a)"
  shows "a div ns_per_ms \<le> 253402300799999"
proof -
  have "a div 1000000000 \<le> 253402300799"
    using assms by (simp add: ts_documented_def ts_new_def ns_per_s_def)
  moreover have "a mod 1000000000 < 1000000000" by simp
  ultimately have "a \<le> 253402300799999999999"
    using div_mult_mod_eq [of a 1000000000] by linarith
  then have "a div 1000000 \<le> 253402300799999999999 div 1000000" by (rule zdiv_mono1) simp
  then show ?thesis by (simp add: ns_per_ms_def)
qed

lemma st_connect_wf:
  assumes "wf_store L st S" and "clock_ok (store_env st) (io_now io)" and "ts_documented L"
  shows "wf_store L st (snd (st_connect L st io c u n t auth S))"
proof (cases c)
  case None
  then show ?thesis using assms by (auto simp: st_connect_def valid_comet_def)
next
  case (Some d)
  show ?thesis
  proof (cases "connect_ok L st (io_now io) d u n t auth S")
    case False
    then show ?thesis using st_connect_refused [OF assms(1) False] assms(1) Some by auto
  next
    case True
    define p where "p = (connection_record \<lparr>cn_user = u, cn_instance = ci_instance d, cn_connection = n, cn_token = t\<rparr>)
       \<lparr>r_boot := ci_boot d, r_auth := auth div ns_per_ms\<rparr>"
    have "route_arg p" "r_auth p \<noteq> 0"
      using True auth_bound [OF assms(3)] valid_comet_arg valid_connection_stored wf_storeD(1) [OF assms(1)]
      by (auto simp: p_def connect_ok_def route_arg_def instance_arg_def) fastforce+
    then have "wf_redis (store_env st) (snd (op_connect (store_env st) (io_now io) p (e_rp (store_env st) @ r_user p) (e_ip (store_env st) @ r_instance p) S))"
      using op_connect_wf [OF _ _ assms(2)] wf_storeD [OF assms(1)] by (metis prod.collapse)
    then show ?thesis
      using True assms(1) Some
      by (auto simp: p_def connect_ok_def st_connect_def run_script_def Let_def wf_store_def split: option.splits prod.splits)
  qed
qed

lemma op_batch_state [simp]:
  "snd (op_lookup E now ids keys S) = S" "snd (op_resolve E now ids keys S) = S"
  by (simp_all add: op_lookup_def op_resolve_def split: sum.split)

lemma st_lookup_state: "snd (st_lookup L st io us S) = S"
  by (auto simp: st_lookup_def run_script_def Let_def split: option.splits prod.splits)

lemma st_resolve_state: "snd (st_resolve L st io us S) = S"
  by (auto simp: st_resolve_def run_script_def Let_def split: option.splits prod.splits)

lemmas store_ops_wf = st_register_wf st_renew_wf st_unregister_wf st_connect_wf st_disconnect_wf

lemma exec_op_wf:
  assumes "wf_store L st S" and "ts_documented L" and "clock_ok (store_env st) (io_now io)"
  shows "wf_store L st (snd (exec_op L st io oper S))"
  using assms st_route_wf [OF assms(1,3)]
  by (cases oper) (simp_all add: forget_def store_ops_wf st_check_def st_heartbeat_def st_lookup_state st_resolve_state)

section \<open>Runs\<close>

text \<open>
  The routing state over time: the Redis clock moves on, Redis may drop a key whose lease has
  passed, and any Logic process may run an operation (which may fail before or after the script ran).
\<close>

inductive route_step :: "lib \<Rightarrow> rstore \<Rightarrow> int \<times> redis \<Rightarrow> route_op option \<Rightarrow> int \<times> redis \<Rightarrow> bool"
  for L :: lib and st :: rstore where
  tick: "now \<le> now' \<Longrightarrow> clock_ok (store_env st) now' \<Longrightarrow> route_step L st (now, S) None (now', S)"
| expire: "S k = Some v \<Longrightarrow> r_deadline v \<le> now \<Longrightarrow> route_step L st (now, S) None (now, S(k := None))"
| call: "io_now io = now \<Longrightarrow> route_step L st (now, S) (Some oper) (now, snd (exec_op L st io oper S))"

inductive_cases route_stepE: "route_step L st w l w'"

inductive route_run :: "lib \<Rightarrow> rstore \<Rightarrow> int \<times> redis \<Rightarrow> route_op list \<Rightarrow> int \<times> redis \<Rightarrow> bool"
  for L :: lib and st :: rstore where
  start: "route_run L st w [] w"
| silent: "route_run L st w ops w' \<Longrightarrow> route_step L st w' None w'' \<Longrightarrow> route_run L st w ops w''"
| perform: "route_run L st w ops w' \<Longrightarrow> route_step L st w' (Some x) w'' \<Longrightarrow> route_run L st w (ops @ [x]) w''"

text \<open>Every lease ends at most one lifetime from now.\<close>

definition ttl_of :: "script_env \<Rightarrow> string \<Rightarrow> int" where
  "ttl_of E k = (if has_prefix k (e_ip E) then e_ittl E else e_rttl E)"

definition lease_bound :: "script_env \<Rightarrow> int \<Rightarrow> redis \<Rightarrow> bool" where
  "lease_bound E now S = (\<forall>k v. S k = Some v \<longrightarrow> r_deadline v \<le> now + ttl_of E k)"

lemma lease_boundD: "lease_bound E now S \<Longrightarrow> S k = Some v \<Longrightarrow> r_deadline v \<le> now + ttl_of E k"
  by (simp add: lease_bound_def)

lemma lease_bound_upd: "lease_bound E now S \<Longrightarrow> r_deadline v \<le> now + ttl_of E k \<Longrightarrow> lease_bound E now (S(k \<mapsto> v))"
  by (simp add: lease_bound_def)

lemma lease_bound_del: "lease_bound E now S \<Longrightarrow> lease_bound E now (S(k := None))"
  by (simp add: lease_bound_def)

lemma lease_bound_mono: "lease_bound E now S \<Longrightarrow> now \<le> now' \<Longrightarrow> lease_bound E now' S"
  unfolding lease_bound_def by force

lemma ttl_of_keys [simp]:
  "ttl_of E (e_ip E @ i) = e_ittl E" "env_ok E \<Longrightarrow> ttl_of E (e_rp E @ u) = e_rttl E"
  by (simp_all add: ttl_of_def env_ok_def)

text \<open>
  The effect of a script run on the key space: nothing, or one key removed, or one key written
  with a deadline at most one lifetime ahead.
\<close>

definition one_write :: "script_env \<Rightarrow> int \<Rightarrow> string \<Rightarrow> redis \<Rightarrow> redis \<Rightarrow> bool" where
  "one_write E now k S S' =
     (S' = S \<or> S' = S(k := None) \<or> (\<exists>v. S' = S(k \<mapsto> v) \<and> r_deadline v \<le> now + ttl_of E k))"

lemma commit_save_write: "r_deadline v \<le> now + ttl_of E k \<Longrightarrow> one_write E now k S (snd (commit_save now k v r S))"
  by (auto simp: commit_save_def save_key_def one_write_def)

lemma one_write_refl [simp]: "one_write E now k S S" "one_write E now k S (S(k := None))"
  by (simp_all add: one_write_def)

lemma op_register_write: "one_write E now (e_ip E @ i) S (snd (op_register E now p (e_ip E @ i) S))"
  by (auto simp: op_register_def Let_def intro!: commit_save_write split: sum.splits)

lemma op_renew_write: "one_write E now (e_ip E @ i) S (snd (op_renew E now p (e_ip E @ i) S))"
  by (auto simp: op_renew_def Let_def intro!: commit_save_write split: sum.splits)

lemma op_unregister_write: "one_write E now k S (snd (op_unregister E now p k S))"
  by (auto simp: op_unregister_def split: sum.splits)

lemma op_disconnect_write: "one_write E now k S (snd (op_disconnect E now p k S))"
  by (auto simp: op_disconnect_def split: sum.splits)

lemma op_connect_write: "env_ok E \<Longrightarrow> one_write E now (e_rp E @ u) S (snd (op_connect E now p (e_rp E @ u) ik S))"
  by (auto simp: op_connect_def Let_def intro!: commit_save_write split: sum.splits)

lemma op_check_write: "env_ok E \<Longrightarrow> one_write E now (e_rp E @ u) S (snd (op_check E now hb p (e_rp E @ u) S))"
  by (auto simp: op_check_def Let_def intro!: commit_save_write split: sum.splits option.splits)

text \<open>The key an operation may write.\<close>

fun op_key :: "rstore \<Rightarrow> route_op \<Rightarrow> string option" where
  "op_key st (ORegister c a) = map_option (\<lambda>c. ikey st (ci_instance c)) c"
| "op_key st (ORenew c d) = map_option (\<lambda>c. ikey st (ci_instance c)) c"
| "op_key st (OUnregister c) = map_option (\<lambda>c. ikey st (ci_instance c)) c"
| "op_key st (OConnect c u n t a) = Some (rkey st u)"
| "op_key st (OHeartbeat c) = map_option (\<lambda>c. rkey st (cn_user c)) c"
| "op_key st (ODisconnect c) = map_option (\<lambda>c. rkey st (cn_user c)) c"
| "op_key st _ = None"

lemma op_check_pure [simp]: "snd (op_check E now False p k S) = S"
  by (auto simp: op_check_def split: sum.splits option.splits)

lemmas script_writes = op_register_write [of "store_env st" for st, simplified]
  op_renew_write [of "store_env st" for st, simplified] op_unregister_write
  op_disconnect_write op_connect_write [of "store_env st" for st, simplified]
  op_check_write [of "store_env st" for st, simplified]

lemma exec_op_write:
  assumes "env_ok (store_env st)"
  shows "case op_key st oper of None \<Rightarrow> snd (exec_op L st io oper S) = S
     | Some k \<Rightarrow> one_write (store_env st) (io_now io) k S (snd (exec_op L st io oper S))"
  using assms
  by (cases oper)
    (auto simp: forget_def st_register_def st_renew_def st_unregister_def st_connect_def st_heartbeat_def
      st_check_def st_disconnect_def st_route_def st_lookup_state st_resolve_state run_script_def Let_def valid_comet_def
      valid_connection_def script_writes split: option.splits prod.splits)

lemma exec_op_bound:
  assumes "env_ok (store_env st)" and "lease_bound (store_env st) (io_now io) S"
  shows "lease_bound (store_env st) (io_now io) (snd (exec_op L st io oper S))"
  using exec_op_write [OF assms(1), where oper = oper and L = L and io = io and S = S] assms(2)
  by (auto simp: one_write_def lease_bound_del lease_bound_upd split: option.splits)


section \<open>The invariant of runs\<close>

definition route_inv :: "lib \<Rightarrow> rstore \<Rightarrow> int \<times> redis \<Rightarrow> bool" where
  "route_inv L st w =
     (wf_store L st (snd w) \<and> clock_ok (store_env st) (fst w) \<and> lease_bound (store_env st) (fst w) (snd w))"

lemma route_step_inv:
  assumes "route_step L st w l w'" and "ts_documented L" and "route_inv L st w"
  shows "route_inv L st w'"
  using assms(1)
proof cases
  case (tick now now' S)
  then show ?thesis using assms(3) lease_bound_mono by (auto simp: route_inv_def)
next
  case (expire S k v now)
  then show ?thesis using assms(3) by (auto simp: route_inv_def wf_store_def lease_bound_del)
next
  case (call io now S oper)
  then show ?thesis
    using assms(2,3) exec_op_wf [of L st S io oper] exec_op_bound [of st io S L oper]
    by (auto simp: route_inv_def)
qed

lemma route_run_inv:
  assumes "route_run L st w ops w'" and "ts_documented L" and "route_inv L st w"
  shows "route_inv L st w'"
  using assms by induction (auto dest: route_step_inv)

lemma route_step_time: "route_step L st w l w' \<Longrightarrow> fst w \<le> fst w'"
  by (auto elim: route_stepE)

text \<open>Without a connect or heartbeat for a user, its entry stays as it is or goes away.\<close>

fun refreshes :: "string \<Rightarrow> route_op \<Rightarrow> bool" where
  "refreshes u (OConnect c u' n t a) = (u' = u)"
| "refreshes u (OHeartbeat (Some c)) = (cn_user c = u)"
| "refreshes u _ = False"

lemma st_disconnect_cases: "snd (st_disconnect L st io c S) \<in> {S, S(rkey st (cn_user (the c)) := None)}"
  by (auto simp: st_disconnect_def run_script_def op_disconnect_def Let_def split: option.splits prod.splits sum.splits)

lemma exec_op_local:
  assumes "env_ok (store_env st)" and "\<not> refreshes u oper"
  shows "snd (exec_op L st io oper S) (rkey st u) \<in> {S (rkey st u), None}"
proof (cases "op_key st oper = Some (rkey st u)")
  case True
  then obtain c where c: "oper = ODisconnect (Some c)" "cn_user c = u"
    using assms instance_route_keys [OF assms(1), simplified]
    by (cases oper) (auto simp: neq_commute split: option.splits)
  then show ?thesis using st_disconnect_cases [of L st io "Some c" S] by (auto simp: forget_def)
next
  case False
  then show ?thesis
    using exec_op_write [OF assms(1), where oper = oper and L = L and io = io and S = S]
    by (auto simp: one_write_def split: option.splits)
qed

lemma route_step_local:
  assumes "route_step L st w l w'" and "env_ok (store_env st)" and "\<And>x. l = Some x \<Longrightarrow> \<not> refreshes u x"
  shows "snd w' (rkey st u) \<in> {snd w (rkey st u), None}"
  using assms(1)
proof cases
  case (call io now S oper)
  then show ?thesis using exec_op_local [of st u oper L io S] assms by simp
qed (simp_all split: if_splits)

lemma route_run_local:
  assumes "route_run L st w ops w'" and "env_ok (store_env st)" and "list_all (\<lambda>x. \<not> refreshes u x) ops"
  shows "snd w' (rkey st u) \<in> {snd w (rkey st u), None}"
  using assms
proof induction
  case (start w)
  then show ?case by simp
next
  case (silent w ops w' w'')
  then show ?case using route_step_local [of L st w' None w'' u] by auto
next
  case (perform w ops w' x w'')
  then show ?case using route_step_local [of L st w' "Some x" w'' u] by auto
qed

section \<open>The fenced registry of routes\<close>

definition route_current :: "rstore \<Rightarrow> int \<Rightarrow> redis \<Rightarrow> string \<Rightarrow> conn_id option" where
  "route_current st now S u =
     (case S (rkey st u) of None \<Rightarrow> None
      | Some v \<Rightarrow> if now < r_deadline v then Some (lease_conn v) else None)"

definition route_ready :: "lib \<Rightarrow> rstore \<Rightarrow> redis_io \<Rightarrow> redis \<Rightarrow> bool" where
  "route_ready L st io S =
     (healthy io \<and> ts_documented L \<and> clock_ok (store_env st) (io_now io) \<and> wf_store L st S)"

definition route_release :: "lib \<Rightarrow> rstore \<Rightarrow> redis_io \<Rightarrow> conn_id \<Rightarrow> redis \<Rightarrow> redis" where
  "route_release L st io c S = snd (st_disconnect L st io (Some c) S)"

definition route_take ::
  "lib \<Rightarrow> rstore \<Rightarrow> redis_io \<Rightarrow> string \<Rightarrow> int \<Rightarrow> conn_id \<Rightarrow> redis \<Rightarrow> redis option" where
  "route_take L st io boot auth c S =
     (case st_connect L st io (Some \<lparr>ci_instance = cn_instance c, ci_boot = boot\<rparr>)
             (cn_user c) (cn_connection c) (cn_token c) auth S of
        (Inl _, _) \<Rightarrow> None
      | (Inr _, S') \<Rightarrow> Some S')"

lemma route_ready_wf: "route_ready L st io S \<Longrightarrow> wf_store L st S \<and> healthy io"
  by (simp add: route_ready_def)

lemma stored_connection_valid:
  assumes "wf_store L st S" and "S (rkey st u) = Some v"
  shows "valid_connection L (Some (lease_conn v)) \<and> r_user v = u"
proof -
  have "stored_common v \<and> stored_route (store_env st) (rkey st u) v"
    using assms stored_ok_route [of "store_env st" u v] wf_redisD [of "store_env st" S "rkey st u" v]
    by (auto simp: wf_store_def)
  moreover have "lua_token (r_token v) \<Longrightarrow> length (r_token v) \<le> 128 \<and> canonical 16 (r_token v)"
    using token_checks_agree by blast
  ultimately show ?thesis
    using valid_uuid_lua [OF wf_storeD(1) [OF assms(1)]]
    by (auto simp: valid_connection_def valid_id_def stored_common_def stored_route_def lease_conn_def)
qed

lemma route_release_eq:
  assumes "route_ready L st io S"
  shows "route_release L st io c S =
     (if route_current st (io_now io) S (cn_user c) = Some c then S(rkey st (cn_user c) := None) else S)"
proof (cases "valid_connection L (Some c)")
  case True
  then show ?thesis using st_disconnect_eq [OF _ _ True] route_ready_wf [OF assms]
    by (auto simp: route_release_def route_current_def split: option.splits)
next
  case False
  then have "route_current st (io_now io) S (cn_user c) \<noteq> Some c"
    using stored_connection_valid route_ready_wf [OF assms]
    by (auto simp: route_current_def split: option.splits if_splits)
  with False show ?thesis by (simp add: route_release_def st_disconnect_def)
qed

lemma lease_conn_connect [simp]:
  "lease_conn (connect_lease st now c u n t a) = \<lparr>cn_user = u, cn_instance = ci_instance c, cn_connection = n, cn_token = t\<rparr>"
  by (simp add: lease_conn_def connect_lease_def)

lemma route_take_SomeD:
  assumes "route_ready L st io S" and "route_take L st io boot auth c S = Some S'"
  shows "\<exists>v. S' = S(rkey st (cn_user c) \<mapsto> v) \<and> lease_conn v = c \<and> io_now io < r_deadline v"
proof -
  let ?c = "\<lparr>ci_instance = cn_instance c, ci_boot = boot\<rparr>"
  let ?ok = "connect_ok L st (io_now io) ?c (cn_user c) (cn_connection c) (cn_token c) auth S"
  have ready: "wf_store L st S" "healthy io" using route_ready_wf [OF assms(1)] by simp_all
  have ok: ?ok
    using assms(2) st_connect_refused [OF ready(1)] by (force simp: route_take_def split: prod.splits sum.splits)
  have "io_now io < r_deadline (connect_lease st (io_now io) ?c (cn_user c) (cn_connection c) (cn_token c) auth)"
    using ok ready env_ttl_pos wf_storeD(2) by (fastforce simp: connect_lease_def connect_ok_def)
  then show ?thesis
    using assms(2) st_connect_ok [OF ready(2,1) ok] by (auto simp: route_take_def)
qed

interpretation routes: fenced_registry "route_ready L st io" "route_current st (io_now io)" cn_user
  "route_release L st io" "route_take L st io boot auth" for L st io boot auth
proof
  fix S c
  assume r: "route_ready L st io S"
  show "route_ready L st io (route_release L st io c S)"
    using r st_disconnect_wf by (simp add: route_ready_def route_release_def)
  show "route_current st (io_now io) S (cn_user c) = Some c \<Longrightarrow>
      route_current st (io_now io) (route_release L st io c S) (cn_user c) = None"
    using route_release_eq [OF r] by (simp add: route_current_def)
  show "route_current st (io_now io) S (cn_user c) \<noteq> Some c \<Longrightarrow>
      route_current st (io_now io) (route_release L st io c S) = route_current st (io_now io) S"
    using route_release_eq [OF r] by simp
next
  fix S k and c :: conn_id
  assume "route_ready L st io S" "k \<noteq> cn_user c"
  then show "route_current st (io_now io) (route_release L st io c S) k = route_current st (io_now io) S k"
    using route_release_eq by (simp add: route_current_def)
next
  fix S c S'
  assume r: "route_ready L st io S" and t: "route_take L st io boot auth c S = Some S'"
  obtain v where v: "S' = S(rkey st (cn_user c) \<mapsto> v)" "lease_conn v = c" "io_now io < r_deadline v"
    using route_take_SomeD [OF r t] by blast
  show "route_ready L st io S'"
    using r t st_connect_wf [of L st S io "Some \<lparr>ci_instance = cn_instance c, ci_boot = boot\<rparr>"
        "cn_user c" "cn_connection c" "cn_token c" auth]
    by (auto simp: route_ready_def route_take_def split: prod.splits sum.splits)
  show "route_current st (io_now io) S' (cn_user c) = Some c" using v by (simp add: route_current_def)
  show "\<And>k. k \<noteq> cn_user c \<Longrightarrow> route_current st (io_now io) S' k = route_current st (io_now io) S k"
    using v by (simp add: route_current_def)
qed

section \<open>Faults\<close>

text \<open>A failing call leaves the state untouched or has run the script as a healthy call would.\<close>

definition heal :: "redis_io \<Rightarrow> redis_io" where
  "heal io = io\<lparr>io_fault := None\<rparr>"

lemma heal_simps [simp]: "healthy (heal io)" "io_now (heal io) = io_now io"
  by (simp_all add: heal_def healthy_def)

lemma run_script_fault:
  "snd (run_script st io x p ids keys S) = S \<or>
   snd (run_script st io x p ids keys S) = snd (run_script st (heal io) x p ids keys S)"
  by (auto simp: run_script_def heal_def Let_def split: option.splits)

lemma exec_op_fault:
  "snd (exec_op L st io oper S) = S \<or> snd (exec_op L st io oper S) = snd (exec_op L st (heal io) oper S)"
  using run_script_fault [of st io]
  by (cases oper)
    (auto simp: forget_def st_register_def st_renew_def st_unregister_def st_connect_def st_heartbeat_def
      st_check_def st_disconnect_def st_route_def st_lookup_state st_resolve_state Let_def split: prod.splits; metis snd_conv)+

section \<open>A route stays until its connection gives it up\<close>

fun displaces :: "conn_id \<Rightarrow> route_op \<Rightarrow> bool" where
  "displaces c (OConnect d u n t a) = (u = cn_user c)"
| "displaces c (ODisconnect d) = (d = Some c)"
| "displaces c _ = False"

definition route_held :: "rstore \<Rightarrow> conn_id \<Rightarrow> int \<Rightarrow> redis \<Rightarrow> bool" where
  "route_held st c d S = (\<exists>v. S (rkey st (cn_user c)) = Some v \<and> lease_conn v = c \<and> d \<le> r_deadline v)"

lemma heartbeat_held:
  assumes "route_inv L st (io_now io, S)" and "healthy io" and "route_held st c d S"
  shows "route_held st c d (snd (st_heartbeat L st io x S))"
proof (cases "valid_connection L x")
  case False
  then show ?thesis using assms(3) by (simp add: st_heartbeat_def st_route_def)
next
  case True
  then obtain y where y: "x = Some y" by (cases x) (auto simp: valid_connection_def)
  have wf: "wf_store L st S" and b: "lease_bound (store_env st) (io_now io) S"
    using assms(1) by (simp_all add: route_inv_def)
  obtain v where v: "S (rkey st (cn_user c)) = Some v" "lease_conn v = c" "d \<le> r_deadline v"
    using assms(3) by (auto simp: route_held_def)
  have "r_deadline v \<le> io_now io + st_routeTTL st"
    using lease_boundD [OF b v(1)] wf by (auto simp: wf_store_def dest: ttl_of_keys(2) [where u = "cn_user c"])
  moreover have "r_deadline v \<le> r_auth v"
    using wf v(1) stored_ok_route [of "store_env st" "cn_user c" v] wf_redisD [of "store_env st" S "rkey st (cn_user c)" v]
    by (auto simp: wf_store_def stored_route_def)
  moreover have "lease_conn (check_lease st (io_now io) True v) = c"
    using v(2) by (simp add: check_lease_def lease_conn_def)
  ultimately have "route_held st c d (S(rkey st (cn_user c) \<mapsto> check_lease st (io_now io) True v))"
    using v(3) by (auto simp: route_held_def check_lease_def)
  moreover have "S (rkey st (cn_user y)) = Some u" if "check_verdict st (io_now io) S y = Inr u" for u
    using that by (auto simp: check_verdict_def split: option.splits if_splits)
  moreover have "route_held st c d (S(rkey st (cn_user y) \<mapsto> w))" if "cn_user y \<noteq> cn_user c" for w
    using assms(3) that by (auto simp: route_held_def)
  ultimately show ?thesis
    using st_heartbeat_eq [OF assms(2) wf True [unfolded y]] assms(3) v(1) y
    by (cases "cn_user y = cn_user c"; cases "check_verdict st (io_now io) S y") auto
qed

lemma disconnect_held:
  assumes "route_inv L st (io_now io, S)" and "healthy io" and "x \<noteq> Some c" and "route_held st c d S"
  shows "route_held st c d (snd (st_disconnect L st io x S))"
proof (cases "valid_connection L x")
  case False
  then show ?thesis using assms(4) by (simp add: st_disconnect_def)
next
  case True
  then obtain y where y: "x = Some y" by (cases x) (auto simp: valid_connection_def)
  have "wf_store L st S" using assms(1) by (simp add: route_inv_def)
  then show ?thesis
    using st_disconnect_eq [OF assms(2) _ True [unfolded y]] assms(3,4) y
    by (cases "cn_user y = cn_user c") (auto simp: route_held_def split: option.splits if_splits)
qed

lemma exec_op_held:
  assumes "route_inv L st (io_now io, S)" and "\<not> displaces c oper" and "route_held st c d S"
  shows "route_held st c d (snd (exec_op L st io oper S))"
proof -
  have env: "env_ok (store_env st)" using assms(1) by (auto simp: route_inv_def)
  have inv: "route_inv L st (io_now (heal io), S)" using assms(1) by simp
  have "route_held st c d (snd (exec_op L st (heal io) oper S))"
  proof (cases "op_key st oper = Some (rkey st (cn_user c))")
    case True
    then show ?thesis
      using assms(2,3) heartbeat_held [OF inv heal_simps(1)] disconnect_held [OF inv heal_simps(1)] env
        instance_route_keys [OF env, simplified]
      by (cases oper) (auto simp: forget_def)
  next
    case False
    then show ?thesis
      using exec_op_write [OF env, where oper = oper and L = L and io = "heal io" and S = S] assms(3)
      by (auto simp: one_write_def route_held_def split: option.splits)
  qed
  then show ?thesis using exec_op_fault [of L st io oper S] assms(3) by metis
qed

lemma route_step_held:
  assumes "route_step L st w l w'" and "route_inv L st w" and "\<And>x. l = Some x \<Longrightarrow> \<not> displaces c x"
    and "fst w' < d" and "route_held st c d (snd w)"
  shows "route_held st c d (snd w')"
  using assms(1)
proof cases
  case (tick now now' S)
  then show ?thesis using assms by simp
next
  case (expire S k v now)
  then show ?thesis using assms by (auto simp: route_held_def)
next
  case (call io now S oper)
  then show ?thesis using assms exec_op_held [of L st io S c oper d] by simp
qed

lemma route_run_held:
  assumes "route_run L st w ops w'" and "ts_documented L" and "route_inv L st w"
    and "list_all (\<lambda>x. \<not> displaces c x) ops" and "fst w' < d" and "route_held st c d (snd w)"
  shows "route_held st c d (snd w')"
  using assms
proof induction
  case (start w)
  then show ?case by simp
next
  case (silent w ops w' w'')
  then show ?case
    using route_step_held [of L st w' None w'' c d] route_run_inv [of L st w ops w'] route_step_time [of L st w' None w'']
    by simp
next
  case (perform w ops w' x w'')
  then show ?case
    using route_step_held [of L st w' "Some x" w'' c d] route_run_inv [of L st w ops w'] route_step_time [of L st w' "Some x" w'']
    by simp
qed

section \<open>A draining instance\<close>

definition draining_held :: "rstore \<Rightarrow> comet_id \<Rightarrow> int \<Rightarrow> redis \<Rightarrow> bool" where
  "draining_held st c d S =
     (\<exists>v. S (ikey st (ci_instance c)) = Some v \<and> r_boot v = ci_boot c \<and> r_draining v \<and> d \<le> r_deadline v)"

lemma register_drains:
  assumes "wf_store L st S" and "lease_bound (store_env st) (io_now io) S"
    and "draining_held st c d S" and "io_now io < d"
  shows "draining_held st c d (snd (st_register L st io x a S))"
proof -
  obtain v where v: "S (ikey st (ci_instance c)) = Some v" "r_boot v = ci_boot c" "r_draining v" "d \<le> r_deadline v"
    using assms(3) by (auto simp: draining_held_def)
  have "r_deadline v \<le> io_now io + st_instanceTTL st"
    using lease_boundD [OF assms(2) v(1)] ttl_of_keys(1) [of "store_env st"] by simp
  then show ?thesis
    using assms v
    by (cases "x = None"; cases "ci_instance (the x) = ci_instance c")
      (auto simp: st_register_def valid_comet_def run_script_def op_register_def draining_held_def Let_def wf_store_def
        commit_save_def save_key_def split: option.splits prod.splits)
qed

lemma renew_drains:
  assumes "wf_store L st S" and "lease_bound (store_env st) (io_now io) S"
    and "draining_held st c d S" and "io_now io < d"
  shows "draining_held st c d (snd (st_renew L st io x a S))"
proof -
  obtain v where v: "S (ikey st (ci_instance c)) = Some v" "r_boot v = ci_boot c" "r_draining v" "d \<le> r_deadline v"
    using assms(3) by (auto simp: draining_held_def)
  have "r_deadline v \<le> io_now io + st_instanceTTL st"
    using lease_boundD [OF assms(2) v(1)] ttl_of_keys(1) [of "store_env st"] by simp
  then show ?thesis
    using assms v
    by (cases "x = None"; cases "ci_instance (the x) = ci_instance c")
      (auto simp: st_renew_def valid_comet_def run_script_def op_renew_def draining_held_def Let_def wf_store_def
        commit_save_def save_key_def split: option.splits prod.splits)
qed

lemma unregister_drains:
  assumes "wf_store L st S" and "draining_held st c d S" and "x \<noteq> Some c"
  shows "draining_held st c d (snd (st_unregister L st io x S))"
  using assms
  by (cases "x = None"; cases "ci_instance (the x) = ci_instance c"; cases "ci_boot (the x) = ci_boot c")
    (auto simp: st_unregister_def valid_comet_def run_script_def op_unregister_def draining_held_def Let_def wf_store_def
        split: option.splits prod.splits)

lemma route_step_drains:
  assumes "route_step L st w l w'" and "route_inv L st w" and "l \<noteq> Some (OUnregister (Some c))"
    and "fst w' < d" and "draining_held st c d (snd w)"
  shows "draining_held st c d (snd w')"
  using assms(1)
proof cases
  case (tick now now' S)
  then show ?thesis using assms by simp
next
  case (expire S k v now)
  then show ?thesis using assms by (auto simp: draining_held_def)
next
  case (call io now S oper)
  then have inv: "wf_store L st S" "lease_bound (store_env st) (io_now io) S" "env_ok (store_env st)"
    using assms(2) by (auto simp: route_inv_def)
  have ne: "rkey st u \<noteq> ikey st i" for u i
    using instance_route_keys [OF inv(3), of i u] by auto
  have "draining_held st c d (snd (exec_op L st io oper S))"
  proof (cases "op_key st oper = Some (ikey st (ci_instance c))")
    case True
    then show ?thesis
      using assms call ne
        register_drains [OF inv(1,2)] renew_drains [OF inv(1,2)] unregister_drains [OF inv(1)]
      by (cases oper) (auto simp: forget_def)
  next
    case False
    then show ?thesis
      using exec_op_write [OF inv(3), where oper = oper and L = L and io = io and S = S] assms(5) call
      by (auto simp: one_write_def draining_held_def split: option.splits)
  qed
  then show ?thesis using call by simp
qed

lemma route_run_drains:
  assumes "route_run L st w ops w'" and "ts_documented L" and "route_inv L st w"
    and "OUnregister (Some c) \<notin> set ops" and "fst w' < d" and "draining_held st c d (snd w)"
  shows "draining_held st c d (snd w')"
  using assms
proof induction
  case (start w)
  then show ?case by simp
next
  case (silent w ops w' w'')
  then show ?case
    using route_step_drains [of L st w' None w'' c d] route_run_inv [of L st w ops w'] route_step_time [of L st w' None w'']
    by simp
next
  case (perform w ops w' x w'')
  then show ?case
    using route_step_drains [of L st w' "Some x" w'' c d] route_run_inv [of L st w ops w'] route_step_time [of L st w' "Some x" w'']
    by auto
qed

lemma draining_refused:
  assumes "healthy io" and "wf_store L st S" and "draining_held st c d S" and "io_now io < d"
  shows "st_connect L st io (Some c) u n t auth S \<in> {(Inl RDraining, S), (Inl RInvalid, S)}"
  using assms
  by (auto simp: st_connect_def run_script_healthy op_connect_def draining_held_def Let_def wf_store_def)

section \<open>Healthy calls answer\<close>

lemma store_errors:
  assumes "healthy io" and "wf_store L st S" and "clock_ok (store_env st) (io_now io)" and "ts_documented L"
  shows "fst (st_register L st io c a S) \<noteq> Inl (RDependency e)"
    and "fst (st_renew L st io c d S) \<noteq> Inl (RDependency e)"
    and "fst (st_unregister L st io c S) \<noteq> Inl (RDependency e)"
proof -
  have t: "0 < st_instanceTTL st" using assms(2) env_ttl_pos by blast
  show "fst (st_register L st io c a S) \<noteq> Inl (RDependency e)"
    using assms t by (auto simp: st_register_def run_script_healthy op_register_def Let_def wf_store_def
      commit_save_def save_key_def split: prod.splits)
  show "fst (st_renew L st io c d S) \<noteq> Inl (RDependency e)"
    using assms t by (auto simp: st_renew_def run_script_healthy op_renew_def Let_def wf_store_def
      commit_save_def save_key_def split: prod.splits)
  show "fst (st_unregister L st io c S) \<noteq> Inl (RDependency e)"
    using assms by (auto simp: st_unregister_def run_script_healthy op_unregister_def Let_def wf_store_def
      split: prod.splits)
qed

lemma connect_errors:
  assumes "healthy io" and "wf_store L st S" and "auth div ns_per_ms \<noteq> 0"
  shows "fst (st_connect L st io c u n t auth S) \<noteq> Inl (RDependency e)"
proof (cases c)
  case None
  then show ?thesis by (simp add: st_connect_def valid_comet_def)
next
  case (Some d)
  show ?thesis
  proof (cases "connect_ok L st (io_now io) d u n t auth S")
    case True
    then show ?thesis using st_connect_ok assms Some by simp
  next
    case False
    then show ?thesis using assms Some
      by (cases "live (io_now io) (S (ikey st (ci_instance d)))"; cases "r_boot (the (S (ikey st (ci_instance d)))) = ci_boot d";
          cases "r_draining (the (S (ikey st (ci_instance d))))")
        (auto simp: st_connect_def run_script_healthy op_connect_def Let_def wf_store_def connect_ok_def live_instance [symmetric])
  qed
qed

lemma connection_errors:
  assumes "healthy io" and "wf_store L st S"
  shows "fst (st_heartbeat L st io c S) \<noteq> Inl (RDependency e)"
    and "fst (st_check L st io c S) \<noteq> Inl (RDependency e)"
    and "fst (st_disconnect L st io c S) \<noteq> Inl (RDependency e)"
proof -
  consider "\<not> valid_connection L c" | d where "c = Some d" "valid_connection L (Some d)"
    by (cases c) (auto simp: valid_connection_def)
  then have "fst (st_heartbeat L st io c S) \<noteq> Inl (RDependency e) \<and> fst (st_check L st io c S) \<noteq> Inl (RDependency e) \<and>
    fst (st_disconnect L st io c S) \<noteq> Inl (RDependency e)"
  proof cases
    case 1
    then show ?thesis by (simp add: st_heartbeat_def st_check_def st_route_def st_disconnect_def)
  next
    case 2
    then show ?thesis using st_heartbeat_eq st_check_eq st_disconnect_eq assms
      by (auto simp: check_verdict_def split: option.splits)
  qed
  then show "fst (st_heartbeat L st io c S) \<noteq> Inl (RDependency e)" "fst (st_check L st io c S) \<noteq> Inl (RDependency e)"
    "fst (st_disconnect L st io c S) \<noteq> Inl (RDependency e)" by simp_all
qed

lemma batch_errors:
  assumes "healthy io" and "wf_store L st S"
  shows "fst (st_lookup L st io us S) \<noteq> Inl (RDependency e)" and "fst (st_resolve L st io is S) \<noteq> Inl (RDependency e)"
proof -
  show "fst (st_lookup L st io us S) \<noteq> Inl (RDependency e)"
    using st_lookup_eq [OF assms, of us] by (cases "valid_batch us (\<lambda>u. valid_id L u (CHR ''U''))") (simp_all add: st_lookup_def)
  show "fst (st_resolve L st io is S) \<noteq> Inl (RDependency e)"
    using st_resolve_eq [OF assms, of "is"] by (cases "valid_batch is valid_instance") (simp_all add: st_resolve_def)
qed

lemma forget_error: "fst r \<noteq> Inl e \<Longrightarrow> fst (forget r) \<noteq> Inl e"
  by (auto simp: forget_def bindE_eq_Inl)

section \<open>A concrete store\<close>

definition store_a :: rstore where
  "store_a = \<lparr>st_instances = ''fable{logic-routing}:instance:'', st_routes = ''fable{logic-routing}:route:'',
              st_instanceTTL = 60000, st_routeTTL = 60000\<rparr>"

definition inst_a :: lease where
  "inst_a = empty_lease\<lparr>r_instance := ''comet-1'', r_boot := uuid_a, r_address := ''127.0.0.1:9001'',
                        r_deadline := 1060000\<rparr>"

definition redis_a :: redis where "redis_a = [ikey store_a ''comet-1'' \<mapsto> inst_a]"

definition io_at :: "int \<Rightarrow> redis_io" where "io_at now = \<lparr>io_now = now, io_fault = None\<rparr>"

lemma io_at_simps [simp]: "healthy (io_at now)" "io_now (io_at now) = now"
  by (simp_all add: io_at_def healthy_def)

lemma store_a_new: "new_store ''fable'' 0 0 = Inr store_a"
  by code_simp

lemma store_a_env [simp]: "env_ok (store_env store_a)"
  using new_store_env_ok [OF store_a_new] .

lemma store_a_clock [simp]: "clock_ok (store_env store_a) 1000000" "clock_ok (store_env store_a) 1100000"
  by (simp_all add: clock_ok_def store_a_def)

lemma redis_a_stored [simp]: "stored_ok (store_env store_a) (ikey store_a ''comet-1'') inst_a"
  by code_simp

lemma redis_a_wf [simp]: "wf_store doc_lib store_a redis_a"
  by (simp add: wf_store_def redis_a_def wf_redis_def)

lemma redis_a_inv [simp]: "route_inv doc_lib store_a (1000000, redis_a)"
proof -
  have "lease_bound (store_env store_a) 1000000 redis_a"
    by (simp add: lease_bound_def redis_a_def ttl_of_def store_a_def inst_a_def store_env_def)
  then show ?thesis by (simp add: route_inv_def)
qed

lemma connect_a_ok [simp]:
  "connect_ok doc_lib store_a 1000000 comet_a (cn_user conn_b) (cn_connection conn_b) (cn_token conn_b)
     (unix_milli 2000000) redis_a"
proof -
  have "\<lparr>cn_user = cn_user conn_b, cn_instance = ci_instance comet_a, cn_connection = cn_connection conn_b,
      cn_token = cn_token conn_b\<rparr> = conn_b" by (simp add: conn_b_def comet_a_def)
  moreover have "ts_check doc_lib (ts_new (unix_milli 2000000))" by code_simp
  moreover have "unix_milli 2000000 \<noteq> zero_ns" "unix_milli 2000000 div ns_per_ms = 2000000" by code_simp+
  moreover have "redis_a (ikey store_a (ci_instance comet_a)) = Some inst_a" by (simp add: redis_a_def comet_a_def)
  ultimately show ?thesis
    by (simp add: connect_ok_def instance_live_def) (simp add: inst_a_def comet_a_def empty_lease_def)
qed

section \<open>Properties\<close>

text \<open>C1. Along every run of the routing service (operations of any Logic process, failing or not, the
  clock moving on, Redis expiring keys), started from an empty key space of a store that \<open>New\<close>
  built, each stored value passes the checks the script applies when it reads it back, and no
  lease reaches further than one lifetime beyond the server clock.\<close>

theorem routing_runs_sound:
  assumes "uuid_documented L" and "ts_documented L" and "new_store pre ittl rttl = Inr st"
    and "clock_ok (store_env st) now" and "route_run L st (now, Map.empty) ops (now', S)"
  shows "wf_redis (store_env st) S \<and> lease_bound (store_env st) now' S"
  using route_run_inv [OF assms(5,2)] new_store_env_ok [OF assms(3)] assms(1,4)
  by (auto simp: route_inv_def wf_store_def lease_bound_def)

theorem routing_runs_sound_witness:
  "wf_redis (store_env store_a) (snd (exec_op doc_lib store_a (io_at 1000000) (ORegister (Some comet_a) ''127.0.0.1:9001'') Map.empty)) \<and>
   lease_bound (store_env store_a) 1000000
     (snd (exec_op doc_lib store_a (io_at 1000000) (ORegister (Some comet_a) ''127.0.0.1:9001'') Map.empty))"
proof (rule routing_runs_sound [OF _ _ store_a_new])
  show "route_run doc_lib store_a (1000000, Map.empty) ([] @ [ORegister (Some comet_a) ''127.0.0.1:9001''])
     (1000000, snd (exec_op doc_lib store_a (io_at 1000000) (ORegister (Some comet_a) ''127.0.0.1:9001'') Map.empty))"
    by (rule route_run.perform [OF route_run.start]) (rule route_step.call, simp)
qed simp_all

text \<open>C2. A connection that connected keeps the user's route: whatever other operations run (late
  disconnects and heartbeats of replaced connections, operations on other users and instances, calls
  that fail after the script ran), until another connect for the same user, its own disconnect, or
  the lease deadline, the route entry still carries its identity, with no earlier deadline.\<close>

theorem route_kept_until_given_up:
  assumes "ts_documented L" and "route_inv L st (now, S)"
    and "S (rkey st (cn_user c)) = Some v" and "lease_conn v = c"
    and "route_run L st (now, S) ops (now', S')" and "list_all (\<lambda>x. \<not> displaces c x) ops"
    and "now' < r_deadline v"
  shows "\<exists>v'. S' (rkey st (cn_user c)) = Some v' \<and> lease_conn v' = c \<and> r_deadline v \<le> r_deadline v'"
  using route_run_held [OF assms(5,1,2,6), of "r_deadline v"] assms(3,4,7) by (auto simp: route_held_def)

definition route_a :: lease where
  "route_a = connect_lease store_a 1000000 comet_a user_a uuid_a token_a (unix_milli 2000000)"

definition redis_b :: redis where "redis_b = redis_a(rkey store_a user_a \<mapsto> route_a)"

lemma redis_b_inv [simp]: "route_inv doc_lib store_a (1000000, redis_b)"
proof -
  have "stored_ok (store_env store_a) (rkey store_a user_a) route_a" by code_simp
  moreover have "r_deadline route_a \<le> 1000000 + ttl_of (store_env store_a) (rkey store_a user_a)" by code_simp
  ultimately show ?thesis
    using redis_a_inv by (auto simp only: route_inv_def wf_store_def redis_b_def fst_conv snd_conv
        intro: wf_redis_upd lease_bound_upd)
qed

lemma route_a_conn [simp]: "lease_conn route_a = conn_a" "cn_user conn_a = user_a" "cn_user conn_b = user_a"
  by (simp_all add: route_a_def conn_a_def conn_b_def comet_a_def)

theorem route_kept_until_given_up_witness:
  "\<exists>v'. snd (exec_op doc_lib store_a (io_at 1000000) (ODisconnect (Some conn_b)) redis_b) (rkey store_a (cn_user conn_a)) = Some v' \<and>
        lease_conn v' = conn_a \<and> r_deadline route_a \<le> r_deadline v'"
proof (rule route_kept_until_given_up)
  show "route_run doc_lib store_a (1000000, redis_b) ([] @ [ODisconnect (Some conn_b)])
     (1000000, snd (exec_op doc_lib store_a (io_at 1000000) (ODisconnect (Some conn_b)) redis_b))"
    by (rule route_run.perform [OF route_run.start]) (rule route_step.call, simp)
  show "1000000 < r_deadline route_a" by code_simp
  show "redis_b (rkey store_a (cn_user conn_a)) = Some route_a" by (simp add: redis_b_def)
qed simp_all

lemma st_lookup_Inr:
  assumes "st_lookup L st io us S = (Inr rs, S')"
  shows "healthy io \<and> valid_batch us (\<lambda>u. valid_id L u (CHR ''U''))"
  using assms
  by (auto simp: st_lookup_def run_script_def healthy_def bindE_def Let_def split: if_splits option.splits prod.splits)

text \<open>C3. A user whose connection falls silent is offline one route lifetime later: in any run of a new store from an empty Redis,
  without a connect or heartbeat for the user since \<open>now\<close>, a lookup that asks for the user from \<open>now\<close> plus the lifetime on answers
  it with no route or an expired lease, whatever else ran in between. On a healthy store the lookup does answer; it changes nothing.\<close>

theorem silent_route_expires:
  assumes "ts_documented L" and "uuid_documented L" and "new_store pre ittl rttl = Inr st" and "clock_ok (store_env st) now0"
    and "route_run L st (now0, Map.empty) earlier (now, S)"
    and "route_run L st (now, S) ops (now', S')" and "list_all (\<lambda>x. \<not> refreshes u x) ops"
    and "now + st_routeTTL st \<le> now'"
    and "io_now io = now'" and "valid_batch us (\<lambda>u. valid_id L u (CHR ''U''))" and "u \<in> set us"
    and "st_lookup L st io us S' = (reply, S'')"
  shows "S'' = S' \<and> (healthy io \<longrightarrow> (\<exists>rs. reply = Inr rs)) \<and>
    (\<forall>rs. reply = Inr rs \<longrightarrow> map rr_user rs = us \<and> (\<forall>r \<in> set rs. rr_user r = u \<longrightarrow>
       rr_state r = OfflineState OFFLINE_REASON_NO_ROUTE \<or> rr_state r = OfflineState OFFLINE_REASON_LEASE_EXPIRED))"
proof -
  have env: "env_ok (store_env st)" by (rule new_store_env_ok [OF assms(3)])
  have "route_inv L st (now0, Map.empty)"
    using assms(2,4) env by (simp add: route_inv_def wf_store_def lease_bound_def)
  then have inv: "route_inv L st (now, S)" by (rule route_run_inv [OF assms(5,1)])
  then have wf: "wf_store L st S'" using route_run_inv [OF assms(6,1)] by (simp add: route_inv_def)
  have "\<not> route_live now' v" if v: "S' (rkey st u) = Some v" for v
  proof -
    have "S (rkey st u) = Some v" using route_run_local [OF assms(6) env assms(7)] v by simp
    then have "r_deadline v \<le> now + st_routeTTL st"
      using inv lease_boundD [of "store_env st" now S "rkey st u" v] ttl_of_keys(2) [OF env, of u] by (simp add: route_inv_def)
    then show ?thesis using assms(8) by (simp add: route_live_def)
  qed
  then have "route_status st now' S' u \<in> {OfflineState OFFLINE_REASON_NO_ROUTE, OfflineState OFFLINE_REASON_LEASE_EXPIRED}"
    by (auto simp: route_status_def split: option.splits)
  moreover have "S'' = S'" using st_lookup_state [of L st io us S'] assms(12) by simp
  moreover have "reply = Inr (map (\<lambda>u. \<lparr>rr_user = u, rr_state = route_status st now' S' u\<rparr>) us)" if "healthy io"
    using st_lookup_eq [OF that wf assms(10)] assms(9,12) by simp
  moreover have "healthy io" if "reply = Inr rs" for rs using st_lookup_Inr assms(12) that by blast
  ultimately show ?thesis by (auto simp: o_def)
qed

theorem silent_route_expires_witness:
  "\<exists>r. st_lookup doc_lib store_a (io_at 1100000) [user_b, user_a]
     (snd (exec_op doc_lib store_a (io_at 1000000) (OConnect (Some comet_a) user_a uuid_a token_a (unix_milli 2000000))
        (snd (exec_op doc_lib store_a (io_at 1000000) (ORegister (Some comet_a) ''127.0.0.1:9001'') Map.empty)))) = r \<and>
     (\<exists>rs. fst r = Inr rs \<and> map rr_user rs = [user_b, user_a] \<and> (\<forall>x \<in> set rs. rr_user x = user_a \<longrightarrow> (\<exists>why. rr_state x = OfflineState why)))"
proof -
  define S1 where "S1 = snd (exec_op doc_lib store_a (io_at 1000000) (ORegister (Some comet_a) ''127.0.0.1:9001'') Map.empty)"
  define S2 where "S2 = snd (exec_op doc_lib store_a (io_at 1000000) (OConnect (Some comet_a) user_a uuid_a token_a (unix_milli 2000000)) S1)"
  have "route_run doc_lib store_a (1000000, Map.empty) ([] @ [ORegister (Some comet_a) ''127.0.0.1:9001'']) (1000000, S1)"
    unfolding S1_def by (rule route_run.perform [OF route_run.start]) (rule route_step.call, simp)
  then have r1: "route_run doc_lib store_a (1000000, Map.empty) (([] @ [ORegister (Some comet_a) ''127.0.0.1:9001'']) @
      [OConnect (Some comet_a) user_a uuid_a token_a (unix_milli 2000000)]) (1000000, S2)"
    unfolding S2_def by (rule route_run.perform) (rule route_step.call, simp)
  have r2: "route_run doc_lib store_a (1000000, S2) [] (1100000, S2)"
    by (rule route_run.silent [OF route_run.start]) (rule route_step.tick, simp_all)
  obtain reply S3 where l: "st_lookup doc_lib store_a (io_at 1100000) [user_b, user_a] S2 = (reply, S3)" by fastforce
  have "valid_batch [user_b, user_a] (\<lambda>u. valid_id doc_lib u (CHR ''U''))" by (simp add: valid_batch_def)
  moreover have "1000000 + st_routeTTL store_a \<le> 1100000" by (simp add: store_a_def)
  ultimately show ?thesis
    using silent_route_expires [OF _ _ store_a_new _ r1 r2 _ _ _ _ _ l, of user_a] l unfolding S1_def [symmetric] S2_def [symmetric]
    by (auto 0 4)
qed

text \<open>A successful connect takes the route over: it answers with the new lease and the lease it
  replaced; from then on, while the lease and the instance live, the new identity passes the check and
  is what a lookup returns, and every other identity of the user gets \<open>superseded\<close> from check and
  heartbeat and \<open>NOT_CURRENT\<close> from disconnect, without changing the state.\<close>

theorem connect_takes_over:
  assumes "healthy io" and "healthy io'" and "wf_store L st S" and "wf_store L st S'"
    and "c = \<lparr>cn_user = u, cn_instance = ci_instance i, cn_connection = n, cn_token = t\<rparr>"
    and "v = connect_lease st (io_now io) i u n t auth"
    and "connect_ok L st (io_now io) i u n t auth S" and "S' = S(rkey st u \<mapsto> v)"
    and "io_now io' < r_deadline v" and "instance_live st (io_now io') S (ci_instance i) (ci_boot i)"
  shows "st_connect L st io (Some i) u n t auth S =
           (Inr (route_lease_of (Some v), route_lease_of (live_route st (io_now io) S u)), S') \<and>
         st_check L st io' (Some c) S' = (Inr (route_lease_of (Some v)), S') \<and>
         st_lookup L st io' [u] S' =
           (Inr [\<lparr>rr_user = u, rr_state = RouteState (route_lease_of (Some v))\<rparr>], S') \<and>
         (\<forall>d. d \<noteq> c \<and> cn_user d = u \<and> valid_connection L (Some d) \<longrightarrow>
            st_check L st io' (Some d) S' = (Inl RSuperseded, S') \<and>
            st_heartbeat L st io' (Some d) S' = (Inl RSuperseded, S') \<and>
            st_disconnect L st io' (Some d) S' = (Inr NOT_CURRENT, S'))"
proof -
  have v: "lease_conn v = c" "r_instance v = ci_instance i" "r_boot v = ci_boot i" "r_deadline v \<le> r_auth v"
    using assms(5,6) by (simp_all add: connect_lease_def lease_conn_def)
  have vc: "valid_connection L (Some c)" "valid_id L u (CHR ''U'')" "cn_user c = u"
    using assms(5,7) by (simp_all add: connect_ok_def valid_connection_def)
  have live: "route_live (io_now io') v" using v(4) assms(9) by (simp add: route_live_def)
  have S': "S' (rkey st u) = Some v" "S' (ikey st j) = S (ikey st j)" for j
    using assms(8) instance_route_keys [OF wf_storeD(2) [OF assms(3)], simplified] by simp_all
  have inst: "instance_live st (io_now io') S' (ci_instance i) (ci_boot i)"
    using assms(10) S'(2) by (simp add: instance_live_def)
  have "valid_batch [u] (\<lambda>u. valid_id L u (CHR ''U''))" using vc(2) by (simp add: valid_batch_def)
  then show ?thesis
    using st_connect_ok [OF assms(1,3,7)] st_check_eq [OF assms(2,4)] st_lookup_eq [OF assms(2,4)]
      st_heartbeat_eq [OF assms(2,4)] st_disconnect_eq [OF assms(2,4)] vc assms(6,8,9) S' live inst v
    by (auto simp: check_verdict_def route_status_def)
qed

theorem connect_takes_over_witness:
  "st_check doc_lib store_a (io_at 1000000) (Some conn_a)
     (redis_b(rkey store_a user_a \<mapsto> connect_lease store_a 1000000 comet_a user_a uuid_b token_b (unix_milli 2000000))) =
   (Inl RSuperseded,
     redis_b(rkey store_a user_a \<mapsto> connect_lease store_a 1000000 comet_a user_a uuid_b token_b (unix_milli 2000000)))"
proof -
  let ?v = "connect_lease store_a 1000000 comet_a user_a uuid_b token_b (unix_milli 2000000)"
  have b: "conn_b = \<lparr>cn_user = user_a, cn_instance = ci_instance comet_a, cn_connection = uuid_b, cn_token = token_b\<rparr>"
    by (simp add: conn_b_def comet_a_def)
  have wf: "wf_store doc_lib store_a redis_b" using redis_b_inv by (simp add: route_inv_def)
  have ne: "ikey store_a (ci_instance comet_a) \<noteq> rkey store_a user_a"
    using instance_route_keys [OF store_a_env, of "ci_instance comet_a" user_a] by simp
  then have ok: "connect_ok doc_lib store_a 1000000 comet_a user_a uuid_b token_b (unix_milli 2000000) redis_b"
    using connect_a_ok b by (simp add: connect_ok_def instance_live_def redis_b_def)
  then have live: "instance_live store_a 1000000 redis_b (ci_instance comet_a) (ci_boot comet_a)"
    by (simp add: connect_ok_def)
  have "stored_ok (store_env store_a) (rkey store_a user_a) ?v" by code_simp
  with wf have wf': "wf_store doc_lib store_a (redis_b(rkey store_a user_a \<mapsto> ?v))"
    by (simp add: wf_store_def wf_redis_upd)
  have dl: "1000000 < r_deadline ?v" by code_simp
  show ?thesis
    using connect_takes_over [OF io_at_simps(1) io_at_simps(1) wf wf' b, of ?v 1000000 "unix_milli 2000000" 1000000]
      ok live dl by simp
qed

text \<open>C4. Late disconnects of other connections, in any number and order, cannot remove the route of a
  connection that took over (the fenced-registry contract, interpreted on the store).\<close>

theorem late_disconnects_harmless:
  assumes "route_ready L st io S" and "route_take L st io boot auth c S = Some S'" and "c \<notin> set cs"
  shows "route_current st (io_now io) (fold (route_release L st io) cs S') (cn_user c) = Some c"
  using assms by (rule routes.takeover_survives)

theorem late_disconnects_harmless_witness:
  "route_current store_a 1000000 (fold (route_release doc_lib store_a (io_at 1000000)) [conn_a, conn_a]
      (snd (st_connect doc_lib store_a (io_at 1000000) (Some comet_a) (cn_user conn_b) (cn_connection conn_b) (cn_token conn_b)
         (unix_milli 2000000) redis_a))) user_a = Some conn_b"
proof -
  have r: "route_ready doc_lib store_a (io_at 1000000) redis_a" by (simp add: route_ready_def)
  have c: "\<lparr>ci_instance = cn_instance conn_b, ci_boot = uuid_a\<rparr> = comet_a" by (simp add: conn_b_def comet_a_def)
  have "route_take doc_lib store_a (io_at 1000000) uuid_a (unix_milli 2000000) conn_b redis_a =
     Some (snd (st_connect doc_lib store_a (io_at 1000000) (Some comet_a) (cn_user conn_b) (cn_connection conn_b) (cn_token conn_b)
         (unix_milli 2000000) redis_a))"
    using st_connect_ok [of "io_at 1000000" doc_lib store_a redis_a comet_a] connect_a_ok
    by (simp add: route_take_def c)
  from late_disconnects_harmless [OF r this, of "[conn_a, conn_a]"] show ?thesis by simp
qed



text \<open>Draining is one-way: once the lease of a boot says draining, then until that boot unregisters
  or the lease deadline passes, no operation clears the flag and no connect through that boot is
  accepted.\<close>

theorem draining_is_one_way:
  assumes "ts_documented L" and "route_inv L st (now, S)"
    and "S (ikey st (ci_instance c)) = Some v" and "r_boot v = ci_boot c" and "r_draining v"
    and "route_run L st (now, S) ops (now', S')" and "OUnregister (Some c) \<notin> set ops"
    and "now' < r_deadline v" and "healthy io" and "io_now io = now'"
  shows "(\<exists>v'. S' (ikey st (ci_instance c)) = Some v' \<and> r_boot v' = ci_boot c \<and> r_draining v') \<and>
         fst (st_connect L st io (Some c) u n t auth S') \<in> {Inl RDraining, Inl RInvalid}"
proof -
  have h: "draining_held st c (r_deadline v) S'"
    using route_run_drains [OF assms(6,1,2,7), of "r_deadline v"] assms(3,4,5,8) by (auto simp: draining_held_def)
  have "wf_store L st S'" using route_run_inv [OF assms(6,1,2)] by (simp add: route_inv_def)
  then have "st_connect L st io (Some c) u n t auth S' \<in> {(Inl RDraining, S'), (Inl RInvalid, S')}"
    using draining_refused [OF assms(9) _ h] assms(8,10) by simp
  moreover have "\<exists>v'. S' (ikey st (ci_instance c)) = Some v' \<and> r_boot v' = ci_boot c \<and> r_draining v'"
    using h unfolding draining_held_def by blast
  ultimately show ?thesis by auto
qed

definition redis_d :: redis where
  "redis_d = [ikey store_a (ci_instance comet_a) \<mapsto> inst_a\<lparr>r_draining := True\<rparr>]"

lemma redis_d_inv: "route_inv doc_lib store_a (1000000, redis_d)"
proof -
  have "stored_ok (store_env store_a) (ikey store_a (ci_instance comet_a)) (inst_a\<lparr>r_draining := True\<rparr>)" by code_simp
  moreover have "r_deadline (inst_a\<lparr>r_draining := True\<rparr>) \<le> 1000000 + ttl_of (store_env store_a) (ikey store_a (ci_instance comet_a))"
    by code_simp
  ultimately show ?thesis by (simp add: route_inv_def wf_store_def redis_d_def wf_redis_def lease_bound_def)
qed

theorem draining_is_one_way_witness:
  "fst (st_connect doc_lib store_a (io_at 1000000) (Some comet_a) user_a uuid_a token_a (unix_milli 2000000)
     (snd (exec_op doc_lib store_a (io_at 1000000) (ORenew (Some comet_a) False) redis_d))) \<in> {Inl RDraining, Inl RInvalid}"
proof -
  have "route_run doc_lib store_a (1000000, redis_d) ([] @ [ORenew (Some comet_a) False])
     (1000000, snd (exec_op doc_lib store_a (io_at 1000000) (ORenew (Some comet_a) False) redis_d))"
    by (rule route_run.perform [OF route_run.start]) (rule route_step.call, simp)
  moreover have "redis_d (ikey store_a (ci_instance comet_a)) = Some (inst_a\<lparr>r_draining := True\<rparr>)" by (simp add: redis_d_def)
  ultimately show ?thesis
    using draining_is_one_way [OF doc_lib_documented(2) redis_d_inv, where c = comet_a and v = "inst_a\<lparr>r_draining := True\<rparr>"
        and io = "io_at 1000000" and u = user_a and n = uuid_a and t = token_a and auth = "unix_milli 2000000"]
    by (fastforce simp: inst_a_def comet_a_def)
qed

text \<open>On a well-formed key space and a healthy connection no operation reports a dependency failure:
  the script never raises. The one exception is a connect whose authentication deadline falls in
  the first millisecond of 1970.\<close>

theorem healthy_operations_answer:
  assumes "healthy io" and "wf_store L st S" and "clock_ok (store_env st) (io_now io)" and "ts_documented L"
    and "\<And>c u n t a. oper = OConnect c u n t a \<Longrightarrow> a div ns_per_ms \<noteq> 0"
  shows "fst (exec_op L st io oper S) \<noteq> Inl (RDependency e)"
  using assms(5) store_errors [OF assms(1-4)] connect_errors [OF assms(1,2)] connection_errors [OF assms(1,2)]
    batch_errors [OF assms(1,2)]
  by (cases oper) (auto intro!: forget_error)

theorem healthy_operations_answer_witness:
  "fst (exec_op doc_lib store_a (io_at 1000000) (OCheck (Some conn_a)) redis_a) \<noteq> Inl (RDependency None)"
  by (rule healthy_operations_answer) simp_all

text \<open>The exception is real: such a connect is answered with a dependency failure, not with an expired lease.\<close>

lemma connect_epoch_fails:
  assumes "healthy io" and "wf_store L st S" and "draining = r_draining (the (S (ikey st (ci_instance i))))"
    and "valid_comet L (Some i)"
    and "valid_connection L (Some \<lparr>cn_user = u, cn_instance = ci_instance i, cn_connection = n, cn_token = t\<rparr>)"
    and "ts_check L (ts_new auth)" and "auth div ns_per_ms = 0"
    and "instance_live st (io_now io) S (ci_instance i) (ci_boot i)" and "\<not> draining"
  shows "st_connect L st io (Some i) u n t auth S = (Inl (RDependency None), S)"
proof -
  have "auth \<noteq> zero_ns" using assms(7) by (auto simp: zero_ns_def ns_per_ms_def ns_per_s_def)
  then show ?thesis using assms
    by (simp add: st_connect_def run_script_healthy op_connect_def Let_def wf_store_def live_instance [symmetric])
qed

text \<open>A boot that drained can register as active again once its lease has lapsed.\<close>

lemma lapsed_boot_registers_active:
  assumes "healthy io" and "wf_store L st S" and "valid_comet L (Some c)" and "valid_address a"
    and "S (ikey st (ci_instance c)) = Some v" and "r_boot v = ci_boot c" and "r_draining v" and "r_deadline v \<le> io_now io"
  shows "\<exists>l. fst (st_register L st io (Some c) a S) = Inr (Some l) \<and> \<not> cl_draining l \<and> cl_identity l = Some c"
proof -
  have "0 < st_instanceTTL st" using assms(2) env_ttl_pos by blast
  then show ?thesis using assms
    by (auto simp: st_register_def run_script_healthy op_register_def Let_def wf_store_def script_ops comet_lease_of_def)
qed

text \<open>C6. The route token check of the Go side (at most 128 characters that decode to at least 16 bytes and
  re-encode to themselves) and the pattern check the Lua script applies to stored routes accept
  the same strings; likewise for UUIDs, so no identity the API accepts can make a stored route unreadable.\<close>

theorem identity_checks_agree:
  "uuid_documented L \<Longrightarrow>
   valid_connection L (Some c) \<longleftrightarrow>
     length (cn_user c) = 37 \<and> hd (cn_user c) = CHR ''U'' \<and> lua_uuid (tl (cn_user c)) \<and>
     valid_instance (cn_instance c) \<and> lua_uuid (cn_connection c) \<and> lua_token (cn_token c)"
  using token_checks_agree [of "cn_token c"] by (auto simp: valid_connection_def valid_id_def valid_uuid_lua)

theorem identity_checks_agree_witness: "lua_token (cn_token conn_b)"
  using identity_checks_agree [of doc_lib conn_b] by simp

end
