(* ===== verification/MessageSync.thy ===== *)
theory MessageSync
  imports MessageStore Samples
begin

text \<open>
  The properties of synchronisation and of the fingerprint: cursors read back, pages are exact, following the cursors
  is complete.
\<close>

section \<open>Cursors\<close>

lemma cursor_keys: "key_ok ''v''" "key_ok ''conversation_id''" "key_ok ''after_position''"
proof -
  have "list_all (list_all bare) [''v'', ''conversation_id'', ''after_position'']"
    "list_all lower_key [''v'', ''conversation_id'', ''after_position'']" by code_simp+
  then show "key_ok ''v''" "key_ok ''conversation_id''" "key_ok ''after_position''" using key_okI by simp_all
qed

lemmas cursor_key_names = cursor_keys [THEN key_ok_unquote]

lemma cursor_find:
  "find_field cursor_fields ''v'' = Some (\<lambda>v c. map_option (\<lambda>n. c\<lparr>sc_version := n\<rparr>) (decode_int64 v (sc_version c)))"
  "find_field cursor_fields ''conversation_id'' = Some (\<lambda>v c. map_option (\<lambda>s. c\<lparr>sc_conversation := s\<rparr>) (decode_string v (sc_conversation c)))"
  "find_field cursor_fields ''after_position'' = Some (\<lambda>v c. map_option (\<lambda>s. c\<lparr>sc_position := s\<rparr>) (decode_string v (sc_position c)))"
  by (simp_all add: find_field_def cursor_fields_def)

lemma int_json_one: "JNum (format_int 1) = number_json 1"
  by (simp add: number_json_def format_int_def)

lemma cursor_text:
  "json_text (json_print (cursor_json \<lparr>sc_version = 1, sc_conversation = c, sc_position = p\<rparr>)) =
     Some (cursor_json \<lparr>sc_version = 1, sc_conversation = c, sc_position = p\<rparr>)"
proof -
  have "good 0 (cursor_json \<lparr>sc_version = 1, sc_conversation = c, sc_position = p\<rparr>)"
    using cursor_keys by (auto simp: cursor_json_def int_json_one intro!: good_obj)
  then show ?thesis using json_text_print by (simp add: good_def)
qed

lemma cursor_reads_back:
  assumes "utf8_valid c" "utf8_valid p"
  shows "unmarshal_struct cursor_fields (json_print (cursor_json \<lparr>sc_version = 1, sc_conversation = c, sc_position = p\<rparr>)) zero_cursor =
    Some \<lparr>sc_version = 1, sc_conversation = c, sc_position = p\<rparr>"
proof -
  have "parse_int64 (format_int 1) = Some 1" by (rule parse_int64_format_int) simp_all
  then have one: "decode_int64 (JNum (format_int 1)) old = Some 1" for old by (simp add: decode_int64_def)
  have u: "unmarshal_struct cursor_fields (json_print (cursor_json \<lparr>sc_version = 1, sc_conversation = c, sc_position = p\<rparr>)) zero_cursor =
    decode_known cursor_fields
     [(''v'', JNum (format_int 1)), (''conversation_id'', json_string c), (''after_position'', json_string p)] zero_cursor"
    unfolding unmarshal_struct_def cursor_text by (simp add: cursor_json_def)
  show ?thesis unfolding u using assms one by (simp add: cursor_key_names cursor_find zero_cursor_def)
qed

lemma b64_encode_Nil: "b64_encode s = [] \<longleftrightarrow> s = []"
proof
  assume "b64_encode s = []"
  then have "Some s = b64_decode []" using b64_roundtrip [of s] by simp
  then show "s = []" by (simp add: b64_decode_def)
qed (simp add: b64_encode_def)

lemma encode_cursor_decodes:
  assumes "utf8_valid conversation" "0 < n" "n < 2 ^ 63"
  shows "decode_cursor conversation (encode_cursor conversation n) = Inr n \<and> encode_cursor conversation n \<noteq> []"
proof -
  have p: "utf8_valid (format_int n)" using format_int_bare [of n] bare_ascii assms(2) by simp
  have "json_print (cursor_json x) \<noteq> []" for x by (simp add: cursor_json_def)
  then have ne: "encode_cursor conversation n \<noteq> []" by (simp add: encode_cursor_def b64_encode_Nil)
  moreover have "parse_int64 (format_int n) = Some n" using assms by (intro parse_int64_format_int) simp_all
  moreover have "b64_decode (encode_cursor conversation n) =
    Some (json_print (cursor_json \<lparr>sc_version = 1, sc_conversation = conversation, sc_position = format_int n\<rparr>))"
    by (simp add: encode_cursor_def b64_roundtrip)
  ultimately show ?thesis using cursor_reads_back [OF assms(1) p] assms(2) by (simp add: decode_cursor_def)
qed

lemma parse_conversation_Inr:
  assumes "parse_conversation L c = Inr (sid, g)"
  shows "c = (if g then ''group:'' else ''direct:'') @ sid \<and> valid_id L sid (if g then CHR ''G'' else CHR ''S'')"
proof -
  show ?thesis using assms by (auto simp: parse_conversation_def dest: has_prefixE split: if_splits)
qed

lemma conversation_text:
  assumes "uuid_documented L" "parse_conversation L c = Inr (sid, g)" shows "utf8_valid c"
proof -
  note p = parse_conversation_Inr [OF assms(2)]
  have "list_all bare ''group:''" "list_all bare ''direct:''" by code_simp+
  moreover have "bare (CHR ''G'')" "bare (CHR ''S'')" by code_simp+
  then have "list_all bare sid" using p bare_id [OF assms(1)] by (auto split: if_splits)
  ultimately show ?thesis using p bare_ascii by simp
qed

section \<open>Pages\<close>

definition row_message :: "lib \<Rightarrow> message_row \<Rightarrow> im_message" where
  "row_message L r = (case stored_view L r of Inr v \<Rightarrow> public_message v | Inl _ \<Rightarrow> zero_message)"

definition row_shown :: "lib \<Rightarrow> message_row \<Rightarrow> bool" where
  "row_shown L r = (case stored_view L r of Inr _ \<Rightarrow> True | Inl _ \<Rightarrow> False)"

lemma collect_page_Inr:
  "collect_page L c rs p = Inr p' \<Longrightarrow> list_all (row_shown L) rs \<and> sy_messages p' = sy_messages p @ map (row_message L) rs \<and>
     sy_next p' = (if rs = [] then sy_next p else encode_cursor c (ms_id (last rs))) \<and> sy_more p' = sy_more p \<and>
     sy_conversation p' = sy_conversation p"
proof (induction rs arbitrary: p)
  case (Cons r rs)
  obtain v where v: "stored_view L r = Inr v" and c: "collect_page L c rs
      (p\<lparr>sy_messages := sy_messages p @ [public_message v], sy_next := encode_cursor c (ms_id r)\<rparr>) = Inr p'"
    using Cons.prems by (auto simp: bindE_eq_Inr)
  from Cons.IH [OF c] v show ?case by (simp add: row_message_def row_shown_def)
qed simp

lemma collect_page_total:
  "list_all (row_shown L) rs \<Longrightarrow> \<exists>p'. collect_page L c rs p = Inr p'"
proof (induction rs arbitrary: p)
  case (Cons r rs)
  then obtain v where v: "stored_view L r = Inr v" by (auto simp: row_shown_def split: sum.splits)
  show ?case using Cons.IH Cons.prems by (simp add: v)
qed simp

definition page_size :: "int \<Rightarrow> nat" where
  "page_size limit = nat (if limit = 0 then 100 else limit)"

text \<open>What a sync needs apart from its cursor, and the page it then gives.\<close>

definition may_sync :: "lib \<Rightarrow> dbms \<Rightarrow> sync_env \<Rightarrow> string \<Rightarrow> string \<Rightarrow> int \<Rightarrow> db \<Rightarrow> (string \<times> bool) option" where
  "may_sync L D env user conversation limit S =
     (case parse_conversation L conversation of
        Inl _ \<Rightarrow> None
      | Inr (sid, grp) \<Rightarrow>
        if valid_id L user (CHR ''U'') \<and> 0 \<le> limit \<and> limit \<le> 500 \<and> sn_db env \<and> (\<exists>x. lock_user D (sn_fault env) S user = Inr x) \<and>
           (if grp then \<exists>x. lock_group L D (sn_fault env) S user sid = Inr x
            else \<exists>x. lock_direct L D (sn_fault env) S user [] sid = Inr x) \<and>
           \<not> sn_fault env QRows \<and> sn_commit env = Committed
        then Some (sid, grp) else None)"

lemma sync_Inr:
  "sync_messages L D env user c cursor limit S = Inr p \<longleftrightarrow>
     (\<exists>sid g after. may_sync L D env user c limit S = Some (sid, g) \<and> decode_cursor c cursor = Inr after \<and>
        (let rows = take (page_size limit + 1) (rows_after D S sid after) in
         collect_page L c (take (page_size limit) rows)
           \<lparr>sy_conversation = c, sy_messages = [], sy_next = cursor, sy_more = page_size limit < length rows\<rparr> = Inr p))"
  by (auto simp: sync_messages_def may_sync_def bindE_eq_Inr page_size_def Let_def split: sum.splits if_splits prod.splits)

lemma sync_page:
  assumes "sync_messages L D env user c cursor limit S = Inr p" "may_sync L D env user c limit S = Some (sid, g)"
    and "decode_cursor c cursor = Inr after"
  shows "sy_messages p = map (row_message L) (take (page_size limit) (rows_after D S sid after)) \<and>
    (sy_more p \<longleftrightarrow> page_size limit < length (rows_after D S sid after)) \<and>
    sy_next p = (if rows_after D S sid after = [] then cursor
                 else encode_cursor c (ms_id (last (take (page_size limit) (rows_after D S sid after)))))"
proof -
  have n: "0 < page_size limit" using assms(2) by (auto simp: may_sync_def page_size_def split: sum.splits if_splits)
  from assms have cp: "collect_page L c (take (page_size limit) (rows_after D S sid after))
      \<lparr>sy_conversation = c, sy_messages = [], sy_next = cursor,
       sy_more = page_size limit < length (take (page_size limit + 1) (rows_after D S sid after))\<rparr> = Inr p"
    by (auto simp: sync_Inr Let_def min_def)
  from collect_page_Inr [OF this] n show ?thesis by auto
qed

text \<open>On a well-formed table the rows of a session come in table order, and a later cursor skips a prefix.\<close>

lemma sort_key_id: "sorted (map f xs) \<Longrightarrow> sort_key f xs = xs"
  by (induction xs) (auto simp: insort_key_left_comm insort_is_Cons)

lemma sorted_map_filter: "sorted_wrt (<) (map f xs) \<Longrightarrow> sorted_wrt (<) (map f (filter P xs))"
  by (induction xs) auto

lemma rows_after_filter:
  assumes "messages_ok D S"
  shows "rows_after D S sid k = filter (\<lambda>m. db_same D (ms_session m) sid \<and> k < ms_id m) (db_messages S)"
    and "sorted_wrt (<) (map ms_id (rows_after D S sid k))"
proof -
  let ?f = "filter (\<lambda>m. db_same D (ms_session m) sid \<and> k < ms_id m) (db_messages S)"
  have s: "sorted_wrt (<) (map ms_id ?f)" using assms by (intro sorted_map_filter) (simp add: messages_ok_def)
  then have "sorted (map ms_id ?f)" by (simp add: strict_sorted_iff)
  then show e: "rows_after D S sid k = ?f" unfolding rows_after_def by (rule sort_key_id)
  show "sorted_wrt (<) (map ms_id (rows_after D S sid k))" unfolding e by (rule s)
qed

lemma filter_after_take:
  fixes f :: "'a \<Rightarrow> int"
  shows "sorted_wrt (<) (map f xs) \<Longrightarrow> 0 < n \<Longrightarrow> xs \<noteq> [] \<Longrightarrow> filter (\<lambda>x. f (last (take n xs)) < f x) xs = drop n xs"
proof (induction xs arbitrary: n)
  case (Cons a xs)
  show ?case
  proof (cases "n = 1 \<or> xs = []")
    case True
    have "filter (\<lambda>x. f a < f x) xs = xs" using Cons.prems(1) by (intro filter_True) auto
    then show ?thesis using True Cons.prems by (cases n) (auto simp: take_Cons')
  next
    case False
    then obtain m where m: "n = Suc m" "0 < m" using Cons.prems(2) by (cases n) auto
    have l: "last (take n (a # xs)) = last (take m xs)" using m False by auto
    have "last (take m xs) \<in> set xs" using m False by (metis in_set_takeD last_in_set take_eq_Nil2 not_gr_zero)
    then have "f a < f (last (take m xs))" using Cons.prems(1) by auto
    then show ?thesis using Cons.IH [of m] Cons.prems m False l by auto
  qed
qed simp

lemma rows_after_last:
  assumes "messages_ok D S" "rows_after D S sid k \<noteq> []" "0 < n"
  shows "rows_after D S sid (ms_id (last (take n (rows_after D S sid k)))) = drop n (rows_after D S sid k)"
proof -
  let ?R = "rows_after D S sid k" let ?l = "last (take n ?R)"
  have "?l \<in> set ?R" using assms(2,3) by (metis in_set_takeD last_in_set take_eq_Nil2 not_gr_zero)
  then have k: "k < ms_id ?l" using rows_after_filter(1) [OF assms(1)] by auto
  have "rows_after D S sid (ms_id ?l) = filter (\<lambda>m. ms_id ?l < ms_id m) ?R"
    using k by (auto simp: rows_after_filter(1) [OF assms(1)] intro!: filter_cong)
  also have "\<dots> = drop n ?R" by (rule filter_after_take [OF rows_after_filter(2) [OF assms(1)] assms(3,2)])
  finally show ?thesis .
qed

section \<open>Properties of synchronisation\<close>

lemma last_shown_decodes:
  assumes "uuid_documented L" "messages_ok D S" "db_next S \<le> 2 ^ 63" "parse_conversation L c = Inr (sid, g)"
    and "rows_after D S sid after \<noteq> []" "0 < n"
  shows "decode_cursor c (encode_cursor c (ms_id (last (take n (rows_after D S sid after))))) =
    Inr (ms_id (last (take n (rows_after D S sid after))))"
proof -
  let ?R = "rows_after D S sid after" let ?l = "last (take n ?R)"
  have "?l \<in> set ?R" using assms(5,6) by (metis in_set_takeD last_in_set take_eq_Nil2 not_gr_zero)
  then have "?l \<in> set (db_messages S)" by (simp add: rows_after_filter(1) [OF assms(2)])
  then have "0 < ms_id ?l" "ms_id ?l < 2 ^ 63" using assms(2,3) by (auto simp: messages_ok_def)
  then show ?thesis using encode_cursor_decodes [OF conversation_text [OF assms(1,4)]] by blast
qed

lemma may_sync_Some:
  "may_sync L D env user c limit S = Some (sid, g) \<Longrightarrow> parse_conversation L c = Inr (sid, g) \<and> 0 < page_size limit"
  by (auto simp: may_sync_def page_size_def split: sum.splits if_splits)

text \<open>A page of a sync is exact: from the position its cursor names it shows exactly the next messages of the
  conversation, in order and at most the limit; \<open>has_more\<close> tells whether one is left, and the next cursor names the
  position of the last message shown (or stays when none is).\<close>

theorem sync_pages_exact:
  assumes "uuid_documented L" "messages_ok D S" "db_next S \<le> 2 ^ 63" "sync_messages L D env user c cursor limit S = Inr p"
  shows "\<exists>sid g after. parse_conversation L c = Inr (sid, g) \<and> decode_cursor c cursor = Inr after \<and>
    (let rows = rows_after D S sid after; shown = take (page_size limit) rows in
     sy_messages p = map (row_message L) shown \<and> (sy_more p \<longleftrightarrow> length shown < length rows) \<and>
     (rows = [] \<longrightarrow> sy_next p = cursor) \<and> (rows \<noteq> [] \<longrightarrow> decode_cursor c (sy_next p) = Inr (ms_id (last shown))))"
proof -
  obtain sid g after where m: "may_sync L D env user c limit S = Some (sid, g)" and d: "decode_cursor c cursor = Inr after"
    using assms(4) by (auto simp: sync_Inr)
  have pc: "parse_conversation L c = Inr (sid, g)" and n: "0 < page_size limit"
    using may_sync_Some [OF m] by auto
  note s = sync_page [OF assms(4) m d]
  let ?R = "rows_after D S sid after" let ?l = "last (take (page_size limit) ?R)"
  have "decode_cursor c (encode_cursor c (ms_id ?l)) = Inr (ms_id ?l)" if "?R \<noteq> []"
    by (rule last_shown_decodes [OF assms(1-3) pc that n])
  moreover have "length (take (page_size limit) ?R) < length ?R \<longleftrightarrow> page_size limit < length ?R" by auto
  ultimately show ?thesis using s pc d by (intro exI [of _ sid] exI [of _ g] exI [of _ after]) (simp add: Let_def)
qed

text \<open>A client that follows the cursors until nothing is left.\<close>

fun sync_walk :: "nat \<Rightarrow> (string \<Rightarrow> store_error + sync_page) \<Rightarrow> string \<Rightarrow> (store_error + im_message list) option" where
  "sync_walk 0 sync cursor = None"
| "sync_walk (Suc fuel) sync cursor =
     (case sync cursor of
        Inl e \<Rightarrow> Some (Inl e)
      | Inr p \<Rightarrow>
        if sy_more p then map_option (\<lambda>r. bindE r (\<lambda>ms. Inr (sy_messages p @ ms))) (sync_walk fuel sync (sy_next p))
        else Some (Inr (sy_messages p)))"

lemma sync_succeeds:
  assumes "may_sync L D env user c limit S = Some (sid, g)" "decode_cursor c cursor = Inr after"
    and "list_all (row_shown L) (rows_after D S sid after)"
  obtains p where "sync_messages L D env user c cursor limit S = Inr p"
proof -
  have "list_all (row_shown L) (take (page_size limit) (take (page_size limit + 1) (rows_after D S sid after)))"
    using assms(3) by (auto simp: list_all_iff dest: in_set_takeD)
  from collect_page_total [OF this] show thesis using that assms(1,2) by (auto simp: sync_Inr Let_def)
qed

lemma sync_walk_from:
  assumes "uuid_documented L" "messages_ok D S" "db_next S \<le> 2 ^ 63" "may_sync L D env user c limit S = Some (sid, g)"
    and "decode_cursor c cursor = Inr after" "list_all (row_shown L) (rows_after D S sid after)"
    and "length (rows_after D S sid after) < fuel"
  shows "sync_walk fuel (\<lambda>cur. sync_messages L D env user c cur limit S) cursor = Some (Inr (map (row_message L) (rows_after D S sid after)))"
  using assms(5-7)
proof (induction fuel arbitrary: cursor after)
  case (Suc fuel)
  let ?R = "rows_after D S sid after" let ?n = "page_size limit"
  have n: "0 < ?n" and pc: "parse_conversation L c = Inr (sid, g)" using may_sync_Some [OF assms(4)] by auto
  obtain p where p: "sync_messages L D env user c cursor limit S = Inr p"
    using sync_succeeds [OF assms(4) Suc.prems(1,2)] by blast
  note s = sync_page [OF p assms(4) Suc.prems(1)]
  show ?case
  proof (cases "?n < length ?R")
    case False
    then show ?thesis using p s by simp
  next
    case True
    then have ne: "?R \<noteq> []" by auto
    have e: "decode_cursor c (sy_next p) = Inr (ms_id (last (take ?n ?R)))"
      using s ne last_shown_decodes [OF assms(1-3) pc ne n] by simp
    have d: "rows_after D S sid (ms_id (last (take ?n ?R))) = drop ?n ?R" by (rule rows_after_last [OF assms(2) ne n])
    have "list_all (row_shown L) (drop ?n ?R)" using Suc.prems(2) by (auto simp: list_all_iff dest: in_set_dropD)
    moreover have "length (drop ?n ?R) < fuel" using n True Suc.prems(3) by simp
    ultimately have "sync_walk fuel (\<lambda>cur. sync_messages L D env user c cur limit S) (sy_next p) = Some (Inr (map (row_message L) (drop ?n ?R)))"
      using Suc.IH [OF e, unfolded d] by blast
    then show ?thesis using p s True by (simp flip: map_append)
  qed
qed simp


text \<open>C25. Following the cursors ends and loses nothing: a member who reads a conversation page by page, with any page size,
  gets after at most one page per message (and a last one) every message of the conversation exactly once, in the order
  of the positions.\<close>

theorem sync_walk_complete:
  assumes "uuid_documented L" "messages_ok D S" "db_next S \<le> 2 ^ 63" "may_sync L D env user c limit S = Some (sid, g)"
    and "list_all (row_shown L) (rows_after D S sid 0)" "length (rows_after D S sid 0) < fuel"
  shows "sync_walk fuel (\<lambda>cur. sync_messages L D env user c cur limit S) [] = Some (Inr (map (row_message L) (rows_after D S sid 0))) \<and>
    sorted_wrt (<) (map ms_id (rows_after D S sid 0)) \<and>
    set (rows_after D S sid 0) = {m \<in> set (db_messages S). db_same D (ms_session m) sid}"
proof -
  have "decode_cursor c [] = Inr 0" by (simp add: decode_cursor_def)
  from sync_walk_from [OF assms(1-4) this assms(5,6)]
  have "sync_walk fuel (\<lambda>cur. sync_messages L D env user c cur limit S) [] = Some (Inr (map (row_message L) (rows_after D S sid 0)))" .
  moreover have "set (rows_after D S sid 0) = {m \<in> set (db_messages S). db_same D (ms_session m) sid}"
    using assms(2) by (auto simp: rows_after_filter(1) [OF assms(2)] messages_ok_def)
  ultimately show ?thesis using rows_after_filter(2) [OF assms(2)] by blast
qed

section \<open>Fingerprints\<close>

lemma json_string_inject:
  assumes "utf8_valid a" "utf8_valid b" "json_string a = json_string b" shows "a = b"
  using assms unquote_quote_body by (metis json.inject(3) json_string_def)

lemma fingerprint_keys: "list_all key_ok [''v'', ''destination'', ''receive_type'', ''receive_id'', ''content'', ''type'', ''origin'']"
proof -
  have "list_all (list_all bare) [''v'', ''destination'', ''receive_type'', ''receive_id'', ''content'', ''type'', ''origin'']"
    "list_all lower_key [''v'', ''destination'', ''receive_type'', ''receive_id'', ''content'', ''type'', ''origin'']" by code_simp+
  then show ?thesis using key_okI by simp
qed

lemma fingerprint_text: "json_text (json_print (fingerprint_json d c o')) = Some (fingerprint_json d c o')"
proof -
  have "good (Suc 0) (JObj [(''receive_type'', json_string x), (''receive_id'', json_string y)])" for x y
    using fingerprint_keys by (intro good_obj) simp_all
  then have "good 0 (fingerprint_json d c o')"
    using fingerprint_keys by (auto simp: fingerprint_json_def int_json_one intro!: good_obj)
  then show ?thesis using json_text_print by (simp add: good_def)
qed

text \<open>The fingerprint hashes a canonical text: two requests are hashed from the same text exactly when they agree in the
  kind and identifier of the destination, the content and the origin.\<close>

theorem fingerprint_canonical:
  assumes "utf8_valid c" "utf8_valid c'" "utf8_valid (d_id d)" "utf8_valid (d_id d')"
  shows "json_print (fingerprint_json d c o') = json_print (fingerprint_json d' c' o'') \<longleftrightarrow>
    (d_type d = RECEIVE_TYPE_GROUP \<longleftrightarrow> d_type d' = RECEIVE_TYPE_GROUP) \<and> d_id d = d_id d' \<and> c = c' \<and> (o' = 1 \<longleftrightarrow> o'' = 1)"
proof
  assume "json_print (fingerprint_json d c o') = json_print (fingerprint_json d' c' o'')"
  then have e: "fingerprint_json d c o' = fingerprint_json d' c' o''" by (metis fingerprint_text option.inject)
  have k: "utf8_valid ''group''" "utf8_valid ''user''" "utf8_valid ''ai''" by code_simp+
  have either: "utf8_valid (if b then ''group'' else ''user'')" "utf8_valid (if b then ''ai'' else ''user'')" for b using k by simp_all
  have "json_string (d_id d) = json_string (d_id d')" "json_string c = json_string c'"
    and t: "json_string (if d_type d = RECEIVE_TYPE_GROUP then ''group'' else ''user'') =
      json_string (if d_type d' = RECEIVE_TYPE_GROUP then ''group'' else ''user'')"
    and o: "json_string (if o' = 1 then ''ai'' else ''user'') = json_string (if o'' = 1 then ''ai'' else ''user'')"
    using e by (simp_all add: fingerprint_json_def)
  then have "d_id d = d_id d'" "c = c'" using json_string_inject assms by blast+
  moreover have "d_type d = RECEIVE_TYPE_GROUP \<longleftrightarrow> d_type d' = RECEIVE_TYPE_GROUP"
    using json_string_inject [OF either(1) either(1) t] k by (auto split: if_splits)
  moreover have "o' = 1 \<longleftrightarrow> o'' = 1" using json_string_inject [OF either(2) either(2) o] k by (auto split: if_splits)
  ultimately show "(d_type d = RECEIVE_TYPE_GROUP \<longleftrightarrow> d_type d' = RECEIVE_TYPE_GROUP) \<and> d_id d = d_id d' \<and> c = c' \<and> (o' = 1 \<longleftrightarrow> o'' = 1)"
    by blast
next
  assume "(d_type d = RECEIVE_TYPE_GROUP \<longleftrightarrow> d_type d' = RECEIVE_TYPE_GROUP) \<and> d_id d = d_id d' \<and> c = c' \<and> (o' = 1 \<longleftrightarrow> o'' = 1)"
  then show "json_print (fingerprint_json d c o') = json_print (fingerprint_json d' c' o'')" by (simp add: fingerprint_json_def)
qed

section \<open>Applied\<close>

text \<open>A MySQL with a binary collation, two users with a direct session, and a message between them.\<close>

definition plain_dbms :: dbms where
  "plain_dbms = \<lparr>db_same = (=), db_json = \<lambda>s. s\<rparr>"

definition direct_a :: string where "direct_a = ''S'' @ uuid_c"

definition user_row_a :: user_row where
  "user_row_a = \<lparr>us_uuid = user_a, us_nick = ''ann'', us_phone = ''13800000001'', us_hash = ''h1''\<rparr>"

definition user_row_b :: user_row where
  "user_row_b = \<lparr>us_uuid = user_b, us_nick = ''ben'', us_phone = ''13800000002'', us_hash = ''h2''\<rparr>"

lemma user_rows [simp]: "us_uuid user_row_a = user_a" "us_uuid user_row_b = user_b"
  by (simp_all add: user_row_a_def user_row_b_def)

definition db_a :: db where
  "db_a = \<lparr>db_users = [user_row_a, user_row_b],
     db_sessions = [\<lparr>se_uuid = direct_a, se_send = user_b, se_receive = user_a, se_type = 0, se_created = 0\<rparr>],
     db_groups = [], db_access = [], db_contacts = [], db_applies = [], db_messages = [], db_next = 1\<rparr>"

definition to_b :: destination where
  "to_b = \<lparr>d_type = RECEIVE_TYPE_USER, d_id = user_b\<rparr>"

definition input_a :: save_input where
  "input_a = \<lparr>in_sender = user_a, in_client = uuid_a, in_dest = Some to_b, in_content = ''hi''\<rparr>"

definition save_env_a :: save_env where
  "save_env_a = \<lparr>sv_db = True, sv_fault = \<lambda>_. False, sv_uuid = uuid_b, sv_now = 5000, sv_gap = 0, sv_commit = Committed\<rparr>"

definition row_a :: message_row where
  "row_a = new_row doc_lib save_env_a input_a 0 direct_a to_b [user_a, user_b] (fingerprint_v1 doc_lib input_a 0)"

definition saved_a :: saved where
  "saved_a = projr (fst (save_message doc_lib plain_dbms save_env_a input_a db_a))"

definition db_b :: db where
  "db_b = snd (save_message doc_lib plain_dbms save_env_a input_a db_a)"

lemma strings_json_text: "list_all utf8_valid xs \<Longrightarrow> unmarshal_strings (strings_json xs) = Some (Some xs)"
proof -
  assume u: "list_all utf8_valid xs"
  have "good 0 (JArr (map json_string xs))" by (rule good_arr) (auto simp: list_all_iff)
  then have "json_text (json_print (JArr (map json_string xs))) = Some (JArr (map json_string xs))"
    using json_text_print [of "JArr (map json_string xs)"] unfolding good_def by blast
  then show ?thesis using decode_texts [OF u] by (simp add: unmarshal_strings_def strings_json_def decode_slice_def nil_list_def)
qed

lemma plain_documented: "dbms_documented plain_dbms"
  by (auto simp: dbms_documented_def plain_dbms_def strings_json_text)

lemma sample_valid: "validate_input doc_lib input_a = Inr ()"
  by code_simp


lemma sample_parts:
  "sorted_unique [user_a, user_b] = [user_a, user_b]" "valid_id doc_lib direct_a (CHR ''S'')" "valid_id doc_lib direct_a (CHR ''G'') = False"
  "valid_id doc_lib (CHR ''M'' # uuid_b) (CHR ''M'')" "valid_text ''hi''" "ts_check doc_lib (ts_new 5000)" "(5000::int) \<noteq> zero_ns" "direct_a \<noteq> []"
  by code_simp+

lemma sample_row: "row_shown doc_lib (row_a\<lparr>ms_id := 1\<rparr>)"
  using sample_parts by (simp add: row_shown_def stored_view_def row_a_def new_row_def input_a_def save_env_a_def to_b_def)

lemma sample_authorized:
  "authorize_user doc_lib plain_dbms (sv_fault save_env_a) db_a (in_sender input_a) (the (in_dest input_a)) =
   Inr (direct_a, to_b, [user_a, user_b])"
  using sample_parts by (simp add: authorize_user_def lock_direct_def take_row_def direct_row_def plain_dbms_def db_a_def save_env_a_def input_a_def to_b_def)

lemma sample_users: "require_users plain_dbms (sv_fault save_env_a) 0 db_a [user_a, user_b] = Inr ()"
  by code_simp

lemma sample_create: "create_row plain_dbms save_env_a row_a db_a =
   Inr (row_a\<lparr>ms_id := 1\<rparr>, db_a\<lparr>db_messages := [row_a\<lparr>ms_id := 1\<rparr>], db_next := 2\<rparr>)"
  by (simp add: create_row_def db_a_def save_env_a_def existing_row_def plain_dbms_def Let_def)

lemma sample_body: "\<exists>s. save_body doc_lib plain_dbms save_env_a input_a [] 0 db_a =
   Inr (s, db_a\<lparr>db_messages := [row_a\<lparr>ms_id := 1\<rparr>], db_next := 2\<rparr>) \<and> \<not> sd_replayed s"
proof -
  obtain v where v: "stored_view doc_lib (row_a\<lparr>ms_id := 1\<rparr>) = Inr v"
    using sample_row by (auto simp: row_shown_def split: sum.splits)
  have "lock_user plain_dbms (sv_fault save_env_a) db_a (in_sender input_a) = Inr user_row_a"
    by (simp add: lock_user_def take_row_def plain_dbms_def db_a_def save_env_a_def input_a_def)
  moreover have "existing_row plain_dbms db_a (in_sender input_a) (in_client input_a) = None" "sv_fault save_env_a QExisting = False"
    "input_a\<lparr>in_dest := Some to_b\<rparr> = input_a"
    by (simp_all add: existing_row_def db_a_def save_env_a_def input_a_def)
  ultimately show ?thesis
    by (simp add: save_body_def sample_authorized sample_parts(1) sample_users sample_create v flip: row_a_def)
qed

lemma sample_saves: "save_message doc_lib plain_dbms save_env_a input_a db_a = (Inr saved_a, db_b)" "\<not> sd_replayed saved_a"
  "db_b = db_a\<lparr>db_messages := [row_a\<lparr>ms_id := 1\<rparr>], db_next := 2\<rparr>"
proof -
  let ?S = "db_a\<lparr>db_messages := [row_a\<lparr>ms_id := 1\<rparr>], db_next := 2\<rparr>"
  obtain s where "save_body doc_lib plain_dbms save_env_a input_a [] 0 db_a = Inr (s, ?S)" "\<not> sd_replayed s"
    using sample_body by blast
  then have "save_message doc_lib plain_dbms save_env_a input_a db_a = (Inr s, ?S) \<and> \<not> sd_replayed s"
    by (simp add: save_message_def sample_valid save_tx_def save_env_a_def)
  then show "save_message doc_lib plain_dbms save_env_a input_a db_a = (Inr saved_a, db_b)" "\<not> sd_replayed saved_a" "db_b = ?S"
    by (simp_all add: saved_a_def db_b_def)
qed

lemma sample_ok: "messages_ok plain_dbms db_a" "users_unique plain_dbms db_a" "messages_ok plain_dbms db_b"
  by (simp_all add: messages_ok_def users_unique_def sample_saves(3)) (simp_all add: db_a_def plain_dbms_def)

lemma resends_are_replays_witness:
  "snd (save_message doc_lib plain_dbms save_env_a input_a db_b) = db_b"
  using resends_are_replays [OF plain_documented doc_lib_documented(1) sample_saves(1) store_run.start prod.collapse [symmetric] refl refl]
  by blast

lemma accepted_messages_stored_witness:
  "\<exists>row. db_messages db_b = db_messages db_a @ [row] \<and> ms_content row = ''hi'' \<and> mv_dest (sd_message saved_a) = Some to_b \<and>
     mv_position (sd_message saved_a) = nat (ms_id row)"
  using accepted_messages_stored [OF plain_documented doc_lib_documented(1) sample_ok(1) store_run.start sample_saves(1) store_run.start]
    sample_saves(2) by (auto simp: input_a_def)

lemma saved_for_members_witness: "in_sender input_a \<in> set (sd_recipients saved_a)"
  using saved_for_members [OF plain_documented doc_lib_documented(1) sample_ok(2) sample_saves(1,2)] by blast

definition sync_env_a :: sync_env where
  "sync_env_a = \<lparr>sn_db = True, sn_fault = \<lambda>_. False, sn_commit = Committed\<rparr>"

definition conversation_a :: string where "conversation_a = ''direct:'' @ direct_a"

lemma sample_session: "parse_conversation doc_lib conversation_a = Inr (direct_a, False)"
  by code_simp

lemma sample_may_sync: "may_sync doc_lib plain_dbms sync_env_a user_a conversation_a 0 db_b = Some (direct_a, False)"
  unfolding may_sync_def sample_session
  using sample_parts by (simp add: sample_saves(3) lock_user_def lock_direct_def take_row_def direct_row_def plain_dbms_def db_a_def sync_env_a_def)

lemma sample_rows: "rows_after plain_dbms db_b direct_a 0 = [row_a\<lparr>ms_id := 1\<rparr>]"
  by (simp add: rows_after_def sample_saves(3) plain_dbms_def) (simp add: row_a_def new_row_def)

lemma sync_pages_exact_witness:
  "\<exists>p. sync_messages doc_lib plain_dbms sync_env_a user_a conversation_a [] 0 db_b = Inr p \<and>
     sy_messages p = [row_message doc_lib (row_a\<lparr>ms_id := 1\<rparr>)]"
proof -
  have d: "decode_cursor c [] = Inr 0" for c by (simp add: decode_cursor_def)
  obtain p where p: "sync_messages doc_lib plain_dbms sync_env_a user_a conversation_a [] 0 db_b = Inr p"
    using sync_succeeds [OF sample_may_sync d] sample_row by (auto simp: sample_rows)
  have "db_next db_b \<le> 2 ^ 63" by (simp add: sample_saves(3))
  from sync_pages_exact [OF doc_lib_documented(1) sample_ok(3) this p] show ?thesis
    using p by (auto simp: sample_session d sample_rows page_size_def Let_def)
qed

lemma sync_walk_complete_witness:
  "sync_walk 2 (\<lambda>cur. sync_messages doc_lib plain_dbms sync_env_a user_a conversation_a cur 0 db_b) [] =
     Some (Inr [row_message doc_lib (row_a\<lparr>ms_id := 1\<rparr>)])"
proof -
  have "db_next db_b \<le> 2 ^ 63" by (simp add: sample_saves(3))
  from sync_walk_complete [OF doc_lib_documented(1) sample_ok(3) this sample_may_sync, of 2] show ?thesis
    using sample_row by (simp add: sample_rows)
qed

lemma fingerprint_canonical_witness:
  "json_print (fingerprint_json to_b ''hi'' 0) \<noteq> json_print (fingerprint_json to_b ''ho'' 0)"
proof -
  have "utf8_valid ''hi''" "utf8_valid ''ho''" "utf8_valid (d_id to_b)" by code_simp+
  from fingerprint_canonical [OF this(1,2,3,3), of 0 0] show ?thesis by simp
qed

end
