(* ===== verification/LogicDelivery.thy ===== *)
theory LogicDelivery
  imports LogicService Routing MessageSync
begin

text \<open>
  What the service promises: roles are fenced, submitted messages are stored and reach Job as tasks it reads, and kicks reach
  only the connection that was replaced.
\<close>

section \<open>Route hints\<close>

lemma hints_of_rows:
  assumes "\<And>u h. u \<in> set us \<Longrightarrow> g u = Some h \<Longrightarrow> cn_user h = u \<and> valid_connection L (Some h)" "distinct us"
  shows "check_hints L us [] (List.map_filter g us)"
proof -
  have u: "map cn_user (List.map_filter g us) = filter (\<lambda>u. g u \<noteq> None) us"
    using assms(1) by (induction us) (auto simp: List.map_filter_simps split: option.splits)
  have v: "valid_connection L (Some h)" if "h \<in> set (List.map_filter g us)" for h
    using that assms(1) by (auto simp: List.map_filter_def)
  have "cn_user h \<in> set us" if "h \<in> set (List.map_filter g us)" for h
    using that assms(1) by (fastforce simp: List.map_filter_def)
  then show ?thesis using u v assms(2) by (auto simp: check_hints_iff)
qed

lemma route_hints_ok:
  assumes "wf_store L rs S" "distinct us"
  shows "check_hints L us [] (route_hints (fst (st_lookup L rs io us S)))"
proof (cases "healthy io \<and> valid_batch us (\<lambda>u. valid_id L u (CHR ''U''))")
  case True
  let ?g = "\<lambda>u. case route_status rs (io_now io) S u of RouteState (Some lease) \<Rightarrow> Some (the (rl_identity lease)) | _ \<Rightarrow> None"
  have r: "route_hints (fst (st_lookup L rs io us S)) = List.map_filter ?g us"
    using True st_lookup_eq [OF _ assms(1)] by (simp add: route_hints_def List.map_filter_def comp_def filter_map)
  show ?thesis unfolding r
  proof (rule hints_of_rows [OF _ assms(2)])
    fix u h assume "?g u = Some h"
    then obtain v where "S (rkey rs u) = Some v" "h = lease_conn v"
      by (auto simp: route_status_def route_lease_of_def split: option.splits if_splits)
    then show "cn_user h = u \<and> valid_connection L (Some h)"
      using stored_connection_valid [OF assms(1)] by (auto simp: lease_conn_def)
  qed
next
  case False
  then have "\<exists>e. fst (st_lookup L rs io us S) = Inl e"
    by (auto simp: st_lookup_def healthy_def run_script_def Let_def split: prod.splits)
  then show ?thesis by (auto simp: route_hints_def)
qed

section \<open>What a dispatch sends\<close>

definition saved_ok :: "lib \<Rightarrow> saved \<Rightarrow> bool" where
  "saved_ok L sd =
     ((\<exists>r. stored_view L r = Inr (sd_message sd) \<and> ms_id r < 2 ^ 63) \<and>
      list_all (\<lambda>i. valid_id L i (CHR ''U'')) (sd_recipients sd) \<and> strict_sorted (sd_recipients sd) \<and>
      length (sd_recipients sd) \<le> 2 ^ 32 \<and>
      (d_type (the (mv_dest (sd_message sd))) = RECEIVE_TYPE_GROUP \<or>
       set (sd_recipients sd) \<subseteq> {mv_sender (sd_message sd), d_id (the (mv_dest (sd_message sd)))}))"

lemma chunk_ids_slice: "chunk_ids sd i = slice (sd_recipients sd) (i * 100) (Suc i * 100)"
  by (simp add: chunk_ids_def slice_def min_def)

lemma small_count: "n \<le> 2 ^ 32 \<Longrightarrow> chunk_count 100 n < 2 ^ 32"
  by (simp add: chunk_count_def)

lemma chunk_valid:
  assumes "saved_ok L sd" "i < chunk_count 100 (length (sd_recipients sd))" "valid_request_id request"
    and "check_hints L (chunk_ids sd i) [] hs"
  shows "valid_task L (chunk_task sd request (chunk_count 100 (length (sd_recipients sd))) i (chunk_ids sd i) hs)"
proof -
  let ?c = "chunk_count 100 (length (sd_recipients sd))" let ?t = "chunk_task sd request ?c i (chunk_ids sd i) hs"
  obtain r where r: "stored_view L r = Inr (sd_message sd)" "ms_id r < 2 ^ 63" using assms(1) by (auto simp: saved_ok_def)
  have c: "?c < 2 ^ 32" using small_count assms(1) by (simp add: saved_ok_def)
  then have ci: "i < 4294967296" "?c < 4294967296" using assms(2) by simp_all
  have s: "chunk_ids sd i = slice (sd_recipients sd) (i * 100) (Suc i * 100)" by (rule chunk_ids_slice)
  have ne: "1 \<le> length (chunk_ids sd i)" "length (chunk_ids sd i) \<le> 100"
    using chunk_index_in_range [OF _ assms(2)] by (simp_all add: s slice_def)
  have sub: "set (chunk_ids sd i) \<subseteq> set (sd_recipients sd)" unfolding s by (rule set_slice_subset)
  have "strict_sorted (chunk_ids sd i)" unfolding s using assms(1) by (intro sorted_slice) (simp add: saved_ok_def)
  moreover have "im_receive_type (public_message (sd_message sd)) = ''user'' \<longrightarrow>
      set (chunk_ids sd i) \<subseteq> {im_send (public_message (sd_message sd)), im_receive (public_message (sd_message sd))}"
    using assms(1) sub by (auto simp: saved_ok_def public_message_def)
  moreover have "\<forall>u \<in> set (chunk_ids sd i). valid_id L u (CHR ''U'')" using assms(1) sub by (auto simp: saved_ok_def list_all_iff)
  ultimately have "check_recipients L (public_message (sd_message sd)) None (chunk_ids sd i)"
    by (auto simp: check_recipients_iff)
  moreover have "message_view_of L (public_message (sd_message sd)) \<noteq> None" using stored_view_job [OF r] by simp
  moreover have "im_id (public_message (sd_message sd)) = mv_id (sd_message sd)" by (simp add: public_message_def)
  ultimately have "task_core L ?t"
    using ne assms(2,4) by (simp add: task_core_def task_identity_def chunk_task_def ci mod_less nil_list_def)
  moreover have "task_small ?t" using c assms(2) by (simp add: task_small_def chunk_task_def)
  moreover have "request = [] \<or> printable request 128" using assms(3) by (auto simp: valid_request_id_def printable_def)
  ultimately show ?thesis by (simp add: valid_task_def chunk_task_def)
qed

text \<open>The record of a chunk: its key, and the task Job decodes from it.\<close>

definition carries :: "lib \<Rightarrow> saved \<Rightarrow> string \<Rightarrow> nat \<Rightarrow> string \<times> string \<Rightarrow> bool" where
  "carries L sd request i kr =
     (fst kr = mv_conversation (sd_message sd) \<and>
      (\<exists>t. decode_task L (snd kr) = Some t \<and> pt_message t = public_message (sd_message sd) \<and> pt_recipients t = chunk_ids sd i \<and>
         pt_index t = i \<and> pt_count t = chunk_count 100 (length (sd_recipients sd)) \<and> pt_request t = request \<and> pt_pending t = None))"

lemma dispatch_from_sound:
  assumes "uuid_documented L" "ts_documented L" "saved_ok L sd" "valid_request_id request"
    and "count = chunk_count 100 (length (sd_recipients sd))" "index \<le> count"
    and "wf_store L (lg_routes s) (lo_redis st)" "dispatch_from L s env base sd request count index index st = (d, st')"
  shows "\<exists>new. st' = st\<lparr>lo_sent := lo_sent st @ new\<rparr> \<and> (\<forall>j < length new. carries L sd request (index + j) (new ! j)) \<and>
    (d = DISPATCH_STATE_QUEUED \<longrightarrow> index + length new = count) \<and> (d = DISPATCH_STATE_NOT_QUEUED \<longrightarrow> index = 0 \<and> new = []) \<and>
    d \<noteq> DISPATCH_STATE_UNSPECIFIED"
  using assms(5-8)
proof (induction "count - index" arbitrary: index st)
  case 0
  then show ?case by (auto simp: dispatch_from.simps)
next
  case (Suc n)
  let ?ids = "chunk_ids sd index" let ?look = "st_lookup L (lg_routes s) (le_redis env (base + index)) ?ids (lo_redis st)"
  let ?t = "chunk_task sd request count index ?ids (route_hints (fst ?look))"
  have i: "index < count" using Suc.hyps(2) by simp
  have "strict_sorted ?ids" unfolding chunk_ids_slice using assms(3) by (intro sorted_slice) (simp add: saved_ok_def)
  then have "check_hints L ?ids [] (route_hints (fst ?look))"
    by (intro route_hints_ok Suc.prems(3) strict_sorted_imp_distinct)
  then have "valid_task L ?t" using chunk_valid [OF assms(3) _ assms(4)] i Suc.prems(1) by simp
  then obtain raw where raw: "marshal_task ?t = Some raw" "decode_task L raw = Some ?t"
    using valid_task_decodes [OF assms(1,2)] by blast
  then have "length raw \<le> max_payload" by (auto elim: decode_task_Some)
  have carry: "carries L sd request index (mv_conversation (sd_message sd), raw)"
  proof -
    have "count < 2 ^ 32" using small_count assms(3) Suc.prems(1) by (simp add: saved_ok_def)
    then show ?thesis using raw(2) i Suc.prems(1) by (simp add: carries_def chunk_task_def)
  qed
  have st: "st\<lparr>lo_redis := snd ?look\<rparr> = st" by (simp add: st_lookup_state)
  obtain r sent where p: "publish L (Some (lg_publisher s)) (le_publish env index) (mv_conversation (sd_message sd)) raw (lo_sent st) = (r, sent)"
    by fastforce
  note pc = publish_cases [OF p]
  have d: "(case r of
      Inl e \<Rightarrow> (if index = 0 \<and> pe_base e = ErrNotPublished then DISPATCH_STATE_NOT_QUEUED else DISPATCH_STATE_UNKNOWN, st\<lparr>lo_sent := sent\<rparr>)
    | Inr _ \<Rightarrow> dispatch_from L s env base sd request count (index + 1) (index + 1) (st\<lparr>lo_sent := sent\<rparr>)) = (d, st')"
    using Suc.prems(4) i raw(1) \<open>length raw \<le> max_payload\<close> st p
    by (subst (asm) dispatch_from.simps) (simp add: Let_def split: prod.splits)
  show ?case
  proof (cases r)
    case (Inl e)
    have "sent = lo_sent st \<or> sent = lo_sent st @ [(mv_conversation (sd_message sd), raw)]" using pc by blast
    then show ?thesis
    proof
      assume "sent = lo_sent st"
      then show ?thesis using d Inl by (intro exI [of _ "[]"]) (auto split: if_splits)
    next
      assume s1: "sent = lo_sent st @ [(mv_conversation (sd_message sd), raw)]"
      then have "pe_base e \<noteq> ErrNotPublished" using pc Inl by auto
      then show ?thesis using d Inl s1 carry
        by (intro exI [of _ "[(mv_conversation (sd_message sd), raw)]"]) (auto split: if_splits)
    qed
  next
    case (Inr u)
    then have s1: "sent = lo_sent st @ [(mv_conversation (sd_message sd), raw)]" using pc by simp
    have "wf_store L (lg_routes s) (lo_redis (st\<lparr>lo_sent := sent\<rparr>))" using Suc.prems(3) by simp
    moreover have "dispatch_from L s env base sd request count (index + 1) (index + 1) (st\<lparr>lo_sent := sent\<rparr>) = (d, st')"
      using d Inr by simp
    moreover have "n = count - (index + 1)" "index + 1 \<le> count" using Suc.hyps(2) i by simp_all
    ultimately
    obtain new where new: "st' = st\<lparr>lo_sent := sent @ new\<rparr>" "\<forall>j < length new. carries L sd request (index + 1 + j) (new ! j)"
      "d = DISPATCH_STATE_QUEUED \<longrightarrow> index + 1 + length new = count" "d \<noteq> DISPATCH_STATE_NOT_QUEUED" "d \<noteq> DISPATCH_STATE_UNSPECIFIED"
      using Suc.hyps(1) [OF _ Suc.prems(1), of "index + 1" "st\<lparr>lo_sent := sent\<rparr>"] by fastforce
    have "\<forall>j < length ((mv_conversation (sd_message sd), raw) # new).
        carries L sd request (index + j) (((mv_conversation (sd_message sd), raw) # new) ! j)"
      using new(2) carry by (auto simp: nth_Cons split: nat.splits)
    then show ?thesis using new s1
      by (intro exI [of _ "(mv_conversation (sd_message sd), raw) # new"]) auto
  qed
qed

section \<open>Authenticated calls\<close>

lemma comet_auth_Inr:
  assumes "comet_auth s md i inst = Inr g"
  shows "g \<in> set (lg_grants s) \<and> bearer md = cg_token g \<and>
    (case i of Some c \<Rightarrow> c = the (cg_identity g) | None \<Rightarrow> inst = ci_instance (the (cg_identity g)))"
  using assms by (auto simp: comet_auth_def Let_def dest: find_SomeD split: option.splits if_splits)

lemma job_auth_Inr: "job_auth s md = Inr u \<Longrightarrow> bearer md = lg_job s"
  by (auto simp: job_auth_def Let_def split: if_splits)

lemma connection_auth_state [simp]: "snd (connection_auth L s io md i st) = st"
  using st_resolve_state [of L "lg_routes s" io] by (auto simp: connection_auth_def case_prod_beta Let_def split: option.split sum.split)

lemma connection_auth_Inr:
  assumes "fst (connection_auth L s io md i st) = Inr g"
  obtains c x lease where "i = Some c" "comet_auth s md None (cn_instance c) = Inr g"
    "fst (st_resolve L (lg_routes s) io [cn_instance c] (lo_redis st)) = Inr [x]" "cr_state x = LeaseState (Some lease)"
    "ci_boot (the (cl_identity lease)) = ci_boot (the (cg_identity g))"
  using assms by (auto simp: connection_auth_def case_prod_beta Let_def split: option.splits sum.splits list.splits comet_state.splits if_splits)

text \<open>The tokens of a configured service are pairwise different.\<close>

lemma check_grants_ok:
  "check_grants L tokens ids gs = Inr out \<Longrightarrow>
     distinct (map cg_token out) \<and> set (map cg_token out) \<inter> set tokens = {} \<and>
     distinct (map (\<lambda>g. ci_instance (the (cg_identity g))) out) \<and> set (map (\<lambda>g. ci_instance (the (cg_identity g))) out) \<inter> set ids = {} \<and>
     (\<forall>g \<in> set out. valid_comet L (cg_identity g) \<and> valid_token (cg_token g) \<and> local_address (cg_address g))"
proof (induction gs arbitrary: tokens ids out)
  case (Cons g gs)
  obtain rest where ok: "valid_comet L (cg_identity g)" "valid_token (cg_token g)" "cg_token g \<notin> set tokens"
      "ci_instance (the (cg_identity g)) \<notin> set ids" "local_address (cg_address g)"
    and r: "check_grants L (cg_token g # tokens) (ci_instance (the (cg_identity g)) # ids) gs = Inr rest"
    and out: "out = g\<lparr>cg_identity := Some \<lparr>ci_instance = ci_instance (the (cg_identity g)), ci_boot = ci_boot (the (cg_identity g))\<rparr>\<rparr> # rest"
    using Cons.prems by (auto simp: bindE_eq_Inr split: if_splits)
  have "valid_comet L (Some \<lparr>ci_instance = ci_instance (the (cg_identity g)), ci_boot = ci_boot (the (cg_identity g))\<rparr>)"
    using ok(1) by (auto simp: valid_comet_def split: option.splits)
  then show ?case using Cons.IH [OF r] ok out by auto
qed simp

lemma new_service_ok:
  assumes "new_service L cfg = Inr s"
  shows "distinct (lg_job s # lg_kick s # map cg_token (lg_grants s)) \<and> valid_token (lg_kick s) \<and> valid_token (lg_job s) \<and>
    (\<forall>g \<in> set (lg_grants s). valid_comet L (cg_identity g) \<and> valid_token (cg_token g) \<and> local_address (cg_address g))"
  using assms check_grants_ok by (fastforce simp: new_service_def bindE_eq_Inr split: if_splits)

section \<open>Roles\<close>

datatype logic_call =
    CallRegister "register_request option"
  | CallRenew "renew_request option"
  | CallUnregister "unregister_request option"
  | CallConnect "connect_request option"
  | CallHeartbeat "connection_request option"
  | CallDisconnect "connection_request option"
  | CallSubmit "submit_request option"
  | CallLookup "batch_request option"
  | CallResolve "batch_request option"

text \<open>A call of the RPC service: its error, if it failed, and the state after it.\<close>

definition rpc_outcome :: "(rpc_status + 'a) \<times> logic_state \<Rightarrow> rpc_status option \<times> logic_state" where
  "rpc_outcome r = (case fst r of Inl e \<Rightarrow> Some e | Inr _ \<Rightarrow> None, snd r)"

fun logic_exec ::
  "lib \<Rightarrow> dbms \<Rightarrow> jwt_lib \<Rightarrow> logic_service \<Rightarrow> logic_env \<Rightarrow> string list \<Rightarrow> logic_call \<Rightarrow> logic_state \<Rightarrow> rpc_status option \<times> logic_state" where
  "logic_exec L D J s env md (CallRegister q) st = rpc_outcome (register_comet L s env md q st)"
| "logic_exec L D J s env md (CallRenew q) st = rpc_outcome (renew_comet L s env md q st)"
| "logic_exec L D J s env md (CallUnregister q) st = rpc_outcome (unregister_comet L s env md q st)"
| "logic_exec L D J s env md (CallConnect q) st = rpc_outcome (logic_connect L J s env md q st)"
| "logic_exec L D J s env md (CallHeartbeat q) st = rpc_outcome (logic_heartbeat L s env md q st)"
| "logic_exec L D J s env md (CallDisconnect q) st = rpc_outcome (logic_disconnect L s env md q st)"
| "logic_exec L D J s env md (CallSubmit q) st = rpc_outcome (submit_message L D s env md q st)"
| "logic_exec L D J s env md (CallLookup q) st = rpc_outcome (lookup_routes L s env md q st)"
| "logic_exec L D J s env md (CallResolve q) st = rpc_outcome (resolve_comets L s env md q st)"

text \<open>The grant a call has to present: that of the boot, or of the instance, it speaks for; the calls of Job present none.\<close>

fun speaks_for :: "logic_call \<Rightarrow> comet_id \<Rightarrow> bool" where
  "speaks_for (CallRegister q) c = (qr_identity (the q) = Some c)"
| "speaks_for (CallRenew q) c = (qn_identity (the q) = Some c)"
| "speaks_for (CallUnregister q) c = (qu_identity (the q) = Some c)"
| "speaks_for (CallConnect q) c = (qc_comet (the q) = Some c)"
| "speaks_for (CallHeartbeat q) c = (\<exists>i. qi_identity (the q) = Some i \<and> cn_instance i = ci_instance c)"
| "speaks_for (CallDisconnect q) c = (\<exists>i. qi_identity (the q) = Some i \<and> cn_instance i = ci_instance c)"
| "speaks_for (CallSubmit q) c = (\<exists>i. qs_identity (the q) = Some i \<and> cn_instance i = ci_instance c)"
| "speaks_for (CallLookup q) c = False"
| "speaks_for (CallResolve q) c = False"

fun job_call :: "logic_call \<Rightarrow> bool" where
  "job_call (CallLookup q) = True"
| "job_call (CallResolve q) = True"
| "job_call _ = False"

lemma auth_boot:
  assumes "new_service L cfg = Inr s" "comet_auth s md i '''' = Inr g"
  shows "g \<in> set (lg_grants s) \<and> bearer md = cg_token g \<and> i = cg_identity g"
proof -
  note a = comet_auth_Inr [OF assms(2)]
  have v: "valid_comet L (cg_identity g)" using a new_service_ok [OF assms(1)] by blast
  then obtain c where "cg_identity g = Some c" "ci_instance c \<noteq> []"
    by (auto simp: valid_comet_def valid_instance_def split: option.splits)
  then show ?thesis using a by (cases i) auto
qed

lemma call_authorized:
  assumes "new_service L cfg = Inr s" "logic_exec L D J s env md call st = (e, st')" "e = None \<or> st' \<noteq> st"
  shows "if job_call call then bearer md = lg_job s
         else \<exists>g c. g \<in> set (lg_grants s) \<and> bearer md = cg_token g \<and> cg_identity g = Some c \<and> speaks_for call c"
proof -
  note ok = new_service_ok [OF assms(1)]
  have some: "\<exists>c. cg_identity g = Some c" if "g \<in> set (lg_grants s)" for g
    using that ok by (auto simp: valid_comet_def split: option.splits)
  have boot: "comet_auth s md i '''' = Inr g \<Longrightarrow> \<exists>g c. g \<in> set (lg_grants s) \<and> bearer md = cg_token g \<and> cg_identity g = Some c \<and> i = Some c" for i g
    using auth_boot [OF assms(1)] some by metis
  have inst: "comet_auth s md None x = Inr g \<Longrightarrow>
      \<exists>g c. g \<in> set (lg_grants s) \<and> bearer md = cg_token g \<and> cg_identity g = Some c \<and> x = ci_instance c" for x g
    using comet_auth_Inr [of s md None x g] some by fastforce
  have conn: "fst (connection_auth L s io md i st) = Inr g \<Longrightarrow>
      \<exists>g c. g \<in> set (lg_grants s) \<and> bearer md = cg_token g \<and> cg_identity g = Some c \<and> (\<exists>x. i = Some x \<and> cn_instance x = ci_instance c)" for io i g
    by (elim connection_auth_Inr) (metis inst)
  have e: "fst (logic_exec L D J s env md call st) = None \<or> snd (logic_exec L D J s env md call st) \<noteq> st"
    using assms(2,3) by simp
  show ?thesis
  proof (cases call)
    case (CallRegister q)
    then show ?thesis using e boot by (auto simp: rpc_outcome_def register_comet_def split: option.splits sum.splits)
  next
    case (CallRenew q)
    then show ?thesis using e boot by (auto simp: rpc_outcome_def renew_comet_def split: option.splits sum.splits)
  next
    case (CallUnregister q)
    then show ?thesis using e boot by (auto simp: rpc_outcome_def unregister_comet_def split: option.splits sum.splits)
  next
    case (CallConnect q)
    then show ?thesis using e boot by (auto simp: rpc_outcome_def logic_connect_def split: option.splits sum.splits)
  next
    case (CallHeartbeat q)
    then show ?thesis using e conn
      by (auto simp: rpc_outcome_def logic_heartbeat_def case_prod_beta Let_def split: option.splits sum.splits if_splits)
  next
    case (CallDisconnect q)
    then show ?thesis using e inst
      by (fastforce simp: rpc_outcome_def logic_disconnect_def split: option.splits sum.splits if_splits)
  next
    case (CallSubmit q)
    have "\<exists>g. fst (connection_auth L s (le_redis env 0) md (qs_identity (the q)) st) = Inr g"
    proof (rule ccontr)
      assume "\<nexists>g. fst (connection_auth L s (le_redis env 0) md (qs_identity (the q)) st) = Inr g"
      then obtain x where "fst (connection_auth L s (le_redis env 0) md (qs_identity (the q)) st) = Inl x"
        by (cases "fst (connection_auth L s (le_redis env 0) md (qs_identity (the q)) st)") auto
      then show False using e CallSubmit
        by (cases q) (simp_all add: rpc_outcome_def submit_message_def case_prod_beta Let_def split: if_splits)
    qed
    then show ?thesis using conn CallSubmit by auto
  next
    case (CallLookup q)
    then show ?thesis using e by (auto simp: rpc_outcome_def lookup_routes_def dest: job_auth_Inr split: sum.splits)
  next
    case (CallResolve q)
    then show ?thesis using e by (auto simp: rpc_outcome_def resolve_comets_def dest: job_auth_Inr split: sum.splits)
  qed
qed

text \<open>C27. The roles of Logic's callers are fenced: a call succeeds or changes anything only for the token of its own role. The
  calls of a Comet need the token of one granted boot and speak for it (for its instance, when they name a connection); the
  lookups need Job's token; and no token belongs to two roles or two grants.\<close>

theorem logic_roles_fenced:
  assumes "new_service L cfg = Inr s" "logic_exec L D J s env md call st = (e, st')" "e = None \<or> st' \<noteq> st"
  shows "if job_call call
         then bearer md = lg_job s \<and> (\<forall>g \<in> set (lg_grants s). cg_token g \<noteq> bearer md)
         else bearer md \<noteq> lg_job s \<and> bearer md \<noteq> lg_kick s \<and>
           (\<exists>g c. g \<in> set (lg_grants s) \<and> cg_identity g = Some c \<and> speaks_for call c \<and>
              {g' \<in> set (lg_grants s). cg_token g' = bearer md} = {g})"
proof (cases "job_call call")
  case True
  then have "bearer md = lg_job s" using call_authorized [OF assms] by simp
  moreover have "lg_job s \<notin> cg_token ` set (lg_grants s)" using new_service_ok [OF assms(1)] by simp
  ultimately show ?thesis using True by (metis imageI)
next
  case False
  then obtain g c where g: "g \<in> set (lg_grants s)" "bearer md = cg_token g" "cg_identity g = Some c" "speaks_for call c"
    using call_authorized [OF assms] by auto
  have d: "distinct (map cg_token (lg_grants s))" "lg_job s \<notin> set (map cg_token (lg_grants s))" "lg_kick s \<notin> set (map cg_token (lg_grants s))"
    using new_service_ok [OF assms(1)] by auto
  have "{g' \<in> set (lg_grants s). cg_token g' = bearer md} = {g}"
    using d(1) g(1,2) by (auto simp: distinct_map dest: inj_onD)
  moreover have "bearer md \<in> set (map cg_token (lg_grants s))" using g(1,2) by simp
  then have "bearer md \<noteq> lg_job s \<and> bearer md \<noteq> lg_kick s" using d(2,3) by metis
  ultimately show ?thesis using False g by auto
qed

section \<open>Submitted messages\<close>

definition groups_bounded :: "db \<Rightarrow> bool" where
  "groups_bounded S =
     (\<forall>g \<in> set (db_groups S). \<forall>ms. unmarshal_strings (gr_members g) = Some (Some ms) \<longrightarrow> length ms \<le> 2 ^ 32)"

lemma length_sorted_unique: "length (sorted_unique xs) \<le> length xs"
  by (metis sorted_unique_def length_sort remdups_adj_length)

lemma sorted_unique_cong: "set xs = set ys \<Longrightarrow> sorted_unique xs = sorted_unique ys"
  by (rule strict_sorted_unique) (simp_all add: sorted_unique_strict)

lemma new_row_simps [simp]:
  "ms_send (new_row L env i origin sid d who p) = in_sender i" "ms_receive (new_row L env i origin sid d who p) = d_id d"
  "ms_session (new_row L env i origin sid d who p) = sid" "ms_content (new_row L env i origin sid d who p) = in_content i"
  "ms_client (new_row L env i origin sid d who p) = in_client i" "ms_origin (new_row L env i origin sid d who p) = origin"
  by (simp_all add: new_row_def)

lemma fresh_save_ok:
  assumes docs: "dbms_documented D" "uuid_documented L" and g: "groups_bounded S" and n: "db_next S + int (sv_gap env) < 2 ^ 63"
    and s: "save_message L D env i S = (Inr sd, S')" "\<not> sd_replayed sd"
  shows "saved_ok L sd \<and> (\<exists>r \<in> set (db_messages S'). stored_view L r = Inr (sd_message sd) \<and> ms_send r = in_sender i \<and>
    ms_client r = in_client i \<and> ms_content r = in_content i \<and> ms_origin r = 0)"
proof -
  have v: "validate_input L i = Inr ()" "save_tx L D env i [] 0 S = (Inr sd, S')"
    using s(1) by (auto simp: save_message_def split: sum.splits)
  have b: "save_body L D env i [] 0 S = Inr (sd, S')"
    using v(2) by (auto simp: save_tx_def split: if_splits sum.splits prod.splits commit_fate.splits)
  obtain d0 where d0: "in_dest i = Some d0" "valid_id L (in_sender i) (CHR ''U'')" using validate_input_sender [OF v(1)] by blast
  have dv: "d_type d0 = RECEIVE_TYPE_GROUP \<longrightarrow> valid_id L (d_id d0) (CHR ''G'')" "d_type d0 \<noteq> RECEIVE_TYPE_GROUP \<longrightarrow> valid_id L (d_id d0) (CHR ''U'')"
    using v(1) d0(1) by (auto simp: validate_input_def split: if_splits receive_type.splits)
  from b show ?thesis
  proof (cases rule: save_body_cases)
    case (replay sid d who r print)
    then show ?thesis using s(2) by (auto simp: replay_row_def bindE_eq_Inr split: if_splits)
  next
    case (fresh sid d who r view print)
    have d: "d = d0" using fresh(2) d0 by simp
    note c = create_row_Inr [OF fresh(6)]
    have row: "ms_send r = in_sender i" "ms_client r = in_client i" "ms_content r = in_content i" "ms_origin r = 0" "ms_session r = sid"
      "ms_receive r = d_id d0" using c d by simp_all
    note view = stored_view_Inr [OF fresh(7)]
    note snap = valid_snapshot [OF fresh(1) d0(2)]
    have list: "list_all (\<lambda>i. valid_id L i (CHR ''U'')) (sorted_unique who)" using snap dv(2) d by blast
    have "ms_id r < 2 ^ 63" using c n by simp
    moreover have "length (sorted_unique who) \<le> 2 ^ 32 \<and>
      (d_type (the (mv_dest view)) = RECEIVE_TYPE_GROUP \<or> set who \<subseteq> {mv_sender view, d_id (the (mv_dest view))})"
    proof (cases "d_type d0 = RECEIVE_TYPE_GROUP")
      case True
      then obtain g ms where ms: "g \<in> set (db_groups S)" "unmarshal_strings (gr_members g) = Some (Some ms)" "set who = set ms"
        using fresh(1) d by (auto simp: authorized_def)
      have "length (sorted_unique who) \<le> length ms" using length_sorted_unique [of ms] sorted_unique_cong [OF ms(3)] by simp
      then have "length (sorted_unique who) \<le> 2 ^ 32" using ms(1,2) g by (fastforce simp: groups_bounded_def)
      moreover have "\<not> valid_id L (d_id d0) (CHR ''U'')" using dv(1) True valid_id_unique_prefix by fastforce
      then have "valid_id L sid (CHR ''G'')" using view row by auto
      ultimately show ?thesis using view row by simp
    next
      case False
      then have w: "who = [in_sender i, d_id d0]" "valid_id L sid (CHR ''S'')" using fresh(1) d by (auto simp: authorized_def)
      have "length (sorted_unique who) \<le> 2" using length_sorted_unique [of who] w(1) by simp
      then have "length (sorted_unique who) \<le> 2 ^ 32" by simp
      then show ?thesis using view row w by auto
    qed
    ultimately have ok: "saved_ok L sd"
      using fresh(7,8) list sorted_unique_strict [of who] by (auto simp: saved_ok_def)
    let ?r = "r\<lparr>ms_recipients := db_json D (ms_recipients (new_row L env i 0 sid d (sorted_unique who) print))\<rparr>"
    have "?r \<in> set (db_messages S')" using c by simp
    moreover have "stored_view L ?r = Inr (sd_message sd)" using fresh(7,8) by (simp add: stored_view_recipients)
    ultimately show ?thesis using ok row by (intro conjI bexI [of _ ?r]) simp_all
  qed
qed

lemma st_check_state: "snd (st_check L st io c S) = S"
  by (auto simp: st_check_def st_route_def run_script_def Let_def split: option.splits prod.splits)

lemma submit_message_Inr:
  assumes "submit_message L D s env md req st = (Inr res, st')"
  obtains q c g lease sd T where "req = Some q" "valid_request_id (qs_request q)" "qs_identity q = Some c"
    "fst (connection_auth L s (le_redis env 0) md (Some c) st) = Inr g"
    "fst (st_check L (lg_routes s) (le_redis env 1) (Some c) (lo_redis st)) = Inr lease"
    "save_message L D (le_save env) \<lparr>in_sender = cn_user c, in_client = qs_client q, in_dest = qs_dest q, in_content = qs_content q\<rparr> (lo_db st) =
       (Inr sd, T)"
    "dispatch L s env 2 (qs_client q) sd (qs_request q) (st\<lparr>lo_db := T\<rparr>) = (res, st')"
proof -
  obtain q where q: "req = Some q" "valid_request_id (qs_request q)" using assms
    by (cases req) (auto simp: submit_message_def split: if_splits)
  obtain g where g: "connection_auth L s (le_redis env 0) md (qs_identity q) st = (Inr g, st)"
    using assms q connection_auth_state [of L s "le_redis env 0" md "qs_identity q" st]
    by (cases "connection_auth L s (le_redis env 0) md (qs_identity q) st"; cases "fst (connection_auth L s (le_redis env 0) md (qs_identity q) st)")
      (auto simp: submit_message_def split: if_splits)
  obtain c where c: "qs_identity q = Some c" using g by (cases "qs_identity q") (simp_all add: connection_auth_def)
  have s: "st\<lparr>lo_redis := snd (st_check L (lg_routes s) (le_redis env 1) (Some c) (lo_redis st))\<rparr> = st" by (simp add: st_check_state)
  obtain lease where l: "fst (st_check L (lg_routes s) (le_redis env 1) (Some c) (lo_redis st)) = Inr lease"
    using assms q g c by (auto simp: submit_message_def case_prod_beta Let_def split: if_splits sum.splits)
  obtain sd T where save: "save_message L D (le_save env) \<lparr>in_sender = cn_user c, in_client = qs_client q, in_dest = qs_dest q, in_content = qs_content q\<rparr> (lo_db st) =
       (Inr sd, T)" "dispatch L s env 2 (qs_client q) sd (qs_request q) (st\<lparr>lo_db := T\<rparr>) = (res, st')"
    using assms q g c l s by (auto simp: submit_message_def case_prod_beta Let_def prod_eq_iff split: if_splits sum.splits)
  show thesis by (rule that) (use q c g l save in simp_all)
qed

lemma carried_tasks:
  assumes "\<forall>j < length new. carries L sd request j (new ! j)"
  obtains ts where "map (\<lambda>kr. (fst kr, decode_task L (snd kr))) new = map (\<lambda>t. (mv_conversation (sd_message sd), Some t)) ts"
    "\<forall>t \<in> set ts. pt_message t = public_message (sd_message sd) \<and> pt_request t = request"
    "concat (map pt_recipients ts) = take (length new * 100) (sd_recipients sd)"
proof -
  let ?ts = "map (\<lambda>kr. the (decode_task L (snd kr))) new"
  have t: "fst (new ! j) = mv_conversation (sd_message sd) \<and> decode_task L (snd (new ! j)) = Some (?ts ! j) \<and>
      pt_message (?ts ! j) = public_message (sd_message sd) \<and> pt_request (?ts ! j) = request \<and> pt_recipients (?ts ! j) = chunk_ids sd j"
    if "j < length new" for j using assms that by (auto simp: carries_def)
  have "map (\<lambda>kr. (fst kr, decode_task L (snd kr))) new = map (\<lambda>t. (mv_conversation (sd_message sd), Some t)) ?ts"
    using t by (intro nth_equalityI) auto
  moreover have "\<forall>t \<in> set ?ts. pt_message t = public_message (sd_message sd) \<and> pt_request t = request"
  proof
    fix x assume "x \<in> set ?ts"
    then obtain j where "j < length ?ts" "x = ?ts ! j" by (metis in_set_conv_nth)
    then show "pt_message x = public_message (sd_message sd) \<and> pt_request x = request" using t [of j] by (simp only: length_map)
  qed
  moreover have "map pt_recipients ?ts = map (\<lambda>i. slice (sd_recipients sd) (i * 100) (Suc i * 100)) [0..<length new]"
    using t by (intro nth_equalityI) (auto simp: chunk_ids_slice)
  then have "concat (map pt_recipients ?ts) = take (length new * 100) (sd_recipients sd)" by (simp only: concat_chunks)
  ultimately show thesis by (rule that)
qed

text \<open>C26. A submitted message is stored before it is sent, and what is reported of the sending is true: a new message that
  \<open>SubmitMessage\<close> answers comes from the connection that holds the sender's live route and is a row of the table; every record
  given to the broker is keyed by the conversation and read by Job as a task of this message; the tasks name the recipients of
  the saved message in order, each once: all of them when the answer says queued, none when it says not queued.\<close>

theorem submitted_messages_reach_job:
  assumes "dbms_documented D" "uuid_documented L" "ts_documented L" "wf_store L (lg_routes s) (lo_redis st)"
    and "groups_bounded (lo_db st)" "db_next (lo_db st) + int (sv_gap (le_save env)) < 2 ^ 63"
    and "submit_message L D s env md req st = (Inr res, st')" "\<not> sr_replayed res"
  shows "\<exists>q c sd new ts. req = Some q \<and> qs_identity q = Some c \<and> sr_stored res \<and>
    (\<exists>v. lo_redis st (rkey (lg_routes s) (cn_user c)) = Some v \<and> lease_conn v = c \<and> route_live (io_now (le_redis env 1)) v) \<and>
    fst (save_message L D (le_save env)
      \<lparr>in_sender = cn_user c, in_client = qs_client q, in_dest = qs_dest q, in_content = qs_content q\<rparr> (lo_db st)) = Inr sd \<and>
    (\<exists>r \<in> set (db_messages (lo_db st')). stored_view L r = Inr (sr_message res) \<and> ms_send r = cn_user c \<and>
       ms_client r = qs_client q \<and> ms_content r = qs_content q) \<and>
    lo_sent st' = lo_sent st @ new \<and>
    map (\<lambda>kr. (fst kr, decode_task L (snd kr))) new = map (\<lambda>t. (mv_conversation (sr_message res), Some t)) ts \<and>
    (\<forall>t \<in> set ts. pt_message t = public_message (sr_message res) \<and> pt_request t = qs_request q) \<and>
    concat (map pt_recipients ts) = take (100 * length new) (sd_recipients sd) \<and>
    (sr_dispatch res = DISPATCH_STATE_QUEUED \<longrightarrow> concat (map pt_recipients ts) = sd_recipients sd) \<and>
    (sr_dispatch res = DISPATCH_STATE_NOT_QUEUED \<longrightarrow> new = [])"
proof -
  obtain q c g lease sd T where q: "req = Some q" "valid_request_id (qs_request q)" "qs_identity q = Some c"
    and chk: "fst (st_check L (lg_routes s) (le_redis env 1) (Some c) (lo_redis st)) = Inr lease"
    and save: "save_message L D (le_save env) \<lparr>in_sender = cn_user c, in_client = qs_client q, in_dest = qs_dest q, in_content = qs_content q\<rparr> (lo_db st) =
       (Inr sd, T)"
    and dis: "dispatch L s env 2 (qs_client q) sd (qs_request q) (st\<lparr>lo_db := T\<rparr>) = (res, st')"
    by (rule submit_message_Inr [OF assms(7)])
  obtain d where d: "dispatch_from L s env 2 sd (qs_request q) (chunk_count 100 (length (sd_recipients sd))) 0 0 (st\<lparr>lo_db := T\<rparr>) = (d, st')"
    and res: "res = \<lparr>sr_client = qs_client q, sr_stored = True, sr_message = sd_message sd, sr_dispatch = d, sr_replayed = sd_replayed sd\<rparr>"
    using dis by (auto simp: dispatch_def split: prod.splits)
  note fresh = fresh_save_ok [OF assms(1,2,5,6) save] 
  have ok: "saved_ok L sd" using fresh res assms(8) by simp
  have "wf_store L (lg_routes s) (lo_redis (st\<lparr>lo_db := T\<rparr>))" using assms(4) by simp
  from dispatch_from_sound [OF assms(2,3) ok q(2) refl _ this d]
  obtain new where new: "st' = st\<lparr>lo_db := T, lo_sent := lo_sent st @ new\<rparr>" "\<forall>j < length new. carries L sd (qs_request q) j (new ! j)"
    "d = DISPATCH_STATE_QUEUED \<longrightarrow> length new = chunk_count 100 (length (sd_recipients sd))" "d = DISPATCH_STATE_NOT_QUEUED \<longrightarrow> new = []"
    by auto
  obtain ts where ts: "map (\<lambda>kr. (fst kr, decode_task L (snd kr))) new = map (\<lambda>t. (mv_conversation (sd_message sd), Some t)) ts"
    "\<forall>t \<in> set ts. pt_message t = public_message (sd_message sd) \<and> pt_request t = qs_request q"
    "concat (map pt_recipients ts) = take (length new * 100) (sd_recipients sd)"
    by (rule carried_tasks [OF new(2)])
  have "valid_connection L (Some c) \<and> healthy (le_redis env 1)"
    using chk by (auto simp: st_check_def st_route_def healthy_def run_script_def Let_def split: if_splits option.splits)
  then obtain v where "check_verdict (lg_routes s) (io_now (le_redis env 1)) (lo_redis st) c = Inr v"
    using chk st_check_eq [OF _ assms(4)] by (auto simp: bindE_eq_Inr)
  then have route: "lo_redis st (rkey (lg_routes s) (cn_user c)) = Some v \<and> lease_conn v = c \<and> route_live (io_now (le_redis env 1)) v"
    by (auto simp: check_verdict_def route_live_def split: option.splits if_splits)
  have "length (sd_recipients sd) \<le> chunk_count 100 (length (sd_recipients sd)) * 100" by (rule chunk_count_covers) simp
  then have "d = DISPATCH_STATE_QUEUED \<longrightarrow> concat (map pt_recipients ts) = sd_recipients sd" using ts(3) new(3) by simp
  then show ?thesis using q route save fresh res assms(8) new ts
    by (intro exI [of _ q] exI [of _ c] exI [of _ sd] exI [of _ new] exI [of _ ts]) (auto simp: mult.commute)
qed

section \<open>Kicks\<close>

lemma st_resolve_one:
  assumes "wf_store L rs S" "fst (st_resolve L rs io [i] S) = Inr [x]" "cr_state x = LeaseState (Some lease)"
  shows "\<exists>v. S (ikey rs i) = Some v \<and> io_now io < r_deadline v \<and> comet_lease_of (Some v) = Some lease \<and> r_instance v = i"
proof -
  have "valid_batch [i] valid_instance \<and> healthy io"
    using assms(2) by (auto simp: st_resolve_def healthy_def run_script_def Let_def split: if_splits option.splits)
  then have "x = \<lparr>cr_instance = i, cr_state = comet_status rs (io_now io) S i\<rparr>" using assms(2) st_resolve_eq [OF _ assms(1)] by auto
  then obtain v where v: "S (ikey rs i) = Some v" "io_now io < r_deadline v" "comet_lease_of (Some v) = Some lease"
    using assms(3) by (auto simp: comet_status_def split: option.splits if_splits)
  have "stored_ok (store_env rs) (ikey rs i) v" using assms(1) v(1) by (auto simp: wf_store_def wf_redis_def)
  then have "r_instance v = i" by (simp add: stored_ok_def stored_instance_def)
  then show ?thesis using v by blast
qed

lemma kick_task_Some:
  assumes "kick_task L s io dialled (Some c) S = Some (addr, md, q)" "wf_store L (lg_routes s) S" "new_service L cfg = Inr s"
  shows "md = [''Bearer '' @ lg_kick s] \<and> kq_request q = [] \<and> kq_target q = Some c \<and> kq_reason q = KICK_REASON_REPLACED \<and>
    (\<exists>g b. g \<in> set (lg_grants s) \<and> cg_address g = addr \<and> cg_identity g = Some b \<and> kq_comet q = Some b \<and>
       valid_comet L (Some b) \<and> ci_instance b = cn_instance c)"
proof -
  obtain x lease where x: "fst (st_resolve L (lg_routes s) io [cn_instance c] S) = Inr [x]" "cr_state x = LeaseState (Some lease)"
    and a: "kick_allowed s lease" and e: "addr = cl_address lease" "md = [''Bearer '' @ lg_kick s]"
      "q = \<lparr>kq_request = [], kq_comet = cl_identity lease, kq_target = Some c, kq_reason = KICK_REASON_REPLACED\<rparr>"
    using assms(1) by (auto simp: kick_task_def split: sum.splits list.splits comet_state.splits option.splits if_splits)
  obtain v where v: "comet_lease_of (Some v) = Some lease" "r_instance v = cn_instance c" using st_resolve_one [OF assms(2) x] by blast
  then have l: "cl_identity lease = Some \<lparr>ci_instance = cn_instance c, ci_boot = r_boot v\<rparr>" by (auto simp: comet_lease_of_def)
  obtain g where g: "g \<in> set (lg_grants s)" "ci_instance (the (cg_identity g)) = cn_instance c" "ci_boot (the (cg_identity g)) = r_boot v"
    "cg_address g = addr" using a l e by (auto simp: kick_allowed_def list_ex_iff)
  have "valid_comet L (cg_identity g)" using g(1) new_service_ok [OF assms(3)] by blast
  then obtain b where b: "cg_identity g = Some b" by (auto simp: valid_comet_def split: option.splits)
  have "b = \<lparr>ci_instance = cn_instance c, ci_boot = r_boot v\<rparr>" using g(2,3) b by (cases b) simp
  then show ?thesis using e g b l \<open>valid_comet L (cg_identity g)\<close> by auto
qed

lemma rpc_kick_accepted:
  assumes "kq_comet q = Some (h_identity h)" "valid_comet L (Some (h_identity h))" "kq_request q = []" "kq_target q = Some c"
    and "kq_reason q = KICK_REASON_REPLACED" "valid_connection L (Some c)" "cn_instance c = ci_instance (h_identity h)" "hub_ready L h"
  shows "\<exists>out. rpc_kick L cr [''Bearer '' @ logic_token cr] Answered (Some q) h = (Inr out, hub_release L c h)"
proof -
  have "rpc_authorize cr [''Bearer '' @ logic_token cr] (logic_token cr) = Inr ()"
    by (simp only: rpc_authorize_def list.case Let_def has_prefix_append trim_prefix_append simp_thms if_True if_False)
  moreover have "validate_comet L (Some (h_identity h)) = Inr ()" using assms(2) validate_comet_iff by simp
  then have "check_identity L h (kq_comet q) (kq_request q) = Inr ()" using assms(1,3)
    by (simp add: check_identity_def valid_request_id_def all_bytes_def)
  moreover have "validate_connection L (Some c) (ci_instance (h_identity h)) = Inr ()"
    using assms(6,7) validate_connection_iff by (auto simp: valid_connection_def)
  then have u: "hub_unregister L Answered (Some c) h = op_hub_unregister c h"
    using assms(8) by (simp add: hub_unregister_def hub_call_def hub_ready_def)
  have "\<exists>out. fst (op_hub_unregister c h) = Inr out" by (simp add: op_hub_unregister_def split: option.split)
  then obtain out where "hub_unregister L Answered (Some c) h = (Inr out, hub_release L c h)"
    unfolding hub_release_def u by (metis prod.collapse)
  ultimately show ?thesis using assms(4,5) by (simp add: rpc_kick_def)
qed


text \<open>C28. A kick reaches the replaced connection and nothing else: when a user's connection takes over the route, the kick that the
  worker takes next carries the kick token only to the granted address of the boot that holds the instance's lease; the Comet of
  this boot accepts it, closes the replaced connection if it is still the user's current one, and changes no other.\<close>

theorem kicks_reach_only_the_replaced:
  assumes "new_service L cfg = Inr s" "ts_documented L" "wf_store L (lg_routes s) (lo_redis st)"
    and "clock_ok (store_env (lg_routes s)) (io_now (le_redis env 0))" "lo_kicks st = []"
    and "logic_connect L J s env md req st = (Inr (Some route, Some old), st')" "rl_identity old \<noteq> rl_identity route"
    and "kick_worker L s io dialled st' = (Some (addr, token, q), st'')"
    and "hub_ready L h" "kq_comet q = Some (h_identity h)" "logic_token cr = lg_kick s"
  shows "\<exists>c out h'. rl_identity old = Some c \<and> lo_kicks st'' = [] \<and>
    (\<exists>g \<in> set (lg_grants s). cg_address g = addr \<and> cg_identity g = Some (h_identity h)) \<and>
    rpc_kick L cr token Answered (Some q) h = (Inr out, h') \<and>
    hub_current h' = (if hub_current h (cn_user c) = Some c then (hub_current h)(cn_user c := None) else hub_current h)"
proof -
  let ?rs = "lg_routes s" let ?io = "le_redis env 0" let ?S = "lo_redis st"
  obtain cq user expires where q0: "req = Some cq"
    and con: "fst (st_connect L ?rs ?io (qc_comet cq) user (qc_connection cq) (qc_token cq) expires ?S) = Inr (Some route, Some old)"
    and st': "st' = (let st1 = st\<lparr>lo_redis := snd (st_connect L ?rs ?io (qc_comet cq) user (qc_connection cq) (qc_token cq) expires ?S)\<rparr> in
       if \<not> same_connection (rl_identity old) (rl_identity route) then queue_kick (rl_identity old) st1 else st1)"
    using assms(6)
    by (cases req) (auto simp: logic_connect_def case_prod_beta Let_def split: sum.splits if_splits option.splits bool.splits)
  obtain b where b: "qc_comet cq = Some b" using con by (auto simp: st_connect_def valid_comet_def split: if_splits option.splits)
  have heal: "healthy ?io"
    using con by (auto simp: st_connect_def healthy_def run_script_def Let_def split: if_splits option.splits)
  have ok: "connect_ok L ?rs (io_now ?io) b user (qc_connection cq) (qc_token cq) expires ?S"
    using con st_connect_refused [OF assms(3), of ?io b user "qc_connection cq" "qc_token cq" expires] unfolding b by force
  note eq = st_connect_ok [OF heal assms(3) ok]
  obtain v where v: "?S (rkey ?rs user) = Some v" "rl_identity old = Some (lease_conn v)"
    using con unfolding b eq by (auto simp: route_lease_of_def live_route_def split: option.splits if_splits)
  obtain n where n: "rl_identity route = Some n" using con unfolding b eq by (auto simp: route_lease_of_def)
  let ?c = "lease_conn v"
  have vc: "valid_connection L (Some ?c)" using stored_connection_valid [OF assms(3) v(1)] by simp
  have kicks: "lo_kicks st' = [Some ?c]" using st' v(2) n assms(5,7) by (auto simp: queue_kick_def Let_def)
  have wf: "wf_store L ?rs (lo_redis st')"
    using st' st_connect_wf [OF assms(3,4,2)] by (auto simp: queue_kick_def Let_def)
  have k: "kick_task L s io dialled (Some ?c) (lo_redis st') = Some (addr, token, q)" "lo_kicks st'' = []"
    using assms(8) kicks by (auto simp: kick_worker_def)
  note t = kick_task_Some [OF k(1) wf assms(1)]
  obtain g where g: "g \<in> set (lg_grants s)" "cg_address g = addr" "cg_identity g = Some (h_identity h)"
    "valid_comet L (Some (h_identity h))" "ci_instance (h_identity h) = cn_instance ?c"
    using t assms(10) by auto
  obtain out where "rpc_kick L cr [''Bearer '' @ logic_token cr] Answered (Some q) h = (Inr out, hub_release L ?c h)"
    using rpc_kick_accepted [OF assms(10) g(4) _ _ _ vc g(5) [symmetric] assms(9), of cr] t by blast
  then have "rpc_kick L cr token Answered (Some q) h = (Inr out, hub_release L ?c h)" using t assms(11) by simp
  then show ?thesis using v(2) k(2) g hub_release_eq [OF assms(9), of ?c] by blast
qed

section \<open>Applied\<close>

definition token_of :: "char \<Rightarrow> string" where "token_of c = replicate 32 c"

definition config_a :: logic_config where
  "config_a = \<lparr>cf_routes = Some store_a, cf_messages = True,
     cf_publisher = Some \<lparr>pb_brokers = [''127.0.0.1:9092''], pb_topic = ''fable.push.v1'', pb_closed = False, pb_close_err = False\<rparr>,
     cf_secret = token_of (CHR ''s''), cf_job = token_of (CHR ''j''), cf_kick = token_of (CHR ''k''),
     cf_comets = [\<lparr>cg_identity = Some comet_a, cg_address = ''127.0.0.1:9001'', cg_token = token_of (CHR ''c'')\<rparr>], cf_exists = True\<rparr>"

definition service_a :: logic_service where
  "service_a = projr (new_service doc_lib config_a)"

definition grant_a :: comet_grant where
  "grant_a = \<lparr>cg_identity = Some comet_a, cg_address = ''127.0.0.1:9001'', cg_token = token_of (CHR ''c'')\<rparr>"

lemma service_a_new: "new_service doc_lib config_a = Inr service_a"
  and service_a_simps [simp]: "lg_routes service_a = store_a" "lg_job service_a = token_of (CHR ''j'')" "lg_kick service_a = token_of (CHR ''k'')"
    "lg_grants service_a = [grant_a]"
proof -
  have v: "valid_token (token_of c) = (33 \<le> code c \<and> code c \<le> 126)" for c
    by (simp add: valid_token_def token_of_def all_bytes_def list_all_iff)
  have ne: "token_of c = token_of d \<longleftrightarrow> c = d" for c d by (auto simp: token_of_def)
  have l: "local_address ''127.0.0.1:9001''" by code_simp
  have c: "valid_comet doc_lib (Some comet_a)" by simp
  have g: "comet_a = \<lparr>ci_instance = ci_instance comet_a, ci_boot = ci_boot comet_a\<rparr>" by simp
  have "\<exists>p. new_service doc_lib config_a = Inr \<lparr>lg_routes = store_a, lg_publisher = p, lg_secret = token_of (CHR ''s''),
      lg_job = token_of (CHR ''j''), lg_kick = token_of (CHR ''k''), lg_grants = [grant_a]\<rparr>"
    using v ne l c by (simp add: new_service_def config_a_def grant_a_def) (simp add: token_of_def)
  then show "new_service doc_lib config_a = Inr service_a" "lg_routes service_a = store_a" "lg_job service_a = token_of (CHR ''j'')"
    "lg_kick service_a = token_of (CHR ''k'')" "lg_grants service_a = [grant_a]"
    by (auto simp: service_a_def)
qed

definition logic_env_a :: logic_env where
  "logic_env_a = \<lparr>le_redis = \<lambda>_. io_at 1000000, le_user = \<lambda>_. Inr True, le_save = save_env_a,
     le_publish = \<lambda>_. \<lparr>pn_nil = False, pn_ctx = None, pn_bounded = None, pn_write = WriteDone\<rparr>, le_request = uuid_c, le_client = uuid_c\<rparr>"

definition logic_a :: logic_state where
  "logic_a = \<lparr>lo_redis = redis_b, lo_db = db_a, lo_kicks = [], lo_sent = []\<rparr>"

lemma redis_b_wf [simp]: "wf_store doc_lib store_a redis_b"
  using redis_b_inv by (simp add: route_inv_def)

definition bearer_of :: "string \<Rightarrow> string list" where "bearer_of t = [''Bearer '' @ t]"

lemma bearer_bearer_of [simp]: "bearer (bearer_of t) = t"
  by (simp only: bearer_def bearer_of_def list.case has_prefix_append trim_prefix_append if_True)

lemma auth_a: "comet_auth service_a (bearer_of (token_of (CHR ''c''))) None (cn_instance conn_a) = Inr grant_a"
  "comet_auth service_a (bearer_of (token_of (CHR ''c''))) (Some comet_a) '''' = Inr grant_a"
  by (simp_all add: comet_auth_def grant_a_def conn_a_def comet_a_def)

lemma redis_b_instance [simp]: "redis_b (ikey store_a ''comet-1'') = Some inst_a" "redis_b (rkey store_a user_a) = Some route_a"
  using instance_route_keys [OF store_a_env, of "''comet-1''" user_a] by (simp_all add: redis_b_def redis_a_def)

lemma resolve_a: "fst (st_resolve doc_lib store_a (io_at 1000000) [''comet-1''] redis_b) =
  Inr [\<lparr>cr_instance = ''comet-1'', cr_state = LeaseState (comet_lease_of (Some inst_a))\<rparr>]"
proof -
  have "valid_batch [''comet-1''] valid_instance" by code_simp
  then show ?thesis using st_resolve_eq [of "io_at 1000000" doc_lib store_a redis_b "[''comet-1'']"]
    by (simp add: comet_status_def) (simp add: inst_a_def)
qed

lemma lookup_a: "\<exists>r. fst (st_lookup doc_lib store_a (io_at 1000000) [user_a] redis_b) = Inr r"
proof -
  have "valid_batch [user_a] (\<lambda>u. valid_id doc_lib u (CHR ''U''))" by code_simp
  then show ?thesis using st_lookup_eq [of "io_at 1000000" doc_lib store_a redis_b "[user_a]"] by simp
qed

lemma logic_roles_fenced_witness:
  "fst (logic_exec doc_lib plain_dbms \<lparr>jw_method = \<lambda>_. None, jw_claims = \<lambda>_ _. None\<rparr> service_a logic_env_a (bearer_of (token_of (CHR ''j'')))
     (CallLookup (Some \<lparr>qb_ids = [user_a], qb_request = []\<rparr>)) logic_a) = None \<and>
   cg_token grant_a \<noteq> token_of (CHR ''j'')"
proof -
  let ?J = "\<lparr>jw_method = \<lambda>_. None, jw_claims = \<lambda>_ _. None\<rparr>"
  let ?call = "CallLookup (Some \<lparr>qb_ids = [user_a], qb_request = []\<rparr>)"
  let ?md = "bearer_of (token_of (CHR ''j''))"
  obtain e st' where x: "logic_exec doc_lib plain_dbms ?J service_a logic_env_a ?md ?call logic_a = (e, st')" by fastforce
  have "e = None"
    using x lookup_a by (auto simp: rpc_outcome_def lookup_routes_def job_auth_def routed_call_def logic_env_a_def logic_a_def
        valid_request_id_def all_bytes_def)
  then show ?thesis using logic_roles_fenced [OF service_a_new x] x by auto
qed

definition submit_a :: submit_request where
  "submit_a = \<lparr>qs_identity = Some conn_a, qs_client = uuid_a, qs_dest = Some to_b, qs_content = ''hi'', qs_request = []\<rparr>"

lemma connection_a: "connection_auth doc_lib service_a (io_at 1000000) (bearer_of (token_of (CHR ''c''))) (Some conn_a) logic_a = (Inr grant_a, logic_a)"
proof -
  have i: "cn_instance conn_a = ''comet-1''" by (simp add: conn_a_def)
  have "fst (connection_auth doc_lib service_a (io_at 1000000) (bearer_of (token_of (CHR ''c''))) (Some conn_a) logic_a) = Inr grant_a"
    using auth_a(1) resolve_a unfolding i
    by (simp add: connection_auth_def i case_prod_beta Let_def logic_a_def comet_lease_of_def) (simp add: inst_a_def grant_a_def comet_a_def)
  then show ?thesis using connection_auth_state by (metis prod.collapse)
qed

lemma check_a: "\<exists>lease. st_check doc_lib store_a (io_at 1000000) (Some conn_a) redis_b = (Inr lease, redis_b)"
proof -
  have "route_live 1000000 route_a" "instance_live store_a 1000000 redis_b (r_instance route_a) (r_boot route_a)" 
    by code_simp (simp add: instance_live_def route_a_def connect_lease_def comet_a_def, simp add: inst_a_def)
  then show ?thesis using st_check_eq [of "io_at 1000000" doc_lib store_a redis_b conn_a] by (simp add: check_verdict_def)
qed

lemma submit_a_runs: "\<exists>res st'. submit_message doc_lib plain_dbms service_a logic_env_a (bearer_of (token_of (CHR ''c''))) (Some submit_a) logic_a = (Inr res, st') \<and>
  \<not> sr_replayed res"
proof -
  have i: "\<lparr>in_sender = user_a, in_client = uuid_a, in_dest = Some to_b, in_content = ''hi''\<rparr> = input_a" by (simp add: input_a_def)
  obtain lease where l: "st_check doc_lib store_a (io_at 1000000) (Some conn_a) redis_b = (Inr lease, redis_b)" using check_a by blast
  have u: "valid_uuid doc_lib uuid_a" "utf8_valid ''hi''" by code_simp+
  show ?thesis using connection_a l sample_saves(1,2) u
    by (simp add: submit_message_def submit_a_def logic_env_a_def valid_request_id_def all_bytes_def)
      (simp add: logic_a_def i dispatch_def split: prod.split)
qed

lemma submitted_messages_reach_job_witness:
  "\<exists>r \<in> set (db_messages (lo_db (snd (submit_message doc_lib plain_dbms service_a logic_env_a (bearer_of (token_of (CHR ''c''))) (Some submit_a) logic_a)))).
     ms_content r = ''hi''"
proof -
  obtain res st' where r: "submit_message doc_lib plain_dbms service_a logic_env_a (bearer_of (token_of (CHR ''c''))) (Some submit_a) logic_a = (Inr res, st')"
    "\<not> sr_replayed res" using submit_a_runs by blast
  have "groups_bounded (lo_db logic_a)" "db_next (lo_db logic_a) + int (sv_gap (le_save logic_env_a)) < 2 ^ 63"
    by (simp_all add: groups_bounded_def logic_a_def db_a_def logic_env_a_def save_env_a_def)
  from submitted_messages_reach_job [OF plain_documented doc_lib_documented _ this r] show ?thesis
    using r(1) by (auto simp: logic_a_def submit_a_def)
qed

definition jwt_a :: jwt_lib where
  "jwt_a = \<lparr>jw_method = \<lambda>_. Some ''HS256'', jw_claims = \<lambda>_ _. Some (user_a, unix_milli 2000000)\<rparr>"

definition connect_a :: connect_request where
  "connect_a = \<lparr>qc_comet = Some comet_a, qc_connection = uuid_b, qc_token = token_b, qc_jwt = ''jwt'', qc_request = []\<rparr>"

lemma connect_b_ok: "connect_ok doc_lib store_a 1000000 comet_a user_a uuid_b token_b (unix_milli 2000000) redis_b"
proof -
  have b: "conn_b = \<lparr>cn_user = user_a, cn_instance = ci_instance comet_a, cn_connection = uuid_b, cn_token = token_b\<rparr>"
    by (simp add: conn_b_def comet_a_def)
  have "ikey store_a (ci_instance comet_a) \<noteq> rkey store_a user_a"
    using instance_route_keys [OF store_a_env, of "ci_instance comet_a" user_a] by simp
  then show ?thesis using connect_a_ok b by (simp add: connect_ok_def instance_live_def redis_b_def)
qed

definition kick_cred_a :: rpc_credentials where
  "kick_cred_a = \<lparr>job_token = token_of (CHR ''j''), logic_token = token_of (CHR ''k''), admin_token = token_of (CHR ''a'')\<rparr>"

lemma hub_b_ready: "hub_ready doc_lib hub_b" "h_identity hub_b = comet_a"
proof -
  have b: "h_identity hub_b = comet_a \<and> \<not> h_done hub_b"
    by (simp add: hub_b_def hub_register_def hub_call_def op_hub_register_def hub_a_def client_def set_client_def comet_a_def)
  then show "hub_ready doc_lib hub_b" "h_identity hub_b = comet_a" using hub_b_inv by (simp_all add: hub_ready_def)
qed

lemma kicks_reach_only_the_replaced_witness:
  "\<exists>addr token q st out h'. kick_worker doc_lib service_a (io_at 1000000) True
       (snd (logic_connect doc_lib jwt_a service_a logic_env_a (bearer_of (token_of (CHR ''c''))) (Some connect_a) logic_a)) =
       (Some (addr, token, q), st) \<and> addr = ''127.0.0.1:9001'' \<and> rpc_kick doc_lib kick_cred_a token Answered (Some q) hub_b = (Inr out, h')"
proof -
  let ?v = "connect_lease store_a 1000000 comet_a user_a uuid_b token_b (unix_milli 2000000)"
  let ?S = "redis_b(rkey store_a user_a \<mapsto> ?v)"
  let ?md = "bearer_of (token_of (CHR ''c''))"
  have io: "le_redis logic_env_a 0 = io_at 1000000" by (simp add: logic_env_a_def)
  have c: "st_connect doc_lib store_a (io_at 1000000) (Some comet_a) user_a uuid_b token_b (unix_milli 2000000) redis_b =
      (Inr (route_lease_of (Some ?v), route_lease_of (live_route store_a 1000000 redis_b user_a)), ?S)"
    using st_connect_ok [OF io_at_simps(1) redis_b_wf, of 1000000 comet_a user_a uuid_b token_b "unix_milli 2000000"] connect_b_ok by simp
  have "route_live 1000000 route_a" by code_simp
  then have live: "live_route store_a 1000000 redis_b user_a = Some route_a" by (simp add: live_route_def)
  define route where "route = the (route_lease_of (Some ?v))"
  define old where "old = the (route_lease_of (Some route_a))"
  have ids: "rl_identity old = Some conn_a" "rl_identity route = Some conn_b"
    by (simp_all add: old_def route_def route_lease_of_def conn_b_def comet_a_def)
  have p: "parse_jwt jwt_a ''jwt'' secret = Some (user_a, unix_milli 2000000)" for secret
    by (simp add: parse_jwt_def jwt_a_def user_a_def)
  obtain st' where con: "logic_connect doc_lib jwt_a service_a logic_env_a ?md (Some connect_a) logic_a = (Inr (Some route, Some old), st')"
    and st': "st' = logic_a\<lparr>lo_redis := ?S, lo_kicks := [Some conn_a]\<rparr>"
    using auth_a(2) p c io live ids
    by (simp add: logic_connect_def connect_a_def valid_request_id_def all_bytes_def Let_def)
      (simp add: logic_env_a_def logic_a_def old_def route_def route_lease_of_def queue_kick_def)
  have inst: "?S (ikey store_a ''comet-1'') = Some inst_a"
    using instance_route_keys [OF store_a_env, of "''comet-1''" user_a] by simp
  have "stored_ok (store_env store_a) (rkey store_a user_a) ?v" by code_simp
  then have wf: "wf_store doc_lib store_a ?S" using redis_b_wf by (simp add: wf_store_def wf_redis_upd)
  have "valid_batch [''comet-1''] valid_instance" by code_simp
  then have res: "fst (st_resolve doc_lib store_a (io_at 1000000) [''comet-1''] ?S) =
      Inr [\<lparr>cr_instance = ''comet-1'', cr_state = LeaseState (comet_lease_of (Some inst_a))\<rparr>]"
    using st_resolve_eq [OF io_at_simps(1) wf, of "[''comet-1'']"] inst by (simp add: comet_status_def) (simp add: inst_a_def)
  have i: "cn_instance conn_a = ''comet-1''" by (simp add: conn_a_def)
  have lease: "comet_lease_of (Some inst_a) = Some \<lparr>cl_identity = Some comet_a, cl_address = ''127.0.0.1:9001'', cl_draining = False,
      cl_deadline = Some (ts_new (unix_milli 1060000))\<rparr>"
    by (simp add: comet_lease_of_def inst_a_def comet_a_def empty_lease_def)
  have kick: "kick_worker doc_lib service_a (io_at 1000000) True st' = (Some (''127.0.0.1:9001'', [''Bearer '' @ token_of (CHR ''k'')],
      \<lparr>kq_request = [], kq_comet = Some comet_a, kq_target = Some conn_a, kq_reason = KICK_REASON_REPLACED\<rparr>), st'\<lparr>lo_kicks := []\<rparr>)"
    using res i lease by (simp add: kick_worker_def kick_task_def st' kick_allowed_def grant_a_def)
  have w: "wf_store doc_lib (lg_routes service_a) (lo_redis logic_a)" by (simp add: logic_a_def)
  have k: "clock_ok (store_env (lg_routes service_a)) (io_now (le_redis logic_env_a 0))" by (simp add: io)
  have e: "lo_kicks logic_a = []" "rl_identity old \<noteq> rl_identity route" by (simp_all add: logic_a_def ids)
  have q: "kq_comet \<lparr>kq_request = [], kq_comet = Some comet_a, kq_target = Some conn_a, kq_reason = KICK_REASON_REPLACED\<rparr> = Some (h_identity hub_b)"
    "logic_token kick_cred_a = lg_kick service_a" by (simp_all add: hub_b_ready kick_cred_a_def)
  from kicks_reach_only_the_replaced [OF service_a_new doc_lib_documented(2) w k e(1) con e(2) kick hub_b_ready(1) q] show ?thesis
    using con kick by auto
qed

end
