(* ===== verification/SocketSession.thy ===== *)
theory SocketSession
  imports SocketHandler LogicDelivery
begin

text \<open>
  What the socket handler promises: a socket is open only under a lease for its own identity and is released when it ends, and
  its frames become the submissions they ask for, each answered in order with what Logic replied.
\<close>

section \<open>Lemmas on sockets\<close>

lemma route_deadline_Inr:
  assumes "route_deadline L now route i auth = Inr safe"
  shows "\<exists>r expires deadline. route = Some r \<and> same_connection (rl_identity r) (Some i) \<and> rl_auth r = Some expires \<and>
    rl_deadline r = Some deadline \<and> now < safe \<and> safe + safety_margin \<le> as_time deadline \<and> safe + safety_margin \<le> as_time expires \<and>
    safe + safety_margin \<le> auth"
  using assms by (auto simp: route_deadline_def Let_def split: option.splits if_splits)

lemma open_socket_Served:
  assumes "open_socket L env ad a h ph = ((Served p b safe, ph'), h')"
  shows "p = ad_protocol ad \<and> b = a \<and> (\<exists>route. sk_reply env = Inr (Some route) \<and>
    route_deadline L (sk_now2 env) route (ad_identity ad) (ad_expires ad) = Inr safe) \<and> sk_activate env = Answered \<and>
    ph_active ph' = ph_active ph + 1 \<and> sk_upgraded env"
  using assms
  by (auto simp: open_socket_def reject_socket_def hub_activate_def hub_call_def bindE_def Let_def
      split: sum.splits option.splits if_splits prod.splits call_fate.splits)

lemma open_socket_inv: "hub_inv L h \<Longrightarrow> hub_inv L (snd (open_socket L env ad a h ph))"
  using hub_activate_inv [of L h "sk_activate env" a]
  by (auto simp: open_socket_def case_prod_beta Let_def split: sum.split option.split)

lemma open_socket_active: "fst (fst (open_socket L env ad a h ph)) = NotUpgraded \<or> (\<exists>k. fst (fst (open_socket L env ad a h ph)) = Rejected k) \<Longrightarrow>
   ph_active (snd (fst (open_socket L env ad a h ph))) = ph_active ph"
  by (auto simp: open_socket_def reject_socket_def case_prod_beta Let_def split: sum.splits option.splits if_splits)

lemma unregister_done: "h_done h \<Longrightarrow> snd (hub_unregister L fate i h) = h"
  by (auto simp: hub_unregister_def hub_call_def split: sum.split call_fate.split)

section \<open>Identities\<close>

text \<open>Connections keep their place and their identity.\<close>

definition ids_kept :: "hub \<Rightarrow> hub \<Rightarrow> bool" where
  "ids_kept h g = (\<exists>cs. map c_identity (h_heap g) = map c_identity (h_heap h) @ cs)"

lemma ids_keptI: "map c_identity (h_heap g) = map c_identity (h_heap h) \<Longrightarrow> ids_kept h g"
  by (simp add: ids_kept_def)

lemma ids_kept_refl [simp, intro]: "ids_kept h h"
  by (simp add: ids_kept_def)

lemma ids_kept_trans: "ids_kept h g \<Longrightarrow> ids_kept g k \<Longrightarrow> ids_kept h k"
  by (auto simp: ids_kept_def)

lemma ids_kept_at:
  assumes "ids_kept h g" and "a < length (h_heap h)"
  shows "a < length (h_heap g) \<and> c_identity (h_heap g ! a) = c_identity (h_heap h ! a)"
proof -
  obtain cs where m: "map c_identity (h_heap g) = map c_identity (h_heap h) @ cs" using assms(1) by (auto simp: ids_kept_def)
  then have "length (h_heap h) \<le> length (h_heap g)" by (metis length_append length_map le_add1)
  moreover have "map c_identity (h_heap g) ! a = map c_identity (h_heap h) ! a" using m assms(2) by (simp add: nth_append)
  ultimately show ?thesis using assms(2) by simp
qed

lemma update_ids: "c_identity c = c_identity (cs ! a) \<Longrightarrow> map c_identity (cs[a := c]) = map c_identity cs"
  by (cases "a < length cs") (auto simp: nth_list_update intro!: nth_equalityI)

lemma ids_simps [simp]:
  "map c_identity (h_heap (mark_slow a h)) = map c_identity (h_heap h)"
  "map c_identity (h_heap (close_conn a h)) = map c_identity (h_heap h)"
  by (simp_all add: mark_slow_def close_conn_def update_ids)

lemma close_all_ids [simp]: "map c_identity (h_heap (close_all h)) = map c_identity (h_heap h)"
proof -
  have "map c_identity (h_heap (fold (\<lambda>(u, a) g. del_client u (close_conn a g)) xs g)) = map c_identity (h_heap g)" for xs g
    by (induction xs arbitrary: g) auto
  then show ?thesis by (simp add: close_all_def)
qed

lemma hub_call_ids: "ids_kept h (snd (f h)) \<Longrightarrow> ids_kept h (snd (hub_call fate f h))"
  by (cases fate) (auto simp: hub_call_def)

lemma op_hub_register_ids: "ids_kept h (snd (op_hub_register i p h))"
proof -
  have heap: "h_heap (set_client u b g) = h_heap g" for u b g by (simp add: set_client_def)
  show ?thesis by (auto simp: op_hub_register_def ids_kept_def Let_def heap split: option.split)
qed

lemma op_hub_unregister_ids: "ids_kept h (snd (op_hub_unregister i h))"
  by (auto simp: op_hub_unregister_def intro!: ids_keptI split: option.split)

lemma deliver_one_ids: "ids_kept h (snd (deliver_one now m i h))"
  by (auto simp: deliver_one_def Let_def update_ids intro!: ids_keptI split: option.split)

lemma deliver_loop_ids: "ids_kept h (snd (deliver_loop clock n m is h))"
proof (induction "is" arbitrary: n h)
  case (Cons i "is")
  then show ?case using ids_kept_trans [OF deliver_one_ids Cons.IH] by (simp add: case_prod_beta Let_def)
qed simp

lemma queue_control_ids: "ids_kept h (snd (queue_control L ctx pick a ctl h))"
proof -
  have "ids_kept h (snd (hub_unregister L fate i (mark_slow a (h\<lparr>h_queueFull := n\<rparr>))))" for fate i n
    by (rule ids_kept_trans [of _ "mark_slow a (h\<lparr>h_queueFull := n\<rparr>)"])
      (auto simp: hub_unregister_def intro!: ids_keptI hub_call_ids op_hub_unregister_ids split: sum.split)
  then show ?thesis by (auto simp: queue_control_def update_ids intro!: ids_keptI split: option.split queue_case.split)
qed

lemma hub_exec_ids: "ids_kept h (hub_exec L ev h)"
proof (cases ev)
  case (EvDeliver fate clock task m ts)
  have "ids_kept h (snd (hub_call fate (\<lambda>g. let (rs, g') = deliver_loop clock 0 (the m) (map the ts) g in (Inr rs, g')) h))"
    by (rule hub_call_ids) (simp add: case_prod_beta Let_def deliver_loop_ids)
  then show ?thesis using EvDeliver by (simp add: hub_deliver_def split: sum.split)
next
  case (EvRegister fate i p)
  then show ?thesis by (auto simp: hub_register_def intro: hub_call_ids op_hub_register_ids split: sum.split)
next
  case (EvUnregister fate i)
  then show ?thesis by (auto simp: hub_unregister_def intro: hub_call_ids op_hub_unregister_ids split: sum.split)
next
  case (EvDrain fate now d)
  have "ids_kept h (snd (hub_call fate (op_hub_drain d) h))" 
    by (rule hub_call_ids, rule ids_keptI) (simp add: op_hub_drain_def Let_def)
  then show ?thesis using EvDrain by (simp add: hub_drain_def)
next
  case (EvActivate fate a)
  have "ids_kept h (snd (hub_call fate (op_hub_activate a) h))"
    by (rule hub_call_ids, rule ids_keptI) (simp add: op_hub_activate_def update_ids)
  then show ?thesis using EvActivate by (simp add: hub_activate_def case_prod_beta Let_def)
next
  case (EvControl ctx pick a ctl)
  then show ?thesis by (simp add: queue_control_ids)
qed (auto simp: hub_timer_def hub_close_def take_outbound_def take_control_def update_ids intro!: ids_keptI split: list.split)

lemma hub_run_ids: "ids_kept h (fold (hub_exec L) evs h)"
proof (induction evs arbitrary: h)
  case (Cons ev evs)
  then show ?case using ids_kept_trans [OF hub_exec_ids Cons.IH] by simp
qed simp

section \<open>The life of a socket\<close>

text \<open>A finished hub has no clients left.\<close>

definition hub_shut :: "hub \<Rightarrow> bool" where
  "hub_shut h = (h_done h \<longrightarrow> client h = Map.empty)"

lemma shut_call:
  assumes "hub_shut h" and "h_done (snd (f h)) = h_done h"
  shows "hub_shut (snd (hub_call fate f h))"
  using assms by (auto simp: hub_call_def hub_shut_def split: call_fate.split)

lemma op_done [simp]:
  "h_done (snd (op_hub_register i p h)) = h_done h" "h_done (snd (op_hub_unregister i h)) = h_done h"
  "h_done (snd (op_hub_drain d h)) = h_done h" "h_done (snd (op_hub_activate a h)) = h_done h"
  by (auto simp: op_hub_register_def op_hub_unregister_def op_hub_drain_def op_hub_activate_def Let_def set_client_def
      split: option.split simp del: close_conn_open)

lemma deliver_one_done [simp]: "h_done (snd (deliver_one now m i h)) = h_done h"
  by (auto simp: deliver_one_def Let_def split: option.split simp del: close_conn_open)

lemma deliver_loop_done [simp]: "h_done (snd (deliver_loop clock n m is h)) = h_done h"
  by (induction "is" arbitrary: n h) (auto simp: case_prod_beta Let_def)

lemma client_heap [simp]:
  "client (upd_conn a f h) = client h" "client (mark_slow a h) = client h" "client (h\<lparr>h_queueFull := n\<rparr>) = client h"
  by (simp_all add: client_def)

lemma shut_queue_control: "hub_shut h \<Longrightarrow> hub_shut (snd (queue_control L ctx pick a ctl h))"
proof -
  assume s: "hub_shut h"
  have "hub_shut (mark_slow a (h\<lparr>h_queueFull := n\<rparr>))" for n using s by (simp add: hub_shut_def)
  then have "hub_shut (snd (hub_unregister L fate i (mark_slow a (h\<lparr>h_queueFull := n\<rparr>))))" for fate i n
    by (auto simp: hub_unregister_def intro: shut_call split: sum.split)
  then show ?thesis using s by (auto simp: queue_control_def hub_shut_def split: option.split queue_case.split)
qed

lemma shut_exec:
  assumes "hub_inv L h" and "hub_shut h"
  shows "hub_shut (hub_exec L ev h)"
proof (cases ev)
  case EvClose
  have "hub_inv L (h\<lparr>h_done := True\<rparr>)" using assms(1) by simp
  then have "client (close_all (h\<lparr>h_done := True\<rparr>)) = Map.empty" by (rule close_all_inv)
  then show ?thesis using EvClose assms(2) by (simp add: hub_close_def hub_shut_def client_def)
next
  case EvTimer
  have "client (close_all h) = Map.empty" using assms(1) by (rule close_all_inv)
  then show ?thesis using EvTimer assms(2) by (simp add: hub_timer_def hub_shut_def client_def)
next
  case (EvDeliver fate clock task m ts)
  then show ?thesis using assms(2) by (auto simp: hub_deliver_def case_prod_beta Let_def intro!: shut_call split: sum.split)
next
  case (EvControl ctx pick a ctl)
  then show ?thesis using shut_queue_control [OF assms(2)] by simp
next
  case (EvRegister fate i p)
  then show ?thesis using assms(2) by (auto simp: hub_register_def intro!: shut_call split: sum.split)
next
  case (EvUnregister fate i)
  then show ?thesis using assms(2) by (auto simp: hub_unregister_def intro!: shut_call split: sum.split)
next
  case (EvDrain fate now d)
  then show ?thesis using assms(2) by (auto simp: hub_drain_def intro!: shut_call)
next
  case (EvActivate fate a)
  then show ?thesis using assms(2) by (auto simp: hub_activate_def case_prod_beta Let_def intro!: shut_call)
qed (use assms(2) in \<open>auto simp: hub_shut_def take_outbound_def take_control_def split: list.split\<close>)

lemma shut_run:
  assumes "hub_inv L h" and "hub_shut h"
  shows "hub_shut (fold (hub_exec L) evs h)"
  using assms
proof (induction evs arbitrary: h)
  case (Cons ev evs)
  then show ?case using shut_exec [OF Cons.prems] hub_run_inv [of L h "[ev]"] by simp
qed simp

lemma new_hub_shut: "new_hub L cid q = Inr h \<Longrightarrow> hub_shut h"
  by (auto simp: new_hub_def bindE_eq_Inr hub_shut_def)

text \<open>After an unregistration that was not cut off, every connection of the identity is closed.\<close>

lemma unregister_settles:
  assumes "hub_inv L h" and "hub_shut h" and "\<forall>x. fate \<noteq> Skipped x"
    and "c \<in> set (h_heap (snd (hub_unregister L fate (Some i) h)))" and "c_identity c = i"
  shows "c_done c"
proof (rule ccontr)
  define g where "g = snd (hub_unregister L fate (Some i) h)"
  assume "\<not> c_done c"
  have inv: "hub_inv L g" unfolding g_def by (rule hub_unregister_inv [OF assms(1)])
  obtain a where a: "a < length (h_heap g)" "h_heap g ! a = c" using assms(4) unfolding g_def [symmetric] by (metis in_set_conv_nth)
  have cl: "client g (cn_user i) = Some a"
    using inv a \<open>\<not> c_done c\<close> assms(5) by (auto simp: hub_inv_def table_ok_def)
  then have cur: "hub_current g (cn_user i) = Some i" using a assms(5) by (simp add: hub_current_def)
  show False
  proof (cases "h_done h")
    case True
    then have "g = h" unfolding g_def by (rule unregister_done)
    then show False using cl assms(2) True by (simp add: hub_shut_def)
  next
    case False
    have "g = snd (hub_unregister L Answered (Some i) h)"
      using assms(3) False unfolding g_def by (cases fate) (auto simp: hub_unregister_def hub_call_def split: sum.split)
    then have "g = hub_release L i h" by (simp add: hub_release_def)
    moreover have "hub_ready L h" using assms(1) False by (simp add: hub_ready_def)
    ultimately show False using hub_release_eq [of L h i] cur by (auto split: if_splits)
  qed
qed

lemma register_identity:
  assumes "hub_inv L h" and "hub_register L fate (Some i) p h = (Inr a, h')"
  shows "a < length (h_heap h') \<and> c_identity (h_heap h' ! a) = i"
proof -
  have "op_hub_register i p h = (Inr a, h')"
    using assms(2) by (auto simp: hub_register_def hub_call_def split: sum.splits call_fate.splits if_splits)
  moreover have "length (h_heap (close_conn b g)) = length (h_heap g)" for b g by (simp add: close_conn_def upd_conn_def)
  ultimately show ?thesis using hub_invD(1) [OF assms(1)]
    by (auto simp: op_hub_register_def Let_def set_client_def nth_append split: option.splits if_splits simp del: close_conn_open)
qed

text \<open>The identity a socket gets: the token of the request is checked, and the rest is the hub's and generated.\<close>

definition socket_identity ::
  "lib \<Rightarrow> jwt_lib \<Rightarrow> socket_env \<Rightarrow> bool option \<Rightarrow> string option \<Rightarrow> string \<Rightarrow> upgrade_request \<Rightarrow> hub \<Rightarrow> public_handler \<Rightarrow>
   conn_id \<Rightarrow> string \<Rightarrow> int \<Rightarrow> bool" where
  "socket_identity L J env ready random uuid q h ph i jwt expires =
     (ug_method q = ''GET'' \<and> ug_upgrade q \<and> ug_version q = ''13'' \<and> ug_protocol q \<in> {[], ''legacy'', ''v2''} \<and>
      ug_origin q \<in> set (ph_origins ph) \<and> handler_ready h ready \<and>
      jwt = (if ug_token q = [] then trim_prefix (ug_authorization q) ''Bearer '' else ug_token q) \<and>
      parse_jwt J jwt (hc_secret (ph_config ph)) = Some (cn_user i, expires) \<and> valid_id L (cn_user i) (CHR ''U'') \<and>
      sk_now env + safety_margin < expires \<and> cn_instance i = ci_instance (h_identity h) \<and> cn_connection i = uuid \<and>
      (\<exists>bytes. random = Some bytes \<and> cn_token i = b64_encode bytes))"

text \<open>What Logic is told: a connect of this identity at most once, and its disconnect last.\<close>

definition socket_told :: "hub \<Rightarrow> conn_id \<Rightarrow> string \<Rightarrow> int \<Rightarrow> socket_call list \<Rightarrow> bool" where
  "socket_told h i jwt expires calls =
     (calls = [CallDisconnectRoute i] \<or>
      (\<exists>t. t + safety_margin \<le> expires \<and>
         calls = [CallConnectRoute \<lparr>qc_comet = Some (h_identity h), qc_connection = cn_connection i, qc_token = cn_token i,
                    qc_jwt = jwt, qc_request = []\<rparr> t, CallDisconnectRoute i]))"

text \<open>A served socket: its connection has this identity, and Logic's lease is for it and covers the safe time.\<close>

definition socket_open :: "socket_env \<Rightarrow> upgrade_request \<Rightarrow> hub \<Rightarrow> conn_id \<Rightarrow> int \<Rightarrow> string \<Rightarrow> nat \<Rightarrow> int \<Rightarrow> socket_call list \<Rightarrow> bool" where
  "socket_open env q h' i expires p a safe calls =
     (p = (if ug_protocol q = [] then ''legacy'' else ug_protocol q) \<and> a < length (h_heap h') \<and> c_identity (h_heap h' ! a) = i \<and>
      sk_upgraded env \<and> length calls = 2 \<and>
      (\<exists>r deadline. sk_reply env = Inr (Some (Some r)) \<and> rl_identity r = Some i \<and> rl_deadline r = Some deadline \<and>
         sk_now2 env < safe \<and> safe + safety_margin \<le> as_time deadline \<and> safe + safety_margin \<le> expires))"

lemma admit_socket_identity:
  assumes "admit_socket L J ph h ready (sk_now env) random uuid q = Inr ad"
  shows "socket_identity L J env ready random uuid q h ph (ad_identity ad) (ad_jwt ad) (ad_expires ad) \<and>
    ad_protocol ad = (if ug_protocol q = [] then ''legacy'' else ug_protocol q)"
  using assms by (auto simp: admit_socket_def socket_identity_def Let_def split: if_splits option.splits prod.splits)

lemma open_socket_ids: "ids_kept h (snd (open_socket L env ad a h ph))"
proof -
  have "ids_kept h (snd (hub_activate fate a h))" for fate using hub_exec_ids [of h L "EvActivate fate a"] by simp
  then show ?thesis by (auto simp: open_socket_def case_prod_beta Let_def split: sum.split option.split)
qed

lemma open_socket_shut: "hub_inv L h \<Longrightarrow> hub_shut h \<Longrightarrow> hub_shut (snd (open_socket L env ad a h ph))"
  using shut_exec [of L h "EvActivate (sk_activate env) a"]
  by (auto simp: open_socket_def case_prod_beta Let_def split: sum.split option.split)

lemma serve_socket_runs:
  assumes "hub_inv L h" and "hub_shut h" and "zero_ns \<le> sk_now env"
    and "serve_socket L J env ready random uuid q h ph = (out, ph', h', calls)"
  obtains (early) k where "out = Rejected k" "h' = h" "calls = []" "ph_active ph' = ph_active ph"
  | (taken) i jwt expires k where "socket_identity L J env ready random uuid q h ph i jwt expires" "socket_told h i jwt expires calls"
    "hub_inv L k" "hub_shut k" "h' = snd (hub_unregister L (sk_cleanup env) (Some i) k)" "ph_active ph' = ph_active ph"
    "\<And>p a safe. out = Served p a safe \<Longrightarrow> socket_open env q h' i expires p a safe calls"
proof (cases "admit_socket L J ph h ready (sk_now env) random uuid q")
  case (Inl k)
  then show thesis using assms(4) early by (auto simp: serve_socket_def reject_socket_def)
next
  case (Inr ad)
  note adm = Inr and ad = admit_socket_identity [OF Inr]
  let ?i = "ad_identity ad"
  obtain r h1 where reg: "hub_register L (sk_register env) (Some ?i) True h = (r, h1)" by (cases "hub_register L (sk_register env) (Some ?i) True h")
  have i1: "hub_inv L h1" using hub_register_inv [OF assms(1)] reg by (metis snd_conv)
  have s1: "hub_shut h1" using shut_exec [OF assms(1,2), of "EvRegister (sk_register env) (Some ?i) True"] reg by simp
  show thesis
  proof (cases r)
    case (Inl err)
    have "out = Rejected 503" "h' = snd (hub_unregister L (sk_cleanup env) (Some ?i) h1)" "calls = [CallDisconnectRoute ?i]"
      "ph_active ph' = ph_active ph"
      using assms(4) adm reg Inl by (auto simp: serve_socket_def reject_socket_def Let_def)
    then show thesis using taken [of ?i "ad_jwt ad" "ad_expires ad" h1] ad i1 s1 by (simp add: socket_told_def)
  next
    case (Inr a)
    define h2 where "h2 = fold (hub_exec L) (sk_waiting env) h1"
    obtain o2 ph2 h3 where op: "open_socket L env ad a h2 ph = ((o2, ph2), h3)" by (metis prod.collapse)
    have i2: "hub_inv L h2" "hub_shut h2" using hub_run_inv [OF i1] shut_run [OF i1 s1] by (simp_all add: h2_def)
    have i3: "hub_inv L h3" "hub_shut h3"
      using open_socket_inv [OF i2(1), of env ad a ph] open_socket_shut [OF i2, of env ad a ph] op by simp_all
    define h4 where "h4 = (case o2 of Served _ _ _ \<Rightarrow> fold (hub_exec L) (sk_session env) h3 | _ \<Rightarrow> h3)"
    have i4: "hub_inv L h4" "hub_shut h4"
      using i3 hub_run_inv [OF i3(1)] shut_run [OF i3] by (simp_all add: h4_def split: socket_outcome.split)
    have k3: "ids_kept h2 h3" using open_socket_ids [of h2 L env ad a ph] op by simp
    have k4: "ids_kept h3 h4" by (simp add: h4_def hub_run_ids split: socket_outcome.split)
    have e: "out = o2" "h' = snd (hub_unregister L (sk_cleanup env) (Some ?i) h4)"
      "calls = [CallConnectRoute \<lparr>qc_comet = Some (h_identity h), qc_connection = cn_connection ?i, qc_token = cn_token ?i,
         qc_jwt = ad_jwt ad, qc_request = []\<rparr> (socket_deadline ph (sk_now env) (ad_expires ad - safety_margin)), CallDisconnectRoute ?i]"
      "ph_active ph' = (case o2 of Served _ _ _ \<Rightarrow> ph_active ph2 - 1 | _ \<Rightarrow> ph_active ph2)"
      using assms(4) adm reg Inr op
      by (auto simp: serve_socket_def Let_def h2_def [symmetric] h4_def split: socket_outcome.splits)
    have k5: "ids_kept h4 h'" using hub_exec_ids [of h4 L "EvUnregister (sk_cleanup env) (Some ?i)"] e(2) by simp
    have k: "ids_kept h1 h'"
      unfolding h2_def
      using ids_kept_trans [OF ids_kept_trans [OF ids_kept_trans [OF hub_run_ids [of h1 L "sk_waiting env"] k3 [unfolded h2_def]] k4] k5] by simp
    have at: "a < length (h_heap h')" "c_identity (h_heap h' ! a) = ?i"
      using register_identity [OF assms(1), of "sk_register env" ?i True a h1] reg Inr ids_kept_at [OF k] by simp_all
    have t: "socket_deadline ph (sk_now env) (ad_expires ad - safety_margin) + safety_margin \<le> ad_expires ad"
      using ad assms(3) by (auto simp: socket_deadline_def Let_def socket_identity_def)
    have active: "ph_active ph' = ph_active ph"
      using e(4) open_socket_Served [of L env ad a h2 ph] open_socket_active [of L env ad a h2 ph] op by (cases o2) auto
    have opened: "socket_open env q h' ?i (ad_expires ad) p b safe calls" if s: "out = Served p b safe" for p b safe
    proof -
      have sv: "p = ad_protocol ad" "b = a" "sk_upgraded env" 
        and "\<exists>route. sk_reply env = Inr (Some route) \<and> route_deadline L (sk_now2 env) route ?i (ad_expires ad) = Inr safe"
        using open_socket_Served [of L env ad a h2 ph] op e(1) s by blast+
      then obtain route where r: "sk_reply env = Inr (Some route)" "route_deadline L (sk_now2 env) route ?i (ad_expires ad) = Inr safe"
        by blast
      have "rl_identity x = Some ?i" if "same_connection (rl_identity x) (Some ?i)" for x using that by (cases "rl_identity x") auto
      then show ?thesis using route_deadline_Inr [OF r(2)] r(1) ad e(3) sv at by (auto simp: socket_open_def)
    qed
    have told: "socket_told h ?i (ad_jwt ad) (ad_expires ad) calls" using e(3) t by (auto simp: socket_told_def)
    show thesis using taken [OF conjunct1 [OF ad] told i4 e(2) active opened] .
  qed
qed

section \<open>Lemmas on frames\<close>

lemma queue_frame_kept: "hub_inv L h \<Longrightarrow> hub_inv L (snd (queue_frame L env a f c h))" "ids_kept h (snd (queue_frame L env a f c h))"
  by (simp_all add: queue_frame_def queue_control_inv queue_control_ids)

text \<open>The submission a frame asks for. A v2 frame is a strict JSON object of the event \<open>send_message\<close>; a legacy frame names the user
  of the connection as its sender and gets a generated client identifier.\<close>

definition frame_asks :: "lib \<Rightarrow> string \<Rightarrow> conn_id \<Rightarrow> read_env \<Rightarrow> submit_request \<Rightarrow> bool" where
  "frame_asks L protocol i env q =
     (0 < length (qs_content q) \<and> length (qs_content q) \<le> 16 * 1024 \<and>
      (if protocol = ''v2'' then
         \<exists>g. strict_json send_fields (rd_raw env) \<lparr>sf_event = [], sf_client = [], sf_receive = [], sf_type = [], sf_content = []\<rparr> = (False, g) \<and>
           sf_event g = ''send_message'' \<and> valid_uuid L (sf_client g) \<and>
           (\<exists>k. (sf_type g = ''user'' \<and> k = RECEIVE_TYPE_USER \<or> sf_type g = ''group'' \<and> k = RECEIVE_TYPE_GROUP) \<and>
              q = \<lparr>qs_identity = Some i, qs_client = sf_client g, qs_dest = Some \<lparr>d_type = k, d_id = sf_receive g\<rparr>,
                   qs_content = sf_content g, qs_request = rd_request env\<rparr>)
       else
         \<exists>g. strict_json legacy_fields (rd_raw env) \<lparr>lf_send = [], lf_receive = [], lf_content = [], lf_origin = 0, lf_type = 0\<rparr> = (False, g) \<and>
           lf_send g = cn_user i \<and> lf_origin g = 0 \<and>
           (\<exists>k. (lf_type g = 0 \<and> k = RECEIVE_TYPE_USER \<or> lf_type g = 1 \<and> k = RECEIVE_TYPE_GROUP) \<and>
              q = \<lparr>qs_identity = Some i, qs_client = rd_uuid env, qs_dest = Some \<lparr>d_type = k, d_id = lf_receive g\<rparr>,
                   qs_content = lf_content g, qs_request = rd_request env\<rparr>)))"

lemma read_request_asks: "(\<not> fst (read_request L protocol i env) \<longrightarrow> frame_asks L protocol i env (snd (read_request L protocol i env))) \<and>
   (fst (read_request L protocol i env) \<longrightarrow> \<not> frame_asks L protocol i env q)"
proof (cases "protocol = ''v2''")
  case True
  obtain x g where "strict_json send_fields (rd_raw env) \<lparr>sf_event = [], sf_client = [], sf_receive = [], sf_type = [], sf_content = []\<rparr> = (x, g)"
    by (metis prod.collapse)
  with True show ?thesis by (auto simp: read_request_def v2_request_def frame_asks_def Let_def)
next
  case False
  obtain x g where "strict_json legacy_fields (rd_raw env) \<lparr>lf_send = [], lf_receive = [], lf_content = [], lf_origin = 0, lf_type = 0\<rparr> = (x, g)"
    by (metis prod.collapse)
  with False show ?thesis by (auto simp: read_request_def legacy_request_def frame_asks_def Let_def)
qed

text \<open>The frame that answers a submission: a result exactly when Logic's reply says that it stored this client message, with a valid
  view and a known dispatch state; then it shows this reply. Otherwise it is the error of the reply.\<close>

definition answers_reply :: "lib \<Rightarrow> read_env \<Rightarrow> string \<Rightarrow> send_result_frame \<Rightarrow> bool" where
  "answers_reply L env cid f =
     (fr_event f = ''send_result'' \<and> fr_client f = cid \<and>
      (\<forall>x. fr_result f = Some x \<longleftrightarrow>
         (\<exists>r. rd_reply env = Inr (Some r) \<and> sr_stored r \<and> sr_client r = cid \<and> validate_message L (Some (sr_message r)) = Inr () \<and>
            sr_dispatch r \<noteq> DISPATCH_STATE_UNSPECIFIED \<and>
            x = \<lparr>ir_client = cid, ir_stored = True, ir_message = public_message (sr_message r),
                 ir_dispatch = dispatch_code (sr_dispatch r), ir_replayed = sr_replayed r\<rparr>)) \<and>
      fr_error f = (if fr_result f = None then Some (send_error (case rd_reply env of Inl e \<Rightarrow> Some e | Inr _ \<Rightarrow> None)) else None))"

lemma dispatch_code_nil: "dispatch_code d = [] \<longleftrightarrow> d = DISPATCH_STATE_UNSPECIFIED"
  by (cases d) (simp_all add: dispatch_code_def)

lemma result_frame_answers: "answers_reply L env cid (result_frame L cid (rd_reply env))"
  by (auto simp: answers_reply_def result_frame_def Let_def dispatch_code_nil split: sum.splits option.splits if_splits)

text \<open>What one message of the socket leads to.\<close>

definition turn_acts :: "lib \<Rightarrow> string \<Rightarrow> conn_id \<Rightarrow> read_env \<Rightarrow> read_act list \<Rightarrow> bool" where
  "turn_acts L protocol i env acts =
     (if rd_failed env \<or> \<not> rd_text env then acts = []
      else if \<exists>q. frame_asks L protocol i env q then
        \<exists>q f. frame_asks L protocol i env q \<and>
          (if protocol = ''v2'' then
             acts = [ReadSubmit q, ReadAnswer f (terminal_submit_error (case rd_reply env of Inl e \<Rightarrow> Some e | Inr _ \<Rightarrow> None))] \<and>
             answers_reply L env (qs_client q) f
           else acts = [ReadSubmit q])
      else
        \<exists>f. acts = (if protocol = ''v2'' then [ReadAnswer f False] else []) \<and> fr_result f = None \<and>
          fr_error f = Some \<lparr>ie_code = ''invalid_argument'', ie_retry = ''do_not_retry'', ie_request = []\<rparr>)"

lemma read_turn_acts:
  assumes "hub_inv L h" and "a < length (h_heap h)" and "i = c_identity (h_heap h ! a)" and "protocol = ''v2'' \<or> protocol = ''legacy''"
    and "read_turn L protocol env a h = (go, h', acts)"
  shows "hub_inv L h'" "ids_kept h h'" "turn_acts L protocol i env acts"
    "go \<Longrightarrow> \<not> rd_failed env \<and> rd_text env \<and> (\<forall>f. ReadAnswer f True \<notin> set acts)"
proof -
  define h1 where "h1 = fold (hub_exec L) (rd_waiting env) h"
  define h2 where "h2 = fold (hub_exec L) (rd_during env) h1"
  have inv: "hub_inv L h1" "hub_inv L h2" by (simp_all add: h1_def h2_def hub_run_inv assms(1))
  have k1: "ids_kept h h1" by (simp add: h1_def hub_run_ids)
  have k2: "ids_kept h h2" unfolding h2_def by (rule ids_kept_trans [OF k1 hub_run_ids])
  have i: "c_identity (h_heap h1 ! a) = i" using ids_kept_at [OF k1 assms(2)] assms(3) by simp
  obtain bad q where q: "read_request L protocol i env = (bad, q)" by (cases "read_request L protocol i env")
  have asks: "\<not> bad \<Longrightarrow> frame_asks L protocol i env q" "bad \<Longrightarrow> \<not> frame_asks L protocol i env p" for p
    using read_request_asks [of L protocol i env] q by auto
  note t = assms(5)[unfolded read_turn_def h1_def [symmetric] Let_def i q prod.case h2_def [symmetric]]
  show "hub_inv L h'" using t inv queue_frame_kept(1) [OF inv(1)] queue_frame_kept(1) [OF inv(2)]
    by (auto simp: case_prod_beta split: if_splits)
  show "ids_kept h h'" using t k1 k2 ids_kept_trans [OF k1 queue_frame_kept(2)] ids_kept_trans [OF k2 queue_frame_kept(2)]
    by (auto simp: case_prod_beta split: if_splits)
  show "turn_acts L protocol i env acts"
  proof (cases "rd_failed env \<or> \<not> rd_text env")
    case True
    then show ?thesis using t by (auto simp: turn_acts_def split: if_splits)
  next
    case ok: False
    show ?thesis
    proof (cases bad)
      case True
      then have "\<not> (\<exists>q. frame_asks L protocol i env q)" using asks(2) by blast
      moreover have "acts = (if protocol = ''v2'' then [ReadAnswer (error_frame (qs_client q)) False] else [])"
        using t ok True by (auto simp: case_prod_beta split: if_splits)
      ultimately show ?thesis using ok unfolding turn_acts_def
        by (simp del: ex_simps split del: if_split) (auto simp: error_frame_def intro: exI [of _ "error_frame (qs_client q)"])
    next
      case False
      let ?f = "result_frame L (qs_client q) (rd_reply env)"
      have "acts = (if protocol = ''v2'' then [ReadSubmit q, ReadAnswer ?f (terminal_submit_error (case rd_reply env of Inl e \<Rightarrow> Some e | Inr _ \<Rightarrow> None))]
          else [ReadSubmit q])"
        using t ok False assms(4) by (auto simp: case_prod_beta split: if_splits)
      then have "\<exists>q f. frame_asks L protocol i env q \<and>
          (if protocol = ''v2'' then
             acts = [ReadSubmit q, ReadAnswer f (terminal_submit_error (case rd_reply env of Inl e \<Rightarrow> Some e | Inr _ \<Rightarrow> None))] \<and>
             answers_reply L env (qs_client q) f
           else acts = [ReadSubmit q])"
        using asks(1) [OF False] result_frame_answers by (intro exI [of _ q] exI [of _ ?f]) simp
      then show ?thesis using ok asks(1) [OF False] unfolding turn_acts_def by auto
    qed
  qed
  show "\<not> rd_failed env \<and> rd_text env \<and> (\<forall>f. ReadAnswer f True \<notin> set acts)" if "go"
    using t that by (auto simp: case_prod_beta split: if_splits)
qed

lemma read_run_acts:
  assumes "hub_inv L h" and "a < length (h_heap h)" and "i = c_identity (h_heap h ! a)" and "protocol = ''v2'' \<or> protocol = ''legacy''"
    and "read_run L protocol envs a h = (go, h', acts)"
  shows "hub_inv L h' \<and>
    (\<exists>turns. acts = concat turns \<and> length turns \<le> length envs \<and> (go \<longrightarrow> length turns = length envs) \<and>
       (\<forall>n < length turns. turn_acts L protocol i (envs ! n) (turns ! n) \<and>
          (go \<or> Suc n < length turns \<longrightarrow>
             \<not> rd_failed (envs ! n) \<and> rd_text (envs ! n) \<and> (\<forall>f. ReadAnswer f True \<notin> set (turns ! n)))))"
  using assms
proof (induction envs arbitrary: h go h' acts)
  case (Cons env envs)
  obtain b h1 as where t: "read_turn L protocol env a h = (b, h1, as)" by (metis prod.collapse)
  note s = read_turn_acts [OF Cons.prems(1-4) t]
  show ?case
  proof (cases b)
    case False
    then have "go = False" "acts = as" "h' = h1" using Cons.prems(5) t by auto
    then show ?thesis using s(1,3) by (intro conjI exI [of _ "[as]"]) auto
  next
    case True
    obtain x h2 more where r: "read_run L protocol envs a h1 = (x, h2, more)" by (metis prod.collapse)
    have e: "go = x" "h' = h2" "acts = as @ more" using Cons.prems(5) t r True by auto
    have at: "a < length (h_heap h1)" "i = c_identity (h_heap h1 ! a)" using ids_kept_at [OF s(2) Cons.prems(2)] Cons.prems(3) by simp_all
    obtain turns where IH: "hub_inv L h2" "more = concat turns" "length turns \<le> length envs" "x \<longrightarrow> length turns = length envs"
      "\<forall>n < length turns. turn_acts L protocol i (envs ! n) (turns ! n) \<and>
          (x \<or> Suc n < length turns \<longrightarrow>
             \<not> rd_failed (envs ! n) \<and> rd_text (envs ! n) \<and> (\<forall>f. ReadAnswer f True \<notin> set (turns ! n)))"
      using Cons.IH [OF s(1) at Cons.prems(4) r] by blast
    have "\<forall>n < length (as # turns). turn_acts L protocol i ((env # envs) ! n) ((as # turns) ! n) \<and>
          (x \<or> Suc n < length (as # turns) \<longrightarrow>
             \<not> rd_failed ((env # envs) ! n) \<and> rd_text ((env # envs) ! n) \<and> (\<forall>f. ReadAnswer f True \<notin> set ((as # turns) ! n)))"
      using IH(5) s(3) s(4) [OF True] by (auto simp: less_Suc_eq_0_disj nth_Cons split: nat.split)
    then show ?thesis using IH(1-4) unfolding e by (intro conjI exI [of _ "as # turns"]) auto
  qed
qed auto

section \<open>Lemmas on heartbeats\<close>

lemma heartbeat_turn_kept:
  assumes "hub_inv L h"
  shows "hub_inv L (snd (snd (fst (heartbeat_turn L env a auth safe ph h))))"
    "ids_kept h (snd (snd (fst (heartbeat_turn L env a auth safe ph h))))"
proof -
  define h1 where "h1 = fold (hub_exec L) (hb_waiting env) h"
  define h2 where "h2 = snd (queue_control L (hb_ctx env) (hb_pick env) a ping_control h1)"
  have inv: "hub_inv L h1" "hub_inv L h2" "hub_inv L (fold (hub_exec L) evs h2)" for evs
    using assms by (simp_all add: h1_def h2_def hub_run_inv queue_control_inv)
  have k1: "ids_kept h h1" by (simp add: h1_def hub_run_ids)
  have k2: "ids_kept h h2" unfolding h2_def by (rule ids_kept_trans [OF k1 queue_control_ids])
  have k3: "ids_kept h (fold (hub_exec L) evs h2)" for evs by (rule ids_kept_trans [OF k2 hub_run_ids])
  show "hub_inv L (snd (snd (fst (heartbeat_turn L env a auth safe ph h))))"
    using assms inv by (simp add: heartbeat_turn_def Let_def h1_def [symmetric] case_prod_beta h2_def [symmetric] split: sum.split option.split)
  show "ids_kept h (snd (snd (fst (heartbeat_turn L env a auth safe ph h))))"
    using k1 k2 k3 by (simp add: heartbeat_turn_def Let_def h1_def [symmetric] case_prod_beta h2_def [symmetric] split: sum.split option.split)
qed

lemma heartbeat_turn_leased:
  assumes "a < length (h_heap h)" and "safe + safety_margin \<le> auth" and "zero_ns \<le> hb_now env"
    and "heartbeat_turn L env a auth safe ph h = ((r, ph', h'), calls)"
  shows "list_all (\<lambda>c. \<exists>t. c = CallHeartbeatRoute (c_identity (h_heap h ! a)) t \<and> t + safety_margin \<le> auth) calls"
    and "r = Some n \<Longrightarrow> n + safety_margin \<le> auth"
proof -
  have at: "c_identity (h_heap (snd (queue_control L ctx pick a ctl (fold (hub_exec L) evs h))) ! a) = c_identity (h_heap h ! a)"
    for ctx pick ctl evs
    using ids_kept_at [OF ids_kept_trans [OF hub_run_ids queue_control_ids] assms(1)] by simp
  have d: "hb_now env < safe \<Longrightarrow> socket_deadline ph (hb_now env) safe \<le> safe"
    using assms(3) by (auto simp: socket_deadline_def Let_def)
  show "list_all (\<lambda>c. \<exists>t. c = CallHeartbeatRoute (c_identity (h_heap h ! a)) t \<and> t + safety_margin \<le> auth) calls"
    using assms(2,4) d at by (auto simp: heartbeat_turn_def Let_def case_prod_beta split: if_splits sum.splits option.splits)
  show "r = Some n \<Longrightarrow> n + safety_margin \<le> auth"
    using assms(2,4) by (auto simp: heartbeat_turn_def Let_def case_prod_beta dest: route_deadline_Inr split: if_splits sum.splits option.splits)
qed

text \<open>Heartbeats renew the route, never the token: no call and no safe time passes the token's expiry.\<close>

lemma heartbeats_never_outlive_token:
  assumes "hub_inv L h" and "a < length (h_heap h)" and "safe + safety_margin \<le> auth" and "\<forall>env \<in> set envs. zero_ns \<le> hb_now env"
    and "heartbeat_run L envs a auth safe ph h = ((r, ph', h'), calls)"
  shows "hub_inv L h' \<and> list_all (\<lambda>c. \<exists>t. c = CallHeartbeatRoute (c_identity (h_heap h ! a)) t \<and> t + safety_margin \<le> auth) calls \<and>
    (\<forall>n. r = Some n \<longrightarrow> n + safety_margin \<le> auth)"
  using assms
proof (induction envs arbitrary: safe ph h r ph' h' calls)
  case (Cons env envs)
  obtain b p1 h1 cs where t: "heartbeat_turn L env a auth safe ph h = ((b, p1, h1), cs)" by (metis prod.collapse)
  have k: "hub_inv L h1" "ids_kept h h1" using heartbeat_turn_kept [OF Cons.prems(1), of env a auth safe ph] t by simp_all
  note l = heartbeat_turn_leased [OF Cons.prems(2,3) _ t]
  have z: "zero_ns \<le> hb_now env" using Cons.prems(4) by simp
  show ?case
  proof (cases b)
    case None
    then show ?thesis using Cons.prems(5) t k l(1) [OF z] by simp
  next
    case (Some n)
    obtain x p2 h2 more where r: "heartbeat_run L envs a auth n p1 h1 = ((x, p2, h2), more)" by (metis prod.collapse)
    have at: "a < length (h_heap h1)" "c_identity (h_heap h1 ! a) = c_identity (h_heap h ! a)"
      using ids_kept_at [OF k(2) Cons.prems(2)] by simp_all
    show ?thesis using Cons.IH [OF k(1) at(1) l(2) [OF z Some] _ r] Cons.prems(4,5) t r Some l(1) [OF z] at(2) by auto
  qed
qed auto

section \<open>Properties\<close>

text \<open>C29. On any hub that ran from its start, finished or not: a socket refused before it has an identity changes nothing. Once it has
  one, the identity is the user of the checked token of the request, this Comet, the generated connection and the random token;
  Logic is told at most one connect, for exactly this identity and token and with a deadline the margin before the token's end, and
  last of all the disconnect of exactly this identity. Whatever happened in between, an uncertain connect, a replacement, a finished
  hub, every connection of this identity is closed afterwards and it is not the current one, unless the unregistration of the
  cleanup was itself cut off before the hub ran it. A socket is served only on a connection of this identity and under Logic's lease
  for it, with a safe time before the end of the lease and of the token by the margin. The count of active sockets is restored.\<close>

theorem sockets_leased_and_released:
  assumes "new_hub L cid bound = Inr h0" and "h = fold (hub_exec L) evs h0" and "zero_ns \<le> sk_now env"
    and "serve_socket L J env ready random uuid q h ph = (out, ph', h', calls)"
  shows "hub_inv L h' \<and> ph_active ph' = ph_active ph \<and>
    (if calls = [] then h' = h \<and> (\<exists>k. out = Rejected k)
     else \<exists>i jwt expires.
       socket_identity L J env ready random uuid q h ph i jwt expires \<and> socket_told h i jwt expires calls \<and>
       ((\<forall>x. sk_cleanup env \<noteq> Skipped x) \<longrightarrow> (\<forall>c \<in> set (h_heap h'). c_identity c = i \<longrightarrow> c_done c) \<and> hub_current h' (cn_user i) \<noteq> Some i) \<and>
       (\<forall>p a safe. out = Served p a safe \<longrightarrow> socket_open env q h' i expires p a safe calls))"
proof -
  have inv: "hub_inv L h" "hub_shut h"
    using hub_run_inv [OF new_hub_inv [OF assms(1)]] shut_run [OF new_hub_inv [OF assms(1)] new_hub_shut [OF assms(1)]] assms(2) by simp_all
  from inv assms(3,4) show ?thesis
  proof (cases rule: serve_socket_runs)
    case (early k)
    then show ?thesis using inv(1) by simp
  next
    case (taken i jwt expires k)
    have h': "hub_inv L h'" using hub_unregister_inv [OF taken(3)] taken(5) by simp
    have settled: "\<forall>c \<in> set (h_heap h'). c_identity c = i \<longrightarrow> c_done c" if "\<forall>x. sk_cleanup env \<noteq> Skipped x"
      using unregister_settles [OF taken(3,4) that] taken(5) by blast
    have gone: "hub_current h' (cn_user i) \<noteq> Some i" if "\<forall>c \<in> set (h_heap h'). c_identity c = i \<longrightarrow> c_done c"
    proof
      assume "hub_current h' (cn_user i) = Some i"
      then obtain a where "client h' (cn_user i) = Some a" "c_identity (h_heap h' ! a) = i" by (auto simp: hub_current_def)
      then show False using hub_invD(1,3) [OF h'] that by auto
    qed
    have "calls \<noteq> []" using taken(2) by (auto simp: socket_told_def)
    moreover have "(\<forall>x. sk_cleanup env \<noteq> Skipped x) \<longrightarrow> (\<forall>c \<in> set (h_heap h'). c_identity c = i \<longrightarrow> c_done c) \<and> hub_current h' (cn_user i) \<noteq> Some i"
      using settled gone by blast
    ultimately show ?thesis using taken(1,2,6,7) h' by (simp only: if_False simp_thms) blast
  qed
qed

definition handler_a :: public_handler where
  "handler_a = \<lparr>ph_config = \<lparr>hc_secret = token_of (CHR ''s''), hc_token = token_of (CHR ''c''), hc_origins = [''https://chat.example''],
     hc_heartbeat = 20 * ns_per_s, hc_rpc = 2 * ns_per_s, hc_read = 60 * ns_per_s\<rparr>, ph_origins = [''https://chat.example''],
     ph_accepted = 0, ph_rejected = 0, ph_active = 0, ph_uncertain = 0, ph_failures = 0\<rparr>"

definition upgrade_a :: upgrade_request where
  "upgrade_a = \<lparr>ug_method = ''GET'', ug_key = ''AAAAAAAAAAAAAAAAAAAAAA=='', ug_upgrade = True, ug_version = ''13'', ug_protocol = ''v2'',
     ug_origin = ''https://chat.example'', ug_token = ''jwt'', ug_authorization = []\<rparr>"

definition lease_of_a :: route_lease where
  "lease_of_a = \<lparr>rl_identity = Some conn_a, rl_auth = Some (ts_new (unix_milli 2000000)), rl_deadline = Some (ts_new (unix_milli 1060000))\<rparr>"

definition socket_env_a :: socket_env where
  "socket_env_a = \<lparr>sk_now = unix_milli 1000000, sk_register = Answered, sk_waiting = [], sk_reply = Inr (Some (Some lease_of_a)),
     sk_now2 = unix_milli 1000000, sk_ctx = None, sk_activate = Answered, sk_upgraded = True, sk_session = [], sk_cleanup = Answered\<rparr>"

definition token_bytes_a :: string where
  "token_bytes_a = the (b64_decode (cn_token conn_a))"

lemma token_bytes_a: "b64_encode token_bytes_a = cn_token conn_a"
  unfolding token_bytes_a_def by code_simp

lemma jwt_a_parses: "parse_jwt jwt_a ''jwt'' secret = Some (user_a, unix_milli 2000000)"
  by (simp add: parse_jwt_def jwt_a_def user_a_def)

lemma socket_a_admitted:
  "admit_socket doc_lib jwt_a handler_a hub_a None (unix_milli 1000000) (Some token_bytes_a) (cn_connection conn_a) upgrade_a =
   Inr \<lparr>ad_protocol = ''v2'', ad_jwt = ''jwt'', ad_expires = unix_milli 2000000, ad_identity = conn_a\<rparr>"
proof -
  have k: "std_decode_lax ''AAAAAAAAAAAAAAAAAAAAAA=='' = Some (replicate 16 (CHR 0x00))" by code_simp
  have r: "handler_ready hub_a None" by (simp add: handler_ready_def hub_a_def)
  have t: "unix_milli 1000000 + safety_margin < unix_milli 2000000" by code_simp
  have i: "\<lparr>cn_user = user_a, cn_instance = ci_instance (h_identity hub_a), cn_connection = cn_connection conn_a,
      cn_token = cn_token conn_a\<rparr> = conn_a" by (simp add: hub_a_def comet_a_def conn_a_def)
  show ?thesis using k r t i
    by (simp add: admit_socket_def upgrade_a_def handler_a_def Let_def jwt_a_parses token_bytes_a del: fun_upd_apply)
qed

lemma socket_a_leased: "route_deadline doc_lib (unix_milli 1000000) (Some lease_of_a) conn_a (unix_milli 2000000) =
   Inr (unix_milli 1060000 - safety_margin)"
  by code_simp

lemma sockets_leased_and_released_witness:
  "\<exists>ph h calls. serve_socket doc_lib jwt_a socket_env_a None (Some token_bytes_a) (cn_connection conn_a) upgrade_a hub_a handler_a =
     (Served ''v2'' 0 (unix_milli 1060000 - safety_margin), ph, h, calls) \<and> ph_active ph = 0 \<and>
     (\<exists>i. c_identity (h_heap h ! 0) = i \<and> c_done (h_heap h ! 0) \<and> last calls = CallDisconnectRoute i)"
proof -
  define h1 where "h1 = snd (hub_register doc_lib Answered (Some conn_a) True hub_a)"
  have c: "ci_instance (h_identity hub_a) = ''comet-1''" by (simp add: hub_a_def comet_a_def)
  have reg: "hub_register doc_lib Answered (Some conn_a) True hub_a = (Inr 0, h1)"
    by (simp add: h1_def hub_register_def c hub_call_def) (simp add: hub_a_def op_hub_register_def client_def)
  have act: "fst (hub_activate Answered 0 h1) = Inr ()"
    by (simp add: h1_def hub_register_def c hub_activate_def hub_call_def)
      (simp add: hub_a_def op_hub_register_def op_hub_activate_def client_def set_client_def bindE_def)
  obtain h3 where act: "hub_activate Answered 0 h1 = (Inr (), h3)" using act by (metis prod.collapse)
  have env: "sk_now socket_env_a = unix_milli 1000000" "sk_register socket_env_a = Answered" "sk_waiting socket_env_a = []"
    "sk_reply socket_env_a = Inr (Some (Some lease_of_a))" "sk_now2 socket_env_a = unix_milli 1000000" "sk_ctx socket_env_a = None"
    "sk_activate socket_env_a = Answered" "sk_upgraded socket_env_a" by (simp_all add: socket_env_a_def)
  let ?ad = "\<lparr>ad_protocol = ''v2'', ad_jwt = ''jwt'', ad_expires = unix_milli 2000000, ad_identity = conn_a\<rparr>"
  obtain ph1 where op: "open_socket doc_lib socket_env_a ?ad 0 h1 handler_a =
      ((Served ''v2'' 0 (unix_milli 1060000 - safety_margin), ph1), h3)"
    using socket_a_leased act by (simp add: open_socket_def env)
  obtain ph h calls where r: "serve_socket doc_lib jwt_a socket_env_a None (Some token_bytes_a) (cn_connection conn_a) upgrade_a hub_a handler_a =
     (Served ''v2'' 0 (unix_milli 1060000 - safety_margin), ph, h, calls)" and l: "length calls = 2"
    using socket_a_admitted reg op by (simp add: serve_socket_def env Let_def)
  have z: "zero_ns \<le> sk_now socket_env_a" unfolding env(1) by code_simp
  have h0: "hub_a = fold (hub_exec doc_lib) [] hub_a" by simp
  have "calls \<noteq> []" using l by auto
  then obtain i jwt expires where s: "ph_active ph = ph_active handler_a" "socket_told hub_a i jwt expires calls"
    "(\<forall>x. sk_cleanup socket_env_a \<noteq> Skipped x) \<longrightarrow> (\<forall>c \<in> set (h_heap h). c_identity c = i \<longrightarrow> c_done c)"
    "socket_open socket_env_a upgrade_a h i expires ''v2'' 0 (unix_milli 1060000 - safety_margin) calls"
    using sockets_leased_and_released [OF hub_a_new h0 z r] by auto
  have "sk_cleanup socket_env_a = Answered" by (simp add: socket_env_a_def)
  moreover have "0 < length (h_heap h) \<and> c_identity (h_heap h ! 0) = i" using s(4) by (simp add: socket_open_def)
  moreover have "last calls = CallDisconnectRoute i" using s(2) by (auto simp: socket_told_def)
  moreover have "ph_active ph = 0" using s(1) by (simp add: handler_a_def)
  ultimately show ?thesis using s(3) r by auto
qed

text \<open>C30. The reader of a socket takes its messages one after the other. A message that is a frame of its protocol becomes exactly the
  submission the frame asks for: from the connection's own identity, to the user or group the frame names, with its content of 1 to
  16384 bytes and its client identifier (a generated one on a legacy socket, whose frame must name the connection's user). Under v2
  it is answered, before the next message, by one frame with its client identifier, which shows a result exactly when Logic's reply
  says that it stored this client message, with a valid view and a known dispatch state, and then shows this view, state and replay
  flag; otherwise it shows the error of the reply. Any other text is answered by an invalid-argument error and submits nothing.
  After a failed read, a binary message or a closing answer nothing more is submitted. Legacy sockets get no frames.\<close>

theorem frames_submitted_and_answered:
  assumes "hub_inv L h" and "a < length (h_heap h)" and "protocol = ''v2'' \<or> protocol = ''legacy''"
    and "read_run L protocol envs a h = (go, h', acts)"
  shows "hub_inv L h' \<and>
    (\<exists>turns. acts = concat turns \<and> length turns \<le> length envs \<and> (go \<longrightarrow> length turns = length envs) \<and>
       (\<forall>n < length turns. turn_acts L protocol (c_identity (h_heap h ! a)) (envs ! n) (turns ! n) \<and>
          (go \<or> Suc n < length turns \<longrightarrow>
             \<not> rd_failed (envs ! n) \<and> rd_text (envs ! n) \<and> (\<forall>f. ReadAnswer f True \<notin> set (turns ! n)))))"
  using read_run_acts [OF assms(1,2) refl assms(3,4)] .

definition tree_a :: "string \<Rightarrow> json" where
  "tree_a event = JObj [(''event'', JStr event), (''client_message_id'', JStr uuid_a), (''receive_id'', JStr user_b),
     (''receive_type'', JStr ''user''), (''content'', JStr ''hi'')]"

definition frame_a :: "string \<Rightarrow> string" where
  "frame_a event = json_print (tree_a event)"

definition reads_a :: "string \<Rightarrow> read_env" where
  "reads_a raw = \<lparr>rd_waiting = [], rd_failed = False, rd_text = True, rd_raw = raw, rd_request = uuid_c, rd_uuid = uuid_c,
     rd_reply = Inl \<lparr>st_code = Unauthenticated, st_details = []\<rparr>, rd_during = [], rd_ctx = None, rd_pick = 0\<rparr>"

lemma bare_a [simp]: "list_all bare uuid_a" "list_all bare user_b"
  using bare_uuid [of doc_lib uuid_a] bare_id [of doc_lib user_b "CHR ''U''"] by simp_all

lemma keys_a [simp]:
  "list_all bare ''event''" "list_all bare ''client_message_id''" "list_all bare ''receive_id''" "list_all bare ''receive_type''"
  "list_all bare ''content''" "list_all bare ''user''" "list_all bare ''hi''" "list_all bare ''read''" "list_all bare ''send_message''"
  by (simp_all add: bare_def)

lemma strict_a:
  assumes e: "list_all bare event"
  shows "strict_json send_fields (frame_a event) \<lparr>sf_event = [], sf_client = [], sf_receive = [], sf_type = [], sf_content = []\<rparr> =
   (False, \<lparr>sf_event = event, sf_client = uuid_a, sf_receive = user_b, sf_type = ''user'', sf_content = ''hi''\<rparr>)"
proof -
  have "lexes event" "lexes uuid_a" "lexes user_b" "lexes ''event''" "lexes ''client_message_id''" "lexes ''receive_id''"
    "lexes ''receive_type''" "lexes ''content''" "lexes ''user''" "lexes ''hi''"
    by (rule lexes_bare, simp add: e del: list.pred_inject)+
  then have "tree_ok 0 (tree_a event)" by (simp add: tree_a_def max_nesting_def)
  then obtain t where t: "json_first (frame_a event) = Some (tree_a event, t)" "skip_ws t = []"
    using json_text_print [of "tree_a event"] by (auto simp: json_text_def frame_a_def split: option.splits if_splits)
  have "list_all (\<lambda>c. code c < 128) x" if "list_all bare x" for x
    using that bare_plain by (auto simp: list_all_iff)
  note ascii = this [OF e] this [OF bare_a(1)] this [OF bare_a(2)]
  have u: "utf8_valid (frame_a event)"
    using ascii by (intro utf8_valid_ascii) (simp add: frame_a_def tree_a_def quote_char_def)
  have k: "unquote event = event" "unquote uuid_a = uuid_a" "unquote user_b = user_b"
    "unquote ''event'' = ''event''" "unquote ''client_message_id'' = ''client_message_id''" "unquote ''receive_id'' = ''receive_id''"
    "unquote ''receive_type'' = ''receive_type''" "unquote ''content'' = ''content''" "unquote ''user'' = ''user''" "unquote ''hi'' = ''hi''"
    by (rule unquote_bare, simp add: e del: list.pred_inject)+
  have "decode_saving send_fields [(''event'', JStr event), (''client_message_id'', JStr uuid_a), (''receive_id'', JStr user_b),
      (''receive_type'', JStr ''user''), (''content'', JStr ''hi'')] False
      \<lparr>sf_event = [], sf_client = [], sf_receive = [], sf_type = [], sf_content = []\<rparr> =
      (False, \<lparr>sf_event = event, sf_client = uuid_a, sf_receive = user_b, sf_type = ''user'', sf_content = ''hi''\<rparr>)"
    by (simp add: k decode_string_def find_field_def send_fields_def)
  then show ?thesis using t u by (simp add: strict_json_def tree_a_def)
qed

lemma request_a: "read_request doc_lib ''v2'' conn_a (reads_a (frame_a ''send_message'')) =
    (False, \<lparr>qs_identity = Some conn_a, qs_client = uuid_a, qs_dest = Some \<lparr>d_type = RECEIVE_TYPE_USER, d_id = user_b\<rparr>,
      qs_content = ''hi'', qs_request = uuid_c\<rparr>)"
  by (simp add: read_request_def v2_request_def reads_a_def strict_a [OF keys_a(9)])

lemma request_b: "\<exists>q. read_request doc_lib ''v2'' conn_a (reads_a (frame_a ''read'')) = (True, q)"
  by (simp add: read_request_def v2_request_def reads_a_def strict_a [OF keys_a(8)])

lemma hub_b_conn: "0 < length (h_heap hub_b)" "c_identity (h_heap hub_b ! 0) = conn_a"
  by (simp_all add: hub_b_def hub_register_def hub_call_def op_hub_register_def hub_a_def client_def set_client_def comet_a_def)

lemma reads_a_simps [simp]:
  "rd_waiting (reads_a f) = []" "\<not> rd_failed (reads_a f)" "rd_text (reads_a f)" "rd_during (reads_a f) = []"
  "rd_reply (reads_a f) = Inl \<lparr>st_code = Unauthenticated, st_details = []\<rparr>"
  by (simp_all add: reads_a_def)

lemma frames_submitted_and_answered_witness:
  "\<exists>h' f g. read_run doc_lib ''v2'' [reads_a (frame_a ''read''), reads_a (frame_a ''send_message'')] 0 hub_b =
       (False, h', [ReadAnswer f False,
          ReadSubmit \<lparr>qs_identity = Some conn_a, qs_client = uuid_a, qs_dest = Some \<lparr>d_type = RECEIVE_TYPE_USER, d_id = user_b\<rparr>,
             qs_content = ''hi'', qs_request = uuid_c\<rparr>, ReadAnswer g True]) \<and>
     hub_inv doc_lib h'"
proof -
  obtain q where q: "read_request doc_lib ''v2'' conn_a (reads_a (frame_a ''read'')) = (True, q)" using request_b by blast
  define h1 where "h1 = snd (queue_frame doc_lib (reads_a (frame_a ''read'')) 0 (error_frame (qs_client q)) False hub_b)"
  have "c_identity (h_heap h1 ! 0) = conn_a"
    using ids_kept_at [OF queue_frame_kept(2) hub_b_conn(1)] hub_b_conn(2) by (simp add: h1_def)
  then obtain h' f g where r: "read_run doc_lib ''v2'' [reads_a (frame_a ''read''), reads_a (frame_a ''send_message'')] 0 hub_b =
       (False, h', [ReadAnswer f False,
          ReadSubmit \<lparr>qs_identity = Some conn_a, qs_client = uuid_a, qs_dest = Some \<lparr>d_type = RECEIVE_TYPE_USER, d_id = user_b\<rparr>,
             qs_content = ''hi'', qs_request = uuid_c\<rparr>, ReadAnswer g True])"
    using q request_a
    by (simp add: read_turn_def hub_b_conn Let_def case_prod_beta h1_def [symmetric] terminal_submit_error_def)
  then show ?thesis using frames_submitted_and_answered [OF hub_b_inv hub_b_conn(1) _ r] by auto
qed
end
