(* ===== verification/RestCache.thy ===== *)
theory RestCache
  imports Database
begin

text \<open>
  The cache of the business services (internal/service/redisservice): the keys, the Redis commands with their failures, values kept as JSON,
  and the codes of a telephone number.
\<close>

section \<open>Keys\<close>

definition key_root :: string where "key_root = ''fable:v1:''"

definition auth_code_key :: "string \<Rightarrow> string" where "auth_code_key phone = key_root @ ''auth_code:'' @ phone"
definition user_info_key :: "string \<Rightarrow> string" where "user_info_key user = key_root @ ''user_info:'' @ user"
definition contact_list_key :: "string \<Rightarrow> string" where "contact_list_key user = key_root @ ''contact_user_list:'' @ user"
definition joined_list_key :: "string \<Rightarrow> string" where "joined_list_key user = key_root @ ''my_joined_group_list:'' @ user"
definition owned_list_key :: "string \<Rightarrow> string" where "owned_list_key user = key_root @ ''contact_mygroup_list:'' @ user"
definition group_info_key :: "string \<Rightarrow> string" where "group_info_key gid = key_root @ ''group_info:'' @ gid"
definition group_members_key :: "string \<Rightarrow> string" where "group_members_key gid = key_root @ ''group_memberlist:'' @ gid"
definition session_list_key :: "string \<Rightarrow> string" where "session_list_key user = key_root @ ''session_list:'' @ user"
definition group_sessions_key :: "string \<Rightarrow> string" where "group_sessions_key user = key_root @ ''group_session_list:'' @ user"

definition session_pair_key :: "string \<Rightarrow> string \<Rightarrow> string" where
  "session_pair_key user peer = (let ids = sort [user, peer] in key_root @ ''session:'' @ ids ! 0 @ '':'' @ ids ! 1)"

section \<open>Commands\<close>

datatype cache_error = CaUnavailable | CaNil | CaFailed | CaJson | CaMarshal

text \<open>A command that writes takes effect and is answered, fails, or takes effect while its answer is lost.\<close>

datatype redis_fate = RedisDone | RedisRefused | RedisLost

text \<open>Whether there is a client, which reads are answered, and the fate of the commands that write, in order.\<close>

record cache_env =
  ca_client :: bool
  ca_reads :: "string \<Rightarrow> bool"
  ca_fate :: "nat \<Rightarrow> redis_fate"

type_synonym cache = "string \<rightharpoonup> string"

definition cache_get :: "cache_env \<Rightarrow> string \<Rightarrow> cache \<Rightarrow> cache_error + string" where
  "cache_get env k c =
     (if \<not> ca_client env then Inl CaUnavailable
      else if \<not> ca_reads env k then Inl CaFailed
      else case c k of None \<Rightarrow> Inl CaNil | Some v \<Rightarrow> Inr v)"

definition cache_write :: "cache_env \<Rightarrow> nat \<Rightarrow> (cache \<Rightarrow> cache) \<Rightarrow> cache \<Rightarrow> cache_error option \<times> cache" where
  "cache_write env n f c =
     (if \<not> ca_client env then (Some CaUnavailable, c)
      else case ca_fate env n of
        RedisDone \<Rightarrow> (None, f c)
      | RedisRefused \<Rightarrow> (Some CaFailed, c)
      | RedisLost \<Rightarrow> (Some CaFailed, f c))"

definition cache_set :: "cache_env \<Rightarrow> nat \<Rightarrow> string \<Rightarrow> string \<Rightarrow> cache \<Rightarrow> cache_error option \<times> cache" where
  "cache_set env n k v = cache_write env n (\<lambda>c. c(k \<mapsto> v))"

definition cache_delete :: "cache_env \<Rightarrow> nat \<Rightarrow> string list \<Rightarrow> cache \<Rightarrow> cache_error option \<times> cache" where
  "cache_delete env n ks c = (if ks = [] then (None, c) else cache_write env n (\<lambda>c. c |` (- set ks)) c)"

definition cache_exists :: "cache_env \<Rightarrow> string \<Rightarrow> cache \<Rightarrow> cache_error + bool" where
  "cache_exists env k c =
     (if \<not> ca_client env then Inl CaUnavailable else if \<not> ca_reads env k then Inl CaFailed else Inr (c k \<noteq> None))"

text \<open>
  \<open>ScanDelete\<close>: what each \<open>SCAN\<close> answers is given, keys with the next cursor; the loop ends at cursor 0 or a failure, and the
  result is \<open>None\<close> when the given answers end before that.
\<close>

fun scan_loop ::
  "cache_env \<Rightarrow> nat \<Rightarrow> (cache_error + string list \<times> nat) list \<Rightarrow> cache \<Rightarrow> cache_error option option \<times> cache" where
  "scan_loop env n [] c = (None, c)"
| "scan_loop env n (Inl e # rs) c = (Some (Some e), c)"
| "scan_loop env n (Inr (ks, cursor) # rs) c =
     (let (e, c') = cache_delete env n ks c in
      if e \<noteq> None then (Some e, c')
      else if cursor = 0 then (Some None, c')
      else scan_loop env (Suc n) rs c')"

definition scan_delete ::
  "cache_env \<Rightarrow> (cache_error + string list \<times> nat) list \<Rightarrow> cache \<Rightarrow> cache_error option option \<times> cache" where
  "scan_delete env rs c = (if \<not> ca_client env then (Some (Some CaUnavailable), c) else scan_loop env 0 rs c)"

section \<open>Values\<close>

text \<open>\<open>GetJSON\<close>: a value that does not decode is deleted. The decoder is the one of the target's type.\<close>

definition cache_get_json ::
  "cache_env \<Rightarrow> nat \<Rightarrow> (string \<Rightarrow> 'a option) \<Rightarrow> string \<Rightarrow> cache \<Rightarrow> (cache_error + 'a) \<times> cache" where
  "cache_get_json env n dec k c =
     (case cache_get env k c of
        Inl e \<Rightarrow> (Inl e, c)
      | Inr v \<Rightarrow>
        (case dec v of
           None \<Rightarrow> (Inl CaJson, snd (cache_delete env n [k] c))
         | Some x \<Rightarrow> (Inr x, c)))"

text \<open>\<open>SetJSON\<close>: marshalling the value may fail.\<close>

definition cache_set_json :: "cache_env \<Rightarrow> nat \<Rightarrow> string \<Rightarrow> string option \<Rightarrow> cache \<Rightarrow> cache_error option \<times> cache" where
  "cache_set_json env n k raw c = (case raw of None \<Rightarrow> (Some CaMarshal, c) | Some v \<Rightarrow> cache_set env n k v c)"

section \<open>Codes\<close>

definition set_auth_code :: "cache_env \<Rightarrow> string \<Rightarrow> string \<Rightarrow> cache \<Rightarrow> cache_error option \<times> cache" where
  "set_auth_code env phone given c = cache_set env 0 (auth_code_key phone) given c"

definition get_auth_code :: "cache_env \<Rightarrow> string \<Rightarrow> cache \<Rightarrow> cache_error + string" where
  "get_auth_code env phone c = cache_get env (auth_code_key phone) c"

definition consume_auth_code :: "cache_env \<Rightarrow> string \<Rightarrow> string \<Rightarrow> cache \<Rightarrow> (cache_error + bool) \<times> cache" where
  "consume_auth_code env phone expected c =
     (case get_auth_code env phone c of
        Inl e \<Rightarrow> (if e = CaNil then Inr False else Inl e, c)
      | Inr actual \<Rightarrow>
        if actual \<noteq> expected then (Inr False, c)
        else
          (case cache_delete env 0 [auth_code_key phone] c of
             (Some e, c') \<Rightarrow> (Inl e, c')
           | (None, c') \<Rightarrow> (Inr True, c')))"

section \<open>Facts\<close>

lemma cache_write_cases: "snd (cache_write env n f c) \<in> {c, f c}"
  by (auto simp: cache_write_def split: redis_fate.split)

lemma cache_write_done: "fst (cache_write env n f c) = None \<Longrightarrow> snd (cache_write env n f c) = f c"
  by (auto simp: cache_write_def split: redis_fate.splits if_splits)

lemma cache_get_set: "cache_get env k c = Inr v \<longleftrightarrow> ca_client env \<and> ca_reads env k \<and> c k = Some v"
  by (auto simp: cache_get_def split: option.splits)

text \<open>A code is accepted only when it is the stored one, and once: afterwards there is none.\<close>

lemma consumed_once:
  assumes "consume_auth_code env phone expected c = (Inr True, c')"
  shows "c (auth_code_key phone) = Some expected \<and> c' = c |` (- {auth_code_key phone}) \<and>
    fst (consume_auth_code env' phone expected' c') \<noteq> Inr True"
proof -
  have g: "get_auth_code env phone c = Inr expected" and d: "cache_delete env 0 [auth_code_key phone] c = (None, c')"
    using assms by (auto simp: consume_auth_code_def split: sum.splits if_splits prod.splits option.splits)
  have "c' = c |` (- {auth_code_key phone})"
    using d cache_write_done [of env 0 "\<lambda>c. c |` (- {auth_code_key phone})" c] by (simp add: cache_delete_def)
  moreover have "c (auth_code_key phone) = Some expected" using g by (simp add: get_auth_code_def cache_get_set)
  moreover have "fst (consume_auth_code env' phone expected' c') \<noteq> Inr True" if "c' (auth_code_key phone) = None" for c'
    using that by (simp add: consume_auth_code_def get_auth_code_def cache_get_def)
  ultimately show ?thesis by simp
qed

end
