(* ===== verification/GroupService.thy ===== *)
theory GroupService
  imports MessageStore RestCache
begin

text \<open>
  Groups (internal/service/gormservice/group_service.go): creating, reading, joining, leaving and approving, over the tables the message
  store reads its members from, with a cache beside them.
\<close>

section \<open>Views\<close>

datatype group_error = GeInvalidGroup | GeInvalidUser | GeUserNotFound | GeDatabase | GeNotFound | GeUnavailable | GeForbidden
  | GeOwnerCannotLeave | GePending | GeNotAdmin | GeRaw

record group_view =
  gv_uuid :: string
  gv_name :: string
  gv_owner :: string
  gv_members :: "string list option"
  gv_admins :: "string list option"
  gv_count :: int
  gv_mode :: int

definition decode_ids :: "string \<Rightarrow> group_error + string list option" where
  "decode_ids raw = (case unmarshal_strings raw of None \<Rightarrow> Inl GeDatabase | Some ids \<Rightarrow> Inr ids)"

definition contains_id :: "string list option \<Rightarrow> string \<Rightarrow> bool" where
  "contains_id ids i = (\<exists>v \<in> set (nil_list ids). v = i)"

definition group_response :: "group_row \<Rightarrow> group_error + group_view" where
  "group_response g =
     bindE (decode_ids (gr_members g)) (\<lambda>members.
     bindE (decode_ids (gr_admins g)) (\<lambda>admins.
       Inr \<lparr>gv_uuid = gr_uuid g, gv_name = gr_name g, gv_owner = gr_owner g, gv_members = members, gv_admins = admins,
         gv_count = gr_count g, gv_mode = gr_mode g\<rparr>))"

fun group_responses :: "group_row list \<Rightarrow> group_error + group_view list" where
  "group_responses [] = Inr []"
| "group_responses (g # gs) = bindE (group_response g) (\<lambda>v. bindE (group_responses gs) (\<lambda>vs. Inr (v # vs)))"

text \<open>The JSON of a view; a nil slice is \<open>null\<close>.\<close>

definition ids_json :: "string list option \<Rightarrow> json" where
  "ids_json ids = (case ids of None \<Rightarrow> JNull | Some xs \<Rightarrow> JArr (map json_string xs))"

definition group_json :: "group_view \<Rightarrow> json" where
  "group_json v = JObj
     [(''group_id'', json_string (gv_uuid v)), (''group_name'', json_string (gv_name v)), (''owner_id'', json_string (gv_owner v)),
      (''members'', ids_json (gv_members v)), (''admins'', ids_json (gv_admins v)),
      (''member_count'', JNum (format_int (gv_count v))), (''add_mode'', JNum (format_int (gv_mode v)))]"

definition group_fields :: "(string \<times> (json \<Rightarrow> group_view \<Rightarrow> group_view option)) list" where
  "group_fields =
     [(''group_id'', \<lambda>j v. map_option (\<lambda>s. v\<lparr>gv_uuid := s\<rparr>) (decode_string j (gv_uuid v))),
      (''group_name'', \<lambda>j v. map_option (\<lambda>s. v\<lparr>gv_name := s\<rparr>) (decode_string j (gv_name v))),
      (''owner_id'', \<lambda>j v. map_option (\<lambda>s. v\<lparr>gv_owner := s\<rparr>) (decode_string j (gv_owner v))),
      (''members'', \<lambda>j v. map_option (\<lambda>s. v\<lparr>gv_members := s\<rparr>) (decode_slice decode_string [] j (gv_members v))),
      (''admins'', \<lambda>j v. map_option (\<lambda>s. v\<lparr>gv_admins := s\<rparr>) (decode_slice decode_string [] j (gv_admins v))),
      (''member_count'', \<lambda>j v. map_option (\<lambda>n. v\<lparr>gv_count := n\<rparr>) (decode_int64 j (gv_count v))),
      (''add_mode'', \<lambda>j v. map_option (\<lambda>n. v\<lparr>gv_mode := n\<rparr>) (decode_int8 j (gv_mode v)))]"

definition zero_group :: group_view where
  "zero_group = \<lparr>gv_uuid = [], gv_name = [], gv_owner = [], gv_members = None, gv_admins = None, gv_count = 0, gv_mode = 0\<rparr>"

definition decode_group :: "json \<Rightarrow> group_view \<Rightarrow> group_view option" where
  "decode_group j v = (case j of JNull \<Rightarrow> Some v | JObj ms \<Rightarrow> decode_known group_fields ms v | _ \<Rightarrow> None)"

definition unmarshal_group :: "string \<Rightarrow> group_view option" where
  "unmarshal_group raw = unmarshal_struct group_fields raw zero_group"

definition unmarshal_list :: "(json \<Rightarrow> 'a \<Rightarrow> 'a option) \<Rightarrow> 'a \<Rightarrow> string \<Rightarrow> 'a list option option" where
  "unmarshal_list dec zero raw = (case json_text raw of None \<Rightarrow> None | Some j \<Rightarrow> decode_slice dec zero j None)"

definition unmarshal_groups :: "string \<Rightarrow> group_view list option option" where
  "unmarshal_groups raw = unmarshal_list decode_group zero_group raw"

section \<open>Statements\<close>

datatype group_stmt = GsBegin | GsCount | GsFirst | GsFind | GsApplied | GsApply | GsUpdate | GsAgree | GsGroup | GsContact | GsSession

text \<open>
  What one call meets: the statements that fail, the identifiers \<open>uuid.NewString\<close> gives, the fate of the commit, the order of rows a
  query without an order returns, and the cache.
\<close>

record group_env =
  ge_fault :: "group_stmt \<Rightarrow> bool"
  ge_uuid :: string
  ge_session :: string
  ge_now :: int
  ge_commit :: commit_fate
  ge_order :: "group_row list \<Rightarrow> group_row list"
  ge_cache :: cache_env

record rest =
  re_db :: db
  re_cache :: cache

text \<open>
  \<open>Transaction\<close>: an error of the body rolls back; a failure to begin or to commit is reported as it is, and a lost answer of the commit
  leaves open whether it took effect.
\<close>

definition run_tx :: "bool \<Rightarrow> commit_fate \<Rightarrow> 'e \<Rightarrow> (db \<Rightarrow> 'e + 'a \<times> db) \<Rightarrow> db \<Rightarrow> ('e + 'a) \<times> db" where
  "run_tx no_begin fate raw body S =
     (if no_begin then (Inl raw, S)
      else case body S of
        Inl e \<Rightarrow> (Inl e, S)
      | Inr (x, S') \<Rightarrow>
        (case fate of Committed \<Rightarrow> (Inr x, S') | CommitRefused \<Rightarrow> (Inl raw, S) | CommitUnknown \<Rightarrow> (Inl raw, S')))"

definition user_exists :: "dbms \<Rightarrow> db \<Rightarrow> string \<Rightarrow> bool" where
  "user_exists D S u = (\<exists>r \<in> set (db_users S). db_same D (us_uuid r) u)"

text \<open>\<open>First\<close> by the identifier: rows deleted softly are not seen.\<close>

definition group_is :: "dbms \<Rightarrow> string \<Rightarrow> group_row \<Rightarrow> bool" where
  "group_is D gid g = (db_same D (gr_uuid g) gid \<and> \<not> gr_deleted g)"

definition find_group :: "dbms \<Rightarrow> db \<Rightarrow> string \<Rightarrow> group_row option" where
  "find_group D S gid = List.find (group_is D gid) (db_groups S)"

text \<open>An update of the row a condition found first, by its primary key.\<close>

fun update_first :: "('a \<Rightarrow> bool) \<Rightarrow> ('a \<Rightarrow> 'a) \<Rightarrow> 'a list \<Rightarrow> 'a list" where
  "update_first P f [] = []"
| "update_first P f (x # xs) = (if P x then f x # xs else x # update_first P f xs)"

definition set_members :: "dbms \<Rightarrow> string \<Rightarrow> string list \<Rightarrow> db \<Rightarrow> db" where
  "set_members D gid ms S =
     S\<lparr>db_groups := update_first (group_is D gid) (\<lambda>g. g\<lparr>gr_members := db_json D (strings_json ms), gr_count := int (length ms)\<rparr>)
                      (db_groups S)\<rparr>"

text \<open>\<open>Create\<close> checks the unique keys of the table.\<close>

definition insert_group :: "dbms \<Rightarrow> bool \<Rightarrow> group_row \<Rightarrow> db \<Rightarrow> group_error + db" where
  "insert_group D fault g S =
     (if fault \<or> (\<exists>h \<in> set (db_groups S). db_same D (gr_uuid h) (gr_uuid g)) then Inl GeRaw
      else Inr (S\<lparr>db_groups := db_groups S @ [g\<lparr>gr_members := db_json D (gr_members g), gr_admins := db_json D (gr_admins g)\<rparr>]\<rparr>))"

definition insert_contact :: "dbms \<Rightarrow> bool \<Rightarrow> contact_row \<Rightarrow> db \<Rightarrow> group_error + db" where
  "insert_contact D fault r S =
     (if fault \<or> (\<exists>c \<in> set (db_contacts S). db_same D (ct_user c) (ct_user r) \<and> db_same D (ct_contact c) (ct_contact r) \<and>
           ct_type c = ct_type r)
      then Inl GeRaw else Inr (S\<lparr>db_contacts := db_contacts S @ [r]\<rparr>))"

definition insert_session :: "dbms \<Rightarrow> bool \<Rightarrow> session_row \<Rightarrow> db \<Rightarrow> group_error + db" where
  "insert_session D fault r S =
     (if fault \<or> (\<exists>s \<in> set (db_sessions S). db_same D (se_uuid s) (se_uuid r) \<or>
           db_same D (se_send s) (se_send r) \<and> db_same D (se_receive s) (se_receive r))
      then Inl GeRaw else Inr (S\<lparr>db_sessions := db_sessions S @ [r]\<rparr>))"

definition group_contact :: "string \<Rightarrow> string \<Rightarrow> contact_row" where
  "group_contact user gid = \<lparr>ct_user = user, ct_contact = gid, ct_type = 1, ct_status = 0\<rparr>"

definition group_session :: "group_env \<Rightarrow> string \<Rightarrow> string \<Rightarrow> session_row" where
  "group_session env user gid =
     \<lparr>se_uuid = CHR ''S'' # ge_session env, se_send = user, se_receive = gid, se_type = 1, se_created = ge_now env\<rparr>"

text \<open>The contact and the session of a new member.\<close>

definition link_member :: "dbms \<Rightarrow> group_env \<Rightarrow> string \<Rightarrow> string \<Rightarrow> db \<Rightarrow> group_error + db" where
  "link_member D env user gid S =
     bindE (insert_contact D (ge_fault env GsContact) (group_contact user gid) S) (\<lambda>S1.
       insert_session D (ge_fault env GsSession) (group_session env user gid) S1)"

section \<open>Creating\<close>

definition new_group :: "group_env \<Rightarrow> string \<Rightarrow> string \<Rightarrow> int \<Rightarrow> group_row" where
  "new_group env owner name mode =
     \<lparr>gr_uuid = CHR ''G'' # ge_uuid env, gr_name = name, gr_owner = owner, gr_members = strings_json [owner], gr_admins = strings_json [],
      gr_count = 1, gr_mode = mode, gr_status = 0, gr_deleted = False\<rparr>"

definition drop_cached :: "cache_env \<Rightarrow> string list \<Rightarrow> rest \<Rightarrow> rest" where
  "drop_cached env ks st = st\<lparr>re_cache := snd (cache_delete env 0 ks (re_cache st))\<rparr>"

definition create_body :: "dbms \<Rightarrow> group_env \<Rightarrow> string \<Rightarrow> group_row \<Rightarrow> db \<Rightarrow> group_error + unit \<times> db" where
  "create_body D env owner g S =
     bindE (insert_group D (ge_fault env GsGroup) g S) (\<lambda>S1.
     bindE (link_member D env owner (gr_uuid g) S1) (\<lambda>S2. Inr ((), S2)))"

text \<open>\<open>CreateGroup\<close>; the modes are the optional last argument.\<close>

definition create_group ::
  "dbms \<Rightarrow> group_env \<Rightarrow> string \<Rightarrow> string \<Rightarrow> int list \<Rightarrow> rest \<Rightarrow> (group_error + group_view) \<times> rest" where
  "create_group D env owner name modes st =
     (if owner = [] \<or> name = [] then (Inl GeInvalidGroup, st)
      else if ge_fault env GsCount then (Inl GeDatabase, st)
      else if \<not> user_exists D (re_db st) owner then (Inl GeUserNotFound, st)
      else
        let mode = (case modes of [] \<Rightarrow> 0 | m # _ \<Rightarrow> m) in
        if mode < 0 \<or> 2 < mode then (Inl GeInvalidGroup, st)
        else
          let g = new_group env owner name mode in
          case run_tx (ge_fault env GsBegin) (ge_commit env) GeRaw (create_body D env owner g) (re_db st) of
            (Inl e, S) \<Rightarrow> (Inl GeDatabase, st\<lparr>re_db := S\<rparr>)
          | (Inr _, S) \<Rightarrow>
            (group_response g,
             drop_cached (ge_cache env) [owned_list_key owner, joined_list_key owner, group_info_key (gr_uuid g), group_members_key (gr_uuid g)]
               (st\<lparr>re_db := S\<rparr>)))"

section \<open>Reading\<close>

definition keep_cached :: "cache_env \<Rightarrow> nat \<Rightarrow> string \<Rightarrow> json \<Rightarrow> rest \<Rightarrow> rest" where
  "keep_cached env n k j st = st\<lparr>re_cache := snd (cache_set_json env n k (Some (json_print j)) (re_cache st))\<rparr>"

text \<open>A cached answer, or what the tables say and the cache it leaves.\<close>

definition with_cache ::
  "cache_env \<Rightarrow> (string \<Rightarrow> 'a option) \<Rightarrow> string \<Rightarrow> (rest \<Rightarrow> ('e + 'a) \<times> rest) \<Rightarrow> rest \<Rightarrow> ('e + 'a) \<times> rest" where
  "with_cache env dec k load st =
     (case cache_get_json env 0 dec k (re_cache st) of
        (Inr x, c) \<Rightarrow> (Inr x, st\<lparr>re_cache := c\<rparr>)
      | (Inl _, c) \<Rightarrow> load (st\<lparr>re_cache := c\<rparr>))"

definition load_group :: "dbms \<Rightarrow> group_env \<Rightarrow> string \<Rightarrow> rest \<Rightarrow> (group_error + group_view) \<times> rest" where
  "load_group D env gid st =
     (if ge_fault env GsFirst then (Inl GeDatabase, st)
      else case find_group D (re_db st) gid of
        None \<Rightarrow> (Inl GeNotFound, st)
      | Some g \<Rightarrow>
        if gr_status g \<noteq> 0 then (Inl GeUnavailable, st)
        else
          (case group_response g of
             Inl e \<Rightarrow> (Inl e, st)
           | Inr v \<Rightarrow>
             (Inr v, keep_cached (ge_cache env) 2 (group_members_key gid) (ids_json (gv_members v))
                       (keep_cached (ge_cache env) 1 (group_info_key gid) (group_json v) st))))"

text \<open>\<open>GetGroup\<close>.\<close>

definition get_group :: "dbms \<Rightarrow> group_env \<Rightarrow> string \<Rightarrow> rest \<Rightarrow> (group_error + group_view) \<times> rest" where
  "get_group D env gid st =
     (if gid = [] then (Inl GeInvalidGroup, st)
      else with_cache (ge_cache env) unmarshal_group (group_info_key gid) (load_group D env gid) st)"

definition load_groups ::
  "group_env \<Rightarrow> string \<Rightarrow> (db \<Rightarrow> group_row list) \<Rightarrow> rest \<Rightarrow> (group_error + group_view list option) \<times> rest" where
  "load_groups env k rows st =
     (if ge_fault env GsFind then (Inl GeDatabase, st)
      else case group_responses (ge_order env (rows (re_db st))) of
        Inl e \<Rightarrow> (Inl e, st)
      | Inr vs \<Rightarrow> (Inr (Some vs), keep_cached (ge_cache env) 1 k (JArr (map group_json vs)) st))"

text \<open>\<open>GetJoinedGroupList\<close> joins each group with its contacts, \<open>GetOwnedGroupList\<close> selects by owner.\<close>

definition joined_rows :: "dbms \<Rightarrow> string \<Rightarrow> db \<Rightarrow> group_row list" where
  "joined_rows D user S =
     concat (map (\<lambda>g. map (\<lambda>_. g) (filter (\<lambda>c. db_same D (ct_contact c) (gr_uuid g) \<and> ct_type c = 1 \<and> db_same D (ct_user c) user \<and>
                                            ct_status c = 0) (db_contacts S)))
       (filter (\<lambda>g. gr_status g = 0 \<and> \<not> gr_deleted g) (db_groups S)))"

definition owned_rows :: "dbms \<Rightarrow> string \<Rightarrow> db \<Rightarrow> group_row list" where
  "owned_rows D user S = filter (\<lambda>g. db_same D (gr_owner g) user \<and> gr_status g = 0 \<and> \<not> gr_deleted g) (db_groups S)"

definition joined_groups :: "dbms \<Rightarrow> group_env \<Rightarrow> string \<Rightarrow> rest \<Rightarrow> (group_error + group_view list option) \<times> rest" where
  "joined_groups D env user st =
     (if user = [] then (Inl GeInvalidUser, st)
      else with_cache (ge_cache env) unmarshal_groups (joined_list_key user) (load_groups env (joined_list_key user) (joined_rows D user)) st)"

definition owned_groups :: "dbms \<Rightarrow> group_env \<Rightarrow> string \<Rightarrow> rest \<Rightarrow> (group_error + group_view list option) \<times> rest" where
  "owned_groups D env user st =
     (if user = [] then (Inl GeInvalidUser, st)
      else with_cache (ge_cache env) unmarshal_groups (owned_list_key user) (load_groups env (owned_list_key user) (owned_rows D user)) st)"

section \<open>Joining\<close>

definition pending_apply :: "dbms \<Rightarrow> string \<Rightarrow> string \<Rightarrow> apply_row \<Rightarrow> bool" where
  "pending_apply D user gid a =
     (db_same D (ap_applicant a) user \<and> db_same D (ap_contact a) gid \<and> ap_type a = 1 \<and> ap_status a = 0)"

text \<open>
  The body of the transaction of \<open>JoinGroup\<close>: what it does once the group and its members are read, and before. The result says whether
  the join is pending.
\<close>

definition join_as :: "dbms \<Rightarrow> group_env \<Rightarrow> string \<Rightarrow> string \<Rightarrow> int \<Rightarrow> string list option \<Rightarrow> db \<Rightarrow> group_error + bool \<times> db" where
  "join_as D env user gid mode members S =
     (if contains_id members user then Inr (False, S)
      else if mode = 2 then Inl GeForbidden
      else if mode = 1 then
        (if ge_fault env GsApplied then Inl GeDatabase
         else if \<exists>a \<in> set (db_applies S). pending_apply D user gid a then Inr (True, S)
         else if ge_fault env GsApply then Inl GeDatabase
         else Inr (True, S\<lparr>db_applies := db_applies S @ [\<lparr>ap_applicant = user, ap_contact = gid, ap_type = 1, ap_status = 0\<rparr>]\<rparr>))
      else if ge_fault env GsUpdate then Inl GeRaw
      else bindE (link_member D env user gid (set_members D gid (nil_list members @ [user]) S)) (\<lambda>S'. Inr (False, S')))"

definition join_body :: "dbms \<Rightarrow> group_env \<Rightarrow> string \<Rightarrow> string \<Rightarrow> db \<Rightarrow> group_error + bool \<times> db" where
  "join_body D env user gid S =
     (if ge_fault env GsCount then Inl GeDatabase
      else if \<not> user_exists D S user then Inl GeUserNotFound
      else case (if ge_fault env GsFirst then None else find_group D S gid) of
        None \<Rightarrow> Inl GeNotFound
      | Some g \<Rightarrow>
        if gr_status g \<noteq> 0 then Inl GeUnavailable
        else bindE (decode_ids (gr_members g)) (\<lambda>members. join_as D env user gid (gr_mode g) members S))"

definition join_group :: "dbms \<Rightarrow> group_env \<Rightarrow> string \<Rightarrow> string \<Rightarrow> rest \<Rightarrow> (group_error + unit) \<times> rest" where
  "join_group D env user gid st =
     (if user = [] \<or> gid = [] then (Inl GeInvalidGroup, st)
      else case run_tx (ge_fault env GsBegin) (ge_commit env) GeRaw (join_body D env user gid) (re_db st) of
        (Inl e, S) \<Rightarrow> (Inl e, st\<lparr>re_db := S\<rparr>)
      | (Inr True, S) \<Rightarrow> (Inl GePending, st\<lparr>re_db := S\<rparr>)
      | (Inr False, S) \<Rightarrow>
        (Inr (), drop_cached (ge_cache env) [group_info_key gid, group_members_key gid, joined_list_key user] (st\<lparr>re_db := S\<rparr>)))"

section \<open>Leaving\<close>

text \<open>The deletes of the contact and the session of a member who leaves.\<close>

definition unlink_member :: "dbms \<Rightarrow> string \<Rightarrow> string \<Rightarrow> db \<Rightarrow> db" where
  "unlink_member D user gid S =
     S\<lparr>db_contacts := filter (\<lambda>c. \<not> (db_same D (ct_user c) user \<and> db_same D (ct_contact c) gid \<and> ct_type c = 1)) (db_contacts S),
       db_sessions := filter (\<lambda>s. \<not> (db_same D (se_send s) user \<and> db_same D (se_receive s) gid \<and> se_type s = 1)) (db_sessions S)\<rparr>"

definition leave_body :: "dbms \<Rightarrow> group_env \<Rightarrow> string \<Rightarrow> string \<Rightarrow> db \<Rightarrow> group_error + unit \<times> db" where
  "leave_body D env user gid S =
     (case (if ge_fault env GsFirst then None else find_group D S gid) of
        None \<Rightarrow> Inl GeNotFound
      | Some g \<Rightarrow>
        if gr_status g \<noteq> 0 then Inl GeUnavailable
        else if gr_owner g = user then Inl GeOwnerCannotLeave
        else bindE (decode_ids (gr_members g)) (\<lambda>members.
          let rest = filter (\<lambda>i. i \<noteq> user) (nil_list members) in
          if length rest = length (nil_list members) then Inr ((), S)
          else if ge_fault env GsUpdate \<or> ge_fault env GsContact \<or> ge_fault env GsSession then Inl GeRaw
          else Inr ((), unlink_member D user gid (set_members D gid rest S))))"

definition leave_group :: "dbms \<Rightarrow> group_env \<Rightarrow> string \<Rightarrow> string \<Rightarrow> rest \<Rightarrow> (group_error + unit) \<times> rest" where
  "leave_group D env user gid st =
     (if user = [] \<or> gid = [] then (Inl GeInvalidGroup, st)
      else case run_tx (ge_fault env GsBegin) (ge_commit env) GeRaw (leave_body D env user gid) (re_db st) of
        (Inl e, S) \<Rightarrow> (Inl e, st\<lparr>re_db := S\<rparr>)
      | (Inr _, S) \<Rightarrow>
        (Inr (), drop_cached (ge_cache env) [group_info_key gid, group_members_key gid, joined_list_key user, group_sessions_key user] (st\<lparr>re_db := S\<rparr>)))"

section \<open>Approving\<close>

definition approve_body :: "dbms \<Rightarrow> group_env \<Rightarrow> string \<Rightarrow> string \<Rightarrow> string \<Rightarrow> db \<Rightarrow> group_error + unit \<times> db" where
  "approve_body D env operator applicant gid S =
     (case (if ge_fault env GsFirst then None else find_group D S gid) of
        None \<Rightarrow> Inl GeNotFound
      | Some g \<Rightarrow>
        bindE (decode_ids (gr_admins g)) (\<lambda>admins.
        if operator \<noteq> gr_owner g \<and> \<not> contains_id admins operator then Inl GeNotAdmin
        else if ge_fault env GsApplied \<or> \<not> (\<exists>a \<in> set (db_applies S). pending_apply D applicant gid a) then Inl GePending
        else bindE (decode_ids (gr_members g)) (\<lambda>members.
          let ms = (if contains_id members applicant then nil_list members else nil_list members @ [applicant]) in
          if ge_fault env GsUpdate \<or> ge_fault env GsAgree then Inl GeRaw
          else
            bindE (link_member D env applicant gid
              (set_members D gid ms S\<lparr>db_applies := update_first (pending_apply D applicant gid) (\<lambda>a. a\<lparr>ap_status := 1\<rparr>) (db_applies S)\<rparr>))
              (\<lambda>S'. Inr ((), S')))))"

definition approve_join ::
  "dbms \<Rightarrow> group_env \<Rightarrow> string \<Rightarrow> string \<Rightarrow> string \<Rightarrow> rest \<Rightarrow> (group_error + unit) \<times> rest" where
  "approve_join D env operator applicant gid st =
     (case run_tx (ge_fault env GsBegin) (ge_commit env) GeRaw (approve_body D env operator applicant gid) (re_db st) of
        (Inl e, S) \<Rightarrow> (Inl e, st\<lparr>re_db := S\<rparr>)
      | (Inr _, S) \<Rightarrow>
        (Inr (), drop_cached (ge_cache env) [group_info_key gid, group_members_key gid, joined_list_key applicant, group_sessions_key applicant]
           (st\<lparr>re_db := S\<rparr>)))"

end
