(* ===== verification/AccountService.thy ===== *)
theory AccountService
  imports GroupService LogicService
begin

text \<open>
  Accounts, direct sessions and contacts of the business API (internal/service/gormservice: user_info_service.go, session_service.go,
  contact_service.go), over the same tables and cache.
\<close>

section \<open>Accounts\<close>

datatype account_error = AeInvalidRegister | AeTelephoneExists | AeUsernameExists | AeCreateFailed | AeUserNotFound | AeInvalidPassword
  | AeLoginFailed | AeAccessDenied | AeInvalidUser | AeForbidden | AeDatabase | AeInvalidSession | AeSessionCreate | AeRaw

text \<open>\<open>^1[3-9]\d{9}$\<close>.\<close>

definition is_phone :: "string \<Rightarrow> bool" where
  "is_phone p = (length p = 11 \<and> p ! 0 = CHR ''1'' \<and> p ! 1 \<in> set ''3456789'' \<and> list_all (\<lambda>c. c \<in> set ''0123456789'') p)"

text \<open>
  bcrypt and the signing of tokens. A hash is made with a random salt and fails for passwords it cannot take.
\<close>

record bcrypt_lib =
  bc_hash :: "string \<Rightarrow> string \<Rightarrow> string option"
  bc_check :: "string \<Rightarrow> string \<Rightarrow> bool"

datatype account_stmt = AsPhone | AsNick | AsCreate | AsCount | AsFirst | AsFind | AsUsers

record account_env =
  ae_fault :: "account_stmt \<Rightarrow> bool"
  ae_uuid :: string
  ae_salt :: string
  ae_now :: int
  ae_sign :: "string \<Rightarrow> int \<Rightarrow> string option"
  ae_order :: "user_row list \<Rightarrow> user_row list"
  ae_contacts :: "contact_row list \<Rightarrow> contact_row list"
  ae_cache :: cache_env

record account_view =
  av_uuid :: string
  av_nick :: string
  av_phone :: string

text \<open>\<open>passwordHash\<close> ignores the error of bcrypt: the hash is empty then.\<close>

definition password_hash :: "bcrypt_lib \<Rightarrow> string \<Rightarrow> string \<Rightarrow> string" where
  "password_hash B salt password = (case bc_hash B salt password of None \<Rightarrow> [] | Some h \<Rightarrow> h)"

text \<open>The counts of \<open>Register\<close> and \<open>Login\<close> stay 0 when the query fails.\<close>

definition counted :: "bool \<Rightarrow> ('a \<Rightarrow> bool) \<Rightarrow> 'a list \<Rightarrow> nat" where
  "counted failed P rows = (if failed then 0 else length (filter P rows))"

definition register_user ::
  "dbms \<Rightarrow> bcrypt_lib \<Rightarrow> account_env \<Rightarrow> string \<Rightarrow> string \<Rightarrow> string \<Rightarrow> db \<Rightarrow> (account_error + account_view) \<times> db" where
  "register_user D B env phone nick password S =
     (if \<not> is_phone phone then (Inl AeInvalidRegister, S)
      else if 0 < counted (ae_fault env AsPhone) (\<lambda>r. db_same D (us_phone r) phone) (db_users S) then (Inl AeTelephoneExists, S)
      else if 0 < counted (ae_fault env AsNick) (\<lambda>r. db_same D (us_nick r) nick) (db_users S) then (Inl AeUsernameExists, S)
      else
        let u = \<lparr>us_uuid = CHR ''U'' # ae_uuid env, us_nick = nick, us_phone = phone, us_hash = password_hash B (ae_salt env) password\<rparr> in
        if ae_fault env AsCreate \<or> (\<exists>r \<in> set (db_users S). db_same D (us_uuid r) (us_uuid u) \<or> db_same D (us_phone r) phone)
        then (Inl AeCreateFailed, S)
        else (Inr \<lparr>av_uuid = us_uuid u, av_nick = nick, av_phone = phone\<rparr>, S\<lparr>db_users := db_users S @ [u]\<rparr>))"

text \<open>\<open>generateToken\<close>: the claims are the user and an expiry 24 hours ahead, in seconds.\<close>

definition generate_token :: "account_env \<Rightarrow> string \<Rightarrow> string option" where
  "generate_token env user = ae_sign env user ((ae_now env + 24 * 3600 * 1000000000) div 1000000000)"

definition login_user ::
  "dbms \<Rightarrow> bcrypt_lib \<Rightarrow> account_env \<Rightarrow> string \<Rightarrow> string \<Rightarrow> db \<Rightarrow> account_error + string \<times> string \<times> string" where
  "login_user D B env phone password S =
     (if counted (ae_fault env AsCount) (\<lambda>r. db_same D (us_phone r) phone) (db_users S) = 0 then Inl AeUserNotFound
      else if ae_fault env AsFirst then Inl AeLoginFailed
      else case List.find (\<lambda>r. db_same D (us_phone r) phone) (db_users S) of
        None \<Rightarrow> Inl AeLoginFailed
      | Some u \<Rightarrow>
        if \<not> bc_check B (us_hash u) password then Inl AeInvalidPassword
        else
          (case generate_token env (us_uuid u) of
             None \<Rightarrow> Inl AeLoginFailed
           | Some token \<Rightarrow> Inr (us_uuid u, us_nick u, token)))"

text \<open>The JSON of an account.\<close>

definition account_json :: "account_view \<Rightarrow> json" where
  "account_json v = JObj [(''uuid'', json_string (av_uuid v)), (''nickname'', json_string (av_nick v)), (''telephone'', json_string (av_phone v))]"

definition account_fields :: "(string \<times> (json \<Rightarrow> account_view \<Rightarrow> account_view option)) list" where
  "account_fields =
     [(''uuid'', \<lambda>j v. map_option (\<lambda>s. v\<lparr>av_uuid := s\<rparr>) (decode_string j (av_uuid v))),
      (''nickname'', \<lambda>j v. map_option (\<lambda>s. v\<lparr>av_nick := s\<rparr>) (decode_string j (av_nick v))),
      (''telephone'', \<lambda>j v. map_option (\<lambda>s. v\<lparr>av_phone := s\<rparr>) (decode_string j (av_phone v)))]"

definition zero_account :: account_view where
  "zero_account = \<lparr>av_uuid = [], av_nick = [], av_phone = []\<rparr>"

definition decode_account :: "json \<Rightarrow> account_view \<Rightarrow> account_view option" where
  "decode_account j v = (case j of JNull \<Rightarrow> Some v | JObj ms \<Rightarrow> decode_known account_fields ms v | _ \<Rightarrow> None)"

text \<open>\<open>GetUserInfo\<close>; the identifier comes from the context of the request.\<close>

definition get_user_info ::
  "dbms \<Rightarrow> account_env \<Rightarrow> string option \<Rightarrow> rest \<Rightarrow> (account_error + account_view) \<times> rest" where
  "get_user_info D env user st =
     (case user of
        None \<Rightarrow> (Inl AeInvalidUser, st)
      | Some uid \<Rightarrow>
        with_cache (ae_cache env) (\<lambda>raw. unmarshal_struct account_fields raw zero_account) (user_info_key uid)
          (\<lambda>st. case (if ae_fault env AsFirst then None else List.find (\<lambda>r. db_same D (us_uuid r) uid) (db_users (re_db st))) of
             None \<Rightarrow> (Inl AeForbidden, st)
           | Some u \<Rightarrow>
             if us_uuid u \<noteq> uid then (Inl AeAccessDenied, st)
             else
               let v = \<lparr>av_uuid = us_uuid u, av_nick = us_nick u, av_phone = us_phone u\<rparr> in
               (Inr v, keep_cached (ae_cache env) 1 (user_info_key uid) (account_json v) st)) st)"

section \<open>Sessions\<close>

definition new_session :: "account_env \<Rightarrow> string \<Rightarrow> string \<Rightarrow> session_row" where
  "new_session env a b = \<lparr>se_uuid = CHR ''S'' # ae_uuid env, se_send = a, se_receive = b, se_type = 0, se_created = ae_now env\<rparr>"

text \<open>\<open>OpenSession\<close>: the pair is kept in order, so both directions find the same row.\<close>

definition open_session :: "dbms \<Rightarrow> account_env \<Rightarrow> string \<Rightarrow> string \<Rightarrow> rest \<Rightarrow> (account_error + string) \<times> rest" where
  "open_session D env user peer st =
     (if user = [] \<or> peer = [] \<or> user = peer then (Inl AeInvalidSession, st)
      else if ae_fault env AsCount then (Inl AeDatabase, st)
      else if \<not> user_exists D (re_db st) peer then (Inl AeUserNotFound, st)
      else
        let users = sort [user, peer]; a = users ! 0; b = users ! 1; S = re_db st in
        if ae_fault env AsFirst then (Inl AeDatabase, st)
        else case List.find (\<lambda>s. db_same D (se_send s) a \<and> db_same D (se_receive s) b) (db_sessions S) of
          Some s \<Rightarrow> (Inr (se_uuid s), st)
        | None \<Rightarrow>
          (case insert_session D (ae_fault env AsCreate) (new_session env a b) S of
             Inl _ \<Rightarrow> (Inl AeSessionCreate, st)
           | Inr S' \<Rightarrow>
             (Inr (CHR ''S'' # ae_uuid env),
              drop_cached (ae_cache env) [session_pair_key user peer, session_list_key user, session_list_key peer] (st\<lparr>re_db := S'\<rparr>))))"

record session_view =
  sw_uuid :: string
  sw_peer :: string

definition session_json :: "session_view \<Rightarrow> json" where
  "session_json v = JObj [(''session_uuid'', json_string (sw_uuid v)), (''peer_uuid'', json_string (sw_peer v))]"

definition session_fields :: "(string \<times> (json \<Rightarrow> session_view \<Rightarrow> session_view option)) list" where
  "session_fields =
     [(''session_uuid'', \<lambda>j v. map_option (\<lambda>s. v\<lparr>sw_uuid := s\<rparr>) (decode_string j (sw_uuid v))),
      (''peer_uuid'', \<lambda>j v. map_option (\<lambda>s. v\<lparr>sw_peer := s\<rparr>) (decode_string j (sw_peer v)))]"

definition zero_session :: session_view where
  "zero_session = \<lparr>sw_uuid = [], sw_peer = []\<rparr>"

definition decode_session :: "json \<Rightarrow> session_view \<Rightarrow> session_view option" where
  "decode_session j v = (case j of JNull \<Rightarrow> Some v | JObj ms \<Rightarrow> decode_known session_fields ms v | _ \<Rightarrow> None)"

text \<open>Rows in the order of their creation; the table is in the order of its identifiers.\<close>

definition user_sessions :: "dbms \<Rightarrow> string \<Rightarrow> db \<Rightarrow> session_view list" where
  "user_sessions D user S =
     map (\<lambda>s. \<lparr>sw_uuid = se_uuid s, sw_peer = (if se_send s = user then se_receive s else se_send s)\<rparr>)
       (filter (\<lambda>s. se_type s = 0)
         (sort_key se_created (filter (\<lambda>s. db_same D (se_send s) user \<or> db_same D (se_receive s) user) (db_sessions S))))"

definition group_sessions :: "dbms \<Rightarrow> string \<Rightarrow> db \<Rightarrow> session_view list" where
  "group_sessions D user S =
     map (\<lambda>s. \<lparr>sw_uuid = se_uuid s, sw_peer = se_receive s\<rparr>)
       (sort_key se_created (filter (\<lambda>s. db_same D (se_send s) user \<and> se_type s = 1) (db_sessions S)))"

definition list_sessions ::
  "account_env \<Rightarrow> string \<Rightarrow> (db \<Rightarrow> session_view list) \<Rightarrow> rest \<Rightarrow> (account_error + session_view list option) \<times> rest" where
  "list_sessions env k rows st =
     with_cache (ae_cache env) (unmarshal_list decode_session zero_session) k
       (\<lambda>st. if ae_fault env AsFind then (Inl AeDatabase, st)
              else (Inr (Some (rows (re_db st))), keep_cached (ae_cache env) 1 k (JArr (map session_json (rows (re_db st)))) st)) st"

definition get_user_sessions ::
  "dbms \<Rightarrow> account_env \<Rightarrow> string \<Rightarrow> rest \<Rightarrow> (account_error + session_view list option) \<times> rest" where
  "get_user_sessions D env user st =
     (if user = [] then (Inl AeInvalidUser, st) else list_sessions env (session_list_key user) (user_sessions D user) st)"

definition get_group_sessions ::
  "dbms \<Rightarrow> account_env \<Rightarrow> string \<Rightarrow> rest \<Rightarrow> (account_error + session_view list option) \<times> rest" where
  "get_group_sessions D env user st =
     (if user = [] then (Inl AeInvalidUser, st) else list_sessions env (group_sessions_key user) (group_sessions D user) st)"

definition get_session_users :: "dbms \<Rightarrow> account_env \<Rightarrow> string \<Rightarrow> db \<Rightarrow> account_error + string \<times> string" where
  "get_session_users D env sid S =
     (if ae_fault env AsFirst then Inl AeRaw
      else case List.find (\<lambda>s. db_same D (se_uuid s) sid) (db_sessions S) of
        None \<Rightarrow> Inl AeRaw
      | Some s \<Rightarrow> Inr (se_send s, se_receive s))"

section \<open>Contacts\<close>

definition load_contacts ::
  "dbms \<Rightarrow> account_env \<Rightarrow> string \<Rightarrow> rest \<Rightarrow> (account_error + account_view list option) \<times> rest" where
  "load_contacts D env user st =
     (if ae_fault env AsFind then (Inl AeDatabase, st)
      else
        let S = re_db st;
            ids = map ct_contact (ae_contacts env (filter (\<lambda>c. db_same D (ct_user c) user \<and> ct_type c = 0 \<and> ct_status c = 0) (db_contacts S)));
            users = (if ids = [] then [] else ae_order env (filter (\<lambda>r. \<exists>i \<in> set ids. db_same D (us_uuid r) i) (db_users S)));
            vs = map (\<lambda>u. \<lparr>av_uuid = us_uuid u, av_nick = us_nick u, av_phone = us_phone u\<rparr>) users
        in
        if ids \<noteq> [] \<and> ae_fault env AsUsers then (Inl AeDatabase, st)
        else (Inr (Some vs), keep_cached (ae_cache env) 1 (contact_list_key user) (JArr (map account_json vs)) st))"

definition get_contacts ::
  "dbms \<Rightarrow> account_env \<Rightarrow> string \<Rightarrow> rest \<Rightarrow> (account_error + account_view list option) \<times> rest" where
  "get_contacts D env user st =
     (if user = [] then (Inl AeInvalidUser, st)
      else with_cache (ae_cache env) (unmarshal_list decode_account zero_account) (contact_list_key user) (load_contacts D env user) st)"

end
