(* ===== verification/AssistantService.thy ===== *)
theory AssistantService
  imports AccountService
begin

text \<open>
  What the assistant may read (internal/service/aiservice): the sessions a user opens to it (setting_service.go), the check of that
  permission and the list of sessions (session_service.go), and the messages it reads and searches (message_service.go).
\<close>

datatype assistant_error = AiInvalidSetting | AiInvalidInput | AiForbidden | AiNotFound | AiDatabase | AiRaw

datatype assistant_stmt = IsBegin | IsCount | IsDelete | IsExisting | IsCreate | IsSessions | IsAccess | IsPeers | IsBoundary | IsRows | IsSenders

text \<open>
  The statements that fail, the fate of the commit, the order of the collation, and its pattern matching (content, pattern).
\<close>

record assistant_env =
  ai_fault :: "assistant_stmt \<Rightarrow> bool"
  ai_commit :: commit_fate
  ai_sorted :: "string list \<Rightarrow> string list"
  ai_like :: "string \<Rightarrow> string \<Rightarrow> bool"

section \<open>The setting\<close>

definition party :: "dbms \<Rightarrow> string \<Rightarrow> session_row \<Rightarrow> bool" where
  "party D user s = (db_same D (se_send s) user \<or> db_same D (se_receive s) user)"

definition among :: "dbms \<Rightarrow> string \<Rightarrow> string list \<Rightarrow> bool" where
  "among D x xs = (\<exists>y \<in> set xs. db_same D x y)"

definition normalize_sessions :: "string list \<Rightarrow> assistant_error + string list" where
  "normalize_sessions ids =
     (if 200 < length ids then Inl AiInvalidSetting
      else if \<exists>i \<in> set ids. trim_space i = [] then Inl AiInvalidSetting
      else
        let unique = sorted_unique (map trim_space ids) in
        if 200 < length unique then Inl AiInvalidSetting else Inr unique)"

record setting_view =
  iv_session :: string
  iv_peer :: string
  iv_name :: string
  iv_allowed :: bool

text \<open>The name of a user among the rows of a query, later rows first.\<close>

definition name_in :: "user_row list \<Rightarrow> string \<Rightarrow> string" where
  "name_in rows u = (case List.find (\<lambda>r. us_uuid r = u) (rev rows) of None \<Rightarrow> [] | Some r \<Rightarrow> us_nick r)"

definition get_setting :: "dbms \<Rightarrow> assistant_env \<Rightarrow> string \<Rightarrow> db \<Rightarrow> assistant_error + setting_view list" where
  "get_setting D env user S =
     (if ai_fault env IsSessions then Inl AiDatabase
      else
        let sessions = sort_key se_created (filter (party D user) (db_sessions S)) in
        if sessions = [] then Inr []
        else if ai_fault env IsAccess then Inl AiDatabase
        else
          let ids = map se_uuid sessions;
              peer = (\<lambda>s. if se_send s = user then se_receive s else se_send s);
              allowed = map ac_session (filter (\<lambda>a. db_same D (ac_user a) user \<and> among D (ac_session a) ids) (db_access S))
          in
          if ai_fault env IsPeers then Inl AiDatabase
          else
            let peers = filter (\<lambda>r. among D (us_uuid r) (map peer sessions)) (db_users S) in
            Inr (map (\<lambda>s. \<lparr>iv_session = se_uuid s, iv_peer = peer s, iv_name = name_in peers (peer s),
                           iv_allowed = (se_uuid s \<in> set allowed)\<rparr>) sessions))"

definition get_ai_setting :: "dbms \<Rightarrow> assistant_env \<Rightarrow> string \<Rightarrow> db \<Rightarrow> assistant_error + setting_view list" where
  "get_ai_setting D env user S = (if trim_space user = [] then Inl AiInvalidSetting else get_setting D env user S)"

text \<open>The transaction of \<open>ChangeAISetting\<close>.\<close>

definition change_body :: "dbms \<Rightarrow> assistant_env \<Rightarrow> string \<Rightarrow> string list \<Rightarrow> db \<Rightarrow> assistant_error + unit \<times> db" where
  "change_body D env user ids S =
     (if ids \<noteq> [] \<and> ai_fault env IsCount then Inl AiDatabase
      else if ids \<noteq> [] \<and>
        length (filter (\<lambda>s. among D (se_uuid s) ids \<and> party D user s) (db_sessions S)) \<noteq> length ids then Inl AiForbidden
      else if ai_fault env IsDelete then Inl AiDatabase
      else
        let kept = filter (\<lambda>a. \<not> (db_same D (ac_user a) user \<and> (ids = [] \<or> \<not> among D (ac_session a) ids))) (db_access S) in
        if ids = [] then Inr ((), S\<lparr>db_access := kept\<rparr>)
        else if ai_fault env IsExisting then Inl AiDatabase
        else
          let existing = map ac_session (filter (\<lambda>a. db_same D (ac_user a) user \<and> among D (ac_session a) ids) kept);
              fresh = map (\<lambda>i. \<lparr>ac_user = user, ac_session = i\<rparr>) (filter (\<lambda>i. i \<notin> set existing) ids)
          in
          if fresh \<noteq> [] \<and>
            (ai_fault env IsCreate \<or>
             \<not> sorted_wrt (\<lambda>a b. \<not> (db_same D (ac_user a) (ac_user b) \<and> db_same D (ac_session a) (ac_session b))) fresh \<or>
             (\<exists>a \<in> set kept. \<exists>b \<in> set fresh. db_same D (ac_user a) (ac_user b) \<and> db_same D (ac_session a) (ac_session b)))
          then Inl AiDatabase
          else Inr ((), S\<lparr>db_access := kept @ fresh\<rparr>))"

definition change_setting ::
  "dbms \<Rightarrow> assistant_env \<Rightarrow> string \<Rightarrow> string list \<Rightarrow> db \<Rightarrow> (assistant_error + setting_view list) \<times> db" where
  "change_setting D env user ids S =
     (if trim_space user = [] then (Inl AiInvalidSetting, S)
      else case normalize_sessions ids of
        Inl e \<Rightarrow> (Inl e, S)
      | Inr uuids \<Rightarrow>
        (case run_tx (ai_fault env IsBegin) (ai_commit env) AiRaw (change_body D env user uuids) S of
           (Inl e, S') \<Rightarrow> (Inl e, S')
         | (Inr _, S') \<Rightarrow> (get_setting D env user S', S')))"

definition list_allowed :: "dbms \<Rightarrow> assistant_env \<Rightarrow> string \<Rightarrow> db \<Rightarrow> assistant_error + string list" where
  "list_allowed D env user S =
     (if trim_space user = [] then Inl AiInvalidSetting
      else if ai_fault env IsAccess then Inl AiDatabase
      else Inr (ai_sorted env (map ac_session (filter (\<lambda>a. db_same D (ac_user a) user) (db_access S)))))"

section \<open>Permission\<close>

text \<open>The rows of the join of sessions and permissions.\<close>

definition allowed_rows :: "dbms \<Rightarrow> string \<Rightarrow> db \<Rightarrow> (session_row \<times> access_row) list" where
  "allowed_rows D user S =
     filter (\<lambda>(s, a). db_same D (ac_session a) (se_uuid s) \<and> db_same D (ac_user a) user \<and> party D user s)
       (List.product (db_sessions S) (db_access S))"

definition ensure_access :: "dbms \<Rightarrow> assistant_env \<Rightarrow> string \<Rightarrow> string \<Rightarrow> db \<Rightarrow> assistant_error + unit" where
  "ensure_access D env user sid S =
     (if trim_space user = [] \<or> trim_space sid = [] then Inl AiInvalidInput
      else if ai_fault env IsCount then Inl AiDatabase
      else if length (filter (\<lambda>(s, a). db_same D (se_uuid s) sid) (allowed_rows D user S)) \<noteq> 1 then Inl AiForbidden
      else Inr ())"

definition normalize_limit :: "int \<Rightarrow> int \<Rightarrow> int \<Rightarrow> assistant_error + int" where
  "normalize_limit n d m = (if n = 0 then Inr d else if n < 1 \<or> m < n then Inl AiInvalidInput else Inr n)"

record allowed_session =
  iw_uuid :: string
  iw_peer :: string
  iw_name :: string
  iw_created :: int

text \<open>Newest first: the table is in the order of its identifiers, and sorting keeps that order among equals.\<close>

definition newest :: "('a \<Rightarrow> int) \<Rightarrow> 'a list \<Rightarrow> 'a list" where
  "newest created rows = rev (sort_key created rows)"

definition list_allowed_sessions ::
  "dbms \<Rightarrow> assistant_env \<Rightarrow> string \<Rightarrow> int \<Rightarrow> db \<Rightarrow> assistant_error + allowed_session list" where
  "list_allowed_sessions D env user limit S =
     (if trim_space user = [] then Inl AiInvalidInput
      else bindE (normalize_limit limit 50 100) (\<lambda>n.
        let peer = (\<lambda>s. if db_same D (se_send s) user then se_receive s else se_send s);
            rows = filter (\<lambda>((s, a), u). db_same D (us_uuid u) (peer s)) (List.product (allowed_rows D user S) (db_users S))
        in
        if ai_fault env IsRows then Inl AiDatabase
        else Inr (take (nat n) (map (\<lambda>((s, a), u). \<lparr>iw_uuid = se_uuid s, iw_peer = peer s, iw_name = us_nick u, iw_created = se_created s\<rparr>)
                    (newest (\<lambda>((s, a), u). se_created s) rows)))))"

section \<open>Messages\<close>

record assistant_message =
  im_uuid :: string
  im_in :: string
  im_from :: string
  im_name :: string
  im_to :: string
  im_kind :: int
  im_body :: string
  im_by :: int
  im_at :: int

definition map_messages :: "dbms \<Rightarrow> assistant_env \<Rightarrow> db \<Rightarrow> message_row list \<Rightarrow> assistant_error + assistant_message list" where
  "map_messages D env S ms =
     (if ms = [] then Inr []
      else if ai_fault env IsSenders then Inl AiDatabase
      else
        let senders = filter (\<lambda>r. among D (us_uuid r) (map ms_send ms)) (db_users S) in
        Inr (map (\<lambda>m. \<lparr>im_uuid = ms_uuid m, im_in = ms_session m, im_from = ms_send m, im_name = name_in senders (ms_send m),
                       im_to = ms_receive m, im_kind = ms_type m, im_body = ms_content m, im_by = ms_origin m, im_at = ms_created m\<rparr>) ms))"

text \<open>Messages by time and then identifier, newest first.\<close>

definition newest_messages :: "message_row list \<Rightarrow> message_row list" where
  "newest_messages ms = newest ms_created (sort_key ms_id ms)"

definition before_row :: "message_row \<Rightarrow> message_row \<Rightarrow> bool" where
  "before_row b m = (ms_created m < ms_created b \<or> ms_created m = ms_created b \<and> ms_id m < ms_id b)"

definition recent_rows :: "dbms \<Rightarrow> string \<Rightarrow> message_row option \<Rightarrow> db \<Rightarrow> message_row list" where
  "recent_rows D sid boundary S =
     newest_messages (filter (\<lambda>m. db_same D (ms_session m) sid \<and> (case boundary of None \<Rightarrow> True | Some b \<Rightarrow> before_row b m)) (db_messages S))"

text \<open>\<open>GetRecentMessages\<close>: one page before a boundary, oldest first, and whether there is more.\<close>

definition recent_messages ::
  "dbms \<Rightarrow> assistant_env \<Rightarrow> string \<Rightarrow> string \<Rightarrow> string \<Rightarrow> int \<Rightarrow> db \<Rightarrow> assistant_error + assistant_message list \<times> bool" where
  "recent_messages D env user sid before limit S =
     bindE (ensure_access D env user sid S) (\<lambda>_.
     bindE (normalize_limit limit 50 100) (\<lambda>n.
     bindE (if before = [] then Inr None
            else if ai_fault env IsBoundary then Inl AiDatabase
            else case List.find (\<lambda>m. db_same D (ms_uuid m) before \<and> db_same D (ms_session m) sid) (db_messages S) of
              None \<Rightarrow> Inl AiNotFound
            | Some b \<Rightarrow> Inr (Some b)) (\<lambda>boundary.
       if ai_fault env IsRows then Inl AiDatabase
       else
         let rows = take (nat n + 1) (recent_rows D sid boundary S) in
         bindE (map_messages D env S (rev (take (nat n) rows))) (\<lambda>ms. Inr (ms, nat n < length rows)))))"

text \<open>\<open>escapeLike\<close>.\<close>

fun escape_like :: "string \<Rightarrow> string" where
  "escape_like [] = []"
| "escape_like (c # s) = (if c = backslash \<or> c = CHR ''%'' \<or> c = CHR ''_'' then backslash # c # escape_like s else c # escape_like s)"

text \<open>Where a search looks: one session, or all sessions open to the assistant.\<close>

definition search_within :: "dbms \<Rightarrow> string \<Rightarrow> string \<Rightarrow> db \<Rightarrow> message_row \<Rightarrow> bool" where
  "search_within D user sid S m =
     (if sid \<noteq> [] then db_same D (ms_session m) sid
      else \<exists>(s, a) \<in> set (allowed_rows D user S). db_same D (ms_session m) (se_uuid s))"

definition search_messages ::
  "dbms \<Rightarrow> assistant_env \<Rightarrow> string \<Rightarrow> string \<Rightarrow> string \<Rightarrow> int \<Rightarrow> db \<Rightarrow> assistant_error + assistant_message list" where
  "search_messages D env user query sid limit S =
     (let q = trim_space query in
      if user = [] \<or> q = [] \<or> 200 < rune_count q then Inl AiInvalidInput
      else bindE (normalize_limit limit 30 50) (\<lambda>n.
        bindE (if sid \<noteq> [] then ensure_access D env user sid S else Inr ()) (\<lambda>_.
          let pattern = ''%'' @ escape_like q @ ''%'' in
          if ai_fault env IsRows then Inl AiDatabase
          else map_messages D env S
            (take (nat n) (newest_messages (filter (\<lambda>m. ai_like env (ms_content m) pattern \<and> search_within D user sid S m) (db_messages S)))))))"

end
