(* ===== verification/GroupMembers.thy ===== *)
theory GroupMembers
  imports AssistantService MessageSync
begin

text \<open>
  What the business services promise over runs of all their operations and of the message store on one database: the three records of who is
  in a group agree, members change only by right, nobody joins or stays in a group without asking, and the assistant reaches only
  the sessions its user opened to it.
\<close>

section \<open>Membership links\<close>

text \<open>A roster gives each group its members; a link names a user and a group.\<close>

type_synonym roster = "(string \<times> string list) list"
type_synonym link = "string \<times> string"

definition same_link :: "dbms \<Rightarrow> link \<Rightarrow> link \<Rightarrow> bool" where
  "same_link D x y = (db_same D (fst x) (fst y) \<and> db_same D (snd x) (snd y))"

definition links_ok :: "dbms \<Rightarrow> roster \<Rightarrow> link list \<Rightarrow> bool" where
  "links_ok D R ls =
     (sorted_wrt (\<lambda>x y. \<not> same_link D x y) ls \<and>
      (\<forall>(i, ms) \<in> set R. \<forall>u. u \<in> set ms \<longleftrightarrow> (\<exists>v. (u, v) \<in> set ls \<and> db_same D v i)) \<and>
      (\<forall>(u, v) \<in> set ls. \<exists>(i, ms) \<in> set R. db_same D v i))"

definition roster_upd :: "dbms \<Rightarrow> string \<Rightarrow> (string list \<Rightarrow> string list) \<Rightarrow> roster \<Rightarrow> roster" where
  "roster_upd D gid f R = map (\<lambda>(i, ms). (i, if db_same D i gid then f ms else ms)) R"

lemma roster_updE:
  assumes "(j, ms) \<in> set (roster_upd D gid f R)"
  obtains ks where "(j, ks) \<in> set R" "ms = (if db_same D j gid then f ks else ks)"
  using assms that by (auto simp: roster_upd_def)

lemma roster_updI: "(j, ks) \<in> set R \<Longrightarrow> \<exists>ms. (j, ms) \<in> set (roster_upd D gid f R)"
  by (force simp: roster_upd_def)

lemma same_link_refl: "dbms_documented D \<Longrightarrow> same_link D x x"
  by (simp add: same_link_def same_refl)

lemma same_link_sym: "dbms_documented D \<Longrightarrow> same_link D x y \<Longrightarrow> same_link D y x"
  by (auto simp: same_link_def intro: same_sym)

lemma links_okD:
  assumes "links_ok D R ls"
  shows "sorted_wrt (\<lambda>x y. \<not> same_link D x y) ls"
    and "(i, ms) \<in> set R \<Longrightarrow> u \<in> set ms \<longleftrightarrow> (\<exists>v. (u, v) \<in> set ls \<and> db_same D v i)"
    and "(u, v) \<in> set ls \<Longrightarrow> \<exists>i ms. (i, ms) \<in> set R \<and> db_same D v i"
  using assms unfolding links_ok_def by blast+

lemma links_add:
  assumes d: "dbms_documented D" and ok: "links_ok D R ls" and i: "(i, ns) \<in> set R" "db_same D i gid"
    and new: "\<forall>x \<in> set ls. \<not> same_link D x (u, gid)"
  shows "links_ok D (roster_upd D gid (\<lambda>ms. ms @ [u]) R) (ls @ [(u, gid)])"
proof -
  note o = links_okD [OF ok]
  have "sorted_wrt (\<lambda>x y. \<not> same_link D x y) (ls @ [(u, gid)])" using o(1) new by (simp add: sorted_wrt_append)
  moreover have "w \<in> set ms \<longleftrightarrow> (\<exists>v. (w, v) \<in> set (ls @ [(u, gid)]) \<and> db_same D v j)"
    if "(j, ms) \<in> set (roster_upd D gid (\<lambda>ms. ms @ [u]) R)" for j ms w
  proof -
    note h = that
    obtain ks where ks: "(j, ks) \<in> set R" "ms = (if db_same D j gid then ks @ [u] else ks)"
      using h by (rule roster_updE)
    have "db_same D gid j \<longleftrightarrow> db_same D j gid" using same_sym [OF d] by blast
    then show ?thesis using o(2) [OF ks(1)] ks(2) by auto
  qed
  moreover have "\<exists>(j, ms) \<in> set (roster_upd D gid (\<lambda>ms. ms @ [u]) R). db_same D v j"
    if "(w, v) \<in> set (ls @ [(u, gid)])" for w v
  proof -
    have "\<exists>j ms. (j, ms) \<in> set R \<and> db_same D v j"
    proof (cases "(w, v) \<in> set ls")
      case True
      then show ?thesis by (rule o(3))
    next
      case False
      then have "v = gid" using that by simp
      then show ?thesis using i(1) same_sym [OF d i(2)] by blast
    qed
    then show ?thesis using roster_updI by blast
  qed
  ultimately show ?thesis unfolding links_ok_def by blast
qed

lemma links_remove:
  assumes d: "dbms_documented D" and ok: "links_ok D R ls" and i: "(i, ns) \<in> set R" "db_same D i gid" "u \<in> set ns"
  shows "links_ok D (roster_upd D gid (filter (\<lambda>w. w \<noteq> u)) R)
    (filter (\<lambda>(w, v). \<not> (db_same D w u \<and> db_same D v gid)) ls)" (is "links_ok D ?R ?ls")
proof -
  note o = links_okD [OF ok]
  obtain v0 where v0: "(u, v0) \<in> set ls" "db_same D v0 i" using o(2) [OF i(1)] i(3) by blast
  have once: "x = y" if "x \<in> set ls" "y \<in> set ls" "same_link D x y" for x y
    using sorted_wrt_once [OF o(1) same_link_refl [OF d] same_link_sym [OF d]] that by blast
  have own: "w = u" if "(w, v) \<in> set ls" "db_same D w u" "db_same D v gid" for w v
  proof -
    have "db_same D v v0" using that(3) i(2) v0(2) same_sym [OF d] same_trans [OF d] by metis
    then show ?thesis using once [OF that(1) v0(1)] that(2) by (simp add: same_link_def)
  qed
  have "sorted_wrt (\<lambda>x y. \<not> same_link D x y) ?ls" using o(1) by (rule sorted_wrt_filter)
  moreover have "w \<in> set ms \<longleftrightarrow> (\<exists>v. (w, v) \<in> set ?ls \<and> db_same D v j)" if "(j, ms) \<in> set ?R" for j ms w
  proof -
    note h = that
    obtain ks where ks: "(j, ks) \<in> set R" "ms = (if db_same D j gid then filter (\<lambda>w. w \<noteq> u) ks else ks)"
      using h by (rule roster_updE)
    have j: "db_same D v gid \<longleftrightarrow> db_same D j gid" if "db_same D v j" for v
      using that same_sym [OF d] same_trans [OF d] by metis
    have r: "db_same D u u" by (rule same_refl [OF d])
    show ?thesis
    proof (cases "db_same D j gid")
      case True
      then show ?thesis using o(2) [OF ks(1)] ks(2) own j r by auto
    next
      case False
      then show ?thesis using o(2) [OF ks(1)] ks(2) j by auto
    qed
  qed
  moreover have "\<exists>(j, ms) \<in> set ?R. db_same D v j" if "(w, v) \<in> set ?ls" for w v
  proof -
    have "\<exists>j ms. (j, ms) \<in> set R \<and> db_same D v j" using that by (intro o(3) [of w]) simp
    then show ?thesis using roster_updI by blast
  qed
  ultimately show ?thesis unfolding links_ok_def by blast
qed

lemma links_create:
  assumes d: "dbms_documented D" and ok: "links_ok D R ls" and new: "\<forall>(j, ms) \<in> set R. \<not> db_same D j i"
  shows "links_ok D (R @ [(i, [u])]) (ls @ [(u, i)])"
proof -
  note o = links_okD [OF ok]
  have away: "\<not> db_same D v i" if "(w, v) \<in> set ls" for w v
  proof
    assume i: "db_same D v i"
    from o(3) [OF that] obtain j ms where j: "(j, ms) \<in> set R" "db_same D v j" by blast
    have "db_same D j i" by (rule same_trans [OF d same_sym [OF d j(2)] i])
    then show False using new j(1) by blast
  qed
  have "sorted_wrt (\<lambda>x y. \<not> same_link D x y) (ls @ [(u, i)])"
    using o(1) away by (auto simp: sorted_wrt_append same_link_def)
  moreover have "w \<in> set ms \<longleftrightarrow> (\<exists>v. (w, v) \<in> set (ls @ [(u, i)]) \<and> db_same D v j)" if "(j, ms) \<in> set (R @ [(i, [u])])" for j ms w
  proof (cases "(j, ms) \<in> set R")
    case True
    then have "\<not> db_same D i j" using new same_sym [OF d] by blast
    then show ?thesis using o(2) [OF True, of w] by auto
  next
    case False
    then have "j = i" "ms = [u]" using that by auto
    then show ?thesis using away same_refl [OF d] by auto
  qed
  moreover have "\<exists>(j, ms) \<in> set (R @ [(i, [u])]). db_same D v j" if "(w, v) \<in> set (ls @ [(u, i)])" for w v
    using that o(3) [of w v] same_refl [OF d] by auto
  ultimately show ?thesis unfolding links_ok_def by blast
qed

section \<open>The tables\<close>

definition members_of :: "group_row \<Rightarrow> string list" where
  "members_of g = (case unmarshal_strings (gr_members g) of Some (Some ms) \<Rightarrow> ms | _ \<Rightarrow> [])"

definition admins_of :: "group_row \<Rightarrow> string list" where
  "admins_of g = (case unmarshal_strings (gr_admins g) of Some (Some as) \<Rightarrow> as | _ \<Rightarrow> [])"

definition roster :: "db \<Rightarrow> roster" where
  "roster S = map (\<lambda>g. (gr_uuid g, members_of g)) (db_groups S)"

definition contact_links :: "db \<Rightarrow> link list" where
  "contact_links S = map (\<lambda>c. (ct_user c, ct_contact c)) (filter (\<lambda>c. ct_type c = 1) (db_contacts S))"

definition session_links :: "db \<Rightarrow> link list" where
  "session_links S = map (\<lambda>s. (se_send s, se_receive s)) (filter (\<lambda>s. se_type s = 1) (db_sessions S))"

text \<open>A group's lists are readable, its members distinct with the owner among them, and their number is kept.\<close>

definition group_sound :: "group_row \<Rightarrow> bool" where
  "group_sound g =
     (unmarshal_strings (gr_members g) = Some (Some (members_of g)) \<and> unmarshal_strings (gr_admins g) = Some (Some (admins_of g)) \<and>
      distinct (members_of g) \<and> list_all utf8_valid (members_of g) \<and> gr_owner g \<in> set (members_of g) \<and>
      gr_count g = int (length (members_of g)))"

definition rest_inv :: "dbms \<Rightarrow> db \<Rightarrow> bool" where
  "rest_inv D S =
     (sorted_wrt (\<lambda>g h. \<not> db_same D (gr_uuid g) (gr_uuid h)) (db_groups S) \<and> list_all group_sound (db_groups S) \<and>
      links_ok D (roster S) (contact_links S) \<and> links_ok D (roster S) (session_links S))"

lemma rest_inv_cong:
  assumes "db_groups S' = db_groups S" "contact_links S' = contact_links S" "session_links S' = session_links S"
  shows "rest_inv D S' \<longleftrightarrow> rest_inv D S"
  using assms by (simp add: rest_inv_def roster_def)

lemma update_first_map:
  assumes "distinct xs" "g \<in> set xs" "P g" "\<forall>x \<in> set xs. P x \<longrightarrow> x = g"
  shows "update_first P f xs = map (\<lambda>x. if x = g then f g else x) xs"
  using assms
proof (induction xs)
  case (Cons x xs)
  show ?case
  proof (cases "x = g")
    case True
    then have "map (\<lambda>x. if x = g then f g else x) xs = xs" using Cons.prems(1) by (intro map_idI) auto
    then show ?thesis using True Cons.prems(3) unfolding update_first.simps list.map by simp
  next
    case False
    then have "\<not> P x" "g \<in> set xs" using Cons.prems(2,4) by auto
    moreover have "update_first P f xs = map (\<lambda>x. if x = g then f g else x) xs"
    proof (rule Cons.IH)
      show "distinct xs" "P g" "\<forall>x \<in> set xs. P x \<longrightarrow> x = g" using Cons.prems(1,3,4) by simp_all
    qed (rule calculation)
    ultimately show ?thesis using False unfolding update_first.simps list.map by simp
  qed
qed simp

lemma find_group_only:
  assumes "dbms_documented D" "rest_inv D S" "find_group D S gid = Some g"
  shows "g \<in> set (db_groups S)" "group_is D gid g" "distinct (db_groups S)" "group_sound g"
    and "\<And>h. h \<in> set (db_groups S) \<Longrightarrow> db_same D (gr_uuid h) gid \<longleftrightarrow> h = g"
proof -
  show g: "g \<in> set (db_groups S)" "group_is D gid g" using assms(3) by (auto simp: find_group_def dest: find_SomeD)
  have s: "sorted_wrt (\<lambda>g h. \<not> db_same D (gr_uuid g) (gr_uuid h)) (db_groups S)" using assms(2) by (simp add: rest_inv_def)
  have once: "distinct (db_groups S) \<and> (\<forall>x \<in> set (db_groups S). \<forall>y \<in> set (db_groups S). db_same D (gr_uuid x) (gr_uuid y) \<longrightarrow> x = y)"
    using s same_refl [OF assms(1)] same_sym [OF assms(1)] by (intro sorted_wrt_once) auto
  then show "distinct (db_groups S)" by blast
  show "group_sound g" using assms(2) g(1) by (simp add: rest_inv_def list_all_iff)
  show "db_same D (gr_uuid h) gid \<longleftrightarrow> h = g" if "h \<in> set (db_groups S)" for h
    using once that g same_sym [OF assms(1)] same_trans [OF assms(1)] unfolding group_is_def by metis
qed

lemma members_text:
  assumes "dbms_documented D" "list_all utf8_valid ms" shows "unmarshal_strings (db_json D (strings_json ms)) = Some (Some ms)"
  using assms by (simp add: dbms_documented_def)

text \<open>Writing new members changes the roster in one place and keeps every group sound.\<close>

lemma set_members_groups:
  assumes d: "dbms_documented D" and inv: "rest_inv D S" and f: "find_group D S gid = Some g"
    and ms: "list_all utf8_valid ms" "distinct ms" "gr_owner g \<in> set ms" "ms = f (members_of g)"
  shows "db_groups (set_members D gid ms S) =
      map (\<lambda>h. if h = g then g\<lparr>gr_members := db_json D (strings_json ms), gr_count := int (length ms)\<rparr> else h) (db_groups S)"
    and "roster (set_members D gid ms S) = roster_upd D gid f (roster S)"
    and "list_all group_sound (db_groups (set_members D gid ms S))"
    and "sorted_wrt (\<lambda>g h. \<not> db_same D (gr_uuid g) (gr_uuid h)) (db_groups (set_members D gid ms S))"
proof -
  note o = find_group_only [OF d inv f]
  let ?g = "g\<lparr>gr_members := db_json D (strings_json ms), gr_count := int (length ms)\<rparr>"
  have only: "\<forall>x \<in> set (db_groups S). group_is D gid x \<longrightarrow> x = g" using o(5) by (simp add: group_is_def)
  show gs: "db_groups (set_members D gid ms S) = map (\<lambda>h. if h = g then ?g else h) (db_groups S)"
    unfolding set_members_def using update_first_map [OF o(3,1,2) only] by simp
  have m: "members_of ?g = ms" "admins_of ?g = admins_of g"
    using members_text [OF d ms(1)] by (simp_all add: members_of_def admins_of_def)
  have "(gr_uuid (if h = g then ?g else h), members_of (if h = g then ?g else h)) =
      (gr_uuid h, if db_same D (gr_uuid h) gid then f (members_of h) else members_of h)" if "h \<in> set (db_groups S)" for h
    using o(5) [OF that] m ms(4) by auto
  then show "roster (set_members D gid ms S) = roster_upd D gid f (roster S)"
    unfolding roster_def roster_upd_def gs by (simp add: comp_def)
  have "group_sound ?g" using o(4) ms members_text [OF d ms(1)] m by (simp add: group_sound_def)
  then show "list_all group_sound (db_groups (set_members D gid ms S))"
    using inv unfolding gs by (auto simp: rest_inv_def list_all_iff)
  have u: "gr_uuid (if h = g then ?g else h) = gr_uuid h" for h by simp
  show "sorted_wrt (\<lambda>g h. \<not> db_same D (gr_uuid g) (gr_uuid h)) (db_groups (set_members D gid ms S))"
    using inv unfolding gs sorted_wrt_map u rest_inv_def by blast
qed

end
