(* ===== verification/GroupRuns.thy ===== *)
theory GroupRuns
  imports GroupMembers
begin

text \<open>
  Runs of the business services over one database with the message store: each operation keeps the invariant of GroupMembers and changes the
  roster only as it may; from this follow who can be a member, who can send, and what the assistant can reach.
\<close>

section \<open>Linking and unlinking\<close>

lemma run_tx_state: "snd (run_tx b fate raw body S) = S \<or> (\<exists>x. body S = Inr (x, snd (run_tx b fate raw body S)))"
  by (auto simp: run_tx_def split: sum.split prod.split commit_fate.split)

lemma run_tx_Inr: "run_tx b fate raw body S = (Inr x, S') \<Longrightarrow> body S = Inr (x, S')"
  by (auto simp: run_tx_def split: if_splits sum.splits prod.splits commit_fate.splits)

lemma link_member_Inr:
  assumes "link_member D env u gid S = Inr S'"
  shows "db_groups S' = db_groups S" "contact_links S' = contact_links S @ [(u, gid)]" "session_links S' = session_links S @ [(u, gid)]"
    and "db_applies S' = db_applies S" "db_access S' = db_access S"
    and "\<forall>x \<in> set (contact_links S). \<not> same_link D x (u, gid)" "\<forall>x \<in> set (session_links S). \<not> same_link D x (u, gid)"
proof -
  obtain S1 where s1: "insert_contact D (ge_fault env GsContact) (group_contact u gid) S = Inr S1"
    and s2: "insert_session D (ge_fault env GsSession) (group_session env u gid) S1 = Inr S'"
    using assms by (auto simp: link_member_def bindE_eq_Inr)
  have c: "S1 = S\<lparr>db_contacts := db_contacts S @ [group_contact u gid]\<rparr>"
      "\<forall>c \<in> set (db_contacts S). \<not> (db_same D (ct_user c) u \<and> db_same D (ct_contact c) gid \<and> ct_type c = 1)"
    using s1 by (auto simp: insert_contact_def group_contact_def split: if_splits)
  have s: "S' = S1\<lparr>db_sessions := db_sessions S1 @ [group_session env u gid]\<rparr>"
      "\<forall>s \<in> set (db_sessions S1). \<not> (db_same D (se_send s) u \<and> db_same D (se_receive s) gid)"
    using s2 by (auto simp: insert_session_def group_session_def split: if_splits)
  show "db_groups S' = db_groups S" "contact_links S' = contact_links S @ [(u, gid)]" "session_links S' = session_links S @ [(u, gid)]"
    "db_applies S' = db_applies S" "db_access S' = db_access S"
    using c(1) s(1) by (simp_all add: contact_links_def session_links_def group_contact_def group_session_def)
  show "\<forall>x \<in> set (contact_links S). \<not> same_link D x (u, gid)" "\<forall>x \<in> set (session_links S). \<not> same_link D x (u, gid)"
    using c s(2) by (auto simp: contact_links_def session_links_def same_link_def)
qed

lemma set_members_links [simp]:
  "contact_links (set_members D gid ms S) = contact_links S" "session_links (set_members D gid ms S) = session_links S"
  "db_applies (set_members D gid ms S) = db_applies S" "db_access (set_members D gid ms S) = db_access S"
  by (simp_all add: set_members_def contact_links_def session_links_def)

lemma applies_links [simp]:
  "contact_links (S\<lparr>db_applies := a\<rparr>) = contact_links S" "session_links (S\<lparr>db_applies := a\<rparr>) = session_links S"
  "roster (S\<lparr>db_applies := a\<rparr>) = roster S"
  by (simp_all add: contact_links_def session_links_def roster_def)

lemma roster_entry: "g \<in> set (db_groups S) \<Longrightarrow> (gr_uuid g, members_of g) \<in> set (roster S)"
  by (auto simp: roster_def)

lemma join_inv:
  assumes d: "dbms_documented D" and inv: "rest_inv D S" and f: "find_group D S gid = Some g" and u: "u \<notin> set (members_of g)" "utf8_valid u"
    and l: "link_member D env u gid (set_members D gid (members_of g @ [u]) S\<lparr>db_applies := as\<rparr>) = Inr S'"
  shows "rest_inv D S'" "roster S' = roster_upd D gid (\<lambda>ms. ms @ [u]) (roster S)" "db_applies S' = as"
    and "db_groups S' = map (\<lambda>h. if h = g then g\<lparr>gr_members := db_json D (strings_json (members_of g @ [u])),
                                              gr_count := int (length (members_of g @ [u]))\<rparr> else h) (db_groups S)"
proof -
  let ?ms = "members_of g @ [u]"
  note o = find_group_only [OF d inv f]
  have ms: "list_all utf8_valid ?ms" "distinct ?ms" "gr_owner g \<in> set ?ms" using o(4) u by (simp_all add: group_sound_def)
  note gs = set_members_groups [OF d inv f ms, where f = "\<lambda>ms. ms @ [u]", OF refl]
  note k = link_member_Inr [OF l]
  have g: "db_groups S' = db_groups (set_members D gid ?ms S)" using k(1) by simp
  then show r: "roster S' = roster_upd D gid (\<lambda>ms. ms @ [u]) (roster S)" using gs(2) by (simp add: roster_def)
  show "db_applies S' = as" using k(4) by simp
  have i: "db_same D (gr_uuid g) gid" using o(2) by (simp add: group_is_def)
  have ok: "links_ok D (roster S) (contact_links S)" "links_ok D (roster S) (session_links S)" using inv by (simp_all add: rest_inv_def)
  have "links_ok D (roster S') (contact_links S')" "links_ok D (roster S') (session_links S')"
    using links_add [OF d ok(1) roster_entry [OF o(1)] i, of u] links_add [OF d ok(2) roster_entry [OF o(1)] i, of u] k(2,3,6,7) r by simp_all
  then show "rest_inv D S'" using gs(3,4) g by (simp add: rest_inv_def)
  show "db_groups S' = map (\<lambda>h. if h = g then g\<lparr>gr_members := db_json D (strings_json ?ms), gr_count := int (length ?ms)\<rparr> else h) (db_groups S)"
    using gs(1) g by simp
qed

text \<open>A member is linked already, so a second link is refused.\<close>

lemma link_member_again:
  assumes d: "dbms_documented D" and inv: "rest_inv D S" and f: "find_group D S gid = Some g" and u: "u \<in> set (members_of g)"
    and s: "contact_links S1 = contact_links S"
  shows "link_member D env u gid S1 \<noteq> Inr S'"
proof
  assume l: "link_member D env u gid S1 = Inr S'"
  note o = find_group_only [OF d inv f]
  have ok: "links_ok D (roster S) (contact_links S)" using inv by (simp add: rest_inv_def)
  obtain v where v: "(u, v) \<in> set (contact_links S)" "db_same D v (gr_uuid g)"
    using links_okD(2) [OF ok roster_entry [OF o(1)], of u] u by blast
  have "db_same D v gid" using v(2) o(2) same_trans [OF d] by (auto simp: group_is_def)
  then show False using link_member_Inr(6) [OF l] v(1) s same_refl [OF d] by (auto simp: same_link_def)
qed

lemma unlink_links:
  "contact_links (unlink_member D u gid S) = filter (\<lambda>(w, v). \<not> (db_same D w u \<and> db_same D v gid)) (contact_links S)"
  "session_links (unlink_member D u gid S) = filter (\<lambda>(w, v). \<not> (db_same D w u \<and> db_same D v gid)) (session_links S)"
  "db_groups (unlink_member D u gid S) = db_groups S" "db_applies (unlink_member D u gid S) = db_applies S"
  "db_access (unlink_member D u gid S) = db_access S"
  by (auto simp: unlink_member_def contact_links_def session_links_def filter_map comp_def intro!: arg_cong [where f = "map _"] filter_cong)

lemma leave_inv:
  assumes d: "dbms_documented D" and inv: "rest_inv D S" and f: "find_group D S gid = Some g" and u: "u \<in> set (members_of g)" "u \<noteq> gr_owner g"
    and S': "S' = unlink_member D u gid (set_members D gid (filter (\<lambda>w. w \<noteq> u) (members_of g)) S)"
  shows "rest_inv D S'" "roster S' = roster_upd D gid (filter (\<lambda>w. w \<noteq> u)) (roster S)"
    and "db_groups S' = map (\<lambda>h. if h = g then g\<lparr>gr_members := db_json D (strings_json (filter (\<lambda>w. w \<noteq> u) (members_of g))),
                                              gr_count := int (length (filter (\<lambda>w. w \<noteq> u) (members_of g)))\<rparr> else h) (db_groups S)"
proof -
  let ?ms = "filter (\<lambda>w. w \<noteq> u) (members_of g)"
  note o = find_group_only [OF d inv f]
  have ms: "list_all utf8_valid ?ms" "distinct ?ms" "gr_owner g \<in> set ?ms" using o(4) u by (auto simp: group_sound_def list_all_iff)
  note gs = set_members_groups [OF d inv f ms, where f = "filter (\<lambda>w. w \<noteq> u)", OF refl]
  have g: "db_groups S' = db_groups (set_members D gid ?ms S)" using S' by (simp add: unlink_links)
  then show r: "roster S' = roster_upd D gid (filter (\<lambda>w. w \<noteq> u)) (roster S)" using gs(2) by (simp add: roster_def)
  have i: "db_same D (gr_uuid g) gid" using o(2) by (simp add: group_is_def)
  have ok: "links_ok D (roster S) (contact_links S)" "links_ok D (roster S) (session_links S)" using inv by (simp_all add: rest_inv_def)
  have "links_ok D (roster S') (contact_links S')" "links_ok D (roster S') (session_links S')"
    using links_remove [OF d ok(1) roster_entry [OF o(1)] i u(1)] links_remove [OF d ok(2) roster_entry [OF o(1)] i u(1)] r
    by (simp_all add: S' unlink_links)
  then show "rest_inv D S'" using gs(3,4) g by (simp add: rest_inv_def)
  show "db_groups S' = map (\<lambda>h. if h = g then g\<lparr>gr_members := db_json D (strings_json ?ms), gr_count := int (length ?ms)\<rparr> else h) (db_groups S)"
    using gs(1) g by simp
qed

lemma create_group_inv:
  assumes d: "dbms_documented D" and inv: "rest_inv D S" and u: "utf8_valid owner"
    and c: "create_body D env owner (new_group env owner name mode) S = Inr (x, S')"
  shows "rest_inv D S'" "db_applies S' = db_applies S" "db_access S' = db_access S"
    and "roster S' = roster S @ [(CHR ''G'' # ge_uuid env, [owner])]" "\<forall>(j, ms) \<in> set (roster S). \<not> db_same D j (CHR ''G'' # ge_uuid env)"
    and "\<exists>g. db_groups S' = db_groups S @ [g] \<and> gr_uuid g = CHR ''G'' # ge_uuid env"
proof -
  let ?i = "CHR ''G'' # ge_uuid env"
  let ?g = "(new_group env owner name mode)\<lparr>gr_members := db_json D (strings_json [owner]), gr_admins := db_json D (strings_json [])\<rparr>"
  obtain S1 where g1: "S1 = S\<lparr>db_groups := db_groups S @ [?g]\<rparr>" "\<forall>h \<in> set (db_groups S). \<not> db_same D (gr_uuid h) ?i"
    and l: "link_member D env owner ?i S1 = Inr S'"
    using c by (auto simp: create_body_def bindE_eq_Inr insert_group_def new_group_def split: if_splits)
  note k = link_member_Inr [OF l]
  have t: "unmarshal_strings (db_json D (strings_json [owner])) = Some (Some [owner])" "unmarshal_strings (db_json D (strings_json [])) = Some (Some [])"
    using members_text [OF d, of "[owner]"] members_text [OF d, of "[]"] u by simp_all
  have m: "members_of ?g = [owner]" "admins_of ?g = []" using t by (simp_all add: members_of_def admins_of_def)
  have gs: "db_groups S' = db_groups S @ [?g]" using k(1) g1(1) by simp
  show r: "roster S' = roster S @ [(?i, [owner])]" using gs m by (simp add: roster_def new_group_def)
  show n: "\<forall>(j, ms) \<in> set (roster S). \<not> db_same D j ?i" using g1(2) by (auto simp: roster_def)
  show "db_applies S' = db_applies S" "db_access S' = db_access S" using k(4,5) g1(1) by simp_all
  show "\<exists>g. db_groups S' = db_groups S @ [g] \<and> gr_uuid g = ?i" using gs by (auto simp: new_group_def)
  have ok: "links_ok D (roster S) (contact_links S)" "links_ok D (roster S) (session_links S)" using inv by (simp_all add: rest_inv_def)
  have cl: "contact_links S' = contact_links S @ [(owner, ?i)]" "session_links S' = session_links S @ [(owner, ?i)]"
    using k(2,3) g1(1) by (simp_all add: contact_links_def session_links_def)
  have "links_ok D (roster S') (contact_links S')" "links_ok D (roster S') (session_links S')"
    using links_create [OF d ok(1) n, of owner] links_create [OF d ok(2) n, of owner] cl r by simp_all
  moreover have "group_sound ?g" unfolding group_sound_def m using t u by (simp add: new_group_def)
  moreover have "sorted_wrt (\<lambda>g h. \<not> db_same D (gr_uuid g) (gr_uuid h)) (db_groups S')"
    using inv g1(2) unfolding gs by (auto simp: rest_inv_def sorted_wrt_append new_group_def)
  ultimately show "rest_inv D S'" using inv gs by (simp add: rest_inv_def)
qed

section \<open>What each operation does\<close>

definition unmoved :: "db \<Rightarrow> db \<Rightarrow> bool" where
  "unmoved S S' = (db_groups S' = db_groups S \<and> contact_links S' = contact_links S \<and> session_links S' = session_links S)"

lemma unmoved_refl [simp]: "unmoved S S"
  by (simp add: unmoved_def)

lemma unmoved_inv: "unmoved S S' \<Longrightarrow> rest_inv D S' = rest_inv D S"
  unfolding unmoved_def by (intro rest_inv_cong) simp_all

definition with_members :: "dbms \<Rightarrow> group_row \<Rightarrow> string list \<Rightarrow> group_row" where
  "with_members D g ms = g\<lparr>gr_members := db_json D (strings_json ms), gr_count := int (length ms)\<rparr>"

definition swapped :: "dbms \<Rightarrow> group_row \<Rightarrow> string list \<Rightarrow> group_row list \<Rightarrow> group_row list" where
  "swapped D g ms gs = map (\<lambda>h. if h = g then with_members D g ms else h) gs"

lemma decode_members:
  assumes "group_sound g" "decode_ids (gr_members g) = Inr x" shows "x = Some (members_of g)"
  using assms by (simp add: group_sound_def decode_ids_def)

lemma decode_admins:
  assumes "group_sound g" "decode_ids (gr_admins g) = Inr x" shows "x = Some (admins_of g)"
  using assms by (simp add: group_sound_def decode_ids_def)

lemma contains_Some [simp]: "contains_id (Some xs) i \<longleftrightarrow> i \<in> set xs"
  by (simp add: contains_id_def nil_list_def)

text \<open>A join changes nothing of the groups, or leaves an application, or appends the user to an open group.\<close>

lemma join_effect:
  assumes d: "dbms_documented D" and inv: "rest_inv D S" and u: "utf8_valid user" and b: "join_body D env user gid S = Inr (p, S')"
  obtains (same) "unmoved S S'" "db_access S' = db_access S"
      "\<forall>a \<in> set (db_applies S'). a \<in> set (db_applies S) \<or> ap_applicant a = user \<and> ap_contact a = gid"
  | (joined) g where "find_group D S gid = Some g" "gr_status g = 0" "gr_mode g \<notin> {1, 2}" "user_exists D S user" "user \<notin> set (members_of g)"
      "rest_inv D S'" "db_groups S' = swapped D g (members_of g @ [user]) (db_groups S)"
      "roster S' = roster_upd D gid (\<lambda>ms. ms @ [user]) (roster S)" "db_applies S' = db_applies S" "db_access S' = db_access S" "\<not> p"
proof -
  from b obtain g x where g: "find_group D S gid = Some g" "gr_status g = 0" "user_exists D S user" "decode_ids (gr_members g) = Inr x"
    and rest: "join_as D env user gid (gr_mode g) x S = Inr (p, S')"
    unfolding join_body_def by (auto simp: bindE_eq_Inr split: if_splits option.splits)
  have x: "x = Some (members_of g)" using decode_members [OF find_group_only(4) [OF d inv g(1)] g(4)] .
  show thesis
  proof (cases "user \<in> set (members_of g) \<or> gr_mode g = 1")
    case True
    then have "unmoved S S' \<and> db_access S' = db_access S \<and>
        (\<forall>a \<in> set (db_applies S'). a \<in> set (db_applies S) \<or> ap_applicant a = user \<and> ap_contact a = gid)"
      using rest x by (auto simp: join_as_def unmoved_def contact_links_def session_links_def split: if_splits)
    then show thesis using same by blast
  next
    case False
    then have m: "gr_mode g \<notin> {1, 2}" "\<not> p"
      and l: "link_member D env user gid (set_members D gid (members_of g @ [user]) S\<lparr>db_applies := db_applies S\<rparr>) = Inr S'"
      using rest x by (auto simp: join_as_def bindE_eq_Inr nil_list_def set_members_def split: if_splits)
    have n: "user \<notin> set (members_of g)" using False by blast
    note j = join_inv [OF d inv g(1) n u l]
    show thesis using joined [OF g(1,2) m(1) g(3) n j(1) _ j(2,3) _ m(2)] j(4) link_member_Inr(5) [OF l]
      by (simp add: swapped_def with_members_def)
  qed
qed

lemma leave_effect:
  assumes d: "dbms_documented D" and inv: "rest_inv D S" and b: "leave_body D env user gid S = Inr (p, S')"
  obtains (same) "S' = S" "\<exists>g. find_group D S gid = Some g \<and> user \<notin> set (members_of g)"
  | (left) g where "find_group D S gid = Some g" "gr_status g = 0" "user \<noteq> gr_owner g" "user \<in> set (members_of g)" "rest_inv D S'"
      "db_groups S' = swapped D g (filter (\<lambda>w. w \<noteq> user) (members_of g)) (db_groups S)"
      "roster S' = roster_upd D gid (filter (\<lambda>w. w \<noteq> user)) (roster S)" "db_applies S' = db_applies S" "db_access S' = db_access S"
proof -
  from b obtain g x where g: "find_group D S gid = Some g" "gr_status g = 0" "gr_owner g \<noteq> user" "decode_ids (gr_members g) = Inr x"
    and rest: "(let rest = filter (\<lambda>i. i \<noteq> user) (nil_list x) in
          if length rest = length (nil_list x) then Inr ((), S)
          else if ge_fault env GsUpdate \<or> ge_fault env GsContact \<or> ge_fault env GsSession then Inl GeRaw
          else Inr ((), unlink_member D user gid (set_members D gid rest S))) = Inr (p, S')"
    unfolding leave_body_def by (auto simp: bindE_eq_Inr split: if_splits option.splits)
  have x: "x = Some (members_of g)" using decode_members [OF find_group_only(4) [OF d inv g(1)] g(4)] .
  have len: "length (filter (\<lambda>i. i \<noteq> user) ms) = length ms \<longleftrightarrow> user \<notin> set ms" for ms
    using length_filter_less [of user ms "\<lambda>i. i \<noteq> user"] filter_True [of ms "\<lambda>i. i \<noteq> user"] by fastforce
  show thesis
  proof (cases "user \<in> set (members_of g)")
    case True
    then have S': "S' = unlink_member D user gid (set_members D gid (filter (\<lambda>w. w \<noteq> user) (members_of g)) S)"
      using rest x len [of "members_of g"] by (auto simp: nil_list_def Let_def split: if_splits)
    have n: "user \<noteq> gr_owner g" using g(3) by blast
    note l = leave_inv [OF d inv g(1) True n S']
    show thesis using left [OF g(1,2) n True l(1) _ l(2)] l(3) unlink_links(4,5) S' by (simp add: swapped_def with_members_def)
  next
    case False
    then have "S' = S" using rest x len [of "members_of g"] by (simp add: nil_list_def Let_def)
    then show thesis using same g(1) False by blast
  qed
qed

lemma approve_effect:
  assumes d: "dbms_documented D" and inv: "rest_inv D S" and u: "utf8_valid user" and b: "approve_body D env operator user gid S = Inr (p, S')"
  obtains g where "find_group D S gid = Some g" "operator = gr_owner g \<or> operator \<in> set (admins_of g)"
      "\<exists>a \<in> set (db_applies S). pending_apply D user gid a" "user \<notin> set (members_of g)" "rest_inv D S'"
      "db_groups S' = swapped D g (members_of g @ [user]) (db_groups S)"
      "roster S' = roster_upd D gid (\<lambda>ms. ms @ [user]) (roster S)"
      "db_applies S' = update_first (pending_apply D user gid) (\<lambda>a. a\<lparr>ap_status := 1\<rparr>) (db_applies S)" "db_access S' = db_access S"
proof -
  from b obtain g x y where g: "find_group D S gid = Some g" "decode_ids (gr_admins g) = Inr y" "operator = gr_owner g \<or> contains_id y operator"
      "\<exists>a \<in> set (db_applies S). pending_apply D user gid a" "decode_ids (gr_members g) = Inr x"
    and l: "link_member D env user gid
      (set_members D gid (if contains_id x user then nil_list x else nil_list x @ [user]) S\<lparr>db_applies :=
        update_first (pending_apply D user gid) (\<lambda>a. a\<lparr>ap_status := 1\<rparr>) (db_applies S)\<rparr>) = Inr S'"
    unfolding approve_body_def by (auto simp: bindE_eq_Inr Let_def split: if_splits option.splits)
  note s = find_group_only(4) [OF d inv g(1)]
  have x: "x = Some (members_of g)" "y = Some (admins_of g)" using decode_members [OF s g(5)] decode_admins [OF s g(2)] .
  have n: "user \<notin> set (members_of g)"
    using link_member_again [OF d inv g(1) _ _, of user "set_members D gid (if contains_id x user then nil_list x else nil_list x @ [user]) S\<lparr>db_applies :=
        update_first (pending_apply D user gid) (\<lambda>a. a\<lparr>ap_status := 1\<rparr>) (db_applies S)\<rparr>"] l by auto
  then have l': "link_member D env user gid (set_members D gid (members_of g @ [user]) S\<lparr>db_applies :=
        update_first (pending_apply D user gid) (\<lambda>a. a\<lparr>ap_status := 1\<rparr>) (db_applies S)\<rparr>) = Inr S'"
    using l x by (simp add: nil_list_def)
  note j = join_inv [OF d inv g(1) n u l']
  show thesis using that [OF g(1) _ g(4) n j(1) _ j(2,3)] g(3) x(2) j(4) link_member_Inr(5) [OF l'] by (simp add: swapped_def with_members_def)
qed

section \<open>Runs\<close>

text \<open>The operations of the services and of the message store, each with its own environment, and the expiry of cached values.\<close>

datatype rest_op =
    OpCreate group_env string string "int list"
  | OpJoin group_env string string
  | OpLeave group_env string string
  | OpApprove group_env string string string
  | OpGet group_env string
  | OpJoined group_env string
  | OpOwned group_env string
  | OpRegister bcrypt_lib account_env string string string
  | OpInfo account_env "string option"
  | OpOpen account_env string string
  | OpSessions account_env string
  | OpGroupSessions account_env string
  | OpContacts account_env string
  | OpSetting assistant_env string "string list"
  | OpSave save_env save_input
  | OpSaveAI save_env string string string string
  | OpExpire "string set"

fun rest_exec :: "lib \<Rightarrow> dbms \<Rightarrow> rest_op \<Rightarrow> rest \<Rightarrow> rest" where
  "rest_exec L D (OpCreate env u n ms) st = snd (create_group D env u n ms st)"
| "rest_exec L D (OpJoin env u g) st = snd (join_group D env u g st)"
| "rest_exec L D (OpLeave env u g) st = snd (leave_group D env u g st)"
| "rest_exec L D (OpApprove env o' u g) st = snd (approve_join D env o' u g st)"
| "rest_exec L D (OpGet env g) st = snd (get_group D env g st)"
| "rest_exec L D (OpJoined env u) st = snd (joined_groups D env u st)"
| "rest_exec L D (OpOwned env u) st = snd (owned_groups D env u st)"
| "rest_exec L D (OpRegister B env p n w) st = st\<lparr>re_db := snd (register_user D B env p n w (re_db st))\<rparr>"
| "rest_exec L D (OpInfo env u) st = snd (get_user_info D env u st)"
| "rest_exec L D (OpOpen env u p) st = snd (open_session D env u p st)"
| "rest_exec L D (OpSessions env u) st = snd (get_user_sessions D env u st)"
| "rest_exec L D (OpGroupSessions env u) st = snd (get_group_sessions D env u st)"
| "rest_exec L D (OpContacts env u) st = snd (get_contacts D env u st)"
| "rest_exec L D (OpSetting env u ids) st = st\<lparr>re_db := snd (change_setting D env u ids (re_db st))\<rparr>"
| "rest_exec L D (OpSave env i) st = st\<lparr>re_db := snd (save_message L D env i (re_db st))\<rparr>"
| "rest_exec L D (OpSaveAI env u s c t) st = st\<lparr>re_db := snd (save_ai L D env u s c t (re_db st))\<rparr>"
| "rest_exec L D (OpExpire ks) st = st\<lparr>re_cache := re_cache st |` (- ks)\<rparr>"

text \<open>Names of users that enter a member list come from tokens and JSON bodies, so they are valid UTF-8.\<close>

fun op_text :: "rest_op \<Rightarrow> bool" where
  "op_text (OpCreate env u n ms) = utf8_valid u"
| "op_text (OpJoin env u g) = utf8_valid u"
| "op_text (OpApprove env o' u g) = utf8_valid u"
| "op_text _ = True"

definition rest_run :: "lib \<Rightarrow> dbms \<Rightarrow> rest_op list \<Rightarrow> rest \<Rightarrow> rest" where
  "rest_run L D ops st = fold (rest_exec L D) ops st"

section \<open>One step\<close>

lemma cached_db [simp]: "re_db (keep_cached env n k j st) = re_db st" "re_db (drop_cached env ks st) = re_db st"
  by (simp_all add: keep_cached_def drop_cached_def)

lemma with_cache_db: "(\<And>st. re_db (snd (load st)) = re_db st) \<Longrightarrow> re_db (snd (with_cache env dec k load st)) = re_db st"
  by (simp add: with_cache_def split: prod.split sum.split)

lemma load_db:
  "re_db (snd (load_group D ge gid st)) = re_db st" "re_db (snd (load_groups ge k rows st)) = re_db st"
  "re_db (snd (load_contacts D ae u st)) = re_db st"
  by (simp_all add: load_group_def load_groups_def load_contacts_def Let_def split: option.split sum.split)

lemma reads_db:
  "re_db (snd (get_group D ge gid st)) = re_db st" "re_db (snd (joined_groups D ge u st)) = re_db st"
  "re_db (snd (owned_groups D ge u st)) = re_db st" "re_db (snd (get_user_info D ae v st)) = re_db st"
  "re_db (snd (get_user_sessions D ae u st)) = re_db st" "re_db (snd (get_group_sessions D ae u st)) = re_db st"
  "re_db (snd (get_contacts D ae u st)) = re_db st"
  by (auto simp: get_group_def joined_groups_def owned_groups_def get_user_info_def get_user_sessions_def get_group_sessions_def
        get_contacts_def list_sessions_def load_db Let_def split: option.split intro!: with_cache_db)

text \<open>The tables of groups and applications are not touched by the other operations.\<close>

definition quiet :: "db \<Rightarrow> db \<Rightarrow> bool" where
  "quiet S S' = (unmoved S S' \<and> db_applies S' = db_applies S)"

lemma quiet_refl [simp]: "quiet S S"
  by (simp add: quiet_def)

lemma quiet_messages: "quiet S (S\<lparr>db_messages := m, db_next := n\<rparr>)" "quiet S (S\<lparr>db_users := us\<rparr>)" "quiet S (S\<lparr>db_access := as\<rparr>)"
  by (simp_all add: quiet_def unmoved_def contact_links_def session_links_def)

lemma save_tx_tables:
  "\<exists>m n. snd (save_tx L D env i session origin S) = S\<lparr>db_messages := m, db_next := n\<rparr>"
proof -
  have S: "\<exists>m n. S = S\<lparr>db_messages := m, db_next := n\<rparr>" by (rule exI [of _ "db_messages S"], rule exI [of _ "db_next S"]) simp
  have "\<exists>m n. S' = S\<lparr>db_messages := m, db_next := n\<rparr>" if "save_body L D env i session origin S = Inr (s, S')" for s S'
    using that
  proof (cases rule: save_body_cases)
    case (replay sid d who r print)
    then show ?thesis using S by simp
  next
    case (fresh sid d who r v print)
    then show ?thesis using create_row_Inr by blast
  qed
  then show ?thesis using S by (auto simp: save_tx_def split: sum.split commit_fate.split)
qed

lemma save_tables:
  "\<exists>m n. snd (save_message L D env i S) = S\<lparr>db_messages := m, db_next := n\<rparr>"
  "\<exists>m n. snd (save_ai L D env u s c t S) = S\<lparr>db_messages := m, db_next := n\<rparr>"
proof -
  have S: "S = S\<lparr>db_messages := db_messages S, db_next := db_next S\<rparr>" by simp
  show "\<exists>m n. snd (save_message L D env i S) = S\<lparr>db_messages := m, db_next := n\<rparr>"
  proof (cases "validate_input L i")
    case (Inl e)
    then have "snd (save_message L D env i S) = S" by (simp add: save_message_def)
    then show ?thesis using S by metis
  next
    case (Inr x)
    then have "snd (save_message L D env i S) = snd (save_tx L D env i [] 0 S)" by (simp add: save_message_def)
    then show ?thesis using save_tx_tables by metis
  qed
  show "\<exists>m n. snd (save_ai L D env u s c t S) = S\<lparr>db_messages := m, db_next := n\<rparr>"
  proof -
    have "snd (save_ai L D env u s c t S) = S \<or> (\<exists>i session. snd (save_ai L D env u s c t S) = snd (save_tx L D env i session 1 S))"
      unfolding save_ai_def Let_def by auto
    then show ?thesis using save_tx_tables [of L D env] S by metis
  qed
qed

lemma open_session_quiet:
  "quiet (re_db st) (re_db (snd (open_session D env u p st))) \<and> db_access (re_db (snd (open_session D env u p st))) = db_access (re_db st)"
proof -
  have "quiet S S' \<and> db_access S' = db_access S" if "insert_session D f (new_session env a b) S = Inr S'" for f a b S S'
    using that by (auto simp: insert_session_def new_session_def quiet_def unmoved_def contact_links_def session_links_def split: if_splits)
  then show ?thesis by (auto simp: open_session_def Let_def split: option.split sum.split)
qed

lemma change_body_tables:
  assumes "change_body D env u ids S = Inr (x, S')" shows "\<exists>as. S' = S\<lparr>db_access := as\<rparr>"
  using assms by (auto simp: change_body_def Let_def split: if_splits)

lemma change_setting_tables: "\<exists>as. snd (change_setting D env u ids S) = S\<lparr>db_access := as\<rparr>"
proof -
  let ?tx = "\<lambda>uuids. run_tx (ai_fault env IsBegin) (ai_commit env) AiRaw (change_body D env u uuids) S"
  have S: "S = S\<lparr>db_access := db_access S\<rparr>" by simp
  have tx: "\<exists>as. snd (?tx uuids) = S\<lparr>db_access := as\<rparr>" for uuids
    using run_tx_state [of _ _ _ "change_body D env u uuids" S] change_body_tables S by metis
  have "snd (change_setting D env u ids S) = S \<or> (\<exists>uuids. snd (change_setting D env u ids S) = snd (?tx uuids))"
  proof (cases "normalize_sessions ids")
    case (Inr uuids)
    have "snd (change_setting D env u ids S) = (if trim_space u = [] then S else snd (?tx uuids))"
      by (cases "?tx uuids") (simp add: change_setting_def Inr split: sum.split)
    then show ?thesis by metis
  qed (simp add: change_setting_def)
  then show ?thesis using tx S by metis
qed

text \<open>One operation leaves the rosters as they are, creates a group, or changes the members of one group.\<close>

lemma rest_step:
  assumes d: "dbms_documented D" and inv: "rest_inv D (re_db st)" and t: "op_text op" and S': "S' = re_db (rest_exec L D op st)"
  obtains (same) "unmoved (re_db st) S'"
      "\<forall>a \<in> set (db_applies S'). a \<in> set (db_applies (re_db st)) \<or> (\<exists>env. op = OpJoin env (ap_applicant a) (ap_contact a))"
  | (created) env u n ms g where "op = OpCreate env u n ms" "rest_inv D S'" "db_groups S' = db_groups (re_db st) @ [g]"
      "roster S' = roster (re_db st) @ [(gr_uuid g, [u])]" "\<forall>(j, ms) \<in> set (roster (re_db st)). \<not> db_same D j (gr_uuid g)"
      "db_applies S' = db_applies (re_db st)"
  | (joined) env u gid g where "op = OpJoin env u gid" "find_group D (re_db st) gid = Some g" "gr_status g = 0" "gr_mode g \<notin> {1, 2}"
      "user_exists D (re_db st) u" "u \<notin> set (members_of g)" "rest_inv D S'"
      "db_groups S' = swapped D g (members_of g @ [u]) (db_groups (re_db st))"
      "roster S' = roster_upd D gid (\<lambda>ms. ms @ [u]) (roster (re_db st))" "db_applies S' = db_applies (re_db st)"
  | (left) env u gid g where "op = OpLeave env u gid" "find_group D (re_db st) gid = Some g" "gr_status g = 0" "u \<noteq> gr_owner g"
      "u \<in> set (members_of g)" "rest_inv D S'" "db_groups S' = swapped D g (filter (\<lambda>w. w \<noteq> u) (members_of g)) (db_groups (re_db st))"
      "roster S' = roster_upd D gid (filter (\<lambda>w. w \<noteq> u)) (roster (re_db st))" "db_applies S' = db_applies (re_db st)"
  | (approved) env o' u gid g where "op = OpApprove env o' u gid" "find_group D (re_db st) gid = Some g"
      "o' = gr_owner g \<or> o' \<in> set (admins_of g)" "\<exists>a \<in> set (db_applies (re_db st)). pending_apply D u gid a" "u \<notin> set (members_of g)"
      "rest_inv D S'" "db_groups S' = swapped D g (members_of g @ [u]) (db_groups (re_db st))"
      "roster S' = roster_upd D gid (\<lambda>ms. ms @ [u]) (roster (re_db st))"
      "db_applies S' = update_first (pending_apply D u gid) (\<lambda>a. a\<lparr>ap_status := 1\<rparr>) (db_applies (re_db st))"
proof -
  let ?S = "re_db st"
  have q: thesis if "quiet ?S S'" using same that by (simp add: quiet_def)
  show thesis
  proof (cases op)
    case (OpCreate env u n ms)
    let ?m = "case ms of [] \<Rightarrow> 0 | m # _ \<Rightarrow> m"
    let ?tx = "run_tx (ge_fault env GsBegin) (ge_commit env) GeRaw (create_body D env u (new_group env u n ?m)) ?S"
    have S: "S' = ?S \<or> S' = snd ?tx"
      using S' OpCreate by (auto simp: create_group_def Let_def split: prod.split sum.split)
    from S run_tx_state [of _ _ _ "create_body D env u (new_group env u n ?m)" ?S]
    consider "S' = ?S" | x where "create_body D env u (new_group env u n ?m) ?S = Inr (x, S')" by metis
    then show thesis
    proof cases
      case 1
      then show thesis using q by simp
    next
      case (2 x)
      have u: "utf8_valid u" using t OpCreate by simp
      note c = create_group_inv [OF d inv u 2]
      from c(6) obtain g where g: "db_groups S' = db_groups ?S @ [g]" "gr_uuid g = CHR ''G'' # ge_uuid env" by blast
      show thesis using created [OF OpCreate c(1) g(1)] c(2,4,5) g(2) by simp
    qed
  next
    case (OpJoin env u gid)
    let ?tx = "run_tx (ge_fault env GsBegin) (ge_commit env) GeRaw (join_body D env u gid) ?S"
    have "S' = ?S \<or> S' = snd ?tx"
      using S' OpJoin by (auto simp: join_group_def split: prod.split sum.split bool.split)
    with run_tx_state [of _ _ _ "join_body D env u gid" ?S]
    consider "S' = ?S" | p where "join_body D env u gid ?S = Inr (p, S')" by metis
    then show thesis
    proof cases
      case 1
      then show thesis using q by simp
    next
      case (2 p)
      have u: "utf8_valid u" using t OpJoin by simp
      from d inv u 2 show thesis
      proof (cases rule: join_effect)
        case same
        then show thesis using same(1) that(1) OpJoin by blast
      next
        case (joined g)
        then show thesis using that(3) [OF OpJoin] by blast
      qed
    qed
  next
    case (OpLeave env u gid)
    let ?tx = "run_tx (ge_fault env GsBegin) (ge_commit env) GeRaw (leave_body D env u gid) ?S"
    have "S' = ?S \<or> S' = snd ?tx"
      using S' OpLeave by (auto simp: leave_group_def split: prod.split sum.split)
    with run_tx_state [of _ _ _ "leave_body D env u gid" ?S]
    consider "S' = ?S" | p where "leave_body D env u gid ?S = Inr (p, S')" by metis
    then show thesis
    proof cases
      case 1
      then show thesis using q by simp
    next
      case (2 p)
      from d inv 2 show thesis
      proof (cases rule: leave_effect)
        case same
        then show thesis using q by simp
      next
        case (left g)
        then show thesis using that(4) [OF OpLeave] by blast
      qed
    qed
  next
    case (OpApprove env o' u gid)
    let ?tx = "run_tx (ge_fault env GsBegin) (ge_commit env) GeRaw (approve_body D env o' u gid) ?S"
    have "S' = ?S \<or> S' = snd ?tx"
      using S' OpApprove by (auto simp: approve_join_def split: prod.split sum.split)
    with run_tx_state [of _ _ _ "approve_body D env o' u gid" ?S]
    consider "S' = ?S" | p where "approve_body D env o' u gid ?S = Inr (p, S')" by metis
    then show thesis
    proof cases
      case 1
      then show thesis using q by simp
    next
      case (2 p)
      have u: "utf8_valid u" using t OpApprove by simp
      from d inv u 2 show thesis by (rule approve_effect) (rule that(5) [OF OpApprove])
    qed
  next
    case (OpRegister B env p n w)
    have "snd (register_user D B env p n w ?S) = ?S \<or> (\<exists>us. snd (register_user D B env p n w ?S) = ?S\<lparr>db_users := us\<rparr>)"
      by (auto simp: register_user_def Let_def)
    then show thesis using q quiet_messages(2) S' OpRegister by fastforce
  next
    case (OpOpen env u p)
    then show thesis using q S' open_session_quiet by simp
  next
    case (OpSetting env u ids)
    then show thesis using q S' change_setting_tables [of D env u ids ?S] quiet_messages(3) by fastforce
  next
    case (OpSave env i)
    then show thesis using q S' save_tables(1) [of L D env i ?S] quiet_messages(1) by fastforce
  next
    case (OpSaveAI env u s c t)
    then show thesis using q S' save_tables(2) [of L D env u s c t ?S] quiet_messages(1) by fastforce
  qed (use q S' in \<open>simp_all add: reads_db\<close>)
qed

lemma rest_step_inv:
  assumes "dbms_documented D" "rest_inv D (re_db st)" "op_text op" shows "rest_inv D (re_db (rest_exec L D op st))"
  using assms refl [of "re_db (rest_exec L D op st)"] by (cases rule: rest_step) (simp_all add: unmoved_inv assms(2))

lemma rest_run_inv:
  assumes "dbms_documented D" "rest_inv D (re_db st)" "list_all op_text ops" shows "rest_inv D (re_db (rest_run L D ops st))"
  using assms(2,3) unfolding rest_run_def by (induction ops arbitrary: st) (simp_all add: rest_step_inv [OF assms(1)])

end
