(* ===== verification/GroupRights.thy ===== *)
theory GroupRights
  imports GroupRuns
begin

text \<open>
  The properties of groups: the records of membership agree in every run, members change by right, and whoever never asks stays outside a
  group for sending and reading.
\<close>

section \<open>Membership\<close>

text \<open>C33. Along every run of the services, with any failures of statements, commits and cache, the three records of membership agree:
  every group's member list reads back, is distinct, holds the owner and has the recorded count; a user is in the list exactly
  when there is a contact and a group session for the two; no two groups share an identifier.\<close>

theorem memberships_consistent:
  assumes "dbms_documented D" "rest_inv D (re_db st)" "list_all op_text ops" "S = re_db (rest_run L D ops st)"
    and "g \<in> set (db_groups S)"
  shows "rest_inv D S \<and> unmarshal_strings (gr_members g) = Some (Some (members_of g)) \<and> distinct (members_of g) \<and>
    gr_owner g \<in> set (members_of g) \<and> gr_count g = int (length (members_of g)) \<and>
    (\<forall>u. u \<in> set (members_of g) \<longleftrightarrow> (\<exists>c \<in> set (db_contacts S). ct_type c = 1 \<and> ct_user c = u \<and> db_same D (ct_contact c) (gr_uuid g))) \<and>
    (\<forall>u. u \<in> set (members_of g) \<longleftrightarrow> (\<exists>s \<in> set (db_sessions S). se_type s = 1 \<and> se_send s = u \<and> db_same D (se_receive s) (gr_uuid g)))"
proof -
  have inv: "rest_inv D S" using rest_run_inv [OF assms(1-3)] assms(4) by simp
  have ok: "links_ok D (roster S) (contact_links S)" "links_ok D (roster S) (session_links S)" "group_sound g"
    using inv assms(5) by (simp_all add: rest_inv_def list_all_iff)
  note l = links_okD(2) [OF ok(1) roster_entry [OF assms(5)]] links_okD(2) [OF ok(2) roster_entry [OF assms(5)]]
  have "u \<in> set (members_of g) \<longleftrightarrow> (\<exists>c \<in> set (db_contacts S). ct_type c = 1 \<and> ct_user c = u \<and> db_same D (ct_contact c) (gr_uuid g))" for u
    unfolding l(1) by (auto simp: contact_links_def)
  moreover have "u \<in> set (members_of g) \<longleftrightarrow> (\<exists>s \<in> set (db_sessions S). se_type s = 1 \<and> se_send s = u \<and> db_same D (se_receive s) (gr_uuid g))" for u
    unfolding l(2) by (auto simp: session_links_def)
  ultimately show ?thesis using inv ok(3) by (simp add: group_sound_def)
qed

text \<open>The members of a group change only by right: a direct join, an approval by the owner or an administrator, a leave.\<close>

lemma member_change:
  assumes "dbms_documented D" "rest_inv D (re_db st)" "op_text op" "S' = re_db (rest_exec L D op st)"
    and "g \<in> set (db_groups (re_db st))" "g' \<in> set (db_groups S')" "gr_uuid g' = gr_uuid g"
  shows "g' = g \<or> (gr_owner g' = gr_owner g \<and> gr_admins g' = gr_admins g \<and> gr_mode g' = gr_mode g \<and> gr_status g' = gr_status g \<and>
    ((\<exists>env u gid. op = OpJoin env u gid \<and> group_is D gid g \<and> gr_status g = 0 \<and> gr_mode g \<notin> {1, 2} \<and>
        user_exists D (re_db st) u \<and> members_of g' = members_of g @ [u]) \<or>
     (\<exists>env o' u gid. op = OpApprove env o' u gid \<and> group_is D gid g \<and> (o' = gr_owner g \<or> o' \<in> set (admins_of g)) \<and>
        (\<exists>a \<in> set (db_applies (re_db st)). pending_apply D u gid a) \<and> members_of g' = members_of g @ [u]) \<or>
     (\<exists>env u gid. op = OpLeave env u gid \<and> group_is D gid g \<and> gr_status g = 0 \<and> u \<noteq> gr_owner g \<and>
        members_of g' = filter (\<lambda>w. w \<noteq> u) (members_of g))))"
proof -
  let ?S = "re_db st"
  have once: "h = h'" if "h \<in> set (db_groups ?S)" "h' \<in> set (db_groups ?S)" "db_same D (gr_uuid h) (gr_uuid h')" for h h'
  proof -
    have "sorted_wrt (\<lambda>g h. \<not> db_same D (gr_uuid g) (gr_uuid h)) (db_groups ?S)" using assms(2) by (simp add: rest_inv_def)
    then show ?thesis using sorted_wrt_once [of "\<lambda>g h. db_same D (gr_uuid g) (gr_uuid h)"] same_refl [OF assms(1)] same_sym [OF assms(1)] that
      by metis
  qed
  have own: "h = g" if "h \<in> set (db_groups ?S)" "gr_uuid h = gr_uuid g" for h
    using once [OF that(1) assms(5)] that(2) same_refl [OF assms(1)] by simp
  have swap: "g' = g \<or> g' = with_members D g ms \<and> group_is D gid g"
    if "find_group D ?S gid = Some h" "db_groups S' = swapped D h ms (db_groups ?S)" for h ms gid
  proof -
    have "g' \<in> (\<lambda>k. if k = h then with_members D h ms else k) ` set (db_groups ?S)"
      using assms(6) that(2) by (simp add: swapped_def)
    then obtain k where k: "k \<in> set (db_groups ?S)" "g' = (if k = h then with_members D h ms else k)" by blast
    then have "k = g" using own [OF k(1)] assms(7) by (simp add: with_members_def split: if_splits)
    then show ?thesis using k(2) find_group_only(2) [OF assms(1,2) that(1)] by auto
  qed
  have hit: "g' = g \<or> h = g \<and> group_is D gid g \<and> members_of g' = ms \<and>
      gr_owner g' = gr_owner g \<and> gr_admins g' = gr_admins g \<and> gr_mode g' = gr_mode g \<and> gr_status g' = gr_status g"
    if "find_group D ?S gid = Some h" "db_groups S' = swapped D h ms (db_groups ?S)" "h = g \<Longrightarrow> list_all utf8_valid ms" for h ms gid
  proof (cases "g' = g")
    case False
    then have s: "g' = with_members D g ms" "group_is D gid g" using swap [OF that(1,2)] by simp_all
    have "h = g" using find_group_only(5) [OF assms(1,2) that(1) assms(5)] s(2) by (simp add: group_is_def)
    moreover have "members_of g' = ms" using members_text [OF assms(1) that(3)] calculation by (simp add: s(1) members_of_def with_members_def)
    ultimately show ?thesis using s by (simp add: with_members_def)
  qed simp
  have utf: "list_all utf8_valid (members_of g)" using assms(2,5) by (simp add: rest_inv_def list_all_iff group_sound_def)
  from assms(1-4) show ?thesis
  proof (cases rule: rest_step)
    case same
    then have "g' \<in> set (db_groups ?S)" using assms(6) by (simp add: unmoved_def)
    then show ?thesis using own [OF _ assms(7)] by blast
  next
    case (created env u n ms h)
    have "\<not> db_same D (gr_uuid g) (gr_uuid h)" using created(5) roster_entry [OF assms(5)] by blast
    then have "g' \<noteq> h" using assms(7) same_refl [OF assms(1), of "gr_uuid g"] by metis
    then have "g' \<in> set (db_groups ?S)" using created(3) assms(6) by simp
    then show ?thesis using own [OF _ assms(7)] by simp
  next
    case (joined env u gid h)
    have "list_all utf8_valid (members_of h @ [u])" if "h = g" using utf assms(3) joined(1) that by simp
    note utf' = this
    show ?thesis
    proof (cases "g' = g")
      case False
      then have h: "h = g" "group_is D gid g" "members_of g' = members_of h @ [u]" "gr_owner g' = gr_owner g" "gr_admins g' = gr_admins g"
        "gr_mode g' = gr_mode g" "gr_status g' = gr_status g" using hit [OF joined(2,8) utf'] by simp_all
      have "\<exists>env u gid. op = OpJoin env u gid \<and> group_is D gid g \<and> gr_status g = 0 \<and> gr_mode g \<notin> {1, 2} \<and>
        user_exists D (re_db st) u \<and> members_of g' = members_of g @ [u]"
        by (rule exI [of _ env], rule exI [of _ u], rule exI [of _ gid]) (use h joined(1,3-5) in simp)
      then show ?thesis using h(4-7) by blast
    qed simp
  next
    case (left env u gid h)
    have "list_all utf8_valid (filter (\<lambda>w. w \<noteq> u) (members_of h))" if "h = g" using utf that by (simp add: list_all_iff)
    note utf' = this
    show ?thesis
    proof (cases "g' = g")
      case False
      then have h: "h = g" "group_is D gid g" "members_of g' = filter (\<lambda>w. w \<noteq> u) (members_of h)" "gr_owner g' = gr_owner g" "gr_admins g' = gr_admins g"
        "gr_mode g' = gr_mode g" "gr_status g' = gr_status g" using hit [OF left(2,7) utf'] by simp_all
      have "\<exists>env u gid. op = OpLeave env u gid \<and> group_is D gid g \<and> gr_status g = 0 \<and> u \<noteq> gr_owner g \<and>
        members_of g' = filter (\<lambda>w. w \<noteq> u) (members_of g)"
        by (rule exI [of _ env], rule exI [of _ u], rule exI [of _ gid]) (use h left(1,3,4) in simp)
      then show ?thesis using h(4-7) by blast
    qed simp
  next
    case (approved env o' u gid h)
    have "list_all utf8_valid (members_of h @ [u])" if "h = g" using utf assms(3) approved(1) that by simp
    note utf' = this
    show ?thesis
    proof (cases "g' = g")
      case False
      then have h: "h = g" "group_is D gid g" "members_of g' = members_of h @ [u]" "gr_owner g' = gr_owner g" "gr_admins g' = gr_admins g"
        "gr_mode g' = gr_mode g" "gr_status g' = gr_status g" using hit [OF approved(2,7) utf'] by simp_all
      have "\<exists>env o' u gid. op = OpApprove env o' u gid \<and> group_is D gid g \<and> (o' = gr_owner g \<or> o' \<in> set (admins_of g)) \<and>
        (\<exists>a \<in> set (db_applies (re_db st)). pending_apply D u gid a) \<and> members_of g' = members_of g @ [u]"
        by (rule exI [of _ env], rule exI [of _ o'], rule exI [of _ u], rule exI [of _ gid]) (use h approved(1,3,4) in simp)
      then show ?thesis using h(4-7) by blast
    qed simp
  qed
qed

section \<open>Strangers\<close>

text \<open>A user who is no member of an existing group under any spelling, and has no pending application.\<close>

definition outside :: "dbms \<Rightarrow> db \<Rightarrow> string \<Rightarrow> string \<Rightarrow> bool" where
  "outside D S u gid =
     ((\<exists>(i, ms) \<in> set (roster S). db_same D i gid) \<and>
      (\<forall>(i, ms) \<in> set (roster S). db_same D i gid \<longrightarrow> (\<forall>w \<in> set ms. \<not> db_same D w u)) \<and>
      (\<forall>a \<in> set (db_applies S). \<not> pending_apply D u gid a))"

text \<open>The requests by which a user asks to become a member.\<close>

fun asks :: "dbms \<Rightarrow> string \<Rightarrow> string \<Rightarrow> rest_op \<Rightarrow> bool" where
  "asks D u gid (OpJoin env w k) = (db_same D w u \<and> db_same D k gid)"
| "asks D u gid _ = False"

lemma outsideD:
  assumes "outside D S u gid"
  shows "(i, ms) \<in> set (roster S) \<Longrightarrow> db_same D i gid \<Longrightarrow> w \<in> set ms \<Longrightarrow> \<not> db_same D w u"
    and "a \<in> set (db_applies S) \<Longrightarrow> \<not> pending_apply D u gid a"
  using assms unfolding outside_def by blast+

lemma outside_upd:
  assumes "outside D S u gid" "roster S' = roster_upd D k f (roster S)" "\<forall>a \<in> set (db_applies S'). \<not> pending_apply D u gid a"
    and "\<And>i ms w. (i, ms) \<in> set (roster S) \<Longrightarrow> db_same D i gid \<Longrightarrow> db_same D i k \<Longrightarrow> w \<in> set (f ms) \<Longrightarrow> \<not> db_same D w u"
  shows "outside D S' u gid"
proof -
  obtain i ms where i: "(i, ms) \<in> set (roster S)" "db_same D i gid" using assms(1) unfolding outside_def by blast
  obtain ms' where ms': "(i, ms') \<in> set (roster S')" using roster_updI [OF i(1)] assms(2) by metis
  have "\<not> db_same D w u" if "(j, ns) \<in> set (roster S')" "db_same D j gid" "w \<in> set ns" for j ns w
  proof -
    from that(1) obtain ks where "(j, ks) \<in> set (roster S)" "ns = (if db_same D j k then f ks else ks)"
      unfolding assms(2) by (rule roster_updE)
    then show ?thesis using assms(4) outsideD(1) [OF assms(1)] that(2,3) by (auto split: if_splits)
  qed
  then show ?thesis using ms' i(2) assms(3) unfolding outside_def by blast
qed

lemma pending_same:
  assumes d: "dbms_documented D" and "pending_apply D w k a" "db_same D w u" "db_same D k gid" shows "pending_apply D u gid a"
  using assms(2-4) same_trans [OF d] unfolding pending_apply_def by blast

lemma update_first_mem: "x \<in> set (update_first P f xs) \<Longrightarrow> x \<in> set xs \<or> (\<exists>y \<in> set xs. x = f y)"
  by (induction xs) (auto split: if_splits)

lemma outside_step:
  assumes d: "dbms_documented D" and inv: "rest_inv D (re_db st)" and t: "op_text op" and out: "outside D (re_db st) u gid" and n: "\<not> asks D u gid op"
  shows "outside D (re_db (rest_exec L D op st)) u gid"
proof -
  let ?S = "re_db st" and ?S' = "re_db (rest_exec L D op st)"
  note near = same_sym [OF d] same_trans [OF d]
  have old: "\<forall>a \<in> set (db_applies ?S). \<not> pending_apply D u gid a" using outsideD(2) [OF out] by blast
  have meet: "db_same D k gid" if "db_same D i gid" "db_same D i k" for i k
    by (rule same_trans [OF d same_sym [OF d that(2)] that(1)])
  from d inv t refl [of ?S'] show ?thesis
  proof (cases rule: rest_step)
    case same
    have "\<not> pending_apply D u gid a" if "a \<in> set (db_applies ?S')" for a
      using same(2) that n old by (auto simp: pending_apply_def)
    then show ?thesis using out same(1) by (simp add: outside_def roster_def unmoved_def)
  next
    case (created env v nm ms g)
    obtain i ns where i: "(i, ns) \<in> set (roster ?S)" "db_same D i gid" using out unfolding outside_def by blast
    have "\<not> db_same D (gr_uuid g) gid"
    proof
      assume "db_same D (gr_uuid g) gid"
      then have "db_same D i (gr_uuid g)" using i(2) near by blast
      then show False using created(5) i(1) by blast
    qed
    then show ?thesis using out created(4,6) by (auto simp: outside_def)
  next
    case (joined env w k g)
    have "\<not> db_same D w u" if "db_same D i gid" "db_same D i k" for i using n joined(1) meet [OF that] by simp
    then show ?thesis using old outsideD(1) [OF out] by (intro outside_upd [OF out joined(9)]) (auto simp: joined(10))
  next
    case (left env w k g)
    show ?thesis using old outsideD(1) [OF out] by (intro outside_upd [OF out left(8)]) (auto simp: left(9))
  next
    case (approved env o' w k g)
    have "\<not> db_same D w u" if "db_same D i gid" "db_same D i k" for i
      using approved(4) pending_same [OF d, of w k _ u gid] meet [OF that] old by blast
    moreover have "\<not> pending_apply D u gid a" if "a \<in> set (db_applies ?S')" for a
      using update_first_mem [of a "pending_apply D w k" "\<lambda>a. a\<lparr>ap_status := 1\<rparr>" "db_applies ?S"] that approved(9) old
      by (auto simp: pending_apply_def)
    ultimately show ?thesis using outsideD(1) [OF out] by (intro outside_upd [OF out approved(8)]) auto
  qed
qed

lemma outside_run:
  assumes "dbms_documented D" "rest_inv D (re_db st)" "list_all op_text ops" "outside D (re_db st) u gid" "list_all (\<lambda>op. \<not> asks D u gid op) ops"
  shows "outside D (re_db (rest_run L D ops st)) u gid"
  using assms(2-5) unfolding rest_run_def
proof (induction ops arbitrary: st)
  case (Cons op ops)
  then show ?case using outside_step [OF assms(1)] rest_step_inv [OF assms(1)] by simp
qed simp

lemma outside_locked:
  assumes d: "dbms_documented D" and out: "outside D S u gid" shows "\<exists>e. lock_group L D fault S u gid = Inl e"
proof (cases "lock_group L D fault S u gid")
  case (Inr p)
  obtain g who where "lock_group L D fault S u gid = Inr (g, who)" using Inr by (cases p) simp
  then show ?thesis
  proof (rule lock_group_Inr)
    fix ms assume g: "g \<in> set (db_groups S)" "db_same D (gr_uuid g) gid" "unmarshal_strings (gr_members g) = Some (Some ms)" "u \<in> set ms"
    then have "members_of g = ms" by (simp add: members_of_def)
    then show ?thesis using outsideD(1) [OF out roster_entry [OF g(1)] g(2), of u] g(4) same_refl [OF d] by simp
  qed
qed simp

text \<open>C35. Nobody becomes a member without asking, and whoever is no member is kept out of the conversation: if a user is not in a group and has no
  pending application, then after any run of all services in which the user does not ask to join that group, the user is still
  not in it, a message of the user to it is refused without a change, and synchronising its conversation fails.\<close>

theorem strangers_stay_out:
  assumes "dbms_documented D" "rest_inv D (re_db st)" "list_all op_text ops" "outside D (re_db st) u gid"
    and "list_all (\<lambda>op. \<not> asks D u gid op) ops" "S = re_db (rest_run L D ops st)"
    and "in_sender i = u" "in_dest i = Some \<lparr>d_type = RECEIVE_TYPE_GROUP, d_id = gid\<rparr>"
  shows "outside D S u gid \<and> (\<exists>e. save_message L D env i S = (Inl e, S)) \<and>
    (\<exists>e. sync_messages L D env' u (''group:'' @ gid) cursor limit S = Inl e)"
proof -
  have out: "outside D S u gid" using outside_run [OF assms(1-5)] assms(6) by simp
  have lock: "\<exists>e. lock_group L D fault S u gid = Inl e" for fault by (rule outside_locked [OF assms(1) out])
  have "\<exists>e. authorize_user L D (sv_fault env) S u \<lparr>d_type = RECEIVE_TYPE_GROUP, d_id = gid\<rparr> = Inl e"
    using lock [of "sv_fault env"] by (auto simp: authorize_user_def)
  then have "\<exists>e. save_body L D env i [] 0 S = Inl e"
    using assms(7,8) by (cases "lock_user D (sv_fault env) S u") (auto simp: save_body_def)
  then have "\<exists>e. save_message L D env i S = (Inl e, S)"
    by (cases "validate_input L i") (auto simp: save_message_def save_tx_def)
  moreover have "\<exists>e. sync_messages L D env' u (''group:'' @ gid) cursor limit S = Inl e"
  proof (cases "sync_messages L D env' u (''group:'' @ gid) cursor limit S")
    case (Inr p)
    then obtain sid group where p: "parse_conversation L (''group:'' @ gid) = Inr (sid, group)"
      and l: "\<exists>x. (if group then bindE (lock_group L D (sn_fault env') S u sid) (\<lambda>_. Inr ())
                   else bindE (lock_direct L D (sn_fault env') S u [] sid) (\<lambda>_. Inr ())) = Inr x"
      unfolding sync_messages_def by (auto simp: bindE_eq_Inr Let_def split: if_splits prod.splits)
    have "has_prefix (''group:'' @ gid) ''direct:'' = False" by (simp add: has_prefix_def)
    moreover have "trim_prefix (''group:'' @ gid) ''group:'' = gid" by (rule trim_prefix_append)
    ultimately have "group \<and> sid = gid" using p by (auto simp: parse_conversation_def split: if_splits)
    then show ?thesis using l lock [of "sn_fault env'"] by auto
  qed simp
  ultimately show ?thesis using out by blast
qed

end
