(* ===== verification/HttpApi.thy ===== *)
theory HttpApi
  imports GroupRights
begin

text \<open>
  The HTTP API of Logic: the token check of every protected route (internal/https_server/auth_middleware.go), the controllers that call the business
  services (internal/api/v1), the message history and the readiness probe (internal/logic/http.go). The binding of JSON bodies is the
  framework's: a controller gets the bound request or nothing. The text of errors is not modelled.
\<close>

section \<open>Tokens\<close>

text \<open>\<open>strings.Fields\<close>: no encoding of a space starts inside another character, so reading byte by byte finds the same spaces.\<close>

function fields_from :: "string \<Rightarrow> string \<Rightarrow> string list" where
  "fields_from w s =
     (case s of
        [] \<Rightarrow> if w = [] then [] else [rev w]
      | c # r \<Rightarrow>
        if lead_space s = 0 then fields_from (c # w) r
        else (if w = [] then [] else [rev w]) @ fields_from [] (drop (lead_space s) s))"
  by pat_completeness auto
termination by (relation "measure (\<lambda>(w, s). length s)") auto

declare fields_from.simps [simp del]

definition space_fields :: "string \<Rightarrow> string list" where "space_fields s = fields_from [] s"

definition ascii_lower :: "char \<Rightarrow> char" where
  "ascii_lower c = (if 65 \<le> code c \<and> code c \<le> 90 then char_of (code c + 32) else c)"

text \<open>\<open>strings.EqualFold\<close> with \<open>Bearer\<close>, none of whose letters folds to a character outside ASCII.\<close>

definition is_bearer :: "string \<Rightarrow> bool" where
  "is_bearer s = (map ascii_lower s = ''bearer'')"

text \<open>\<open>Auth\<close> and \<open>WsAuth\<close>: the user of the token, or nothing when the request is refused with 401.\<close>

definition http_auth :: "jwt_lib \<Rightarrow> string \<Rightarrow> string \<Rightarrow> string option" where
  "http_auth J key header =
     (if header = [] then None
      else
        let parts = space_fields header in
        if length parts \<noteq> 2 \<or> \<not> is_bearer (parts ! 0) \<or> parts ! 1 = [] then None
        else map_option fst (parse_jwt J (parts ! 1) key))"

definition ws_auth :: "jwt_lib \<Rightarrow> string \<Rightarrow> string \<Rightarrow> string \<Rightarrow> string option" where
  "ws_auth J key query header =
     (let raw = trim_space query;
          parts = space_fields header;
          token = (if raw = [] then (if length parts = 2 \<and> is_bearer (parts ! 0) then parts ! 1 else []) else raw)
      in if token = [] then None else map_option fst (parse_jwt J token key))"

section \<open>Controllers\<close>

datatype http_body = HbNone | HbError | HbGroup group_view | HbGroups "group_view list option" | HbSession string
  | HbSessions "session_view list option" | HbAccounts "account_view list option" | HbAccount account_view
  | HbLogin "string \<times> string \<times> string" | HbSetting "setting_view list" | HbPage sync_page | HbText string | HbReady bool bool bool

type_synonym http_reply = "int \<times> http_body"

record http_env =
  he_group :: group_env
  he_account :: account_env
  he_bcrypt :: bcrypt_lib
  he_assistant :: assistant_env

text \<open>\<open>currentUser\<close> reads what the token check left in the request; the empty user does not count.\<close>

definition current_user :: "string option \<Rightarrow> string option" where
  "current_user user = (if user = Some [] then None else user)"

definition with_user ::
  "string option \<Rightarrow> int \<Rightarrow> rest \<Rightarrow> (string \<Rightarrow> http_reply \<times> rest) \<Rightarrow> http_reply \<times> rest" where
  "with_user user refused st f = (case current_user user of None \<Rightarrow> ((refused, HbError), st) | Some u \<Rightarrow> f u)"

definition group_code :: "(group_error \<times> int) list \<Rightarrow> group_error \<Rightarrow> int" where
  "group_code codes e = (case map_of codes e of None \<Rightarrow> 500 | Some c \<Rightarrow> c)"

definition v1_create_group :: "dbms \<Rightarrow> http_env \<Rightarrow> string option \<Rightarrow> (string \<times> int) option \<Rightarrow> rest \<Rightarrow> http_reply \<times> rest" where
  "v1_create_group D env user req st =
     (case req of
        None \<Rightarrow> ((400, HbError), st)
      | Some (name, mode) \<Rightarrow>
        with_user user 401 st (\<lambda>u.
          case create_group D (he_group env) u name [mode] st of
            (Inl e, st') \<Rightarrow> ((group_code [(GeInvalidGroup, 400), (GeUserNotFound, 404)] e, HbError), st')
          | (Inr g, st') \<Rightarrow> ((201, HbGroup g), st')))"

text \<open>\<open>groupAction\<close>, for \<open>JoinGroup\<close> and \<open>LeaveGroup\<close>.\<close>

definition v1_group_action :: "dbms \<Rightarrow> http_env \<Rightarrow> bool \<Rightarrow> string option \<Rightarrow> string option \<Rightarrow> rest \<Rightarrow> http_reply \<times> rest" where
  "v1_group_action D env join user req st =
     (case req of
        None \<Rightarrow> ((400, HbError), st)
      | Some gid \<Rightarrow>
        with_user user 401 st (\<lambda>u.
          case (if join then join_group D (he_group env) u gid st else leave_group D (he_group env) u gid st) of
            (Inl e, st') \<Rightarrow>
              ((group_code [(GeNotFound, 404), (GeForbidden, 403), (GeOwnerCannotLeave, 403), (GePending, 202), (GeUserNotFound, 404)] e,
                HbError), st')
          | (Inr _, st') \<Rightarrow> ((204, HbNone), st')))"

definition v1_approve :: "dbms \<Rightarrow> http_env \<Rightarrow> string option \<Rightarrow> (string \<times> string) option \<Rightarrow> rest \<Rightarrow> http_reply \<times> rest" where
  "v1_approve D env user req st =
     (case req of
        None \<Rightarrow> ((400, HbError), st)
      | Some (gid, applicant) \<Rightarrow>
        with_user user 401 st (\<lambda>u.
          case approve_join D (he_group env) u applicant gid st of
            (Inl e, st') \<Rightarrow> ((group_code [(GeNotAdmin, 403), (GeNotFound, 404)] e, HbError), st')
          | (Inr _, st') \<Rightarrow> ((204, HbNone), st')))"

definition v1_group_info :: "dbms \<Rightarrow> http_env \<Rightarrow> string option \<Rightarrow> rest \<Rightarrow> http_reply \<times> rest" where
  "v1_group_info D env req st =
     (case req of
        None \<Rightarrow> ((400, HbError), st)
      | Some gid \<Rightarrow>
        (case get_group D (he_group env) gid st of
           (Inl e, st') \<Rightarrow> ((group_code [(GeNotFound, 404)] e, HbError), st')
         | (Inr g, st') \<Rightarrow> ((200, HbGroup g), st')))"

text \<open>The lists answer 500 for every failure.\<close>

definition v1_list ::
  "('a \<Rightarrow> http_body) \<Rightarrow> string option \<Rightarrow> (string \<Rightarrow> rest \<Rightarrow> ('e + 'a) \<times> rest) \<Rightarrow> rest \<Rightarrow> http_reply \<times> rest" where
  "v1_list body user get st =
     with_user user 401 st (\<lambda>u. case get u st of (Inl e, st') \<Rightarrow> ((500, HbError), st') | (Inr x, st') \<Rightarrow> ((200, body x), st'))"

definition v1_joined_groups :: "dbms \<Rightarrow> http_env \<Rightarrow> string option \<Rightarrow> rest \<Rightarrow> http_reply \<times> rest" where
  "v1_joined_groups D env user st = v1_list HbGroups user (joined_groups D (he_group env)) st"

definition v1_owned_groups :: "dbms \<Rightarrow> http_env \<Rightarrow> string option \<Rightarrow> rest \<Rightarrow> http_reply \<times> rest" where
  "v1_owned_groups D env user st = v1_list HbGroups user (owned_groups D (he_group env)) st"

definition v1_group_sessions :: "dbms \<Rightarrow> http_env \<Rightarrow> string option \<Rightarrow> rest \<Rightarrow> http_reply \<times> rest" where
  "v1_group_sessions D env user st = v1_list HbSessions user (get_group_sessions D (he_account env)) st"

definition v1_contacts :: "dbms \<Rightarrow> http_env \<Rightarrow> string option \<Rightarrow> rest \<Rightarrow> http_reply \<times> rest" where
  "v1_contacts D env user st = v1_list HbAccounts user (get_contacts D (he_account env)) st"

definition v1_open_session :: "dbms \<Rightarrow> http_env \<Rightarrow> string option \<Rightarrow> string option \<Rightarrow> rest \<Rightarrow> http_reply \<times> rest" where
  "v1_open_session D env user req st =
     (case req of
        None \<Rightarrow> ((400, HbError), st)
      | Some peer \<Rightarrow>
        (case user of
           None \<Rightarrow> ((403, HbError), st)
         | Some u \<Rightarrow>
           (case open_session D (he_account env) u peer st of
              (Inl e, st') \<Rightarrow> ((if e = AeInvalidSession then 400 else if e = AeUserNotFound then 404 else 500, HbError), st')
            | (Inr s, st') \<Rightarrow> ((200, HbSession s), st'))))"

definition v1_user_sessions :: "dbms \<Rightarrow> http_env \<Rightarrow> string option \<Rightarrow> rest \<Rightarrow> http_reply \<times> rest" where
  "v1_user_sessions D env user st =
     (case user of
        None \<Rightarrow> ((401, HbError), st)
      | Some u \<Rightarrow>
        if u = [] then ((500, HbError), st)
        else
          (case get_user_sessions D (he_account env) u st of
             (Inl e, st') \<Rightarrow> ((if e = AeInvalidUser then 400 else 500, HbError), st')
           | (Inr x, st') \<Rightarrow> ((200, HbSessions x), st')))"

definition v1_user_info :: "dbms \<Rightarrow> http_env \<Rightarrow> string option \<Rightarrow> string option \<Rightarrow> rest \<Rightarrow> http_reply \<times> rest" where
  "v1_user_info D env user req st =
     (if req = None then ((400, HbError), st)
      else case user of
        None \<Rightarrow> ((403, HbError), st)
      | Some u \<Rightarrow>
        (case get_user_info D (he_account env) (Some u) st of
           (Inl e, st') \<Rightarrow> ((if e = AeInvalidUser then 409 else if e = AeForbidden \<or> e = AeAccessDenied then 403 else 500, HbError), st')
         | (Inr v, st') \<Rightarrow> ((200, HbAccount v), st')))"

definition v1_register :: "dbms \<Rightarrow> http_env \<Rightarrow> (string \<times> string \<times> string) option \<Rightarrow> rest \<Rightarrow> http_reply \<times> rest" where
  "v1_register D env req st =
     (case req of
        None \<Rightarrow> ((400, HbError), st)
      | Some (phone, password, nick) \<Rightarrow>
        (case register_user D (he_bcrypt env) (he_account env) phone nick password (re_db st) of
           (Inl e, S) \<Rightarrow>
             ((if e \<in> {AeInvalidRegister, AeUsernameExists, AeTelephoneExists} then 409 else if e = AeCreateFailed then 400 else 502, HbError),
              st\<lparr>re_db := S\<rparr>)
         | (Inr v, S) \<Rightarrow> ((202, HbAccount v), st\<lparr>re_db := S\<rparr>)))"

definition v1_login :: "dbms \<Rightarrow> http_env \<Rightarrow> (string \<times> string) option \<Rightarrow> rest \<Rightarrow> http_reply" where
  "v1_login D env req st =
     (case req of
        None \<Rightarrow> (400, HbError)
      | Some (phone, password) \<Rightarrow>
        (case login_user D (he_bcrypt env) (he_account env) phone password (re_db st) of
           Inl e \<Rightarrow> (if e = AeUserNotFound \<or> e = AeInvalidPassword then 400 else 500, HbError)
         | Inr v \<Rightarrow> (200, HbLogin v)))"

definition setting_code :: "assistant_error \<Rightarrow> int" where
  "setting_code e = (if e = AiInvalidSetting then 400 else if e = AiForbidden then 403 else 500)"

definition v1_setting :: "dbms \<Rightarrow> http_env \<Rightarrow> string option \<Rightarrow> rest \<Rightarrow> http_reply \<times> rest" where
  "v1_setting D env user st =
     with_user user 401 st (\<lambda>u.
       (case get_ai_setting D (he_assistant env) u (re_db st) of Inl e \<Rightarrow> (setting_code e, HbError) | Inr vs \<Rightarrow> (200, HbSetting vs), st))"

text \<open>\<open>ChangeAISetting\<close>: a body without the list is refused.\<close>

definition v1_change_setting :: "dbms \<Rightarrow> http_env \<Rightarrow> string option \<Rightarrow> string list option \<Rightarrow> rest \<Rightarrow> http_reply \<times> rest" where
  "v1_change_setting D env user req st =
     with_user user 401 st (\<lambda>u.
       case req of
         None \<Rightarrow> ((400, HbError), st)
       | Some ids \<Rightarrow>
         (case change_setting D (he_assistant env) u ids (re_db st) of
            (Inl e, S) \<Rightarrow> ((setting_code e, HbError), st\<lparr>re_db := S\<rparr>)
          | (Inr vs, S) \<Rightarrow> ((200, HbSetting vs), st\<lparr>re_db := S\<rparr>)))"

section \<open>History and readiness\<close>

definition sync_error_reply :: "store_error \<Rightarrow> http_reply" where
  "sync_error_reply e = (if e = StInvalid then 400 else if e = StForbidden then 403 else 503, HbError)"

text \<open>The handler of \<open>/api/v2/messages/sync\<close>: the limit is a query parameter, absent when empty.\<close>

definition http_sync ::
  "lib \<Rightarrow> dbms \<Rightarrow> sync_env \<Rightarrow> string \<Rightarrow> string \<Rightarrow> string \<Rightarrow> string \<Rightarrow> db \<Rightarrow> http_reply" where
  "http_sync L D env user limit conversation cursor S =
     (case (if limit = [] then Some 0 else parse_int64 limit) of
        None \<Rightarrow> (400, HbError)
      | Some n \<Rightarrow>
        if n < 0 \<or> 500 < n then (400, HbError)
        else
          (case sync_messages L D env user conversation cursor n S of
             Inl e \<Rightarrow> sync_error_reply e
           | Inr page \<Rightarrow> (200, HbPage page)))"

text \<open>\<open>/healthz\<close> and \<open>/readyz\<close>; a process without a probe is not ready.\<close>

definition http_health :: http_reply where "http_health = (200, HbText ''ok'')"

definition status_ready :: "bool \<times> bool \<times> bool \<Rightarrow> bool" where
  "status_ready s = (case s of (database, routes, push) \<Rightarrow> database \<and> routes \<and> push)"

definition http_ready :: "(bool \<times> bool \<times> bool) option \<Rightarrow> http_reply" where
  "http_ready probe =
     (let s = (case probe of None \<Rightarrow> (False, False, False) | Some s \<Rightarrow> s)
      in (if status_ready s then 200 else 503, case s of (database, routes, push) \<Rightarrow> HbReady database routes push))"

section \<open>Requests\<close>

datatype http_call =
    CallRegister "(string \<times> string \<times> string) option"
  | CallLogin "(string \<times> string) option"
  | CallUserInfo "string option"
  | CallOpen "string option"
  | CallSessions
  | CallCreate "(string \<times> int) option"
  | CallJoin "string option"
  | CallLeave "string option"
  | CallApprove "(string \<times> string) option"
  | CallGroup "string option"
  | CallJoined
  | CallOwned
  | CallGroupSessions
  | CallContacts
  | CallSetting
  | CallChange "string list option"
  | CallSync sync_env string string string

definition is_public :: "http_call \<Rightarrow> bool" where
  "is_public c = (case c of CallRegister _ \<Rightarrow> True | CallLogin _ \<Rightarrow> True | _ \<Rightarrow> False)"

fun http_route :: "lib \<Rightarrow> dbms \<Rightarrow> http_env \<Rightarrow> string option \<Rightarrow> http_call \<Rightarrow> rest \<Rightarrow> http_reply \<times> rest" where
  "http_route L D env user (CallRegister r) st = v1_register D env r st"
| "http_route L D env user (CallLogin r) st = (v1_login D env r st, st)"
| "http_route L D env user (CallUserInfo r) st = v1_user_info D env user r st"
| "http_route L D env user (CallOpen r) st = v1_open_session D env user r st"
| "http_route L D env user CallSessions st = v1_user_sessions D env user st"
| "http_route L D env user (CallCreate r) st = v1_create_group D env user r st"
| "http_route L D env user (CallJoin r) st = v1_group_action D env True user r st"
| "http_route L D env user (CallLeave r) st = v1_group_action D env False user r st"
| "http_route L D env user (CallApprove r) st = v1_approve D env user r st"
| "http_route L D env user (CallGroup r) st = v1_group_info D env r st"
| "http_route L D env user CallJoined st = v1_joined_groups D env user st"
| "http_route L D env user CallOwned st = v1_owned_groups D env user st"
| "http_route L D env user CallGroupSessions st = v1_group_sessions D env user st"
| "http_route L D env user CallContacts st = v1_contacts D env user st"
| "http_route L D env user CallSetting st = v1_setting D env user st"
| "http_route L D env user (CallChange r) st = v1_change_setting D env user r st"
| "http_route L D env user (CallSync e limit conversation cursor) st =
     (http_sync L D e (case user of None \<Rightarrow> [] | Some u \<Rightarrow> u) limit conversation cursor (re_db st), st)"

text \<open>\<open>mount\<close>: every protected route checks the token first.\<close>

definition http_handle ::
  "lib \<Rightarrow> dbms \<Rightarrow> jwt_lib \<Rightarrow> string \<Rightarrow> http_env \<Rightarrow> string \<Rightarrow> http_call \<Rightarrow> rest \<Rightarrow> http_reply \<times> rest" where
  "http_handle L D J key env header c st =
     (if is_public c then http_route L D env None c st
      else case http_auth J key header of
        None \<Rightarrow> ((401, HbError), st)
      | Some u \<Rightarrow> http_route L D env (Some u) c st)"

end
