(* ===== verification/AssistantRights.thy ===== *)
theory AssistantRights
  imports GroupRights
begin

text \<open>
  What the assistant is kept from: a session its user closed stays closed to sending, reading and searching in every run, until the same
  user opens it again. Then accounts: who registers can log in, unless the password could not be hashed.
\<close>

section \<open>Closed sessions\<close>

definition closed_to :: "dbms \<Rightarrow> db \<Rightarrow> string \<Rightarrow> string \<Rightarrow> bool" where
  "closed_to D S u sid = (\<forall>a \<in> set (db_access S). \<not> (db_same D (ac_user a) u \<and> db_same D (ac_session a) sid))"

text \<open>The settings by which a user opens a session.\<close>

fun opens :: "dbms \<Rightarrow> string \<Rightarrow> string \<Rightarrow> rest_op \<Rightarrow> bool" where
  "opens D u sid (OpSetting env w ids) = (db_same D w u \<and> (\<exists>i \<in> set ids. db_same D (trim_space i) sid))"
| "opens D u sid _ = False"

lemma normalize_set: "normalize_sessions ids = Inr uuids \<Longrightarrow> set uuids = trim_space ` set ids"
  by (auto simp: normalize_sessions_def Let_def split: if_splits)

lemma change_body_access:
  assumes "change_body D env w ids S = Inr (x, S')" "a \<in> set (db_access S')"
  shows "ac_user a = w \<and> ac_session a \<in> set ids \<or> a \<in> set (db_access S) \<and> (db_same D (ac_user a) w \<longrightarrow> among D (ac_session a) ids)"
  using assms by (auto simp: change_body_def Let_def among_def split: if_splits)

lemma change_setting_access:
  assumes "a \<in> set (db_access (snd (change_setting D env w ids S)))"
  shows "ac_user a = w \<and> ac_session a \<in> trim_space ` set ids \<or> a \<in> set (db_access S)"
proof (cases "normalize_sessions ids")
  case (Inl e)
  then have "snd (change_setting D env w ids S) = S" by (simp add: change_setting_def)
  then show ?thesis using assms by simp
next
  case (Inr uuids)
  let ?tx = "run_tx (ai_fault env IsBegin) (ai_commit env) AiRaw (change_body D env w uuids) S"
  have "snd (change_setting D env w ids S) = (if trim_space w = [] then S else snd ?tx)"
    by (cases ?tx) (simp add: change_setting_def Inr split: sum.split)
  then consider "snd (change_setting D env w ids S) = S" | x where "change_body D env w uuids S = Inr (x, snd (change_setting D env w ids S))"
    using run_tx_state [of _ _ _ "change_body D env w uuids" S] by metis
  then show ?thesis
  proof cases
    case 1
    then show ?thesis using assms by simp
  next
    case (2 x)
    from change_body_access [OF 2 assms] show ?thesis using normalize_set [OF Inr] by blast
  qed
qed

lemma change_setting_closes:
  assumes "dbms_documented D" "change_setting D env u ids S = (Inr vs, S')" "\<forall>i \<in> set ids. \<not> db_same D (trim_space i) sid"
  shows "closed_to D S' u sid"
proof -
  obtain uuids where n: "normalize_sessions ids = Inr uuids"
    and tx: "\<exists>x. run_tx (ai_fault env IsBegin) (ai_commit env) AiRaw (change_body D env u uuids) S = (Inr x, S')"
    using assms(2) by (auto simp: change_setting_def split: if_splits sum.splits prod.splits)
  from tx obtain x where b: "change_body D env u uuids S = Inr (x, S')" using run_tx_Inr [where body = "change_body D env u uuids"] by blast
  have away: "\<not> db_same D i sid" if "i \<in> set uuids" for i using that assms(3) normalize_set [OF n] by auto
  show ?thesis unfolding closed_to_def
  proof (intro ballI notI)
    fix a assume a: "a \<in> set (db_access S')" "db_same D (ac_user a) u \<and> db_same D (ac_session a) sid"
    from change_body_access [OF b a(1)] a(2) have "ac_session a \<in> set uuids \<or> among D (ac_session a) uuids" by blast
    then obtain i where "i \<in> set uuids" "db_same D (ac_session a) i" using same_refl [OF assms(1)] by (auto simp: among_def)
    then show False using away [of i] a(2) same_sym [OF assms(1)] same_trans [OF assms(1)] by blast
  qed
qed

lemma untouched_access:
  assumes "db_access S' = db_access S" "closed_to D S u sid" shows "closed_to D S' u sid"
  using assms by (simp add: closed_to_def)

lemma create_body_access: "create_body D env owner (new_group env owner n m) S = Inr (x, S') \<Longrightarrow> db_access S' = db_access S"
  by (auto simp: create_body_def bindE_eq_Inr insert_group_def split: if_splits dest!: link_member_Inr(5))

lemma join_body_access: "join_body D env u gid S = Inr (x, S') \<Longrightarrow> db_access S' = db_access S"
  by (auto simp: join_body_def join_as_def bindE_eq_Inr split: if_splits option.splits dest!: link_member_Inr(5))

lemma leave_body_access: "leave_body D env u gid S = Inr (x, S') \<Longrightarrow> db_access S' = db_access S"
  by (auto simp: leave_body_def bindE_eq_Inr Let_def unlink_links split: if_splits option.splits)

lemma approve_body_access:
  assumes "approve_body D env o' u gid S = Inr (x, S')" shows "db_access S' = db_access S"
proof -
  obtain ms as where "link_member D env u gid (set_members D gid ms S\<lparr>db_applies := as\<rparr>) = Inr S'"
    using assms unfolding approve_body_def by (auto simp: bindE_eq_Inr Let_def split: if_splits option.splits)
  from link_member_Inr(5) [OF this] show ?thesis by simp
qed

lemma tx_access:
  assumes "\<And>x S'. body S = Inr (x, S') \<Longrightarrow> db_access S' = db_access S"
  shows "db_access (snd (run_tx b fate raw body S)) = db_access S"
  using run_tx_state [of b fate raw body S] assms by metis

lemma group_ops_access:
  "db_access (re_db (snd (create_group D env u n ms st))) = db_access (re_db st)"
  "db_access (re_db (snd (join_group D env u gid st))) = db_access (re_db st)"
  "db_access (re_db (snd (leave_group D env u gid st))) = db_access (re_db st)"
  "db_access (re_db (snd (approve_join D env o' u gid st))) = db_access (re_db st)"
proof -
  let ?m = "case ms of [] \<Rightarrow> 0 | m # _ \<Rightarrow> m"
  let ?c = "run_tx (ge_fault env GsBegin) (ge_commit env) GeRaw (create_body D env u (new_group env u n ?m)) (re_db st)"
  let ?j = "run_tx (ge_fault env GsBegin) (ge_commit env) GeRaw (join_body D env u gid) (re_db st)"
  let ?l = "run_tx (ge_fault env GsBegin) (ge_commit env) GeRaw (leave_body D env u gid) (re_db st)"
  let ?a = "run_tx (ge_fault env GsBegin) (ge_commit env) GeRaw (approve_body D env o' u gid) (re_db st)"
  have c: "db_access (snd ?c) = db_access (re_db st)" and j: "db_access (snd ?j) = db_access (re_db st)"
    and l: "db_access (snd ?l) = db_access (re_db st)" and a: "db_access (snd ?a) = db_access (re_db st)"
    by (rule tx_access, erule create_body_access join_body_access leave_body_access approve_body_access)+
  have "re_db (snd (create_group D env u n ms st)) = re_db st \<or> re_db (snd (create_group D env u n ms st)) = snd ?c"
    by (auto simp: create_group_def Let_def split: prod.split sum.split)
  then show "db_access (re_db (snd (create_group D env u n ms st))) = db_access (re_db st)"
    using c by (elim disjE) simp_all
  have "re_db (snd (join_group D env u gid st)) = re_db st \<or> re_db (snd (join_group D env u gid st)) = snd ?j"
    by (auto simp: join_group_def split: prod.split sum.split bool.split)
  then show "db_access (re_db (snd (join_group D env u gid st))) = db_access (re_db st)"
    using j by (elim disjE) simp_all
  have "re_db (snd (leave_group D env u gid st)) = re_db st \<or> re_db (snd (leave_group D env u gid st)) = snd ?l"
    by (auto simp: leave_group_def split: prod.split sum.split)
  then show "db_access (re_db (snd (leave_group D env u gid st))) = db_access (re_db st)"
    using l by (elim disjE) simp_all
  have "re_db (snd (approve_join D env o' u gid st)) = snd ?a"
    by (auto simp: approve_join_def split: prod.split sum.split)
  then show "db_access (re_db (snd (approve_join D env o' u gid st))) = db_access (re_db st)"
    using a by simp
qed

lemma closed_step:
  assumes d: "dbms_documented D" and c: "closed_to D (re_db st) u sid" and n: "\<not> opens D u sid op"
  shows "closed_to D (re_db (rest_exec L D op st)) u sid"
proof (cases "\<exists>env w ids. op = OpSetting env w ids")
  case True
  then obtain env w ids where op: "op = OpSetting env w ids" by blast
  have "\<not> (db_same D (ac_user a) u \<and> db_same D (ac_session a) sid)" if "a \<in> set (db_access (snd (change_setting D env w ids (re_db st))))" for a
    using change_setting_access [OF that] c n op by (auto simp: closed_to_def)
  then show ?thesis using op by (simp add: closed_to_def)
next
  case False
  have "db_access (re_db (rest_exec L D op st)) = db_access (re_db st)"
  proof (cases op)
    case (OpSetting env w ids)
    then show ?thesis using False by blast
  next
    case (OpRegister B env p n w)
    then show ?thesis by (simp add: register_user_def Let_def)
  next
    case (OpOpen env w p)
    then show ?thesis using open_session_quiet by simp
  next
    case (OpSave env i)
    then show ?thesis using save_tables(1) [of L D env i "re_db st"] by auto
  next
    case (OpSaveAI env w s c t)
    then show ?thesis using save_tables(2) [of L D env w s c t "re_db st"] by auto
  qed (simp_all add: reads_db group_ops_access)
  then show ?thesis using c untouched_access by blast
qed

lemma closed_run:
  assumes "dbms_documented D" "closed_to D (re_db st) u sid" "list_all (\<lambda>op. \<not> opens D u sid op) ops"
  shows "closed_to D (re_db (rest_run L D ops st)) u sid"
  using assms(2,3) unfolding rest_run_def by (induction ops arbitrary: st) (simp_all add: closed_step [OF assms(1)])

lemma closed_authorize:
  assumes d: "dbms_documented D" and c: "closed_to D S u sid" and s: "sid \<noteq> []"
  shows "\<exists>e. authorize_ai L D fault S u sid = Inl e"
proof (cases "lock_direct L D fault S u [] sid")
  case (Inr r)
  have r: "db_same D (se_uuid r) sid" using lock_direct_Inr(2) [OF Inr] s by (simp add: direct_row_def)
  have "List.find (\<lambda>a. db_same D (ac_user a) u \<and> db_same D (ac_session a) (se_uuid r)) (db_access S) = None"
    unfolding find_None_iff_ball using c r same_trans [OF d] unfolding closed_to_def by blast
  then show ?thesis by (simp add: authorize_ai_def Inr take_row_def Let_def)
qed (simp add: authorize_ai_def)

lemma closed_refuses:
  assumes d: "dbms_documented D" and c: "closed_to D S u sid" and s: "trim_space u = u" "trim_space sid = sid" "sid \<noteq> []"
  shows "\<exists>e. save_ai L D env u sid cid content S = (Inl e, S)"
proof -
  let ?i = "\<lparr>in_sender = u, in_client = cid, in_dest = None, in_content = trim_space content\<rparr>"
  have "\<exists>e. save_body L D env ?i sid 1 S = Inl e"
    using closed_authorize [OF d c s(3), of L "sv_fault env"] s(3) by (cases "lock_user D (sv_fault env) S u") (auto simp: save_body_def)
  then show ?thesis using s by (auto simp: save_ai_def save_tx_def Let_def)
qed

lemma closed_rows:
  assumes d: "dbms_documented D" and c: "closed_to D S u sid" and "(s, a) \<in> set (allowed_rows D u S)"
  shows "\<not> db_same D (se_uuid s) sid"
  using assms(3) c same_trans [OF d] unfolding closed_to_def allowed_rows_def by fastforce

lemma closed_ensure:
  assumes d: "dbms_documented D" and c: "closed_to D S u sid" and "db_same D k sid" shows "\<exists>e. ensure_access D env u k S = Inl e"
proof -
  have "\<not> db_same D (se_uuid s) k" if "(s, a) \<in> set (allowed_rows D u S)" for s a
    using closed_rows [OF d c that] assms(3) same_trans [OF d] by blast
  then have "filter (\<lambda>(s, a). db_same D (se_uuid s) k) (allowed_rows D u S) = []" by (auto simp: filter_empty_conv)
  then show ?thesis by (simp add: ensure_access_def)
qed

lemma map_messages_from:
  "map_messages D env S ms = Inr vs \<Longrightarrow> map im_in vs = map ms_session ms"
  by (auto simp: map_messages_def Let_def split: if_splits)

lemma search_Inr:
  assumes "search_messages D env u query within k S = Inr ms"
  obtains rows where "map_messages D env S rows = Inr ms" "\<forall>m \<in> set rows. search_within D u within S m"
    "within \<noteq> [] \<longrightarrow> ensure_access D env u within S = Inr ()"
proof -
  let ?pattern = "''%'' @ escape_like (trim_space query) @ ''%''"
  obtain n where n: "map_messages D env S (take n (newest_messages
      (filter (\<lambda>m. ai_like env (ms_content m) ?pattern \<and> search_within D u within S m) (db_messages S)))) = Inr ms"
    and e: "within \<noteq> [] \<longrightarrow> ensure_access D env u within S = Inr ()"
    using assms unfolding search_messages_def Let_def by (auto simp: bindE_eq_Inr split: if_splits simp del: append.simps)
  have "\<forall>m \<in> set (take n (newest_messages (filter (\<lambda>m. ai_like env (ms_content m) ?pattern \<and> search_within D u within S m) (db_messages S)))).
      search_within D u within S m"
    by (auto simp: newest_messages_def newest_def dest!: in_set_takeD)
  then show thesis using that n e by blast
qed

text \<open>C37. The assistant stays out of the sessions its user closed: after a successful change of the setting whose list does not name a session, and any
  run of all services in which that user does not open it again, the assistant cannot send into the session, cannot read it, and
  no search shows a message of it.\<close>

theorem assistant_kept_out:
  assumes "dbms_documented D" "change_setting D env u ids S0 = (Inr vs, re_db st)" "\<forall>i \<in> set ids. \<not> db_same D (trim_space i) sid"
    and "list_all (\<lambda>op. \<not> opens D u sid op) ops" "S = re_db (rest_run L D ops st)"
    and "trim_space u = u" "trim_space sid = sid" "sid \<noteq> []"
  shows "(\<exists>e. save_ai L D env1 u sid cid content S = (Inl e, S)) \<and> (\<exists>e. recent_messages D env2 u sid before n S = Inl e) \<and>
    (\<forall>ms. search_messages D env3 u query within k S = Inr ms \<longrightarrow> list_all (\<lambda>m. \<not> db_same D (im_in m) sid) ms)"
proof -
  have c: "closed_to D S u sid" using closed_run [OF assms(1) change_setting_closes [OF assms(1-3)] assms(4)] assms(5) by simp
  have ensure: "\<exists>e. ensure_access D env2 u sid S = Inl e" by (rule closed_ensure [OF assms(1) c same_refl [OF assms(1)]])
  have search: "list_all (\<lambda>m. \<not> db_same D (im_in m) sid) ms" if found: "search_messages D env3 u query within k S = Inr ms" for ms
  proof -
    obtain rows where rows: "map_messages D env3 S rows = Inr ms" "\<forall>m \<in> set rows. search_within D u within S m"
      and e: "within \<noteq> [] \<longrightarrow> ensure_access D env3 u within S = Inr ()"
      using found by (rule search_Inr)
    note w = rows(2) [unfolded search_within_def]
    have "\<not> db_same D (ms_session m) sid" if m: "m \<in> set rows" for m
    proof
      assume s: "db_same D (ms_session m) sid"
      show False
      proof (cases "within = []")
        case True
        then obtain r a where "(r, a) \<in> set (allowed_rows D u S)" "db_same D (ms_session m) (se_uuid r)" using w m by auto
        then show False using closed_rows [OF assms(1) c] s same_sym [OF assms(1)] same_trans [OF assms(1)] by blast
      next
        case False
        then have "db_same D within sid" using w m s same_sym [OF assms(1)] same_trans [OF assms(1)] by metis
        then show False using closed_ensure [OF assms(1) c, of within env3] e False by auto
      qed
    qed
    moreover have "list_all (\<lambda>m. \<not> db_same D (im_in m) sid) ms \<longleftrightarrow> list_all (\<lambda>i. \<not> db_same D i sid) (map im_in ms)"
      by (simp add: list_all_iff)
    ultimately show ?thesis unfolding map_messages_from [OF rows(1)] by (simp add: list_all_iff)
  qed
  have "\<exists>e. recent_messages D env2 u sid before n S = Inl e" using ensure by (auto simp: recent_messages_def)
  then show ?thesis using closed_refuses [OF assms(1) c assms(6-8)] search by blast
qed

section \<open>Accounts\<close>

text \<open>The documentation of bcrypt: a hash checks its password, an empty hash checks none, and passwords above 72 bytes are refused.\<close>

definition bcrypt_documented :: "bcrypt_lib \<Rightarrow> bool" where
  "bcrypt_documented B =
     ((\<forall>s p h. bc_hash B s p = Some h \<longrightarrow> bc_check B h p) \<and> (\<forall>p. \<not> bc_check B [] p) \<and> (\<forall>s p. 72 < length p \<longrightarrow> bc_hash B s p = None))"

text \<open>C38. Who registers can log in with the telephone number and password, and gets a token for the identifier that was registered, unless bcrypt
  refused the password: then the account exists but no password opens it, which is so for every password above 72 bytes.\<close>

theorem registered_users_log_in:
  assumes "dbms_documented D" "bcrypt_documented B" "register_user D B env phone nick password S = (Inr v, S')"
    and "\<not> ae_fault env' AsCount" "\<not> ae_fault env' AsFirst" "generate_token env' (av_uuid v) = Some token"
  shows "(bc_hash B (ae_salt env) password \<noteq> None \<longrightarrow> login_user D B env' phone password S' = Inr (av_uuid v, nick, token)) \<and>
    (bc_hash B (ae_salt env) password = None \<longrightarrow> login_user D B env' phone attempt S' = Inl AeInvalidPassword) \<and>
    (72 < length password \<longrightarrow> login_user D B env' phone attempt S' = Inl AeInvalidPassword)"
proof -
  define u where "u = \<lparr>us_uuid = CHR ''U'' # ae_uuid env, us_nick = nick, us_phone = phone, us_hash = password_hash B (ae_salt env) password\<rparr>"
  have u: "us_uuid u = av_uuid v" "us_nick u = nick" "us_phone u = phone" "us_hash u = password_hash B (ae_salt env) password"
    "S' = S\<lparr>db_users := db_users S @ [u]\<rparr>" "\<forall>r \<in> set (db_users S). \<not> db_same D (us_phone r) phone"
    using assms(3) by (auto simp: register_user_def u_def Let_def split: if_splits)
  have f: "List.find (\<lambda>r. db_same D (us_phone r) phone) (db_users S') = Some u"
    using u(3,5,6) same_refl [OF assms(1)] find_None_iff_ball [of "\<lambda>r. db_same D (us_phone r) phone" "db_users S"] by (simp add: find_append)
  have c: "counted False (\<lambda>r. db_same D (us_phone r) phone) (db_users S') \<noteq> 0"
    using u(3,5) same_refl [OF assms(1)] by (simp add: counted_def)
  have l: "login_user D B env' phone pw S' = (if \<not> bc_check B (us_hash u) pw then Inl AeInvalidPassword else Inr (av_uuid v, nick, token))" for pw
    using f c assms(4-6) u(1,2) by (simp add: login_user_def)
  have doc: "bc_hash B s p = Some h \<Longrightarrow> bc_check B h p" "\<not> bc_check B [] p" "72 < length p \<Longrightarrow> bc_hash B s p = None" for s p h
    using assms(2) unfolding bcrypt_documented_def by blast+
  have none: "login_user D B env' phone attempt S' = Inl AeInvalidPassword" if "bc_hash B (ae_salt env) password = None"
    using that l doc(2) u(4) by (simp add: password_hash_def)
  moreover have "login_user D B env' phone password S' = Inr (av_uuid v, nick, token)" if "bc_hash B (ae_salt env) password = Some h" for h
    using that l doc(1) u(4) by (simp add: password_hash_def)
  moreover have "bc_hash B (ae_salt env) password = None" if "72 < length password" using doc(3) that by simp
  ultimately show ?thesis by (cases "bc_hash B (ae_salt env) password") auto
qed

end
