(* ===== verification/GroupSamples.thy ===== *)
theory GroupSamples
  imports AssistantRights
begin

text \<open>
  A group of two users on the sample tables, a user outside it, a closed session and an account, on which the properties of the business services
  are applied.
\<close>


definition cache_a :: cache_env where
  "cache_a = \<lparr>ca_client = False, ca_reads = \<lambda>_. True, ca_fate = \<lambda>_. RedisDone\<rparr>"

definition group_env_a :: group_env where
  "group_env_a = \<lparr>ge_fault = \<lambda>_. False, ge_uuid = uuid_a, ge_session = uuid_b, ge_now = 5, ge_commit = Committed, ge_order = \<lambda>gs. gs, ge_cache = cache_a\<rparr>"

definition rest_a :: rest where
  "rest_a = \<lparr>re_db = db_a, re_cache = Map.empty\<rparr>"

definition gid_a :: string where "gid_a = CHR ''G'' # uuid_a"

definition row_g :: group_row where
  "row_g = new_group group_env_a user_a ''team'' 0"

definition rest_b :: rest where
  "rest_b = rest_a\<lparr>re_db := db_a\<lparr>db_groups := [row_g], db_contacts := [group_contact user_a gid_a],
     db_sessions := db_sessions db_a @ [group_session group_env_a user_a gid_a]\<rparr>\<rparr>"

lemma utf8_users: "utf8_valid user_a" "utf8_valid user_b" "user_a \<noteq> user_b" "user_b \<noteq> user_a" "user_a \<noteq> []" "user_b \<noteq> []" "gid_a \<noteq> []"
  "CHR ''S'' # uuid_b \<noteq> direct_a" "direct_a \<noteq> CHR ''S'' # uuid_b" "direct_a \<noteq> CHR ''S'' # uuid_a" "direct_a \<noteq> CHR ''S'' # uuid_a" "direct_a \<noteq> CHR ''S'' # uuid_a" "direct_a \<noteq> CHR ''S'' # uuid_a" "direct_a \<noteq> CHR ''S'' # uuid_a" "user_b \<noteq> gid_a" "user_a \<noteq> gid_a"
  by code_simp+

lemma rest_a_inv: "rest_inv plain_dbms (re_db rest_a)"
  by (simp add: rest_inv_def links_ok_def roster_def contact_links_def session_links_def rest_a_def db_a_def)

lemma row_g_members: "members_of row_g = [user_a]" "gr_uuid row_g = gid_a" "gr_deleted row_g = False" "gr_status row_g = 0" "gr_mode row_g = 0"
  "gr_owner row_g = user_a" "decode_ids (gr_members row_g) = Inr (Some [user_a])"
  using strings_json_text [of "[user_a]"] utf8_users
  by (simp_all add: row_g_def new_group_def members_of_def gid_a_def group_env_a_def decode_ids_def)

lemma group_env_a_simps [simp]:
  "ge_fault group_env_a s = False" "ge_commit group_env_a = Committed" "ge_uuid group_env_a = uuid_a" "ge_session group_env_a = uuid_b"
  "drop_cached (ge_cache group_env_a) ks st = st"
  by (simp_all add: group_env_a_def cache_a_def drop_cached_def cache_delete_def cache_write_def)

lemma plain_same [simp]: "db_same plain_dbms = (=)" "db_json plain_dbms s = s"
  by (simp_all add: plain_dbms_def)

lemma tables_a [simp]: "db_groups db_a = []" "db_contacts db_a = []" "db_applies db_a = []" "db_access db_a = []"
  "db_users db_a = [user_row_a, user_row_b]"
  "db_sessions db_a = [\<lparr>se_uuid = direct_a, se_send = user_b, se_receive = user_a, se_type = 0, se_created = 0\<rparr>]"
  by (simp_all add: db_a_def)

lemma create_a: "rest_exec doc_lib plain_dbms (OpCreate group_env_a user_a ''team'' [0]) rest_a = rest_b"
proof -
  have b: "create_body plain_dbms group_env_a user_a row_g db_a = Inr ((), re_db rest_b)"
    using row_g_members utf8_users
    by (simp add: create_body_def insert_group_def link_member_def insert_contact_def insert_session_def rest_b_def rest_a_def
          group_contact_def group_session_def)
  have u: "user_exists plain_dbms db_a user_a" by (simp add: user_exists_def)
  have d: "re_db rest_a = db_a" "rest_b = rest_a\<lparr>re_db := re_db rest_b\<rparr>" by (simp_all add: rest_a_def rest_b_def)
  have "snd (create_group plain_dbms group_env_a user_a ''team'' [0] rest_a) = rest_a\<lparr>re_db := re_db rest_b\<rparr>"
    using b u utf8_users(5) d(1) by (simp add: create_group_def run_tx_def Let_def row_g_def [symmetric])
  then show ?thesis unfolding rest_exec.simps by (rule trans [OF _ d(2) [symmetric]])
qed

lemma rest_b_inv: "rest_inv plain_dbms (re_db rest_b)"
proof -
  have "op_text (OpCreate group_env_a user_a ''team'' [0])" using utf8_users(1) by simp
  from rest_step_inv [OF plain_documented rest_a_inv this, of doc_lib] show ?thesis unfolding create_a .
qed

lemma groups_b [simp]: "db_groups (re_db rest_b) = [row_g]" "db_applies (re_db rest_b) = []" "db_access (re_db rest_b) = []"
  by (simp_all add: rest_b_def rest_a_def)

lemma roster_b: "roster (re_db rest_b) = [(gid_a, [user_a])]"
  by (simp add: roster_def row_g_members)

lemma memberships_consistent_witness: "gr_count row_g = int (length (members_of row_g)) \<and>
  (\<exists>c \<in> set (db_contacts (re_db rest_b)). ct_type c = 1 \<and> ct_user c = user_a \<and> ct_contact c = gid_a)"
proof -
  let ?ops = "[OpCreate group_env_a user_a ''team'' [0]]"
  have r: "re_db rest_b = re_db (rest_run doc_lib plain_dbms ?ops rest_a)"
    unfolding rest_run_def fold_simps comp_def create_a by simp
  have "list_all op_text ?ops" using utf8_users(1) by simp
  from memberships_consistent [OF plain_documented rest_a_inv this r, of row_g] row_g_members show ?thesis by auto
qed

text \<open>The second user joins.\<close>

definition group_env_b :: group_env where
  "group_env_b = group_env_a\<lparr>ge_session := uuid_a\<rparr>"

definition op_join_b :: rest_op where "op_join_b = OpJoin group_env_b user_b gid_a"

definition row_h :: group_row where "row_h = with_members plain_dbms row_g [user_a, user_b]"

lemma group_env_b_simps [simp]:
  "ge_fault group_env_b s = False" "ge_commit group_env_b = Committed" "ge_session group_env_b = uuid_a" "drop_cached (ge_cache group_env_b) ks st = st"
  using group_env_a_simps(5) by (simp_all add: group_env_b_def)

lemma join_b: "db_groups (re_db (rest_exec doc_lib plain_dbms op_join_b rest_b)) = [row_h]"
proof -
  have f: "find_group plain_dbms (re_db rest_b) gid_a = Some row_g" by (simp add: find_group_def group_is_def row_g_members)
  have u: "user_exists plain_dbms (re_db rest_b) user_b" by (simp add: user_exists_def rest_b_def rest_a_def)
  have s: "db_groups (set_members plain_dbms gid_a [user_a, user_b] (re_db rest_b)) = [row_h]"
    by (simp add: set_members_def group_is_def row_g_members row_h_def with_members_def)
  have l: "\<exists>S'. link_member plain_dbms group_env_b user_b gid_a (set_members plain_dbms gid_a [user_a, user_b] (re_db rest_b)) = Inr S' \<and> db_groups S' = [row_h]"
    using utf8_users s
    by (simp add: link_member_def insert_contact_def insert_session_def group_contact_def group_session_def set_members_def rest_b_def rest_a_def)
  show ?thesis
    using l f u utf8_users
    by (auto simp: op_join_b_def join_group_def run_tx_def join_body_def join_as_def row_g_members nil_list_def)
qed

lemma row_h_members: "members_of row_h = [user_a, user_b]" "gr_uuid row_h = gr_uuid row_g"
  using members_text [OF plain_documented, of "[user_a, user_b]"] utf8_users by (simp_all add: row_h_def with_members_def members_of_def)

text \<open>The second user, who never asked, stays out.\<close>

definition to_group_a :: save_input where
  "to_group_a = \<lparr>in_sender = user_b, in_client = uuid_a, in_dest = Some \<lparr>d_type = RECEIVE_TYPE_GROUP, d_id = gid_a\<rparr>, in_content = ''hi''\<rparr>"

definition ops_a :: "rest_op list" where
  "ops_a = [OpLeave group_env_b user_b gid_a, OpApprove group_env_b user_a user_b gid_a, OpExpire {group_info_key gid_a}]"

lemma strangers_stay_out_witness:
  "\<exists>e. save_message doc_lib plain_dbms save_env_a to_group_a (re_db (rest_run doc_lib plain_dbms ops_a rest_b)) =
     (Inl e, re_db (rest_run doc_lib plain_dbms ops_a rest_b))"
proof -
  have o: "outside plain_dbms (re_db rest_b) user_b gid_a" using utf8_users by (simp add: outside_def roster_b)
  have t: "list_all op_text ops_a" "list_all (\<lambda>op. \<not> asks plain_dbms user_b gid_a op) ops_a" using utf8_users by (simp_all add: ops_a_def)
  have i: "in_sender to_group_a = user_b" "in_dest to_group_a = Some \<lparr>d_type = RECEIVE_TYPE_GROUP, d_id = gid_a\<rparr>"
    by (simp_all add: to_group_a_def)
  show ?thesis using strangers_stay_out [OF plain_documented rest_b_inv t(1) o t(2) refl i] by blast
qed

text \<open>The first user opens nothing; another user's setting does not matter.\<close>

definition assistant_env_a :: assistant_env where
  "assistant_env_a = \<lparr>ai_fault = \<lambda>_. False, ai_commit = Committed, ai_sorted = sort, ai_like = \<lambda>_ _. True\<rparr>"

lemma get_setting_total: "(\<And>s. \<not> ai_fault env s) \<Longrightarrow> \<exists>vs. get_setting D env u S = Inr vs"
  by (auto simp: get_setting_def Let_def)

lemma assistant_kept_out_witness:
  "\<exists>e. save_ai doc_lib plain_dbms save_env_a user_a direct_a uuid_a ''hi''
     (re_db (rest_run doc_lib plain_dbms [OpSetting assistant_env_a user_b [direct_a]] rest_a)) =
     (Inl e, re_db (rest_run doc_lib plain_dbms [OpSetting assistant_env_a user_b [direct_a]] rest_a))"
proof -
  have t: "trim_space user_a = user_a" "trim_space direct_a = direct_a" "direct_a \<noteq> []" by code_simp+
  have e: "ai_fault assistant_env_a s = False" "ai_commit assistant_env_a = Committed" for s by (simp_all add: assistant_env_a_def)
  have "db_a\<lparr>db_access := db_access db_a\<rparr> = db_a" by simp
  then have d: "db_a\<lparr>db_access := []\<rparr> = db_a" unfolding tables_a .
  obtain vs where "get_setting plain_dbms assistant_env_a user_a (db_a\<lparr>db_access := []\<rparr>) = Inr vs"
    using get_setting_total e(1) by blast
  then have "change_setting plain_dbms assistant_env_a user_a [] db_a = (Inr vs, db_a\<lparr>db_access := []\<rparr>)"
    using t utf8_users e by (simp add: change_setting_def normalize_sessions_def sorted_unique_def change_body_def run_tx_def)
  then have "change_setting plain_dbms assistant_env_a user_a [] db_a = (Inr vs, re_db rest_a)" unfolding d by (simp add: rest_a_def)
  from assistant_kept_out [OF plain_documented this _ _ refl t, of "[OpSetting assistant_env_a user_b [direct_a]]"] show ?thesis
    using utf8_users by simp
qed

text \<open>An account that logs in.\<close>

definition bcrypt_a :: bcrypt_lib where
  "bcrypt_a = \<lparr>bc_hash = \<lambda>salt p. if length p \<le> 72 then Some (CHR ''h'' # p) else None, bc_check = \<lambda>h p. h = CHR ''h'' # p \<and> length p \<le> 72\<rparr>"

definition account_env_a :: account_env where
  "account_env_a = \<lparr>ae_fault = \<lambda>_. False, ae_uuid = uuid_c, ae_salt = [], ae_now = 0, ae_sign = \<lambda>u t. Some u,
     ae_order = \<lambda>us. us, ae_contacts = \<lambda>cs. cs, ae_cache = cache_a\<rparr>"

lemma registered_users_log_in_witness:
  "\<exists>S'. snd (register_user plain_dbms bcrypt_a account_env_a ''13900000009'' ''cem'' ''secret'' db_a) = S' \<and>
     login_user plain_dbms bcrypt_a account_env_a ''13900000009'' ''secret'' S' =
       Inr (CHR ''U'' # uuid_c, ''cem'', CHR ''U'' # uuid_c)"
proof -
  have b: "bcrypt_documented bcrypt_a" by (auto simp: bcrypt_documented_def bcrypt_a_def split: if_splits)
  have p: "is_phone ''13900000009''" by code_simp
  have u: "us_phone user_row_a = ''13800000001''" "us_phone user_row_b = ''13800000002''" "us_nick user_row_a = ''ann''" "us_nick user_row_b = ''ben''"
    "CHR ''U'' # uuid_c \<noteq> user_a" "CHR ''U'' # uuid_c \<noteq> user_b" "user_a \<noteq> CHR ''U'' # uuid_c" "user_b \<noteq> CHR ''U'' # uuid_c"
    by code_simp+
  have e: "ae_fault account_env_a s = False" "ae_uuid account_env_a = uuid_c" "ae_salt account_env_a = []" for s
    by (simp_all add: account_env_a_def)
  have g: "generate_token account_env_a v = Some v" for v
    by (simp add: generate_token_def account_env_a_def)
  obtain S' where r: "register_user plain_dbms bcrypt_a account_env_a ''13900000009'' ''cem'' ''secret'' db_a =
    (Inr \<lparr>av_uuid = CHR ''U'' # uuid_c, av_nick = ''cem'', av_phone = ''13900000009''\<rparr>, S')"
    using p u e by (simp add: register_user_def counted_def Let_def)
  have h: "bc_hash bcrypt_a (ae_salt account_env_a) ''secret'' \<noteq> None" by (simp add: bcrypt_a_def)
  show ?thesis
    using registered_users_log_in [OF plain_documented b r _ _ g] e h r by simp
qed

end
