(* ===== verification/HttpRights.thy ===== *)
theory HttpRights
  imports HttpApi GroupSamples
begin

text \<open>
  What the HTTP API promises: a request acts for the user of its token and for nobody else, and the history of a conversation is shown only to
  those who are in it.
\<close>

section \<open>Requests as operations\<close>

fun call_op :: "http_env \<Rightarrow> string \<Rightarrow> http_call \<Rightarrow> rest_op option" where
  "call_op env u (CallRegister (Some (p, w, n))) = Some (OpRegister (he_bcrypt env) (he_account env) p n w)"
| "call_op env u (CallUserInfo (Some r)) = Some (OpInfo (he_account env) (Some u))"
| "call_op env u (CallOpen (Some p)) = Some (OpOpen (he_account env) u p)"
| "call_op env u CallSessions = Some (OpSessions (he_account env) u)"
| "call_op env u (CallCreate (Some (n, m))) = Some (OpCreate (he_group env) u n [m])"
| "call_op env u (CallJoin (Some g)) = Some (OpJoin (he_group env) u g)"
| "call_op env u (CallLeave (Some g)) = Some (OpLeave (he_group env) u g)"
| "call_op env u (CallApprove (Some (g, a))) = Some (OpApprove (he_group env) u a g)"
| "call_op env u (CallGroup (Some g)) = Some (OpGet (he_group env) g)"
| "call_op env u CallJoined = Some (OpJoined (he_group env) u)"
| "call_op env u CallOwned = Some (OpOwned (he_group env) u)"
| "call_op env u CallGroupSessions = Some (OpGroupSessions (he_account env) u)"
| "call_op env u CallContacts = Some (OpContacts (he_account env) u)"
| "call_op env u (CallChange (Some ids)) = Some (OpSetting (he_assistant env) u ids)"
| "call_op env u _ = None"

definition op_effect :: "lib \<Rightarrow> dbms \<Rightarrow> rest_op option \<Rightarrow> rest \<Rightarrow> rest" where
  "op_effect L D op st = (case op of None \<Rightarrow> st | Some op \<Rightarrow> rest_exec L D op st)"

lemma after_reply: "snd (case p of (Inl e, st') \<Rightarrow> (f e, st') | (Inr x, st') \<Rightarrow> (g x, st')) = snd p"
  by (auto split: prod.split sum.split)

lemma after_reply_db:
  "snd (case p of (Inl e, S) \<Rightarrow> (f e, st\<lparr>re_db := S\<rparr>) | (Inr x, S) \<Rightarrow> (g x, st\<lparr>re_db := S\<rparr>)) = st\<lparr>re_db := snd p\<rparr>"
  by (auto split: prod.split sum.split)

lemmas v1_defs = v1_create_group_def v1_group_action_def v1_approve_def v1_group_info_def v1_list_def v1_joined_groups_def v1_owned_groups_def
  v1_group_sessions_def v1_contacts_def v1_open_session_def v1_user_sessions_def v1_user_info_def v1_register_def v1_login_def v1_setting_def
  v1_change_setting_def with_user_def current_user_def

lemma route_effect:
  assumes "u \<noteq> []" shows "snd (http_route L D env (Some u) c st) = op_effect L D (call_op env u c) st"
  using assms by (induction env u c rule: call_op.induct)
    (simp_all add: v1_defs op_effect_def after_reply after_reply_db split: option.split prod.split)

lemma public_effect:
  assumes "is_public c" shows "snd (http_route L D env None c st) = op_effect L D (call_op env u c) st"
  using assms by (induction env u c rule: call_op.induct) (simp_all add: is_public_def v1_defs op_effect_def after_reply_db split: option.split prod.split)

lemma auth_user: "http_auth J key header = Some u \<Longrightarrow> u \<noteq> []"
  by (auto simp: http_auth_def parse_jwt_def Let_def split: if_splits option.splits)

text \<open>The handler refuses, or has the effect of one operation of the user of the token.\<close>

lemma handle_effect:
  obtains (refused) "http_auth J key header = None" "\<not> is_public c" "http_handle L D J key env header c st = ((401, HbError), st)"
  | (public) "is_public c" "\<And>u. snd (http_handle L D J key env header c st) = op_effect L D (call_op env u c) st"
  | (acts) u where "http_auth J key header = Some u" "\<not> is_public c" "u \<noteq> []"
      "snd (http_handle L D J key env header c st) = op_effect L D (call_op env u c) st"
proof (cases "is_public c")
  case True
  then show thesis using public public_effect by (simp add: http_handle_def)
next
  case False
  then show thesis using refused acts route_effect auth_user [of J key header] by (cases "http_auth J key header") (simp_all add: http_handle_def)
qed

section \<open>Membership by request\<close>

text \<open>The claims of a token are JSON text, and the decoder gives valid UTF-8; so are the fields of a bound body.\<close>

definition jwt_documented :: "jwt_lib \<Rightarrow> bool" where
  "jwt_documented J = (\<forall>key token u t. jw_claims J key token = Some (u, t) \<longrightarrow> utf8_valid u)"

fun call_text :: "http_call \<Rightarrow> bool" where
  "call_text (CallApprove (Some (g, a))) = utf8_valid a"
| "call_text _ = True"

lemma auth_text: "jwt_documented J \<Longrightarrow> http_auth J key header = Some u \<Longrightarrow> utf8_valid u"
  by (auto simp: jwt_documented_def http_auth_def parse_jwt_def Let_def split: if_splits option.splits) blast

lemma call_op_text: "utf8_valid u \<Longrightarrow> call_text c \<Longrightarrow> call_op env u c = Some op \<Longrightarrow> op_text op"
  by (induction env u c rule: call_op.induct) auto

lemma call_op_member:
  "call_op env u c = Some (OpJoin e v gid) \<Longrightarrow> c = CallJoin (Some gid) \<and> v = u"
  "call_op env u c = Some (OpLeave e v gid) \<Longrightarrow> c = CallLeave (Some gid) \<and> v = u"
  "call_op env u c = Some (OpApprove e v a gid) \<Longrightarrow> c = CallApprove (Some (gid, a)) \<and> v = u"
  by (induction env u c rule: call_op.induct) auto

text \<open>The three ways a group's members change, as cases.\<close>

lemma member_cases:
  assumes "dbms_documented D" "rest_inv D (re_db st)" "op_text op" "S' = re_db (rest_exec L D op st)"
    and "g \<in> set (db_groups (re_db st))" "g' \<in> set (db_groups S')" "gr_uuid g' = gr_uuid g" "g' \<noteq> g"
  obtains (joined) e u gid where "op = OpJoin e u gid" "group_is D gid g" "gr_status g = 0" "gr_mode g \<notin> {1, 2}"
      "user_exists D (re_db st) u" "members_of g' = members_of g @ [u]"
  | (approved) e v u gid where "op = OpApprove e v u gid" "group_is D gid g" "v = gr_owner g \<or> v \<in> set (admins_of g)"
      "\<exists>p \<in> set (db_applies (re_db st)). pending_apply D u gid p" "members_of g' = members_of g @ [u]"
  | (left) e u gid where "op = OpLeave e u gid" "group_is D gid g" "gr_status g = 0" "u \<noteq> gr_owner g"
      "members_of g' = filter (\<lambda>w. w \<noteq> u) (members_of g)"
  using member_change [OF assms(1-7)] assms(8) by blast

lemma member_kept:
  assumes "dbms_documented D" "rest_inv D (re_db st)" "op_text op" "S' = re_db (rest_exec L D op st)"
    and "g \<in> set (db_groups (re_db st))" "g' \<in> set (db_groups S')" "gr_uuid g' = gr_uuid g"
  shows "gr_owner g' = gr_owner g \<and> gr_admins g' = gr_admins g \<and> gr_mode g' = gr_mode g \<and> gr_status g' = gr_status g"
  using member_change [OF assms] by blast

lemma public_op: "is_public c \<Longrightarrow> call_op env u c = Some op \<Longrightarrow> \<exists>e p n w. op = OpRegister e (he_account env) p n w"
  by (induction env u c rule: call_op.induct) (auto simp: is_public_def)

text \<open>C34. Over the HTTP API the members of a group change only by the right request of the right user: whenever a request leaves a group
  with another row, its token names a user, and either that user joined an open, normal group, or approved a pending
  application as its owner or administrator, or left it without being the owner; the other members, the owner, the
  administrators, the mode and the status are as before.\<close>

theorem memberships_change_by_request:
  assumes d: "dbms_documented D" and inv: "rest_inv D (re_db st)" and j: "jwt_documented J" and t: "call_text c"
    and h: "http_handle L D J key env header c st = (reply, st')"
    and g: "g \<in> set (db_groups (re_db st))" "g' \<in> set (db_groups (re_db st'))" "gr_uuid g' = gr_uuid g" "g' \<noteq> g"
  shows "\<exists>u gid. http_auth J key header = Some u \<and> group_is D gid g \<and>
    gr_owner g' = gr_owner g \<and> gr_admins g' = gr_admins g \<and> gr_mode g' = gr_mode g \<and> gr_status g' = gr_status g \<and>
    (c = CallJoin (Some gid) \<and> gr_status g = 0 \<and> gr_mode g \<notin> {1, 2} \<and> user_exists D (re_db st) u \<and>
       members_of g' = members_of g @ [u] \<or>
     c = CallLeave (Some gid) \<and> gr_status g = 0 \<and> u \<noteq> gr_owner g \<and> members_of g' = filter (\<lambda>w. w \<noteq> u) (members_of g) \<or>
     (\<exists>a. c = CallApprove (Some (gid, a)) \<and> (u = gr_owner g \<or> u \<in> set (admins_of g)) \<and>
       (\<exists>p \<in> set (db_applies (re_db st)). pending_apply D a gid p) \<and> members_of g' = members_of g @ [a]))"
proof -
  have "sorted_wrt (\<lambda>g h. \<not> db_same D (gr_uuid g) (gr_uuid h)) (db_groups (re_db st))" using inv by (simp add: rest_inv_def)
  note once = sorted_wrt_once [of "\<lambda>g h. db_same D (gr_uuid g) (gr_uuid h)", OF this same_refl [OF d] same_sym [OF d]]
  have one: "h = h'" if "h \<in> set (db_groups (re_db st))" "h' \<in> set (db_groups (re_db st))" "gr_uuid h = gr_uuid h'" for h h'
    using once that same_refl [OF d, of "gr_uuid h'"] by simp
  have moved: "st' \<noteq> st" using one [OF _ g(1,3)] g(2,4) by blast
  have by_op: "\<exists>op. call_op env u c = Some op \<and> st' = rest_exec L D op st" if "st' = op_effect L D (call_op env u c) st" for u
    using that moved by (cases "call_op env u c") (simp_all add: op_effect_def)
  have s: "snd (http_handle L D J key env header c st) = st'" using h by simp
  show ?thesis
  proof (cases rule: handle_effect [of J key header c L D env st])
    case refused
    then show ?thesis using s moved by simp
  next
    case public
    then obtain op where o: "call_op env [] c = Some op" "st' = rest_exec L D op st" using by_op s by metis
    obtain e p n w where r: "op = OpRegister e (he_account env) p n w" using public_op [OF public(1) o(1)] by blast
    then have "op_text op" by simp
    from member_cases [OF d inv this _ g, of L] o(2) show ?thesis unfolding r by blast
  next
    case (acts u)
    then obtain op where o: "call_op env u c = Some op" "st' = rest_exec L D op st" using by_op s by metis
    have t: "op_text op" by (rule call_op_text [OF auth_text [OF j acts(1)] t o(1)])
    have r: "re_db st' = re_db (rest_exec L D op st)" using o(2) by simp
    note m = member_kept [OF d inv t r g(1-3)]
    from d inv t r g show ?thesis
    proof (cases rule: member_cases)
      case (joined e v gid)
      show ?thesis by (rule exI [of _ u], rule exI [of _ gid]) (use joined m acts(1) call_op_member(1) [of env u c e v gid] o(1) in simp)
    next
      case (approved e v a gid)
      show ?thesis by (rule exI [of _ u], rule exI [of _ gid]) (use approved m acts(1) call_op_member(3) [of env u c e v a gid] o(1) in simp)
    next
      case (left e v gid)
      show ?thesis by (rule exI [of _ u], rule exI [of _ gid]) (use left m acts(1) call_op_member(2) [of env u c e v gid] o(1) in simp)
    qed
  qed
qed

section \<open>History\<close>

lemma may_sync_member:
  assumes "may_sync L D env u c limit S = Some (sid, grp)"
  shows "valid_id L u (CHR ''U'') \<and> limit \<le> 500 \<and>
    (if grp then \<exists>r \<in> set (db_groups S). db_same D (gr_uuid r) sid \<and> \<not> gr_deleted r \<and> gr_status r = 0 \<and> u \<in> set (members_of r)
     else \<exists>r \<in> set (db_sessions S). direct_row D u [] sid r \<and> u \<in> {se_send r, se_receive r})"
proof -
  have m: "valid_id L u (CHR ''U'')" "limit \<le> 500"
    "if grp then \<exists>x. lock_group L D (sn_fault env) S u sid = Inr x else \<exists>x. lock_direct L D (sn_fault env) S u [] sid = Inr x"
    using assms by (auto simp: may_sync_def split: sum.splits if_splits)
  show ?thesis
  proof (cases grp)
    case True
    then obtain r who where "lock_group L D (sn_fault env) S u sid = Inr (r, who)" using m(3) by auto
    then show ?thesis using m(1,2) True by (elim lock_group_Inr) (auto simp: members_of_def)
  next
    case False
    then obtain r where "lock_direct L D (sn_fault env) S u [] sid = Inr r" using m(3) by auto
    from lock_direct_Inr [OF this] m(1,2) False show ?thesis by auto
  qed
qed

text \<open>C36. The history of a conversation is shown only to those who are in it: whenever the HTTP API answers a page, the token of the request
  names a user who is a member of the normal, existing group, or one side of the direct session, that the conversation names;
  the page is the next at most 500 stored messages of exactly this conversation after the cursor, and nothing changes.\<close>

theorem history_only_for_members:
  assumes "http_handle L D J key env header (CallSync e limit c cursor) st = ((status, HbPage p), st')"
  shows "\<exists>u sid grp after n. http_auth J key header = Some u \<and> status = 200 \<and> st' = st \<and> parse_conversation L c = Inr (sid, grp) \<and>
    (if grp then \<exists>r \<in> set (db_groups (re_db st)). db_same D (gr_uuid r) sid \<and> \<not> gr_deleted r \<and> gr_status r = 0 \<and> u \<in> set (members_of r)
     else \<exists>r \<in> set (db_sessions (re_db st)). direct_row D u [] sid r \<and> u \<in> {se_send r, se_receive r}) \<and>
    decode_cursor c cursor = Inr after \<and> 0 < n \<and> n \<le> 500 \<and>
    sy_messages p = map (row_message L) (take n (rows_after D (re_db st) sid after)) \<and>
    (sy_more p \<longleftrightarrow> n < length (rows_after D (re_db st) sid after))"
proof -
  obtain u where u: "http_auth J key header = Some u" using assms by (auto simp: http_handle_def is_public_def split: option.splits)
  then have r: "st' = st" "http_sync L D e u limit c cursor (re_db st) = (status, HbPage p)"
    using assms by (auto simp: http_handle_def is_public_def)
  then obtain n where s: "sync_messages L D e u c cursor n (re_db st) = Inr p" "status = 200"
    by (auto simp: http_sync_def sync_error_reply_def split: if_splits option.splits sum.splits)
  then obtain sid grp after where m: "may_sync L D e u c n (re_db st) = Some (sid, grp)" "decode_cursor c cursor = Inr after"
    by (auto simp: sync_Inr)
  note f = may_sync_member [OF m(1)] may_sync_Some [OF m(1)] sync_page [OF s(1) m]
  have "page_size n \<le> 500" using conjunct1 [OF conjunct2 [OF f(1)]] by (auto simp: page_size_def)
  then show ?thesis using u r(1) s(2) m(2) f by blast
qed

section \<open>Examples\<close>

definition jwt_of :: "string \<Rightarrow> jwt_lib" where
  "jwt_of u = \<lparr>jw_method = \<lambda>_. Some ''HS256'', jw_claims = \<lambda>_ t. if t = ''x'' then Some (u, 9) else None\<rparr>"

definition http_env_b :: http_env where
  "http_env_b = \<lparr>he_group = group_env_b, he_account = account_env_a, he_bcrypt = bcrypt_a, he_assistant = assistant_env_a\<rparr>"

lemma bearer_x: "u \<noteq> [] \<Longrightarrow> http_auth (jwt_of u) key ''Bearer x'' = Some u"
proof -
  assume "u \<noteq> []"
  moreover have "space_fields ''Bearer x'' = [''Bearer'', ''x'']" "is_bearer ''Bearer''" by code_simp+
  ultimately show ?thesis by (simp add: http_auth_def parse_jwt_def jwt_of_def)
qed

lemma memberships_change_by_request_witness:
  "row_h \<in> set (db_groups (re_db (snd (http_handle doc_lib plain_dbms (jwt_of user_b) [] http_env_b ''Bearer x'' (CallJoin (Some gid_a)) rest_b)))) \<and>
   members_of row_h = members_of row_g @ [user_b]"
proof -
  let ?h = "http_handle doc_lib plain_dbms (jwt_of user_b) [] http_env_b ''Bearer x'' (CallJoin (Some gid_a)) rest_b"
  have a: "http_auth (jwt_of user_b) key ''Bearer x'' = Some user_b" for key using bearer_x utf8_users by simp
  have "snd ?h = rest_exec doc_lib plain_dbms op_join_b rest_b"
    using a route_effect [of user_b doc_lib plain_dbms http_env_b "CallJoin (Some gid_a)" rest_b] utf8_users
    by (simp add: http_handle_def is_public_def op_effect_def op_join_b_def http_env_b_def)
  then have g: "row_h \<in> set (db_groups (re_db (snd ?h)))" by (simp add: join_b)
  have n: "row_h \<noteq> row_g" using row_h_members(1) row_g_members(1) by auto
  have j: "jwt_documented (jwt_of user_b)" using utf8_users by (simp add: jwt_documented_def jwt_of_def)
  from memberships_change_by_request [OF plain_documented rest_b_inv j _ prod.collapse [symmetric], where c = "CallJoin (Some gid_a)" and L = doc_lib and key = "[]" and env = http_env_b and header = "''Bearer x''" and g = row_g and g' = row_h] g n a
  show ?thesis by (simp add: row_h_members(2))
qed

lemma history_only_for_members_witness:
  "\<exists>p. http_handle doc_lib plain_dbms (jwt_of user_a) [] http_env_b ''Bearer x'' (CallSync sync_env_a [] conversation_a []) (rest_a\<lparr>re_db := db_b\<rparr>) =
     ((200, HbPage p), rest_a\<lparr>re_db := db_b\<rparr>) \<and>
   (\<exists>r \<in> set (db_sessions db_b). direct_row plain_dbms user_a [] direct_a r)"
proof -
  have d: "decode_cursor c [] = Inr 0" for c by (simp add: decode_cursor_def)
  obtain p where p: "sync_messages doc_lib plain_dbms sync_env_a user_a conversation_a [] 0 db_b = Inr p"
    using sync_succeeds [OF sample_may_sync d] sample_row by (auto simp: sample_rows)
  have a: "http_auth (jwt_of user_a) key ''Bearer x'' = Some user_a" for key using bearer_x utf8_users by simp
  have h: "http_handle doc_lib plain_dbms (jwt_of user_a) [] http_env_b ''Bearer x'' (CallSync sync_env_a [] conversation_a []) (rest_a\<lparr>re_db := db_b\<rparr>) =
     ((200, HbPage p), rest_a\<lparr>re_db := db_b\<rparr>)"
    using a p by (simp add: http_handle_def is_public_def http_sync_def)
  from history_only_for_members [OF h] a sample_session show ?thesis using h by auto
qed

end
