(* ===== verification/ChatMessages.thy ===== *)
theory ChatMessages
  imports GroupService AccountService
begin

text \<open>
  The messages of the single-process server: the direct messages of internal/service/gormservice/message_service.go, the group messages at the
  end of group_service.go, and the cached lists of internal/service/redisservice/message_cache.go. This server has a table of messages
  of its own, without the columns the message store of Logic adds.
\<close>

section \<open>Appending to a cached list\<close>

definition message_list_key :: "string \<Rightarrow> string \<Rightarrow> string" where
  "message_list_key user peer = (let ids = sort [user, peer] in key_root @ ''message_list:'' @ ids ! 0 @ '':'' @ ids ! 1)"

definition group_messages_key :: "string \<Rightarrow> string" where "group_messages_key gid = key_root @ ''group_messagelist:'' @ gid"

text \<open>
  \<open>AppendJSON\<close> decodes the cached list into values of any kind and encodes them again: objects with their keys sorted and the last of equal
  keys kept, strings quoted afresh, and numbers through a float. What becomes of the text of a number is given.
\<close>

definition sort_fields :: "(string \<times> json) list \<Rightarrow> (string \<times> json) list" where
  "sort_fields ms = map (\<lambda>k. (quote_body k, the (map_of (rev ms) k))) (sorted_unique (map fst ms))"

fun any_json :: "(string \<Rightarrow> string option) \<Rightarrow> json \<Rightarrow> json option"
and any_elems :: "(string \<Rightarrow> string option) \<Rightarrow> json list \<Rightarrow> json list option"
and any_members :: "(string \<Rightarrow> string option) \<Rightarrow> (string \<times> json) list \<Rightarrow> (string \<times> json) list option" where
  "any_json F JNull = Some JNull"
| "any_json F (JBool b) = Some (JBool b)"
| "any_json F (JNum n) = map_option JNum (F n)"
| "any_json F (JStr b) = Some (json_string (unquote b))"
| "any_json F (JArr vs) = map_option JArr (any_elems F vs)"
| "any_json F (JObj ms) = map_option (\<lambda>ms. JObj (sort_fields ms)) (any_members F ms)"
| "any_elems F [] = Some []"
| "any_elems F (v # vs) = (case any_json F v of None \<Rightarrow> None | Some w \<Rightarrow> map_option ((#) w) (any_elems F vs))"
| "any_members F [] = Some []"
| "any_members F ((k, v) # ms) = (case any_json F v of None \<Rightarrow> None | Some w \<Rightarrow> map_option ((#) (unquote k, w)) (any_members F ms))"

definition unmarshal_any :: "(string \<Rightarrow> string option) \<Rightarrow> string \<Rightarrow> json list option" where
  "unmarshal_any F raw =
     (case json_text raw of
        Some JNull \<Rightarrow> Some []
      | Some (JArr vs) \<Rightarrow> any_elems F vs
      | _ \<Rightarrow> None)"

definition append_json ::
  "cache_env \<Rightarrow> (string \<Rightarrow> string option) \<Rightarrow> nat \<Rightarrow> string \<Rightarrow> json option \<Rightarrow> cache \<Rightarrow> cache_error option \<times> cache" where
  "append_json env F n k item c =
     (case cache_get_json env n (unmarshal_any F) k c of
        (Inl e, c') \<Rightarrow> (if e = CaNil \<or> e = CaUnavailable then None else Some e, c')
      | (Inr items, c') \<Rightarrow> cache_set_json env (Suc n) k (map_option (\<lambda>v. json_print (JArr (items @ [v]))) item) c')"

section \<open>Messages\<close>

record chat_row =
  cm_id :: int
  cm_uuid :: string
  cm_session :: string
  cm_type :: int
  cm_content :: string
  cm_origin :: int
  cm_send :: string
  cm_receive :: string
  cm_created :: gotime

record message_reply =
  mr_uuid :: string
  mr_session :: string
  mr_type :: int
  mr_content :: string
  mr_origin :: int
  mr_send :: string
  mr_receive :: string
  mr_created :: gotime

definition message_reply_of :: "chat_row \<Rightarrow> message_reply" where
  "message_reply_of m =
     \<lparr>mr_uuid = cm_uuid m, mr_session = cm_session m, mr_type = cm_type m, mr_content = cm_content m, mr_origin = cm_origin m,
      mr_send = cm_send m, mr_receive = cm_receive m, mr_created = cm_created m\<rparr>"

text \<open>A time that has no text makes the whole value fail.\<close>

definition reply_json :: "message_reply \<Rightarrow> json option" where
  "reply_json r = map_option (\<lambda>t. JObj
     [(''uuid'', json_string (mr_uuid r)), (''session_id'', json_string (mr_session r)), (''type'', JNum (format_int (mr_type r))),
      (''content'', json_string (mr_content r)), (''origin'', JNum (format_int (mr_origin r))), (''send_id'', json_string (mr_send r)),
      (''receive_id'', json_string (mr_receive r)), (''created_at'', JStr t)]) (format_gotime (mr_created r))"

fun replies_json :: "message_reply list \<Rightarrow> json list option" where
  "replies_json [] = Some []"
| "replies_json (r # rs) = (case reply_json r of None \<Rightarrow> None | Some v \<Rightarrow> map_option ((#) v) (replies_json rs))"

definition reply_fields :: "(string \<times> (json \<Rightarrow> message_reply \<Rightarrow> message_reply option)) list" where
  "reply_fields =
     [(''uuid'', \<lambda>j v. map_option (\<lambda>s. v\<lparr>mr_uuid := s\<rparr>) (decode_string j (mr_uuid v))),
      (''session_id'', \<lambda>j v. map_option (\<lambda>s. v\<lparr>mr_session := s\<rparr>) (decode_string j (mr_session v))),
      (''type'', \<lambda>j v. map_option (\<lambda>n. v\<lparr>mr_type := n\<rparr>) (decode_int8 j (mr_type v))),
      (''content'', \<lambda>j v. map_option (\<lambda>s. v\<lparr>mr_content := s\<rparr>) (decode_string j (mr_content v))),
      (''origin'', \<lambda>j v. map_option (\<lambda>n. v\<lparr>mr_origin := n\<rparr>) (decode_int8 j (mr_origin v))),
      (''send_id'', \<lambda>j v. map_option (\<lambda>s. v\<lparr>mr_send := s\<rparr>) (decode_string j (mr_send v))),
      (''receive_id'', \<lambda>j v. map_option (\<lambda>s. v\<lparr>mr_receive := s\<rparr>) (decode_string j (mr_receive v))),
      (''created_at'', \<lambda>j v. map_option (\<lambda>t. v\<lparr>mr_created := t\<rparr>) (decode_time j (mr_created v)))]"

definition zero_reply :: message_reply where
  "zero_reply = \<lparr>mr_uuid = [], mr_session = [], mr_type = 0, mr_content = [], mr_origin = 0, mr_send = [], mr_receive = [], mr_created = GoTime zero_ns 0\<rparr>"

definition decode_reply :: "json \<Rightarrow> message_reply \<Rightarrow> message_reply option" where
  "decode_reply j v = (case j of JNull \<Rightarrow> Some v | JObj ms \<Rightarrow> decode_known reply_fields ms v | _ \<Rightarrow> None)"

datatype message_error = MeUserPair | MeContent | MeSession | MeUser | MeNotMember | MeGroup group_error

datatype message_stmt = MsFirst | MsCreate | MsFind

text \<open>
  What one call meets, with the time as the column keeps it, and the state: the tables and the cache of the services, the table of messages
  and its next identifier.
\<close>

record message_env =
  me_fault :: "message_stmt \<Rightarrow> bool"
  me_uuid :: string
  me_now :: gotime
  me_stored :: gotime
  me_gap :: nat
  me_float :: "string \<Rightarrow> string option"
  me_cache :: cache_env
  me_group :: group_env
  me_again :: group_env

record chat_store =
  ch_rest :: rest
  ch_messages :: "chat_row list"
  ch_next :: int

definition store_cache :: "(cache \<Rightarrow> 'a \<times> cache) \<Rightarrow> chat_store \<Rightarrow> chat_store" where
  "store_cache f st = st\<lparr>ch_rest := (ch_rest st)\<lparr>re_cache := snd (f (re_cache (ch_rest st)))\<rparr>\<rparr>"

definition insert_message :: "dbms \<Rightarrow> message_env \<Rightarrow> chat_row \<Rightarrow> chat_store \<Rightarrow> (message_error + chat_row) \<times> chat_store" where
  "insert_message D env m st =
     (if me_fault env MsCreate \<or> (\<exists>x \<in> set (ch_messages st). db_same D (cm_uuid x) (cm_uuid m)) then (Inl (MeGroup GeDatabase), st)
      else
        let m = m\<lparr>cm_id := ch_next st + int (me_gap env)\<rparr> in
        (Inr m, st\<lparr>ch_messages := ch_messages st @ [m\<lparr>cm_created := me_stored env\<rparr>], ch_next := cm_id m + 1\<rparr>))"

text \<open>The row of a new message; its identifier is the database's.\<close>

definition chat_message :: "message_env \<Rightarrow> string \<Rightarrow> string \<Rightarrow> int \<Rightarrow> string \<Rightarrow> string \<Rightarrow> chat_row" where
  "chat_message env sid content origin sender receiver =
     \<lparr>cm_id = 0, cm_uuid = CHR ''M'' # me_uuid env, cm_session = sid, cm_type = 0, cm_content = content, cm_origin = origin,
      cm_send = sender, cm_receive = receiver, cm_created = me_now env\<rparr>"

definition pair_row :: "dbms \<Rightarrow> string \<Rightarrow> string \<Rightarrow> string \<Rightarrow> string \<Rightarrow> bool" where
  "pair_row D a b s r = (db_same D s a \<and> db_same D r b \<or> db_same D s b \<and> db_same D r a)"

definition send_direct ::
  "dbms \<Rightarrow> message_env \<Rightarrow> string \<Rightarrow> string \<Rightarrow> string \<Rightarrow> int \<Rightarrow> chat_store \<Rightarrow> (message_error + message_reply) \<times> chat_store" where
  "send_direct D env sender receiver content origin st =
     (if sender = [] \<or> receiver = [] \<or> sender = receiver then (Inl MeUserPair, st)
      else if content = [] then (Inl MeContent, st)
      else if me_fault env MsFirst then (Inl (MeGroup GeDatabase), st)
      else case List.find (\<lambda>s. pair_row D sender receiver (se_send s) (se_receive s)) (db_sessions (re_db (ch_rest st))) of
        None \<Rightarrow> (Inl MeSession, st)
      | Some s \<Rightarrow>
        (case insert_message D env (chat_message env (se_uuid s) content origin sender receiver) st of
           (Inl e, st') \<Rightarrow> (Inl e, st')
         | (Inr m, st') \<Rightarrow>
           let r = message_reply_of m;
               st1 = store_cache (append_json (me_cache env) (me_float env) 0 (message_list_key sender receiver) (reply_json r)) st';
               st2 = store_cache (cache_delete (me_cache env) 2 [session_list_key sender, session_list_key receiver]) st1
           in (Inr r, st2)))"

section \<open>Lists\<close>

text \<open>The rows of a query in the order of their creation; the table is in the order of its identifiers.\<close>

definition oldest_first :: "chat_row list \<Rightarrow> chat_row list" where
  "oldest_first ms = sort_key (\<lambda>m. t_ns (cm_created m)) ms"

text \<open>\<open>GetMessageList\<close>; a list with a time that has no text is answered but not cached.\<close>

definition cached_list ::
  "cache_env \<Rightarrow> string \<Rightarrow> (chat_store \<Rightarrow> message_error + message_reply list) \<Rightarrow> chat_store \<Rightarrow> (message_error + message_reply list option) \<times> chat_store" where
  "cached_list env k load st =
     (case cache_get_json env 0 (unmarshal_list decode_reply zero_reply) k (re_cache (ch_rest st)) of
        (Inr x, c) \<Rightarrow> (Inr x, st\<lparr>ch_rest := (ch_rest st)\<lparr>re_cache := c\<rparr>\<rparr>)
      | (Inl _, c) \<Rightarrow>
        let st' = st\<lparr>ch_rest := (ch_rest st)\<lparr>re_cache := c\<rparr>\<rparr> in
        (case load st' of
           Inl e \<Rightarrow> (Inl e, st')
         | Inr rs \<Rightarrow>
           (Inr (Some rs), store_cache (cache_set_json env 1 k (map_option (\<lambda>vs. json_print (JArr vs)) (replies_json rs))) st')))"

definition message_list ::
  "dbms \<Rightarrow> message_env \<Rightarrow> string \<Rightarrow> string \<Rightarrow> chat_store \<Rightarrow> (message_error + message_reply list option) \<times> chat_store" where
  "message_list D env a b st =
     (if a = [] \<or> b = [] \<or> a = b then (Inl MeUser, st)
      else cached_list (me_cache env) (message_list_key a b)
        (\<lambda>st. if me_fault env MsFind then Inl (MeGroup GeDatabase)
              else Inr (map message_reply_of (oldest_first (filter (\<lambda>m. pair_row D a b (cm_send m) (cm_receive m)) (ch_messages st))))) st)"

text \<open>The group and its members, from the cache or the tables.\<close>

definition chat_group :: "dbms \<Rightarrow> group_env \<Rightarrow> string \<Rightarrow> chat_store \<Rightarrow> (group_error + group_view) \<times> chat_store" where
  "chat_group D env gid st = (case get_group D env gid (ch_rest st) of (x, r) \<Rightarrow> (x, st\<lparr>ch_rest := r\<rparr>))"

text \<open>\<open>SendGroupMessage\<close>.\<close>

definition send_group ::
  "dbms \<Rightarrow> message_env \<Rightarrow> string \<Rightarrow> string \<Rightarrow> string \<Rightarrow> chat_store \<Rightarrow> (message_error + message_reply) \<times> chat_store" where
  "send_group D env sender gid content st =
     (if sender = [] \<or> gid = [] then (Inl (MeGroup GeInvalidGroup), st)
      else if content = [] then (Inl MeContent, st)
      else case chat_group D (me_group env) gid st of
        (Inl e, st1) \<Rightarrow> (Inl (MeGroup e), st1)
      | (Inr g, st1) \<Rightarrow>
        if \<not> contains_id (gv_members g) sender then (Inl MeNotMember, st1)
        else
          (case insert_message D env (chat_message env gid content 0 sender gid) st1 of
             (Inl e, st2) \<Rightarrow> (Inl e, st2)
           | (Inr m, st2) \<Rightarrow>
             let r = message_reply_of m in
             (Inr r, store_cache (append_json (me_cache env) (me_float env) 0 (group_messages_key gid) (reply_json r)) st2)))"

text \<open>\<open>GetGroupMessageList\<close>.\<close>

definition group_list ::
  "dbms \<Rightarrow> message_env \<Rightarrow> string \<Rightarrow> string \<Rightarrow> chat_store \<Rightarrow> (message_error + message_reply list option) \<times> chat_store" where
  "group_list D env user gid st =
     (case chat_group D (me_group env) gid st of
        (Inl e, st1) \<Rightarrow> (Inl (MeGroup e), st1)
      | (Inr g, st1) \<Rightarrow>
        if \<not> contains_id (gv_members g) user then (Inl MeNotMember, st1)
        else cached_list (me_cache env) (group_messages_key gid)
          (\<lambda>st. if gid = [] then Inl (MeGroup GeInvalidGroup)
                else if me_fault env MsFind then Inl (MeGroup GeDatabase)
                else Inr (map message_reply_of (oldest_first (filter (\<lambda>m. db_same D (cm_receive m) gid) (ch_messages st))))) st1)"

end
