(* ===== verification/ChatHub.thy ===== *)
theory ChatHub
  imports ChatMessages Fencing SocketHandler
begin

text \<open>
  The connection table of the single-process server (internal/service/chatservice): the loop of \<open>Server.Start\<close> and the goroutines around it as
  events, the readers and writers of a client, and the handling of a message.
\<close>

section \<open>State\<close>

text \<open>
  A client is an address in the heap. \<open>ks_closing\<close> holds the closes that were started as goroutines, \<open>ks_waiting\<close> the clients whose close has
  come to \<open>unregisterClient\<close>, and \<open>ks_leaving\<close> and \<open>ks_routes\<close> are the channels.
\<close>

record chat_client =
  kc_user :: string
  kc_size :: nat
  kc_socket :: bool
  kc_queue :: "legacy_message list"
  kc_started :: bool
  kc_closed :: bool

record chat_server =
  ks_heap :: "chat_client list"
  ks_clients :: "string \<rightharpoonup> nat"
  ks_online :: int
  ks_size :: nat
  ks_routes :: "(string list \<times> legacy_message) list"
  ks_leaving :: "nat list"
  ks_closing :: "nat list"
  ks_waiting :: "nat list"
  ks_done :: bool
  ks_stopped :: bool

definition default_queue :: nat where "default_queue = 256"

definition new_chat_server :: "int \<Rightarrow> chat_server" where
  "new_chat_server n =
     \<lparr>ks_heap = [], ks_clients = Map.empty, ks_online = 0, ks_size = (if n \<le> 0 then default_queue else nat n), ks_routes = [],
      ks_leaving = [], ks_closing = [], ks_waiting = [], ks_done = False, ks_stopped = False\<rparr>"

definition new_chat_client :: "string \<Rightarrow> bool \<Rightarrow> int \<Rightarrow> chat_client" where
  "new_chat_client user socket n =
     \<lparr>kc_user = user, kc_size = (if n \<le> 0 then default_queue else nat n), kc_socket = socket, kc_queue = [], kc_started = False, kc_closed = False\<rparr>"

definition upd_client :: "nat \<Rightarrow> (chat_client \<Rightarrow> chat_client) \<Rightarrow> chat_server \<Rightarrow> chat_server" where
  "upd_client a f s = s\<lparr>ks_heap := (ks_heap s)[a := f (ks_heap s ! a)]\<rparr>"

section \<open>Clients\<close>

text \<open>\<open>Close\<close>, once: the client is marked and waits to be unregistered. The send succeeds when the channel has room, or gives up when the server is done.\<close>

definition close_client :: "nat \<Rightarrow> chat_server \<Rightarrow> chat_server" where
  "close_client a s =
     (if kc_closed (ks_heap s ! a) then s
      else (upd_client a (\<lambda>c. c\<lparr>kc_closed := True\<rparr>) s)\<lparr>ks_waiting := ks_waiting s @ [a]\<rparr>)"

definition unregister_send :: "nat \<Rightarrow> bool \<Rightarrow> chat_server \<Rightarrow> chat_server" where
  "unregister_send a sent s =
     (if a \<notin> set (ks_waiting s) then s
      else if sent \<and> length (ks_leaving s) < ks_size s
      then s\<lparr>ks_waiting := remove1 a (ks_waiting s), ks_leaving := ks_leaving s @ [a]\<rparr>
      else if \<not> sent \<and> ks_done s then s\<lparr>ks_waiting := remove1 a (ks_waiting s)\<rparr>
      else s)"

section \<open>The loop\<close>

definition add_client :: "nat \<Rightarrow> chat_server \<Rightarrow> chat_server" where
  "add_client a s =
     (let u = kc_user (ks_heap s ! a); previous = ks_clients s u in
      s\<lparr>ks_clients := (ks_clients s)(u \<mapsto> a),
        ks_online := (if previous = None then ks_online s + 1 else ks_online s),
        ks_closing := ks_closing s @ (case previous of None \<Rightarrow> [] | Some b \<Rightarrow> if b = a then [] else [b])\<rparr>)"

definition remove_client :: "nat \<Rightarrow> chat_server \<Rightarrow> chat_server" where
  "remove_client a s =
     (let u = kc_user (ks_heap s ! a) in
      if ks_clients s u = Some a then s\<lparr>ks_clients := (ks_clients s)(u := None), ks_online := ks_online s - 1\<rparr> else s)"

text \<open>
  \<open>deliver\<close>: to a client that is open, into its queue when there is room; a full queue closes the client. The closing of a client meanwhile is
  the same as closing it before or after.
\<close>

definition chat_deliver :: "nat option \<Rightarrow> legacy_message \<Rightarrow> chat_server \<Rightarrow> bool \<times> chat_server" where
  "chat_deliver target m s =
     (case target of
        None \<Rightarrow> (False, s)
      | Some a \<Rightarrow>
        let c = ks_heap s ! a in
        if kc_closed c then (False, s)
        else if length (kc_queue c) < kc_size c then (True, upd_client a (\<lambda>c. c\<lparr>kc_queue := kc_queue c @ [m]\<rparr>) s)
        else (False, s\<lparr>ks_closing := ks_closing s @ [a]\<rparr>))"

fun route_loop :: "string list \<Rightarrow> legacy_message \<Rightarrow> chat_server \<Rightarrow> chat_server" where
  "route_loop [] m s = s"
| "route_loop (u # us) m s = route_loop us m (snd (chat_deliver (ks_clients s u) m s))"

text \<open>\<open>closeClients\<close>, in the order of the map's iteration, with the outcome of each send.\<close>

definition close_clients :: "(nat \<times> bool) list \<Rightarrow> chat_server \<Rightarrow> chat_server" where
  "close_clients order s =
     fold (\<lambda>(a, sent) s. unregister_send a sent (close_client a s)) order (s\<lparr>ks_clients := Map.empty, ks_online := 0\<rparr>)"

section \<open>Events\<close>

datatype server_event =
    NewClient string bool int
  | JoinClient nat
  | RefuseClient nat
  | TakeLeaving
  | TakeRoute
  | SendRoute "string list" legacy_message
  | CloseStarted nat
  | CloseClient nat
  | SendLeaving nat bool
  | WriteHead nat bool
  | CloseServer
  | StopLoop "(nat \<times> bool) list"

text \<open>
  \<open>Client.Start\<close>: a client without server, socket or user is closed at once; otherwise the loop takes it, or the server is done. \<open>Start\<close> runs
  once for a client.
\<close>

definition startable :: "chat_client \<Rightarrow> bool" where
  "startable c = (kc_socket c \<and> kc_user c \<noteq> [])"

definition join_client :: "nat \<Rightarrow> chat_server \<Rightarrow> chat_server" where
  "join_client a s =
     (if length (ks_heap s) \<le> a \<or> kc_started (ks_heap s ! a) \<or> kc_closed (ks_heap s ! a) \<or> \<not> startable (ks_heap s ! a) \<or> ks_stopped s then s
      else add_client a (upd_client a (\<lambda>c. c\<lparr>kc_started := True\<rparr>) s))"

definition refuse_client :: "nat \<Rightarrow> chat_server \<Rightarrow> chat_server" where
  "refuse_client a s =
     (if length (ks_heap s) \<le> a \<or> kc_started (ks_heap s ! a) \<or> kc_closed (ks_heap s ! a) then s
      else if startable (ks_heap s ! a) \<and> \<not> ks_done s then s
      else close_client a (upd_client a (\<lambda>c. c\<lparr>kc_started := True\<rparr>) s))"

text \<open>\<open>RouteTo\<close> and \<open>RouteToUsers\<close>: the request is sent when there is room, or given up when the server is done.\<close>

fun distinct_users :: "string list \<Rightarrow> string list \<Rightarrow> string list" where
  "distinct_users seen [] = []"
| "distinct_users seen (u # us) = (if u \<noteq> [] \<and> u \<notin> set seen then u # distinct_users (u # seen) us else distinct_users seen us)"

definition send_route :: "string list \<Rightarrow> legacy_message \<Rightarrow> chat_server \<Rightarrow> chat_server" where
  "send_route users m s =
     (let us = distinct_users [] users in
      if us = [] \<or> ks_size s \<le> length (ks_routes s) then s else s\<lparr>ks_routes := ks_routes s @ [(us, m)]\<rparr>)"

text \<open>The writer takes the head of the queue; when the write fails it closes the client.\<close>

definition write_head :: "nat \<Rightarrow> bool \<Rightarrow> chat_server \<Rightarrow> chat_server" where
  "write_head a ok s =
     (if length (ks_heap s) \<le> a \<or> \<not> kc_started (ks_heap s ! a) \<or> kc_queue (ks_heap s ! a) = [] then s
      else
        let s = upd_client a (\<lambda>c. c\<lparr>kc_queue := tl (kc_queue c)\<rparr>) s in
        if ok then s else close_client a s)"

fun chat_exec :: "server_event \<Rightarrow> chat_server \<Rightarrow> chat_server" where
  "chat_exec (NewClient u socket n) s = s\<lparr>ks_heap := ks_heap s @ [new_chat_client u socket n]\<rparr>"
| "chat_exec (JoinClient a) s = join_client a s"
| "chat_exec (RefuseClient a) s = refuse_client a s"
| "chat_exec TakeLeaving s =
     (if ks_stopped s then s else case ks_leaving s of [] \<Rightarrow> s | a # r \<Rightarrow> remove_client a (s\<lparr>ks_leaving := r\<rparr>))"
| "chat_exec TakeRoute s =
     (if ks_stopped s then s else case ks_routes s of [] \<Rightarrow> s | (us, m) # r \<Rightarrow> route_loop us m (s\<lparr>ks_routes := r\<rparr>))"
| "chat_exec (SendRoute us m) s = send_route us m s"
| "chat_exec (CloseStarted a) s = (if a \<in> set (ks_closing s) then close_client a (s\<lparr>ks_closing := remove1 a (ks_closing s)\<rparr>) else s)"
| "chat_exec (CloseClient a) s = (if a < length (ks_heap s) \<and> kc_started (ks_heap s ! a) then close_client a s else s)"
| "chat_exec (SendLeaving a sent) s = unregister_send a sent s"
| "chat_exec (WriteHead a ok) s = write_head a ok s"
| "chat_exec CloseServer s = s\<lparr>ks_done := True\<rparr>"
| "chat_exec (StopLoop order) s =
     (if ks_stopped s \<or> \<not> ks_done s \<or> \<not> distinct (map fst order) \<or> set (map fst order) \<noteq> ran (ks_clients s) then s
      else (close_clients order s)\<lparr>ks_stopped := True\<rparr>)"

definition chat_run :: "server_event list \<Rightarrow> chat_server \<Rightarrow> chat_server" where
  "chat_run es s = fold chat_exec es s"

section \<open>Messages\<close>

definition valid_destination :: "string \<Rightarrow> int \<Rightarrow> bool" where
  "valid_destination i kind =
     (i \<noteq> [] \<and> (if kind = 0 then has_prefix i ''U'' else if kind = 1 then has_prefix i ''G'' else False))"

text \<open>What the reader of a client does with what it reads: the event it publishes when there is a publisher, or the message it handles.\<close>

record chat_post =
  cp_event :: string
  cp_sender :: string
  cp_receive :: string
  cp_type :: int
  cp_content :: string
  cp_created :: gotime

datatype chat_read = ReadEnds | ReadSkips | ReadPublishes chat_post | ReadHandles legacy_message

definition read_message :: "string \<Rightarrow> bool \<Rightarrow> string \<Rightarrow> gotime \<Rightarrow> legacy_message option \<Rightarrow> chat_read" where
  "read_message user publishes uuid now frame =
     (case frame of
        None \<Rightarrow> ReadEnds
      | Some m \<Rightarrow>
        if lm_send m \<noteq> user then ReadEnds
        else if \<not> valid_destination (lm_receive m) (lm_type m) then ReadSkips
        else if publishes
        then ReadPublishes \<lparr>cp_event = uuid, cp_sender = user, cp_receive = lm_receive m, cp_type = lm_type m, cp_content = lm_content m, cp_created = now\<rparr>
        else ReadHandles m)"

text \<open>
  \<open>HandleMessage\<close>: the message is stored by the service of its kind, and its recipients are routed to; \<open>sent\<close> says whether the request is
  taken or the server is done. The result has the request that was sent.
\<close>

definition handle_message ::
  "dbms \<Rightarrow> message_env \<Rightarrow> bool \<Rightarrow> string \<Rightarrow> legacy_message \<Rightarrow> chat_store \<Rightarrow>
   message_error option \<times> (string list \<times> legacy_message) option \<times> chat_store" where
  "handle_message D env sent sender m st =
     (if sender = [] \<or> lm_send m \<noteq> sender \<or> \<not> valid_destination (lm_receive m) (lm_type m) then (Some (MeGroup GeInvalidGroup), None, st)
      else
        case (if lm_type m = 1 \<or> has_prefix (lm_receive m) ''G'' then send_group D env sender (lm_receive m) (lm_content m) st
              else send_direct D env sender (lm_receive m) (lm_content m) 0 st) of
          (Inl e, st1) \<Rightarrow> (Some e, None, st1)
        | (Inr r, st1) \<Rightarrow>
          let out = \<lparr>lm_send = mr_send r, lm_receive = mr_receive r, lm_content = mr_content r, lm_origin = mr_origin r, lm_type = lm_type m\<rparr>;
              route = (\<lambda>us. if us = [] \<or> \<not> sent then (Some (MeGroup GeDatabase), None) else (None, Some (us, out)))
          in
          if lm_type m = 1 then
            (case chat_group D (me_again env) (lm_receive m) st1 of
               (Inl e, st2) \<Rightarrow> (Some (MeGroup e), None, st2)
             | (Inr g, st2) \<Rightarrow> case route (distinct_users [] (nil_list (gv_members g))) of (e, q) \<Rightarrow> (e, q, st2))
          else (case route (distinct_users [] [mr_receive r]) of (e, q) \<Rightarrow> (e, q, st1)))"

section \<open>Invariant\<close>

lemma upd_client_simps [simp]:
  "length (ks_heap (upd_client a f s)) = length (ks_heap s)" "ks_clients (upd_client a f s) = ks_clients s"
  "ks_online (upd_client a f s) = ks_online s" "ks_size (upd_client a f s) = ks_size s" "ks_routes (upd_client a f s) = ks_routes s"
  "ks_leaving (upd_client a f s) = ks_leaving s" "ks_closing (upd_client a f s) = ks_closing s" "ks_waiting (upd_client a f s) = ks_waiting s"
  "ks_done (upd_client a f s) = ks_done s" "ks_stopped (upd_client a f s) = ks_stopped s"
  by (simp_all add: upd_client_def)

lemma upd_client_nth: "b < length (ks_heap s) \<Longrightarrow> ks_heap (upd_client a f s) ! b = (if a = b then f (ks_heap s ! a) else ks_heap s ! b)"
  by (auto simp: upd_client_def nth_list_update)

definition clients_ok :: "chat_server \<Rightarrow> bool" where
  "clients_ok s =
     (finite (dom (ks_clients s)) \<and> ks_online s = int (card (dom (ks_clients s))) \<and>
      (\<forall>u a. ks_clients s u = Some a \<longrightarrow> a < length (ks_heap s) \<and> kc_user (ks_heap s ! a) = u \<and> u \<noteq> [] \<and> kc_started (ks_heap s ! a)) \<and>
      (ks_stopped s \<longrightarrow> ks_done s \<and> ks_clients s = Map.empty))"

definition queues_ok :: "chat_server \<Rightarrow> bool" where
  "queues_ok s =
     (length (ks_leaving s) \<le> ks_size s \<and> length (ks_routes s) \<le> ks_size s \<and> list_all (\<lambda>(us, m). us \<noteq> [] \<and> distinct us \<and> [] \<notin> set us) (ks_routes s) \<and>
      (\<forall>a < length (ks_heap s). length (kc_queue (ks_heap s ! a)) \<le> kc_size (ks_heap s ! a)))"

text \<open>
  What becomes of clients, up to the clients in \<open>X\<close>: whoever waits to be unregistered is closed; a closed client in the table is on its way out,
  and a started client that is open is in the table or about to be closed.
\<close>

definition fates_ok :: "nat set \<Rightarrow> chat_server \<Rightarrow> bool" where
  "fates_ok X s =
     ((\<forall>a \<in> set (ks_leaving s) \<union> set (ks_waiting s). a < length (ks_heap s) \<and> kc_closed (ks_heap s ! a)) \<and>
      (\<forall>a \<in> set (ks_closing s). a < length (ks_heap s) \<and> kc_started (ks_heap s ! a)) \<and>
      (\<forall>u a. ks_clients s u = Some a \<and> kc_closed (ks_heap s ! a) \<longrightarrow> a \<in> set (ks_leaving s) \<union> set (ks_waiting s) \<or> ks_done s) \<and>
      (\<forall>a < length (ks_heap s). kc_started (ks_heap s ! a) \<and> \<not> kc_closed (ks_heap s ! a) \<longrightarrow>
         ks_clients s (kc_user (ks_heap s ! a)) = Some a \<or> a \<in> set (ks_closing s) \<or> a \<in> X))"

definition chat_ok :: "chat_server \<Rightarrow> bool" where
  "chat_ok s = (clients_ok s \<and> queues_ok s \<and> fates_ok {} s)"

lemmas chat_ok_defs = chat_ok_def clients_ok_def queues_ok_def fates_ok_def

lemma fates_okI:
  assumes "\<And>b. b \<in> set (ks_leaving s) \<or> b \<in> set (ks_waiting s) \<Longrightarrow> b < length (ks_heap s) \<and> kc_closed (ks_heap s ! b)"
    and "\<And>b. b \<in> set (ks_closing s) \<Longrightarrow> b < length (ks_heap s) \<and> kc_started (ks_heap s ! b)"
    and "\<And>u b. ks_clients s u = Some b \<Longrightarrow> kc_closed (ks_heap s ! b) \<Longrightarrow> \<not> ks_done s \<Longrightarrow> b \<in> set (ks_leaving s) \<or> b \<in> set (ks_waiting s)"
    and "\<And>b. b < length (ks_heap s) \<Longrightarrow> kc_started (ks_heap s ! b) \<Longrightarrow> \<not> kc_closed (ks_heap s ! b) \<Longrightarrow>
      ks_clients s (kc_user (ks_heap s ! b)) \<noteq> Some b \<Longrightarrow> b \<notin> set (ks_closing s) \<Longrightarrow> b \<in> X"
  shows "fates_ok X s"
  using assms unfolding fates_ok_def by blast

lemma fates_okD:
  assumes "fates_ok X s"
  shows "b \<in> set (ks_leaving s) \<or> b \<in> set (ks_waiting s) \<Longrightarrow> b < length (ks_heap s) \<and> kc_closed (ks_heap s ! b)"
    and "b \<in> set (ks_closing s) \<Longrightarrow> b < length (ks_heap s) \<and> kc_started (ks_heap s ! b)"
    and "ks_clients s u = Some b \<Longrightarrow> kc_closed (ks_heap s ! b) \<Longrightarrow> \<not> ks_done s \<Longrightarrow> b \<in> set (ks_leaving s) \<or> b \<in> set (ks_waiting s)"
    and "b < length (ks_heap s) \<Longrightarrow> kc_started (ks_heap s ! b) \<Longrightarrow> \<not> kc_closed (ks_heap s ! b) \<Longrightarrow>
      ks_clients s (kc_user (ks_heap s ! b)) \<noteq> Some b \<Longrightarrow> b \<notin> set (ks_closing s) \<Longrightarrow> b \<in> X"
  using assms unfolding fates_ok_def by blast+

lemma clients_okD:
  assumes "clients_ok s" "ks_clients s u = Some b"
  shows "b < length (ks_heap s) \<and> kc_user (ks_heap s ! b) = u \<and> u \<noteq> [] \<and> kc_started (ks_heap s ! b)"
  using assms by (auto simp: clients_ok_def)

text \<open>A change of one client that leaves the channels, the table and the server alone.\<close>

lemma upd_client_fates:
  assumes "fates_ok X s" "clients_ok s" "a < length (ks_heap s)"
    and "kc_user (f (ks_heap s ! a)) = kc_user (ks_heap s ! a)" "kc_closed (f (ks_heap s ! a)) = kc_closed (ks_heap s ! a)"
    and "kc_started (ks_heap s ! a) \<Longrightarrow> kc_started (f (ks_heap s ! a))" "\<not> kc_started (ks_heap s ! a) \<Longrightarrow> kc_started (f (ks_heap s ! a)) \<Longrightarrow> a \<in> Y"
  shows "fates_ok (X \<union> Y) (upd_client a f s)"
proof (rule fates_okI)
  fix u b assume b: "ks_clients (upd_client a f s) u = Some b" "kc_closed (ks_heap (upd_client a f s) ! b)" "\<not> ks_done (upd_client a f s)"
  then have "b < length (ks_heap s)" using clients_okD [OF assms(2)] by simp
  then show "b \<in> set (ks_leaving (upd_client a f s)) \<or> b \<in> set (ks_waiting (upd_client a f s))"
    using fates_okD(3) [OF assms(1), of u b] b assms(5) by (auto simp: upd_client_nth split: if_splits)
next
  fix b assume b: "b < length (ks_heap (upd_client a f s))" "kc_started (ks_heap (upd_client a f s) ! b)" "\<not> kc_closed (ks_heap (upd_client a f s) ! b)"
    "ks_clients (upd_client a f s) (kc_user (ks_heap (upd_client a f s) ! b)) \<noteq> Some b" "b \<notin> set (ks_closing (upd_client a f s))"
  then show "b \<in> X \<union> Y"
    using fates_okD(4) [OF assms(1), of b] assms(3-7) by (cases "kc_started (ks_heap s ! b)") (auto simp: upd_client_nth split: if_splits)
qed (use fates_okD(1,2) [OF assms(1)] assms(3-6) in \<open>auto simp: upd_client_nth\<close>)

lemma close_client_simps [simp]:
  "length (ks_heap (close_client a s)) = length (ks_heap s)" "ks_clients (close_client a s) = ks_clients s"
  "ks_online (close_client a s) = ks_online s" "ks_size (close_client a s) = ks_size s" "ks_routes (close_client a s) = ks_routes s"
  "ks_leaving (close_client a s) = ks_leaving s" "ks_closing (close_client a s) = ks_closing s"
  "ks_done (close_client a s) = ks_done s" "ks_stopped (close_client a s) = ks_stopped s"
  "set (ks_waiting (close_client a s)) = set (ks_waiting s) \<union> (if kc_closed (ks_heap s ! a) then {} else {a})"
  by (simp_all add: close_client_def)

lemma close_client_nth:
  assumes "b < length (ks_heap s)"
  shows "ks_heap (close_client a s) ! b = (if a = b then (ks_heap s ! b)\<lparr>kc_closed := True\<rparr> else ks_heap s ! b)"
  using assms by (cases "ks_heap s ! b") (simp add: close_client_def upd_client_nth)

lemma close_client_table: "clients_ok s \<Longrightarrow> a < length (ks_heap s) \<Longrightarrow> clients_ok (close_client a s)"
  by (simp add: clients_ok_def close_client_nth)

lemma close_client_queues: "queues_ok s \<Longrightarrow> a < length (ks_heap s) \<Longrightarrow> queues_ok (close_client a s)"
  by (simp add: queues_ok_def close_client_nth)

lemma close_client_fates:
  assumes "fates_ok X s" "clients_ok s" "a < length (ks_heap s)" shows "fates_ok (X - {a}) (close_client a s)"
proof (rule fates_okI)
  fix u b assume b: "ks_clients (close_client a s) u = Some b" "kc_closed (ks_heap (close_client a s) ! b)" "\<not> ks_done (close_client a s)"
  then have "b < length (ks_heap s)" using clients_okD [OF assms(2)] by simp
  then show "b \<in> set (ks_leaving (close_client a s)) \<or> b \<in> set (ks_waiting (close_client a s))"
    using fates_okD(3) [OF assms(1), of u b] b by (auto simp: close_client_nth split: if_splits)
next
  fix b assume "b < length (ks_heap (close_client a s))" "kc_started (ks_heap (close_client a s) ! b)" "\<not> kc_closed (ks_heap (close_client a s) ! b)"
    "ks_clients (close_client a s) (kc_user (ks_heap (close_client a s) ! b)) \<noteq> Some b" "b \<notin> set (ks_closing (close_client a s))"
  then show "b \<in> X - {a}" using fates_okD(4) [OF assms(1), of b] by (auto simp: close_client_nth split: if_splits)
qed (use fates_okD(1,2) [OF assms(1)] assms(3) in \<open>auto simp: close_client_nth split: if_splits\<close>)

lemma unregister_send_heap [simp]:
  "ks_heap (unregister_send a b s) = ks_heap s" "ks_clients (unregister_send a b s) = ks_clients s" "ks_online (unregister_send a b s) = ks_online s"
  "ks_size (unregister_send a b s) = ks_size s" "ks_routes (unregister_send a b s) = ks_routes s" "ks_closing (unregister_send a b s) = ks_closing s"
  "ks_done (unregister_send a b s) = ks_done s" "ks_stopped (unregister_send a b s) = ks_stopped s"
  by (simp_all add: unregister_send_def)

lemma unregister_send_queues: "queues_ok s \<Longrightarrow> queues_ok (unregister_send a b s)"
  by (simp add: queues_ok_def unregister_send_def)

lemma unregister_send_table: "clients_ok s \<Longrightarrow> clients_ok (unregister_send a b s)"
  by (simp add: clients_ok_def)

lemma set_remove1_other: "x \<noteq> a \<Longrightarrow> x \<in> set (remove1 a xs) \<longleftrightarrow> x \<in> set xs"
  by (rule in_set_remove1)

lemma unregister_send_sets:
  "set (ks_leaving (unregister_send a b s)) \<union> set (ks_waiting (unregister_send a b s)) \<subseteq> set (ks_leaving s) \<union> set (ks_waiting s)"
  "x \<in> set (ks_leaving s) \<union> set (ks_waiting s) \<Longrightarrow>
     x \<in> set (ks_leaving (unregister_send a b s)) \<union> set (ks_waiting (unregister_send a b s)) \<or> ks_done s"
  by (cases "x = a"; auto simp: unregister_send_def dest: in_set_remove1 [THEN iffD1] set_remove1_subset [THEN subsetD])+

lemma unregister_send_fates: "fates_ok X s \<Longrightarrow> fates_ok X (unregister_send a b s)"
  using unregister_send_sets [where a = a and b = b and s = s] unfolding fates_ok_def by (simp only: unregister_send_heap) blast

lemma close_ok:
  assumes "chat_ok s" "a < length (ks_heap s)" shows "chat_ok (close_client a s)"
  using assms close_client_fates [of "{}" s a] by (simp add: chat_ok_def close_client_table close_client_queues)

lemma unregister_ok: "chat_ok s \<Longrightarrow> chat_ok (unregister_send a b s)"
  by (simp add: chat_ok_def unregister_send_table unregister_send_queues unregister_send_fates)

lemma heap_grows: "b < length xs \<Longrightarrow> (xs @ ys) ! b = xs ! b"
  by (simp add: nth_append)

lemma new_client_ok: "chat_ok s \<Longrightarrow> chat_ok (chat_exec (NewClient u k n) s)"
proof -
  assume s: "chat_ok s"
  let ?s = "chat_exec (NewClient u k n) s"
  note f = fates_okD [of "{}" s] clients_okD [of s]
  have l: "b < length (ks_heap s)" if "ks_clients s v = Some b" for v b using s that by (auto simp: chat_ok_def clients_ok_def)
  have "clients_ok ?s" "queues_ok ?s"
    using s by (auto simp: chat_ok_def clients_ok_def queues_ok_def nth_append new_chat_client_def less_Suc_eq)
  moreover have "fates_ok {} ?s"
  proof (rule fates_okI)
    fix v b assume "ks_clients ?s v = Some b" "kc_closed (ks_heap ?s ! b)" "\<not> ks_done ?s"
    then show "b \<in> set (ks_leaving ?s) \<or> b \<in> set (ks_waiting ?s)" using f(3) [of v b] l [of v b] s by (simp add: nth_append chat_ok_def)
  next
    fix b assume "b < length (ks_heap ?s)" "kc_started (ks_heap ?s ! b)" "\<not> kc_closed (ks_heap ?s ! b)"
      "ks_clients ?s (kc_user (ks_heap ?s ! b)) \<noteq> Some b" "b \<notin> set (ks_closing ?s)"
    then show "b \<in> {}" using f(4) [of b] s by (auto simp: nth_append new_chat_client_def less_Suc_eq chat_ok_def split: if_splits)
  qed (use f(1,2) s in \<open>auto simp: chat_ok_def nth_append less_Suc_eq\<close>)
  ultimately show ?thesis by (simp add: chat_ok_def)
qed

lemma start_client_ok:
  assumes "chat_ok s" "a < length (ks_heap s)" "\<not> kc_started (ks_heap s ! a)"
  shows "clients_ok (upd_client a (\<lambda>c. c\<lparr>kc_started := True\<rparr>) s) \<and> queues_ok (upd_client a (\<lambda>c. c\<lparr>kc_started := True\<rparr>) s) \<and>
    fates_ok {a} (upd_client a (\<lambda>c. c\<lparr>kc_started := True\<rparr>) s)"
proof -
  have "clients_ok (upd_client a (\<lambda>c. c\<lparr>kc_started := True\<rparr>) s)" "queues_ok (upd_client a (\<lambda>c. c\<lparr>kc_started := True\<rparr>) s)"
    using assms by (simp_all add: chat_ok_def clients_ok_def queues_ok_def upd_client_nth)
  then show ?thesis using upd_client_fates [of "{}" s a "\<lambda>c. c\<lparr>kc_started := True\<rparr>" "{a}"] assms by (simp add: chat_ok_def)
qed

lemma add_client_ok:
  assumes "clients_ok s" "queues_ok s" "fates_ok {a} s"
    and a: "a < length (ks_heap s)" "kc_started (ks_heap s ! a)" "\<not> kc_closed (ks_heap s ! a)" "kc_user (ks_heap s ! a) \<noteq> []" "\<not> ks_stopped s"
  shows "chat_ok (add_client a s)"
proof -
  have "card (insert u (dom (ks_clients s))) = (if ks_clients s u = None then card (dom (ks_clients s)) + 1 else card (dom (ks_clients s)))" for u
    using assms(1) by (auto simp: clients_ok_def card_insert_if domIff)
  then have "clients_ok (add_client a s)" using assms(1) a by (auto simp: clients_ok_def add_client_def Let_def)
  moreover have "queues_ok (add_client a s)" using assms(2) by (simp add: queues_ok_def add_client_def Let_def)
  moreover have "fates_ok {} (add_client a s)"
  proof (rule fates_okI)
    fix u b assume "ks_clients (add_client a s) u = Some b" "kc_closed (ks_heap (add_client a s) ! b)" "\<not> ks_done (add_client a s)"
    then show "b \<in> set (ks_leaving (add_client a s)) \<or> b \<in> set (ks_waiting (add_client a s))"
      using fates_okD(3) [OF assms(3), of u b] a by (auto simp: add_client_def Let_def split: if_splits)
  next
    fix b assume b: "b \<in> set (ks_closing (add_client a s))"
    show "b < length (ks_heap (add_client a s)) \<and> kc_started (ks_heap (add_client a s) ! b)"
      using b fates_okD(2) [OF assms(3), of b] clients_okD [OF assms(1), of "kc_user (ks_heap s ! a)" b]
      by (auto simp: add_client_def Let_def split: option.splits if_splits)
  next
    fix b assume "b < length (ks_heap (add_client a s))" "kc_started (ks_heap (add_client a s) ! b)" "\<not> kc_closed (ks_heap (add_client a s) ! b)"
      "ks_clients (add_client a s) (kc_user (ks_heap (add_client a s) ! b)) \<noteq> Some b" "b \<notin> set (ks_closing (add_client a s))"
    then show "b \<in> {}" using fates_okD(4) [OF assms(3), of b]
      by (cases "ks_clients s (kc_user (ks_heap s ! a))") (auto simp: add_client_def Let_def split: if_splits)
  qed (use fates_okD(1) [OF assms(3)] in \<open>auto simp: add_client_def Let_def\<close>)
  ultimately show ?thesis by (simp add: chat_ok_def)
qed

lemma join_ok: "chat_ok s \<Longrightarrow> chat_ok (join_client a s)"
  using start_client_ok [of s a] by (auto simp: join_client_def startable_def upd_client_nth not_le intro!: add_client_ok)

lemma fates_close: "fates_ok {a} s \<Longrightarrow> clients_ok s \<Longrightarrow> a < length (ks_heap s) \<Longrightarrow> fates_ok {} (close_client a s)"
  using close_client_fates [of "{a}" s a] by simp

lemma refuse_ok: "chat_ok s \<Longrightarrow> chat_ok (refuse_client a s)"
proof (cases "length (ks_heap s) \<le> a \<or> kc_started (ks_heap s ! a) \<or> kc_closed (ks_heap s ! a) \<or> startable (ks_heap s ! a) \<and> \<not> ks_done s")
  case False
  assume "chat_ok s"
  then show ?thesis using False start_client_ok [of s a]
    by (auto simp: refuse_client_def chat_ok_def not_le intro!: fates_close close_client_table close_client_queues)
qed (auto simp: refuse_client_def)

lemma remove_ok:
  assumes "chat_ok s" "ks_leaving s = a # r" "\<not> ks_stopped s"
  shows "chat_ok (remove_client a (s\<lparr>ks_leaving := r\<rparr>))"
proof -
  let ?u = "kc_user (ks_heap s ! a)"
  have a: "a < length (ks_heap s)" "kc_closed (ks_heap s ! a)" using assms(1,2) by (auto simp: chat_ok_def fates_ok_def)
  have c: "int (card (dom (ks_clients s) - {?u})) = int (card (dom (ks_clients s))) - 1" if "ks_clients s ?u = Some a"
  proof -
    have "finite (dom (ks_clients s))" using assms(1) by (simp add: chat_ok_def clients_ok_def)
    moreover have "?u \<in> dom (ks_clients s)" using that by (rule domI)
    ultimately have "Suc (card (dom (ks_clients s) - {?u})) = card (dom (ks_clients s))" by (rule card_Suc_Diff1)
    then show ?thesis by linarith
  qed
  have "clients_ok (remove_client a (s\<lparr>ks_leaving := r\<rparr>))"
  proof (cases "ks_clients s ?u = Some a")
    case True
    then have e: "remove_client a (s\<lparr>ks_leaving := r\<rparr>) =
      s\<lparr>ks_leaving := r, ks_clients := (ks_clients s)(?u := None), ks_online := ks_online s - 1\<rparr>" by (simp add: remove_client_def)
    have "ks_online s = int (card (dom (ks_clients s)))" using assms(1) by (simp add: chat_ok_def clients_ok_def)
    then have "ks_online s - 1 = int (card (dom (ks_clients s) - {?u}))" using c [OF True] by linarith
    then show ?thesis using assms(1,3) unfolding e chat_ok_def clients_ok_def by simp
  next
    case False
    then show ?thesis using assms(1) by (simp add: remove_client_def chat_ok_def clients_ok_def)
  qed
  moreover have "queues_ok (remove_client a (s\<lparr>ks_leaving := r\<rparr>))"
    using assms(1,2) by (simp add: chat_ok_def queues_ok_def remove_client_def Let_def)
  moreover have "fates_ok {} (remove_client a (s\<lparr>ks_leaving := r\<rparr>))"
  proof -
    note f = fates_okD [of "{}" s] and t = clients_okD [of s]
    let ?s = "remove_client a (s\<lparr>ks_leaving := r\<rparr>)"
    have e: "ks_heap ?s = ks_heap s" "ks_closing ?s = ks_closing s" "ks_waiting ?s = ks_waiting s" "ks_leaving ?s = r" "ks_done ?s = ks_done s"
      "ks_clients ?s = (if ks_clients s ?u = Some a then (ks_clients s)(?u := None) else ks_clients s)"
      by (simp_all add: remove_client_def Let_def)
    have s: "fates_ok {} s" "clients_ok s" using assms(1) by (simp_all add: chat_ok_def)
    show ?thesis
    proof (rule fates_okI)
      fix v b assume b: "ks_clients ?s v = Some b" "kc_closed (ks_heap ?s ! b)" "\<not> ks_done ?s"
      then have "ks_clients s v = Some b" "b \<noteq> a" using t [OF s(2), of v b] by (auto simp: e split: if_splits)
      then show "b \<in> set (ks_leaving ?s) \<or> b \<in> set (ks_waiting ?s)" using f(3) [OF s(1), of v b] b assms(2) by (auto simp: e)
    next
      fix b assume "b < length (ks_heap ?s)" "kc_started (ks_heap ?s ! b)" "\<not> kc_closed (ks_heap ?s ! b)"
        "ks_clients ?s (kc_user (ks_heap ?s ! b)) \<noteq> Some b" "b \<notin> set (ks_closing ?s)"
      then show "b \<in> {}" using f(4) [OF s(1), of b] a by (auto simp: e split: if_splits)
    qed (use f(1,2) [OF s(1)] assms(2) in \<open>auto simp: e\<close>)
  qed
  ultimately show ?thesis by (simp add: chat_ok_def)
qed

lemma deliver_ok:
  assumes "chat_ok s" shows "chat_ok (snd (chat_deliver (ks_clients s u) m s))"
proof (cases "ks_clients s u")
  case (Some a)
  have a: "a < length (ks_heap s)" "kc_started (ks_heap s ! a)" using assms Some by (auto simp: chat_ok_def clients_ok_def)
  have s: "fates_ok {} s" "clients_ok s" "queues_ok s" using assms by (simp_all add: chat_ok_def)
  have "chat_ok (upd_client a (\<lambda>c. c\<lparr>kc_queue := kc_queue c @ [m]\<rparr>) s)" if "length (kc_queue (ks_heap s ! a)) < kc_size (ks_heap s ! a)"
    using upd_client_fates [OF s(1,2) a(1), of "\<lambda>c. c\<lparr>kc_queue := kc_queue c @ [m]\<rparr>" "{}"] s a that
    by (simp add: chat_ok_def clients_ok_def queues_ok_def upd_client_nth)
  moreover have "fates_ok {} (s\<lparr>ks_closing := ks_closing s @ [a]\<rparr>)"
    by (rule fates_okI) (use fates_okD [OF s(1)] a in auto)
  ultimately show ?thesis using s by (simp add: Some chat_deliver_def Let_def chat_ok_def clients_ok_def queues_ok_def)
qed (simp add: chat_deliver_def assms)

lemma route_loop_ok: "chat_ok s \<Longrightarrow> chat_ok (route_loop us m s)"
  by (induction us m s rule: route_loop.induct) (simp_all add: deliver_ok)

lemma distinct_users_ok: "distinct (distinct_users seen us) \<and> [] \<notin> set (distinct_users seen us) \<and> set (distinct_users seen us) \<inter> set seen = {}"
  by (induction seen us rule: distinct_users.induct) auto

lemma send_route_ok: "chat_ok s \<Longrightarrow> chat_ok (send_route us m s)"
  using distinct_users_ok [of "[]" us] by (auto simp: chat_ok_def clients_ok_def queues_ok_def fates_ok_def send_route_def Let_def)

lemma write_head_ok: "chat_ok s \<Longrightarrow> chat_ok (write_head a ok s)"
proof -
  assume s: "chat_ok s"
  have "chat_ok (upd_client a (\<lambda>c. c\<lparr>kc_queue := tl (kc_queue c)\<rparr>) s)" if "a < length (ks_heap s)"
    using upd_client_fates [of "{}" s a "\<lambda>c. c\<lparr>kc_queue := tl (kc_queue c)\<rparr>" "{}"] s that
    by (auto simp: chat_ok_def clients_ok_def queues_ok_def upd_client_nth intro: le_trans [OF diff_le_self])
  then show ?thesis using s by (auto simp: write_head_def Let_def not_le intro!: close_ok)
qed

lemma close_started_ok:
  assumes "chat_ok s" "a \<in> set (ks_closing s)" shows "chat_ok (close_client a (s\<lparr>ks_closing := remove1 a (ks_closing s)\<rparr>))"
proof -
  have a: "a < length (ks_heap s)" using assms by (auto simp: chat_ok_def fates_ok_def)
  have "fates_ok {a} (s\<lparr>ks_closing := remove1 a (ks_closing s)\<rparr>)"
    using assms(1) set_remove1_subset [of a "ks_closing s"] unfolding chat_ok_def fates_ok_def by (auto simp: set_remove1_other)
  moreover have "clients_ok (s\<lparr>ks_closing := remove1 a (ks_closing s)\<rparr>)" "queues_ok (s\<lparr>ks_closing := remove1 a (ks_closing s)\<rparr>)"
    using assms(1) by (simp_all add: chat_ok_def clients_ok_def queues_ok_def)
  ultimately show ?thesis using a by (auto simp: chat_ok_def intro!: fates_close close_client_table close_client_queues)
qed

lemma close_fold_ok:
  assumes "clients_ok s" "queues_ok s" "fates_ok (set (map fst order)) s" "set (map fst order) \<subseteq> {..<length (ks_heap s)}"
  shows "chat_ok (fold (\<lambda>(a, sent) s. unregister_send a sent (close_client a s)) order s)"
  using assms
proof (induction order arbitrary: s)
  case (Cons x order)
  obtain a b where x: "x = (a, b)" by (cases x)
  let ?s = "unregister_send a b (close_client a s)"
  have a: "a < length (ks_heap s)" using Cons.prems(4) x by simp
  have "fates_ok (set (map fst (x # order)) - {a}) ?s"
    using Cons.prems(1,3) a by (intro unregister_send_fates close_client_fates)
  moreover have "set (map fst (x # order)) - {a} \<subseteq> set (map fst order)" using x by auto
  ultimately have "fates_ok (set (map fst order)) ?s" unfolding fates_ok_def by blast
  then show ?case using Cons.IH [of ?s] Cons.prems a x
    by (simp add: unregister_send_table unregister_send_queues close_client_table close_client_queues)
qed (simp add: chat_ok_def)

lemma chat_exec_ok:
  assumes s: "chat_ok s" shows "chat_ok (chat_exec e s)"
proof (cases e)
  case TakeLeaving
  then show ?thesis using s remove_ok [OF s] by (auto split: list.split)
next
  case TakeRoute
  have "chat_ok (s\<lparr>ks_routes := r\<rparr>)" if "ks_routes s = x # r" for x r
    using s that by (auto simp: chat_ok_def clients_ok_def queues_ok_def fates_ok_def)
  then show ?thesis using TakeRoute s route_loop_ok by (auto split: list.split)
next
  case (StopLoop order)
  show ?thesis
  proof (cases "ks_stopped s \<or> \<not> ks_done s \<or> \<not> distinct (map fst order) \<or> set (map fst order) \<noteq> ran (ks_clients s)")
    case False
    let ?e = "s\<lparr>ks_clients := Map.empty, ks_online := 0\<rparr>"
    have c: "clients_ok ?e" "queues_ok ?e" using s False by (simp_all add: chat_ok_def clients_ok_def queues_ok_def)
    have "fates_ok {} s" "clients_ok s" using s by (simp_all add: chat_ok_def)
    note f = fates_okD [OF this(1)] and t = clients_okD [OF this(2)]
    have r: "set (map fst order) = ran (ks_clients s)" "ks_done s" using False by simp_all
    have "b \<in> ran (ks_clients s)"
      if "b < length (ks_heap s)" "kc_started (ks_heap s ! b)" "\<not> kc_closed (ks_heap s ! b)" "b \<notin> set (ks_closing s)" for b
      using f(4) [OF that(1-3)] that(4) ranI [of "ks_clients s" "kc_user (ks_heap s ! b)" b] by blast
    note g = this
    have "fates_ok (ran (ks_clients s)) ?e"
      by (rule fates_okI) (use f(1,2) g r(2) in auto)
    moreover have "ran (ks_clients s) \<subseteq> {..<length (ks_heap s)}" using t by (auto simp: ran_def)
    ultimately have k: "chat_ok (close_clients order s)" unfolding close_clients_def using close_fold_ok [OF c, of order] r(1) by simp
    have "ks_done (fold (\<lambda>(a, sent) s. unregister_send a sent (close_client a s)) o' w) = ks_done w \<and>
        ks_clients (fold (\<lambda>(a, sent) s. unregister_send a sent (close_client a s)) o' w) = ks_clients w" for o' w
      by (induction o' arbitrary: w) (simp_all add: case_prod_beta)
    then have "ks_done (close_clients order s)" "ks_clients (close_clients order s) = Map.empty" using r(2) by (simp_all add: close_clients_def)
    then show ?thesis using k StopLoop False by (simp add: chat_ok_def clients_ok_def queues_ok_def fates_ok_def)
  qed (use s StopLoop in simp)
next
  case (NewClient u k n)
  show ?thesis unfolding NewClient by (rule new_client_ok [OF s])
next
  case CloseServer
  have f: "fates_ok {} s" using s by (simp add: chat_ok_def)
  have "fates_ok {} (s\<lparr>ks_done := True\<rparr>)" by (rule fates_okI) (use fates_okD(1,2,4) [OF f] in auto)
  then show ?thesis using s CloseServer by (simp add: chat_ok_def clients_ok_def queues_ok_def)
qed (simp_all add: s join_ok refuse_ok send_route_ok unregister_ok write_head_ok close_ok close_started_ok)

lemma chat_run_ok: "chat_ok s \<Longrightarrow> chat_ok (chat_run es s)"
  unfolding chat_run_def by (induction es arbitrary: s) (simp_all add: chat_exec_ok)

lemma new_server_ok: "chat_ok (new_chat_server n)"
  by (simp add: chat_ok_def clients_ok_def queues_ok_def fates_ok_def new_chat_server_def)

section \<open>Runs\<close>

text \<open>
  In every run of the server the count of users online is the size of the table, every entry is a started client of that user, the queues keep
  their bounds, a client that was replaced is closed or about to be, a closed client leaves the table as long as the server runs, and once the
  loop has stopped nobody is online and every client is closed or about to be.
\<close>

theorem chat_runs_sound:
  fixes n es defines "s \<equiv> chat_run es (new_chat_server n)"
  shows "ks_online s = int (card (dom (ks_clients s))) \<and> length (ks_routes s) \<le> ks_size s \<and> length (ks_leaving s) \<le> ks_size s \<and>
    (\<forall>u a. ks_clients s u = Some a \<longrightarrow> kc_user (ks_heap s ! a) = u \<and> kc_started (ks_heap s ! a) \<and>
       (kc_closed (ks_heap s ! a) \<longrightarrow> a \<in> set (ks_leaving s) \<union> set (ks_waiting s) \<or> ks_done s)) \<and>
    (\<forall>a < length (ks_heap s). length (kc_queue (ks_heap s ! a)) \<le> kc_size (ks_heap s ! a) \<and>
       (kc_started (ks_heap s ! a) \<longrightarrow>
        ks_clients s (kc_user (ks_heap s ! a)) = Some a \<or> kc_closed (ks_heap s ! a) \<or> a \<in> set (ks_closing s))) \<and>
    (ks_stopped s \<longrightarrow> ks_online s = 0 \<and> ks_clients s = Map.empty)"
proof -
  have "chat_ok s" unfolding s_def by (rule chat_run_ok [OF new_server_ok])
  then show ?thesis unfolding chat_ok_def clients_ok_def queues_ok_def fates_ok_def by simp blast
qed

section \<open>A fenced registry\<close>

text \<open>The table keeps the contract of a fenced registry: unregistering a client that was replaced leaves the new one.\<close>

definition chat_ready :: "chat_server \<Rightarrow> bool" where
  "chat_ready s = (clients_ok s \<and> \<not> ks_stopped s)"

definition chat_current :: "chat_server \<Rightarrow> string \<Rightarrow> (string \<times> nat) option" where
  "chat_current s u = map_option (\<lambda>a. (u, a)) (ks_clients s u)"

definition chat_release :: "string \<times> nat \<Rightarrow> chat_server \<Rightarrow> chat_server" where
  "chat_release i s = (if snd i < length (ks_heap s) \<and> kc_user (ks_heap s ! snd i) = fst i then remove_client (snd i) s else s)"

definition chat_take :: "string \<times> nat \<Rightarrow> chat_server \<Rightarrow> chat_server option" where
  "chat_take i s =
     (let s' = join_client (snd i) s in
      if snd i < length (ks_heap s) \<and> kc_user (ks_heap s ! snd i) = fst i \<and> ks_clients s' (fst i) = Some (snd i) then Some s' else None)"

lemma remove_client_ready: "clients_ok s \<Longrightarrow> clients_ok (remove_client a s)"
proof (cases "ks_clients s (kc_user (ks_heap s ! a)) = Some a")
  case True
  let ?u = "kc_user (ks_heap s ! a)"
  assume s: "clients_ok s"
  then have c: "Suc (card (dom (ks_clients s) - {?u})) = card (dom (ks_clients s))"
    using card_Suc_Diff1 [of "dom (ks_clients s)" ?u] domI [of "ks_clients s", OF True] by (simp only: clients_ok_def)
  have e: "remove_client a s = s\<lparr>ks_clients := (ks_clients s)(?u := None), ks_online := ks_online s - 1\<rparr>"
    using True by (simp add: remove_client_def)
  have "ks_online s - 1 = int (card (dom (ks_clients s) - {?u}))" using c s unfolding clients_ok_def by linarith
  then show ?thesis using s unfolding e clients_ok_def by simp
qed (simp add: remove_client_def)

lemma join_client_ready: "clients_ok s \<Longrightarrow> clients_ok (join_client a s)"
proof -
  assume s: "clients_ok s"
  have "card (insert u (dom (ks_clients s))) = (if ks_clients s u = None then card (dom (ks_clients s)) + 1 else card (dom (ks_clients s)))" for u
    using s by (auto simp: clients_ok_def card_insert_if domIff)
  then show ?thesis using s
    by (auto simp: join_client_def clients_ok_def add_client_def Let_def startable_def upd_client_nth not_le)
qed

lemma chat_release_simps:
  assumes "chat_ready s"
  shows "ks_clients (chat_release i s) = (if ks_clients s (fst i) = Some (snd i) then (ks_clients s)(fst i := None) else ks_clients s)"
  using assms clients_okD [of s "fst i" "snd i"] by (auto simp: chat_release_def chat_ready_def remove_client_def Let_def)

interpretation chats: fenced_registry chat_ready chat_current fst chat_release chat_take
proof
  fix s i assume s: "chat_ready s"
  show "chat_ready (chat_release i s)"
    using s remove_client_ready [of s "snd i"] by (auto simp: chat_ready_def chat_release_def remove_client_def Let_def)
  show "chat_current s (fst i) = Some i \<Longrightarrow> chat_current (chat_release i s) (fst i) = None"
    by (cases i) (auto simp: chat_current_def chat_release_simps [OF s])
  show "chat_current s (fst i) \<noteq> Some i \<Longrightarrow> chat_current (chat_release i s) = chat_current s"
    by (cases i) (auto simp: chat_current_def chat_release_simps [OF s])
  show "k \<noteq> fst i \<Longrightarrow> chat_current (chat_release i s) k = chat_current s k" for k
    by (simp add: chat_current_def chat_release_simps [OF s])
next
  fix s i s' assume s: "chat_ready s" and t: "chat_take i s = Some s'"
  have e: "s' = join_client (snd i) s" "ks_clients s' (fst i) = Some (snd i)" "kc_user (ks_heap s ! snd i) = fst i" "snd i < length (ks_heap s)"
    using t by (auto simp: chat_take_def Let_def split: if_splits)
  show "chat_ready s'" using s join_client_ready [of s "snd i"] unfolding e(1) chat_ready_def
    by (auto simp: join_client_def add_client_def Let_def)
  show "chat_current s' (fst i) = Some i" using e(2) by (simp add: chat_current_def)
  show "k \<noteq> fst i \<Longrightarrow> chat_current s' k = chat_current s k" for k
    using e(3,4) unfolding e(1) by (auto simp: chat_current_def join_client_def add_client_def Let_def upd_client_nth)
qed

text \<open>Late unregistrations of other clients of the user leave the client that took over.\<close>

lemma late_chat_closes_harmless:
  assumes "chat_ready s" "chat_take (u, a) s = Some s'" "(u, a) \<notin> set late"
  shows "chat_current (fold chat_release late s') u = Some (u, a)"
  using chats.takeover_survives [OF assms] by simp

section \<open>Delivery\<close>

text \<open>Who gets a message that is routed: the open client of each recipient, when its queue has room.\<close>

definition gets :: "chat_server \<Rightarrow> string list \<Rightarrow> nat \<Rightarrow> bool" where
  "gets s us a =
     (kc_user (ks_heap s ! a) \<in> set us \<and> ks_clients s (kc_user (ks_heap s ! a)) = Some a \<and> \<not> kc_closed (ks_heap s ! a) \<and>
      length (kc_queue (ks_heap s ! a)) < kc_size (ks_heap s ! a))"

lemma deliver_exact:
  assumes "clients_ok s"
  shows "let s' = snd (chat_deliver (ks_clients s u) m s) in
    ks_clients s' = ks_clients s \<and> length (ks_heap s') = length (ks_heap s) \<and> clients_ok s' \<and>
    (\<forall>a < length (ks_heap s). ks_heap s' ! a =
       (if gets s [u] a then (ks_heap s ! a)\<lparr>kc_queue := kc_queue (ks_heap s ! a) @ [m]\<rparr> else ks_heap s ! a))"
proof (cases "ks_clients s u")
  case None
  then show ?thesis using assms by (auto simp: chat_deliver_def gets_def)
next
  case (Some b)
  note b = clients_okD [OF assms Some]
  have g: "gets s [u] a \<longleftrightarrow> a = b \<and> \<not> kc_closed (ks_heap s ! b) \<and> length (kc_queue (ks_heap s ! b)) < kc_size (ks_heap s ! b)"
    for a
  proof (cases "a = b")
    case True
    then show ?thesis using b Some by (simp add: gets_def)
  next
    case False
    then have "\<not> (kc_user (ks_heap s ! a) = u \<and> ks_clients s (kc_user (ks_heap s ! a)) = Some a)" using Some by (metis option.inject)
    then show ?thesis using False by (simp add: gets_def) blast
  qed
  have c: "clients_ok (upd_client b (\<lambda>c. c\<lparr>kc_queue := kc_queue c @ [m]\<rparr>) s)" using assms b by (simp add: clients_ok_def upd_client_nth)
  have c': "clients_ok (s\<lparr>ks_closing := ks_closing s @ [b]\<rparr>)" using assms by (simp add: clients_ok_def)
  show ?thesis using Some b c c' assms g by (auto simp: chat_deliver_def Let_def upd_client_nth)
qed

lemma route_exact:
  assumes "clients_ok s" "distinct us"
  shows "ks_clients (route_loop us m s) = ks_clients s \<and> length (ks_heap (route_loop us m s)) = length (ks_heap s) \<and>
    (\<forall>a < length (ks_heap s). ks_heap (route_loop us m s) ! a =
       (if gets s us a then (ks_heap s ! a)\<lparr>kc_queue := kc_queue (ks_heap s ! a) @ [m]\<rparr> else ks_heap s ! a))"
  using assms
proof (induction us arbitrary: s)
  case (Cons u us)
  define s' where "s' = snd (chat_deliver (ks_clients s u) m s)"
  have d: "ks_clients s' = ks_clients s" "length (ks_heap s') = length (ks_heap s)" "clients_ok s'"
    "\<And>a. a < length (ks_heap s) \<Longrightarrow> ks_heap s' ! a =
       (if gets s [u] a then (ks_heap s ! a)\<lparr>kc_queue := kc_queue (ks_heap s ! a) @ [m]\<rparr> else ks_heap s ! a)"
    using deliver_exact [OF Cons.prems(1), of u m] by (simp_all add: s'_def Let_def)
  have g: "gets s (u # us) a \<longleftrightarrow> gets s [u] a \<or> gets s us a" "gets s [u] a \<Longrightarrow> \<not> gets s us a" for a
    using Cons.prems(2) by (auto simp: gets_def)
  have g': "gets s' us a \<longleftrightarrow> gets s us a" if "a < length (ks_heap s)" for a
    using Cons.prems(2) d(4) [OF that] by (auto simp: gets_def d(1) split: if_splits)
  have e: "route_loop (u # us) m s = route_loop us m s'" by (simp add: s'_def)
  have ih: "ks_clients (route_loop us m s') = ks_clients s' \<and> length (ks_heap (route_loop us m s')) = length (ks_heap s') \<and>
    (\<forall>a < length (ks_heap s'). ks_heap (route_loop us m s') ! a =
       (if gets s' us a then (ks_heap s' ! a)\<lparr>kc_queue := kc_queue (ks_heap s' ! a) @ [m]\<rparr> else ks_heap s' ! a))"
    using Cons.IH [OF d(3)] Cons.prems(2) by simp
  have "ks_heap (route_loop us m s') ! a =
      (if gets s (u # us) a then (ks_heap s ! a)\<lparr>kc_queue := kc_queue (ks_heap s ! a) @ [m]\<rparr> else ks_heap s ! a)" if "a < length (ks_heap s)" for a
    using ih d(2) d(4) [OF that] g(1) [of a] g(2) [of a] g' [OF that] that by (cases "gets s [u] a") simp_all
  then show ?case using ih d(1,2) unfolding e by simp
qed (simp add: gets_def)

section \<open>From a message to the queues\<close>

lemma insert_message_Inr:
  "insert_message D env m st = (Inr x, st') \<Longrightarrow>
     ch_messages st' = ch_messages st @ [x\<lparr>cm_created := me_stored env\<rparr>] \<and> ch_rest st' = ch_rest st \<and> (\<exists>i. x = m\<lparr>cm_id := i\<rparr>)"
  by (auto simp: insert_message_def Let_def split: if_splits)

lemma store_cache_messages [simp]: "ch_messages (store_cache f st) = ch_messages st" "re_db (ch_rest (store_cache f st)) = re_db (ch_rest st)"
  by (simp_all add: store_cache_def)

lemma chat_group_messages: "chat_group D env gid st = (x, st') \<Longrightarrow> ch_messages st' = ch_messages st"
  by (auto simp: chat_group_def split: prod.splits)

lemma send_direct_Inr:
  assumes "send_direct D env u v content origin st = (Inr r, st')"
  shows "\<exists>row s. ch_messages st' = ch_messages st @ [row] \<and> s \<in> set (db_sessions (re_db (ch_rest st))) \<and> pair_row D u v (se_send s) (se_receive s) \<and>
    cm_session row = se_uuid s \<and> cm_send row = u \<and> cm_receive row = v \<and> cm_content row = content \<and> cm_origin row = origin \<and>
    mr_send r = u \<and> mr_receive r = v \<and> mr_content r = content \<and> mr_origin r = origin \<and> u \<noteq> v \<and> content \<noteq> []"
  using assms
  by (auto simp: send_direct_def Let_def chat_message_def message_reply_of_def dest!: insert_message_Inr find_SomeD
      split: if_splits option.splits prod.splits sum.splits)

lemma send_group_Inr:
  assumes "send_group D env u gid content st = (Inr r, st')"
  shows "\<exists>row g. ch_messages st' = ch_messages st @ [row] \<and> fst (chat_group D (me_group env) gid st) = Inr g \<and> contains_id (gv_members g) u \<and>
    cm_session row = gid \<and> cm_send row = u \<and> cm_receive row = gid \<and> cm_content row = content \<and> cm_origin row = 0 \<and>
    mr_send r = u \<and> mr_receive r = gid \<and> mr_content r = content \<and> mr_origin r = 0 \<and> content \<noteq> []"
  using assms
  by (auto simp: send_group_def Let_def chat_message_def message_reply_of_def dest!: insert_message_Inr chat_group_messages
      split: if_splits prod.splits sum.splits)

lemma chat_group_db: "chat_group D env gid st = (x, st') \<Longrightarrow> re_db (ch_rest st') = re_db (ch_rest st)"
  by (auto simp: chat_group_def get_group_def with_cache_def load_group_def keep_cached_def split: prod.splits sum.splits option.splits if_splits)

lemma send_group_db: "send_group D env u gid content st = (x, st') \<Longrightarrow> re_db (ch_rest st') = re_db (ch_rest st)"
  by (auto simp: send_group_def Let_def dest!: chat_group_db split: if_splits prod.splits sum.splits)
    (auto simp: insert_message_def Let_def split: if_splits)

lemma handle_message_None:
  assumes "handle_message D env sent sender m st = (None, Some (us, out), st')"
  shows "sender \<noteq> [] \<and> lm_send m = sender \<and> us \<noteq> [] \<and>
    (if lm_type m = 1
     then \<exists>r st1 g. send_group D env sender (lm_receive m) (lm_content m) st = (Inr r, st1) \<and>
            chat_group D (me_again env) (lm_receive m) st1 = (Inr g, st') \<and> us = distinct_users [] (nil_list (gv_members g)) \<and>
            out = \<lparr>lm_send = mr_send r, lm_receive = mr_receive r, lm_content = mr_content r, lm_origin = mr_origin r, lm_type = 1\<rparr>
     else \<exists>r. send_direct D env sender (lm_receive m) (lm_content m) 0 st = (Inr r, st') \<and> lm_type m = 0 \<and> us = [mr_receive r] \<and>
            out = \<lparr>lm_send = mr_send r, lm_receive = mr_receive r, lm_content = mr_content r, lm_origin = mr_origin r, lm_type = 0\<rparr>)"
proof -
  have v: "sender \<noteq> []" "lm_send m = sender" "valid_destination (lm_receive m) (lm_type m)"
    using assms by (auto simp: handle_message_def split: if_splits)
  have g: "\<not> has_prefix (lm_receive m) ''G''" "lm_type m = 0" if "lm_type m \<noteq> 1"
    using v(3) that by (auto simp: valid_destination_def has_prefix_def split: if_splits)
  show ?thesis
  proof (cases "lm_type m = 1")
    case True
    then show ?thesis using assms v by (auto simp: handle_message_def Let_def split: prod.splits sum.splits if_splits)
  next
    case False
    then show ?thesis using assms v g by (auto simp: handle_message_def Let_def split: prod.splits sum.splits if_splits)
  qed
qed

text \<open>C39. A message that the single-process server accepts comes from the user of its connection, is stored once, and goes to the right queues: a
  group message only from a member and to the members of the group, each once, a direct message only within a session and to its
  other side; and when the loop takes the request, exactly the open clients of the recipients that are in the table and have room
  get it, once, at the end of their queue, and no other client changes.\<close>

theorem chat_messages_reach_recipients:
  assumes "handle_message D env sent sender m st = (None, Some (us, out), st')"
    and "srv = chat_run es (new_chat_server n)" "ks_routes srv = (us, out) # later" "\<not> ks_stopped srv"
  shows "sender \<noteq> [] \<and> lm_send m = sender \<and> out = m\<lparr>lm_origin := 0\<rparr> \<and>
    (\<exists>row. ch_messages st' = ch_messages st @ [row] \<and> cm_send row = sender \<and> cm_receive row = lm_receive m \<and>
       cm_content row = lm_content m \<and> cm_origin row = 0) \<and>
    (if lm_type m = 1
     then \<exists>g g' w. fst (chat_group D (me_group env) (lm_receive m) st) = Inr g \<and> sender \<in> set (nil_list (gv_members g)) \<and>
            fst (chat_group D (me_again env) (lm_receive m) w) = Inr g' \<and> re_db (ch_rest w) = re_db (ch_rest st) \<and>
            us = distinct_users [] (nil_list (gv_members g'))
     else us = [lm_receive m] \<and>
            (\<exists>s \<in> set (db_sessions (re_db (ch_rest st))). pair_row D sender (lm_receive m) (se_send s) (se_receive s))) \<and>
    (\<forall>a < length (ks_heap srv). ks_heap (chat_exec TakeRoute srv) ! a =
       (if gets srv us a then (ks_heap srv ! a)\<lparr>kc_queue := kc_queue (ks_heap srv ! a) @ [out]\<rparr> else ks_heap srv ! a))"
proof -
  note h = handle_message_None [OF assms(1)]
  have ok: "chat_ok srv" unfolding assms(2) by (rule chat_run_ok [OF new_server_ok])
  then have "clients_ok (srv\<lparr>ks_routes := later\<rparr>)" "distinct us"
    using assms(3) by (simp_all add: chat_ok_def clients_ok_def queues_ok_def)
  from route_exact [OF this, of out]
  have e: "\<forall>a < length (ks_heap srv). ks_heap (chat_exec TakeRoute srv) ! a =
       (if gets srv us a then (ks_heap srv ! a)\<lparr>kc_queue := kc_queue (ks_heap srv ! a) @ [out]\<rparr> else ks_heap srv ! a)"
    using assms(3,4) by (simp add: gets_def)
  show ?thesis
  proof (cases "lm_type m = 1")
    case True
    then obtain r st1 g where r: "send_group D env sender (lm_receive m) (lm_content m) st = (Inr r, st1)"
      "chat_group D (me_again env) (lm_receive m) st1 = (Inr g, st')" "us = distinct_users [] (nil_list (gv_members g))"
      "out = \<lparr>lm_send = mr_send r, lm_receive = mr_receive r, lm_content = mr_content r, lm_origin = mr_origin r, lm_type = 1\<rparr>"
      using h by auto
    obtain row g0 where s: "ch_messages st1 = ch_messages st @ [row]" "fst (chat_group D (me_group env) (lm_receive m) st) = Inr g0"
      "contains_id (gv_members g0) sender" "cm_send row = sender" "cm_receive row = lm_receive m" "cm_content row = lm_content m" "cm_origin row = 0"
      "mr_send r = sender" "mr_receive r = lm_receive m" "mr_content r = lm_content m" "mr_origin r = 0"
      using send_group_Inr [OF r(1)] by blast
    have w: "fst (chat_group D (me_again env) (lm_receive m) st1) = Inr g" "re_db (ch_rest st1) = re_db (ch_rest st)"
      using r(2) send_group_db [OF r(1)] by simp_all
    have "out = m\<lparr>lm_origin := 0\<rparr>" using r(4) s h True by (cases m) simp
    moreover have "ch_messages st' = ch_messages st @ [row]" using chat_group_messages [OF r(2)] s(1) by simp
    moreover have "sender \<in> set (nil_list (gv_members g0))" using s(3) by (simp add: contains_id_def)
    ultimately show ?thesis using e h True s(2,4-7) w r(3) by auto
  next
    case False
    then obtain r where r: "send_direct D env sender (lm_receive m) (lm_content m) 0 st = (Inr r, st')" "lm_type m = 0" "us = [mr_receive r]"
      "out = \<lparr>lm_send = mr_send r, lm_receive = mr_receive r, lm_content = mr_content r, lm_origin = mr_origin r, lm_type = 0\<rparr>"
      using h by auto
    obtain row s where s: "ch_messages st' = ch_messages st @ [row]" "s \<in> set (db_sessions (re_db (ch_rest st)))"
      "pair_row D sender (lm_receive m) (se_send s) (se_receive s)" "cm_send row = sender" "cm_receive row = lm_receive m"
      "cm_content row = lm_content m" "cm_origin row = 0" "mr_send r = sender" "mr_receive r = lm_receive m" "mr_content r = lm_content m" "mr_origin r = 0"
      using send_direct_Inr [OF r(1)] by blast
    have "out = m\<lparr>lm_origin := 0\<rparr>" using r(2,4) s h by (cases m) simp
    then show ?thesis using e h False s r(3) by auto
  qed
qed

end
