(* ===== verification/ChatApi.thy ===== *)
theory ChatApi
  imports ChatHub AssistantService HttpApi
begin

text \<open>
  What surrounds the connection table of the single-process server: the Kafka events it may publish and consume instead of handling messages
  at once (internal/service/kafkaservice, cmd/my_chat_server), the message the assistant sends (internal/service/aiservice) and the
  controllers of the message lists (internal/api/v1).
\<close>

section \<open>Events\<close>

definition post_json :: "chat_post \<Rightarrow> json option" where
  "post_json e = map_option (\<lambda>t. JObj
     [(''event_id'', json_string (cp_event e)), (''sender_id'', json_string (cp_sender e)), (''receive_id'', json_string (cp_receive e)),
      (''receive_type'', JNum (format_int (cp_type e))), (''content'', json_string (cp_content e)), (''created_at'', JStr t)])
     (format_gotime (cp_created e))"

definition post_fields :: "(string \<times> (json \<Rightarrow> chat_post \<Rightarrow> chat_post option)) list" where
  "post_fields =
     [(''event_id'', \<lambda>v e. map_option (\<lambda>s. e\<lparr>cp_event := s\<rparr>) (decode_string v (cp_event e))),
      (''sender_id'', \<lambda>v e. map_option (\<lambda>s. e\<lparr>cp_sender := s\<rparr>) (decode_string v (cp_sender e))),
      (''receive_id'', \<lambda>v e. map_option (\<lambda>s. e\<lparr>cp_receive := s\<rparr>) (decode_string v (cp_receive e))),
      (''receive_type'', \<lambda>v e. map_option (\<lambda>n. e\<lparr>cp_type := n\<rparr>) (decode_int8 v (cp_type e))),
      (''content'', \<lambda>v e. map_option (\<lambda>s. e\<lparr>cp_content := s\<rparr>) (decode_string v (cp_content e))),
      (''created_at'', \<lambda>v e. map_option (\<lambda>t. e\<lparr>cp_created := t\<rparr>) (decode_time v (cp_created e)))]"

definition zero_post :: chat_post where
  "zero_post = \<lparr>cp_event = [], cp_sender = [], cp_receive = [], cp_type = 0, cp_content = [], cp_created = GoTime zero_ns 0\<rparr>"

definition unmarshal_post :: "string \<Rightarrow> chat_post option" where
  "unmarshal_post raw = unmarshal_struct post_fields raw zero_post"

text \<open>\<open>New\<close>: the configuration it refuses, and the health check of the first broker.\<close>

datatype kafka_start = KafkaOff | KafkaInvalid | KafkaUnhealthy | KafkaReady

record kafka_config =
  kf_enabled :: bool
  kf_mode :: string
  kf_brokers :: "string list"
  kf_topic :: string
  kf_group :: string

definition new_kafka :: "kafka_config \<Rightarrow> bool \<Rightarrow> kafka_start" where
  "new_kafka c dialled =
     (if \<not> kf_enabled c \<or> kf_mode c \<noteq> ''kafka'' then KafkaOff
      else if kf_brokers c = [] \<or> kf_topic c = [] \<or> kf_group c = [] then KafkaInvalid
      else if \<not> dialled then KafkaUnhealthy else KafkaReady)"

text \<open>\<open>Publish\<close>: the key and the value of the record, or nothing when the event has no text.\<close>

definition post_record :: "chat_post \<Rightarrow> (string \<times> string) option" where
  "post_record e =
     map_option (\<lambda>v. (if cp_type e = 0 then cp_sender e @ '':'' @ cp_receive e else cp_receive e, json_print v)) (post_json e)"

text \<open>
  \<open>Consume\<close>: what each \<open>FetchMessage\<close> gives, whether the commit succeeds, and what the handler meets. The result is how the loop ended, if it
  did, and the values that were committed.
\<close>

record 'e fetch =
  fx_raw :: "string option"
  fx_commit :: bool
  fx_env :: 'e

datatype consume_end = StillRuns | FetchFailed | HandlerFailed message_error | CommitFailed

fun consume_posts ::
  "('e \<Rightarrow> chat_post \<Rightarrow> 's \<Rightarrow> message_error option \<times> 's) \<Rightarrow> 'e fetch list \<Rightarrow> 's \<Rightarrow> consume_end \<times> string list \<times> 's" where
  "consume_posts H [] s = (StillRuns, [], s)"
| "consume_posts H (f # fs) s =
     (case fx_raw f of
        None \<Rightarrow> (FetchFailed, [], s)
      | Some raw \<Rightarrow>
        (case unmarshal_post raw of
           None \<Rightarrow> consume_posts H fs s
         | Some e \<Rightarrow>
           if cp_event e = [] then consume_posts H fs s
           else
             (case H (fx_env f) e s of
                (Some x, s') \<Rightarrow> (HandlerFailed x, [], s')
              | (None, s') \<Rightarrow>
                if \<not> fx_commit f then (CommitFailed, [], s')
                else (case consume_posts H fs s' of (r, cs, s'') \<Rightarrow> (r, raw # cs, s'')))))"

text \<open>The handler the server passes: it handles the event as a message of its sender. The state holds the requests sent to the loop.\<close>

definition post_message :: "chat_post \<Rightarrow> legacy_message" where
  "post_message e = \<lparr>lm_send = cp_sender e, lm_receive = cp_receive e, lm_content = cp_content e, lm_origin = 0, lm_type = cp_type e\<rparr>"

definition post_handler ::
  "dbms \<Rightarrow> message_env \<times> bool \<Rightarrow> chat_post \<Rightarrow> chat_store \<times> (string list \<times> legacy_message) list \<Rightarrow>
   message_error option \<times> chat_store \<times> (string list \<times> legacy_message) list" where
  "post_handler D env e s =
     (case handle_message D (fst env) (snd env) (cp_sender e) (post_message e) (fst s) of
        (x, q, st) \<Rightarrow> (x, st, snd s @ (case q of None \<Rightarrow> [] | Some r \<Rightarrow> [r])))"

section \<open>The assistant\<close>

text \<open>\<open>SendMessage\<close> of the assistant: the session must be open to it, and the message is sent as a direct message of the user.\<close>

definition assistant_send ::
  "dbms \<Rightarrow> assistant_env \<Rightarrow> message_env \<Rightarrow> string \<Rightarrow> string \<Rightarrow> string \<Rightarrow> chat_store \<Rightarrow> (assistant_error + assistant_message) \<times> chat_store" where
  "assistant_send D env menv user session content st =
     (let u = trim_space user; sid = trim_space session; c = trim_space content; S = re_db (ch_rest st) in
      if u = [] \<or> sid = [] \<or> c = [] \<or> 4000 < rune_count c then (Inl AiInvalidInput, st)
      else if ai_fault env IsAccess then (Inl AiDatabase, st)
      else case List.find (\<lambda>(s, a). db_same D (se_uuid s) sid) (allowed_rows D u S) of
        None \<Rightarrow> (Inl AiForbidden, st)
      | Some (s, a) \<Rightarrow>
        (case (if ai_fault env IsPeers then None else List.find (\<lambda>r. db_same D (us_uuid r) u) (db_users S)) of
           None \<Rightarrow> (Inl AiDatabase, st)
         | Some sender \<Rightarrow>
           (case send_direct D menv u (if se_send s = u then se_receive s else se_send s) c 1 st of
              (Inl e, st') \<Rightarrow> (Inl AiDatabase, st')
            | (Inr r, st') \<Rightarrow>
              (Inr \<lparr>im_uuid = mr_uuid r, im_in = mr_session r, im_from = mr_send r, im_name = us_nick sender, im_to = mr_receive r,
                 im_kind = mr_type r, im_body = mr_content r, im_by = mr_origin r, im_at = t_ns (mr_created r)\<rparr>, st'))))"

section \<open>Controllers\<close>

type_synonym list_reply = "int \<times> message_reply list option option"

text \<open>\<open>GetMessageList\<close>: only one of the two users of the conversation may ask for it.\<close>

definition v1_message_list ::
  "dbms \<Rightarrow> message_env \<Rightarrow> string option \<Rightarrow> (string \<times> string) option \<Rightarrow> chat_store \<Rightarrow> list_reply \<times> chat_store" where
  "v1_message_list D env user req st =
     (case req of
        None \<Rightarrow> ((400, None), st)
      | Some (a, b) \<Rightarrow>
        (case current_user user of
           None \<Rightarrow> ((401, None), st)
         | Some u \<Rightarrow>
           if u \<noteq> a \<and> u \<noteq> b then ((403, None), st)
           else
             (case message_list D env a b st of
                (Inl e, st') \<Rightarrow> ((if e = MeUser then 400 else 500, None), st')
              | (Inr ms, st') \<Rightarrow> ((200, Some ms), st'))))"

text \<open>\<open>GetGroupMessageList\<close>: the members are read once for the check here and again by the service.\<close>

definition v1_group_messages ::
  "dbms \<Rightarrow> message_env \<Rightarrow> string option \<Rightarrow> string option \<Rightarrow> chat_store \<Rightarrow> list_reply \<times> chat_store" where
  "v1_group_messages D env user req st =
     (case req of
        None \<Rightarrow> ((400, None), st)
      | Some gid \<Rightarrow>
        (case current_user user of
           None \<Rightarrow> ((401, None), st)
         | Some u \<Rightarrow>
           (case chat_group D (me_again env) gid st of
              (Inl e, st1) \<Rightarrow> ((404, None), st1)
            | (Inr g, st1) \<Rightarrow>
              if \<not> contains_id (gv_members g) u then ((403, None), st1)
              else
                (case group_list D env u gid st1 of
                   (Inl e, st2) \<Rightarrow> ((500, None), st2)
                 | (Inr ms, st2) \<Rightarrow> ((200, Some ms), st2)))))"

text \<open>\<open>WsController\<close>: a request without a user is refused, an upgrade that fails ends it, otherwise a client is made and
  started; \<open>joins\<close> is the choice of its \<open>Register\<close>.\<close>

definition ws_controller :: "string option \<Rightarrow> bool \<Rightarrow> bool \<Rightarrow> chat_server \<Rightarrow> int option \<times> server_event list" where
  "ws_controller user upgraded joins s =
     (case current_user user of
        None \<Rightarrow> (Some 401, [])
      | Some u \<Rightarrow>
        if \<not> upgraded then (None, [])
        else
          (None, [NewClient u True (int default_queue), if joins then JoinClient (length (ks_heap s)) else RefuseClient (length (ks_heap s))]))"

section \<open>Facts\<close>

lemma post_keys: "list_all key_ok [''event_id'', ''sender_id'', ''receive_id'', ''receive_type'', ''content'', ''created_at'']"
proof -
  have "list_all (list_all bare) [''event_id'', ''sender_id'', ''receive_id'', ''receive_type'', ''content'', ''created_at'']"
    "list_all lower_key [''event_id'', ''sender_id'', ''receive_id'', ''receive_type'', ''content'', ''created_at'']" by code_simp+
  then show ?thesis by (simp add: key_okI)
qed

lemma post_find:
  "find_field post_fields ''event_id'' = Some (\<lambda>v e. map_option (\<lambda>s. e\<lparr>cp_event := s\<rparr>) (decode_string v (cp_event e)))"
  "find_field post_fields ''sender_id'' = Some (\<lambda>v e. map_option (\<lambda>s. e\<lparr>cp_sender := s\<rparr>) (decode_string v (cp_sender e)))"
  "find_field post_fields ''receive_id'' = Some (\<lambda>v e. map_option (\<lambda>s. e\<lparr>cp_receive := s\<rparr>) (decode_string v (cp_receive e)))"
  "find_field post_fields ''receive_type'' = Some (\<lambda>v e. map_option (\<lambda>n. e\<lparr>cp_type := n\<rparr>) (decode_int8 v (cp_type e)))"
  "find_field post_fields ''content'' = Some (\<lambda>v e. map_option (\<lambda>s. e\<lparr>cp_content := s\<rparr>) (decode_string v (cp_content e)))"
  "find_field post_fields ''created_at'' = Some (\<lambda>v e. map_option (\<lambda>t. e\<lparr>cp_created := t\<rparr>) (decode_time v (cp_created e)))"
  by (simp_all add: find_field_def post_fields_def)

text \<open>Every event the server publishes is read back.\<close>

lemma post_reads_back:
  assumes "utf8_valid (cp_event e)" "utf8_valid (cp_sender e)" "utf8_valid (cp_receive e)" "utf8_valid (cp_content e)"
    and "0 \<le> cp_type e" "cp_type e < 128" "t_off (cp_created e) = 0" "post_record e = Some (k, raw)"
  shows "unmarshal_post raw = Some e"
proof -
  obtain t where t: "format_gotime (cp_created e) = Some t" using assms(8) by (auto simp: post_record_def post_json_def)
  have time: "decode_time (JStr t) old = Some (cp_created e)" for old
    using parse_format_time t assms(7) by (cases "cp_created e") (auto simp: decode_time_def format_gotime_utc)
  have kind: "decode_int8 (JNum (format_int (cp_type e))) old = Some (cp_type e)" for old
    using parse_int64_format_int [of "cp_type e"] assms(5,6) by (simp add: decode_int8_def)
  let ?v = "JObj [(''event_id'', json_string (cp_event e)), (''sender_id'', json_string (cp_sender e)), (''receive_id'', json_string (cp_receive e)),
      (''receive_type'', JNum (format_int (cp_type e))), (''content'', json_string (cp_content e)), (''created_at'', JStr t)]"
  have raw: "raw = json_print ?v" using assms(8) t by (simp add: post_record_def post_json_def)
  have "good 1 (JStr t)" using format_gotime_bare [OF t] by (simp add: good_def lexes_bare neutral_bare)
  moreover have "JNum (format_int (cp_type e)) = number_json (nat (cp_type e))" using assms(5) by (simp add: number_json_def format_int_def)
  then have "good 1 (JNum (format_int (cp_type e)))" by simp
  ultimately have "good 0 ?v" using post_keys by (intro good_obj) simp_all
  then have "json_text (json_print ?v) = Some ?v" by (intro json_text_print) (simp add: good_def)
  then have u: "unmarshal_post raw = decode_known post_fields
     [(''event_id'', json_string (cp_event e)), (''sender_id'', json_string (cp_sender e)), (''receive_id'', json_string (cp_receive e)),
      (''receive_type'', JNum (format_int (cp_type e))), (''content'', json_string (cp_content e)), (''created_at'', JStr t)] zero_post"
    unfolding unmarshal_post_def unmarshal_struct_def raw by simp
  have n: "unquote ''event_id'' = ''event_id''" "unquote ''sender_id'' = ''sender_id''" "unquote ''receive_id'' = ''receive_id''"
    "unquote ''receive_type'' = ''receive_type''" "unquote ''content'' = ''content''" "unquote ''created_at'' = ''created_at''"
    using post_keys by (simp_all add: key_ok_unquote)
  show ?thesis unfolding u by (simp add: n post_find assms(1-4) time kind zero_post_def)
qed

text \<open>C40. A message that nobody may send stops the consumer of the single-process server: when a client sends a direct message to a user with whom
  there is no session, its reader publishes the event, the consumer reads the event back, the handler refuses it, and the loop ends
  there; whatever follows is not handled, and nothing is committed, so the same event comes first again after a restart.\<close>

theorem unsendable_message_stops_consumer:
  assumes "read_message sender True uuid now (Some m) = ReadPublishes e" "lm_type m = 0" "uuid \<noteq> []"
    and "\<forall>s \<in> set (db_sessions (re_db (ch_rest st))). \<not> pair_row D sender (lm_receive m) (se_send s) (se_receive s)"
    and "utf8_valid uuid" "utf8_valid sender" "utf8_valid (lm_receive m)" "utf8_valid (lm_content m)" "t_off now = 0"
    and "post_record e = Some (k, raw)"
  shows "\<exists>x. consume_posts (post_handler D) (\<lparr>fx_raw = Some raw, fx_commit = c, fx_env = env\<rparr> # later) (st, routed) =
    (HandlerFailed x, [], (st, routed))"
proof -
  have e: "e = \<lparr>cp_event = uuid, cp_sender = sender, cp_receive = lm_receive m, cp_type = 0, cp_content = lm_content m, cp_created = now\<rparr>"
    and v: "valid_destination (lm_receive m) 0"
    using assms(1,2) by (auto simp: read_message_def split: if_splits)
  have u: "unmarshal_post raw = Some e" using assms(5-10) by (intro post_reads_back) (simp_all add: e)
  have g: "\<not> has_prefix (lm_receive m) ''G''" using v by (auto simp: valid_destination_def has_prefix_def)
  have f: "List.find (\<lambda>s. pair_row D sender (lm_receive m) (se_send s) (se_receive s)) (db_sessions (re_db (ch_rest st))) = None"
    using assms(4) by (simp add: find_None_iff_ball)
  have "\<exists>y. send_direct D (fst env) sender (lm_receive m) (lm_content m) 0 st = (Inl y, st)" by (simp add: send_direct_def f)
  then obtain y where y: "send_direct D (fst env) sender (lm_receive m) (lm_content m) 0 st = (Inl y, st)" by blast
  have "\<exists>x. handle_message D (fst env) (snd env) sender (post_message e) st = (Some x, None, st)"
    by (cases "sender = []") (simp_all add: handle_message_def post_message_def e v g y)
  then obtain x where "handle_message D (fst env) (snd env) sender (post_message e) st = (Some x, None, st)" by blast
  then show ?thesis using u assms(3) by (simp add: e post_handler_def)
qed

end
