(* ===== verification/ChatSamples.thy ===== *)
theory ChatSamples
  imports ChatApi GroupSamples
begin

text \<open>The single-process server on the sample tables: a message between two users with a session, and one without.\<close>

definition message_env_a :: message_env where
  "message_env_a = \<lparr>me_fault = \<lambda>_. False, me_uuid = uuid_a, me_now = GoTime 5000 0, me_stored = GoTime 5000 0, me_gap = 0, me_float = Some,
     me_cache = cache_a, me_group = group_env_a, me_again = group_env_a\<rparr>"

definition chat_store_a :: chat_store where
  "chat_store_a = \<lparr>ch_rest = rest_a, ch_messages = [], ch_next = 1\<rparr>"

definition hello_a :: legacy_message where
  "hello_a = \<lparr>lm_send = user_a, lm_receive = user_b, lm_content = ''hi'', lm_origin = 0, lm_type = 0\<rparr>"

definition chat_events_a :: "server_event list" where
  "chat_events_a = [NewClient user_b True 1, JoinClient 0, SendRoute [user_b] hello_a]"

lemma hello_handled: "\<exists>st'. handle_message plain_dbms message_env_a True user_a hello_a chat_store_a = (None, Some ([user_b], hello_a), st')"
proof -
  have v: "valid_destination user_b 0" "has_prefix user_b ''G'' = False" by code_simp+
  show ?thesis using utf8_users v
    by (simp add: handle_message_def hello_a_def send_direct_def chat_store_a_def rest_a_def message_env_a_def pair_row_def insert_message_def
        Let_def message_reply_of_def chat_message_def)
qed

lemma chat_a: "ks_routes (chat_run chat_events_a (new_chat_server 0)) = [([user_b], hello_a)]" "\<not> ks_stopped (chat_run chat_events_a (new_chat_server 0))"
  "length (ks_heap (chat_run chat_events_a (new_chat_server 0))) = 1" "gets (chat_run chat_events_a (new_chat_server 0)) [user_b] 0"
  "kc_queue (ks_heap (chat_run chat_events_a (new_chat_server 0)) ! 0) = []"
  using utf8_users
  by (simp_all add: chat_run_def chat_events_a_def new_chat_server_def new_chat_client_def join_client_def add_client_def send_route_def
      startable_def default_queue_def upd_client_def gets_def Let_def)

lemma chat_messages_reach_recipients_witness:
  "kc_queue (ks_heap (chat_exec TakeRoute (chat_run chat_events_a (new_chat_server 0))) ! 0) = [hello_a]"
proof -
  obtain st' where "handle_message plain_dbms message_env_a True user_a hello_a chat_store_a = (None, Some ([user_b], hello_a), st')"
    using hello_handled by blast
  from chat_messages_reach_recipients [OF this refl chat_a(1,2)] chat_a(3-5) show ?thesis by simp
qed

text \<open>The first user writes to a user of another identifier, with whom there is no session.\<close>

definition stray_a :: legacy_message where
  "stray_a = \<lparr>lm_send = user_a, lm_receive = CHR ''U'' # uuid_c, lm_content = ''hi'', lm_origin = 0, lm_type = 0\<rparr>"

definition post_a :: chat_post where
  "post_a = \<lparr>cp_event = uuid_a, cp_sender = user_a, cp_receive = CHR ''U'' # uuid_c, cp_type = 0, cp_content = ''hi'', cp_created = GoTime 0 0\<rparr>"

lemma unsendable_message_stops_consumer_witness:
  "\<exists>k raw x. post_record post_a = Some (k, raw) \<and>
     consume_posts (post_handler plain_dbms)
       [\<lparr>fx_raw = Some raw, fx_commit = True, fx_env = (message_env_a, True)\<rparr>, \<lparr>fx_raw = Some raw, fx_commit = True, fx_env = (message_env_a, True)\<rparr>]
       (chat_store_a, []) = (HandlerFailed x, [], (chat_store_a, []))"
proof -
  have t: "format_gotime (GoTime 0 0) \<noteq> None" by code_simp
  then obtain k raw where r: "post_record post_a = Some (k, raw)" by (auto simp: post_record_def post_json_def post_a_def)
  have v: "valid_destination (CHR ''U'' # uuid_c) 0" "utf8_valid (CHR ''U'' # uuid_c)" "utf8_valid uuid_a" "uuid_a \<noteq> []" "utf8_valid ''hi''"
    "user_a \<noteq> CHR ''U'' # uuid_c" "user_b \<noteq> CHR ''U'' # uuid_c" "user_a \<noteq> user_b" by code_simp+
  have "read_message user_a True uuid_a (GoTime 0 0) (Some stray_a) = ReadPublishes post_a" using v by (simp add: read_message_def stray_a_def post_a_def)
  note u = unsendable_message_stops_consumer [OF this _ v(4) _ v(3) utf8_users(1) _ _ _ r, of chat_store_a plain_dbms True "(message_env_a, True)"
    "[\<lparr>fx_raw = Some raw, fx_commit = True, fx_env = (message_env_a, True)\<rparr>]" "[]"]
  have "\<exists>x. consume_posts (post_handler plain_dbms)
       [\<lparr>fx_raw = Some raw, fx_commit = True, fx_env = (message_env_a, True)\<rparr>, \<lparr>fx_raw = Some raw, fx_commit = True, fx_env = (message_env_a, True)\<rparr>]
       (chat_store_a, []) = (HandlerFailed x, [], (chat_store_a, []))"
    by (rule u) (use v in \<open>simp_all add: stray_a_def chat_store_a_def rest_a_def pair_row_def\<close>)
  then show ?thesis using r by blast
qed

end
