(* ===== verification/Spec2Isabelle.thy ===== *)
theory Spec2Isabelle
  imports JobGroup SocketSession HttpRights ChatSamples
begin

text \<open>
  A model of the chat system fable, translated from its Go sources, and the theorems that make it correct.

  The program. Three processes deliver instant messages. \<^bold>\<open>Logic\<close> (\<open>internal/logic\<close>) owns the data: it keeps in Redis
  which connection of which Comet process serves a user (\<open>routing\<close>), stores messages in MySQL (\<open>messagestore\<close>) and publishes
  push tasks to Kafka (\<open>kafkapush\<close>); its RPC service ties these together. \<^bold>\<open>Comet\<close> (\<open>internal/comet\<close>) holds the WebSockets of
  users: it registers its instance with Logic, admits a socket after Logic granted the route, passes chat frames to Logic and
  accepts deliveries and kicks over RPC. \<^bold>\<open>Job\<close> (\<open>internal/job\<close>) consumes the push tasks, asks Logic where the recipients
  are, delivers to the Comets in rounds, and keeps what it cannot deliver as dead letters that a tool replays.
  A message goes from the socket of its sender (SocketHandler) to \<open>SubmitMessage\<close> (LogicService), the transaction
  (MessageStore), the publisher (KafkaPush), the partition worker of a Job (JobConsumer, JobRuntime), the processor
  (JobProcessor), the delivery handler of a Comet (CometRpc) and the queue of a connection (Hub).

  Conventions. A Go string and a byte slice are byte lists (\<open>string\<close>). An error result is a sum, \<open>Inl\<close> the error.
  A struct is a record with the field names shortened by a prefix, an enum a datatype. Effects are explicit: an operation takes
  the state it reads and returns the state it leaves, also when it fails. What the program does not decide is an argument: clock
  readings, fresh identifiers, the outcome of a context, a fault of a statement or a call, the reply of an RPC peer, the choice
  of a select. Third-party functions (JWT, the UUID parser, the URL parser, Unicode folding outside ASCII, MySQL's collation and
  JSON columns, the Kafka and WebSocket clients) are functions in the records \<open>lib\<close>, \<open>dbms\<close> and arguments beside them; what a
  theorem relies on of them is a named hypothesis such as \<open>dbms_documented\<close>, and the witnesses give concrete functions.

  Theories and code.
  \<^item> Prelude, GoText, Base64: the sum monad, byte strings, decimal and UTF-8 text, \<open>base64.RawURLEncoding\<close>.
  \<^item> Contract, Validation, Samples: protobuf messages and JSON objects (\<open>api/proto/fable/v1\<close>, \<open>internal/dto/im\<close>), the checks
    at every boundary (\<open>comet/validation.go\<close> and the checks of the store, the service and the task), sample identities.
  \<^item> LeaseScript, RouteStore, Routing: the Lua script of \<open>routing/scripts.go\<close> on a key space of typed values with
    deadlines, the Go API \<open>routing/store.go\<close> over it with faults of the Redis call, and runs of the store with clock ticks and key
    expiry. Well-formed key spaces are preserved; leases are bounded; a replaced connection cannot disturb its successor.
  \<^item> Fencing: the locale of a fenced registry, interpreted on the routing store (Routing), the connection table of a
    Comet (Hub) and the table of the single-process server (ChatHub).
  \<^item> Hub, CometRpc, Instance: the owner goroutine of \<open>comet/hub.go\<close> as a function per command, with runs as folds of
    \<open>hub_exec\<close>; the three handlers of \<open>comet/rpc.go\<close>; the registration and the renewal loop of \<open>comet/instance.go\<close>.
  \<^item> SocketHandler, SocketSession: \<open>comet/handler.go\<close> and \<open>comet/websocket.go\<close>, the life of one socket from the upgrade to
    its cleanup, heartbeats, reader and writer, and frames over the Logic service.
  \<^item> Json, GoTime, JobTask, TaskCodec: \<open>encoding/json\<close> as the program uses it, times in JSON, \<open>DecodeTask\<close> of
    \<open>job/task.go\<close>, the encoding of the publisher and their round trip.
  \<^item> JobProcessor, JobDelivery: \<open>job/processor.go\<close> and \<open>job/routing.go\<close>, a round of lookup, resolution and delivery, and the
    invariant of recipients and calls from which the properties of \<open>Process\<close> follow.
  \<^item> JobConsumer, JobAccounting: \<open>job/consumer.go\<close>, the loop of one partition with its ring of identities, and the monitor over
    its actions. The locale \<open>task_processor\<close> names what the loop needs of the processor.
  \<^item> JobReplay: \<open>job/replay.go\<close>, \<open>job/app/replay.go\<close> and the dead-letter encoder of \<open>job/app/kafka.go\<close>.
  \<^item> JobRuntime, JobGroup: \<open>job/app\<close>: configuration, the sink, the partition source, the loop of the group member, the fenced
    table of progress, the RPC pool, the sockets and \<open>Run\<close>; runs of a consumer group over the broker's log.
  \<^item> Database, MessageStore, MessageSync: the tables of \<open>internal/model\<close>, the transaction of \<open>messagestore/store.go\<close> and
    \<open>validation.go\<close>, the queries of \<open>sync.go\<close>, cursors and fingerprints.
  \<^item> KafkaPush, LogicService, LogicDelivery: the publisher, the RPC service (\<open>service.go\<close>, \<open>dispatch.go\<close>, \<open>transport.go\<close>,
    \<open>auth/jwt.go\<close>) over the routing store, the message store and the publisher, and the path of a message up to Job.
  \<^item> RestCache, GroupService, AccountService, AssistantService: the business services behind the HTTP API
    (\<open>internal/service\<close>): the Redis cache with lost and refused commands (\<open>redisservice\<close>), groups, accounts, sessions and contacts
    (\<open>gormservice\<close>) and what the assistant may read (\<open>aiservice\<close>), over the tables of Database; the record \<open>rest\<close> holds the tables
    and the cache, and \<open>run_tx\<close> is a transaction whose commit may be refused or lose its answer.
  \<^item> GroupMembers, GroupRuns, GroupRights, AssistantRights, GroupSamples: the invariant \<open>rest_inv\<close> that ties the member lists to
    the contacts and sessions, runs \<open>rest_run\<close> of all operations of the services with expiry of cache keys, what each step changes, the
    rights to become a member and to read, and the sample tables of the witnesses.
  \<^item> HttpApi, HttpRights: the token checks of \<open>https_server/auth_middleware.go\<close>, the controllers of \<open>api/v1\<close>, the routes, and the
    history handler and the probes of \<open>logic/http.go\<close>; every request has the effect of at most one operation of the user of its token.
  \<^item> ChatMessages, ChatHub, ChatApi, ChatSamples: the single-process server that predates the three processes. ChatMessages has the
    direct and group messages of \<open>gormservice/message_service.go\<close> and \<open>group_service.go\<close> with their cached lists
    (\<open>redisservice/message_cache.go\<close>), where \<open>any_json\<close> takes the text of a rewritten number as an argument; ChatHub has the clients
    and the server of \<open>service/chatservice\<close>, whose state \<open>chat_server\<close> changes by the events \<open>chat_exec\<close> in runs \<open>chat_run\<close>, a full
    queue, a closed client and the shutdown included; ChatApi has the Kafka mode (\<open>service/kafkaservice\<close>), the handler of \<open>main.go\<close>,
    the assistant's \<open>SendMessage\<close> and the controllers of messages and sockets; ChatSamples has the witnesses.

  What the properties show. C1 to C6: routing leases. C7 to C10: connection table, handlers and instance lease of a Comet.
  C11, C12: the task codec. C13 to C16: the delivery of a task. C17 to C21: accounting, dead letters and replay. C22 to C25:
  the message store and synchronisation. C26 to C28: the Logic service. C29, C30: sockets. C31, C32: the consumer group.
  C33 to C36: members of groups, over the services and over the HTTP API, and who may send and read. C37: what the assistant
  may read. C38: accounts. C39, C40: delivery by the single-process server, and the record that stops its Kafka consumer.
  Further theorems stand beside these (\<open>connect_takes_over\<close>, \<open>draining_is_one_way\<close>, \<open>drain_is_final\<close>,
  \<open>replay_tool_bounded\<close>, \<open>sync_pages_exact\<close>, \<open>late_unregisters_harmless\<close>, \<open>changed_tasks_conflict\<close>,
  \<open>healthy_operations_answer\<close>, \<open>chat_runs_sound\<close>).
  Each theorem with hypotheses has a witness on the sample identities.

  Bounds and fuel. Recursion is structural or has a measure; three places count steps. The processor runs at most three rounds,
  as the code does. The reader of JSON is bounded by a multiple of the length of its text; every call consumes a character or
  enters a value, so the bound is not met, and the round trips prove it for every text the program writes. Following the cursors
  of a conversation counts pages, and \<open>sync_walk_complete\<close> shows that one more than the messages left is enough.
  The loops of processes (\<open>hub_exec\<close>, \<open>renew_run\<close>, \<open>run_partition\<close>, \<open>member_run\<close>, \<open>heartbeat_run\<close>, \<open>read_run\<close>, \<open>writer_run\<close>)
  consume a list of what the environment does, one entry per iteration, so a run of any length is covered; \<open>rest_run\<close> and
  \<open>chat_run\<close> are folds over any list of requests and events. The inductive relations
  \<open>route_step\<close>, \<open>store_run\<close> and \<open>group_step\<close> interleave the operations of any number of callers. What must happen is stated as
  the existence of a continuation (\<open>records_accounted_at_least_once\<close>) or as the value after enough time (\<open>silent_route_expires\<close>).

  Not modelled. The generated protobuf code (\<open>api/gen\<close>), whose records Contract describes; the start of processes, flags and
  signal handling (\<open>cmd\<close>, \<open>logic/app\<close>, \<open>comet/app\<close>, \<open>dao\<close>, \<open>config\<close>); counters and the text of \<open>/metrics\<close>
  (\<open>logic/observability.go\<close>, parts of \<open>comet\<close> and \<open>job/app\<close>); the wiring and closing of the Kafka clients of \<open>kafkaservice\<close>;
  the adapters of the assistant tools to their library (\<open>mcpserver\<close>); the helpers of local development (\<open>localdev\<close>) and the
  documentation server (\<open>httpdocs\<close>).
\<close>

end
